(* ===== verification/Prelude.thy ===== *)
theory Prelude
  imports Main "HOL-Library.Word" "HOL-Library.Multiset"
begin

text \<open>
  Shared vocabulary of the development.

  \<^item> \<open>fault\<close> lists the ways the C code stops instead of returning: a call of
    \<open>NaClLog(LOG_FATAL, ...)\<close> (which aborts the process), a failed \<open>CHECK\<close> or
    \<open>assert\<close>, the dereference of a null pointer, an array access out of range, or the use
    of a pointer that was never set.
  \<^item> \<open>'a run\<close> is the result of code that may stop in one of these ways, with
    \<open>bindE\<close> as sequencing.
  \<^item> \<open>u32\<close>, \<open>u64\<close> are the machine integers; signed C integers of the same width have
    the same bits and are read with \<open>sint\<close> where the code compares them as signed.
  \<^item> Generic lemmas about lists, words and results that the components share, in the
    collections \<open>run_simps\<close> and \<open>upd_simps\<close>.
\<close>

named_theorems run_simps \<open>evaluation of fallible computations\<close>
named_theorems upd_simps \<open>reading an array after in-place updates\<close>

unbundle bit_operations_syntax

type_synonym u8 = "8 word"
type_synonym u16 = "16 word"
type_synonym u32 = "32 word"
type_synonym u64 = "64 word"

section \<open>Faults and fallible results\<close>

datatype fault =
    LogFatal     \<comment> \<open>\<open>NaClLog(LOG_FATAL, ...)\<close>: the process aborts\<close>
  | CheckFailed  \<comment> \<open>a \<open>CHECK\<close> or \<open>assert\<close> does not hold\<close>
  | NullDeref    \<comment> \<open>a null pointer is dereferenced\<close>
  | OutOfBounds  \<comment> \<open>an array is accessed outside its bounds\<close>
  | Uninit       \<comment> \<open>a pointer that was never set is used\<close>

type_synonym 'a run = "fault + 'a"

definition bindE :: "'a run \<Rightarrow> ('a \<Rightarrow> 'b run) \<Rightarrow> 'b run" where
  "bindE m f = (case m of Inl e \<Rightarrow> Inl e | Inr x \<Rightarrow> f x)"

definition guardE :: "fault \<Rightarrow> bool \<Rightarrow> 'a run \<Rightarrow> 'a run" where
  "guardE e b m = (if b then m else Inl e)"

lemma bindE_simps [simp, run_simps]:
  "bindE (Inr x) f = f x"
  "bindE (Inl e) f = Inl e"
  by (simp_all add: bindE_def)

lemma bindE_eq_Inr [run_simps]: "bindE m f = Inr y \<longleftrightarrow> (\<exists>x. m = Inr x \<and> f x = Inr y)"
  by (cases m) auto

lemma guardE_eq_Inr [run_simps]: "guardE e b m = Inr y \<longleftrightarrow> b \<and> m = Inr y"
  by (simp add: guardE_def)

lemma guardE_True [simp, run_simps]: "guardE e True m = m"
  by (simp add: guardE_def)

lemma bindE_cong [fundef_cong]:
  "m = m' \<Longrightarrow> (\<And>x. m' = Inr x \<Longrightarrow> f x = g x) \<Longrightarrow> bindE m f = bindE m' g"
  by (cases m') auto

lemma guardE_cong [fundef_cong]:
  "e = e' \<Longrightarrow> b = b' \<Longrightarrow> (b' \<Longrightarrow> m = m') \<Longrightarrow> guardE e b m = guardE e' b' m'"
  by (simp add: guardE_def)

lemma those_map_Some [simp]: "those (map Some xs) = Some xs"
  by (induction xs) auto

section \<open>Arrays: exchanging two elements\<close>

definition swap :: "nat \<Rightarrow> nat \<Rightarrow> 'a list \<Rightarrow> 'a list" where
  "swap i j xs = xs[i := xs ! j, j := xs ! i]"

lemma length_swap [simp, upd_simps]: "length (swap i j xs) = length xs"
  by (simp add: swap_def)

lemma nth_swap [upd_simps]:
  "i < length xs \<Longrightarrow> j < length xs \<Longrightarrow>
     swap i j xs ! k = (if k = i then xs ! j else if k = j then xs ! i else xs ! k)"
  by (auto simp: swap_def nth_list_update)

lemma mset_swap_eq [simp]:
  "i < length xs \<Longrightarrow> j < length xs \<Longrightarrow> mset (swap i j xs) = mset xs"
  by (simp add: swap_def mset_swap)

lemma set_swap_eq [simp]:
  "i < length xs \<Longrightarrow> j < length xs \<Longrightarrow> set (swap i j xs) = set xs"
  by (metis mset_swap_eq set_mset_mset)

end
