(* ===== verification/CSort.thy ===== *)
theory CSort
  imports Prelude
begin

text \<open>
  The enclave's own \<open>qsort\<close> and \<open>bsearch\<close> (\<open>trusted/stdlib/qsort.c\<close>), which sort and
  search the memory map of the sandbox. An array of \<open>n\<close> elements of size \<open>es\<close> is a list
  of length \<open>n\<close>; the byte pointers \<open>a + i * es\<close> of the code are the indices \<open>i\<close>, so
  that \<open>pa\<close>, \<open>pb\<close>, \<open>pc\<close>, \<open>pd\<close>, \<open>pl\<close>, \<open>pm\<close> and \<open>pn\<close> below are the code's pointers
  divided by \<open>es\<close>. The sub-array that a recursive call (or the final \<open>goto loop\<close>) sorts
  in place is the list segment \<open>take r\<close> or \<open>drop (n - r)\<close>.

  The code keeps byte lengths (\<open>d\<close>, \<open>r\<close>, \<open>(int) es\<close>) in variables of type \<open>int\<close>. The sort is
  modelled in two layers: \<open>qsort_elems\<close> is the algorithm on indices, and \<open>qsort\<close> runs it
  on elements of \<open>es\<close> bytes and gives \<open>None\<close> as soon as a length is stored that an
  \<open>int\<close> does not hold (the code then goes on with a truncated length, which is not
  modelled). \<open>qsort_fits\<close> shows that this does not happen to an array of fewer than
  \<open>2 ^ 31\<close> bytes. \<open>bsearch\<close> is treated in the same way, its \<open>int lim\<close> by truncation of
  the number of elements.
\<close>

section \<open>The code\<close>

fun vecswap :: "nat \<Rightarrow> nat \<Rightarrow> nat \<Rightarrow> 'a list \<Rightarrow> 'a list" where
  "vecswap i j 0 xs = xs"
| "vecswap i j (Suc n) xs = vecswap (Suc i) (Suc j) n (swap i j xs)"

definition med3 :: "('a \<Rightarrow> 'a \<Rightarrow> int) \<Rightarrow> 'a list \<Rightarrow> nat \<Rightarrow> nat \<Rightarrow> nat \<Rightarrow> nat" where
  "med3 cmp xs a b c =
     (if cmp (xs ! a) (xs ! b) < 0
      then (if cmp (xs ! b) (xs ! c) < 0 then b
            else if cmp (xs ! a) (xs ! c) < 0 then c else a)
      else (if cmp (xs ! b) (xs ! c) > 0 then b
            else if cmp (xs ! a) (xs ! c) < 0 then a else c))"

text \<open>The insertion sort that the code uses for short arrays, and again when the
  partition made no exchange: \<open>isort_sink\<close> is the inner loop over \<open>pl\<close>.\<close>

fun isort_sink :: "('a \<Rightarrow> 'a \<Rightarrow> int) \<Rightarrow> nat \<Rightarrow> 'a list \<Rightarrow> 'a list" where
  "isort_sink cmp 0 xs = xs"
| "isort_sink cmp (Suc pl) xs =
     (if cmp (xs ! pl) (xs ! Suc pl) > 0
      then isort_sink cmp pl (swap (Suc pl) pl xs) else xs)"

function isort :: "('a \<Rightarrow> 'a \<Rightarrow> int) \<Rightarrow> nat \<Rightarrow> nat \<Rightarrow> 'a list \<Rightarrow> 'a list" where
  "isort cmp pm n xs = (if pm < n then isort cmp (Suc pm) n (isort_sink cmp pm xs) else xs)"
  by pat_completeness auto
termination
  by (relation "measure (\<lambda>(cmp, pm, n, xs). n - pm)") auto

declare isort.simps [simp del]

text \<open>The two inner loops of the partition: from the left over elements not above the
  pivot \<open>xs ! 0\<close>, from the right over elements not below it. Elements equal to the pivot
  are moved to the ends, and \<open>sc\<close> is \<open>swap_cnt\<close>. The code starts with
  \<open>pb = a + es\<close>, so the index \<open>pb\<close> is never 0: the conjunct \<open>0 < pb\<close> only tells the
  termination check so.\<close>

function part_left ::
  "('a \<Rightarrow> 'a \<Rightarrow> int) \<Rightarrow> nat \<Rightarrow> nat \<Rightarrow> nat \<Rightarrow> bool \<Rightarrow> 'a list \<Rightarrow> nat \<times> nat \<times> bool \<times> 'a list" where
  "part_left cmp pa pb pc sc xs =
     (if pb \<le> pc \<and> cmp (xs ! pb) (xs ! 0) \<le> 0
      then if cmp (xs ! pb) (xs ! 0) = 0
           then part_left cmp (Suc pa) (Suc pb) pc True (swap pa pb xs)
           else part_left cmp pa (Suc pb) pc sc xs
      else (pa, pb, sc, xs))"
  by pat_completeness auto
termination
  by (relation "measure (\<lambda>(cmp, pa, pb, pc, sc, xs). Suc pc - pb)") auto

declare part_left.simps [simp del]

function part_right ::
  "('a \<Rightarrow> 'a \<Rightarrow> int) \<Rightarrow> nat \<Rightarrow> nat \<Rightarrow> nat \<Rightarrow> bool \<Rightarrow> 'a list \<Rightarrow> nat \<times> nat \<times> bool \<times> 'a list" where
  "part_right cmp pb pc pd sc xs =
     (if 0 < pb \<and> pb \<le> pc \<and> cmp (xs ! pc) (xs ! 0) \<ge> 0
      then if cmp (xs ! pc) (xs ! 0) = 0
           then part_right cmp pb (pc - 1) (pd - 1) True (swap pc pd xs)
           else part_right cmp pb (pc - 1) pd sc xs
      else (pc, pd, sc, xs))"
  by pat_completeness auto
termination
  by (relation "measure (\<lambda>(cmp, pb, pc, pd, sc, xs). pc)") auto

declare part_right.simps [simp del]

lemma part_left_mono: "part_left cmp pa pb pc sc xs = (pa', pb', sc', xs') \<Longrightarrow> pb \<le> pb'"
proof (induction cmp pa pb pc sc xs rule: part_left.induct)
  case (1 cmp pa pb pc sc xs)
  show ?case
  proof (cases "pb \<le> pc \<and> cmp (xs ! pb) (xs ! 0) \<le> 0")
    case True
    with 1 show ?thesis
      by (auto simp: part_left.simps [of cmp pa pb pc sc xs] split: if_splits)
  next
    case False
    with 1 show ?thesis by (auto simp: part_left.simps [of cmp pa pb pc sc xs])
  qed
qed

lemma part_right_mono: "part_right cmp pb pc pd sc xs = (pc', pd', sc', xs') \<Longrightarrow> pc' \<le> pc"
proof (induction cmp pb pc pd sc xs rule: part_right.induct)
  case (1 cmp pb pc pd sc xs)
  show ?case
  proof (cases "0 < pb \<and> pb \<le> pc \<and> cmp (xs ! pc) (xs ! 0) \<ge> 0")
    case True
    with 1 show ?thesis
      by (fastforce simp: part_right.simps [of cmp pb pc pd sc xs] split: if_splits)
  next
    case False
    with 1 show ?thesis by (auto simp: part_right.simps [of cmp pb pc pd sc xs])
  qed
qed

text \<open>The \<open>for (;;)\<close> loop of the partition.\<close>

function partition3 ::
  "('a \<Rightarrow> 'a \<Rightarrow> int) \<Rightarrow> nat \<Rightarrow> nat \<Rightarrow> nat \<Rightarrow> nat \<Rightarrow> bool \<Rightarrow> 'a list
   \<Rightarrow> nat \<times> nat \<times> nat \<times> nat \<times> bool \<times> 'a list" where
  "partition3 cmp pa pb pc pd sc xs =
     (case part_left cmp pa pb pc sc xs of (pa', pb', sc1, xs1) \<Rightarrow>
      case part_right cmp pb' pc pd sc1 xs1 of (pc', pd', sc2, xs2) \<Rightarrow>
        if pb' > pc' then (pa', pb', pc', pd', sc2, xs2)
        else partition3 cmp pa' (Suc pb') (pc' - 1) pd' True (swap pb' pc' xs2))"
  by pat_completeness auto
termination
  by (relation "measure (\<lambda>(cmp, pa, pb, pc, pd, sc, xs). Suc pc - pb)")
    (auto dest!: part_left_mono part_right_mono [OF sym] part_left_mono [OF sym])

declare partition3.simps [simp del]


text \<open>The pointers stay ordered and inside the array, whatever the comparison does.\<close>

definition part_bounds :: "nat \<Rightarrow> nat \<Rightarrow> nat \<Rightarrow> nat \<Rightarrow> nat \<Rightarrow> bool" where
  "part_bounds n pa pb pc pd \<longleftrightarrow> 1 \<le> pa \<and> pa \<le> pb \<and> pb \<le> Suc pc \<and> pc \<le> pd \<and> pd < n"

lemma part_left_bounds:
  "part_left cmp pa pb pc sc xs = (pa', pb', sc', xs') \<Longrightarrow> part_bounds (length xs) pa pb pc pd \<Longrightarrow>
     part_bounds (length xs) pa' pb' pc pd \<and> mset xs' = mset xs \<and> length xs' = length xs"
proof (induction cmp pa pb pc sc xs rule: part_left.induct)
  case (1 cmp pa pb pc sc xs)
  have b: "1 \<le> pa" "pa \<le> pb" "pb \<le> Suc pc" "pc \<le> pd" "pd < length xs"
    using "1.prems"(2) by (auto simp: part_bounds_def)
  show ?case
  proof (cases "pb \<le> pc \<and> cmp (xs ! pb) (xs ! 0) \<le> 0")
    case go: True
    show ?thesis
    proof (cases "cmp (xs ! pb) (xs ! 0) = 0")
      case True
      have "part_bounds (length (swap pa pb xs)) (Suc pa) (Suc pb) pc pd"
        using b go by (auto simp: part_bounds_def)
      with "1.IH"(1) [OF go True] "1.prems"(1) go True b show ?thesis
        by (auto simp: part_left.simps [of cmp pa pb pc sc xs])
    next
      case False
      have "part_bounds (length xs) pa (Suc pb) pc pd"
        using b go by (auto simp: part_bounds_def)
      with "1.IH"(2) [OF go False] "1.prems"(1) go False show ?thesis
        by (auto simp: part_left.simps [of cmp pa pb pc sc xs])
    qed
  next
    case False
    with 1 show ?thesis by (auto simp: part_left.simps [of cmp pa pb pc sc xs])
  qed
qed

lemma part_right_bounds:
  "part_right cmp pb pc pd sc xs = (pc', pd', sc', xs') \<Longrightarrow> part_bounds (length xs) pa pb pc pd \<Longrightarrow>
     part_bounds (length xs) pa pb pc' pd' \<and> mset xs' = mset xs \<and> length xs' = length xs"
proof (induction cmp pb pc pd sc xs rule: part_right.induct)
  case (1 cmp pb pc pd sc xs)
  have b: "1 \<le> pa" "pa \<le> pb" "pb \<le> Suc pc" "pc \<le> pd" "pd < length xs"
    using "1.prems"(2) by (auto simp: part_bounds_def)
  show ?case
  proof (cases "0 < pb \<and> pb \<le> pc \<and> cmp (xs ! pc) (xs ! 0) \<ge> 0")
    case go: True
    show ?thesis
    proof (cases "cmp (xs ! pc) (xs ! 0) = 0")
      case True
      have "part_bounds (length (swap pc pd xs)) pa pb (pc - 1) (pd - 1)"
        using b go by (auto simp: part_bounds_def)
      with "1.IH"(1) [OF go True] "1.prems"(1) go True b show ?thesis
        by (auto simp: part_right.simps [of cmp pb pc pd sc xs] part_bounds_def)
    next
      case False
      have "part_bounds (length xs) pa pb (pc - 1) pd"
        using b go by (auto simp: part_bounds_def)
      with "1.IH"(2) [OF go False] "1.prems"(1) go False show ?thesis
        by (auto simp: part_right.simps [of cmp pb pc pd sc xs])
    qed
  next
    case False
    with 1 show ?thesis by (auto simp: part_right.simps [of cmp pb pc pd sc xs])
  qed
qed

lemma part_left_stop:
  "part_left cmp pa pb pc sc xs = (pa', pb', sc', xs') \<Longrightarrow>
     pc < pb' \<or> cmp (xs' ! pb') (xs' ! 0) > 0"
proof (induction cmp pa pb pc sc xs rule: part_left.induct)
  case (1 cmp pa pb pc sc xs)
  show ?case
    by (cases "pb \<le> pc \<and> cmp (xs ! pb) (xs ! 0) \<le> 0"; cases "cmp (xs ! pb) (xs ! 0) = 0")
      (use 1 in \<open>auto simp: part_left.simps [of cmp pa pb pc sc xs]\<close>)
qed

lemma part_right_stop:
  "part_right cmp pb pc pd sc xs = (pc', pd', sc', xs') \<Longrightarrow> 0 < pb \<Longrightarrow>
     pc' < pb \<or> cmp (xs' ! pc') (xs' ! 0) < 0"
proof (induction cmp pb pc pd sc xs rule: part_right.induct)
  case (1 cmp pb pc pd sc xs)
  show ?case
    by (cases "0 < pb \<and> pb \<le> pc \<and> cmp (xs ! pc) (xs ! 0) \<ge> 0"; cases "cmp (xs ! pc) (xs ! 0) = 0")
      (use 1 in \<open>auto simp: part_right.simps [of cmp pb pc pd sc xs]\<close>)
qed

lemma part_right_keep:
  "part_right cmp pb pc pd sc xs = (pc', pd', sc', xs') \<Longrightarrow> part_bounds (length xs) pa pb pc pd \<Longrightarrow>
     i \<le> pc' \<Longrightarrow> xs' ! i = xs ! i"
proof (induction cmp pb pc pd sc xs rule: part_right.induct)
  case (1 cmp pb pc pd sc xs)
  have b: "1 \<le> pa" "pa \<le> pb" "pb \<le> Suc pc" "pc \<le> pd" "pd < length xs"
    using "1.prems"(2) by (auto simp: part_bounds_def)
  show ?case
  proof (cases "0 < pb \<and> pb \<le> pc \<and> cmp (xs ! pc) (xs ! 0) \<ge> 0")
    case go: True
    show ?thesis
    proof (cases "cmp (xs ! pc) (xs ! 0) = 0")
      case True
      have eq: "part_right cmp pb (pc - 1) (pd - 1) True (swap pc pd xs) = (pc', pd', sc', xs')"
        using "1.prems"(1) go True by (simp add: part_right.simps [of cmp pb pc pd sc xs])
      have "part_bounds (length (swap pc pd xs)) pa pb (pc - 1) (pd - 1)"
        using b go by (auto simp: part_bounds_def)
      then have "xs' ! i = swap pc pd xs ! i"
        using "1.IH"(1) [OF go True eq] "1.prems"(3) by simp
      moreover have "i < pc" using part_right_mono [OF eq] "1.prems"(3) go by auto
      ultimately show ?thesis using b by (simp add: nth_swap)
    next
      case False
      have "part_bounds (length xs) pa pb (pc - 1) pd"
        using b go by (auto simp: part_bounds_def)
      with "1.IH"(2) [OF go False] 1 go False show ?thesis
        by (auto simp: part_right.simps [of cmp pb pc pd sc xs])
    qed
  next
    case False
    with 1 show ?thesis by (auto simp: part_right.simps [of cmp pb pc pd sc xs])
  qed
qed

lemma partition3_bounds:
  "partition3 cmp pa pb pc pd sc xs = (pa', pb', pc', pd', sc', xs') \<Longrightarrow>
   part_bounds (length xs) pa pb pc pd \<Longrightarrow>
     part_bounds (length xs) pa' pb' pc' pd' \<and> pb' > pc' \<and> mset xs' = mset xs
     \<and> length xs' = length xs"
proof (induction cmp pa pb pc pd sc xs rule: partition3.induct)
  case (1 cmp pa pb pc pd sc xs)
  obtain pa1 pb1 sc1 xs1 where l: "part_left cmp pa pb pc sc xs = (pa1, pb1, sc1, xs1)"
    by (metis prod_cases4)
  obtain pc1 pd1 sc2 xs2 where r: "part_right cmp pb1 pc pd sc1 xs1 = (pc1, pd1, sc2, xs2)"
    by (metis prod_cases4)
  have bl: "part_bounds (length xs) pa1 pb1 pc pd" "mset xs1 = mset xs" "length xs1 = length xs"
    using part_left_bounds [OF l "1.prems"(2)] by auto
  have br: "part_bounds (length xs) pa1 pb1 pc1 pd1" "mset xs2 = mset xs" "length xs2 = length xs"
    using part_right_bounds [OF r, of pa1] bl by auto
  show ?case
  proof (cases "pb1 > pc1")
    case True
    with "1.prems"(1) br show ?thesis by (auto simp: partition3.simps [of cmp pa] l r)
  next
    case False
    show ?thesis
    proof (cases "pb1 = pc1")
      case True
      have "0 < pb1" using br(1) by (auto simp: part_bounds_def)
      have "cmp (xs1 ! pb1) (xs1 ! 0) > 0"
        using part_left_stop [OF l] part_right_mono [OF r] False True by auto
      moreover have "cmp (xs2 ! pc1) (xs2 ! 0) < 0"
        using part_right_stop [OF r] \<open>0 < pb1\<close> True by auto
      moreover have "xs2 ! pc1 = xs1 ! pc1" "xs2 ! 0 = xs1 ! 0"
        using part_right_keep [OF r, of pa1] bl by auto
      ultimately have False using True by simp
      then show ?thesis ..
    next
      case ne: False
      have "part_bounds (length (swap pb1 pc1 xs2)) pa1 (Suc pb1) (pc1 - 1) pd1"
        using br False ne by (auto simp: part_bounds_def)
      moreover have "pb1 < length xs2" "pc1 < length xs2"
        using br False by (auto simp: part_bounds_def)
      ultimately show ?thesis
        using "1.IH" [OF l [symmetric] refl refl r [symmetric] refl refl False]
          "1.prems"(1) br False
        by (auto simp: partition3.simps [of cmp pa] l r)
    qed
  qed
qed

text \<open>The body of \<open>qsort\<close> on indices. \<open>r\<close> is computed with the \<open>min\<close> macro; the recursive call sorts the
  first \<open>pb - pa\<close> elements and the \<open>goto loop\<close> the last \<open>pd - pc\<close> ones;
  the two segments do not meet, so their order does not matter.\<close>

definition qsort_pivot :: "('a \<Rightarrow> 'a \<Rightarrow> int) \<Rightarrow> 'a list \<Rightarrow> nat" where
  "qsort_pivot cmp xs =
     (let n = length xs; pm = n div 2 in
      if n > 7 then
        let pl = 0; pn = n - 1;
            (pl, pm, pn) =
              (if n > 40 then
                 let d = n div 8 in
                 (med3 cmp xs pl (pl + d) (pl + 2 * d), med3 cmp xs (pm - d) pm (pm + d),
                  med3 cmp xs (pn - 2 * d) (pn - d) pn)
               else (pl, pm, pn))
        in med3 cmp xs pl pm pn
      else pm)"

definition qsort_gather :: "nat \<Rightarrow> nat \<Rightarrow> nat \<Rightarrow> nat \<Rightarrow> 'a list \<Rightarrow> 'a list" where
  "qsort_gather pa pb pc pd xs =
     (let n = length xs;
          r = min pa (pb - pa);
          ys = vecswap 0 (pb - r) r xs;
          r' = min (pd - pc) (n - pd - 1)
      in vecswap pb (n - r') r' ys)"

lemma length_vecswap [simp]: "length (vecswap i j n xs) = length xs"
  by (induction i j n xs rule: vecswap.induct) auto

lemma length_qsort_gather [simp]: "length (qsort_gather pa pb pc pd xs) = length xs"
  by (simp add: qsort_gather_def Let_def)

lemma part_bounds_start: "2 \<le> n \<Longrightarrow> part_bounds n 1 1 (n - 1) (n - 1)"
  by (auto simp: part_bounds_def)

lemma partition3_shrinks:
  "(pa, pb, pc, pd, sc, ys) =
     partition3 cmp (Suc 0) (Suc 0) (length xs - Suc 0) (length xs - Suc 0) False (swap 0 i xs) \<Longrightarrow>
   \<not> length xs < 7 \<Longrightarrow>
     length ys = length xs \<and> pb - pa < length xs \<and> pd - pc < length xs \<and> length xs > 0"
proof -
  assume eq: "(pa, pb, pc, pd, sc, ys) =
     partition3 cmp (Suc 0) (Suc 0) (length xs - Suc 0) (length xs - Suc 0) False (swap 0 i xs)"
    and n: "\<not> length xs < 7"
  have "part_bounds (length (swap 0 i xs)) (Suc 0) (Suc 0) (length xs - Suc 0) (length xs - Suc 0)"
    using n by (auto simp: part_bounds_def)
  from partition3_bounds [OF eq [symmetric] this] n show ?thesis
    by (auto simp: part_bounds_def)
qed

function qsort_elems :: "('a \<Rightarrow> 'a \<Rightarrow> int) \<Rightarrow> 'a list \<Rightarrow> 'a list" where
  "qsort_elems cmp xs =
     (let n = length xs in
      if n < 7 then isort cmp 1 n xs
      else
        case partition3 cmp 1 1 (n - 1) (n - 1) False (swap 0 (qsort_pivot cmp xs) xs)
        of (pa, pb, pc, pd, swap_cnt, ys) \<Rightarrow>
          if \<not> swap_cnt then isort cmp 1 n ys
          else
            let zs = qsort_gather pa pb pc pd ys;
                r = pb - pa; r' = pd - pc;
                lo = (if r > 1 then qsort_elems cmp (take r zs) else take r zs);
                hi = (if r' > 1 then qsort_elems cmp (drop (n - r') zs) else drop (n - r') zs)
            in lo @ take (n - r' - r) (drop r zs) @ hi)"
  by pat_completeness auto
termination
  by (relation "measure (\<lambda>(cmp, xs). length xs)") (auto dest!: partition3_shrinks)

declare qsort_elems.simps [simp del]

section \<open>Every element is kept\<close>

lemma mset_vecswap: "i + n \<le> length xs \<Longrightarrow> j + n \<le> length xs \<Longrightarrow> mset (vecswap i j n xs) = mset xs"
  by (induction i j n xs rule: vecswap.induct) auto

lemma mset_isort_sink: "pl < length xs \<Longrightarrow>
    mset (isort_sink cmp pl xs) = mset xs \<and> length (isort_sink cmp pl xs) = length xs"
  by (induction cmp pl xs rule: isort_sink.induct) auto

lemma mset_isort: "n \<le> length xs \<Longrightarrow>
    mset (isort cmp pm n xs) = mset xs \<and> length (isort cmp pm n xs) = length xs"
proof (induction cmp pm n xs rule: isort.induct)
  case (1 cmp pm n xs)
  then show ?case
    by (cases "pm < n") (auto simp: isort.simps [of cmp pm n xs] mset_isort_sink)
qed

lemma med3_cases: "med3 cmp xs a b c \<in> {a, b, c}"
  by (simp add: med3_def)

lemma med3_less: "a < n \<Longrightarrow> b < n \<Longrightarrow> c < n \<Longrightarrow> med3 cmp xs a b c < n"
  using med3_cases [of cmp xs a b c] by auto

lemma qsort_pivot_less: "7 \<le> length xs \<Longrightarrow> qsort_pivot cmp xs < length xs"
  by (auto simp: qsort_pivot_def Let_def intro!: med3_less)

lemma mset_qsort_gather:
  "part_bounds (length xs) pa pb pc pd \<Longrightarrow> pb > pc \<Longrightarrow> mset (qsort_gather pa pb pc pd xs) = mset xs"
  by (auto simp: qsort_gather_def Let_def part_bounds_def intro!: trans [OF mset_vecswap])

lemma mset_segments:
  "l + r \<le> length zs \<Longrightarrow> mset lo = mset (take l zs) \<Longrightarrow> mset hi = mset (drop (length zs - r) zs) \<Longrightarrow>
     mset (lo @ take (length zs - r - l) (drop l zs) @ hi) = mset zs"
proof -
  assume le: "l + r \<le> length zs" and m: "mset lo = mset (take l zs)"
    "mset hi = mset (drop (length zs - r) zs)"
  have "take l zs @ take (length zs - r - l) (drop l zs) @ drop (length zs - r) zs = zs"
    using le by (metis (no_types, lifting) add_le_imp_le_diff append.assoc append_take_drop_id
        le_add_diff_inverse take_add)
  then show ?thesis by (metis m mset_append)
qed

lemma qsort_partition:
  assumes n: "\<not> length xs < 7"
    and eq: "partition3 cmp 1 1 (length xs - 1) (length xs - 1) False (swap 0 (qsort_pivot cmp xs) xs)
       = (pa, pb, pc, pd, sc, ys)"
  shows "part_bounds (length xs) pa pb pc pd" "pb > pc" "mset ys = mset xs" "length ys = length xs"
proof -
  have "part_bounds (length (swap 0 (qsort_pivot cmp xs) xs)) 1 1 (length xs - 1) (length xs - 1)"
    using n by (auto simp: part_bounds_def)
  moreover have "mset (swap 0 (qsort_pivot cmp xs) xs) = mset xs"
    using n qsort_pivot_less [of xs cmp] by (intro mset_swap_eq) auto
  ultimately show "part_bounds (length xs) pa pb pc pd" "pb > pc" "mset ys = mset xs"
      "length ys = length xs"
    using partition3_bounds [OF eq] by auto
qed

lemma mset_qsort: "mset (qsort_elems cmp xs) = mset xs"
proof (induction cmp xs rule: qsort_elems.induct)
  case (1 cmp xs)
  show ?case
  proof (cases "length xs < 7")
    case True
    then show ?thesis by (simp add: qsort_elems.simps [of cmp xs] mset_isort)
  next
    case n: False
    obtain pa pb pc pd sc ys where eq: "partition3 cmp 1 1 (length xs - 1) (length xs - 1) False
        (swap 0 (qsort_pivot cmp xs) xs) = (pa, pb, pc, pd, sc, ys)"
      by (metis prod_cases6)
    note pp = qsort_partition [OF n eq]
    let ?zs = "qsort_gather pa pb pc pd ys"
    have len: "length ?zs = length xs" and mz: "mset ?zs = mset xs"
      using pp mset_qsort_gather [of ys pa pb pc pd] by auto
    have seg: "(pb - pa) + (pd - pc) \<le> length ?zs"
      using pp len by (auto simp: part_bounds_def)
    show ?thesis
    proof (cases sc)
      case True
      note IH = "1.IH"(1) [OF refl n eq [symmetric] refl refl refl refl _ refl refl refl]
        "1.IH"(2) [OF refl n eq [symmetric] refl refl refl refl _ refl refl refl refl]
      have "mset (if pb - pa > 1 then qsort_elems cmp (take (pb - pa) ?zs) else take (pb - pa) ?zs)
          = mset (take (pb - pa) ?zs)"
        using IH(1) True by simp
      moreover have "mset (if pd - pc > 1 then qsort_elems cmp (drop (length xs - (pd - pc)) ?zs)
            else drop (length xs - (pd - pc)) ?zs) = mset (drop (length ?zs - (pd - pc)) ?zs)"
        using IH(2) True len by simp
      ultimately show ?thesis
        using mset_segments [OF seg] True n eq mz len
        by (simp add: qsort_elems.simps [of cmp xs] Let_def)
    next
      case False
      with n eq pp show ?thesis by (simp add: qsort_elems.simps [of cmp xs] mset_isort)
    qed
  qed
qed

lemma length_qsort [simp]: "length (qsort_elems cmp xs) = length xs"
  by (metis mset_qsort size_mset)

lemma set_qsort [simp]: "set (qsort_elems cmp xs) = set xs"
  by (metis mset_qsort set_mset_mset)

section \<open>The result is sorted\<close>

text \<open>The comparison orders the elements of \<open>S\<close> by an integer key.\<close>

definition cmp_by :: "('a \<Rightarrow> 'a \<Rightarrow> int) \<Rightarrow> ('a \<Rightarrow> int) \<Rightarrow> 'a set \<Rightarrow> bool" where
  "cmp_by cmp key S \<longleftrightarrow> (\<forall>x\<in>S. \<forall>y\<in>S. sgn (cmp x y) = sgn (key x - key y))"

lemma cmp_by_cases:
  assumes "cmp_by cmp key S" "x \<in> S" "y \<in> S"
  shows "cmp x y < 0 \<longleftrightarrow> key x < key y" "cmp x y = 0 \<longleftrightarrow> key x = key y"
    "cmp x y > 0 \<longleftrightarrow> key x > key y" "cmp x y \<le> 0 \<longleftrightarrow> key x \<le> key y" "cmp x y \<ge> 0 \<longleftrightarrow> key x \<ge> key y"
proof -
  have "sgn (cmp x y) = sgn (key x - key y)" using assms by (auto simp: cmp_by_def)
  then show "cmp x y < 0 \<longleftrightarrow> key x < key y" "cmp x y = 0 \<longleftrightarrow> key x = key y"
    "cmp x y > 0 \<longleftrightarrow> key x > key y" "cmp x y \<le> 0 \<longleftrightarrow> key x \<le> key y" "cmp x y \<ge> 0 \<longleftrightarrow> key x \<ge> key y"
    by (auto simp: sgn_if split: if_splits)
qed

lemma cmp_by_subset: "cmp_by cmp key S \<Longrightarrow> T \<subseteq> S \<Longrightarrow> cmp_by cmp key T"
  by (auto simp: cmp_by_def)

text \<open>Insertion sort: the prefix up to the sinking element is sorted but for that element.\<close>

lemma isort_sink_sorted:
  "pl \<le> m \<Longrightarrow> m < length xs \<Longrightarrow> cmp_by cmp key (set xs) \<Longrightarrow>
   (\<And>i j. i < j \<Longrightarrow> j \<le> m \<Longrightarrow> i \<noteq> pl \<Longrightarrow> j \<noteq> pl \<Longrightarrow> key (xs ! i) \<le> key (xs ! j)) \<Longrightarrow>
   (\<And>j. pl < j \<Longrightarrow> j \<le> m \<Longrightarrow> key (xs ! pl) \<le> key (xs ! j)) \<Longrightarrow>
   i < j \<Longrightarrow> j \<le> m \<Longrightarrow> key (isort_sink cmp pl xs ! i) \<le> key (isort_sink cmp pl xs ! j)"
proof (induction cmp pl xs arbitrary: i j rule: isort_sink.induct)
  case (1 cmp xs)
  then show ?case by (cases "i = 0") auto
next
  case (2 cmp pl xs)
  have in_set: "xs ! pl \<in> set xs" "xs ! Suc pl \<in> set xs" using 2 by auto
  note c = cmp_by_cases [OF "2.prems"(3) in_set]
  let ?ys = "swap (Suc pl) pl xs"
  show ?case
  proof (cases "cmp (xs ! pl) (xs ! Suc pl) > 0")
    case True
    have s: "?ys ! k = (if k = Suc pl then xs ! pl else if k = pl then xs ! Suc pl else xs ! k)" for k
      using "2.prems" by (simp add: nth_swap)
    have "key (isort_sink cmp pl ?ys ! i) \<le> key (isort_sink cmp pl ?ys ! j)"
    proof (rule "2.IH" [OF True])
      show "cmp_by cmp key (set ?ys)" using "2.prems" by simp
      fix i j assume ij: "i < j" "j \<le> m" "i \<noteq> pl" "j \<noteq> pl"
      show "key (?ys ! i) \<le> key (?ys ! j)"
      proof (cases "i = Suc pl")
        case True
        then show ?thesis using "2.prems"(4) [of pl j] ij by (simp add: s)
      next
        case False
        then show ?thesis using "2.prems"(4) [of i pl] "2.prems"(4) [of i j] ij by (auto simp: s)
      qed
    next
      fix j assume "pl < j" "j \<le> m"
      then show "key (?ys ! pl) \<le> key (?ys ! j)"
        using c True "2.prems"(5) [of j] by (auto simp: s)
    qed (use "2.prems" in auto)
    with True show ?thesis by simp
  next
    case False
    then have le: "key (xs ! pl) \<le> key (xs ! Suc pl)" using c by auto
    have "key (xs ! i) \<le> key (xs ! j)"
    proof (cases "j = Suc pl")
      case True
      then show ?thesis
        using "2.prems"(4) [of i pl] "2.prems"(6,7) le by (cases "i = pl") auto
    next
      case ne: False
      then show ?thesis
        using "2.prems"(4) [of i j] "2.prems"(5) [of j] "2.prems"(6,7) by (cases "i = Suc pl") auto
    qed
    with False show ?thesis by simp
  qed
qed

lemma isort_sorted_aux:
  "n = length xs \<Longrightarrow> cmp_by cmp key (set xs) \<Longrightarrow>
   (\<And>i j. i < j \<Longrightarrow> j < pm \<Longrightarrow> j < n \<Longrightarrow> key (xs ! i) \<le> key (xs ! j)) \<Longrightarrow>
   i < j \<Longrightarrow> j < n \<Longrightarrow> key (isort cmp pm n xs ! i) \<le> key (isort cmp pm n xs ! j)"
proof (induction cmp pm n xs rule: isort.induct)
  case (1 cmp pm n xs)
  show ?case
  proof (cases "pm < n")
    case True
    let ?ys = "isort_sink cmp pm xs"
    have ys: "mset ?ys = mset xs" "length ?ys = length xs"
      using mset_isort_sink [of pm xs cmp] True "1.prems" by auto
    then have set: "set ?ys = set xs" by (metis set_mset_mset)
    have srt: "key (?ys ! i) \<le> key (?ys ! j)" if "i < j" "j \<le> pm" for i j
      by (rule isort_sink_sorted [where m = pm]) (use True "1.prems" that in auto)
    have "key (isort cmp (Suc pm) n ?ys ! i) \<le> key (isort cmp (Suc pm) n ?ys ! j)"
      by (rule "1.IH" [OF True]) (use "1.prems" ys set srt in auto)
    with True show ?thesis by (simp add: isort.simps [of cmp pm n xs])
  next
    case False
    then have "isort cmp pm n xs = xs" by (simp add: isort.simps [of cmp pm n xs])
    with False "1.prems"(3) [of i j] "1.prems"(4,5) show ?thesis by simp
  qed
qed

lemma isort_sorted:
  "cmp_by cmp key (set xs) \<Longrightarrow> sorted (map key (isort cmp 1 (length xs) xs))"
proof -
  assume c: "cmp_by cmp key (set xs)"
  have "key (isort cmp 1 (length xs) xs ! i) \<le> key (isort cmp 1 (length xs) xs ! j)"
    if "i < j" "j < length xs" for i j
    by (rule isort_sorted_aux [OF refl c _ that]) auto
  then show ?thesis
    using mset_isort [of "length xs" xs cmp 1] by (simp add: sorted_iff_nth_mono_less)
qed

text \<open>What the partition knows of the keys: elements equal to the pivot's key \<open>v\<close> at both ends, smaller ones after
  the left end, larger ones before the right end.\<close>

definition part_keys :: "('a \<Rightarrow> int) \<Rightarrow> int \<Rightarrow> nat \<Rightarrow> nat \<Rightarrow> nat \<Rightarrow> nat \<Rightarrow> 'a list \<Rightarrow> bool" where
  "part_keys key v pa pb pc pd xs \<longleftrightarrow>
     (\<forall>i<pa. key (xs ! i) = v) \<and>
     (\<forall>i. pa \<le> i \<longrightarrow> i < pb \<longrightarrow> key (xs ! i) < v) \<and>
     (\<forall>i. pc < i \<longrightarrow> i \<le> pd \<longrightarrow> v < key (xs ! i)) \<and>
     (\<forall>i. pd < i \<longrightarrow> i < length xs \<longrightarrow> key (xs ! i) = v)"

lemma part_left_keys:
  "part_left cmp pa pb pc sc xs = (pa', pb', sc', xs') \<Longrightarrow> part_bounds (length xs) pa pb pc pd \<Longrightarrow>
   cmp_by cmp key (set xs) \<Longrightarrow> part_keys key v pa pb pc pd xs \<Longrightarrow> part_keys key v pa' pb' pc pd xs'"
proof (induction cmp pa pb pc sc xs rule: part_left.induct)
  case (1 cmp pa pb pc sc xs)
  have b: "1 \<le> pa" "pa \<le> pb" "pb \<le> Suc pc" "pc \<le> pd" "pd < length xs"
    using "1.prems"(2) by (auto simp: part_bounds_def)
  show ?case
  proof (cases "pb \<le> pc \<and> cmp (xs ! pb) (xs ! 0) \<le> 0")
    case go: True
    have mem: "xs ! pb \<in> set xs" "xs ! 0 \<in> set xs"
      by (rule nth_mem; use b go in linarith)+
    have c: "cmp (xs ! pb) (xs ! 0) = 0 \<longleftrightarrow> key (xs ! pb) = key (xs ! 0)"
        "cmp (xs ! pb) (xs ! 0) \<le> 0 \<longleftrightarrow> key (xs ! pb) \<le> key (xs ! 0)"
      using cmp_by_cases [OF "1.prems"(3) mem] by blast+
    have v: "key (xs ! 0) = v" using "1.prems"(4) b by (auto simp: part_keys_def)
    show ?thesis
    proof (cases "cmp (xs ! pb) (xs ! 0) = 0")
      case True
      have sw: "swap pa pb xs ! k = (if k = pa then xs ! pb else if k = pb then xs ! pa else xs ! k)" for k
        using b go by (simp add: nth_swap)
      have eq: "part_left cmp (Suc pa) (Suc pb) pc True (swap pa pb xs) = (pa', pb', sc', xs')"
        using "1.prems"(1) go True by (simp add: part_left.simps [of cmp pa pb pc sc xs])
      have "part_bounds (length (swap pa pb xs)) (Suc pa) (Suc pb) pc pd"
        using b go by (auto simp: part_bounds_def)
      moreover have "part_keys key v (Suc pa) (Suc pb) pc pd (swap pa pb xs)"
        using "1.prems"(4) b go True c v by (auto simp: part_keys_def sw less_Suc_eq)
      moreover have "cmp_by cmp key (set (swap pa pb xs))"
        using "1.prems"(3) b go by auto
      ultimately show ?thesis using "1.IH"(1) [OF go True eq] by blast
    next
      case False
      have eq: "part_left cmp pa (Suc pb) pc sc xs = (pa', pb', sc', xs')"
        using "1.prems"(1) go False by (simp add: part_left.simps [of cmp pa pb pc sc xs])
      have "part_bounds (length xs) pa (Suc pb) pc pd"
        using b go by (auto simp: part_bounds_def)
      moreover have "part_keys key v pa (Suc pb) pc pd xs"
        using "1.prems"(4) go False c v by (auto simp: part_keys_def less_Suc_eq)
      ultimately show ?thesis using "1.IH"(2) [OF go False eq] "1.prems"(3) by blast
    qed
  next
    case False
    with 1 show ?thesis by (auto simp: part_left.simps [of cmp pa pb pc sc xs])
  qed
qed

lemma part_right_keys:
  "part_right cmp pb pc pd sc xs = (pc', pd', sc', xs') \<Longrightarrow> part_bounds (length xs) pa pb pc pd \<Longrightarrow>
   cmp_by cmp key (set xs) \<Longrightarrow> part_keys key v pa pb pc pd xs \<Longrightarrow> part_keys key v pa pb pc' pd' xs'"
proof (induction cmp pb pc pd sc xs rule: part_right.induct)
  case (1 cmp pb pc pd sc xs)
  have b: "1 \<le> pa" "pa \<le> pb" "pb \<le> Suc pc" "pc \<le> pd" "pd < length xs"
    using "1.prems"(2) by (auto simp: part_bounds_def)
  show ?case
  proof (cases "0 < pb \<and> pb \<le> pc \<and> cmp (xs ! pc) (xs ! 0) \<ge> 0")
    case go: True
    have mem: "xs ! pc \<in> set xs" "xs ! 0 \<in> set xs"
      by (rule nth_mem; use b go in linarith)+
    have c: "cmp (xs ! pc) (xs ! 0) = 0 \<longleftrightarrow> key (xs ! pc) = key (xs ! 0)"
        "cmp (xs ! pc) (xs ! 0) \<ge> 0 \<longleftrightarrow> key (xs ! pc) \<ge> key (xs ! 0)"
      using cmp_by_cases [OF "1.prems"(3) mem] by blast+
    have v: "key (xs ! 0) = v" using "1.prems"(4) b by (auto simp: part_keys_def)
    show ?thesis
    proof (cases "cmp (xs ! pc) (xs ! 0) = 0")
      case True
      have sw: "swap pc pd xs ! k = (if k = pc then xs ! pd else if k = pd then xs ! pc else xs ! k)" for k
        using b go by (simp add: nth_swap)
      have eq: "part_right cmp pb (pc - 1) (pd - 1) True (swap pc pd xs) = (pc', pd', sc', xs')"
        using "1.prems"(1) go True by (simp add: part_right.simps [of cmp pb pc pd sc xs])
      have "part_bounds (length (swap pc pd xs)) pa pb (pc - 1) (pd - 1)"
        using b go by (auto simp: part_bounds_def)
      moreover have "part_keys key v pa pb (pc - 1) (pd - 1) (swap pc pd xs)"
        unfolding part_keys_def
      proof (intro conjI allI impI)
        fix i assume "pc - 1 < i" "i \<le> pd - 1"
        then show "v < key (swap pc pd xs ! i)"
          using "1.prems"(4) b go by (cases "i = pc") (auto simp: part_keys_def sw)
      next
        fix i assume i: "pd - 1 < i" "i < length (swap pc pd xs)"
        then show "key (swap pc pd xs ! i) = v"
          using "1.prems"(4) b go True c v by (cases "i = pd") (auto simp: part_keys_def sw)
      qed (use "1.prems"(4) b go in \<open>auto simp: part_keys_def sw\<close>)
      moreover have "cmp_by cmp key (set (swap pc pd xs))"
        using "1.prems"(3) b go by auto
      ultimately show ?thesis using "1.IH"(1) [OF go True eq] by blast
    next
      case False
      have eq: "part_right cmp pb (pc - 1) pd sc xs = (pc', pd', sc', xs')"
        using "1.prems"(1) go False by (simp add: part_right.simps [of cmp pb pc pd sc xs])
      have "part_bounds (length xs) pa pb (pc - 1) pd"
        using b go by (auto simp: part_bounds_def)
      moreover have "part_keys key v pa pb (pc - 1) pd xs"
        unfolding part_keys_def
      proof (intro conjI allI impI)
        fix i assume "pc - 1 < i" "i \<le> pd"
        then show "v < key (xs ! i)"
          using "1.prems"(4) go False c v by (cases "i = pc") (auto simp: part_keys_def)
      qed (use "1.prems"(4) in \<open>auto simp: part_keys_def\<close>)
      ultimately show ?thesis using "1.IH"(2) [OF go False eq] "1.prems"(3) by blast
    qed
  next
    case False
    with 1 show ?thesis by (auto simp: part_right.simps [of cmp pb pc pd sc xs])
  qed
qed

lemma partition3_keys:
  "partition3 cmp pa pb pc pd sc xs = (pa', pb', pc', pd', sc', xs') \<Longrightarrow>
   part_bounds (length xs) pa pb pc pd \<Longrightarrow> cmp_by cmp key (set xs) \<Longrightarrow>
   part_keys key v pa pb pc pd xs \<Longrightarrow> part_keys key v pa' pb' pc' pd' xs'"
proof (induction cmp pa pb pc pd sc xs rule: partition3.induct)
  case (1 cmp pa pb pc pd sc xs)
  obtain pa1 pb1 sc1 xs1 where l: "part_left cmp pa pb pc sc xs = (pa1, pb1, sc1, xs1)"
    by (metis prod_cases4)
  obtain pc1 pd1 sc2 xs2 where r: "part_right cmp pb1 pc pd sc1 xs1 = (pc1, pd1, sc2, xs2)"
    by (metis prod_cases4)
  have bl: "part_bounds (length xs) pa1 pb1 pc pd" "mset xs1 = mset xs" "length xs1 = length xs"
    using part_left_bounds [OF l "1.prems"(2)] by auto
  have br: "part_bounds (length xs) pa1 pb1 pc1 pd1" "mset xs2 = mset xs" "length xs2 = length xs"
    using part_right_bounds [OF r, of pa1] bl by auto
  have set12: "set xs1 = set xs" "set xs2 = set xs"
    using bl(2) br(2) by (metis set_mset_mset)+
  have k1: "part_keys key v pa1 pb1 pc pd xs1"
    using part_left_keys [OF l "1.prems"(2,3,4)] .
  have k2: "part_keys key v pa1 pb1 pc1 pd1 xs2"
    by (rule part_right_keys [OF r _ _ k1]) (use bl set12 "1.prems" in auto)
  show ?case
  proof (cases "pb1 > pc1")
    case True
    with "1.prems"(1) k2 show ?thesis by (auto simp: partition3.simps [of cmp pa] l r)
  next
    case go: False
    have lt: "pb1 < length xs2" "pc1 < length xs2" "0 < length xs2" "1 \<le> pa1" "0 < pb1" "pa1 \<le> pb1" "pc1 \<le> pd1"
      using br go by (auto simp: part_bounds_def)
    have mem: "xs2 ! pb1 \<in> set xs" "xs2 ! pc1 \<in> set xs" "xs2 ! 0 \<in> set xs"
      using lt set12 by auto
    have "cmp (xs1 ! pb1) (xs1 ! 0) > 0"
      using part_left_stop [OF l] part_right_mono [OF r] go by auto
    moreover have "xs2 ! pb1 = xs1 ! pb1" "xs2 ! 0 = xs1 ! 0"
      using part_right_keep [OF r, of pa1] bl go by auto
    ultimately have kb: "key (xs2 ! pb1) > key (xs2 ! 0)"
      using cmp_by_cases(3) [OF "1.prems"(3) mem(1) mem(3)] by simp
    have "cmp (xs2 ! pc1) (xs2 ! 0) < 0"
      using part_right_stop [OF r] lt go by auto
    then have kc: "key (xs2 ! pc1) < key (xs2 ! 0)"
      using cmp_by_cases(1) [OF "1.prems"(3) mem(2) mem(3)] by simp
    have ne: "pb1 \<noteq> pc1" using kb kc by auto
    have v: "key (xs2 ! 0) = v" using k2 lt by (auto simp: part_keys_def)
    let ?ys = "swap pb1 pc1 xs2"
    have sw: "?ys ! k = (if k = pb1 then xs2 ! pc1 else if k = pc1 then xs2 ! pb1 else xs2 ! k)" for k
      using lt by (simp add: nth_swap)
    have "part_bounds (length ?ys) pa1 (Suc pb1) (pc1 - 1) pd1"
      using br go ne by (auto simp: part_bounds_def)
    moreover have "part_keys key v pa1 (Suc pb1) (pc1 - 1) pd1 ?ys"
      using k2 kb kc lt ne go v by (auto simp: part_keys_def sw less_Suc_eq)
    moreover have "cmp_by cmp key (set ?ys)"
      using "1.prems"(3) set12 lt by simp
    moreover have "partition3 cmp pa1 (Suc pb1) (pc1 - 1) pd1 True ?ys = (pa', pb', pc', pd', sc', xs')"
      using "1.prems"(1) go by (simp add: partition3.simps [of cmp pa] l r)
    ultimately show ?thesis
      using "1.IH" [OF l [symmetric] refl refl r [symmetric] refl refl go] by blast
  qed
qed

lemma nth_vecswap:
  "i + n \<le> j \<Longrightarrow> j + n \<le> length xs \<Longrightarrow>
   vecswap i j n xs ! k =
     (if i \<le> k \<and> k < i + n then xs ! (j + (k - i))
      else if j \<le> k \<and> k < j + n then xs ! (i + (k - j)) else xs ! k)"
proof (induction i j n xs arbitrary: k rule: vecswap.induct)
  case (2 i j n xs)
  have lt: "i < length xs" "j < length xs" using 2 by auto
  have IH: "vecswap (Suc i) (Suc j) n (swap i j xs) ! k =
     (if Suc i \<le> k \<and> k < Suc i + n then swap i j xs ! (Suc j + (k - Suc i))
      else if Suc j \<le> k \<and> k < Suc j + n then swap i j xs ! (Suc i + (k - Suc j)) else swap i j xs ! k)"
    by (rule "2.IH") (use "2.prems" in auto)
  consider "k = i" | "k = j" "k \<noteq> i" | "Suc i \<le> k" "k < Suc i + n" "k \<noteq> j"
    | "Suc j \<le> k" "k < Suc j + n" | "k < i" | "Suc i + n \<le> k" "k < j" | "Suc j + n \<le> k"
    using "2.prems" by linarith
  then show ?case
  proof cases
    case 3
    then have "Suc j + (k - Suc i) = j + (k - i)" by auto
    moreover have "swap i j xs ! (j + (k - i)) = xs ! (j + (k - i))"
      using 3 "2.prems" by (subst nth_swap [OF lt]) auto
    ultimately show ?thesis using 3 IH by simp
  next
    case 4
    then have "Suc i + (k - Suc j) = i + (k - j)" by auto
    moreover have "swap i j xs ! (i + (k - j)) = xs ! (i + (k - j))"
      using 4 "2.prems" by (subst nth_swap [OF lt]) auto
    ultimately show ?thesis using 4 IH "2.prems" by simp
  qed (use IH "2.prems" in \<open>auto simp: nth_swap [OF lt]\<close>)
qed auto

text \<open>After the two block exchanges the array is: smaller, equal, larger.\<close>

lemma qsort_gather_keys:
  assumes b: "part_bounds (length xs) pa pb pc pd" and stop: "pb > pc"
    and k: "part_keys key v pa pb pc pd xs" and n: "n = length xs"
  defines "zs \<equiv> qsort_gather pa pb pc pd xs"
  shows "i < pb - pa \<Longrightarrow> key (zs ! i) < v"
    and "pb - pa \<le> i \<Longrightarrow> i < n - (pd - pc) \<Longrightarrow> key (zs ! i) = v"
    and "n - (pd - pc) \<le> i \<Longrightarrow> i < n \<Longrightarrow> v < key (zs ! i)"
proof -
  have pb: "pb = Suc pc" and bb: "1 \<le> pa" "pa \<le> pb" "pc \<le> pd" "pd < n"
    using b stop n by (auto simp: part_bounds_def)
  define r where "r = min pa (pb - pa)"
  define r' where "r' = min (pd - pc) (n - pd - 1)"
  define ys where "ys = vecswap 0 (pb - r) r xs"
  have r: "r \<le> pa" "r \<le> pb - pa" and r': "r' \<le> pd - pc" "r' \<le> n - pd - 1"
    and rr: "r = pa \<or> r = pb - pa" "r' = pd - pc \<or> r' = n - pd - 1"
    by (auto simp: r_def r'_def)
  have zs: "zs = vecswap pb (n - r') r' ys"
    by (simp add: zs_def qsort_gather_def Let_def ys_def r_def r'_def n)
  have ys: "ys ! i = (if i < r then xs ! (pb - r + i)
      else if pb - r \<le> i \<and> i < pb then xs ! (i - (pb - r)) else xs ! i)" for i
    unfolding ys_def using r bb n pb by (subst nth_vecswap) auto
  have len_ys: "length ys = n" by (simp add: ys_def n)
  have zi: "zs ! i = (if pb \<le> i \<and> i < pb + r' then ys ! (n - r' + (i - pb))
      else if n - r' \<le> i \<and> i < n then ys ! (pb + (i - (n - r'))) else ys ! i)" for i
    unfolding zs using r' bb n pb by (subst nth_vecswap) (auto simp: ys_def [symmetric] len_ys)
  have lo: "key (ys ! i) < v" if "i < pb - pa" for i
    using that r rr k bb by (auto simp: ys part_keys_def)
  have mid: "key (ys ! i) = v" if "pb - pa \<le> i" "i < pb" for i
    using that r rr k bb by (auto simp: ys part_keys_def)
  have hi: "ys ! i = xs ! i" if "pb \<le> i" for i
    using that r by (auto simp: ys)
  have gt: "v < key (ys ! i)" if "pb \<le> i" "i \<le> pd" for i
    using that hi k pb by (auto simp: part_keys_def)
  have eqr: "key (ys ! i) = v" if "pd < i" "i < n" for i
    using that hi k pb bb n by (auto simp: part_keys_def)
  show "key (zs ! i) < v" if "i < pb - pa"
    using that lo r' bb pb by (auto simp: zi)
  show "key (zs ! i) = v" if "pb - pa \<le> i" "i < n - (pd - pc)"
  proof (cases "i < pb + r'")
    case True
    show ?thesis
    proof (cases "i < pb")
      case True
      have "zs ! i = ys ! i" using True r' bb pb by (auto simp: zi)
      with mid that True show ?thesis by simp
    next
      case False
      have "pd < n - r' + (i - pb)" "n - r' + (i - pb) < n"
        using True False r' bb by linarith+
      then show ?thesis using True False eqr by (simp add: zi)
    qed
  next
    case False
    have "pd < i" "i < n - r'" using False that r' rr bb pb by linarith+
    with False eqr [of i] show ?thesis by (simp add: zi)
  qed
  show "v < key (zs ! i)" if "n - (pd - pc) \<le> i" "i < n"
    using that gt r' rr bb pb by (auto simp: zi)
qed

lemma sorted_keys_append3:
  fixes v :: int
  assumes "sorted (map key lo)" "sorted (map key hi)"
    "\<And>x. x \<in> set lo \<Longrightarrow> key x < v" "\<And>x. x \<in> set mid \<Longrightarrow> key x = v" "\<And>x. x \<in> set hi \<Longrightarrow> v < key x"
  shows "sorted (map key (lo @ mid @ hi))"
proof -
  have "map key mid = replicate (length mid) v"
    using assms(4) by (auto intro: replicate_eqI)
  then have "sorted (map key mid)" by simp
  then show ?thesis using assms by (fastforce simp: sorted_append)
qed

lemma in_set_takeD': "x \<in> set (take r zs) \<Longrightarrow> \<exists>i<r. i < length zs \<and> x = zs ! i"
  by (auto simp: in_set_conv_nth)

lemma in_set_dropD': "x \<in> set (drop r zs) \<Longrightarrow> \<exists>i. r \<le> i \<and> i < length zs \<and> x = zs ! i"
  by (auto simp: in_set_conv_nth) (metis add.commute le_add1 less_diff_conv)

theorem qsort_sorted: "cmp_by cmp key (set xs) \<Longrightarrow> sorted (map key (qsort_elems cmp xs))"
proof (induction cmp xs rule: qsort_elems.induct)
  case (1 cmp xs)
  show ?case
  proof (cases "length xs < 7")
    case True
    then show ?thesis using isort_sorted [OF "1.prems"] by (simp add: qsort_elems.simps [of cmp xs])
  next
    case n: False
    obtain pa pb pc pd sc ys where eq: "partition3 cmp 1 1 (length xs - 1) (length xs - 1) False
        (swap 0 (qsort_pivot cmp xs) xs) = (pa, pb, pc, pd, sc, ys)"
      by (metis prod_cases6)
    note pp = qsort_partition [OF n eq]
    let ?x0 = "swap 0 (qsort_pivot cmp xs) xs"
    let ?v = "key (?x0 ! 0)"
    have x0: "set ?x0 = set xs" "length ?x0 = length xs"
      using n qsort_pivot_less [of xs cmp] by (auto intro!: set_swap_eq)
    have keys: "part_keys key ?v pa pb pc pd ys"
    proof (rule partition3_keys [OF eq])
      show "part_bounds (length ?x0) 1 1 (length xs - 1) (length xs - 1)"
        using n by (auto simp: part_bounds_def)
      show "part_keys key ?v 1 1 (length xs - 1) (length xs - 1) ?x0"
        using x0 by (auto simp: part_keys_def)
    qed (use "1.prems" x0 in simp)
    have set_ys: "set ys = set xs" using pp(3) by (metis set_mset_mset)
    let ?zs = "qsort_gather pa pb pc pd ys"
    define r where "r = pb - pa"
    define r' where "r' = pd - pc"
    have len: "length ?zs = length xs" using pp by simp
    have set_zs: "set ?zs = set xs"
      using pp mset_qsort_gather [of ys pa pb pc pd] by (metis set_mset_mset)
    note kz = qsort_gather_keys [OF _ pp(2) keys pp(4) [symmetric], folded r_def r'_def]
    have seg: "r + r' \<le> length xs"
      using pp by (auto simp: part_bounds_def r_def r'_def)
    show ?thesis
    proof (cases sc)
      case True
      note IH = "1.IH"(1) [OF refl n eq [symmetric] refl refl refl refl _ refl refl refl]
        "1.IH"(2) [OF refl n eq [symmetric] refl refl refl refl _ refl refl refl refl]
      define lo where "lo = (if r > 1 then qsort_elems cmp (take r ?zs) else take r ?zs)"
      define hi where "hi = (if r' > 1 then qsort_elems cmp (drop (length xs - r') ?zs)
        else drop (length xs - r') ?zs)"
      define mid where "mid = take (length xs - r' - r) (drop r ?zs)"
      have short: "sorted (map key ws)" if "length ws \<le> 1" for ws
        using that by (cases ws) auto
      have lo: "sorted (map key lo)" "set lo = set (take r ?zs)"
        using IH(1) True cmp_by_subset [OF "1.prems", of "set (take r ?zs)"]
          set_take_subset [of r ?zs] set_zs len short [of "take r ?zs"]
        by (auto simp: lo_def r_def)
      have hi: "sorted (map key hi)" "set hi = set (drop (length xs - r') ?zs)"
        using IH(2) True cmp_by_subset [OF "1.prems", of "set (drop (length xs - r') ?zs)"]
          set_drop_subset [of "length xs - r'" ?zs] set_zs len short [of "drop (length xs - r') ?zs"]
        by (auto simp: hi_def r'_def)
      have "sorted (map key (lo @ mid @ hi))"
      proof (rule sorted_keys_append3 [where v = ?v])
        show "key x < ?v" if "x \<in> set lo" for x
          using that kz(1) pp lo(2) by (auto dest!: in_set_takeD')
        show "key x = ?v" if m: "x \<in> set mid" for x
        proof -
          obtain i where "i < length xs - r' - r" "x = drop r ?zs ! i"
            using in_set_takeD' [of x "length xs - r' - r" "drop r ?zs"] m
            unfolding mid_def by blast
          then have "x = ?zs ! (r + i)" "r + i < length xs - r'" using len by auto
          then show ?thesis using kz(2) [of "r + i"] pp by auto
        qed
        show "?v < key x" if "x \<in> set hi" for x
          using that kz(3) pp hi(2) len by (auto dest!: in_set_dropD')
      qed (use lo hi in auto)
      moreover have "qsort_elems cmp xs = lo @ mid @ hi"
        using True n eq
        by (simp add: qsort_elems.simps [of cmp xs] Let_def lo_def hi_def mid_def r_def r'_def)
      ultimately show ?thesis by simp
    next
      case False
      then have "qsort_elems cmp xs = isort cmp 1 (length ys) ys"
        using n eq pp by (simp add: qsort_elems.simps [of cmp xs])
      with isort_sorted [of cmp key ys] "1.prems" set_ys show ?thesis by simp
    qed
  qed
qed

section \<open>Binary search\<close>

text \<open>The loop of \<open>bsearch\<close> over \<open>base\<close> (an index) and \<open>lim\<close>; the result is the index of the
  element found, \<open>None\<close> for the null pointer.\<close>

function bsearch_loop :: "('k \<Rightarrow> 'a \<Rightarrow> int) \<Rightarrow> 'k \<Rightarrow> 'a list \<Rightarrow> nat \<Rightarrow> nat \<Rightarrow> nat option" where
  "bsearch_loop compar key xs base lim =
     (if lim \<noteq> 0 then
        let p = base + lim div 2; cmp = compar key (xs ! p) in
        if cmp > 0 then bsearch_loop compar key xs (Suc p) ((lim - 1) div 2)
        else if cmp = 0 then Some p
        else bsearch_loop compar key xs base (lim div 2)
      else None)"
  by pat_completeness auto
termination
  by (relation "measure (\<lambda>(compar, key, xs, base, lim). lim)") auto

declare bsearch_loop.simps [simp del]

definition bsearch_elems :: "('k \<Rightarrow> 'a \<Rightarrow> int) \<Rightarrow> 'k \<Rightarrow> 'a list \<Rightarrow> nat option" where
  "bsearch_elems compar key xs = bsearch_loop compar key xs 0 (length xs)"

lemma bsearch_loop_Some:
  "bsearch_loop compar key xs base lim = Some p \<Longrightarrow>
     base \<le> p \<and> p < base + lim \<and> compar key (xs ! p) = 0"
proof (induction compar key xs base lim rule: bsearch_loop.induct)
  case (1 compar key xs base lim)
  let ?p = "base + lim div 2"
  consider "lim = 0" | "lim \<noteq> 0" "compar key (xs ! ?p) > 0" | "lim \<noteq> 0" "compar key (xs ! ?p) = 0"
    | "lim \<noteq> 0" "compar key (xs ! ?p) < 0" by linarith
  then show ?case
  proof cases
    case 1
    then have "bsearch_loop compar key xs base lim = None" by (subst bsearch_loop.simps) simp
    with "1.prems" show ?thesis by simp
  next
    case 2
    with 1 have "Suc ?p \<le> p \<and> p < Suc ?p + (lim - 1) div 2 \<and> compar key (xs ! p) = 0"
      by (simp add: bsearch_loop.simps [of compar key xs base lim])
    with 2 show ?thesis by linarith
  next
    case 4
    with 1 have "base \<le> p \<and> p < base + lim div 2 \<and> compar key (xs ! p) = 0"
      by (simp add: bsearch_loop.simps [of compar key xs base lim])
    then show ?thesis by auto
  qed (use 1 in \<open>auto simp: bsearch_loop.simps [of compar key xs base lim]\<close>)
qed

text \<open>The comparison falls from positive through one zero to negative along the array.\<close>

lemma bsearch_loop_finds:
  "base \<le> i \<Longrightarrow> i < base + lim \<Longrightarrow> compar key (xs ! i) = 0 \<Longrightarrow>
   (\<And>j. base \<le> j \<Longrightarrow> j < i \<Longrightarrow> compar key (xs ! j) > 0) \<Longrightarrow>
   (\<And>j. i < j \<Longrightarrow> j < base + lim \<Longrightarrow> compar key (xs ! j) < 0) \<Longrightarrow>
     bsearch_loop compar key xs base lim = Some i"
proof (induction compar key xs base lim rule: bsearch_loop.induct)
  case (1 compar key xs base lim)
  let ?p = "base + lim div 2"
  have lim: "lim \<noteq> 0" using "1.prems" by auto
  consider "i < ?p" | "i = ?p" | "?p < i" by linarith
  then show ?case
  proof cases
    case 1
    have "?p < base + lim" using lim by simp
    then have neg: "compar key (xs ! ?p) < 0" using "1.prems"(5) [of ?p] 1 by blast
    then have n1: "\<not> compar key (xs ! ?p) > 0" "compar key (xs ! ?p) \<noteq> 0" by auto
    have "bsearch_loop compar key xs base (lim div 2) = Some i"
      by (rule "1.IH"(2) [OF lim refl refl n1]) (use "1.prems" 1 in auto)
    with neg lim show ?thesis by (simp add: bsearch_loop.simps [of compar key xs base lim])
  next
    case 2
    with "1.prems"(3) lim show ?thesis
      by (simp add: bsearch_loop.simps [of compar key xs base lim])
  next
    case 3
    have pos: "compar key (xs ! ?p) > 0" using "1.prems"(4) [of ?p] 3 by auto
    have lt: "i < Suc ?p + (lim - 1) div 2" "Suc ?p + (lim - 1) div 2 \<le> base + lim"
      using "1.prems"(2) lim by linarith+
    have "bsearch_loop compar key xs (Suc ?p) ((lim - 1) div 2) = Some i"
      by (rule "1.IH"(1) [OF lim refl refl pos]) (use "1.prems" 3 lt in auto)
    with pos lim show ?thesis by (simp add: bsearch_loop.simps [of compar key xs base lim])
  qed
qed

theorem bsearch_Some: "bsearch_elems compar key xs = Some p \<Longrightarrow> p < length xs \<and> compar key (xs ! p) = 0"
  using bsearch_loop_Some by (fastforce simp: bsearch_elems_def)

theorem bsearch_finds:
  "i < length xs \<Longrightarrow> compar key (xs ! i) = 0 \<Longrightarrow>
   (\<And>j. j < i \<Longrightarrow> compar key (xs ! j) > 0) \<Longrightarrow>
   (\<And>j. i < j \<Longrightarrow> j < length xs \<Longrightarrow> compar key (xs ! j) < 0) \<Longrightarrow> bsearch_elems compar key xs = Some i"
  unfolding bsearch_elems_def by (rule bsearch_loop_finds) auto

section \<open>The functions on arrays of bytes\<close>

text \<open>\<open>qsort (a, n, es, cmp)\<close>, the array given by its elements. A recursive call is
  \<open>qsort (a, r / es, es, cmp)\<close> with \<open>r = (pb - pa) * es\<close> bytes. Sizes of 0 are not modelled
  (the scans of the code then never advance).\<close>

definition int_holds :: "nat \<Rightarrow> bool" where
  "int_holds k \<longleftrightarrow> k < 2 ^ 31"

function qsort :: "nat \<Rightarrow> ('a \<Rightarrow> 'a \<Rightarrow> int) \<Rightarrow> 'a list \<Rightarrow> 'a list option" where
  "qsort es cmp xs =
     (let n = length xs in
      if es = 0 \<or> n > 1 \<and> \<not> int_holds es then None
      else if n < 7 then Some (isort cmp 1 n xs)
      else if n > 40 \<and> \<not> int_holds (2 * (n div 8 * es)) then None
      else
        case partition3 cmp 1 1 (n - 1) (n - 1) False (swap 0 (qsort_pivot cmp xs) xs)
        of (pa, pb, pc, pd, swap_cnt, ys) \<Rightarrow>
          if \<not> swap_cnt then Some (isort cmp 1 n ys)
          else
            let zs = qsort_gather pa pb pc pd ys;
                r = (pb - pa) * es; r' = (pd - pc) * es in
            if \<not> int_holds r \<or> \<not> int_holds r' then None
            else
              case (if r > es then qsort es cmp (take (r div es) zs)
                    else Some (take (r div es) zs)) of
                None \<Rightarrow> None
              | Some lo \<Rightarrow>
              case (if r' > es then qsort es cmp (drop (n - r' div es) zs)
                    else Some (drop (n - r' div es) zs)) of
                None \<Rightarrow> None
              | Some hi \<Rightarrow> Some (lo @ take (n - r' div es - r div es) (drop (r div es) zs) @ hi))"
  by pat_completeness auto
termination
  by (relation "measure (\<lambda>(es, cmp, xs). length xs)") (auto dest!: partition3_shrinks)

declare qsort.simps [simp del]

text \<open>\<open>lim = nmemb\<close> keeps the low 32 bits of the number of elements, as a signed number. A
  negative \<open>lim\<close> makes the first probe read below the array.\<close>

definition bsearch :: "('k \<Rightarrow> 'a \<Rightarrow> int) \<Rightarrow> 'k \<Rightarrow> 'a list \<Rightarrow> nat option run" where
  "bsearch compar key xs =
     (let lim = sint (word_of_nat (length xs) :: u32)
      in guardE OutOfBounds (0 \<le> lim) (Inr (bsearch_loop compar key xs 0 (nat lim))))"

lemma bsearch_fits: "length xs < 2 ^ 31 \<Longrightarrow> bsearch compar key xs = Inr (bsearch_elems compar key xs)"
proof -
  assume "length xs < 2 ^ 31"
  then have "sint (word_of_nat (length xs) :: u32) = int (length xs)"
    by (simp add: sint_uint unsigned_of_nat take_bit_nat_eq_self signed_take_bit_int_eq_self)
  then show ?thesis by (simp add: bsearch_def bsearch_elems_def Let_def)
qed

lemma qsort_fits:
  "0 < es \<Longrightarrow> length xs * es < 2 ^ 31 \<Longrightarrow> qsort es cmp xs = Some (qsort_elems cmp xs)"
proof (induction es cmp xs rule: qsort.induct)
  case (1 es cmp xs)
  let ?n = "length xs"
  have es: "?n > 1 \<longrightarrow> int_holds es"
  proof
    assume "?n > 1"
    then have "1 * es \<le> ?n * es" by (intro mult_le_mono1) simp
    then have "es < 2 ^ 31" using "1.prems"(2) by (metis mult_1 le_less_trans)
    then show "int_holds es" by (simp add: int_holds_def)
  qed
  show ?case
  proof (cases "?n < 7")
    case True
    then show ?thesis
      using "1.prems"(1) es
      by (cases "length xs > 1") (simp_all add: qsort.simps [of es cmp xs] qsort_elems.simps [of cmp xs])
  next
    case n: False
    have "2 * (?n div 8) * es \<le> ?n * es" by (intro mult_le_mono1) simp
    then have d: "int_holds (2 * (?n div 8 * es))"
    using "1.prems"(2) unfolding int_holds_def by (metis le_less_trans mult.assoc)
    obtain pa pb pc pd sc ys where eq: "partition3 cmp 1 1 (?n - 1) (?n - 1) False
        (swap 0 (qsort_pivot cmp xs) xs) = (pa, pb, pc, pd, sc, ys)"
      by (metis prod_cases6)
    show ?thesis
    proof (cases sc)
      case True
      show ?thesis
      proof -
        note pp = qsort_partition [OF n eq]
        let ?zs = "qsort_gather pa pb pc pd ys"
        have zs: "length ?zs = ?n" using pp by simp
        have le: "pb - pa \<le> ?n" "pd - pc \<le> ?n" using pp by (auto simp: part_bounds_def)
        have sz: "(pb - pa) * es < 2 ^ 31" "(pd - pc) * es < 2 ^ 31"
          using "1.prems"(2) le by (meson le_less_trans mult_le_mono1)+
        have gt: "k * es > es \<longleftrightarrow> k > 1" for k using "1.prems"(1) by auto
        have ok: "\<not> (es = 0 \<or> ?n > 1 \<and> \<not> int_holds es)" "\<not> (?n > 40 \<and> \<not> int_holds (2 * (?n div 8 * es)))"
          "\<not> (\<not> int_holds ((pb - pa) * es) \<or> \<not> int_holds ((pd - pc) * es))"
          using "1.prems"(1) es d sz by (auto simp: int_holds_def)
        note IH = "1.IH"(1) [OF refl ok(1) n ok(2) eq [symmetric] refl refl refl refl _ refl refl refl ok(3)]
          "1.IH"(2) [OF refl ok(1) n ok(2) eq [symmetric] refl refl refl refl _ refl refl refl ok(3)]
        let ?lo = "take (pb - pa) ?zs" and ?hi = "drop (?n - (pd - pc)) ?zs"
        have dv: "k * es div es = k" for k using "1.prems"(1) by simp
        have lo: "(if (pb - pa) * es > es then qsort es cmp ?lo else Some ?lo)
            = Some (if pb - pa > 1 then qsort_elems cmp ?lo else ?lo)"
          using IH(1) True sz(1) le "1.prems"(1) zs by (simp add: gt dv)
        have lo': "(if (pb - pa) * es > es then qsort es cmp (take ((pb - pa) * es div es) ?zs)
            else Some (take ((pb - pa) * es div es) ?zs))
            = Some (if pb - pa > 1 then qsort_elems cmp ?lo else ?lo)"
          using lo by (simp only: dv)
        have hi: "(if (pd - pc) * es > es then qsort es cmp ?hi else Some ?hi)
            = Some (if pd - pc > 1 then qsort_elems cmp ?hi else ?hi)"
          using IH(2) [OF _ lo'] True sz(2) le "1.prems"(1) zs
          by (simp add: gt dv)
        have "qsort es cmp xs =
            (case (if (pb - pa) * es > es then qsort es cmp ?lo else Some ?lo) of
               None \<Rightarrow> None
             | Some lo \<Rightarrow>
             case (if (pd - pc) * es > es then qsort es cmp ?hi else Some ?hi) of
               None \<Rightarrow> None
             | Some hi \<Rightarrow> Some (lo @ take (?n - (pd - pc) - (pb - pa)) (drop (pb - pa) ?zs) @ hi))"
          by (subst qsort.simps)
            (simp only: Let_def ok n eq True dv prod.case if_False if_True not_True_eq_False simp_thms)
        then show ?thesis
          using n eq True by (simp only: lo hi option.case) (simp add: qsort_elems.simps [of cmp xs] Let_def)
      qed
    next
      case False
      then show ?thesis
        using "1.prems"(1) es d n eq
        by (simp add: qsort.simps [of es cmp xs] qsort_elems.simps [of cmp xs] Let_def)
    qed
  qed
qed

text \<open>C6: For a comparison that orders the elements by some key, \<open>qsort\<close> on an array of fewer
  than \<open>2 ^ 31\<close> bytes returns (no byte length is truncated in an \<open>int\<close>), with a permutation of
  its input sorted by that key, whatever branch it takes (insertion sort, median of three or
  nine, three-way partition).\<close>

theorem qsort_sorts:
  assumes "cmp_by cmp key (set xs)" "0 < es" "length xs * es < 2 ^ 31"
  shows "\<exists>ys. qsort es cmp xs = Some ys \<and> sorted (map key ys) \<and> mset ys = mset xs"
  using qsort_fits [OF assms(2,3), of cmp] qsort_sorted [OF assms(1)] mset_qsort [of cmp xs] by blast

theorem qsort_sorts_witness:
  "\<exists>ys. qsort 8 (\<lambda>a b. a - b) [5, 3, 9, 1, 3, 8, 2, 7 :: int] = Some ys \<and> sorted ys \<and>
     mset ys = {#1, 2, 3, 3, 5, 7, 8, 9#}"
proof -
  have "cmp_by (\<lambda>a b. a - b) (\<lambda>a. a) (set [5, 3, 9, 1, 3, 8, 2, 7 :: int])" by (simp add: cmp_by_def)
  moreover have perm: "mset [5, 3, 9, 1, 3, 8, 2, 7 :: int] = {#1, 2, 3, 3, 5, 7, 8, 9#}"
    by simp
  ultimately show ?thesis
    using qsort_sorts [of "\<lambda>a b. a - b" "\<lambda>a. a" "[5, 3, 9, 1, 3, 8, 2, 7 :: int]" 8]
    unfolding perm by simp
qed

end
