(* ===== verification/NaClConfig.thy ===== *)
theory NaClConfig
  imports Prelude
begin

text \<open>
  Constants of the service runtime (\<open>nacl_config.h\<close>, \<open>include/bits/mman.h\<close>,
  \<open>include/sys/fcntl.h\<close>) and the page arithmetic of \<open>sel_util-inl.h\<close>, on 64-bit words as
  \<open>size_t\<close> and \<open>uintptr_t\<close> are. The lemmas say what each rounding computes on \<open>unat\<close>
  values, and when it wraps.
\<close>

definition NACL_PAGESHIFT :: nat where "NACL_PAGESHIFT = 12"
definition NACL_PAGESIZE :: u64 where "NACL_PAGESIZE = 4096"
definition NACL_MAP_PAGESHIFT :: nat where "NACL_MAP_PAGESHIFT = 16"
definition NACL_MAP_PAGESIZE :: u64 where "NACL_MAP_PAGESIZE = 65536"
definition NACL_PAGES_PER_MAP :: u64 where "NACL_PAGES_PER_MAP = 16"

definition NACL_ABI_PROT_NONE :: u32 where "NACL_ABI_PROT_NONE = 0"
definition NACL_ABI_PROT_READ :: u32 where "NACL_ABI_PROT_READ = 1"
definition NACL_ABI_PROT_WRITE :: u32 where "NACL_ABI_PROT_WRITE = 2"
definition NACL_ABI_PROT_EXEC :: u32 where "NACL_ABI_PROT_EXEC = 4"
definition NACL_ABI_PROT_MASK :: u32 where "NACL_ABI_PROT_MASK = 7"

definition NACL_ABI_MAP_SHARED :: u32 where "NACL_ABI_MAP_SHARED = 1"
definition NACL_ABI_MAP_PRIVATE :: u32 where "NACL_ABI_MAP_PRIVATE = 2"
definition NACL_ABI_MAP_SHARING_MASK :: u32 where "NACL_ABI_MAP_SHARING_MASK = 3"
definition NACL_ABI_MAP_FIXED :: u32 where "NACL_ABI_MAP_FIXED = 16"
definition NACL_ABI_MAP_ANONYMOUS :: u32 where "NACL_ABI_MAP_ANONYMOUS = 32"

definition NACL_ABI_O_ACCMODE :: u32 where "NACL_ABI_O_ACCMODE = 3"
definition NACL_ABI_O_RDONLY :: u32 where "NACL_ABI_O_RDONLY = 0"
definition NACL_ABI_O_WRONLY :: u32 where "NACL_ABI_O_WRONLY = 1"
definition NACL_ABI_O_RDWR :: u32 where "NACL_ABI_O_RDWR = 2"
definition NACL_ABI_O_CREAT :: u32 where "NACL_ABI_O_CREAT = 64"
definition NACL_ABI_O_EXCL :: u32 where "NACL_ABI_O_EXCL = 128"
definition NACL_ABI_O_TRUNC :: u32 where "NACL_ABI_O_TRUNC = 512"
definition NACL_ABI_O_APPEND :: u32 where "NACL_ABI_O_APPEND = 1024"

lemmas page_consts = NACL_PAGESHIFT_def NACL_PAGESIZE_def NACL_MAP_PAGESHIFT_def
  NACL_MAP_PAGESIZE_def NACL_PAGES_PER_MAP_def

lemmas prot_consts = NACL_ABI_PROT_NONE_def NACL_ABI_PROT_READ_def NACL_ABI_PROT_WRITE_def
  NACL_ABI_PROT_EXEC_def NACL_ABI_PROT_MASK_def

lemmas map_consts = NACL_ABI_MAP_SHARED_def NACL_ABI_MAP_PRIVATE_def
  NACL_ABI_MAP_SHARING_MASK_def NACL_ABI_MAP_FIXED_def NACL_ABI_MAP_ANONYMOUS_def

lemmas open_consts = NACL_ABI_O_ACCMODE_def NACL_ABI_O_RDONLY_def NACL_ABI_O_WRONLY_def
  NACL_ABI_O_RDWR_def NACL_ABI_O_CREAT_def NACL_ABI_O_EXCL_def NACL_ABI_O_TRUNC_def
  NACL_ABI_O_APPEND_def

section \<open>\<open>sel_util-inl.h\<close>\<close>

definition NaClRoundPage :: "u64 \<Rightarrow> u64" where
  "NaClRoundPage nbytes = (nbytes + NACL_PAGESIZE - 1) AND NOT (NACL_PAGESIZE - 1)"

definition NaClRoundPage32 :: "u32 \<Rightarrow> u32" where
  "NaClRoundPage32 nbytes =
     ucast (ucast (nbytes + ucast NACL_PAGESIZE - 1) AND NOT (NACL_PAGESIZE - 1))"

definition NaClRoundAllocPage :: "u64 \<Rightarrow> u64" where
  "NaClRoundAllocPage nbytes = (nbytes + NACL_MAP_PAGESIZE - 1) AND NOT (NACL_MAP_PAGESIZE - 1)"

definition NaClRoundAllocPage32 :: "u32 \<Rightarrow> u32" where
  "NaClRoundAllocPage32 nbytes =
     (nbytes + ucast NACL_MAP_PAGESIZE - 1) AND NOT (ucast NACL_MAP_PAGESIZE - 1)"

definition NaClTruncPage :: "u64 \<Rightarrow> u64" where
  "NaClTruncPage nbytes = nbytes AND NOT (NACL_PAGESIZE - 1)"

definition NaClTruncAllocPage :: "u64 \<Rightarrow> u64" where
  "NaClTruncAllocPage nbytes = nbytes AND NOT (NACL_MAP_PAGESIZE - 1)"

definition NaClBytesToPages :: "u64 \<Rightarrow> u64" where
  "NaClBytesToPages nbytes = drop_bit NACL_PAGESHIFT (nbytes + NACL_PAGESIZE - 1)"

definition NaClIsPageMultiple :: "u64 \<Rightarrow> bool" where
  "NaClIsPageMultiple addr_or_size \<longleftrightarrow> 0 = (NACL_PAGESIZE - 1) AND addr_or_size"

definition NaClIsAllocPageMultiple :: "u64 \<Rightarrow> bool" where
  "NaClIsAllocPageMultiple addr_or_size \<longleftrightarrow> 0 = (NACL_MAP_PAGESIZE - 1) AND addr_or_size"

text \<open>The enclave build is a Linux one: the host allocation unit is the page.\<close>

definition NaClRoundHostAllocPage :: "u64 \<Rightarrow> u64" where
  "NaClRoundHostAllocPage nbytes = NaClRoundPage nbytes"

definition NaClRoundPageNumUpToMapMultiple :: "u64 \<Rightarrow> u64" where
  "NaClRoundPageNumUpToMapMultiple npages =
     (npages + NACL_PAGES_PER_MAP - 1) AND NOT (NACL_PAGES_PER_MAP - 1)"

definition NaClTruncPageNumDownToMapMultiple :: "u64 \<Rightarrow> u64" where
  "NaClTruncPageNumDownToMapMultiple npages = npages AND NOT (NACL_PAGES_PER_MAP - 1)"

section \<open>What the roundings compute\<close>

lemma and_not_mask_eq: "x AND NOT (mask n) = push_bit n (drop_bit n (x :: 'a::len word))"
  by (rule bit_word_eqI) (auto simp: bit_simps)

lemma unat_and_not_mask: "unat ((x :: 'a::len word) AND NOT (mask n)) = unat x div 2 ^ n * 2 ^ n"
proof -
  have "unat x div 2 ^ n * 2 ^ n \<le> unat x" by simp
  also have "unat x < 2 ^ LENGTH('a)" by simp
  finally have "unat x div 2 ^ n * 2 ^ n < 2 ^ LENGTH('a)" .
  moreover have "unat (push_bit n (drop_bit n x)) =
      take_bit LENGTH('a) (push_bit n (drop_bit n (take_bit LENGTH('a) (unat x))))"
    by (simp only: unsigned_push_bit_eq unsigned_drop_bit_eq)
  ultimately show ?thesis
    by (simp add: and_not_mask_eq push_bit_eq_mult drop_bit_eq_div take_bit_nat_eq_self
        del: unsigned_push_bit_eq unsigned_drop_bit_eq)
qed

text \<open>\<open>round_up n k\<close> is the least multiple of \<open>k\<close> not below \<open>n\<close>.\<close>

definition round_up :: "nat \<Rightarrow> nat \<Rightarrow> nat" where
  "round_up n k = (n + (k - 1)) div k * k"

lemma round_up_ge: "0 < k \<Longrightarrow> n \<le> round_up n k"
proof -
  assume k: "0 < k"
  have "n + (k - 1) = (n + (k - 1)) div k * k + (n + (k - 1)) mod k" by simp
  moreover have "(n + (k - 1)) mod k \<le> k - 1"
    using k by (metis Suc_pred' less_Suc_eq_le mod_less_divisor)
  ultimately show ?thesis unfolding round_up_def by linarith
qed

lemma round_up_least: "k dvd m \<Longrightarrow> n \<le> m \<Longrightarrow> 0 < k \<Longrightarrow> round_up n k \<le> m"
proof -
  assume "k dvd m" and le: "n \<le> m" and k: "0 < k"
  then obtain q where m: "m = q * k" by (metis dvd_def mult.commute)
  have "(n + (k - 1)) div k \<le> (q * k + (k - 1)) div k"
    using le unfolding m by (intro div_le_mono) simp
  also have "\<dots> = q + (k - 1) div k" using k by (intro div_mult_self3) simp
  also have "\<dots> = q" using k by simp
  finally have "(n + (k - 1)) div k \<le> q" .
  then show ?thesis unfolding round_up_def m by (rule mult_le_mono1)
qed

lemma round_up_dvd: "k dvd round_up n k"
  by (simp add: round_up_def)

lemma round_up_less: "0 < k \<Longrightarrow> round_up n k < n + k"
proof -
  assume "0 < k"
  moreover have "(n + (k - 1)) div k * k \<le> n + (k - 1)" by simp
  ultimately show ?thesis unfolding round_up_def by linarith
qed

lemma mask_12: "4095 = (mask 12 :: u64)" and mask_16: "65535 = (mask 16 :: u64)"
  and mask_4: "15 = (mask 4 :: u64)"
  by (simp_all add: mask_eq_exp_minus_1)

lemma unat_add_no_wrap: "unat x + unat y < 2 ^ LENGTH('a) \<Longrightarrow> unat (x + y :: 'a::len word) = unat x + unat y"
  by (simp add: unat_word_ariths)

lemma unat_diff_le: "unat y \<le> unat x \<Longrightarrow> unat (x - y :: 'a::len word) = unat x - unat y"
  by (simp add: unat_sub word_le_nat_alt)

lemma unat_round_up_word:
  fixes x :: u64
  assumes "unat x + (2 ^ n - 1) < 2 ^ 64" and "unat k = 2 ^ n - 1"
  shows "unat ((x + k) AND NOT (mask n)) = round_up (unat x) (2 ^ n)"
  using assms by (simp add: unat_and_not_mask round_up_def unat_add_no_wrap)

lemma unat_NaClRoundPage:
  "unat x + 4095 < 2 ^ 64 \<Longrightarrow> unat (NaClRoundPage x) = round_up (unat x) 4096"
  using unat_round_up_word [of x 12 4095]
  by (simp add: NaClRoundPage_def NACL_PAGESIZE_def mask_12 [symmetric] add_diff_eq [symmetric])

lemma unat_NaClRoundAllocPage:
  "unat x + 65535 < 2 ^ 64 \<Longrightarrow> unat (NaClRoundAllocPage x) = round_up (unat x) 65536"
  using unat_round_up_word [of x 16 65535]
  by (simp add: NaClRoundAllocPage_def NACL_MAP_PAGESIZE_def mask_16 [symmetric] add_diff_eq [symmetric])

lemma unat_NaClRoundPageNumUpToMapMultiple:
  "unat x + 15 < 2 ^ 64 \<Longrightarrow> unat (NaClRoundPageNumUpToMapMultiple x) = round_up (unat x) 16"
  using unat_round_up_word [of x 4 15]
  by (simp add: NaClRoundPageNumUpToMapMultiple_def NACL_PAGES_PER_MAP_def mask_4 [symmetric]
      add_diff_eq [symmetric])

lemma unat_NaClTruncPageNumDownToMapMultiple:
  "unat (NaClTruncPageNumDownToMapMultiple x) = unat x div 16 * 16"
  using unat_and_not_mask [of x 4]
  by (simp add: NaClTruncPageNumDownToMapMultiple_def NACL_PAGES_PER_MAP_def mask_4 [symmetric])

lemma unat_NaClTruncPage: "unat (NaClTruncPage x) = unat x div 4096 * 4096"
  using unat_and_not_mask [of x 12]
  by (simp add: NaClTruncPage_def NACL_PAGESIZE_def mask_12 [symmetric])

lemma unat_NaClTruncAllocPage: "unat (NaClTruncAllocPage x) = unat x div 65536 * 65536"
  using unat_and_not_mask [of x 16]
  by (simp add: NaClTruncAllocPage_def NACL_MAP_PAGESIZE_def mask_16 [symmetric])

lemma NaClIsPageMultiple_iff: "NaClIsPageMultiple x \<longleftrightarrow> 4096 dvd unat x"
proof -
  have "NaClIsPageMultiple x \<longleftrightarrow> take_bit 12 x = 0"
    by (auto simp: NaClIsPageMultiple_def NACL_PAGESIZE_def mask_12 and.commute take_bit_eq_mask)
  also have "\<dots> \<longleftrightarrow> unat (take_bit 12 x) = 0" by (simp only: unat_eq_zero)
  also have "\<dots> \<longleftrightarrow> 4096 dvd unat x"
    by (simp only: unsigned_take_bit_eq) (simp add: take_bit_eq_mod mod_eq_0_iff_dvd)
  finally show ?thesis .
qed

lemma NaClIsAllocPageMultiple_iff: "NaClIsAllocPageMultiple x \<longleftrightarrow> 65536 dvd unat x"
proof -
  have "NaClIsAllocPageMultiple x \<longleftrightarrow> take_bit 16 x = 0"
    by (auto simp: NaClIsAllocPageMultiple_def NACL_MAP_PAGESIZE_def mask_16 and.commute take_bit_eq_mask)
  also have "\<dots> \<longleftrightarrow> unat (take_bit 16 x) = 0" by (simp only: unat_eq_zero)
  also have "\<dots> \<longleftrightarrow> 65536 dvd unat x"
    by (simp only: unsigned_take_bit_eq) (simp add: take_bit_eq_mod mod_eq_0_iff_dvd)
  finally show ?thesis .
qed

end
