(* ===== verification/Vmmap.thy ===== *)
theory Vmmap
  imports NaClConfig CSort
begin

text \<open>
  The memory map of the sandbox (\<open>service_runtime/sel_mem.c\<close>): an array of pointers to
  regions, kept sorted by page number lazily.

  \<^item> \<open>NaClVmmapEntry\<close> and \<open>NaClVmmap\<close> are the structs of \<open>sel_mem.h\<close>, their fields with the
    prefix \<open>ve_\<close> or \<open>vm_\<close>. The array \<open>vmentry\<close> is the list of its slots \<open>[0, nvalid)\<close>, so
    that \<open>nvalid\<close> is the length of the list; a slot is \<open>None\<close> where the code has a null
    pointer. Slots from \<open>nvalid\<close> on are never read.
  \<^item> A descriptor is a number; \<open>vm_refs d\<close> is what the map has added to the reference count
    of \<open>d\<close> (\<open>NaClDescRef\<close> and \<open>NaClDescSafeUnref\<close>).
  \<^item> \<open>mem n\<close> says whether \<open>malloc\<close>, \<open>calloc\<close> or \<open>realloc\<close> of \<open>n\<close> bytes succeeds, and
    \<open>GetFlags d\<close> is the virtual method of the descriptor \<open>d\<close>.
  \<^item> Functions that sort the map return it along with their result.
\<close>

section \<open>Data\<close>

record NaClVmmapEntry =
  ve_page_num :: u64
  ve_npages :: u64
  ve_prot :: u32
  ve_flags :: u32
  ve_removed :: bool
  ve_desc :: "nat option"
  ve_offset :: u64
  ve_file_size :: u64

record NaClVmmap =
  vm_vmentry :: "NaClVmmapEntry option list"
  vm_size :: nat
  vm_is_sorted :: bool
  vm_refs :: "nat \<Rightarrow> int"

abbreviation vm_nvalid :: "NaClVmmap \<Rightarrow> nat" where
  "vm_nvalid self \<equiv> length (vm_vmentry self)"

definition START_ENTRIES :: nat where "START_ENTRIES = 10"
definition sizeof_NaClVmmapEntry :: nat where "sizeof_NaClVmmapEntry = 56"
definition sizeof_ptr :: nat where "sizeof_ptr = 8"

section \<open>Entries\<close>

definition NaClDescRef :: "(nat \<Rightarrow> int) \<Rightarrow> nat option \<Rightarrow> nat \<Rightarrow> int" where
  "NaClDescRef refs desc = (case desc of None \<Rightarrow> refs | Some d \<Rightarrow> refs(d := refs d + 1))"

definition NaClDescSafeUnref :: "(nat \<Rightarrow> int) \<Rightarrow> nat option \<Rightarrow> nat \<Rightarrow> int" where
  "NaClDescSafeUnref refs desc = (case desc of None \<Rightarrow> refs | Some d \<Rightarrow> refs(d := refs d - 1))"

definition NaClVmmapEntryMake ::
  "(nat \<Rightarrow> bool) \<Rightarrow> (nat \<Rightarrow> int) \<Rightarrow> u64 \<Rightarrow> u64 \<Rightarrow> u32 \<Rightarrow> u32 \<Rightarrow> nat option \<Rightarrow> u64 \<Rightarrow> u64
   \<Rightarrow> NaClVmmapEntry option \<times> (nat \<Rightarrow> int)" where
  "NaClVmmapEntryMake mem refs page_num npages prot flags desc offset file_size =
     (if \<not> mem sizeof_NaClVmmapEntry then (None, refs)
      else (Some \<lparr>ve_page_num = page_num, ve_npages = npages, ve_prot = prot, ve_flags = flags,
                  ve_removed = False, ve_desc = desc, ve_offset = offset,
                  ve_file_size = file_size\<rparr>,
            if desc \<noteq> None then NaClDescRef refs desc else refs))"

definition NaClVmmapEntryFree :: "(nat \<Rightarrow> int) \<Rightarrow> NaClVmmapEntry \<Rightarrow> nat \<Rightarrow> int" where
  "NaClVmmapEntryFree refs entry =
     (if ve_desc entry \<noteq> None then NaClDescSafeUnref refs (ve_desc entry) else refs)"

text \<open>\<open>vmentry_at self i\<close> is the expression \<open>*self->vmentry[i]\<close>, \<open>vmentry_set\<close> a write through
  that pointer, and \<open>vmentry_free\<close> frees the entry and stores \<open>NULL\<close> in the slot.\<close>

definition vmentry_at :: "NaClVmmap \<Rightarrow> nat \<Rightarrow> NaClVmmapEntry run" where
  "vmentry_at self i =
     (if i < vm_nvalid self
      then case vm_vmentry self ! i of None \<Rightarrow> Inl NullDeref | Some e \<Rightarrow> Inr e
      else Inl OutOfBounds)"

definition vmentry_set :: "NaClVmmap \<Rightarrow> nat \<Rightarrow> NaClVmmapEntry \<Rightarrow> NaClVmmap" where
  "vmentry_set self i e = self\<lparr>vm_vmentry := (vm_vmentry self)[i := Some e]\<rparr>"

definition vmentry_free :: "NaClVmmap \<Rightarrow> nat \<Rightarrow> NaClVmmapEntry \<Rightarrow> NaClVmmap" where
  "vmentry_free self i e =
     self\<lparr>vm_vmentry := (vm_vmentry self)[i := None], vm_refs := NaClVmmapEntryFree (vm_refs self) e\<rparr>"

lemma vm_nvalid_set [simp]: "vm_nvalid (vmentry_set self i e) = vm_nvalid self"
  by (simp add: vmentry_set_def)

lemma vm_nvalid_free [simp]: "vm_nvalid (vmentry_free self i e) = vm_nvalid self"
  by (simp add: vmentry_free_def)

section \<open>Construction and destruction\<close>

definition NaClVmmapCtor :: "(nat \<Rightarrow> bool) \<Rightarrow> NaClVmmap option" where
  "NaClVmmapCtor mem =
     (if (2 ^ 64 - 1) div sizeof_ptr < START_ENTRIES then None
      else if \<not> mem (START_ENTRIES * sizeof_ptr) then None
      else Some \<lparr>vm_vmentry = [], vm_size = START_ENTRIES, vm_is_sorted = True, vm_refs = (\<lambda>_. 0)\<rparr>)"

text \<open>The destructor frees every entry; what is left of the object is its reference counts.\<close>

function NaClVmmapDtor_loop :: "NaClVmmap \<Rightarrow> nat \<Rightarrow> (nat \<Rightarrow> int) \<Rightarrow> (nat \<Rightarrow> int) run" where
  "NaClVmmapDtor_loop self i refs =
     (if i < vm_nvalid self
      then bindE (vmentry_at self i) (\<lambda>e. NaClVmmapDtor_loop self (Suc i) (NaClVmmapEntryFree refs e))
      else Inr refs)"
  by pat_completeness auto
termination
  by (relation "measure (\<lambda>(self, i, refs). vm_nvalid self - i)") auto

declare NaClVmmapDtor_loop.simps [simp del]

definition NaClVmmapDtor :: "NaClVmmap \<Rightarrow> (nat \<Rightarrow> int) run" where
  "NaClVmmapDtor self = NaClVmmapDtor_loop self 0 (vm_refs self)"

section \<open>Removal of marked entries and sorting\<close>

text \<open>The subtraction is on 64-bit unsigned numbers and its result is cut to an \<open>int\<close>.\<close>

definition NaClVmmapCmpEntries :: "NaClVmmapEntry \<Rightarrow> NaClVmmapEntry \<Rightarrow> int" where
  "NaClVmmapCmpEntries left right = sint (ucast (ve_page_num left - ve_page_num right) :: u32)"

text \<open>The loop \<open>for (last = self->nvalid; last > 0 && self->vmentry[--last]->removed; )\<close>.\<close>

fun remove_marked_tail :: "nat \<Rightarrow> NaClVmmap \<Rightarrow> (nat \<times> NaClVmmap) run" where
  "remove_marked_tail 0 self = Inr (0, self)"
| "remove_marked_tail (Suc last_ix) self =
     bindE (vmentry_at self last_ix) (\<lambda>e.
       if ve_removed e then remove_marked_tail last_ix (vmentry_free self last_ix e)
       else Inr (last_ix, self))"

text \<open>The loop \<open>while (--last > i && self->vmentry[last]->removed)\<close>.\<close>

fun remove_marked_back :: "nat \<Rightarrow> nat \<Rightarrow> NaClVmmap \<Rightarrow> (nat \<times> NaClVmmap) run" where
  "remove_marked_back i 0 self = Inl OutOfBounds"
| "remove_marked_back i (Suc last_ix) self =
     (if last_ix > i then
        bindE (vmentry_at self last_ix) (\<lambda>e.
          if ve_removed e then remove_marked_back i last_ix (vmentry_free self last_ix e)
          else Inr (last_ix, self))
      else Inr (last_ix, self))"

lemma remove_marked_back_less:
  "remove_marked_back i last_ix self = Inr (last_ix', self') \<Longrightarrow> last_ix' < last_ix"
  by (induction i last_ix self rule: remove_marked_back.induct)
    (fastforce simp: bindE_eq_Inr split: if_splits)+

text \<open>The loop over \<open>i\<close>: a removed slot is filled with the entry at \<open>last\<close>.\<close>

function remove_marked_scan :: "nat \<Rightarrow> nat \<Rightarrow> NaClVmmap \<Rightarrow> (nat \<times> NaClVmmap) run" where
  "remove_marked_scan i last_ix self =
     (if i < last_ix then
        bindE (vmentry_at self i) (\<lambda>e.
          if \<not> ve_removed e then remove_marked_scan (Suc i) last_ix self
          else
            bindE (remove_marked_back i last_ix
                (let s = vmentry_free self i e
                 in s\<lparr>vm_vmentry := (vm_vmentry s)[i := vm_vmentry s ! last_ix, last_ix := None]\<rparr>))
              (\<lambda>(last_ix', self'). remove_marked_scan (Suc i) last_ix' self'))
      else Inr (last_ix, self))"
  by pat_completeness auto
termination
  by (relation "measure (\<lambda>(i, last_ix, self). last_ix - i)") (auto dest!: remove_marked_back_less)

declare remove_marked_scan.simps [simp del]

definition NaClVmmapRemoveMarked :: "NaClVmmap \<Rightarrow> NaClVmmap run" where
  "NaClVmmapRemoveMarked self =
     (if vm_nvalid self = 0 then Inr self
      else
        bindE (remove_marked_tail (vm_nvalid self) self) (\<lambda>(last_ix, self1).
        bindE (if last_ix = 0 then bindE (vmentry_at self1 0) (\<lambda>e. Inr (ve_removed e)) else Inr False)
          (\<lambda>empty. guardE LogFatal (\<not> empty)
        (guardE CheckFailed (last_ix < vm_nvalid self1)
        (bindE (vmentry_at self1 last_ix) (\<lambda>e. guardE CheckFailed (\<not> ve_removed e)
        (bindE (remove_marked_scan 0 last_ix self1) (\<lambda>(last_ix', self2).
           Inr (self2\<lparr>vm_vmentry := take (Suc last_ix') (vm_vmentry self2),
                      vm_is_sorted := False\<rparr>)))))))))"

text \<open>\<open>qsort\<close> sorts the array of pointers; its comparison dereferences them. The array has
  fewer than \<open>2 ^ 28\<close> pointers of 8 bytes (with their entries that many would fill more than
  12 GiB of heap), so \<open>qsort\<close> and \<open>bsearch\<close> are \<open>qsort_elems\<close> and \<open>bsearch_elems\<close> on it
  (\<open>qsort_fits\<close>, \<open>bsearch_fits\<close>).\<close>

definition NaClVmmapMakeSorted :: "NaClVmmap \<Rightarrow> NaClVmmap run" where
  "NaClVmmapMakeSorted self =
     (if vm_is_sorted self then Inr self
      else
        bindE (NaClVmmapRemoveMarked self) (\<lambda>self.
          case those (vm_vmentry self) of
            None \<Rightarrow> Inl NullDeref
          | Some es \<Rightarrow> Inr (self\<lparr>vm_vmentry := map Some (qsort_elems NaClVmmapCmpEntries es),
                               vm_is_sorted := True\<rparr>)))"

section \<open>Adding and updating mappings\<close>

text \<open>A failed allocation of the entry stores a null pointer in the new slot: the result of
  \<open>NaClVmmapEntryMake\<close> is not checked.\<close>

definition NaClVmmapAdd ::
  "(nat \<Rightarrow> bool) \<Rightarrow> NaClVmmap \<Rightarrow> u64 \<Rightarrow> u64 \<Rightarrow> u32 \<Rightarrow> u32 \<Rightarrow> nat option \<Rightarrow> u64 \<Rightarrow> u64 \<Rightarrow> NaClVmmap run"
where
  "NaClVmmapAdd mem self page_num npages prot flags desc offset file_size =
     bindE (if vm_nvalid self = vm_size self then
              let new_size = 2 * vm_size self in
              if \<not> mem (new_size * sizeof_ptr) then Inl LogFatal
              else Inr (self\<lparr>vm_size := new_size\<rparr>)
            else Inr self)
       (\<lambda>self.
          case NaClVmmapEntryMake mem (vm_refs self) page_num npages prot flags desc offset file_size
          of (entry, refs) \<Rightarrow>
            Inr (self\<lparr>vm_vmentry := vm_vmentry self @ [entry], vm_is_sorted := False,
                      vm_refs := refs\<rparr>))"

text \<open>The loop of \<open>NaClVmmapUpdate\<close>; \<open>new_end\<close> is \<open>new_region_end_page\<close>. The last branch
  is the \<open>assert\<close> of the case without overlap.\<close>

function NaClVmmapUpdate_loop ::
  "(nat \<Rightarrow> bool) \<Rightarrow> u64 \<Rightarrow> u64 \<Rightarrow> nat \<Rightarrow> NaClVmmap \<Rightarrow> NaClVmmap run" where
  "NaClVmmapUpdate_loop mem page_num new_end i self =
     (if i < vm_nvalid self then
        bindE (vmentry_at self i) (\<lambda>ent.
          let ent_end_page = ve_page_num ent + ve_npages ent;
              additional_offset = push_bit NACL_PAGESHIFT (new_end - ve_page_num ent)
          in
          if ve_page_num ent < page_num \<and> new_end < ent_end_page then
            bindE (NaClVmmapAdd mem self new_end (ent_end_page - new_end) (ve_prot ent)
                     (ve_flags ent) (ve_desc ent) (ve_offset ent + additional_offset)
                     (ve_file_size ent))
              (\<lambda>self. Inr (vmentry_set self i (ent\<lparr>ve_npages := page_num - ve_page_num ent\<rparr>)))
          else if ve_page_num ent < page_num \<and> page_num < ent_end_page then
            NaClVmmapUpdate_loop mem page_num new_end (Suc i)
              (vmentry_set self i (ent\<lparr>ve_npages := page_num - ve_page_num ent\<rparr>))
          else if ve_page_num ent < new_end \<and> new_end < ent_end_page then
            Inr (vmentry_set self i (ent\<lparr>ve_page_num := new_end,
                   ve_npages := ent_end_page - new_end,
                   ve_offset := ve_offset ent + additional_offset\<rparr>))
          else if page_num \<le> ve_page_num ent \<and> ent_end_page \<le> new_end then
            NaClVmmapUpdate_loop mem page_num new_end (Suc i)
              (vmentry_set self i (ent\<lparr>ve_removed := True\<rparr>))
          else if new_end \<le> ve_page_num ent \<or> ent_end_page \<le> page_num then
            NaClVmmapUpdate_loop mem page_num new_end (Suc i) self
          else Inl CheckFailed)
      else Inr self)"
  by pat_completeness auto
termination
  by (relation "measure (\<lambda>(mem, page_num, new_end, i, self). vm_nvalid self - i)") auto

declare NaClVmmapUpdate_loop.simps [simp del]

definition NaClVmmapUpdate ::
  "(nat \<Rightarrow> bool) \<Rightarrow> NaClVmmap \<Rightarrow> u64 \<Rightarrow> u64 \<Rightarrow> u32 \<Rightarrow> u32 \<Rightarrow> bool \<Rightarrow> nat option \<Rightarrow> u64 \<Rightarrow> u64
   \<Rightarrow> NaClVmmap run" where
  "NaClVmmapUpdate mem self page_num npages prot flags remove desc offset file_size =
     (let new_region_end_page = page_num + npages in
      bindE (NaClVmmapMakeSorted self) (\<lambda>self.
      guardE CheckFailed (npages > 0)
      (bindE (NaClVmmapUpdate_loop mem page_num new_region_end_page 0 self) (\<lambda>self.
       bindE (if \<not> remove
              then NaClVmmapAdd mem self page_num npages prot flags desc offset file_size
              else Inr self)
         NaClVmmapRemoveMarked))))"

definition NaClVmmapAddWithOverwrite ::
  "(nat \<Rightarrow> bool) \<Rightarrow> NaClVmmap \<Rightarrow> u64 \<Rightarrow> u64 \<Rightarrow> u32 \<Rightarrow> u32 \<Rightarrow> nat option \<Rightarrow> u64 \<Rightarrow> u64 \<Rightarrow> NaClVmmap run"
where
  "NaClVmmapAddWithOverwrite mem self page_num npages prot flags desc offset file_size =
     NaClVmmapUpdate mem self page_num npages prot flags False desc offset file_size"

definition NaClVmmapRemove :: "(nat \<Rightarrow> bool) \<Rightarrow> NaClVmmap \<Rightarrow> u64 \<Rightarrow> u64 \<Rightarrow> NaClVmmap run" where
  "NaClVmmapRemove mem self page_num npages =
     NaClVmmapUpdate mem self page_num npages 0 0 True None 0 0"

section \<open>Protection\<close>

definition NaClVmmapEntryMaxProt :: "(nat \<Rightarrow> u32) \<Rightarrow> NaClVmmapEntry \<Rightarrow> u32 run" where
  "NaClVmmapEntryMaxProt GetFlags entry =
     (case ve_desc entry of
        Some d \<Rightarrow>
          if ve_flags entry AND NACL_ABI_MAP_PRIVATE = 0 then
            let mode = GetFlags d AND NACL_ABI_O_ACCMODE in
            if mode = NACL_ABI_O_RDONLY then Inr NACL_ABI_PROT_READ
            else if mode = NACL_ABI_O_WRONLY then Inr NACL_ABI_PROT_WRITE
            else if mode = NACL_ABI_O_RDWR then Inr (NACL_ABI_PROT_READ OR NACL_ABI_PROT_WRITE)
            else Inl LogFatal
          else Inr (NACL_ABI_PROT_READ OR NACL_ABI_PROT_WRITE)
      | None \<Rightarrow> Inr (NACL_ABI_PROT_READ OR NACL_ABI_PROT_WRITE))"

function check_existing_loop ::
  "(nat \<Rightarrow> u32) \<Rightarrow> NaClVmmap \<Rightarrow> nat \<Rightarrow> u64 \<Rightarrow> u64 \<Rightarrow> u32 \<Rightarrow> bool run" where
  "check_existing_loop GetFlags self i page_num region_end_page prot =
     (if i < vm_nvalid self then
        bindE (vmentry_at self i) (\<lambda>ent.
        bindE (NaClVmmapEntryMaxProt GetFlags ent) (\<lambda>flags.
          let ent_end_page = ve_page_num ent + ve_npages ent in
          if ve_page_num ent \<le> page_num \<and> region_end_page \<le> ent_end_page then
            Inr (0 = prot AND NOT flags)
          else if ve_page_num ent \<le> page_num \<and> page_num < ent_end_page then
            if 0 \<noteq> prot AND NOT flags then Inr False
            else check_existing_loop GetFlags self (Suc i) ent_end_page region_end_page prot
          else if page_num < ve_page_num ent then Inr False
          else check_existing_loop GetFlags self (Suc i) page_num region_end_page prot))
      else Inr False)"
  by pat_completeness auto
termination
  by (relation "measure (\<lambda>(GetFlags, self, i, _). vm_nvalid self - i)") auto

declare check_existing_loop.simps [simp del]

definition NaClVmmapCheckExistingMapping ::
  "(nat \<Rightarrow> u32) \<Rightarrow> NaClVmmap \<Rightarrow> u64 \<Rightarrow> u64 \<Rightarrow> u32 \<Rightarrow> (bool \<times> NaClVmmap) run" where
  "NaClVmmapCheckExistingMapping GetFlags self page_num npages prot =
     (let region_end_page = page_num + npages in
      if vm_nvalid self = 0 then Inr (False, self)
      else bindE (NaClVmmapMakeSorted self) (\<lambda>self.
           bindE (check_existing_loop GetFlags self 0 page_num region_end_page prot)
             (\<lambda>r. Inr (r, self))))"

text \<open>The loop of \<open>NaClVmmapChangeProt\<close> runs over the \<open>nvalid\<close> entries there are at its
  start; the entries it adds come after them.\<close>

function change_prot_loop ::
  "(nat \<Rightarrow> bool) \<Rightarrow> nat \<Rightarrow> u64 \<Rightarrow> u32 \<Rightarrow> nat \<Rightarrow> u64 \<Rightarrow> u64 \<Rightarrow> NaClVmmap \<Rightarrow> NaClVmmap run" where
  "change_prot_loop mem nvalid new_end prot i page_num npages self =
     (if i < nvalid \<and> npages > 0 then
        bindE (vmentry_at self i) (\<lambda>ent.
          let ent_end_page = ve_page_num ent + ve_npages ent;
              additional_offset = push_bit NACL_PAGESHIFT (new_end - ve_page_num ent)
          in
          if ve_page_num ent < page_num \<and> new_end < ent_end_page then
            bindE (NaClVmmapAdd mem self new_end (ent_end_page - new_end) (ve_prot ent)
                     (ve_flags ent) (ve_desc ent) (ve_offset ent + additional_offset)
                     (ve_file_size ent))
              (\<lambda>self.
                 NaClVmmapAdd mem
                   (vmentry_set self i (ent\<lparr>ve_npages := page_num - ve_page_num ent\<rparr>))
                   page_num npages prot (ve_flags ent) (ve_desc ent)
                   (ve_offset ent + (page_num - ve_page_num ent)) (ve_file_size ent))
          else if ve_page_num ent < page_num \<and> page_num < ent_end_page then
            bindE (NaClVmmapAdd mem
                     (vmentry_set self i (ent\<lparr>ve_npages := page_num - ve_page_num ent\<rparr>))
                     page_num (ent_end_page - page_num) prot (ve_flags ent) (ve_desc ent)
                     (ve_offset ent + (page_num - ve_page_num ent)) (ve_file_size ent))
              (change_prot_loop mem nvalid new_end prot (Suc i) ent_end_page
                 (new_end - ent_end_page))
          else if ve_page_num ent < new_end \<and> new_end < ent_end_page then
            bindE (NaClVmmapAdd mem self page_num npages prot (ve_flags ent) (ve_desc ent)
                     (ve_offset ent) (ve_file_size ent))
              (\<lambda>self. Inr (vmentry_set self i (ent\<lparr>ve_page_num := new_end,
                   ve_npages := ent_end_page - new_end,
                   ve_offset := ve_offset ent + additional_offset\<rparr>)))
          else if page_num \<le> ve_page_num ent \<and> ent_end_page \<le> new_end then
            change_prot_loop mem nvalid new_end prot (Suc i) ent_end_page (new_end - ent_end_page)
              (vmentry_set self i (ent\<lparr>ve_prot := prot\<rparr>))
          else if new_end \<le> ve_page_num ent \<or> ent_end_page \<le> page_num then
            change_prot_loop mem nvalid new_end prot (Suc i) page_num npages self
          else Inl CheckFailed)
      else Inr self)"
  by pat_completeness auto
termination
  by (relation "measure (\<lambda>(mem, nvalid, new_end, prot, i, _). nvalid - i)") auto

declare change_prot_loop.simps [simp del]

definition NaClVmmapChangeProt ::
  "(nat \<Rightarrow> bool) \<Rightarrow> (nat \<Rightarrow> u32) \<Rightarrow> NaClVmmap \<Rightarrow> u64 \<Rightarrow> u64 \<Rightarrow> u32 \<Rightarrow> (bool \<times> NaClVmmap) run" where
  "NaClVmmapChangeProt mem GetFlags self page_num npages prot =
     (let new_region_end_page = page_num + npages in
      bindE (NaClVmmapCheckExistingMapping GetFlags self page_num npages prot) (\<lambda>(ok, self).
        if \<not> ok then Inr (False, self)
        else
          bindE (NaClVmmapMakeSorted self) (\<lambda>self.
          bindE (change_prot_loop mem (vm_nvalid self) new_region_end_page prot 0 page_num npages self)
            (\<lambda>self. Inr (True, self)))))"

section \<open>Lookup, iteration and search for space\<close>

definition NaClVmmapContainCmpEntries :: "u64 \<Rightarrow> NaClVmmapEntry option \<Rightarrow> int" where
  "NaClVmmapContainCmpEntries key_page_num ent =
     (case ent of None \<Rightarrow> 0
      | Some ent \<Rightarrow>
          if key_page_num < ve_page_num ent then -1
          else if key_page_num < ve_page_num ent + ve_npages ent then 0
          else 1)"

definition NaClVmmapFindPage ::
  "NaClVmmap \<Rightarrow> u64 \<Rightarrow> (NaClVmmapEntry option \<times> NaClVmmap) run" where
  "NaClVmmapFindPage self pnum =
     bindE (NaClVmmapMakeSorted self) (\<lambda>self.
       case bsearch_elems NaClVmmapContainCmpEntries pnum (vm_vmentry self) of
         None \<Rightarrow> Inr (None, self)
       | Some ix \<Rightarrow> bindE (vmentry_at self ix) (\<lambda>e. Inr (Some e, self)))"

text \<open>An iterator is the index \<open>entry_ix\<close> into the map it was made for.\<close>

definition NaClVmmapFindPageIter :: "NaClVmmap \<Rightarrow> u64 \<Rightarrow> (nat \<times> NaClVmmap) run" where
  "NaClVmmapFindPageIter self pnum =
     bindE (NaClVmmapMakeSorted self) (\<lambda>self.
       case bsearch_elems NaClVmmapContainCmpEntries pnum (vm_vmentry self) of
         None \<Rightarrow> Inr (vm_nvalid self, self)
       | Some ix \<Rightarrow> Inr (ix, self))"

definition NaClVmmapIterAtEnd :: "NaClVmmap \<Rightarrow> nat \<Rightarrow> bool" where
  "NaClVmmapIterAtEnd self entry_ix \<longleftrightarrow> entry_ix \<ge> vm_nvalid self"

definition NaClVmmapIterStar :: "NaClVmmap \<Rightarrow> nat \<Rightarrow> NaClVmmapEntry run" where
  "NaClVmmapIterStar self entry_ix = vmentry_at self entry_ix"

definition NaClVmmapIterIncr :: "nat \<Rightarrow> nat" where
  "NaClVmmapIterIncr entry_ix = Suc entry_ix"

text \<open>\<open>NaClVmmapIterErase\<close> calls \<open>free\<close>, not \<open>NaClVmmapEntryFree\<close>: no reference is dropped.\<close>

definition NaClVmmapIterErase :: "NaClVmmap \<Rightarrow> nat \<Rightarrow> NaClVmmap run" where
  "NaClVmmapIterErase self entry_ix =
     (if entry_ix < vm_nvalid self then
        let nvalid = vm_nvalid self - 1 in
        Inr (self\<lparr>vm_vmentry := take nvalid ((vm_vmentry self)[entry_ix := vm_vmentry self ! nvalid]),
                  vm_is_sorted := False\<rparr>)
      else Inl OutOfBounds)"

text \<open>\<open>NaClVmmapVisit\<close> threads the visitor's state through the entries in order.\<close>

definition NaClVmmapVisit ::
  "NaClVmmap \<Rightarrow> ('s \<Rightarrow> NaClVmmapEntry option \<Rightarrow> 's run) \<Rightarrow> 's \<Rightarrow> ('s \<times> NaClVmmap) run" where
  "NaClVmmapVisit self fn state =
     bindE (NaClVmmapMakeSorted self) (\<lambda>self.
       bindE (fold (\<lambda>e s. bindE s (\<lambda>s. fn s e)) (vm_vmentry self) (Inr state))
         (\<lambda>s. Inr (s, self)))"

text \<open>The three searches run over the gaps between neighbours. Their loops are
  \<open>for (i = self->nvalid; --i > 0; )\<close>, downwards, and \<open>for (i = 1; i < nvalid; ++i)\<close>.\<close>

fun find_space_loop :: "NaClVmmap \<Rightarrow> u64 \<Rightarrow> nat \<Rightarrow> u64 run" where
  "find_space_loop self num_pages 0 = Inr 0"
| "find_space_loop self num_pages (Suc i) =
     (if i > 0 then
        bindE (vmentry_at self (i - 1)) (\<lambda>vmep.
        bindE (vmentry_at self i) (\<lambda>cur.
          let end_page = ve_page_num vmep + ve_npages vmep; start_page = ve_page_num cur in
          if start_page - end_page \<ge> num_pages then Inr (start_page - num_pages)
          else find_space_loop self num_pages i))
      else Inr 0)"

definition NaClVmmapFindSpace :: "NaClVmmap \<Rightarrow> u64 \<Rightarrow> (u64 \<times> NaClVmmap) run" where
  "NaClVmmapFindSpace self num_pages =
     (if vm_nvalid self = 0 then Inr (0, self)
      else bindE (NaClVmmapMakeSorted self) (\<lambda>self.
           bindE (find_space_loop self num_pages (vm_nvalid self)) (\<lambda>p. Inr (p, self))))"

fun find_map_space_loop :: "NaClVmmap \<Rightarrow> u64 \<Rightarrow> nat \<Rightarrow> u64 run" where
  "find_map_space_loop self num_pages 0 = Inr 0"
| "find_map_space_loop self num_pages (Suc i) =
     (if i > 0 then
        bindE (vmentry_at self (i - 1)) (\<lambda>vmep.
        bindE (vmentry_at self i) (\<lambda>cur.
          let end_page = NaClRoundPageNumUpToMapMultiple (ve_page_num vmep + ve_npages vmep);
              start_page = (if NACL_MAP_PAGESHIFT > NACL_PAGESHIFT
                            then NaClTruncPageNumDownToMapMultiple (ve_page_num cur)
                            else ve_page_num cur)
          in
          if NACL_MAP_PAGESHIFT > NACL_PAGESHIFT \<and> start_page \<le> end_page then
            find_map_space_loop self num_pages i
          else if start_page - end_page \<ge> num_pages then Inr (start_page - num_pages)
          else find_map_space_loop self num_pages i))
      else Inr 0)"

definition NaClVmmapFindMapSpace :: "NaClVmmap \<Rightarrow> u64 \<Rightarrow> (u64 \<times> NaClVmmap) run" where
  "NaClVmmapFindMapSpace self num_pages =
     (if vm_nvalid self = 0 then Inr (0, self)
      else bindE (NaClVmmapMakeSorted self) (\<lambda>self.
           bindE (find_map_space_loop self (NaClRoundPageNumUpToMapMultiple num_pages)
                    (vm_nvalid self)) (\<lambda>p. Inr (p, self))))"

function find_above_hint_loop :: "NaClVmmap \<Rightarrow> u64 \<Rightarrow> u64 \<Rightarrow> nat \<Rightarrow> u64 run" where
  "find_above_hint_loop self usr_page num_pages i =
     (if 0 < i \<and> i < vm_nvalid self then
        bindE (vmentry_at self (i - 1)) (\<lambda>vmep.
        bindE (vmentry_at self i) (\<lambda>cur.
          let end_page = NaClRoundPageNumUpToMapMultiple (ve_page_num vmep + ve_npages vmep);
              start_page = (if NACL_MAP_PAGESHIFT > NACL_PAGESHIFT
                            then NaClTruncPageNumDownToMapMultiple (ve_page_num cur)
                            else ve_page_num cur)
          in
          if NACL_MAP_PAGESHIFT > NACL_PAGESHIFT \<and> start_page \<le> end_page then
            find_above_hint_loop self usr_page num_pages (Suc i)
          else
            let end_page = (if end_page \<le> usr_page \<and> usr_page < start_page then usr_page else end_page)
            in
            if usr_page \<le> end_page \<and> start_page - end_page \<ge> num_pages then Inr end_page
            else find_above_hint_loop self usr_page num_pages (Suc i)))
      else Inr 0)"
  by pat_completeness auto
termination
  by (relation "measure (\<lambda>(self, usr_page, num_pages, i). vm_nvalid self - i)") auto

declare find_above_hint_loop.simps [simp del]

definition NaClVmmapFindMapSpaceAboveHint ::
  "NaClVmmap \<Rightarrow> u64 \<Rightarrow> u64 \<Rightarrow> (u64 \<times> NaClVmmap) run" where
  "NaClVmmapFindMapSpaceAboveHint self uaddr num_pages =
     bindE (NaClVmmapMakeSorted self) (\<lambda>self.
     bindE (find_above_hint_loop self (drop_bit NACL_PAGESHIFT uaddr)
              (NaClRoundPageNumUpToMapMultiple num_pages) 1) (\<lambda>p. Inr (p, self)))"

end
