(* ===== verification/VmmapProofs.thy ===== *)
theory VmmapProofs
  imports Vmmap
begin

text \<open>
  Correctness of the memory map. The abstraction of a list of entries is, for each page
  number, the multiset \<open>page_at es p\<close> of what the live entries that cover the page say of it
  (protection, flags, descriptor, file offset of the page, file size). Entries are disjoint
  when no page has more than one of them. Sorting and the removal of marked entries do not
  change \<open>page_at\<close>; the update loop removes exactly the pages of the new region.
\<close>

section \<open>The slots of the array\<close>

definition ents :: "NaClVmmapEntry option list \<Rightarrow> NaClVmmapEntry multiset" where
  "ents arr = image_mset the (filter_mset (\<lambda>x. x \<noteq> None) (mset arr))"

definition live :: "NaClVmmapEntry option list \<Rightarrow> NaClVmmapEntry multiset" where
  "live arr = filter_mset (\<lambda>e. \<not> ve_removed e) (ents arr)"

text \<open>\<open>balance self d\<close> is what the map holds of references to \<open>d\<close> beyond one for each entry
  backed by \<open>d\<close>.\<close>

definition owned :: "NaClVmmapEntry multiset \<Rightarrow> nat \<Rightarrow> nat" where
  "owned M d = size (filter_mset (\<lambda>e. ve_desc e = Some d) M)"

definition balance :: "NaClVmmap \<Rightarrow> nat \<Rightarrow> int" where
  "balance self d = vm_refs self d - int (owned (ents (vm_vmentry self)) d)"

lemma ents_map_Some [simp]: "ents (map Some es) = mset es"
  by (induction es) (auto simp: ents_def)

lemma ents_append [simp]: "ents (xs @ ys) = ents xs + ents ys"
  by (simp add: ents_def)

lemma ents_Cons [simp]:
  "ents [] = {#}" "ents (Some e # xs) = add_mset e (ents xs)" "ents (None # xs) = ents xs"
  by (simp_all add: ents_def)

lemma ents_update:
  assumes "i < length arr" "arr ! i = Some e"
  shows "ents arr = add_mset e (ents (arr[i := None]))"
proof -
  define M where "M = mset arr - {#Some e#}"
  have "mset arr = add_mset (Some e) M"
    using assms unfolding M_def by (metis insert_DiffM nth_mem_mset)
  moreover have "mset (arr[i := None]) = add_mset None M"
    using assms by (simp add: mset_update M_def)
  ultimately show ?thesis by (simp add: ents_def)
qed

lemma owned_add_mset: "owned (add_mset e M) d = (if ve_desc e = Some d then 1 else 0) + owned M d"
  by (simp add: owned_def)

lemma NaClVmmapEntryFree_eq:
  "NaClVmmapEntryFree refs e d = refs d - (if ve_desc e = Some d then 1 else 0)"
  by (auto simp: NaClVmmapEntryFree_def NaClDescSafeUnref_def split: option.splits)

lemma vmentry_free_inv:
  assumes "i < vm_nvalid self" "vm_vmentry self ! i = Some e"
  shows "balance (vmentry_free self i e) = balance self"
    and "ve_removed e \<Longrightarrow> live (vm_vmentry (vmentry_free self i e)) = live (vm_vmentry self)"
    and "vm_size (vmentry_free self i e) = vm_size self"
  using ents_update [OF assms]
  by (auto simp: vmentry_free_def balance_def NaClVmmapEntryFree_eq owned_add_mset live_def)

lemma vmentry_at_Inr: "vmentry_at self i = Inr e \<longleftrightarrow> i < vm_nvalid self \<and> vm_vmentry self ! i = Some e"
  by (auto simp: vmentry_at_def split: option.splits)

lemma vmentry_at_Some [simp]:
  "i < vm_nvalid self \<Longrightarrow> vm_vmentry self ! i = Some e \<Longrightarrow> vmentry_at self i = Inr e"
  by (simp add: vmentry_at_Inr)

text \<open>What every loop of the compaction keeps: references, live entries, the sizes.\<close>

definition same_live :: "NaClVmmap \<Rightarrow> NaClVmmap \<Rightarrow> bool" where
  "same_live s t \<longleftrightarrow> balance t = balance s \<and> live (vm_vmentry t) = live (vm_vmentry s)
     \<and> vm_size t = vm_size s \<and> vm_nvalid t = vm_nvalid s"

lemma same_live_refl [simp]: "same_live s s"
  by (simp add: same_live_def)

lemma same_live_trans [trans]: "same_live s t \<Longrightarrow> same_live t u \<Longrightarrow> same_live s u"
  by (simp add: same_live_def)

lemma same_live_free:
  "i < vm_nvalid s \<Longrightarrow> vm_vmentry s ! i = Some e \<Longrightarrow> ve_removed e \<Longrightarrow> same_live s (vmentry_free s i e)"
  by (simp add: same_live_def vmentry_free_inv)

definition is_live :: "NaClVmmap \<Rightarrow> nat \<Rightarrow> bool" where
  "is_live s i \<longleftrightarrow> (\<exists>e. vm_vmentry s ! i = Some e \<and> \<not> ve_removed e)"

text \<open>The first \<open>n\<close> slots are used, the others are empty.\<close>

definition used :: "nat \<Rightarrow> NaClVmmap \<Rightarrow> bool" where
  "used n s \<longleftrightarrow> n \<le> vm_nvalid s \<and> (\<forall>i<n. vm_vmentry s ! i \<noteq> None)
     \<and> (\<forall>i. n \<le> i \<longrightarrow> i < vm_nvalid s \<longrightarrow> vm_vmentry s ! i = None)"

lemma used_free: "used (Suc n) s \<Longrightarrow> used n (vmentry_free s n e)"
  by (auto simp: used_def vmentry_free_def nth_list_update)

lemma used_SomeD: "used n s \<Longrightarrow> i < n \<Longrightarrow> \<exists>e. vm_vmentry s ! i = Some e \<and> i < vm_nvalid s"
  by (auto simp: used_def)

lemma remove_marked_tail_ok:
  "used n s \<Longrightarrow> \<exists>l t. remove_marked_tail n s = Inr (l, t) \<and> same_live s t \<and>
     (if \<exists>i<n. is_live s i then l < n \<and> is_live t l \<and> used (Suc l) t else l = 0 \<and> used 0 t)"
proof (induction n arbitrary: s)
  case (Suc n)
  obtain e where e: "vm_vmentry s ! n = Some e" "n < vm_nvalid s"
    using used_SomeD [OF Suc.prems, of n] by auto
  show ?case
  proof (cases "ve_removed e")
    case True
    let ?s = "vmentry_free s n e"
    have ex: "(\<exists>i<n. is_live ?s i) \<longleftrightarrow> (\<exists>i<Suc n. is_live s i)"
      using True e by (auto simp: is_live_def vmentry_free_def less_Suc_eq)
    obtain l t where lt: "remove_marked_tail n ?s = Inr (l, t)" "same_live ?s t"
      "if \<exists>i<n. is_live ?s i then l < n \<and> is_live t l \<and> used (Suc l) t else l = 0 \<and> used 0 t"
      using Suc.IH [OF used_free [OF Suc.prems, of e]] by auto
    have "same_live s t" using same_live_free [OF e(2,1) True] lt(2) by (rule same_live_trans)
    with lt ex e True show ?thesis by (auto split: if_splits)
  next
    case False
    with e Suc.prems show ?thesis by (auto simp: is_live_def)
  qed
qed auto

lemma remove_marked_back_ok:
  "i < l \<Longrightarrow> used l s \<Longrightarrow> is_live s i \<Longrightarrow>
   \<exists>l' t. remove_marked_back i l s = Inr (l', t) \<and> same_live s t \<and> i \<le> l' \<and> l' < l \<and>
     used (Suc l') t \<and> is_live t l' \<and> (\<forall>j\<le>i. vm_vmentry t ! j = vm_vmentry s ! j)"
proof (induction l arbitrary: s)
  case (Suc l)
  obtain e where e: "vm_vmentry s ! l = Some e" "l < vm_nvalid s"
    using used_SomeD [OF Suc.prems(2), of l] by auto
  show ?case
  proof (cases "l > i \<and> ve_removed e")
    case True
    let ?s = "vmentry_free s l e"
    have "is_live ?s i" using True Suc.prems(3) by (auto simp: is_live_def vmentry_free_def)
    then obtain l' t where lt: "remove_marked_back i l ?s = Inr (l', t)" "same_live ?s t"
      "i \<le> l'" "l' < l" "used (Suc l') t" "is_live t l'" "\<forall>j\<le>i. vm_vmentry t ! j = vm_vmentry ?s ! j"
      using Suc.IH [OF _ used_free [OF Suc.prems(2), of e]] True by auto
    have "same_live s t" using same_live_free [OF e(2,1)] True lt(2) by (auto intro: same_live_trans)
    moreover have "\<forall>j\<le>i. vm_vmentry t ! j = vm_vmentry s ! j"
      using lt(7) True by (auto simp: vmentry_free_def)
    ultimately show ?thesis using lt e True by auto
  next
    case False
    with Suc.prems e show ?thesis by (cases "l = i") (auto simp: is_live_def)
  qed
qed auto

lemma swap_move: "vm_vmentry s ! i = None \<Longrightarrow>
    (vm_vmentry s)[i := vm_vmentry s ! l, l := None] = swap i l (vm_vmentry s)"
  by (simp add: swap_def)

lemma same_live_swap:
  assumes "i < vm_nvalid s" "l < vm_nvalid s"
  shows "same_live s (s\<lparr>vm_vmentry := swap i l (vm_vmentry s)\<rparr>)"
  using assms by (simp add: same_live_def balance_def live_def ents_def fun_eq_iff)

lemma remove_marked_scan_ok:
  "i \<le> l \<Longrightarrow> used (Suc l) s \<Longrightarrow> is_live s l \<Longrightarrow> (\<And>j. j < i \<Longrightarrow> is_live s j) \<Longrightarrow>
   \<exists>l' t. remove_marked_scan i l s = Inr (l', t) \<and> same_live s t \<and> used (Suc l') t
     \<and> (\<forall>j\<le>l'. is_live t j)"
proof (induction i l s rule: remove_marked_scan.induct)
  case (1 i l s)
  show ?case
  proof (cases "i < l")
    case il: True
    obtain e where e: "vm_vmentry s ! i = Some e" "i < vm_nvalid s"
      using used_SomeD [OF "1.prems"(2), of i] il by auto
    then have at: "vmentry_at s i = Inr e" by simp
    show ?thesis
    proof (cases "ve_removed e")
      case False
      have "\<exists>l' t. remove_marked_scan (Suc i) l s = Inr (l', t) \<and> same_live s t
          \<and> used (Suc l') t \<and> (\<forall>j\<le>l'. is_live t j)"
        by (rule "1.IH"(1) [OF il at]) (use 1 False il e in \<open>auto simp: less_Suc_eq is_live_def\<close>)
      with il at False show ?thesis by (simp add: remove_marked_scan.simps [of i l s])
    next
      case True
      let ?f = "vmentry_free s i e"
      let ?m = "?f\<lparr>vm_vmentry := swap i l (vm_vmentry ?f)\<rparr>"
      have ln: "l < vm_nvalid s" using "1.prems"(2) by (simp add: used_def)
      have m: "(let s = vmentry_free s i e
          in s\<lparr>vm_vmentry := (vm_vmentry s)[i := vm_vmentry s ! l, l := None]\<rparr>) = ?m"
        using e(2) by (simp add: Let_def swap_def vmentry_free_def)
      have nth: "swap i l ((vm_vmentry s)[i := None]) ! k = (if k = i then vm_vmentry s ! l else if k = l then None
          else vm_vmentry s ! k)" for k
        using e(2) ln il by (simp add: nth_swap)
      have ent_m: "vm_vmentry ?m = swap i l ((vm_vmentry s)[i := None])"
        by (simp add: vmentry_free_def)
      have sm: "same_live s ?m"
        using same_live_free [OF e(2,1) True] same_live_swap [of i ?f l] e(2) ln
        by (auto intro: same_live_trans)
      have um: "used l ?m"
        using "1.prems"(2) il unfolding used_def ent_m by (auto simp: nth)
      have "is_live ?m i" using "1.prems"(3) unfolding is_live_def ent_m by (simp add: nth)
      then obtain l' t where lt: "remove_marked_back i l ?m = Inr (l', t)" "same_live ?m t"
        "i \<le> l'" "l' < l" "used (Suc l') t" "is_live t l'"
        "\<forall>j\<le>i. vm_vmentry t ! j = vm_vmentry ?m ! j"
        using remove_marked_back_ok [OF il um] by auto
      have pre: "is_live t j" if "j < Suc i" for j
        using that lt(7) "1.prems"(3) "1.prems"(4) [of j] il unfolding is_live_def ent_m
        by (cases "j = i") (auto simp: nth)
      have "\<exists>l'' u. (if i < l' then remove_marked_scan (Suc i) l' t else Inr (l', t)) = Inr (l'', u)
          \<and> same_live t u \<and> used (Suc l'') u \<and> (\<forall>j\<le>l''. is_live u j)"
      proof (cases "i < l'")
        case True
        have "\<exists>l'' u. remove_marked_scan (Suc i) l' t = Inr (l'', u)
          \<and> same_live t u \<and> used (Suc l'') u \<and> (\<forall>j\<le>l''. is_live u j)"
          by (rule "1.IH"(2) [OF il at _ lt(1) [folded m] refl]) (use \<open>ve_removed e\<close> True lt pre in auto)
        with True show ?thesis by simp
      next
        case False
        with lt pre show ?thesis by auto
      qed
      moreover have "remove_marked_scan (Suc i) l' t = Inr (l', t)" if "\<not> i < l'"
        using that by (simp add: remove_marked_scan.simps [of "Suc i"])
      ultimately show ?thesis
        using il at True lt(1) same_live_trans [OF same_live_trans [OF sm lt(2)]]
        by (auto simp: remove_marked_scan.simps [of i l s] m split: if_splits)
    qed
  next
    case False
    then have il: "l = i" using "1.prems"(1) by simp
    have "\<forall>j\<le>l. is_live s j" using "1.prems"(3,4) il by (auto simp: le_less)
    moreover have "remove_marked_scan i l s = Inr (l, s)"
      using False by (simp add: remove_marked_scan.simps [of i l s])
    ultimately show ?thesis using "1.prems"(2) by auto
  qed
qed

text \<open>The map as a list of entries, all of them there and none marked.\<close>

definition entries :: "NaClVmmap \<Rightarrow> NaClVmmapEntry list \<Rightarrow> bool" where
  "entries self es \<longleftrightarrow> vm_vmentry self = map Some es"

lemma used_all_live:
  assumes "used (Suc l) t" "\<forall>j\<le>l. is_live t j"
  shows "\<exists>es. take (Suc l) (vm_vmentry t) = map Some es \<and> mset es = live (vm_vmentry t)
    \<and> mset es = ents (vm_vmentry t) \<and> (\<forall>e\<in>set es. \<not> ve_removed e)"
proof -
  define es where "es = map the (take (Suc l) (vm_vmentry t))"
  have len: "Suc l \<le> vm_nvalid t" using assms(1) by (simp add: used_def)
  have nth: "\<exists>e. vm_vmentry t ! j = Some e \<and> \<not> ve_removed e" if "j < Suc l" for j
    using assms(2) that by (auto simp: is_live_def less_Suc_eq_le)
  have tk: "take (Suc l) (vm_vmentry t) = map Some es"
  proof (rule nth_equalityI)
    fix i assume "i < length (take (Suc l) (vm_vmentry t))"
    then have i: "i < Suc l" "i < vm_nvalid t" by auto
    with nth [of i] show "take (Suc l) (vm_vmentry t) ! i = map Some es ! i"
      by (auto simp: es_def)
  qed (simp add: es_def)
  have lv: "\<forall>e\<in>set es. \<not> ve_removed e"
    using nth len by (fastforce simp: es_def in_set_conv_nth)
  have "ents (drop (Suc l) (vm_vmentry t)) = {#}"
    using assms(1) by (auto simp: ents_def used_def in_set_conv_nth)
  then have "ents (vm_vmentry t) = ents (take (Suc l) (vm_vmentry t))"
    by (metis add.right_neutral append_take_drop_id ents_append)
  then have ent: "ents (vm_vmentry t) = mset es" by (simp add: tk)
  moreover have "live (vm_vmentry t) = mset es"
    using lv by (simp add: live_def ent filter_mset_eq_conv)
  ultimately show ?thesis using tk lv by auto
qed

lemma NaClVmmapRemoveMarked_ok:
  assumes es: "entries self es" and ex: "\<exists>e\<in>set es. \<not> ve_removed e"
  shows "\<exists>self' es'. NaClVmmapRemoveMarked self = Inr self' \<and> entries self' es'
    \<and> mset es' = filter_mset (\<lambda>e. \<not> ve_removed e) (mset es) \<and> (\<forall>e\<in>set es'. \<not> ve_removed e)
    \<and> vm_size self' = vm_size self \<and> \<not> vm_is_sorted self'
    \<and> (\<forall>d. balance self' d = balance self d)"
proof -
  have n: "vm_nvalid self = length es" using es by (simp add: entries_def)
  have us: "used (vm_nvalid self) self" using es by (auto simp: used_def entries_def)
  have exi: "\<exists>i<vm_nvalid self. is_live self i"
    using ex es n by (auto simp: entries_def is_live_def in_set_conv_nth) (metis n nth_map)
  obtain l t where lt: "remove_marked_tail (vm_nvalid self) self = Inr (l, t)" "same_live self t"
    "l < vm_nvalid self" "is_live t l" "used (Suc l) t"
    using remove_marked_tail_ok [OF us] exi by auto
  obtain l' u where lu: "remove_marked_scan 0 l t = Inr (l', u)" "same_live t u"
    "used (Suc l') u" "\<forall>j\<le>l'. is_live u j"
    using remove_marked_scan_ok [of 0 l t] lt by auto
  obtain es' where es': "take (Suc l') (vm_vmentry u) = map Some es'"
    "mset es' = live (vm_vmentry u)" "mset es' = ents (vm_vmentry u)" "\<forall>e\<in>set es'. \<not> ve_removed e"
    using used_all_live [OF lu(3,4)] by auto
  have su: "same_live self u" using lt(2) lu(2) by (rule same_live_trans)
  define v where "v = u\<lparr>vm_vmentry := take (Suc l') (vm_vmentry u), vm_is_sorted := False\<rparr>"
  obtain e where e: "vm_vmentry t ! l = Some e" "\<not> ve_removed e" "l < vm_nvalid t"
    using lt(4,5) by (auto simp: is_live_def used_def)
  have "NaClVmmapRemoveMarked self = Inr v"
    using lt lu e n by (auto simp: NaClVmmapRemoveMarked_def v_def)
  moreover have "entries v es'" by (simp add: v_def entries_def es')
  moreover have "mset es' = filter_mset (\<lambda>e. \<not> ve_removed e) (mset es)"
    using es su es'(2) by (simp add: same_live_def live_def entries_def)
  moreover have "balance v d = balance self d" for d
    using su es' by (simp add: v_def balance_def same_live_def fun_eq_iff)
  ultimately show ?thesis
    using es'(4) su by (intro exI [of _ v] exI [of _ es']) (simp add: v_def same_live_def)
qed

text \<open>Where every entry is marked, the compaction frees the entry at 0, stores a null pointer in
  its slot and then reads through it.\<close>

lemma NaClVmmapRemoveMarked_all_marked:
  assumes es: "entries self es" and "es \<noteq> []" and "\<forall>e\<in>set es. ve_removed e"
  shows "NaClVmmapRemoveMarked self = Inl NullDeref"
proof -
  have us: "used (vm_nvalid self) self" using es by (auto simp: used_def entries_def)
  have "\<not> (\<exists>i<vm_nvalid self. is_live self i)"
    using assms by (auto simp: entries_def is_live_def)
  then obtain t where t: "remove_marked_tail (vm_nvalid self) self = Inr (0, t)" "used 0 t"
    "same_live self t"
    using remove_marked_tail_ok [OF us] by auto
  then have "vmentry_at t 0 = Inl NullDeref"
    using assms(1,2) by (auto simp: vmentry_at_def used_def same_live_def entries_def)
  with t assms(1,2) show ?thesis by (auto simp: NaClVmmapRemoveMarked_def entries_def)
qed

section \<open>The pages of the map\<close>

definition ve_first :: "NaClVmmapEntry \<Rightarrow> nat" where
  "ve_first e = unat (ve_page_num e)"

definition ve_end :: "NaClVmmapEntry \<Rightarrow> nat" where
  "ve_end e = unat (ve_page_num e) + unat (ve_npages e)"

definition covers :: "NaClVmmapEntry \<Rightarrow> nat \<Rightarrow> bool" where
  "covers e p \<longleftrightarrow> ve_first e \<le> p \<and> p < ve_end e"

text \<open>What an entry says of a page: protection, flags, descriptor, the offset of this page in
  the backing file, and the size of the file.\<close>

type_synonym page_attrs = "u32 \<times> u32 \<times> nat option \<times> u64 \<times> u64"

definition attrs :: "NaClVmmapEntry \<Rightarrow> nat \<Rightarrow> page_attrs" where
  "attrs e p = (ve_prot e, ve_flags e, ve_desc e,
     ve_offset e + push_bit NACL_PAGESHIFT (of_nat p - ve_page_num e), ve_file_size e)"

definition page_at :: "NaClVmmapEntry list \<Rightarrow> nat \<Rightarrow> page_attrs multiset" where
  "page_at es p = image_mset (\<lambda>e. attrs e p) (filter_mset (\<lambda>e. \<not> ve_removed e \<and> covers e p) (mset es))"

definition vm_page :: "NaClVmmap \<Rightarrow> nat \<Rightarrow> page_attrs option" where
  "vm_page self p =
     (case filter (\<lambda>e. \<not> ve_removed e \<and> covers e p) (List.map_filter id (vm_vmentry self)) of
        [] \<Rightarrow> None | e # _ \<Rightarrow> Some (attrs e p))"

text \<open>Page numbers stay below \<open>2 ^ 31\<close> (the sandbox has \<open>2 ^ 20\<close> pages), so that the end of a
  region does not wrap and the comparison function of the sort is exact.\<close>

definition PAGE_LIMIT :: nat where "PAGE_LIMIT = 2 ^ 31"

definition wf_entry :: "NaClVmmapEntry \<Rightarrow> bool" where
  "wf_entry e \<longleftrightarrow> 0 < unat (ve_npages e) \<and> ve_end e \<le> PAGE_LIMIT"

definition wf_entries :: "NaClVmmapEntry list \<Rightarrow> bool" where
  "wf_entries es \<longleftrightarrow> (\<forall>e\<in>set es. wf_entry e \<and> \<not> ve_removed e) \<and> (\<forall>p. size (page_at es p) \<le> 1)"

definition ordered :: "NaClVmmapEntry list \<Rightarrow> bool" where
  "ordered es \<longleftrightarrow> sorted_wrt (\<lambda>a b. ve_end a \<le> ve_first b) es"

definition wf_vmmap :: "NaClVmmap \<Rightarrow> bool" where
  "wf_vmmap self \<longleftrightarrow>
     (\<exists>es. entries self es \<and> wf_entries es \<and> (vm_is_sorted self \<longrightarrow> sorted (map ve_first es)))"

lemma page_at_simps [simp]:
  "page_at [] p = {#}"
  "page_at (e # es) p = (if \<not> ve_removed e \<and> covers e p then {#attrs e p#} else {#}) + page_at es p"
  "page_at (xs @ ys) p = page_at xs p + page_at ys p"
  by (simp_all add: page_at_def)

lemma page_at_mset: "mset xs = mset ys \<Longrightarrow> page_at xs = page_at ys"
  by (simp add: page_at_def fun_eq_iff)

lemma page_at_filter_live:
  "mset ys = filter_mset (\<lambda>e. \<not> ve_removed e) (mset xs) \<Longrightarrow> page_at ys = page_at xs"
  by (auto simp: page_at_def fun_eq_iff filter_filter_mset conj_commute intro!: arg_cong [of _ _ "image_mset _"])

lemma wf_entries_mset: "mset xs = mset ys \<Longrightarrow> wf_entries xs = wf_entries ys"
  using page_at_mset [of xs ys] by (metis set_mset_mset wf_entries_def)

lemma entries_unique: "entries self es \<Longrightarrow> entries self es' \<Longrightarrow> es = es'"
  by (simp add: entries_def)

lemma map_filter_map_Some [simp]: "List.map_filter id (map Some es) = es"
  by (induction es) (simp_all add: List.map_filter_simps)

lemma vm_page_entries:
  assumes "entries self es" "size (page_at es p) \<le> 1"
  shows "page_at es p = (case vm_page self p of None \<Rightarrow> {#} | Some a \<Rightarrow> {#a#})"
proof -
  define fs where "fs = filter (\<lambda>e. \<not> ve_removed e \<and> covers e p) es"
  have m: "page_at es p = mset (map (\<lambda>e. attrs e p) fs)"
    by (simp add: page_at_def fs_def)
  have v: "vm_page self p = (case fs of [] \<Rightarrow> None | e # _ \<Rightarrow> Some (attrs e p))"
    using assms(1) by (simp add: vm_page_def entries_def fs_def)
  have "length fs \<le> 1" using assms(2) m by simp
  then show ?thesis unfolding m v by (auto split: list.splits)
qed

lemma vm_page_iff:
  assumes "entries self es" "size (page_at es p) \<le> 1"
  shows "vm_page self p = Some a \<longleftrightarrow> page_at es p = {#a#}"
    and "vm_page self p = None \<longleftrightarrow> page_at es p = {#}"
  using vm_page_entries [OF assms] by (auto split: option.splits)

text \<open>Sorted by page number and disjoint, each entry ends before the next begins.\<close>

lemma wf_entries_ordered:
  assumes "wf_entries es" "sorted (map ve_first es)"
  shows "ordered es"
proof -
  have "ve_end a \<le> ve_first b" if ij: "i < j" "j < length es" and ab: "a = es ! i" "b = es ! j" for i j a b
  proof (rule ccontr)
    assume n: "\<not> ve_end a \<le> ve_first b"
    have mem: "a \<in> set es" "b \<in> set es" using ij ab by auto
    have "ve_first a \<le> ve_first b"
      using assms(2) ij ab by (simp add: sorted_iff_nth_mono_less)
    then have c: "covers a (ve_first b)" "covers b (ve_first b)"
      using n assms(1) mem by (auto simp: covers_def wf_entries_def wf_entry_def ve_end_def ve_first_def)
    have "es = take j es @ b # drop (Suc j) es" using ij ab by (simp add: id_take_nth_drop)
    moreover have "a \<in> set (take j es)" using ij ab by (auto simp: in_set_conv_nth)
    then obtain us vs where "take j es = us @ a # vs" by (meson split_list)
    ultimately have "es = us @ a # vs @ b # drop (Suc j) es" by simp
    then have "page_at es (ve_first b) = page_at (us @ a # vs @ b # drop (Suc j) es) (ve_first b)"
      by metis
    then have "size (page_at es (ve_first b)) \<ge> 2"
      using c assms(1) mem by (simp add: wf_entries_def)
    with assms(1) show False by (metis Suc_1 not_less_eq_eq wf_entries_def)
  qed
  then show ?thesis by (simp add: ordered_def sorted_wrt_iff_nth_less)
qed

section \<open>Sorting\<close>

lemma NaClVmmapCmpEntries_eq:
  assumes "ve_first a < PAGE_LIMIT" "ve_first b < PAGE_LIMIT"
  shows "NaClVmmapCmpEntries a b = int (ve_first a) - int (ve_first b)"
proof -
  define x where "x = ve_page_num a"
  define y where "y = ve_page_num b"
  define k where "k = uint x - uint y"
  have "(ucast (x - y) :: u32) = ucast (word_of_int k :: u64)" by (simp add: k_def)
  also have "\<dots> = word_of_int k"
    by (rule bit_word_eqI) (simp add: bit_simps)
  finally have "sint (ucast (x - y) :: u32) = signed_take_bit 31 k"
    by (simp add: sint_sbintrunc')
  moreover have "- (2 ^ 31) \<le> k" "k < 2 ^ 31"
  proof -
    have "unat x < 2147483648" "unat y < 2147483648"
      using assms by (simp_all add: x_def y_def ve_first_def PAGE_LIMIT_def)
    then have "- 2147483648 \<le> k" "k < 2147483648" unfolding k_def uint_nat by linarith+
    then show "- (2 ^ 31) \<le> k" "k < 2 ^ 31" by simp_all
  qed
  ultimately have "sint (ucast (x - y) :: u32) = k"
    by (simp add: signed_take_bit_int_eq_self)
  then show ?thesis
    by (simp add: NaClVmmapCmpEntries_def x_def y_def ve_first_def k_def)
qed

lemma NaClVmmapMakeSorted_ok:
  assumes es: "entries self es" and wf: "wf_entries es"
    and srt: "vm_is_sorted self \<Longrightarrow> sorted (map ve_first es)"
  shows "\<exists>self' es'. NaClVmmapMakeSorted self = Inr self' \<and> entries self' es' \<and> mset es' = mset es
    \<and> sorted (map ve_first es') \<and> vm_is_sorted self' \<and> (\<forall>d. balance self' d = balance self d)"
proof (cases "vm_is_sorted self")
  case True
  with es srt show ?thesis by (auto simp: NaClVmmapMakeSorted_def)
next
  case False
  have "\<exists>s1 es1. NaClVmmapRemoveMarked self = Inr s1 \<and> entries s1 es1 \<and> mset es1 = mset es
      \<and> (\<forall>d. balance s1 d = balance self d)"
  proof (cases "es = []")
    case True
    with es show ?thesis by (auto simp: NaClVmmapRemoveMarked_def entries_def)
  next
    case ne: False
    have lv: "filter_mset (\<lambda>e. \<not> ve_removed e) (mset es) = mset es"
      using wf by (simp add: wf_entries_def filter_mset_eq_conv)
    from ne wf have "\<exists>e\<in>set es. \<not> ve_removed e" by (cases es) (auto simp: wf_entries_def)
    from NaClVmmapRemoveMarked_ok [OF es this] lv show ?thesis by force
  qed
  then obtain s1 es1 where s1: "NaClVmmapRemoveMarked self = Inr s1" "entries s1 es1"
    "mset es1 = mset es" "\<And>d. balance s1 d = balance self d" by blast
  let ?es' = "qsort_elems NaClVmmapCmpEntries es1"
  let ?s = "s1\<lparr>vm_vmentry := map Some ?es', vm_is_sorted := True\<rparr>"
  have "wf_entries es1" using wf s1(3) wf_entries_mset by blast
  then have lim: "ve_first e < PAGE_LIMIT" if "e \<in> set es1" for e
    using that by (force simp: wf_entries_def wf_entry_def ve_end_def ve_first_def)
  have "cmp_by NaClVmmapCmpEntries (\<lambda>e. int (ve_first e)) (set es1)"
    using lim by (simp add: cmp_by_def NaClVmmapCmpEntries_eq)
  then have "sorted (map (\<lambda>e. int (ve_first e)) ?es')" by (rule qsort_sorted)
  then have "sorted (map ve_first ?es')" by (simp add: sorted_iff_nth_mono)
  moreover have "those (vm_vmentry s1) = Some es1"
    using s1(2) unfolding entries_def by simp
  moreover have "balance ?s d = balance self d" for d
    using s1(2,4) mset_qsort [of NaClVmmapCmpEntries es1] by (simp add: balance_def entries_def)
  ultimately show ?thesis
    using False s1 mset_qsort [of NaClVmmapCmpEntries es1]
    by (intro exI [of _ ?s] exI [of _ ?es']) (simp add: NaClVmmapMakeSorted_def entries_def)
qed

section \<open>Adding\<close>

lemma NaClVmmapAdd_ok:
  assumes es: "entries self es" and mem: "\<And>n. mem n"
  shows "\<exists>self'. NaClVmmapAdd mem self pn np pr fl de off fs = Inr self'
    \<and> entries self' (es @ [\<lparr>ve_page_num = pn, ve_npages = np, ve_prot = pr, ve_flags = fl,
        ve_removed = False, ve_desc = de, ve_offset = off, ve_file_size = fs\<rparr>])
    \<and> \<not> vm_is_sorted self' \<and> (\<forall>d. balance self' d = balance self d)"
  using assms
  by (auto simp: NaClVmmapAdd_def NaClVmmapEntryMake_def entries_def Let_def balance_def
      NaClDescRef_def owned_def split: option.splits)

section \<open>The update loop\<close>

text \<open>The loop as a function on the list of entries: what becomes of each entry, and the entry
  that is appended where an entry is split.\<close>

definition shift_start :: "u64 \<Rightarrow> NaClVmmapEntry \<Rightarrow> NaClVmmapEntry" where
  "shift_start ne e = e\<lparr>ve_page_num := ne, ve_npages := ve_page_num e + ve_npages e - ne,
     ve_offset := ve_offset e + push_bit NACL_PAGESHIFT (ne - ve_page_num e)\<rparr>"

definition cut_end :: "u64 \<Rightarrow> NaClVmmapEntry \<Rightarrow> NaClVmmapEntry" where
  "cut_end pn e = e\<lparr>ve_npages := pn - ve_page_num e\<rparr>"

fun upd_list :: "u64 \<Rightarrow> u64 \<Rightarrow> NaClVmmapEntry list \<Rightarrow> NaClVmmapEntry list \<times> NaClVmmapEntry list" where
  "upd_list pn ne [] = ([], [])"
| "upd_list pn ne (e # es) =
     (let ee = ve_page_num e + ve_npages e; (es', x) = upd_list pn ne es in
      if ve_page_num e < pn \<and> ne < ee then (cut_end pn e # es, [shift_start ne e])
      else if ve_page_num e < pn \<and> pn < ee then (cut_end pn e # es', x)
      else if ve_page_num e < ne \<and> ne < ee then (shift_start ne e # es, [])
      else if pn \<le> ve_page_num e \<and> ee \<le> ne then (e\<lparr>ve_removed := True\<rparr> # es', x)
      else (e # es', x))"

lemma entries_set:
  "entries self (pre @ e # es) \<Longrightarrow> entries (vmentry_set self (length pre) e') (pre @ e' # es)"
  by (simp add: entries_def vmentry_set_def list_update_append)

lemma entries_at: "entries self (pre @ e # es) \<Longrightarrow> vmentry_at self (length pre) = Inr e"
  by (simp add: entries_def vmentry_at_def nth_append)

lemma balance_set:
  assumes "entries self (pre @ e # es)" "ve_desc e' = ve_desc e"
  shows "balance (vmentry_set self (length pre) e') d = balance self d"
  using assms entries_set [OF assms(1), of e']
  by (simp add: balance_def entries_def owned_add_mset) (simp add: vmentry_set_def)

lemma ve_end_word: "wf_entry e \<Longrightarrow> unat (ve_page_num e + ve_npages e) = ve_end e"
  by (simp add: wf_entry_def ve_end_def PAGE_LIMIT_def unat_add_no_wrap)

lemma shift_start_rec: "ve_removed e = False \<Longrightarrow>
  \<lparr>ve_page_num = ne, ve_npages = ve_page_num e + ve_npages e - ne, ve_prot = ve_prot e,
   ve_flags = ve_flags e, ve_removed = False, ve_desc = ve_desc e,
   ve_offset = ve_offset e + push_bit NACL_PAGESHIFT (ne - ve_page_num e),
   ve_file_size = ve_file_size e\<rparr> = shift_start ne e"
  by (cases e) (simp add: shift_start_def)

lemma NaClVmmapUpdate_loop_ok:
  assumes mem: "\<And>n. mem n" and ord: "pn \<le> ne"
  shows "entries self (pre @ es) \<Longrightarrow> \<forall>e\<in>set es. wf_entry e \<and> \<not> ve_removed e \<Longrightarrow>
    \<exists>self'. NaClVmmapUpdate_loop mem pn ne (length pre) self = Inr self'
      \<and> entries self' (pre @ fst (upd_list pn ne es) @ snd (upd_list pn ne es))
      \<and> (\<forall>d. balance self' d = balance self d)"
proof (induction es arbitrary: pre self)
  case Nil
  then show ?case by (simp add: NaClVmmapUpdate_loop.simps [of mem pn ne "length pre"] entries_def)
next
  case (Cons e es)
  obtain es' x where u: "upd_list pn ne es = (es', x)" by (cases "upd_list pn ne es")
  have n: "length pre < vm_nvalid self" using Cons.prems(1) by (simp add: entries_def)
  note at = entries_at [OF Cons.prems(1)]
  let ?ee = "ve_page_num e + ve_npages e"
  have rest: "\<exists>self'. NaClVmmapUpdate_loop mem pn ne (Suc (length pre)) s = Inr self'
      \<and> entries self' (pre @ e' # es' @ x) \<and> (\<forall>d. balance self' d = balance s d)"
    if "entries s (pre @ e' # es)" for s e'
    using Cons.IH [of s "pre @ [e']"] that Cons.prems(2) u by simp
  note loop = NaClVmmapUpdate_loop.simps [of mem pn ne "length pre" self]
  have step: "\<exists>self'. NaClVmmapUpdate_loop mem pn ne (Suc (length pre))
        (vmentry_set self (length pre) e') = Inr self'
      \<and> entries self' (pre @ e' # es' @ x) \<and> (\<forall>d. balance self' d = balance self d)"
    if "ve_desc e' = ve_desc e" for e'
    using rest [OF entries_set [OF Cons.prems(1), of e']] balance_set [OF Cons.prems(1) that] by auto
  consider (split) "ve_page_num e < pn" "ne < ?ee"
    | (tail) "ve_page_num e < pn" "\<not> ne < ?ee" "pn < ?ee"
    | (head) "\<not> ve_page_num e < pn" "ve_page_num e < ne" "ne < ?ee"
    | (cover) "\<not> ve_page_num e < pn" "pn \<le> ve_page_num e" "?ee \<le> ne"
    | (apart) "\<not> (ve_page_num e < pn \<and> pn < ?ee)" "\<not> (ve_page_num e < ne \<and> ne < ?ee)"
        "\<not> (ve_page_num e < pn \<and> ne < ?ee)" "\<not> (pn \<le> ve_page_num e \<and> ?ee \<le> ne)"
        "ne \<le> ve_page_num e \<or> ?ee \<le> pn"
    by (metis linorder_not_less nle_le)
  then show ?case
  proof cases
    case split
    obtain s where s: "NaClVmmapAdd mem self ne (?ee - ne) (ve_prot e) (ve_flags e) (ve_desc e)
        (ve_offset e + push_bit NACL_PAGESHIFT (ne - ve_page_num e)) (ve_file_size e) = Inr s"
      "entries s (pre @ e # es @ [shift_start ne e])" "\<And>d. balance s d = balance self d"
      using NaClVmmapAdd_ok [where mem = mem and pn = ne and np = "?ee - ne"
          and pr = "ve_prot e" and fl = "ve_flags e" and de = "ve_desc e"
          and off = "ve_offset e + push_bit NACL_PAGESHIFT (ne - ve_page_num e)"
          and fs = "ve_file_size e", OF Cons.prems(1) mem] Cons.prems(2)
      by (auto simp: shift_start_rec)
    have "entries (vmentry_set s (length pre) (cut_end pn e)) (pre @ cut_end pn e # es @ [shift_start ne e])"
      using s(2) by (rule entries_set)
    moreover have "balance (vmentry_set s (length pre) (cut_end pn e)) d = balance self d" for d
      using balance_set [OF s(2)] s(3) by (simp add: cut_end_def)
    ultimately show ?thesis using split n at s(1) by (simp add: loop Let_def u cut_end_def)
  next
    case tail
    with step [of "cut_end pn e"] n at show ?thesis by (simp add: loop Let_def u cut_end_def)
  next
    case head
    have "entries (vmentry_set self (length pre) (shift_start ne e)) (pre @ shift_start ne e # es)"
      using Cons.prems(1) by (rule entries_set)
    moreover have "balance (vmentry_set self (length pre) (shift_start ne e)) d = balance self d" for d
      using balance_set [OF Cons.prems(1)] by (simp add: shift_start_def)
    ultimately show ?thesis using head n at by (simp add: loop Let_def u shift_start_def)
  next
    case cover
    then have c: "(ve_page_num e < pn) = False" "(ne < ?ee) = False" "pn \<le> ve_page_num e" "?ee \<le> ne"
      by auto
    show ?thesis using step [of "e\<lparr>ve_removed := True\<rparr>"] n at by (simp add: loop Let_def u c)
  next
    case apart
    with rest [OF Cons.prems(1)] n at show ?thesis by (auto simp: loop Let_def u)
  qed
qed

text \<open>What the two cuts leave of an entry.\<close>

lemma attrs_shift_start [simp]: "attrs (shift_start ne e) p = attrs e p"
  by (simp add: attrs_def shift_start_def push_bit_eq_mult algebra_simps)

lemma attrs_cut_end [simp]: "attrs (cut_end pn e) p = attrs e p"
  by (simp add: attrs_def cut_end_def)

lemma removed_cuts [simp]:
  "ve_removed (shift_start ne e) = ve_removed e" "ve_removed (cut_end pn e) = ve_removed e"
  by (simp_all add: shift_start_def cut_end_def)

lemma shift_start_range:
  assumes "wf_entry e" "ve_first e \<le> unat ne" "unat ne < ve_end e"
  shows "ve_first (shift_start ne e) = unat ne" "ve_end (shift_start ne e) = ve_end e"
    "wf_entry (shift_start ne e)"
proof -
  have "unat (ve_page_num e + ve_npages e - ne) = ve_end e - unat ne"
    using assms by (simp add: unat_diff_le ve_end_word)
  then show "ve_first (shift_start ne e) = unat ne" "ve_end (shift_start ne e) = ve_end e"
    using assms by (simp_all add: shift_start_def ve_first_def ve_end_def)
  with assms show "wf_entry (shift_start ne e)"
    by (auto simp: wf_entry_def ve_end_def ve_first_def)
qed

lemma cut_end_range:
  assumes "wf_entry e" "ve_first e < unat pn" "unat pn < ve_end e"
  shows "ve_first (cut_end pn e) = ve_first e" "ve_end (cut_end pn e) = unat pn"
    "wf_entry (cut_end pn e)"
proof -
  have "unat (pn - ve_page_num e) = unat pn - ve_first e"
    using assms by (simp add: unat_diff_le ve_first_def)
  then show "ve_first (cut_end pn e) = ve_first e" "ve_end (cut_end pn e) = unat pn"
    using assms by (simp_all add: cut_end_def ve_first_def ve_end_def)
  with assms show "wf_entry (cut_end pn e)"
    using \<open>unat (pn - ve_page_num e) = _\<close> by (auto simp: wf_entry_def cut_end_def ve_first_def)
qed

lemma page_at_outside: "(\<And>e. e \<in> set es \<Longrightarrow> \<not> covers e p) \<Longrightarrow> page_at es p = {#}"
  by (auto simp: page_at_def)

text \<open>The loop clears the pages of the new region and keeps all others.\<close>

lemma page_at_upd_list:
  assumes lt: "unat pn < unat ne"
  shows "ordered es \<Longrightarrow> \<forall>e\<in>set es. wf_entry e \<and> \<not> ve_removed e \<Longrightarrow>
    page_at (fst (upd_list pn ne es) @ snd (upd_list pn ne es)) p =
      (if unat pn \<le> p \<and> p < unat ne then {#} else page_at es p)"
proof (induction es)
  case (Cons e es)
  obtain es' x where u: "upd_list pn ne es = (es', x)" by (cases "upd_list pn ne es")
  have wf: "wf_entry e" "\<not> ve_removed e" using Cons.prems by auto
  have fe: "ve_first e < ve_end e" using wf by (simp add: wf_entry_def ve_end_def ve_first_def)
  let ?ee = "ve_page_num e + ve_npages e"
  have lts: "ve_page_num e < pn \<longleftrightarrow> ve_first e < unat pn" "ve_page_num e < ne \<longleftrightarrow> ve_first e < unat ne"
    "ne < ?ee \<longleftrightarrow> unat ne < ve_end e" "pn < ?ee \<longleftrightarrow> unat pn < ve_end e"
    "pn \<le> ve_page_num e \<longleftrightarrow> unat pn \<le> ve_first e" "?ee \<le> ne \<longleftrightarrow> ve_end e \<le> unat ne"
    using wf(1) by (simp_all add: word_less_nat_alt word_le_nat_alt ve_first_def ve_end_word)
  have ord: "ordered es" using Cons.prems(1) by (simp add: ordered_def)
  have IH: "page_at (es' @ x) p = (if unat pn \<le> p \<and> p < unat ne then {#} else page_at es p)"
    using Cons.IH ord Cons.prems(2) u by simp
  have after: "page_at es p = {#}" if "p < ve_end e"
  proof (rule page_at_outside)
    fix f assume "f \<in> set es"
    then have "ve_end e \<le> ve_first f" using Cons.prems(1) by (simp add: ordered_def)
    with that show "\<not> covers f p" by (simp add: covers_def)
  qed
  consider (split) "ve_first e < unat pn" "unat ne < ve_end e"
    | (tail) "ve_first e < unat pn" "ve_end e \<le> unat ne" "unat pn < ve_end e"
    | (head) "unat pn \<le> ve_first e" "ve_first e < unat ne" "unat ne < ve_end e"
    | (cover) "unat pn \<le> ve_first e" "ve_end e \<le> unat ne"
    | (apart) "ve_end e \<le> unat pn \<or> unat ne \<le> ve_first e"
    by linarith
  then show ?case
  proof cases
    case split
    note r = cut_end_range [OF wf(1) split(1)] shift_start_range [OF wf(1) _ split(2)]
    have "upd_list pn ne (e # es) = (cut_end pn e # es, [shift_start ne e])"
      using split u by (simp add: Let_def lts)
    then show ?thesis using r after wf split lt by (auto simp: covers_def)
  next
    case tail
    note r = cut_end_range [OF wf(1) tail(1) tail(3)]
    have "upd_list pn ne (e # es) = (cut_end pn e # es', x)"
      using tail u by (simp add: Let_def lts)
    then show ?thesis using IH r after wf tail lt by (auto simp: covers_def)
  next
    case head
    note r = shift_start_range [OF wf(1) _ head(3)]
    have "upd_list pn ne (e # es) = (shift_start ne e # es, [])"
      using head u by (simp add: Let_def lts)
    then show ?thesis using r after wf head lt by (auto simp: covers_def)
  next
    case cover
    have "upd_list pn ne (e # es) = (e\<lparr>ve_removed := True\<rparr> # es', x)"
      using cover u by (simp add: Let_def lts)
    then show ?thesis using IH wf cover by (auto simp: covers_def)
  next
    case apart
    then have "upd_list pn ne (e # es) = (e # es', x)"
      using u fe lt by (auto simp: Let_def lts)
    then show ?thesis using IH wf apart by (auto simp: covers_def)
  qed
qed simp

lemma wf_upd_list:
  assumes lt: "unat pn < unat ne"
  shows "\<forall>e\<in>set es. wf_entry e \<and> \<not> ve_removed e \<Longrightarrow>
    e' \<in> set (fst (upd_list pn ne es) @ snd (upd_list pn ne es)) \<Longrightarrow> \<not> ve_removed e' \<Longrightarrow> wf_entry e'"
proof (induction es)
  case (Cons e es)
  obtain es' x where u: "upd_list pn ne es = (es', x)" by (cases "upd_list pn ne es")
  have wf: "wf_entry e" "\<not> ve_removed e" using Cons.prems by auto
  let ?ee = "ve_page_num e + ve_npages e"
  have lts: "ve_page_num e < pn \<longleftrightarrow> ve_first e < unat pn" "ve_page_num e < ne \<longleftrightarrow> ve_first e < unat ne"
    "ne < ?ee \<longleftrightarrow> unat ne < ve_end e" "pn < ?ee \<longleftrightarrow> unat pn < ve_end e"
    using wf(1) by (simp_all add: word_less_nat_alt ve_first_def ve_end_word)
  have c: "wf_entry (cut_end pn e)" if "ve_first e < unat pn" "unat pn < ve_end e"
    using cut_end_range(3) [OF wf(1) that] .
  have s: "wf_entry (shift_start ne e)" if "ve_first e \<le> unat ne" "unat ne < ve_end e"
    using shift_start_range(3) [OF wf(1) that] .
  have IH: "e' \<in> set es' \<or> e' \<in> set x \<Longrightarrow> wf_entry e'"
    using Cons.IH Cons.prems(1,3) u by auto
  show ?case
    using Cons.prems wf u c s IH lt by (auto simp: Let_def lts split: if_splits)
qed simp

text \<open>The list of entries of a well-formed map.\<close>

lemma wf_vmmap_intro:
  "entries self es \<Longrightarrow> \<forall>e\<in>set es. wf_entry e \<and> \<not> ve_removed e \<Longrightarrow> \<forall>p. size (page_at es p) \<le> 1 \<Longrightarrow>
   \<not> vm_is_sorted self \<Longrightarrow> wf_vmmap self"
  by (auto simp: wf_vmmap_def wf_entries_def)

lemma vm_page_cong:
  assumes "entries s es" "entries t fs" "page_at es p = page_at fs p" "size (page_at fs p) \<le> 1"
  shows "vm_page s p = vm_page t p"
proof -
  have one: "size (page_at es p) \<le> 1" using assms by simp
  show ?thesis
  proof (cases "vm_page t p")
    case None
    then show ?thesis using vm_page_iff(2) [OF assms(1) one] vm_page_iff(2) [OF assms(2,4)] assms(3) by simp
  next
    case (Some a)
    then have "page_at es p = {#a#}" using vm_page_iff(1) [OF assms(2,4)] assms(3) by simp
    then show ?thesis using vm_page_iff(1) [OF assms(1) one, of a] Some by simp
  qed
qed

lemma compact_ok:
  assumes "entries s es" and wf: "\<forall>e\<in>set es. \<not> ve_removed e \<longrightarrow> wf_entry e"
    and one: "\<forall>p. size (page_at es p) \<le> 1" and ex: "\<exists>e\<in>set es. \<not> ve_removed e"
  shows "\<exists>s'. NaClVmmapRemoveMarked s = Inr s' \<and> wf_vmmap s' \<and> (\<forall>p. vm_page s' p = vm_page s p)
    \<and> (\<forall>d. balance s' d = balance s d)"
proof -
  obtain s' es' where s': "NaClVmmapRemoveMarked s = Inr s'" "entries s' es'"
    "mset es' = filter_mset (\<lambda>e. \<not> ve_removed e) (mset es)" "\<forall>e\<in>set es'. \<not> ve_removed e"
    "\<not> vm_is_sorted s'" "\<forall>d. balance s' d = balance s d"
    using NaClVmmapRemoveMarked_ok [OF assms(1) ex] by blast
  have pg: "page_at es' = page_at es" using s'(3) by (rule page_at_filter_live)
  have "set es' \<subseteq> set es" using s'(3) by (metis filter_mset_eq_conv mset_subset_eqD multiset_filter_subset
      set_mset_mset subsetI)
  then have "wf_vmmap s'"
    using s' wf one pg by (intro wf_vmmap_intro [OF s'(2)]) auto
  moreover have "vm_page s' p = vm_page s p" for p
    using vm_page_cong [OF s'(2) assms(1)] pg one by simp
  ultimately show ?thesis using s' by blast
qed

definition new_attrs :: "u64 \<Rightarrow> u32 \<Rightarrow> u32 \<Rightarrow> nat option \<Rightarrow> u64 \<Rightarrow> u64 \<Rightarrow> nat \<Rightarrow> page_attrs" where
  "new_attrs page_num prot flags desc offset file_size p =
     (prot, flags, desc, offset + push_bit NACL_PAGESHIFT (of_nat p - page_num), file_size)"

definition in_region :: "u64 \<Rightarrow> u64 \<Rightarrow> nat \<Rightarrow> bool" where
  "in_region page_num npages p \<longleftrightarrow> unat page_num \<le> p \<and> p < unat page_num + unat npages"

lemma update_start:
  assumes wf: "wf_vmmap self" and np: "0 < unat np" and lim: "unat pn + unat np \<le> PAGE_LIMIT"
    and mem: "\<And>n. mem n"
  shows "\<exists>s1 s2 es2 es. NaClVmmapMakeSorted self = Inr s1 \<and>
    NaClVmmapUpdate_loop mem pn (pn + np) 0 s1 = Inr s2 \<and> entries s2 es2 \<and> entries self es \<and>
    wf_entries es \<and> (\<forall>e\<in>set es2. \<not> ve_removed e \<longrightarrow> wf_entry e) \<and>
    (\<forall>p. page_at es2 p = (if in_region pn np p then {#} else page_at es p)) \<and>
    (es = [] \<longrightarrow> es2 = []) \<and> (es \<noteq> [] \<longrightarrow> es2 \<noteq> []) \<and> (\<forall>d. balance s2 d = balance self d)"
proof -
  obtain es where es: "entries self es" "wf_entries es"
    "vm_is_sorted self \<longrightarrow> sorted (map ve_first es)" using wf by (auto simp: wf_vmmap_def)
  obtain s1 es1 where s1: "NaClVmmapMakeSorted self = Inr s1" "entries s1 es1" "mset es1 = mset es"
    "sorted (map ve_first es1)" "\<forall>d. balance s1 d = balance self d"
    using NaClVmmapMakeSorted_ok [OF es(1,2)] es(3) by blast
  have wf1: "wf_entries es1" using es(2) s1(3) wf_entries_mset by blast
  have ne: "unat (pn + np) = unat pn + unat np"
    using lim by (intro unat_add_no_wrap) (simp add: PAGE_LIMIT_def)
  have wfe: "\<forall>e\<in>set es1. wf_entry e \<and> \<not> ve_removed e" using wf1 by (simp add: wf_entries_def)
  have le: "pn \<le> pn + np" using ne by (simp add: word_le_nat_alt)
  let ?u = "fst (upd_list pn (pn + np) es1) @ snd (upd_list pn (pn + np) es1)"
  obtain s2 where s2: "NaClVmmapUpdate_loop mem pn (pn + np) 0 s1 = Inr s2" "entries s2 ?u"
    "\<forall>d. balance s2 d = balance s1 d"
    using NaClVmmapUpdate_loop_ok [where pre = "[]" and mem = mem, OF mem le _ wfe, of s1] s1(2) by auto
  have lt: "unat pn < unat (pn + np)" using ne np by simp
  have pg: "page_at ?u p = (if in_region pn np p then {#} else page_at es p)" for p
    using page_at_upd_list [OF lt wf_entries_ordered [OF wf1 s1(4)] wfe, of p] page_at_mset [OF s1(3)] ne
    by (simp add: in_region_def)
  have "es = [] \<longleftrightarrow> es1 = []" using s1(3) by (metis mset_zero_iff)
  moreover have "es1 = [] \<Longrightarrow> ?u = []" "es1 \<noteq> [] \<Longrightarrow> ?u \<noteq> []"
    by (cases es1; auto simp: Let_def split: prod.splits)+
  ultimately have emp: "es = [] \<longrightarrow> ?u = []" "es \<noteq> [] \<longrightarrow> ?u \<noteq> []" by blast+
  have wfu: "\<forall>e\<in>set ?u. \<not> ve_removed e \<longrightarrow> wf_entry e"
    using wf_upd_list [OF lt wfe] by blast
  show ?thesis
    using s1(1,5) s2 pg emp wfu es(1,2)
    by (intro exI [of _ s1] exI [of _ s2] exI [of _ "?u"] exI [of _ es] conjI) simp_all
qed

lemma AddWithOverwrite_pages:
  assumes wf: "wf_vmmap self" and np: "0 < unat np" and lim: "unat pn + unat np \<le> PAGE_LIMIT"
    and mem: "\<And>n. mem n"
  shows "\<exists>self'. NaClVmmapAddWithOverwrite mem self pn np prot flags desc offset fs = Inr self'
    \<and> wf_vmmap self'
    \<and> (\<forall>p. vm_page self' p = (if in_region pn np p then Some (new_attrs pn prot flags desc offset fs p)
                              else vm_page self p))
    \<and> (\<forall>d. balance self' d = balance self d)"
proof -
  obtain s1 s2 es2 es where s: "NaClVmmapMakeSorted self = Inr s1"
    "NaClVmmapUpdate_loop mem pn (pn + np) 0 s1 = Inr s2" "entries s2 es2" "entries self es" "wf_entries es"
    "\<forall>e\<in>set es2. \<not> ve_removed e \<longrightarrow> wf_entry e"
    "\<And>p. page_at es2 p = (if in_region pn np p then {#} else page_at es p)"
    "\<And>d. balance s2 d = balance self d"
    using update_start [OF wf np lim, of mem] mem by blast
  define e where "e = \<lparr>ve_page_num = pn, ve_npages = np, ve_prot = prot, ve_flags = flags,
    ve_removed = False, ve_desc = desc, ve_offset = offset, ve_file_size = fs\<rparr>"
  obtain s3 where s3: "NaClVmmapAdd mem s2 pn np prot flags desc offset fs = Inr s3"
    "entries s3 (es2 @ [e])" "\<And>d. balance s3 d = balance s2 d"
    using NaClVmmapAdd_ok [where mem = mem and pn = pn and np = np and pr = prot and fl = flags
        and de = desc and off = offset and fs = fs, OF s(3) mem] unfolding e_def by blast
  have cov: "covers e p \<longleftrightarrow> in_region pn np p" for p
    by (simp add: covers_def in_region_def e_def ve_first_def ve_end_def)
  have wfe: "wf_entry e" "\<not> ve_removed e" using np lim by (simp_all add: e_def wf_entry_def ve_end_def)
  have pg: "page_at (es2 @ [e]) p = (if in_region pn np p then {#attrs e p#} else page_at es p)" for p
    using s(7) [of p] wfe by (simp add: cov)
  have one: "size (page_at (es2 @ [e]) p) \<le> 1" for p
    using pg [of p] s(5) by (simp add: wf_entries_def)
  obtain s4 where s4: "NaClVmmapRemoveMarked s3 = Inr s4" "wf_vmmap s4"
    "\<And>p. vm_page s4 p = vm_page s3 p" "\<And>d. balance s4 d = balance s3 d"
    using compact_ok [OF s3(2)] s(6) wfe one by auto
  have "attrs e p = new_attrs pn prot flags desc offset fs p" for p
    by (simp add: e_def attrs_def new_attrs_def)
  moreover have "vm_page s3 p = (if in_region pn np p then Some (attrs e p) else vm_page self p)" for p
    using vm_page_iff [OF s3(2) one, of p] vm_page_cong [OF s3(2) s(4), of p] pg [of p] s(5)
    by (auto simp: wf_entries_def)
  moreover have "NaClVmmapAddWithOverwrite mem self pn np prot flags desc offset fs = Inr s4"
    using s s3 s4 np
    by (simp add: NaClVmmapAddWithOverwrite_def NaClVmmapUpdate_def Let_def word_greater_zero_iff
        unat_gt_0)
  ultimately show ?thesis using s4 s3 s(8) by auto
qed

lemma page_at_live:
  "e \<in> set es \<Longrightarrow> \<not> ve_removed e \<Longrightarrow> wf_entry e \<Longrightarrow> page_at es (ve_first e) \<noteq> {#}"
  by (auto simp: page_at_def covers_def wf_entry_def ve_end_def ve_first_def)

lemma Remove_pages:
  assumes wf: "wf_vmmap self" and np: "0 < unat np" and lim: "unat pn + unat np \<le> PAGE_LIMIT"
    and mem: "\<And>n. mem n"
  shows "\<exists>q. \<not> in_region pn np q \<and> vm_page self q \<noteq> None \<Longrightarrow>
      \<exists>self'. NaClVmmapRemove mem self pn np = Inr self' \<and> wf_vmmap self'
        \<and> (\<forall>p. vm_page self' p = (if in_region pn np p then None else vm_page self p))
        \<and> (\<forall>d. balance self' d = balance self d)"
    and "vm_nvalid self > 0 \<Longrightarrow> \<forall>q. vm_page self q \<noteq> None \<longrightarrow> in_region pn np q \<Longrightarrow>
      NaClVmmapRemove mem self pn np = Inl NullDeref"
proof -
  obtain s1 s2 es2 es where s: "NaClVmmapMakeSorted self = Inr s1"
    "NaClVmmapUpdate_loop mem pn (pn + np) 0 s1 = Inr s2" "entries s2 es2" "entries self es" "wf_entries es"
    "\<forall>e\<in>set es2. \<not> ve_removed e \<longrightarrow> wf_entry e"
    "\<And>p. page_at es2 p = (if in_region pn np p then {#} else page_at es p)"
    "es \<noteq> [] \<longrightarrow> es2 \<noteq> []"
    "\<And>d. balance s2 d = balance self d"
    using update_start [OF wf np lim, of mem] mem by blast
  have one: "size (page_at es2 p) \<le> 1" "size (page_at es p) \<le> 1" for p
    using s(7) [of p] s(5) by (auto simp: wf_entries_def)
  have call: "NaClVmmapRemove mem self pn np = NaClVmmapRemoveMarked s2"
    using s np by (simp add: NaClVmmapRemove_def NaClVmmapUpdate_def Let_def word_greater_zero_iff unat_gt_0)
  have live: "(\<exists>e\<in>set es2. \<not> ve_removed e) \<longleftrightarrow> (\<exists>q. \<not> in_region pn np q \<and> vm_page self q \<noteq> None)"
  proof
    assume "\<exists>e\<in>set es2. \<not> ve_removed e"
    then obtain e where e: "e \<in> set es2" "\<not> ve_removed e" by blast
    then have "wf_entry e" using s(6) by simp
    with e have "page_at es2 (ve_first e) \<noteq> {#}" by (rule page_at_live)
    then have "\<not> in_region pn np (ve_first e)" "page_at es (ve_first e) \<noteq> {#}"
      using s(7) [of "ve_first e"] by (auto split: if_splits)
    then show "\<exists>q. \<not> in_region pn np q \<and> vm_page self q \<noteq> None"
      using vm_page_iff(2) [OF s(4) one(2), of "ve_first e"] by blast
  next
    assume "\<exists>q. \<not> in_region pn np q \<and> vm_page self q \<noteq> None"
    then obtain q where "\<not> in_region pn np q" "vm_page self q \<noteq> None" by blast
    then have "page_at es2 q \<noteq> {#}"
      using s(7) [of q] vm_page_iff(2) [OF s(4) one(2), of q] by simp
    then show "\<exists>e\<in>set es2. \<not> ve_removed e" using page_at_outside [of es2 q] by (auto simp: page_at_def)
  qed
  show "\<exists>self'. NaClVmmapRemove mem self pn np = Inr self' \<and> wf_vmmap self'
        \<and> (\<forall>p. vm_page self' p = (if in_region pn np p then None else vm_page self p))
        \<and> (\<forall>d. balance self' d = balance self d)"
    if ex: "\<exists>q. \<not> in_region pn np q \<and> vm_page self q \<noteq> None"
  proof -
    obtain s4 where s4: "NaClVmmapRemoveMarked s2 = Inr s4" "wf_vmmap s4"
      "\<And>p. vm_page s4 p = vm_page s2 p" "\<And>d. balance s4 d = balance s2 d"
      using compact_ok [OF s(3,6)] one(1) live ex by blast
    have "vm_page s2 p = (if in_region pn np p then None else vm_page self p)" for p
      using vm_page_iff(2) [OF s(3) one(1), of p] vm_page_cong [OF s(3,4) _ one(2), of p] s(7) [of p]
      by auto
    with s4 call s(9) show ?thesis by simp
  qed
  show "NaClVmmapRemove mem self pn np = Inl NullDeref"
    if "vm_nvalid self > 0" "\<forall>q. vm_page self q \<noteq> None \<longrightarrow> in_region pn np q"
  proof -
    have "es2 \<noteq> []" using that(1) s(4,8) by (auto simp: entries_def)
    moreover have "\<forall>e\<in>set es2. ve_removed e" using live that(2) by blast
    ultimately show ?thesis using NaClVmmapRemoveMarked_all_marked [OF s(3)] call by simp
  qed
qed

section \<open>Checking that a region is mapped\<close>

definition attrs_max_prot :: "(nat \<Rightarrow> u32) \<Rightarrow> page_attrs \<Rightarrow> u32" where
  "attrs_max_prot GetFlags a =
     (case a of (_, flags, desc, _, _) \<Rightarrow>
        case desc of
          Some d \<Rightarrow>
            if flags AND NACL_ABI_MAP_PRIVATE \<noteq> 0 then NACL_ABI_PROT_READ OR NACL_ABI_PROT_WRITE
            else if GetFlags d AND NACL_ABI_O_ACCMODE = NACL_ABI_O_RDONLY then NACL_ABI_PROT_READ
            else if GetFlags d AND NACL_ABI_O_ACCMODE = NACL_ABI_O_WRONLY then NACL_ABI_PROT_WRITE
            else NACL_ABI_PROT_READ OR NACL_ABI_PROT_WRITE
        | None \<Rightarrow> NACL_ABI_PROT_READ OR NACL_ABI_PROT_WRITE)"

text \<open>No descriptor has the illegal access mode 3.\<close>

definition legal_flags :: "(nat \<Rightarrow> u32) \<Rightarrow> bool" where
  "legal_flags GetFlags \<longleftrightarrow> (\<forall>d. GetFlags d AND NACL_ABI_O_ACCMODE
     \<in> {NACL_ABI_O_RDONLY, NACL_ABI_O_WRONLY, NACL_ABI_O_RDWR})"

definition prot_allowed :: "(nat \<Rightarrow> u32) \<Rightarrow> u32 \<Rightarrow> page_attrs \<Rightarrow> bool" where
  "prot_allowed GetFlags prot a \<longleftrightarrow> prot AND NOT (attrs_max_prot GetFlags a) = 0"

lemma NaClVmmapEntryMaxProt_eq:
  "legal_flags GetFlags \<Longrightarrow> NaClVmmapEntryMaxProt GetFlags e = Inr (attrs_max_prot GetFlags (attrs e p))"
  by (auto simp: NaClVmmapEntryMaxProt_def attrs_max_prot_def attrs_def legal_flags_def Let_def
      split: option.splits)

fun check_list :: "(NaClVmmapEntry \<Rightarrow> bool) \<Rightarrow> nat \<Rightarrow> nat \<Rightarrow> NaClVmmapEntry list \<Rightarrow> bool" where
  "check_list ok cur rend [] = False"
| "check_list ok cur rend (e # es) =
     (if ve_first e \<le> cur \<and> rend \<le> ve_end e then ok e
      else if ve_first e \<le> cur \<and> cur < ve_end e then ok e \<and> check_list ok (ve_end e) rend es
      else if cur < ve_first e then False
      else check_list ok cur rend es)"

lemma check_list_iff:
  "ordered es \<Longrightarrow> \<forall>e\<in>set es. wf_entry e \<Longrightarrow> cur < rend \<Longrightarrow>
     check_list ok cur rend es \<longleftrightarrow> (\<forall>p. cur \<le> p \<longrightarrow> p < rend \<longrightarrow> (\<exists>e\<in>set es. covers e p \<and> ok e))"
proof (induction es arbitrary: cur)
  case Nil
  then show ?case by auto
next
  case (Cons e es)
  have ord: "ordered es" and after: "\<And>f. f \<in> set es \<Longrightarrow> ve_end e \<le> ve_first f"
    using Cons.prems(1) by (auto simp: ordered_def)
  have fe: "ve_first e < ve_end e"
    using Cons.prems(2) by (simp add: wf_entry_def ve_end_def ve_first_def)
  have IH: "check_list ok c rend es \<longleftrightarrow> (\<forall>p. c \<le> p \<longrightarrow> p < rend \<longrightarrow> (\<exists>e\<in>set es. covers e p \<and> ok e))"
    if "c < rend" for c using Cons.IH [OF ord] Cons.prems(2) that by simp
  have own: "(\<exists>f\<in>set (e # es). covers f p \<and> ok f) \<longleftrightarrow> ok e" if "ve_first e \<le> p" "p < ve_end e" for p
    using that after by (fastforce simp: covers_def)
  have rest: "(\<exists>f\<in>set (e # es). covers f p \<and> ok f) \<longleftrightarrow> (\<exists>f\<in>set es. covers f p \<and> ok f)"
    if "ve_end e \<le> p" for p using that by (auto simp: covers_def)
  consider "ve_first e \<le> cur" "rend \<le> ve_end e" | "ve_first e \<le> cur" "ve_end e < rend" "cur < ve_end e"
    | "cur < ve_first e" | "ve_end e \<le> cur" using fe by linarith
  then show ?case
  proof cases
    case 1
    then have "(\<forall>p. cur \<le> p \<longrightarrow> p < rend \<longrightarrow> (\<exists>f\<in>set (e # es). covers f p \<and> ok f)) \<longleftrightarrow> ok e"
      using own Cons.prems(3) order_trans [OF 1(1)] order_less_le_trans [OF _ 1(2)] by blast
    with 1 show ?thesis by simp
  next
    case 2
    have "(\<forall>p. cur \<le> p \<longrightarrow> p < rend \<longrightarrow> (\<exists>f\<in>set (e # es). covers f p \<and> ok f)) \<longleftrightarrow>
        ok e \<and> (\<forall>p. ve_end e \<le> p \<longrightarrow> p < rend \<longrightarrow> (\<exists>f\<in>set es. covers f p \<and> ok f))" (is "?l \<longleftrightarrow> ?r")
    proof
      assume l: ?l
      have "ok e" using l own [of cur] 2 Cons.prems(3) by auto
      moreover have "\<exists>f\<in>set es. covers f p \<and> ok f" if "ve_end e \<le> p" "p < rend" for p
        using l rest [OF that(1)] that 2 by auto
      ultimately show ?r by blast
    next
      assume r: ?r
      show ?l
      proof (intro allI impI)
        fix p assume p: "cur \<le> p" "p < rend"
        then show "\<exists>f\<in>set (e # es). covers f p \<and> ok f"
          using own [of p] rest [of p] r 2(1) by (cases "p < ve_end e") auto
      qed
    qed
    with 2 IH [of "ve_end e"] show ?thesis by auto
  next
    case 3
    have "\<not> covers f cur" if "f \<in> set (e # es)" for f
    proof (cases "f = e")
      case False
      with that after [of f] 3 fe show ?thesis by (simp add: covers_def)
    qed (use 3 in \<open>simp add: covers_def\<close>)
    then have "\<not> (\<forall>p. cur \<le> p \<longrightarrow> p < rend \<longrightarrow> (\<exists>f\<in>set (e # es). covers f p \<and> ok f))"
      using Cons.prems(3) by blast
    with 3 show ?thesis by simp
  next
    case 4
    then have "(\<forall>p. cur \<le> p \<longrightarrow> p < rend \<longrightarrow> (\<exists>f\<in>set (e # es). covers f p \<and> ok f)) \<longleftrightarrow>
        (\<forall>p. cur \<le> p \<longrightarrow> p < rend \<longrightarrow> (\<exists>f\<in>set es. covers f p \<and> ok f))"
      using rest by (meson order_trans)
    with 4 fe IH [OF Cons.prems(3)] Cons.prems(3) show ?thesis by simp
  qed
qed

lemma attrs_max_prot_attrs: "attrs_max_prot GetFlags (attrs e p) = attrs_max_prot GetFlags (attrs e 0)"
  by (simp add: attrs_max_prot_def attrs_def)

lemma check_existing_loop_eq:
  assumes lf: "legal_flags GetFlags"
  shows "entries self (pre @ es) \<Longrightarrow> \<forall>e\<in>set es. wf_entry e \<Longrightarrow>
    check_existing_loop GetFlags self (length pre) cur rend prot =
      Inr (check_list (\<lambda>e. prot_allowed GetFlags prot (attrs e 0)) (unat cur) (unat rend) es)"
proof (induction es arbitrary: pre cur)
  case Nil
  then show ?case by (simp add: check_existing_loop.simps [of GetFlags self "length pre"] entries_def)
next
  case (Cons e es)
  have n: "length pre < vm_nvalid self" using Cons.prems(1) by (simp add: entries_def)
  note at = entries_at [OF Cons.prems(1)]
  have wf: "wf_entry e" using Cons.prems(2) by simp
  let ?ee = "ve_page_num e + ve_npages e"
  have w: "ve_page_num e \<le> cur \<longleftrightarrow> ve_first e \<le> unat cur" "rend \<le> ?ee \<longleftrightarrow> unat rend \<le> ve_end e"
    "cur < ?ee \<longleftrightarrow> unat cur < ve_end e" "cur < ve_page_num e \<longleftrightarrow> unat cur < ve_first e"
    using wf by (simp_all add: word_le_nat_alt word_less_nat_alt ve_first_def ve_end_word)
  have IH: "check_existing_loop GetFlags self (Suc (length pre)) c rend prot =
      Inr (check_list (\<lambda>e. prot_allowed GetFlags prot (attrs e 0)) (unat c) (unat rend) es)" for c
    using Cons.IH [of "pre @ [e]" c] Cons.prems by simp
  have z: "(0 = x) = (x = 0)" for x :: u32 by auto
  show ?case
    using n at IH
    by (simp add: check_existing_loop.simps [of GetFlags self "length pre"]
        NaClVmmapEntryMaxProt_eq [OF lf, of e 0] Let_def w z prot_allowed_def ve_end_word [OF wf])
qed

lemma wf_vmmap_entries:
  assumes "wf_vmmap self"
  shows "\<exists>es. entries self es \<and> wf_entries es \<and> (vm_is_sorted self \<longrightarrow> sorted (map ve_first es)) \<and>
    (\<forall>p. size (page_at es p) \<le> 1)"
  using assms by (auto simp: wf_vmmap_def wf_entries_def)

lemma vm_page_ex:
  assumes "entries self es" "wf_entries es"
  shows "(\<exists>e\<in>set es. covers e p \<and> Q (attrs e p)) \<longleftrightarrow> (\<exists>a. vm_page self p = Some a \<and> Q a)"
proof -
  have one: "size (page_at es p) \<le> 1" and nr: "\<forall>e\<in>set es. \<not> ve_removed e"
    using assms(2) by (auto simp: wf_entries_def)
  have "(\<exists>e\<in>set es. covers e p \<and> Q (attrs e p)) \<longleftrightarrow> (\<exists>a. a \<in># page_at es p \<and> Q a)"
    using nr by (auto simp: page_at_def)
  also have "\<dots> \<longleftrightarrow> (\<exists>a. vm_page self p = Some a \<and> Q a)"
    unfolding vm_page_entries [OF assms(1) one] by (auto split: option.splits)
  finally show ?thesis .
qed

lemma make_sorted_wf:
  assumes "wf_vmmap self"
  shows "\<exists>s es. NaClVmmapMakeSorted self = Inr s \<and> entries s es \<and> wf_entries es \<and> ordered es \<and>
    vm_is_sorted s \<and> wf_vmmap s \<and> (\<forall>p. vm_page s p = vm_page self p) \<and>
    (\<forall>d. balance s d = balance self d) \<and> vm_nvalid s = vm_nvalid self \<and>
    set (vm_vmentry s) = set (vm_vmentry self)"
proof -
  obtain es where es: "entries self es" "wf_entries es" "vm_is_sorted self \<longrightarrow> sorted (map ve_first es)"
    "\<forall>p. size (page_at es p) \<le> 1"
    using wf_vmmap_entries [OF assms] by blast
  obtain s es' where s: "NaClVmmapMakeSorted self = Inr s" "entries s es'" "mset es' = mset es"
    "sorted (map ve_first es')" "vm_is_sorted s" "\<forall>d. balance s d = balance self d"
    using NaClVmmapMakeSorted_ok [OF es(1,2)] es(3) by blast
  have wf': "wf_entries es'" using es(2) s(3) wf_entries_mset by blast
  have "vm_page s p = vm_page self p" for p
    using vm_page_cong [OF s(2) es(1)] page_at_mset [OF s(3)] es(4) by simp
  moreover have "wf_vmmap s" using s(2,4) wf' by (auto simp: wf_vmmap_def)
  moreover have "vm_nvalid s = vm_nvalid self"
    using s(2,3) es(1) by (metis entries_def length_map size_mset)
  moreover have "set (vm_vmentry s) = set (vm_vmentry self)"
    using s(2,3) es(1) by (metis entries_def set_map set_mset_mset)
  ultimately show ?thesis
    using s wf' wf_entries_ordered [OF wf' s(4)] by (intro exI [of _ s] exI [of _ es'] conjI) simp_all
qed

lemma CheckExistingMapping_pages:
  assumes wf: "wf_vmmap self" and np: "0 < unat np" and lim: "unat pn + unat np \<le> PAGE_LIMIT"
    and lf: "legal_flags GetFlags"
  shows "\<exists>self'. NaClVmmapCheckExistingMapping GetFlags self pn np prot =
      Inr (\<forall>p. in_region pn np p \<longrightarrow> (\<exists>a. vm_page self p = Some a \<and> prot_allowed GetFlags prot a), self')
    \<and> wf_vmmap self' \<and> (\<forall>p. vm_page self' p = vm_page self p) \<and> (\<forall>d. balance self' d = balance self d)
    \<and> set (vm_vmentry self') = set (vm_vmentry self)"
proof (cases "vm_nvalid self = 0")
  case True
  then have "vm_page self p = None" for p by (simp add: vm_page_def)
  moreover have "in_region pn np (unat pn)" using np by (simp add: in_region_def)
  ultimately have "\<not> (\<forall>p. in_region pn np p \<longrightarrow> (\<exists>a. vm_page self p = Some a \<and> prot_allowed GetFlags prot a))"
    by auto
  with True wf show ?thesis by (auto simp: NaClVmmapCheckExistingMapping_def)
next
  case False
  obtain s es where s: "NaClVmmapMakeSorted self = Inr s" "entries s es" "wf_entries es" "ordered es"
    "wf_vmmap s" "\<forall>p. vm_page s p = vm_page self p" "\<forall>d. balance s d = balance self d"
    "set (vm_vmentry s) = set (vm_vmentry self)"
    using make_sorted_wf [OF wf] by blast
  have wfe: "\<forall>e\<in>set es. wf_entry e" using s(3) by (simp add: wf_entries_def)
  have end_eq: "unat (pn + np) = unat pn + unat np"
    using lim by (intro unat_add_no_wrap) (simp add: PAGE_LIMIT_def)
  have pa: "prot_allowed GetFlags prot (attrs e p) = prot_allowed GetFlags prot (attrs e 0)" for e p
    unfolding prot_allowed_def by (subst attrs_max_prot_attrs) (rule refl)
  have eq: "(\<exists>e\<in>set es. covers e p \<and> prot_allowed GetFlags prot (attrs e p)) =
      (\<exists>e\<in>set es. covers e p \<and> prot_allowed GetFlags prot (attrs e 0))" for p
    by (intro bex_cong refl conj_cong pa)
  have "check_existing_loop GetFlags s 0 pn (pn + np) prot =
      Inr (check_list (\<lambda>e. prot_allowed GetFlags prot (attrs e 0)) (unat pn) (unat pn + unat np) es)"
    using check_existing_loop_eq [OF lf, of s "[]" es] s(2) wfe end_eq by simp
  also have "check_list (\<lambda>e. prot_allowed GetFlags prot (attrs e 0)) (unat pn) (unat pn + unat np) es =
      (\<forall>p. unat pn \<le> p \<longrightarrow> p < unat pn + unat np \<longrightarrow>
        (\<exists>e\<in>set es. covers e p \<and> prot_allowed GetFlags prot (attrs e p)))"
    using check_list_iff [OF s(4) wfe, of "unat pn" "unat pn + unat np"] np by (simp add: eq)
  also have "\<dots> = (\<forall>p. in_region pn np p \<longrightarrow> (\<exists>a. vm_page self p = Some a \<and> prot_allowed GetFlags prot a))"
    unfolding vm_page_ex [OF s(2,3)] in_region_def using s(6) by auto
  finally show ?thesis using s False by (simp add: NaClVmmapCheckExistingMapping_def)
qed

end
