(* ===== verification/VmmapProt.thy ===== *)
theory VmmapProt
  imports VmmapProofs
begin

text \<open>
  \<open>NaClVmmapChangeProt\<close> of \<open>sel_mem.c\<close>: it refuses a region that is not fully mapped with
  enough rights and otherwise gives every page of the region the new protection. The offset
  of a page in its backing file is kept only where the region starts at the first page of an
  entry.
\<close>

section \<open>The loop on lists of entries\<close>

definition mid_entry :: "u32 \<Rightarrow> u64 \<Rightarrow> u64 \<Rightarrow> u64 \<Rightarrow> NaClVmmapEntry \<Rightarrow> NaClVmmapEntry" where
  "mid_entry pr pn np off e = e\<lparr>ve_page_num := pn, ve_npages := np, ve_prot := pr, ve_offset := off\<rparr>"

fun cp_list :: "u64 \<Rightarrow> u32 \<Rightarrow> u64 \<Rightarrow> NaClVmmapEntry list \<Rightarrow> NaClVmmapEntry list \<times> NaClVmmapEntry list" where
  "cp_list ne pr cur [] = ([], [])"
| "cp_list ne pr cur (e # es) =
     (if ne \<le> cur then (e # es, [])
      else let ee = ve_page_num e + ve_npages e; off = ve_offset e + (cur - ve_page_num e) in
        if ve_page_num e < cur \<and> ne < ee
        then (cut_end cur e # es, [shift_start ne e, mid_entry pr cur (ne - cur) off e])
        else if ve_page_num e < cur \<and> cur < ee
        then (let (es', x) = cp_list ne pr ee es in (cut_end cur e # es', mid_entry pr cur (ee - cur) off e # x))
        else if ve_page_num e < ne \<and> ne < ee
        then (shift_start ne e # es, [mid_entry pr cur (ne - cur) (ve_offset e) e])
        else if cur \<le> ve_page_num e \<and> ee \<le> ne
        then (let (es', x) = cp_list ne pr ee es in (e\<lparr>ve_prot := pr\<rparr> # es', x))
        else (let (es', x) = cp_list ne pr cur es in (e # es', x)))"

lemma mid_entry_rec: "\<not> ve_removed e \<Longrightarrow>
  \<lparr>ve_page_num = pn, ve_npages = np, ve_prot = pr, ve_flags = ve_flags e, ve_removed = False,
   ve_desc = ve_desc e, ve_offset = off, ve_file_size = ve_file_size e\<rparr> = mid_entry pr pn np off e"
  by (cases e) (simp add: mid_entry_def)

lemma Add_entries:
  assumes "entries s xs" "\<And>n. mem n"
  shows "\<exists>s'. NaClVmmapAdd mem s pn np pr fl de off fs = Inr s' \<and>
    entries s' (xs @ [\<lparr>ve_page_num = pn, ve_npages = np, ve_prot = pr, ve_flags = fl,
        ve_removed = False, ve_desc = de, ve_offset = off, ve_file_size = fs\<rparr>]) \<and>
    \<not> vm_is_sorted s' \<and> (\<forall>d. balance s' d = balance s d)"
  using NaClVmmapAdd_ok [where mem = mem, OF assms] .

lemma set_sorted [simp]: "vm_is_sorted (vmentry_set s i e) = vm_is_sorted s"
  by (simp add: vmentry_set_def)

lemma change_prot_loop_ok:
  assumes mem: "\<And>n. mem n"
  shows "entries self (pre @ es @ ys) \<Longrightarrow> \<forall>e\<in>set es. wf_entry e \<and> \<not> ve_removed e \<Longrightarrow> cur \<le> ne \<Longrightarrow>
    \<exists>self'. change_prot_loop mem (length pre + length es) ne pr (length pre) cur (ne - cur) self = Inr self'
      \<and> entries self' (pre @ fst (cp_list ne pr cur es) @ ys @ snd (cp_list ne pr cur es))
      \<and> (\<forall>d. balance self' d = balance self d)
      \<and> (vm_is_sorted self' \<longrightarrow> vm_is_sorted self \<and> snd (cp_list ne pr cur es) = [])"
proof (induction es arbitrary: pre self cur ys)
  case Nil
  then show ?case by (simp add: change_prot_loop.simps)
next
  case (Cons e es)
  let ?nv = "Suc (length pre + length es)"
  let ?ee = "ve_page_num e + ve_npages e"
  let ?off = "ve_offset e + (cur - ve_page_num e)"
  have nr: "\<not> ve_removed e" using Cons.prems(2) by simp
  have ent: "entries self (pre @ e # es @ ys)" using Cons.prems(1) by simp
  note at = entries_at [OF ent]
  note loop = change_prot_loop.simps [of mem ?nv ne pr "length pre" cur "ne - cur" self]
  have rest: "\<exists>self'. change_prot_loop mem ?nv ne pr (Suc (length pre)) c (ne - c) s = Inr self'
      \<and> entries self' (pre @ e' # fst (cp_list ne pr c es) @ ys' @ snd (cp_list ne pr c es))
      \<and> (\<forall>d. balance self' d = balance s d)
      \<and> (vm_is_sorted self' \<longrightarrow> vm_is_sorted s \<and> snd (cp_list ne pr c es) = [])"
    if "entries s (pre @ e' # es @ ys')" "c \<le> ne" for s e' c ys'
    using Cons.IH [of s "pre @ [e']" ys' c] that Cons.prems(2) by simp
  show ?case
  proof (cases "ne \<le> cur")
    case True
    then have "ne = cur" using Cons.prems(3) by simp
    then show ?thesis using Cons.prems(1) by (simp add: change_prot_loop.simps [of mem _ cur])
  next
    case lt: False
    then have pos: "0 < ne - cur" using Cons.prems(3) by (simp add: word_gt_0)
    consider (split) "ve_page_num e < cur" "ne < ?ee"
      | (tail) "ve_page_num e < cur" "\<not> ne < ?ee" "cur < ?ee"
      | (head) "\<not> ve_page_num e < cur" "ve_page_num e < ne" "ne < ?ee"
      | (cover) "\<not> ve_page_num e < cur" "cur \<le> ve_page_num e" "\<not> ne < ?ee" "?ee \<le> ne"
      | (apart) "\<not> (ve_page_num e < cur \<and> cur < ?ee)" "\<not> (ve_page_num e < ne \<and> ne < ?ee)"
          "\<not> (ve_page_num e < cur \<and> ne < ?ee)" "\<not> (cur \<le> ve_page_num e \<and> ?ee \<le> ne)"
          "ne \<le> ve_page_num e \<or> ?ee \<le> cur"
      using Cons.prems(3) by (metis linorder_not_less nle_le)
    then show ?thesis
    proof cases
      case split
      obtain s where s: "NaClVmmapAdd mem self ne (?ee - ne) (ve_prot e) (ve_flags e) (ve_desc e)
          (ve_offset e + push_bit NACL_PAGESHIFT (ne - ve_page_num e)) (ve_file_size e) = Inr s"
        "entries s (pre @ e # es @ ys @ [shift_start ne e])" "\<And>d. balance s d = balance self d"
        using Add_entries [where mem = mem and pn = ne and np = "?ee - ne" and pr = "ve_prot e"
            and fl = "ve_flags e" and de = "ve_desc e"
            and off = "ve_offset e + push_bit NACL_PAGESHIFT (ne - ve_page_num e)"
            and fs = "ve_file_size e", OF ent mem] shift_start_rec [of e ne] nr by auto
      let ?t = "vmentry_set s (length pre) (cut_end cur e)"
      have t: "entries ?t (pre @ cut_end cur e # es @ ys @ [shift_start ne e])"
        using s(2) by (rule entries_set)
      have bt: "balance ?t d = balance self d" for d
        using balance_set [OF s(2)] s(3) by (simp add: cut_end_def)
      obtain u where u: "NaClVmmapAdd mem ?t cur (ne - cur) pr (ve_flags e) (ve_desc e) ?off (ve_file_size e) = Inr u"
        "entries u (pre @ cut_end cur e # es @ ys @ [shift_start ne e, mid_entry pr cur (ne - cur) ?off e])"
        "\<not> vm_is_sorted u" "\<And>d. balance u d = balance self d"
        using Add_entries [where mem = mem and pn = cur and np = "ne - cur" and pr = pr
            and fl = "ve_flags e" and de = "ve_desc e" and off = ?off
            and fs = "ve_file_size e", OF t mem] bt mid_entry_rec [OF nr] by auto
      show ?thesis using split lt pos at s(1) u by (simp add: loop Let_def flip: cut_end_def)
    next
      case tail
      let ?t = "vmentry_set self (length pre) (cut_end cur e)"
      have t: "entries ?t (pre @ cut_end cur e # es @ ys)" using ent by (rule entries_set)
      have bt: "balance ?t d = balance self d" for d
        using balance_set [OF ent] by (simp add: cut_end_def)
      obtain u where u: "NaClVmmapAdd mem ?t cur (?ee - cur) pr (ve_flags e) (ve_desc e) ?off (ve_file_size e) = Inr u"
        "entries u (pre @ cut_end cur e # es @ ys @ [mid_entry pr cur (?ee - cur) ?off e])"
        "\<not> vm_is_sorted u" "\<And>d. balance u d = balance self d"
        using Add_entries [where mem = mem and pn = cur and np = "?ee - cur" and pr = pr
            and fl = "ve_flags e" and de = "ve_desc e" and off = ?off
            and fs = "ve_file_size e", OF t mem] bt mid_entry_rec [OF nr] by auto
      have "?ee \<le> ne" using tail by simp
      from rest [OF u(2) this] show ?thesis
        using tail lt pos at u by (auto simp add: loop Let_def split_beta simp flip: cut_end_def)
    next
      case head
      obtain u where u: "NaClVmmapAdd mem self cur (ne - cur) pr (ve_flags e) (ve_desc e) (ve_offset e) (ve_file_size e) = Inr u"
        "entries u (pre @ e # es @ ys @ [mid_entry pr cur (ne - cur) (ve_offset e) e])"
        "\<not> vm_is_sorted u" "\<And>d. balance u d = balance self d"
        using Add_entries [where mem = mem and pn = cur and np = "ne - cur" and pr = pr
            and fl = "ve_flags e" and de = "ve_desc e" and off = "ve_offset e"
            and fs = "ve_file_size e", OF ent mem] mid_entry_rec [OF nr] by auto
      have "entries (vmentry_set u (length pre) (shift_start ne e))
          (pre @ shift_start ne e # es @ ys @ [mid_entry pr cur (ne - cur) (ve_offset e) e])"
        using u(2) by (rule entries_set)
      moreover have "balance (vmentry_set u (length pre) (shift_start ne e)) d = balance self d" for d
        using balance_set [OF u(2)] u(4) by (simp add: shift_start_def)
      ultimately show ?thesis
        using head lt pos at u by (simp add: loop Let_def flip: shift_start_def)
    next
      case cover
      let ?t = "vmentry_set self (length pre) (e\<lparr>ve_prot := pr\<rparr>)"
      have t: "entries ?t (pre @ e\<lparr>ve_prot := pr\<rparr> # es @ ys)" using ent by (rule entries_set)
      have bt: "balance ?t d = balance self d" for d using balance_set [OF ent] by simp
      from rest [OF t cover(4)] show ?thesis
        using cover lt pos at bt by (auto simp add: loop Let_def split_beta)
    next
      case apart
      from rest [OF ent Cons.prems(3)] show ?thesis
        using apart lt pos at by (auto simp add: loop Let_def split_beta)
    qed
  qed
qed

section \<open>The pages after the loop\<close>

definition set_prot :: "u32 \<Rightarrow> page_attrs \<Rightarrow> page_attrs" where
  "set_prot pr a = (case a of (q, fl, de, off, fs) \<Rightarrow> (pr, fl, de, off, fs))"

definition no_offset :: "page_attrs \<Rightarrow> page_attrs" where
  "no_offset a = (case a of (q, fl, de, off, fs) \<Rightarrow> (q, fl, de, 0, fs))"

lemma unat_eqD: "unat (x :: u64) = unat y \<Longrightarrow> x = y"
  by (simp add: unsigned_word_eqI)

lemma attrs_mid_entry:
  "no_offset (attrs (mid_entry pr pn np off e) p) = no_offset (set_prot pr (attrs e p))"
  by (simp add: no_offset_def set_prot_def attrs_def mid_entry_def)

lemma attrs_mid_entry_start:
  assumes "ve_first e = unat pn"
  shows "attrs (mid_entry pr pn np (ve_offset e) e) p = set_prot pr (attrs e p)"
proof -
  have "ve_page_num e = pn" using assms by (intro unat_eqD) (simp add: ve_first_def)
  then show ?thesis by (simp add: set_prot_def attrs_def mid_entry_def)
qed

lemma covers_cut_end:
  "wf_entry e \<Longrightarrow> ve_first e < unat pn \<Longrightarrow> unat pn < ve_end e \<Longrightarrow>
   covers (cut_end pn e) p \<longleftrightarrow> ve_first e \<le> p \<and> p < unat pn"
  by (simp add: covers_def cut_end_range)

lemma covers_shift_start:
  "wf_entry e \<Longrightarrow> ve_first e \<le> unat ne \<Longrightarrow> unat ne < ve_end e \<Longrightarrow>
   covers (shift_start ne e) p \<longleftrightarrow> unat ne \<le> p \<and> p < ve_end e"
  by (simp add: covers_def shift_start_range)

lemma attrs_prot [simp]: "attrs (e\<lparr>ve_prot := pr\<rparr>) p = set_prot pr (attrs e p)"
  by (simp add: attrs_def set_prot_def)

lemma mid_entry_range:
  assumes "unat pn \<le> unat q"
  shows "covers (mid_entry pr pn (q - pn) off e) p \<longleftrightarrow> unat pn \<le> p \<and> p < unat q"
    "ve_removed (mid_entry pr pn (q - pn) off e) = ve_removed e"
    "unat pn < unat q \<Longrightarrow> unat q \<le> PAGE_LIMIT \<Longrightarrow> wf_entry (mid_entry pr pn (q - pn) off e)"
proof -
  have "unat (q - pn) = unat q - unat pn" using assms by (simp add: unat_diff_le)
  then show "covers (mid_entry pr pn (q - pn) off e) p \<longleftrightarrow> unat pn \<le> p \<and> p < unat q"
    "ve_removed (mid_entry pr pn (q - pn) off e) = ve_removed e"
    "unat pn < unat q \<Longrightarrow> unat q \<le> PAGE_LIMIT \<Longrightarrow> wf_entry (mid_entry pr pn (q - pn) off e)"
    using assms by (auto simp: covers_def mid_entry_def ve_first_def ve_end_def wf_entry_def)
qed

lemma covers_prot [simp]: "covers (e\<lparr>ve_prot := pr\<rparr>) p = covers e p"
  by (simp add: covers_def ve_first_def ve_end_def)

lemma word_ends:
  assumes "wf_entry e"
  shows "ve_page_num e < c \<longleftrightarrow> ve_first e < unat c" "c \<le> ve_page_num e \<longleftrightarrow> unat c \<le> ve_first e"
    "c < ve_page_num e + ve_npages e \<longleftrightarrow> unat c < ve_end e"
    "ve_page_num e + ve_npages e \<le> c \<longleftrightarrow> ve_end e \<le> unat c"
  using ve_end_word [OF assms] by (simp_all add: word_less_nat_alt word_le_nat_alt ve_first_def)

text \<open>\<open>f\<close> is what of the attributes is compared: everything where no entry is cut at the start
  of the region, and everything but the offset otherwise.\<close>

lemma page_at_cp_list:
  shows "ordered es \<Longrightarrow> \<forall>e\<in>set es. wf_entry e \<and> \<not> ve_removed e \<Longrightarrow>
    \<forall>p. unat cur \<le> p \<and> p < unat ne \<longrightarrow> (\<exists>e\<in>set es. covers e p) \<Longrightarrow>
    \<forall>e\<in>set es. ve_first e < unat cur \<and> unat cur < ve_end e \<longrightarrow>
      f = no_offset \<or> \<not> (unat cur \<le> p \<and> p < unat ne) \<Longrightarrow>
    image_mset f (page_at (fst (cp_list ne pr cur es) @ snd (cp_list ne pr cur es)) p) =
      image_mset f (if unat cur \<le> p \<and> p < unat ne then image_mset (set_prot pr) (page_at es p) else page_at es p)"
proof (induction es arbitrary: cur)
  case (Cons e es)
  let ?ee = "ve_page_num e + ve_npages e"
  have wf: "wf_entry e" "\<not> ve_removed e" using Cons.prems by auto
  have fe: "ve_first e < ve_end e" using wf by (simp add: wf_entry_def ve_end_def ve_first_def)
  have nee: "unat ?ee = ve_end e" using ve_end_word [OF wf(1)] .
  note lts = word_ends [OF wf(1)]
  note ce = covers_def [of e]
  have ord: "ordered es" and behind: "\<And>g. g \<in> set es \<Longrightarrow> ve_end e \<le> ve_first g"
    using Cons.prems(1) by (auto simp: ordered_def)
  have after: "page_at es p = {#}" if "p < ve_end e" for p
    using behind that by (intro page_at_outside) (fastforce simp: covers_def)
  have IH: "image_mset f (page_at (fst (cp_list ne pr c es)) p + page_at (snd (cp_list ne pr c es)) p) =
      image_mset f (if unat c \<le> p \<and> p < unat ne then image_mset (set_prot pr) (page_at es p) else page_at es p)"
    if "\<forall>p. unat c \<le> p \<and> p < unat ne \<longrightarrow> (\<exists>e\<in>set es. covers e p)"
      "\<forall>e\<in>set es. ve_first e < unat c \<and> unat c < ve_end e \<longrightarrow>
        f = no_offset \<or> \<not> (unat c \<le> p \<and> p < unat ne)" for c
    using Cons.IH [OF ord _ that] Cons.prems(2) by simp
  have cov: "\<exists>g\<in>set es. covers g p" if "unat cur \<le> p" "p < unat ne" "\<not> covers e p" for p
    using Cons.prems(3) that by auto
  have IHe: "image_mset f (page_at (fst (cp_list ne pr ?ee es)) p + page_at (snd (cp_list ne pr ?ee es)) p) =
      image_mset f (if ve_end e \<le> p \<and> p < unat ne then image_mset (set_prot pr) (page_at es p) else page_at es p)"
    if "unat cur \<le> ve_end e"
  proof (subst nee [symmetric], rule IH)
    show "\<forall>p. unat ?ee \<le> p \<and> p < unat ne \<longrightarrow> (\<exists>e\<in>set es. covers e p)"
      using cov that by (auto simp: nee covers_def)
    show "\<forall>g\<in>set es. ve_first g < unat ?ee \<and> unat ?ee < ve_end g \<longrightarrow>
        f = no_offset \<or> \<not> (unat ?ee \<le> p \<and> p < unat ne)"
      using behind by (fastforce simp: nee)
  qed
  show ?case
  proof (cases "ne \<le> cur")
    case True
    then show ?thesis by (auto simp: word_le_nat_alt)
  next
    case False
    then have lt: "unat cur < unat ne" by (simp add: word_le_nat_alt)
    have start: "ve_first e = unat cur" if "unat cur \<le> ve_first e" "ve_first e < unat ne"
    proof (rule ccontr)
      assume "ve_first e \<noteq> unat cur"
      then have "unat cur < ve_first e" using that by simp
      then obtain g where "g \<in> set es" "covers g (unat cur)"
        using cov [of "unat cur"] lt by (auto simp: covers_def)
      then show False using behind \<open>unat cur < ve_first e\<close> fe by (fastforce simp: covers_def)
    qed
    consider (split) "ve_first e < unat cur" "unat ne < ve_end e"
      | (tail) "ve_first e < unat cur" "ve_end e \<le> unat ne" "unat cur < ve_end e"
      | (head) "unat cur \<le> ve_first e" "ve_first e < unat ne" "unat ne < ve_end e"
      | (cover) "unat cur \<le> ve_first e" "ve_end e \<le> unat ne"
      | (apart) "ve_end e \<le> unat cur \<or> unat ne \<le> ve_first e"
      by linarith
    then show ?thesis
    proof cases
      case split
      then have f: "f (attrs (mid_entry pr cur n off e) p) = f (set_prot pr (attrs e p))"
        if "unat cur \<le> p" "p < unat ne" for n off
        using Cons.prems(4) lt that attrs_mid_entry by auto
      show ?thesis using split False after wf lt
        by (auto simp: Let_def lts ce covers_cut_end covers_shift_start mid_entry_range f)
    next
      case tail
      then have f: "f (attrs (mid_entry pr cur n off e) p) = f (set_prot pr (attrs e p))"
        if "unat cur \<le> p" "p < unat ne" for n off
        using Cons.prems(4) that attrs_mid_entry by auto
      have m: "covers (mid_entry pr cur (?ee - cur) off e) p \<longleftrightarrow> unat cur \<le> p \<and> p < ve_end e" for off
        using mid_entry_range(1) [of cur ?ee] tail by (simp add: nee)
      have m': "ve_removed (mid_entry pr cur (?ee - cur) off e) = ve_removed e" for off
        by (simp add: mid_entry_def)
      show ?thesis using tail False after wf lt IHe
        by (auto simp: Let_def lts ce covers_cut_end m m' f split_beta nee)
    next
      case head
      note st = start [OF head(1,2)]
      show ?thesis using head False after wf lt st
        by (auto simp: Let_def lts ce covers_shift_start mid_entry_range attrs_mid_entry_start)
    next
      case cover
      then have st: "ve_first e = unat cur" using start fe by simp
      have le: "unat cur \<le> ve_end e" using st fe by simp
      have cp: "cp_list ne pr cur (e # es) =
          (e\<lparr>ve_prot := pr\<rparr> # fst (cp_list ne pr ?ee es), snd (cp_list ne pr ?ee es))"
        using cover False st lt fe by (simp add: Let_def lts split_beta)
      have c: "covers e p \<longleftrightarrow> unat cur \<le> p \<and> p < ve_end e" by (simp add: ce st)
      show ?thesis
        using IHe [OF le] after [of p] wf cover(2) le unfolding cp
        by (cases "p < ve_end e"; cases "unat cur \<le> p") (simp_all add: c)
    next
      case apart
      have I: "image_mset f (page_at (fst (cp_list ne pr cur es)) p + page_at (snd (cp_list ne pr cur es)) p) =
        image_mset f (if unat cur \<le> p \<and> p < unat ne then image_mset (set_prot pr) (page_at es p) else page_at es p)"
        using cov apart Cons.prems(4) by (intro IH) (auto simp: covers_def)
      have cp: "cp_list ne pr cur (e # es) = (e # fst (cp_list ne pr cur es), snd (cp_list ne pr cur es))"
        using apart False lt fe by (auto simp: Let_def lts split_beta)
      have nc: "covers e p \<Longrightarrow> \<not> (unat cur \<le> p \<and> p < unat ne) \<and> page_at es p = {#}"
        using apart after [of p] by (auto simp: ce)
      show ?thesis using I nc wf unfolding cp by (cases "covers e p") auto
    qed
  qed
qed simp

lemma wf_cp_list:
  assumes lim: "unat ne \<le> PAGE_LIMIT"
  shows "\<forall>e\<in>set es. wf_entry e \<and> \<not> ve_removed e \<Longrightarrow>
    g \<in> set (fst (cp_list ne pr cur es) @ snd (cp_list ne pr cur es)) \<Longrightarrow> wf_entry g \<and> \<not> ve_removed g"
proof (induction es arbitrary: cur)
  case (Cons e es)
  let ?ee = "ve_page_num e + ve_npages e"
  have wf: "wf_entry e" "\<not> ve_removed e" using Cons.prems by auto
  note lts = word_ends [OF wf(1)]
  have c: "wf_entry (cut_end cur e)" if "ve_first e < unat cur" "unat cur < ve_end e"
    using cut_end_range(3) [OF wf(1) that] .
  have s: "wf_entry (shift_start ne e)" if "ve_first e \<le> unat ne" "unat ne < ve_end e"
    using shift_start_range(3) [OF wf(1) that] .
  have m: "wf_entry (mid_entry pr cur (q - cur) off e)" if "unat cur < unat q" "unat q \<le> PAGE_LIMIT" for q off
    using mid_entry_range(3) [of cur q] that by simp
  have m1: "wf_entry (mid_entry pr cur (?ee - cur) off e)" if "unat cur < ve_end e" for off
    using m [of ?ee] that wf(1) by (simp add: ve_end_word wf_entry_def)
  have r: "ve_removed (mid_entry pr cur n off e) = ve_removed e" for n off by (simp add: mid_entry_def)
  have p: "wf_entry (e\<lparr>ve_prot := pr\<rparr>)" using wf by (simp add: wf_entry_def ve_end_def)
  have IH: "g \<in> set (fst (cp_list ne pr c es)) \<Longrightarrow> wf_entry g \<and> \<not> ve_removed g"
    "g \<in> set (snd (cp_list ne pr c es)) \<Longrightarrow> wf_entry g \<and> \<not> ve_removed g" for c
    using Cons.IH Cons.prems(1) by auto
  have es: "g \<in> set es \<Longrightarrow> wf_entry g \<and> \<not> ve_removed g" using Cons.prems(1) by auto
  consider "ne \<le> cur" | "unat cur < unat ne" by (cases "ne \<le> cur") (auto simp: word_le_nat_alt)
  then show ?case
  proof cases
    case 2
    then have "\<not> ne \<le> cur" by (simp add: word_le_nat_alt)
    with 2 show ?thesis
      using Cons.prems(2) wf c s m [OF 2 lim] m1 r p
      by (auto simp: Let_def lts split_beta split: if_splits dest: IH es)
  qed (use Cons.prems in auto)
qed simp

lemma ordered_sorted:
  assumes "ordered es" "\<forall>e\<in>set es. wf_entry e \<and> \<not> ve_removed e"
  shows "sorted (map ve_first es)"
proof -
  have "ve_first (es ! i) \<le> ve_first (es ! j)" if "i < j" "j < length es" for i j
  proof -
    have "ve_end (es ! i) \<le> ve_first (es ! j)"
      using assms(1) that by (simp add: ordered_def sorted_wrt_iff_nth_less)
    then show ?thesis by (simp add: ve_end_def ve_first_def)
  qed
  then show ?thesis by (simp add: sorted_iff_nth_mono_less)
qed

lemma cp_list_firsts: "snd (cp_list ne pr cur es) = [] \<Longrightarrow> map ve_first (fst (cp_list ne pr cur es)) = map ve_first es"
  by (induction es arbitrary: cur) (auto simp: Let_def split_beta ve_first_def split: if_splits)

section \<open>The operation\<close>

definition region_allows :: "(nat \<Rightarrow> u32) \<Rightarrow> NaClVmmap \<Rightarrow> u64 \<Rightarrow> u64 \<Rightarrow> u32 \<Rightarrow> bool" where
  "region_allows GetFlags self pn np prot \<longleftrightarrow>
     (\<forall>p. in_region pn np p \<longrightarrow> (\<exists>a. vm_page self p = Some a \<and> prot_allowed GetFlags prot a))"

lemma check_region:
  assumes "wf_vmmap self" "0 < unat np" "unat pn + unat np \<le> PAGE_LIMIT" "legal_flags GetFlags"
  shows "\<exists>s. NaClVmmapCheckExistingMapping GetFlags self pn np prot =
      Inr (region_allows GetFlags self pn np prot, s)
    \<and> wf_vmmap s \<and> (\<forall>p. vm_page s p = vm_page self p) \<and> (\<forall>d. balance s d = balance self d)
    \<and> set (vm_vmentry s) = set (vm_vmentry self)"
  using CheckExistingMapping_pages [OF assms, of prot] unfolding region_allows_def .

lemma ChangeProt_refuses:
  assumes "wf_vmmap self" "0 < unat np" "unat pn + unat np \<le> PAGE_LIMIT" "legal_flags GetFlags"
    and no: "\<not> region_allows GetFlags self pn np prot"
  shows "\<exists>self'. NaClVmmapChangeProt mem GetFlags self pn np prot = Inr (False, self') \<and> wf_vmmap self'
    \<and> (\<forall>p. vm_page self' p = vm_page self p)"
  using check_region [OF assms(1-4), of prot] no by (auto simp: NaClVmmapChangeProt_def Let_def)

lemma image_page_at:
  assumes "entries s es" "size (page_at es p) \<le> 1"
  shows "image_mset f (page_at es p) = (case map_option f (vm_page s p) of None \<Rightarrow> {#} | Some a \<Rightarrow> {#a#})"
  by (simp add: vm_page_entries [OF assms] split: option.split)

lemma image_page_size: "image_mset f A = image_mset g B \<Longrightarrow> size A = size B"
  by (metis size_image_mset)

lemma opt_mset_inj: "(case x of None \<Rightarrow> {#} | Some a \<Rightarrow> {#a#}) = (case y of None \<Rightarrow> {#} | Some a \<Rightarrow> {#a#}) \<longleftrightarrow> x = y"
  by (auto split: option.split)

text \<open>No entry of the map has the page \<open>pn\<close> in it without starting there.\<close>

definition starts_entry :: "NaClVmmap \<Rightarrow> u64 \<Rightarrow> bool" where
  "starts_entry self pn \<longleftrightarrow>
     (\<forall>x\<in>set (vm_vmentry self). \<forall>e. x = Some e \<longrightarrow> \<not> (ve_first e < unat pn \<and> unat pn < ve_end e))"

lemma change_prot_pages:
  assumes wf: "wf_vmmap self" and np: "0 < unat np" and lim: "unat pn + unat np \<le> PAGE_LIMIT"
    and lf: "legal_flags GetFlags" and mem: "\<And>n. mem n" and ok: "region_allows GetFlags self pn np prot"
  shows "\<exists>self'. NaClVmmapChangeProt mem GetFlags self pn np prot = Inr (True, self') \<and> wf_vmmap self' \<and>
    (\<forall>d. balance self' d = balance self d) \<and>
    (\<forall>f p. f = no_offset \<or> f = (\<lambda>a. a) \<and> (starts_entry self pn \<or> \<not> in_region pn np p) \<longrightarrow>
      map_option f (vm_page self' p) =
      map_option f (if in_region pn np p then map_option (set_prot prot) (vm_page self p) else vm_page self p))"
proof -
  obtain s where s: "NaClVmmapCheckExistingMapping GetFlags self pn np prot = Inr (True, s)" "wf_vmmap s"
    "\<forall>p. vm_page s p = vm_page self p" "\<forall>d. balance s d = balance self d"
    "set (vm_vmentry s) = set (vm_vmentry self)"
    using check_region [OF wf np lim lf, of prot] ok by auto
  obtain t es where t: "NaClVmmapMakeSorted s = Inr t" "entries t es" "wf_entries es" "ordered es"
    "wf_vmmap t" "\<forall>p. vm_page t p = vm_page s p" "\<forall>d. balance t d = balance s d"
    "vm_is_sorted t" "set (vm_vmentry t) = set (vm_vmentry s)"
    using make_sorted_wf [OF s(2)] by blast
  have wfe: "\<forall>e\<in>set es. wf_entry e \<and> \<not> ve_removed e" and one: "\<And>p. size (page_at es p) \<le> 1"
    using t(3) by (auto simp: wf_entries_def)
  have ne: "unat (pn + np) = unat pn + unat np"
    using lim by (intro unat_add_no_wrap) (simp add: PAGE_LIMIT_def)
  have le: "pn \<le> pn + np" using ne by (simp add: word_le_nat_alt)
  let ?c = "cp_list (pn + np) prot pn es"
  let ?es = "fst ?c @ snd ?c"
  obtain u where u: "change_prot_loop mem (length es) (pn + np) prot 0 pn np t = Inr u" "entries u ?es"
    "\<forall>d. balance u d = balance t d" "vm_is_sorted u \<longrightarrow> snd ?c = []"
    using change_prot_loop_ok [where mem = mem and self = t and pre = "[]" and es = es and ys = "[]", OF mem _ wfe le]
      t(2) by auto
  have cov: "\<forall>p. unat pn \<le> p \<and> p < unat (pn + np) \<longrightarrow> (\<exists>e\<in>set es. covers e p)"
    using ok vm_page_ex [OF t(2,3), of _ "\<lambda>_. True"] s(3) t(6)
    by (fastforce simp: region_allows_def in_region_def ne)
  have cuts: "(\<forall>e\<in>set es. \<not> (ve_first e < unat pn \<and> unat pn < ve_end e)) \<longleftrightarrow> starts_entry self pn"
  proof -
    have "set (vm_vmentry self) = Some ` set es" using t(2,9) s(5) by (simp add: entries_def)
    then show ?thesis by (simp add: starts_entry_def)
  qed
  have page: "image_mset f (page_at ?es p) =
      image_mset f (if in_region pn np p then image_mset (set_prot prot) (page_at es p) else page_at es p)"
    if "f = no_offset \<or> starts_entry self pn \<or> \<not> in_region pn np p" for f p
    using page_at_cp_list [OF t(4) wfe cov, of f p prot] that cuts unfolding in_region_def ne by blast
  have size: "size (page_at ?es p) \<le> 1" for p
    using image_page_size [OF page [of no_offset p]] one [of p] by (auto split: if_splits)
  have vf: "map_option f (vm_page u p) =
      map_option f (if in_region pn np p then map_option (set_prot prot) (vm_page self p) else vm_page self p)"
    if "f = no_offset \<or> f = (\<lambda>a. a) \<and> (starts_entry self pn \<or> \<not> in_region pn np p)" for f p
  proof -
    have "(case map_option f (vm_page u p) of None \<Rightarrow> {#} | Some a \<Rightarrow> {#a#}) =
      (case map_option f (if in_region pn np p then map_option (set_prot prot) (vm_page t p) else vm_page t p)
       of None \<Rightarrow> {#} | Some a \<Rightarrow> {#a#})"
      using page [of f p] that image_page_at [OF u(2) size, of f p]
        vm_page_entries [OF t(2) one, of p] by (auto split: option.splits)
    then show ?thesis unfolding opt_mset_inj using s(3) t(6) by simp
  qed
  have "wf_vmmap u"
  proof -
    have "unat (pn + np) \<le> PAGE_LIMIT" using ne lim by simp
    then have "wf_entry g \<and> \<not> ve_removed g" if "g \<in> set ?es" for g
      using wf_cp_list [OF _ wfe that] by blast
    then have "wf_entries ?es" using size unfolding wf_entries_def by blast
    moreover have "sorted (map ve_first ?es)" if "vm_is_sorted u"
    proof -
      have "sorted (map ve_first es)" using ordered_sorted [OF t(4)] wfe by blast
      then show ?thesis using cp_list_firsts [of "pn + np" prot pn es] u(4) that by simp
    qed
    ultimately show ?thesis using u(2) by (auto simp: wf_vmmap_def)
  qed
  moreover have "NaClVmmapChangeProt mem GetFlags self pn np prot = Inr (True, u)"
    using s(1) t(1,2) u(1) by (simp add: NaClVmmapChangeProt_def Let_def entries_def)
  ultimately show ?thesis using u(3) s(4) t(7) vf by (intro exI [of _ u] conjI) simp_all
qed

end
