(* ===== verification/VmmapSearch.thy ===== *)
theory VmmapSearch
  imports VmmapProofs
begin

text \<open>
  Lookup and the searches for space of \<open>sel_mem.c\<close>: \<open>NaClVmmapFindPage\<close> returns the entry of
  a page exactly when the page is mapped, and each search returns the best gap there is
  between mapped pages, or \<open>0\<close> exactly when there is none.
\<close>

section \<open>Lookup\<close>

lemma covers_cmp:
  assumes "wf_entry e"
  shows "NaClVmmapContainCmpEntries pnum (Some e) = 0 \<longleftrightarrow> covers e (unat pnum)"
    and "NaClVmmapContainCmpEntries pnum (Some e) > 0 \<longleftrightarrow> ve_end e \<le> unat pnum"
    and "NaClVmmapContainCmpEntries pnum (Some e) < 0 \<longleftrightarrow> unat pnum < ve_first e"
  using ve_end_word [OF assms] assms
  by (auto simp: NaClVmmapContainCmpEntries_def covers_def word_less_nat_alt ve_first_def ve_end_def
      wf_entry_def)

lemma bsearch_entries:
  assumes "ordered es" "\<forall>e\<in>set es. wf_entry e"
  shows "case bsearch_elems NaClVmmapContainCmpEntries pnum (map Some es) of
      None \<Rightarrow> \<forall>e\<in>set es. \<not> covers e (unat pnum)
    | Some ix \<Rightarrow> ix < length es \<and> covers (es ! ix) (unat pnum)"
proof (cases "\<exists>e\<in>set es. covers e (unat pnum)")
  case True
  then obtain i where i: "i < length es" "covers (es ! i) (unat pnum)" by (auto simp: in_set_conv_nth)
  have ord: "ve_end (es ! a) \<le> ve_first (es ! b)" if "a < b" "b < length es" for a b
    using assms(1) that by (simp add: ordered_def sorted_wrt_iff_nth_less)
  have "bsearch_elems NaClVmmapContainCmpEntries pnum (map Some es) = Some i"
  proof (rule bsearch_finds)
    fix j assume "j < i"
    then show "NaClVmmapContainCmpEntries pnum (map Some es ! j) > 0"
      using ord [of j i] i assms(2) by (simp add: covers_cmp covers_def)
  next
    fix j assume "i < j" "j < length (map Some es)"
    then show "NaClVmmapContainCmpEntries pnum (map Some es ! j) < 0"
      using ord [of i j] i assms(2) by (simp add: covers_cmp covers_def)
  qed (use i assms(2) in \<open>simp_all add: covers_cmp\<close>)
  with i show ?thesis by simp
next
  case False
  have "bsearch_elems NaClVmmapContainCmpEntries pnum (map Some es) \<noteq> Some ix" for ix
  proof
    assume "bsearch_elems NaClVmmapContainCmpEntries pnum (map Some es) = Some ix"
    from bsearch_Some [OF this] have "covers (es ! ix) (unat pnum)" "ix < length es"
      using assms(2) by (auto simp: covers_cmp)
    with False show False by simp
  qed
  with False show ?thesis by (auto split: option.split)
qed

lemma covers_vm_page:
  assumes "entries s es" "wf_entries es" "e \<in> set es" "covers e p"
  shows "vm_page s p = Some (attrs e p)"
proof -
  have "attrs e p \<in># page_at es p"
    using assms by (auto simp: page_at_def wf_entries_def)
  moreover have "size (page_at es p) \<le> 1" using assms(2) by (simp add: wf_entries_def)
  ultimately show ?thesis
    using vm_page_entries [OF assms(1), of p] by (auto split: option.splits)
qed

lemma mapped_iff:
  assumes "entries s es" "wf_entries es"
  shows "vm_page s p \<noteq> None \<longleftrightarrow> (\<exists>e\<in>set es. covers e p)"
  using vm_page_ex [OF assms, of p "\<lambda>_. True"] by auto

lemma FindPage_correct:
  assumes "wf_vmmap self"
  shows "\<exists>r self'. NaClVmmapFindPage self pnum = Inr (r, self') \<and> wf_vmmap self' \<and>
    (\<forall>p. vm_page self' p = vm_page self p) \<and> (\<forall>d. balance self' d = balance self d) \<and>
    (case r of None \<Rightarrow> vm_page self (unat pnum) = None
     | Some e \<Rightarrow> covers e (unat pnum) \<and> vm_page self (unat pnum) = Some (attrs e (unat pnum)))"
proof -
  obtain s es where s: "NaClVmmapMakeSorted self = Inr s" "entries s es" "wf_entries es" "ordered es"
    "wf_vmmap s" "\<forall>p. vm_page s p = vm_page self p" "\<forall>d. balance s d = balance self d"
    using make_sorted_wf [OF assms] by blast
  have wfe: "\<forall>e\<in>set es. wf_entry e" using s(3) by (simp add: wf_entries_def)
  have v: "vm_vmentry s = map Some es" using s(2) by (simp add: entries_def)
  show ?thesis
  proof (cases "bsearch_elems NaClVmmapContainCmpEntries pnum (map Some es)")
    case None
    then have "\<forall>e\<in>set es. \<not> covers e (unat pnum)" using bsearch_entries [OF s(4) wfe, of pnum] by simp
    then have "vm_page s (unat pnum) = None" using mapped_iff [OF s(2,3)] by blast
    then show ?thesis using s None by (simp add: NaClVmmapFindPage_def v)
  next
    case (Some ix)
    then have ix: "ix < length es" "covers (es ! ix) (unat pnum)"
      using bsearch_entries [OF s(4) wfe, of pnum] by auto
    then have "vm_page s (unat pnum) = Some (attrs (es ! ix) (unat pnum))"
      by (intro covers_vm_page [OF s(2,3)]) auto
    then show ?thesis using s Some ix by (simp add: NaClVmmapFindPage_def v vmentry_at_def)
  qed
qed

text \<open>An iterator found for a page stands on the entry of the page, or at the end.\<close>

lemma FindPageIter_correct:
  assumes "wf_vmmap self"
  shows "\<exists>ix self'. NaClVmmapFindPageIter self pnum = Inr (ix, self') \<and> wf_vmmap self' \<and>
    (\<forall>p. vm_page self' p = vm_page self p) \<and>
    (if NaClVmmapIterAtEnd self' ix then vm_page self (unat pnum) = None
     else \<exists>e. NaClVmmapIterStar self' ix = Inr e \<and> covers e (unat pnum) \<and>
            vm_page self (unat pnum) = Some (attrs e (unat pnum)))"
proof -
  obtain s es where s: "NaClVmmapMakeSorted self = Inr s" "entries s es" "wf_entries es" "ordered es"
    "wf_vmmap s" "\<forall>p. vm_page s p = vm_page self p"
    using make_sorted_wf [OF assms] by blast
  have wfe: "\<forall>e\<in>set es. wf_entry e" using s(3) by (simp add: wf_entries_def)
  have v: "vm_vmentry s = map Some es" using s(2) by (simp add: entries_def)
  show ?thesis
  proof (cases "bsearch_elems NaClVmmapContainCmpEntries pnum (map Some es)")
    case None
    then have "\<forall>e\<in>set es. \<not> covers e (unat pnum)" using bsearch_entries [OF s(4) wfe, of pnum] by simp
    then have "vm_page s (unat pnum) = None" using mapped_iff [OF s(2,3)] by blast
    then show ?thesis using s None by (simp add: NaClVmmapFindPageIter_def v NaClVmmapIterAtEnd_def)
  next
    case (Some ix)
    then have ix: "ix < length es" "covers (es ! ix) (unat pnum)"
      using bsearch_entries [OF s(4) wfe, of pnum] by auto
    then have "vm_page s (unat pnum) = Some (attrs (es ! ix) (unat pnum))"
      by (intro covers_vm_page [OF s(2,3)]) auto
    then show ?thesis using s Some ix
      by (simp add: NaClVmmapFindPageIter_def v NaClVmmapIterAtEnd_def NaClVmmapIterStar_def vmentry_at_def)
  qed
qed

section \<open>Gaps\<close>

text \<open>A gap of \<open>n\<close> pages at \<open>q\<close>: unmapped pages between mapped ones.\<close>

definition gap :: "NaClVmmap \<Rightarrow> nat \<Rightarrow> nat \<Rightarrow> bool" where
  "gap self n q \<longleftrightarrow> (\<forall>p. q \<le> p \<and> p < q + n \<longrightarrow> vm_page self p = None) \<and>
     (\<exists>p<q. vm_page self p \<noteq> None) \<and> (\<exists>p\<ge>q + n. vm_page self p \<noteq> None)"

lemma gap_cong: "\<forall>p. vm_page s p = vm_page t p \<Longrightarrow> gap s n q = gap t n q"
  by (simp add: gap_def)

definition between :: "NaClVmmapEntry list \<Rightarrow> nat \<Rightarrow> nat \<Rightarrow> nat \<Rightarrow> bool" where
  "between es n q i \<longleftrightarrow> ve_end (es ! (i - 1)) \<le> q \<and> q + n \<le> ve_first (es ! i)"

lemma gap_between:
  assumes "entries s es" "wf_entries es" "ordered es" "0 < n"
  shows "gap s n q \<longleftrightarrow> (\<exists>i. 0 < i \<and> i < length es \<and> between es n q i)"
proof
  have ord: "ve_end (es ! a) \<le> ve_first (es ! b)" if "a < b" "b < length es" for a b
    using assms(3) that by (simp add: ordered_def sorted_wrt_iff_nth_less)
  have lt: "ve_first (es ! a) < ve_end (es ! a)" if "a < length es" for a
    using assms(2) that by (auto simp: wf_entries_def wf_entry_def ve_first_def ve_end_def)
  note m = mapped_iff [OF assms(1,2)]
  {
    assume g: "gap s n q"
    have free: "ve_end e \<le> q \<or> q + n \<le> ve_first e" if "e \<in> set es" for e
    proof (rule ccontr)
      assume c: "\<not> (ve_end e \<le> q \<or> q + n \<le> ve_first e)"
      have "ve_first e < ve_end e" using that lt by (auto simp: in_set_conv_nth)
      with c have "covers e (max q (ve_first e))" "max q (ve_first e) < q + n"
        using assms(4) by (auto simp: covers_def)
      with g that m show False by (metis gap_def max.cobounded1)
    qed
    obtain e1 p1 where e1: "e1 \<in> set es" "covers e1 p1" "p1 < q" using g m by (auto simp: gap_def)
    obtain e2 p2 where e2: "e2 \<in> set es" "covers e2 p2" "q + n \<le> p2" using g m by (auto simp: gap_def)
    obtain k where k: "k < length es" "e1 = es ! k" using e1 by (auto simp: in_set_conv_nth)
    obtain j where j: "j < length es" "e2 = es ! j" using e2 by (auto simp: in_set_conv_nth)
    have j': "q + n \<le> ve_first (es ! j)" using free [OF e2(1)] e2 j by (auto simp: covers_def)
    define i where "i = (LEAST i. i < length es \<and> q + n \<le> ve_first (es ! i))"
    have i: "i < length es" "q + n \<le> ve_first (es ! i)"
      using LeastI [of "\<lambda>i. i < length es \<and> q + n \<le> ve_first (es ! i)" j] j j' by (simp_all add: i_def)
    have "k < i"
    proof (rule ccontr)
      assume "\<not> k < i"
      then have "ve_first (es ! i) \<le> ve_first (es ! k)"
        using ord [of i k] lt [of i] k i by (cases "k = i") auto
      with i e1 k show False by (auto simp: covers_def)
    qed
    then have i1: "0 < i" "i - 1 < length es" using i by simp_all
    have "\<not> q + n \<le> ve_first (es ! (i - 1))"
    proof
      assume "q + n \<le> ve_first (es ! (i - 1))"
      then have "i \<le> i - 1"
        unfolding i_def by (intro Least_le) (use i1 in \<open>simp add: i_def\<close>)
      with i1 show False by simp
    qed
    then have "ve_end (es ! (i - 1)) \<le> q" using free [of "es ! (i - 1)"] i1 by auto
    then show "\<exists>i. 0 < i \<and> i < length es \<and> between es n q i" using i i1 by (auto simp: between_def)
  next
    assume "\<exists>i. 0 < i \<and> i < length es \<and> between es n q i"
    then obtain i where i: "0 < i" "i < length es" "ve_end (es ! (i - 1)) \<le> q" "q + n \<le> ve_first (es ! i)"
      by (auto simp: between_def)
    have "\<not> covers (es ! k) p" if "q \<le> p" "p < q + n" "k < length es" for p k
    proof -
      consider "k < i - 1" | "k = i - 1" | "k = i" | "i < k" by linarith
      then show ?thesis
        using ord [of k "i - 1"] ord [of i k] lt [of i] lt [of "i - 1"] i that less_imp_diff_less [OF i(2), of 1]
        by cases (auto simp: covers_def)
    qed
    then have "\<forall>p. q \<le> p \<and> p < q + n \<longrightarrow> vm_page s p = None"
      using m by (metis in_set_conv_nth)
    moreover have "covers (es ! (i - 1)) (ve_first (es ! (i - 1)))" "covers (es ! i) (ve_first (es ! i))"
      using lt [of i] lt [of "i - 1"] i by (auto simp: covers_def)
    then have "vm_page s (ve_first (es ! (i - 1))) \<noteq> None" "vm_page s (ve_first (es ! i)) \<noteq> None"
      using m i by (metis less_imp_diff_less nth_mem)+
    moreover have "ve_first (es ! (i - 1)) < q"
      using lt [of "i - 1"] i(3) less_imp_diff_less [OF i(2), of 1] by simp
    ultimately show "gap s n q" using i by (auto simp: gap_def)
  }
qed

section \<open>The three searches\<close>

text \<open>What the downward and the upward searches compute on the windows \<open>[lo i, hi i)\<close>.\<close>

fun top_gap :: "(nat \<Rightarrow> nat) \<Rightarrow> (nat \<Rightarrow> nat) \<Rightarrow> nat \<Rightarrow> nat \<Rightarrow> nat option" where
  "top_gap lo hi n 0 = None"
| "top_gap lo hi n (Suc k) =
     (if 0 < k then if lo k + n \<le> hi k then Some (hi k - n) else top_gap lo hi n k else None)"

lemma top_gap_None: "top_gap lo hi n k = None \<Longrightarrow> 0 < i \<Longrightarrow> i < k \<Longrightarrow> hi i < lo i + n"
  by (induction k) (auto simp: less_Suc_eq split: if_splits)

lemma top_gap_Some:
  assumes "top_gap lo hi n k = Some q"
    and mono: "\<And>i j. 0 < i \<Longrightarrow> i < j \<Longrightarrow> j < k \<Longrightarrow> hi i \<le> hi j"
  shows "(\<exists>i. 0 < i \<and> i < k \<and> lo i \<le> q \<and> q + n = hi i) \<and>
    (\<forall>i r. 0 < i \<and> i < k \<and> lo i \<le> r \<and> r + n \<le> hi i \<longrightarrow> r \<le> q)"
  using assms
proof (induction k)
  case (Suc k)
  show ?case
  proof (cases "lo k + n \<le> hi k")
    case True
    then have q: "0 < k" "q = hi k - n" using Suc.prems(1) by (auto split: if_splits)
    have "r \<le> q" if "0 < i" "i < Suc k" "r + n \<le> hi i" for i r
    proof -
      have "hi i \<le> hi k" using Suc.prems(2) [of i k] that by (cases "i = k") auto
      with that q show ?thesis by linarith
    qed
    moreover have "lo k \<le> q" "q + n = hi k" using True q by linarith+
    ultimately show ?thesis using q(1) by blast
  next
    case False
    then have "top_gap lo hi n k = Some q" using Suc.prems(1) by (auto split: if_splits)
    from Suc.IH [OF this] Suc.prems(2)
    have IH: "\<exists>i. 0 < i \<and> i < k \<and> lo i \<le> q \<and> q + n = hi i"
      "\<forall>i r. 0 < i \<and> i < k \<and> lo i \<le> r \<and> r + n \<le> hi i \<longrightarrow> r \<le> q" by auto
    have "i < k" if "i < Suc k" "lo i \<le> r" "r + n \<le> hi i" for i r
      using that False by (cases "i = k") auto
    then show ?thesis using IH less_Suc_eq by blast
  qed
qed simp

lemma word_gap:
  assumes "unat a \<le> unat (b :: u64)"
  shows "n \<le> b - a \<longleftrightarrow> unat a + unat n \<le> unat b"
    and "unat a + unat n \<le> unat b \<Longrightarrow> b - n = of_nat (unat b - unat n)"
  using assms by (auto simp: word_le_nat_alt unat_diff_le of_nat_diff)

lemma vmentry_at_entries: "entries s es \<Longrightarrow> i < length es \<Longrightarrow> vmentry_at s i = Inr (es ! i)"
  by (simp add: entries_def)

definition opt_word :: "nat option \<Rightarrow> u64" where
  "opt_word r = (case r of None \<Rightarrow> 0 | Some q \<Rightarrow> of_nat q)"

lemma find_space_loop_eq:
  assumes "entries s es" "\<forall>e\<in>set es. wf_entry e" "ordered es"
  shows "k \<le> length es \<Longrightarrow> find_space_loop s n k =
    Inr (opt_word (top_gap (\<lambda>i. ve_end (es ! (i - 1))) (\<lambda>i. ve_first (es ! i)) (unat n) k))"
proof (induction k)
  case (Suc k)
  show ?case
  proof (cases "k = 0")
    case False
    have at: "vmentry_at s (k - Suc 0) = Inr (es ! (k - 1))" "vmentry_at s k = Inr (es ! k)"
      using vmentry_at_entries [OF assms(1)] Suc.prems by simp_all
    have wf: "wf_entry (es ! (k - 1))" using assms(2) Suc.prems by auto
    have "ve_end (es ! (k - 1)) \<le> ve_first (es ! k)"
      using assms(3) Suc.prems False by (simp add: ordered_def sorted_wrt_iff_nth_less)
    then show ?thesis
      using Suc False at word_gap [of "ve_page_num (es ! (k - 1)) + ve_npages (es ! (k - 1))" "ve_page_num (es ! k)" n]
        ve_end_word [OF wf]
      by (simp add: Let_def opt_word_def ve_first_def)
  qed (simp add: opt_word_def)
qed (simp add: opt_word_def)

lemma opt_word_unat:
  "(\<And>q. r = Some q \<Longrightarrow> q < 2 ^ 64 \<and> 0 < q) \<Longrightarrow>
   (opt_word r = 0 \<longleftrightarrow> r = None) \<and> (\<forall>q. r = Some q \<longrightarrow> unat (opt_word r) = q)"
proof (cases r)
  case (Some q)
  moreover assume "\<And>q. r = Some q \<Longrightarrow> q < 2 ^ 64 \<and> 0 < q"
  ultimately have q: "q < 2 ^ 64" "0 < q" by auto
  then have "unat (of_nat q :: u64) = q" by (simp add: unat_of_nat)
  with q Some show ?thesis by (auto simp: opt_word_def simp flip: unat_eq_zero)
qed (simp add: opt_word_def)

lemma top_gap_best:
  assumes Q: "\<And>q. Q q \<longleftrightarrow> (\<exists>i. 0 < i \<and> i < k \<and> lo i \<le> q \<and> q + n \<le> hi i)"
    and mono: "\<And>i j. 0 < i \<Longrightarrow> i < j \<Longrightarrow> j < k \<Longrightarrow> hi i \<le> hi j"
    and bounds: "\<And>i. 0 < i \<Longrightarrow> i < k \<Longrightarrow> 0 < lo i \<and> hi i \<le> PAGE_LIMIT"
    and r: "r = opt_word (top_gap lo hi n k)"
  shows "if r = 0 then \<forall>q. \<not> Q q else Q (unat r) \<and> (\<forall>q. Q q \<longrightarrow> q \<le> unat r)"
proof -
  have best: "Q q \<and> (\<forall>q'. Q q' \<longrightarrow> q' \<le> q) \<and> q < 2 ^ 64 \<and> 0 < q" if "top_gap lo hi n k = Some q" for q
  proof -
    note t = top_gap_Some [OF that mono]
    obtain i where i: "0 < i" "i < k" "lo i \<le> q" "q + n = hi i" using t by blast
    then have "Q q" unfolding Q by (metis order_refl)
    moreover have "\<forall>q'. Q q' \<longrightarrow> q' \<le> q" using t unfolding Q by blast
    ultimately show ?thesis using bounds [OF i(1,2)] i(3,4) by (simp add: PAGE_LIMIT_def)
  qed
  show ?thesis
  proof (cases "top_gap lo hi n k")
    case None
    have "\<not> (lo i \<le> q \<and> q + n \<le> hi i)" if "0 < i" "i < k" for i q
      using top_gap_None [OF None that] by linarith
    then have "\<not> Q q" for q unfolding Q by blast
    with None show ?thesis by (simp add: r opt_word_def)
  next
    case (Some q)
    then show ?thesis using opt_word_unat [of "top_gap lo hi n k"] best by (simp add: r)
  qed
qed

lemma search_start:
  assumes "wf_vmmap self"
  shows "\<exists>s es. NaClVmmapMakeSorted self = Inr s \<and> entries s es \<and> wf_entries es \<and> ordered es \<and>
    (\<forall>e\<in>set es. wf_entry e) \<and> wf_vmmap s \<and> (\<forall>p. vm_page s p = vm_page self p) \<and>
    (\<forall>d. balance s d = balance self d) \<and> length es = vm_nvalid self \<and> vm_nvalid s = length es"
proof -
  obtain s es where s: "NaClVmmapMakeSorted self = Inr s" "entries s es" "wf_entries es" "ordered es"
    "wf_vmmap s" "\<forall>p. vm_page s p = vm_page self p" "\<forall>d. balance s d = balance self d"
    "vm_nvalid s = vm_nvalid self"
    using make_sorted_wf [OF assms] by blast
  moreover have "\<forall>e\<in>set es. wf_entry e" using s(3) by (simp add: wf_entries_def)
  moreover have "length es = vm_nvalid s" using s(2) by (simp add: entries_def)
  ultimately show ?thesis by (intro exI [of _ s] exI [of _ es] conjI) simp_all
qed

lemma ve_first_mono:
  assumes "ordered es" "i < j" "j < length es"
  shows "ve_first (es ! i) \<le> ve_first (es ! j)"
proof -
  have "ve_end (es ! i) \<le> ve_first (es ! j)"
    using assms by (simp add: ordered_def sorted_wrt_iff_nth_less)
  then show ?thesis by (simp add: ve_end_def ve_first_def)
qed

lemma wf_entry_bounds:
  "wf_entry e \<Longrightarrow> 0 < ve_end e \<and> ve_first e \<le> PAGE_LIMIT \<and> ve_end e \<le> PAGE_LIMIT"
  by (simp add: wf_entry_def ve_end_def ve_first_def)

lemma no_entries: "wf_vmmap self \<Longrightarrow> vm_nvalid self = 0 \<Longrightarrow> \<not> gap self n q"
  by (simp add: gap_def vm_page_def)

lemma FindSpace_best:
  assumes wf: "wf_vmmap self" and n: "0 < unat num_pages"
  shows "\<exists>r self'. NaClVmmapFindSpace self num_pages = Inr (r, self') \<and> wf_vmmap self' \<and>
    (\<forall>p. vm_page self' p = vm_page self p) \<and>
    (if r = 0 then \<forall>q. \<not> gap self (unat num_pages) q
     else gap self (unat num_pages) (unat r) \<and> (\<forall>q. gap self (unat num_pages) q \<longrightarrow> q \<le> unat r))"
proof (cases "vm_nvalid self = 0")
  case False
  obtain s es where s: "NaClVmmapMakeSorted self = Inr s" "entries s es" "wf_entries es" "ordered es"
    "\<forall>e\<in>set es. wf_entry e" "wf_vmmap s" "\<forall>p. vm_page s p = vm_page self p" "vm_nvalid s = length es"
    using search_start [OF wf] by blast
  have g: "gap self (unat num_pages) q \<longleftrightarrow> (\<exists>i. 0 < i \<and> i < length es \<and>
      ve_end (es ! (i - 1)) \<le> q \<and> q + unat num_pages \<le> ve_first (es ! i))" for q
    using gap_between [OF s(2,3,4) n, of q] gap_cong [OF s(7)] by (simp add: between_def)
  have b: "0 < ve_end (es ! (i - 1)) \<and> ve_first (es ! i) \<le> PAGE_LIMIT" if "0 < i" "i < length es" for i
    using that s(5) wf_entry_bounds by (metis less_imp_diff_less nth_mem)
  let ?r = "opt_word (top_gap (\<lambda>i. ve_end (es ! (i - 1))) (\<lambda>i. ve_first (es ! i)) (unat num_pages) (length es))"
  note t = top_gap_best [OF g ve_first_mono [OF s(4)] b refl]
  have "NaClVmmapFindSpace self num_pages = Inr (?r, s)"
    using False s(1,8) find_space_loop_eq [OF s(2,5,4)] by (simp add: NaClVmmapFindSpace_def)
  then show ?thesis using s(6,7) t by (intro exI [of _ ?r] exI [of _ s] conjI)
qed (use wf no_entries in \<open>simp add: NaClVmmapFindSpace_def\<close>)

text \<open>A gap for \<open>mmap\<close> starts at an allocation boundary.\<close>

definition map_gap :: "NaClVmmap \<Rightarrow> nat \<Rightarrow> nat \<Rightarrow> bool" where
  "map_gap self n q \<longleftrightarrow> 16 dvd q \<and> gap self (round_up n 16) q"

lemma round_up_le_iff: "k dvd q \<Longrightarrow> 0 < k \<Longrightarrow> round_up n k \<le> q \<longleftrightarrow> n \<le> q"
  by (meson le_trans round_up_ge round_up_least)

lemma le_trunc_iff:
  assumes "k dvd (m :: nat)" "0 < k"
  shows "m \<le> x div k * k \<longleftrightarrow> m \<le> x"
proof -
  obtain c where c: "m = c * k" using assms(1) by (metis dvd_def mult.commute)
  show ?thesis using assms(2) by (simp add: c less_eq_div_iff_mult_less_eq)
qed

definition win_lo :: "NaClVmmapEntry list \<Rightarrow> nat \<Rightarrow> nat" where
  "win_lo es i = round_up (ve_end (es ! (i - 1))) 16"

definition win_hi :: "NaClVmmapEntry list \<Rightarrow> nat \<Rightarrow> nat" where
  "win_hi es i = ve_first (es ! i) div 16 * 16"

lemma map_gap_windows:
  assumes "entries s es" "wf_entries es" "ordered es" "0 < n"
  shows "map_gap s n q \<longleftrightarrow> 16 dvd q \<and> (\<exists>i. 0 < i \<and> i < length es \<and> win_lo es i \<le> q \<and> q + round_up n 16 \<le> win_hi es i)"
proof (cases "16 dvd q")
  case True
  have pos: "0 < round_up n 16" using round_up_ge [of 16 n] assms(4) by simp
  have d: "16 dvd q + round_up n 16" using True round_up_dvd by simp
  have "between es (round_up n 16) q i \<longleftrightarrow> win_lo es i \<le> q \<and> q + round_up n 16 \<le> win_hi es i" for i
    using round_up_le_iff [OF True] le_trunc_iff [OF d] by (simp add: between_def win_lo_def win_hi_def)
  then show ?thesis using gap_between [OF assms(1-3) pos] True by (simp add: map_gap_def)
qed (simp add: map_gap_def)

text \<open>The words of one step of the two searches for \<open>mmap\<close>.\<close>

lemma win_words:
  assumes "entries s es" "\<forall>e\<in>set es. wf_entry e" "0 < k" "k < length es"
  defines "a \<equiv> es ! (k - 1)" and "b \<equiv> es ! k"
  shows "vmentry_at s (k - Suc 0) = Inr a" "vmentry_at s k = Inr b"
    and "unat (NaClRoundPageNumUpToMapMultiple (ve_page_num a + ve_npages a)) = win_lo es k"
    and "unat (NaClTruncPageNumDownToMapMultiple (ve_page_num b)) = win_hi es k"
    and "win_hi es k \<le> PAGE_LIMIT"
proof -
  show "vmentry_at s (k - Suc 0) = Inr a" "vmentry_at s k = Inr b"
    using vmentry_at_entries [OF assms(1)] assms(3,4) by (simp_all add: a_def b_def)
  have wf: "wf_entry a" "wf_entry b" using assms(2-4) by (simp_all add: a_def b_def)
  show "unat (NaClRoundPageNumUpToMapMultiple (ve_page_num a + ve_npages a)) = win_lo es k"
    using wf_entry_bounds [OF wf(1)] ve_end_word [OF wf(1)]
    by (subst unat_NaClRoundPageNumUpToMapMultiple) (simp_all add: win_lo_def a_def PAGE_LIMIT_def)
  show "unat (NaClTruncPageNumDownToMapMultiple (ve_page_num b)) = win_hi es k"
    by (simp add: unat_NaClTruncPageNumDownToMapMultiple win_hi_def ve_first_def b_def)
  have "win_hi es k \<le> ve_first b" by (simp add: win_hi_def b_def)
  then show "win_hi es k \<le> PAGE_LIMIT" using wf_entry_bounds [OF wf(2)] by linarith
qed

lemma find_map_space_loop_eq:
  assumes "entries s es" "\<forall>e\<in>set es. wf_entry e" "0 < unat n"
  shows "k \<le> length es \<Longrightarrow> find_map_space_loop s n k =
    Inr (opt_word (top_gap (win_lo es) (win_hi es) (unat n) k))"
proof (induction k)
  case (Suc k)
  show ?case
  proof (cases "k = 0")
    case False
    note w = win_words [OF assms(1,2), of k]
    let ?A = "NaClRoundPageNumUpToMapMultiple (ve_page_num (es ! (k - 1)) + ve_npages (es ! (k - 1)))"
    let ?B = "NaClTruncPageNumDownToMapMultiple (ve_page_num (es ! k))"
    have le: "?B \<le> ?A \<longleftrightarrow> win_hi es k \<le> win_lo es k" using w False Suc.prems by (simp add: word_le_nat_alt)
    show ?thesis
    proof (cases "win_hi es k \<le> win_lo es k")
      case True
      then have "\<not> win_lo es k + unat n \<le> win_hi es k" using assms(3) by linarith
      then show ?thesis using Suc False w(1,2) le True
        by (simp add: Let_def NACL_MAP_PAGESHIFT_def NACL_PAGESHIFT_def)
    next
      case lt: False
      then have "unat ?A \<le> unat ?B" using w False Suc.prems by simp
      note wg = word_gap [OF this, of n]
      show ?thesis using Suc False w lt le wg
        by (simp add: Let_def NACL_MAP_PAGESHIFT_def NACL_PAGESHIFT_def opt_word_def)
    qed
  qed (simp add: opt_word_def)
qed (simp add: opt_word_def)

lemma win_hi_mono: "ordered es \<Longrightarrow> i < j \<Longrightarrow> j < length es \<Longrightarrow> win_hi es i \<le> win_hi es j"
  unfolding win_hi_def by (intro mult_le_mono1 div_le_mono ve_first_mono)

lemma win_lo_pos: "\<forall>e\<in>set es. wf_entry e \<Longrightarrow> 0 < i \<Longrightarrow> i < length es \<Longrightarrow> 0 < win_lo es i"
  using round_up_ge [of 16 "ve_end (es ! (i - 1))"] wf_entry_bounds [of "es ! (i - 1)"]
  by (fastforce simp: win_lo_def)

lemma win_dvd: "16 dvd win_lo es i" "16 dvd win_hi es i"
  by (simp_all add: win_lo_def win_hi_def round_up_dvd)

lemma FindMapSpace_best:
  assumes wf: "wf_vmmap self" and n: "0 < unat num_pages" "unat num_pages + 15 < 2 ^ 64"
  shows "\<exists>r self'. NaClVmmapFindMapSpace self num_pages = Inr (r, self') \<and> wf_vmmap self' \<and>
    (\<forall>p. vm_page self' p = vm_page self p) \<and>
    (if r = 0 then \<forall>q. \<not> map_gap self (unat num_pages) q
     else map_gap self (unat num_pages) (unat r) \<and> (\<forall>q. map_gap self (unat num_pages) q \<longrightarrow> q \<le> unat r))"
proof (cases "vm_nvalid self = 0")
  case False
  obtain s es where s: "NaClVmmapMakeSorted self = Inr s" "entries s es" "wf_entries es" "ordered es"
    "\<forall>e\<in>set es. wf_entry e" "wf_vmmap s" "\<forall>p. vm_page s p = vm_page self p" "vm_nvalid s = length es"
    using search_start [OF wf] by blast
  define m where "m = NaClRoundPageNumUpToMapMultiple num_pages"
  have m: "unat m = round_up (unat num_pages) 16"
    using unat_NaClRoundPageNumUpToMapMultiple [OF n(2)] by (simp add: m_def)
  have mpos: "0 < unat m" using m n round_up_ge [of 16 "unat num_pages"] by simp
  define r where "r = opt_word (top_gap (win_lo es) (win_hi es) (unat m) (length es))"
  define W where "W q \<longleftrightarrow> (\<exists>i. 0 < i \<and> i < length es \<and> win_lo es i \<le> q \<and> q + unat m \<le> win_hi es i)" for q
  have g: "map_gap self (unat num_pages) q \<longleftrightarrow> 16 dvd q \<and> W q" for q
    using map_gap_windows [OF s(2-4) n(1), of q] gap_cong [OF s(7)] m by (simp add: W_def map_gap_def)
  have b: "0 < win_lo es i \<and> win_hi es i \<le> PAGE_LIMIT" if "0 < i" "i < length es" for i
    using win_lo_pos [OF s(5) that] win_words(5) [OF s(2,5) that] by simp
  have t: "if r = 0 then \<forall>q. \<not> W q else W (unat r) \<and> (\<forall>q. W q \<longrightarrow> q \<le> unat r)"
    by (rule top_gap_best [OF W_def win_hi_mono [OF s(4)] b r_def])
  have "16 dvd unat r" if "r \<noteq> 0"
  proof (cases "top_gap (win_lo es) (win_hi es) (unat m) (length es)")
    case (Some q)
    obtain i where i: "0 < i" "i < length es" "q + unat m = win_hi es i"
      using top_gap_Some [OF Some win_hi_mono [OF s(4)]] by blast
    have "q < 2 ^ 64" using i b [OF i(1,2)] by (simp add: PAGE_LIMIT_def)
    then have "unat r = q" using Some by (simp add: r_def opt_word_def unat_of_nat)
    then show ?thesis using i(3) win_dvd(2) [of es i] m round_up_dvd
      by (metis dvd_add_left_iff)
  qed (use that in \<open>simp add: r_def opt_word_def\<close>)
  moreover have "NaClVmmapFindMapSpace self num_pages = Inr (r, s)"
    using False s(1,8) find_map_space_loop_eq [OF s(2,5) mpos]
    by (simp add: NaClVmmapFindMapSpace_def r_def flip: m_def)
  ultimately show ?thesis using s(6,7) t g by (intro exI [of _ r] exI [of _ s] conjI) (auto split: if_splits)
next
  case True
  then show ?thesis using wf no_entries by (simp add: NaClVmmapFindMapSpace_def map_gap_def)
qed

text \<open>The search upwards from the hint: the first window whose part at or above the hint is
  large enough.\<close>

definition first_gap :: "(nat \<Rightarrow> nat) \<Rightarrow> (nat \<Rightarrow> nat) \<Rightarrow> nat \<Rightarrow> nat list \<Rightarrow> nat option" where
  "first_gap lo hi n is = map_option lo (find (\<lambda>i. lo i + n \<le> hi i) is)"

lemma first_gap_upt:
  "first_gap lo hi n [i..<k] =
     (if i < k then if lo i + n \<le> hi i then Some (lo i) else first_gap lo hi n [Suc i..<k] else None)"
  by (subst upt_rec) (simp add: first_gap_def)

lemma find_above_hint_loop_eq:
  assumes "entries s es" "\<forall>e\<in>set es. wf_entry e" "0 < unat n"
  shows "0 < i \<Longrightarrow> find_above_hint_loop s usr n i =
    Inr (opt_word (first_gap (\<lambda>i. max (win_lo es i) (unat usr)) (win_hi es) (unat n) [i..<length es]))"
proof (induction "length es - i" arbitrary: i)
  case 0
  then show ?case using assms(1)
    by (subst find_above_hint_loop.simps) (simp add: entries_def first_gap_def opt_word_def)
next
  case (Suc d)
  then have i: "0 < i" "i < length es" by simp_all
  have IH: "find_above_hint_loop s usr n (Suc i) =
    Inr (opt_word (first_gap (\<lambda>i. max (win_lo es i) (unat usr)) (win_hi es) (unat n) [Suc i..<length es]))"
    using Suc by simp
  note w = win_words [OF assms(1,2) i]
  let ?A = "NaClRoundPageNumUpToMapMultiple (ve_page_num (es ! (i - 1)) + ve_npages (es ! (i - 1)))"
  let ?B = "NaClTruncPageNumDownToMapMultiple (ve_page_num (es ! i))"
  let ?E = "if ?A \<le> usr \<and> usr < ?B then usr else ?A"
  have len: "i < vm_nvalid s" using assms(1) i by (simp add: entries_def)
  have "find_above_hint_loop s usr n i =
    (if ?B \<le> ?A then find_above_hint_loop s usr n (Suc i)
     else if usr \<le> ?E \<and> ?B - ?E \<ge> n then Inr ?E else find_above_hint_loop s usr n (Suc i))"
    using w(1,2) i(1) len
    by (subst find_above_hint_loop.simps) (auto simp: Let_def NACL_MAP_PAGESHIFT_def NACL_PAGESHIFT_def)
  moreover let ?c = "if ?B \<le> ?A then False else usr \<le> ?E \<and> ?B - ?E \<ge> n"
  let ?d = "max (win_lo es i) (unat usr) + unat n \<le> win_hi es i"
  have "?c \<longleftrightarrow> ?d"
    and "?c \<Longrightarrow> ?E = of_nat (max (win_lo es i) (unat usr))"
  proof -
    have le: "?B \<le> ?A \<longleftrightarrow> win_hi es i \<le> win_lo es i" "?A \<le> usr \<longleftrightarrow> win_lo es i \<le> unat usr"
      "usr < ?B \<longleftrightarrow> unat usr < win_hi es i" "usr \<le> ?A \<longleftrightarrow> unat usr \<le> win_lo es i"
      using w by (simp_all add: word_le_nat_alt word_less_nat_alt)
    have dA: "n \<le> ?B - ?A \<longleftrightarrow> win_lo es i + unat n \<le> win_hi es i" if "win_lo es i \<le> win_hi es i"
      using word_gap(1) [of ?A ?B n] w that by simp
    have du: "n \<le> ?B - usr \<longleftrightarrow> unat usr + unat n \<le> win_hi es i" if "unat usr \<le> win_hi es i"
      using word_gap(1) [of usr ?B n] w that by simp
    show "?c \<longleftrightarrow> ?d" using assms(3) le dA du by auto
    have eA: "of_nat (win_lo es i) = ?A" by (simp flip: w(3))
    show "?c \<Longrightarrow> ?E = of_nat (max (win_lo es i) (unat usr))"
      using le by (auto simp: max_def eA split: if_splits)
  qed
  ultimately show ?case
    using i IH first_gap_upt [of "\<lambda>i. max (win_lo es i) (unat usr)" "win_hi es" "unat n" i "length es"]
    by (auto simp: opt_word_def split: if_splits)
qed

lemma first_gap_best:
  assumes "\<And>a b. a \<in> set is \<Longrightarrow> b \<in> set is \<Longrightarrow> a < b \<Longrightarrow> lo a \<le> lo b" "sorted_wrt (<) is"
  shows "case first_gap lo hi n is of
      None \<Rightarrow> \<forall>i\<in>set is. \<not> lo i + n \<le> hi i
    | Some q \<Rightarrow> (\<exists>i\<in>set is. q = lo i \<and> lo i + n \<le> hi i) \<and> (\<forall>i\<in>set is. lo i + n \<le> hi i \<longrightarrow> q \<le> lo i)"
  using assms
proof (induction "is")
  case (Cons i "is")
  then show ?case by (auto simp: first_gap_def split: option.splits)
qed (simp add: first_gap_def)

lemma win_lo_mono:
  assumes "ordered es" "\<forall>e\<in>set es. wf_entry e" "0 < i" "i < j" "j < length es"
  shows "win_lo es i \<le> win_lo es j"
proof -
  have "ve_end (es ! (i - 1)) \<le> ve_first (es ! (j - 1))"
    using assms by (simp add: ordered_def sorted_wrt_iff_nth_less)
  then have "ve_end (es ! (i - 1)) \<le> ve_end (es ! (j - 1))" by (simp add: ve_first_def ve_end_def)
  then show ?thesis unfolding win_lo_def round_up_def by (intro mult_le_mono1 div_le_mono) simp
qed

lemma FindMapSpaceAboveHint_best:
  assumes wf: "wf_vmmap self" and n: "0 < unat num_pages" "unat num_pages + 15 < 2 ^ 64"
    and hint: "NaClIsAllocPageMultiple uaddr"
  shows "\<exists>r self'. NaClVmmapFindMapSpaceAboveHint self uaddr num_pages = Inr (r, self') \<and> wf_vmmap self' \<and>
    (\<forall>p. vm_page self' p = vm_page self p) \<and>
    (if r = 0 then \<forall>q. map_gap self (unat num_pages) q \<longrightarrow> q < unat uaddr div 4096
     else map_gap self (unat num_pages) (unat r) \<and> unat uaddr div 4096 \<le> unat r \<and>
       (\<forall>q. map_gap self (unat num_pages) q \<and> unat uaddr div 4096 \<le> q \<longrightarrow> unat r \<le> q))"
proof -
  obtain s es where s: "NaClVmmapMakeSorted self = Inr s" "entries s es" "wf_entries es" "ordered es"
    "\<forall>e\<in>set es. wf_entry e" "wf_vmmap s" "\<forall>p. vm_page s p = vm_page self p" "vm_nvalid s = length es"
    using search_start [OF wf] by blast
  define m where "m = NaClRoundPageNumUpToMapMultiple num_pages"
  have m: "unat m = round_up (unat num_pages) 16"
    using unat_NaClRoundPageNumUpToMapMultiple [OF n(2)] by (simp add: m_def)
  have mpos: "0 < unat m" using m n round_up_ge [of 16 "unat num_pages"] by simp
  define usr where "usr = (drop_bit NACL_PAGESHIFT uaddr :: u64)"
  have usr: "unat usr = unat uaddr div 4096"
    by (simp add: usr_def NACL_PAGESHIFT_def drop_bit_eq_div unat_div)
  have d: "16 dvd unat usr"
  proof -
    from hint have "65536 dvd unat uaddr" by (simp add: NaClIsAllocPageMultiple_iff)
    then obtain c where "unat uaddr = 65536 * c" by auto
    then show ?thesis unfolding usr by simp
  qed
  let ?lo = "\<lambda>i. max (win_lo es i) (unat usr)"
  let ?f = "first_gap ?lo (win_hi es) (unat m) [1..<length es]"
  define r where "r = opt_word ?f"
  have g: "map_gap self (unat num_pages) q \<longleftrightarrow> 16 dvd q \<and>
      (\<exists>i\<in>set [1..<length es]. win_lo es i \<le> q \<and> q + unat m \<le> win_hi es i)" for q
    using map_gap_windows [OF s(2-4) n(1), of q] gap_cong [OF s(7)] m
    by (auto simp: map_gap_def Suc_le_eq Bex_def)
  have run: "NaClVmmapFindMapSpaceAboveHint self uaddr num_pages = Inr (r, s)"
    using s(1) find_above_hint_loop_eq [OF s(2,5) mpos, of 1 usr]
    by (simp add: NaClVmmapFindMapSpaceAboveHint_def r_def flip: m_def usr_def)
  have best: "case ?f of None \<Rightarrow> \<forall>i\<in>set [1..<length es]. \<not> ?lo i + unat m \<le> win_hi es i
    | Some q \<Rightarrow> (\<exists>i\<in>set [1..<length es]. q = ?lo i \<and> ?lo i + unat m \<le> win_hi es i) \<and>
        (\<forall>i\<in>set [1..<length es]. ?lo i + unat m \<le> win_hi es i \<longrightarrow> q \<le> ?lo i)"
  proof (rule first_gap_best)
    show "?lo a \<le> ?lo b" if "a \<in> set [1..<length es]" "b \<in> set [1..<length es]" "a < b" for a b
      using win_lo_mono [OF s(4,5), of a b] that by auto
  qed simp
  have "if r = 0 then \<forall>q. map_gap self (unat num_pages) q \<longrightarrow> q < unat usr
     else map_gap self (unat num_pages) (unat r) \<and> unat usr \<le> unat r \<and>
       (\<forall>q. map_gap self (unat num_pages) q \<and> unat usr \<le> q \<longrightarrow> unat r \<le> q)"
  proof (cases ?f)
    case None
    have "q < unat usr" if mg: "map_gap self (unat num_pages) q" for q
    proof (rule ccontr)
      assume "\<not> q < unat usr"
      moreover obtain i where i: "i \<in> set [1..<length es]" "win_lo es i \<le> q" "q + unat m \<le> win_hi es i"
        using mg g by blast
      moreover have "\<not> ?lo i + unat m \<le> win_hi es i" using best i(1) unfolding None option.case by blast
      ultimately show False by simp
    qed
    then show ?thesis using None by (simp add: r_def opt_word_def)
  next
    case (Some q)
    obtain i where i: "i \<in> set [1..<length es]" "q = ?lo i" "?lo i + unat m \<le> win_hi es i"
      using best Some by auto
    have i': "0 < i" "i < length es" using i(1) by auto
    have "0 < q" "q < 2 ^ 64"
      using i(2,3) win_lo_pos [OF s(5) i'] win_words(5) [OF s(2,5) i'] by (auto simp: PAGE_LIMIT_def)
    then have r: "r \<noteq> 0" "unat r = q" using opt_word_unat [of ?f] Some by (auto simp: r_def)
    have "16 dvd q" unfolding i(2) max_def using d win_dvd(1) by simp
    moreover have "\<exists>i\<in>set [1..<length es]. win_lo es i \<le> q \<and> q + unat m \<le> win_hi es i"
      using i by (intro bexI [of _ i]) simp_all
    ultimately have "map_gap self (unat num_pages) q" unfolding g by blast
    moreover have "q \<le> q'" if "map_gap self (unat num_pages) q'" "unat usr \<le> q'" for q'
    proof -
      obtain j where j: "j \<in> set [1..<length es]" "win_lo es j \<le> q'" "q' + unat m \<le> win_hi es j"
        using \<open>map_gap self (unat num_pages) q'\<close> g by blast
      then have "?lo j \<le> q'" using that(2) by simp
      moreover have "q \<le> ?lo j" using best Some j calculation by auto
      ultimately show ?thesis by (rule le_trans [rotated])
    qed
    ultimately show ?thesis using r i(2) by auto
  qed
  then show ?thesis using s(6,7) run unfolding usr by (intro exI [of _ r] exI [of _ s] conjI)
qed

end
