(* ===== verification/VmmapProps.thy ===== *)
theory VmmapProps
  imports VmmapProt VmmapSearch
begin

text \<open>
  The properties of the memory map: what each operation does to the pages, the invariant of
  every map the operations can build, and the release of every descriptor by the destructor.
\<close>

section \<open>Adding to an unmapped region\<close>

lemma Add_pages:
  assumes wf: "wf_vmmap self" and np: "0 < unat np" and lim: "unat pn + unat np \<le> PAGE_LIMIT"
    and mem: "\<And>n. mem n" and free: "\<forall>p. in_region pn np p \<longrightarrow> vm_page self p = None"
  shows "\<exists>self'. NaClVmmapAdd mem self pn np prot flags desc offset fs = Inr self'
    \<and> wf_vmmap self'
    \<and> (\<forall>p. vm_page self' p = (if in_region pn np p then Some (new_attrs pn prot flags desc offset fs p)
                              else vm_page self p))
    \<and> (\<forall>d. balance self' d = balance self d)"
proof -
  obtain es where es: "entries self es" "wf_entries es" "\<forall>p. size (page_at es p) \<le> 1"
    using wf_vmmap_entries [OF wf] by blast
  define e where "e = \<lparr>ve_page_num = pn, ve_npages = np, ve_prot = prot, ve_flags = flags,
    ve_removed = False, ve_desc = desc, ve_offset = offset, ve_file_size = fs\<rparr>"
  obtain s where s: "NaClVmmapAdd mem self pn np prot flags desc offset fs = Inr s"
    "entries s (es @ [e])" "\<not> vm_is_sorted s" "\<forall>d. balance s d = balance self d"
    using NaClVmmapAdd_ok [where mem = mem and pn = pn and np = np and pr = prot and fl = flags
        and de = desc and off = offset and fs = fs, OF es(1) mem] unfolding e_def by blast
  have cov: "covers e p \<longleftrightarrow> in_region pn np p" for p
    by (simp add: covers_def in_region_def e_def ve_first_def ve_end_def)
  have wfe: "wf_entry e" "\<not> ve_removed e" using np lim by (simp_all add: e_def wf_entry_def ve_end_def)
  have one: "size (page_at es p) \<le> 1" for p using es(3) by simp
  have old: "page_at es p = {#}" if "in_region pn np p" for p
    using vm_page_iff(2) [OF es(1) one] free that by simp
  have pg: "page_at (es @ [e]) p = (if in_region pn np p then {#attrs e p#} else page_at es p)" for p
    using old [of p] wfe by (simp add: cov)
  have one': "size (page_at (es @ [e]) p) \<le> 1" for p using pg [of p] one [of p] by simp
  have "attrs e p = new_attrs pn prot flags desc offset fs p" for p
    by (simp add: e_def attrs_def new_attrs_def)
  moreover have "vm_page s p = (if in_region pn np p then Some (attrs e p) else vm_page self p)" for p
    using vm_page_iff [OF s(2) one', of p] vm_page_cong [OF s(2) es(1), of p] pg [of p] one [of p] by auto
  moreover have "wf_vmmap s"
    using wfe es(2) one' s(3) by (intro wf_vmmap_intro [OF s(2)]) (auto simp: wf_entries_def)
  ultimately show ?thesis using s by (intro exI [of _ s] conjI) simp_all
qed

section \<open>Every map the operations build\<close>

text \<open>The operations on a map that keeps the limits of \<open>sel_ldr\<close>: regions are not empty and end
  below \<open>PAGE_LIMIT\<close>, and \<open>NaClVmmapAdd\<close> is only called on unmapped pages.\<close>

definition region_ok :: "u64 \<Rightarrow> u64 \<Rightarrow> bool" where
  "region_ok pn np \<longleftrightarrow> 0 < unat np \<and> unat pn + unat np \<le> PAGE_LIMIT"

inductive vm_reach :: "(nat \<Rightarrow> bool) \<Rightarrow> (nat \<Rightarrow> u32) \<Rightarrow> NaClVmmap \<Rightarrow> bool"
  for mem GetFlags where
  Ctor: "NaClVmmapCtor mem = Some self \<Longrightarrow> vm_reach mem GetFlags self"
| Add: "vm_reach mem GetFlags self \<Longrightarrow> region_ok pn np \<Longrightarrow> \<forall>p. in_region pn np p \<longrightarrow> vm_page self p = None \<Longrightarrow>
    NaClVmmapAdd mem self pn np prot flags desc offset fs = Inr self' \<Longrightarrow> vm_reach mem GetFlags self'"
| Overwrite: "vm_reach mem GetFlags self \<Longrightarrow> region_ok pn np \<Longrightarrow>
    NaClVmmapAddWithOverwrite mem self pn np prot flags desc offset fs = Inr self' \<Longrightarrow>
    vm_reach mem GetFlags self'"
| Remove: "vm_reach mem GetFlags self \<Longrightarrow> region_ok pn np \<Longrightarrow>
    NaClVmmapRemove mem self pn np = Inr self' \<Longrightarrow> vm_reach mem GetFlags self'"
| ChangeProt: "vm_reach mem GetFlags self \<Longrightarrow> region_ok pn np \<Longrightarrow>
    NaClVmmapChangeProt mem GetFlags self pn np prot = Inr (ok, self') \<Longrightarrow> vm_reach mem GetFlags self'"
| Find: "vm_reach mem GetFlags self \<Longrightarrow> NaClVmmapFindPage self pnum = Inr (r, self') \<Longrightarrow>
    vm_reach mem GetFlags self'"

definition vm_inv :: "NaClVmmap \<Rightarrow> bool" where
  "vm_inv self \<longleftrightarrow> wf_vmmap self \<and> (\<forall>d. balance self d = 0)"

lemma Ctor_inv: "NaClVmmapCtor mem = Some self \<Longrightarrow> vm_inv self"
  by (auto simp: NaClVmmapCtor_def vm_inv_def wf_vmmap_def entries_def wf_entries_def balance_def owned_def
      split: if_splits)

lemma empty_nvalid: "wf_vmmap self \<Longrightarrow> vm_nvalid self = 0 \<Longrightarrow> vm_page self p = None"
  by (simp add: vm_page_def)

lemma MakeSorted_empty:
  assumes "vm_vmentry self = []"
  shows "\<exists>s. NaClVmmapMakeSorted self = Inr s \<and> vm_vmentry s = [] \<and> vm_refs s = vm_refs self"
proof -
  have "qsort_elems NaClVmmapCmpEntries [] = []" by (metis length_0_conv length_qsort)
  with assms show ?thesis by (simp add: NaClVmmapMakeSorted_def NaClVmmapRemoveMarked_def)
qed

lemma Remove_empty:
  assumes "vm_nvalid self = 0" "NaClVmmapRemove mem self pn np = Inr self'"
  shows "vm_vmentry self' = [] \<and> vm_refs self' = vm_refs self"
proof -
  obtain s where s: "NaClVmmapMakeSorted self = Inr s" "vm_vmentry s = []" "vm_refs s = vm_refs self"
    using MakeSorted_empty assms(1) by auto
  have "NaClVmmapUpdate_loop mem pn (pn + np) 0 s = Inr s"
    using s(2) by (subst NaClVmmapUpdate_loop.simps) simp
  then have "NaClVmmapRemove mem self pn np = (if 0 < np then Inr s else Inl CheckFailed)"
    using s by (simp add: NaClVmmapRemove_def NaClVmmapUpdate_def NaClVmmapRemoveMarked_def guardE_def)
  with assms(2) s show ?thesis by (auto split: if_splits)
qed

lemma Remove_inv:
  assumes "vm_inv self" "region_ok pn np" "\<And>n. mem n" "NaClVmmapRemove mem self pn np = Inr self'"
  shows "vm_inv self'"
proof -
  have wf: "wf_vmmap self" and bal: "\<forall>d. balance self d = 0" using assms(1) by (simp_all add: vm_inv_def)
  note R = Remove_pages [where mem = mem, OF wf _ _ assms(3), of np pn]
  consider "vm_nvalid self = 0" | "\<exists>q. \<not> in_region pn np q \<and> vm_page self q \<noteq> None"
    using R(2) assms(2,4) unfolding region_ok_def by fastforce
  then show ?thesis
  proof cases
    case 1
    from Remove_empty [OF 1 assms(4)] bal 1 show ?thesis
      by (auto simp: vm_inv_def wf_vmmap_def entries_def wf_entries_def balance_def)
  next
    case 2
    with R(1) assms(2,4) bal show ?thesis by (auto simp: region_ok_def vm_inv_def)
  qed
qed

lemma ChangeProt_inv:
  assumes "vm_inv self" "region_ok pn np" "\<And>n. mem n" "legal_flags GetFlags"
    "NaClVmmapChangeProt mem GetFlags self pn np prot = Inr (ok, self')"
  shows "vm_inv self'"
proof -
  have wf: "wf_vmmap self" "0 < unat np" "unat pn + unat np \<le> PAGE_LIMIT" and bal: "\<forall>d. balance self d = 0"
    using assms(1,2) by (simp_all add: vm_inv_def region_ok_def)
  show ?thesis
  proof (cases "region_allows GetFlags self pn np prot")
    case True
    from change_prot_pages [where mem = mem, OF wf assms(4,3) True] assms(5) bal show ?thesis
      by (auto simp: vm_inv_def)
  next
    case False
    obtain s where "NaClVmmapCheckExistingMapping GetFlags self pn np prot = Inr (False, s)" "wf_vmmap s"
      "\<forall>d. balance s d = balance self d"
      using check_region [OF wf assms(4), of prot] False by auto
    with assms(5) bal show ?thesis by (simp add: NaClVmmapChangeProt_def vm_inv_def)
  qed
qed

lemma vm_reach_inv:
  assumes "vm_reach mem GetFlags self" "\<And>n. mem n" "legal_flags GetFlags"
  shows "vm_inv self"
  using assms(1)
proof induction
  case (Ctor self)
  then show ?case by (rule Ctor_inv)
next
  case (Add self pn np prot flags desc offset fs self')
  with Add_pages [where mem = mem, OF _ _ _ assms(2), of self np pn prot flags desc offset fs]
  show ?case by (auto simp: vm_inv_def region_ok_def)
next
  case (Overwrite self pn np prot flags desc offset fs self')
  with AddWithOverwrite_pages [where mem = mem, OF _ _ _ assms(2), of self np pn prot flags desc offset fs]
  show ?case by (auto simp: vm_inv_def region_ok_def)
next
  case (Remove self pn np self')
  with Remove_inv assms(2) show ?case by blast
next
  case (ChangeProt self pn np prot ok self')
  with ChangeProt_inv assms(2,3) show ?case by blast
next
  case (Find self pnum r self')
  with FindPage_correct [of self pnum] show ?case by (auto simp: vm_inv_def)
qed

section \<open>The destructor\<close>

lemma owned_Cons: "owned (mset (e # es)) d = (if ve_desc e = Some d then 1 else 0) + owned (mset es) d"
  by (simp add: owned_add_mset)

lemma Dtor_loop_ok:
  assumes "entries self (pre @ es)"
  shows "\<exists>refs'. NaClVmmapDtor_loop self (length pre) refs = Inr refs' \<and>
    (\<forall>d. refs' d = refs d - int (owned (mset es) d))"
  using assms
proof (induction es arbitrary: pre refs)
  case Nil
  then show ?case by (subst NaClVmmapDtor_loop.simps) (simp add: entries_def owned_def)
next
  case (Cons e es)
  have n: "length pre < vm_nvalid self" using Cons.prems by (simp add: entries_def)
  obtain refs' where r: "NaClVmmapDtor_loop self (Suc (length pre)) (NaClVmmapEntryFree refs e) = Inr refs'"
    "\<forall>d. refs' d = NaClVmmapEntryFree refs e d - int (owned (mset es) d)"
    using Cons.IH [of "pre @ [e]" "NaClVmmapEntryFree refs e"] Cons.prems by auto
  have "NaClVmmapDtor_loop self (length pre) refs = Inr refs'"
    using n r(1) entries_at [OF Cons.prems] by (subst NaClVmmapDtor_loop.simps) simp
  moreover have "refs' d = refs d - int (owned (mset (e # es)) d)" for d
    using r(2) by (simp add: owned_add_mset NaClVmmapEntryFree_eq)
  ultimately show ?case by blast
qed

lemma Dtor_ok:
  assumes "wf_vmmap self"
  shows "\<exists>refs. NaClVmmapDtor self = Inr refs \<and> (\<forall>d. refs d = balance self d)"
proof -
  obtain es where es: "entries self es" using assms by (auto simp: wf_vmmap_def)
  have "entries self ([] @ es)" using es by simp
  from Dtor_loop_ok [OF this, of "vm_refs self"] es show ?thesis
    by (simp add: NaClVmmapDtor_def balance_def entries_def)
qed

section \<open>The properties\<close>

text \<open>A map to apply them to: read-only pages 16 to 31 backed by the descriptor 3 (which is open
  for reading), and writable anonymous pages 64 to 79.\<close>

definition sample_map :: NaClVmmap where
  "sample_map = \<lparr>
     vm_vmentry = [
       Some \<lparr>ve_page_num = 64, ve_npages = 16, ve_prot = NACL_ABI_PROT_READ OR NACL_ABI_PROT_WRITE,
             ve_flags = NACL_ABI_MAP_PRIVATE, ve_removed = False, ve_desc = None, ve_offset = 0,
             ve_file_size = 0\<rparr>,
       Some \<lparr>ve_page_num = 16, ve_npages = 16, ve_prot = NACL_ABI_PROT_READ,
             ve_flags = NACL_ABI_MAP_SHARED, ve_removed = False, ve_desc = Some 3, ve_offset = 0,
             ve_file_size = 65536\<rparr>],
     vm_size = 10, vm_is_sorted = False, vm_refs = (\<lambda>d. if d = 3 then 1 else 0)\<rparr>"

lemma sample_entries: "entries sample_map (map the (vm_vmentry sample_map))"
  by (simp add: entries_def sample_map_def)

lemma wf_sample_map: "wf_vmmap sample_map"
  using sample_entries
  by (auto simp: wf_vmmap_def sample_map_def wf_entries_def wf_entry_def ve_end_def ve_first_def covers_def
      PAGE_LIMIT_def intro!: exI)

lemma sample_pages:
  "vm_page sample_map p =
     (if 64 \<le> p \<and> p < 80 then Some (NACL_ABI_PROT_READ OR NACL_ABI_PROT_WRITE, NACL_ABI_MAP_PRIVATE, None,
        push_bit NACL_PAGESHIFT (of_nat p - 64), 0)
      else if 16 \<le> p \<and> p < 32 then Some (NACL_ABI_PROT_READ, NACL_ABI_MAP_SHARED, Some 3,
        push_bit NACL_PAGESHIFT (of_nat p - 16), 65536)
      else None)"
  by (simp add: vm_page_def sample_map_def covers_def ve_end_def ve_first_def attrs_def List.map_filter_simps)

lemma sample_page: "vm_page sample_map p \<noteq> None \<longleftrightarrow> 16 \<le> p \<and> p < 32 \<or> 64 \<le> p \<and> p < 80"
  by (auto simp: sample_pages)

lemma sample_balance: "balance sample_map d = 0"
  by (simp add: balance_def owned_def sample_map_def ents_def)

definition sample_GetFlags :: "nat \<Rightarrow> u32" where
  "sample_GetFlags d = NACL_ABI_O_RDONLY"

lemma legal_sample_flags: "legal_flags sample_GetFlags"
  by (simp add: legal_flags_def sample_GetFlags_def open_consts)

text \<open>C1: \<open>NaClVmmapAddWithOverwrite\<close> gives every page of the new region exactly the new
  attributes, with its own offset in the backing file, keeps every page outside, leaves the map
  well-formed (no page in two regions) and takes one reference to the descriptor for each
  entry it makes.\<close>

theorem overwrite_replaces_region:
  assumes "wf_vmmap self" "0 < unat np" "unat pn + unat np \<le> PAGE_LIMIT" "\<And>n. mem n"
  shows "\<exists>self'. NaClVmmapAddWithOverwrite mem self pn np prot flags desc offset fs = Inr self'
    \<and> wf_vmmap self'
    \<and> (\<forall>p. vm_page self' p = (if in_region pn np p then Some (new_attrs pn prot flags desc offset fs p)
                              else vm_page self p))
    \<and> (\<forall>d. balance self' d = balance self d)"
  by (rule AddWithOverwrite_pages [OF assms])

theorem overwrite_replaces_region_witness:
  "\<exists>self'. NaClVmmapAddWithOverwrite (\<lambda>_. True) sample_map 24 48 1 2 None 0 0 = Inr self' \<and>
     vm_page self' 23 = vm_page sample_map 23 \<and> vm_page self' 64 = Some (1, 2, None, 163840, 0)"
proof -
  obtain s where s: "NaClVmmapAddWithOverwrite (\<lambda>_. True) sample_map 24 48 1 2 None 0 0 = Inr s"
    "\<And>p. vm_page s p = (if in_region 24 48 p then Some (new_attrs 24 1 2 None 0 0 p) else vm_page sample_map p)"
    using overwrite_replaces_region [OF wf_sample_map, of 48 24 "\<lambda>_. True" 1 2 None 0 0]
    by (auto simp: PAGE_LIMIT_def)
  then show ?thesis
    by (simp add: in_region_def new_attrs_def NACL_PAGESHIFT_def push_bit_eq_mult)
qed

text \<open>C5: \<open>NaClVmmapRemove\<close> unmaps exactly the pages of the region and keeps all others, as long as
  a page outside the region stays mapped. When the region covers everything that is mapped the
  compaction of the emptied array reads through a null pointer: the fatal-error check meant for
  this case is not reached.\<close>

theorem remove_unmaps_region:
  assumes "wf_vmmap self" "0 < unat np" "unat pn + unat np \<le> PAGE_LIMIT" "\<And>n. mem n" "vm_nvalid self > 0"
  shows "if \<exists>q. \<not> in_region pn np q \<and> vm_page self q \<noteq> None
    then \<exists>self'. NaClVmmapRemove mem self pn np = Inr self' \<and> wf_vmmap self'
        \<and> (\<forall>p. vm_page self' p = (if in_region pn np p then None else vm_page self p))
        \<and> (\<forall>d. balance self' d = balance self d)
    else NaClVmmapRemove mem self pn np = Inl NullDeref"
proof (cases "\<exists>q. \<not> in_region pn np q \<and> vm_page self q \<noteq> None")
  case True
  show ?thesis unfolding if_P [OF True] by (rule Remove_pages(1) [where mem = mem, OF assms(1-4) True])
next
  case False
  then have "\<forall>q. vm_page self q \<noteq> None \<longrightarrow> in_region pn np q" by blast
  from Remove_pages(2) [where mem = mem, OF assms(1-4,5) this] show ?thesis unfolding if_not_P [OF False] .
qed

theorem remove_unmaps_region_witness:
  "(\<exists>self'. NaClVmmapRemove (\<lambda>_. True) sample_map 20 50 = Inr self' \<and> vm_page self' 69 = None \<and>
     vm_page self' 70 = vm_page sample_map 70) \<and>
   NaClVmmapRemove (\<lambda>_. True) sample_map 16 64 = Inl NullDeref"
proof -
  have n: "vm_nvalid sample_map > 0" by (simp add: sample_map_def)
  have ex: "\<exists>q. \<not> in_region 20 50 q \<and> vm_page sample_map q \<noteq> None"
    by (rule exI [of _ 70]) (simp add: in_region_def sample_pages)
  have no: "\<not> (\<exists>q. \<not> in_region 16 64 q \<and> vm_page sample_map q \<noteq> None)"
    unfolding sample_page by (auto simp: in_region_def)
  note R = remove_unmaps_region [OF wf_sample_map _ _ _ n, where mem = "\<lambda>_. True"]
  have "\<exists>self'. NaClVmmapRemove (\<lambda>_. True) sample_map 20 50 = Inr self' \<and> wf_vmmap self'
        \<and> (\<forall>p. vm_page self' p = (if in_region 20 50 p then None else vm_page sample_map p))"
    using R [of 50 20] ex by (auto simp: PAGE_LIMIT_def)
  moreover have "NaClVmmapRemove (\<lambda>_. True) sample_map 16 64 = Inl NullDeref"
    using R [of 64 16] no by (simp add: PAGE_LIMIT_def)
  ultimately show ?thesis by (auto simp: in_region_def)
qed

text \<open>\<open>NaClVmmapCheckExistingMapping\<close> accepts a region exactly when each of its pages is mapped
  and the requested protection is within what the backing descriptor was opened for, and it
  changes no page.\<close>

theorem check_existing_iff_allowed:
  assumes "wf_vmmap self" "0 < unat np" "unat pn + unat np \<le> PAGE_LIMIT" "legal_flags GetFlags"
  shows "\<exists>s. NaClVmmapCheckExistingMapping GetFlags self pn np prot =
      Inr (\<forall>p. in_region pn np p \<longrightarrow> (\<exists>a. vm_page self p = Some a \<and> prot_allowed GetFlags prot a), s)
    \<and> wf_vmmap s \<and> (\<forall>p. vm_page s p = vm_page self p)"
  using CheckExistingMapping_pages [OF assms] by blast

theorem check_existing_iff_allowed_witness:
  "(\<exists>s. NaClVmmapCheckExistingMapping sample_GetFlags sample_map 16 16 NACL_ABI_PROT_READ = Inr (True, s)) \<and>
   (\<exists>s. NaClVmmapCheckExistingMapping sample_GetFlags sample_map 16 17 NACL_ABI_PROT_READ = Inr (False, s))"
proof -
  note C = check_existing_iff_allowed [OF wf_sample_map _ _ legal_sample_flags, where prot = NACL_ABI_PROT_READ]
  have "\<forall>p. in_region 16 16 p \<longrightarrow>
      (\<exists>a. vm_page sample_map p = Some a \<and> prot_allowed sample_GetFlags NACL_ABI_PROT_READ a)"
    by (auto simp: in_region_def sample_pages prot_allowed_def attrs_max_prot_def sample_GetFlags_def
        map_consts open_consts prot_consts)
  moreover have "\<not> (\<forall>p. in_region 16 17 p \<longrightarrow>
      (\<exists>a. vm_page sample_map p = Some a \<and> prot_allowed sample_GetFlags NACL_ABI_PROT_READ a))"
    by (auto simp: in_region_def sample_pages intro!: exI [of _ 32])
  ultimately show ?thesis
    using C [of 16 16] C [of 17 16] by (auto simp: PAGE_LIMIT_def simp del: split_paired_Ex split_paired_All)
qed

text \<open>C2: \<open>NaClVmmapChangeProt\<close> returns 0 and changes no page when the region is not fully mapped
  with enough rights. Otherwise it returns 1, gives every page of the region the new
  protection, and keeps flags, descriptor and file size there and everything outside. Where the
  region does not start in the middle of an entry the offsets are kept as well.\<close>

theorem change_prot_changes_region:
  assumes "wf_vmmap self" "0 < unat np" "unat pn + unat np \<le> PAGE_LIMIT" "legal_flags GetFlags" "\<And>n. mem n"
  shows "\<exists>ok self'. NaClVmmapChangeProt mem GetFlags self pn np prot = Inr (ok, self') \<and> wf_vmmap self' \<and>
    (ok \<longleftrightarrow> (\<forall>p. in_region pn np p \<longrightarrow> (\<exists>a. vm_page self p = Some a \<and> prot_allowed GetFlags prot a))) \<and>
    (\<forall>p. if ok \<and> in_region pn np p
         then map_option no_offset (vm_page self' p) = map_option (no_offset \<circ> set_prot prot) (vm_page self p) \<and>
              (starts_entry self pn \<longrightarrow> vm_page self' p = map_option (set_prot prot) (vm_page self p))
         else vm_page self' p = vm_page self p)"
proof (cases "region_allows GetFlags self pn np prot")
  case True
  obtain s where s: "NaClVmmapChangeProt mem GetFlags self pn np prot = Inr (True, s)" "wf_vmmap s"
    "\<And>f p. f = no_offset \<or> f = (\<lambda>a. a) \<and> (starts_entry self pn \<or> \<not> in_region pn np p) \<Longrightarrow>
      map_option f (vm_page s p) =
      map_option f (if in_region pn np p then map_option (set_prot prot) (vm_page self p) else vm_page self p)"
    using change_prot_pages [where mem = mem, OF assms(1-5) True] by blast
  show ?thesis
    using s True s(3) [of no_offset] s(3) [of "\<lambda>a. a"] unfolding region_allows_def
    by (intro exI [of _ True] exI [of _ s] conjI) (simp_all add: option.map_ident option.map_comp)
next
  case False
  then show ?thesis
    using ChangeProt_refuses [OF assms(1-4) False, of mem] unfolding region_allows_def
    by (intro exI [of _ False]) (simp del: split_paired_Ex split_paired_All)
qed

theorem change_prot_changes_region_witness:
  "\<exists>self'. NaClVmmapChangeProt (\<lambda>_. True) sample_GetFlags sample_map 16 4 NACL_ABI_PROT_NONE = Inr (True, self') \<and>
     vm_page self' 18 = Some (NACL_ABI_PROT_NONE, NACL_ABI_MAP_SHARED, Some 3, 8192, 65536) \<and>
     vm_page self' 20 = vm_page sample_map 20"
proof -
  have al: "\<forall>p. in_region 16 4 p \<longrightarrow>
      (\<exists>a. vm_page sample_map p = Some a \<and> prot_allowed sample_GetFlags NACL_ABI_PROT_NONE a)"
    by (auto simp: in_region_def sample_pages prot_allowed_def prot_consts)
  have st: "starts_entry sample_map 16"
    by (simp add: starts_entry_def sample_map_def ve_first_def ve_end_def)
  obtain s where s: "NaClVmmapChangeProt (\<lambda>_. True) sample_GetFlags sample_map 16 4 NACL_ABI_PROT_NONE = Inr (True, s)"
    "\<And>p. if in_region 16 4 p then vm_page s p = map_option (set_prot NACL_ABI_PROT_NONE) (vm_page sample_map p)
       else vm_page s p = vm_page sample_map p"
    using change_prot_changes_region [OF wf_sample_map _ _ legal_sample_flags, of 4 16 "\<lambda>_. True" NACL_ABI_PROT_NONE]
      al st by (auto simp: PAGE_LIMIT_def simp del: split_paired_Ex split_paired_All)
  show ?thesis using s(1) s(2) [of 18] s(2) [of 20]
    by (simp add: in_region_def sample_pages set_prot_def NACL_PAGESHIFT_def push_bit_eq_mult)
qed

text \<open>Where the region starts inside an entry the offset recorded for it is wrong: the number of
  pages between the two starts is added to a number of bytes. Protecting pages 20 to 23 of a
  file mapped at page 16 records offset 4 for page 20, which is at offset \<open>4 * 4096\<close>.\<close>

theorem change_prot_unscaled_offset:
  "case NaClVmmapChangeProt (\<lambda>_. True) sample_GetFlags
      \<lparr>vm_vmentry = [Some \<lparr>ve_page_num = 16, ve_npages = 16, ve_prot = NACL_ABI_PROT_READ,
         ve_flags = NACL_ABI_MAP_SHARED, ve_removed = False, ve_desc = Some 3, ve_offset = 0,
         ve_file_size = 65536\<rparr>], vm_size = 10, vm_is_sorted = True, vm_refs = (\<lambda>_. 0)\<rparr>
      20 4 NACL_ABI_PROT_NONE of
    Inr (ok, self') \<Rightarrow> ok \<and> vm_page self' 20 = Some (NACL_ABI_PROT_NONE, NACL_ABI_MAP_SHARED, Some 3, 4, 65536)
  | Inl _ \<Rightarrow> False"
  by (simp add: NaClVmmapChangeProt_def NaClVmmapCheckExistingMapping_def NaClVmmapMakeSorted_def
      check_existing_loop.simps vmentry_at_def NaClVmmapEntryMaxProt_def sample_GetFlags_def map_consts open_consts
      prot_consts change_prot_loop.simps Let_def NaClVmmapAdd_def NaClVmmapEntryMake_def vmentry_set_def
      vm_page_def List.map_filter_simps covers_def ve_first_def ve_end_def attrs_def)

text \<open>\<open>NaClVmmapFindPage\<close> returns the entry that covers the page, and a null pointer exactly when
  the page is not mapped: the binary search works on every well-formed map.\<close>

theorem find_page_iff_mapped:
  assumes "wf_vmmap self"
  shows "\<exists>r self'. NaClVmmapFindPage self pnum = Inr (r, self') \<and> wf_vmmap self' \<and>
    (\<forall>p. vm_page self' p = vm_page self p) \<and>
    (case r of None \<Rightarrow> vm_page self (unat pnum) = None
     | Some e \<Rightarrow> covers e (unat pnum) \<and> vm_page self (unat pnum) = Some (attrs e (unat pnum)))"
  using FindPage_correct [OF assms, of pnum] by blast

theorem find_page_iff_mapped_witness:
  "(\<exists>e self'. NaClVmmapFindPage sample_map 70 = Inr (Some e, self') \<and> covers e 70) \<and>
   (\<exists>self'. NaClVmmapFindPage sample_map 40 = Inr (None, self'))"
proof -
  have u: "unat (70 :: u64) = 70" "unat (40 :: u64) = 40" by simp_all
  have f: "\<exists>r self'. NaClVmmapFindPage sample_map pnum = Inr (r, self') \<and>
      (case r of None \<Rightarrow> vm_page sample_map (unat pnum) = None
       | Some e \<Rightarrow> covers e (unat pnum) \<and> vm_page sample_map (unat pnum) \<noteq> None)" for pnum
  proof -
    obtain r s where "NaClVmmapFindPage sample_map pnum = Inr (r, s)"
      "case r of None \<Rightarrow> vm_page sample_map (unat pnum) = None
       | Some e \<Rightarrow> covers e (unat pnum) \<and> vm_page sample_map (unat pnum) = Some (attrs e (unat pnum))"
      using find_page_iff_mapped [OF wf_sample_map, of pnum] by blast
    then show ?thesis by (intro exI [of _ r] exI [of _ s]) (cases r; simp)
  qed
  obtain r s where "NaClVmmapFindPage sample_map 70 = Inr (r, s)"
    "case r of None \<Rightarrow> vm_page sample_map 70 = None | Some e \<Rightarrow> covers e 70 \<and> vm_page sample_map 70 \<noteq> None"
    using f [of 70] unfolding u by blast
  moreover obtain r' s' where "NaClVmmapFindPage sample_map 40 = Inr (r', s')"
    "case r' of None \<Rightarrow> vm_page sample_map 40 = None | Some e \<Rightarrow> covers e 40 \<and> vm_page sample_map 40 \<noteq> None"
    using f [of 40] unfolding u by blast
  ultimately show ?thesis by (cases r; cases r') (auto simp: sample_pages)
qed

text \<open>C4: \<open>NaClVmmapFindMapSpace\<close> returns the highest page number that starts an aligned gap of
  the size asked for (rounded up to the allocation unit) between mapped pages, and 0 exactly
  when there is no such gap.\<close>

theorem find_map_space_highest_gap:
  assumes "wf_vmmap self" "0 < unat num_pages" "unat num_pages + 15 < 2 ^ 64"
  shows "\<exists>r self'. NaClVmmapFindMapSpace self num_pages = Inr (r, self') \<and> wf_vmmap self' \<and>
    (\<forall>p. vm_page self' p = vm_page self p) \<and>
    (if r = 0 then \<forall>q. \<not> map_gap self (unat num_pages) q
     else map_gap self (unat num_pages) (unat r) \<and> (\<forall>q. map_gap self (unat num_pages) q \<longrightarrow> q \<le> unat r))"
  by (rule FindMapSpace_best [OF assms])

lemma sample_gaps: "map_gap sample_map 10 q \<longleftrightarrow> q = 32 \<or> q = 48"
proof
  assume "map_gap sample_map 10 q"
  then have g: "16 dvd q" "\<And>p. q \<le> p \<Longrightarrow> p < q + 16 \<Longrightarrow> \<not> (16 \<le> p \<and> p < 32 \<or> 64 \<le> p \<and> p < 80)"
    "\<exists>p<q. 16 \<le> p \<and> p < 32 \<or> 64 \<le> p \<and> p < 80" "\<exists>p\<ge>q + 16. 16 \<le> p \<and> p < 32 \<or> 64 \<le> p \<and> p < 80"
    unfolding map_gap_def gap_def sample_page [symmetric] by (auto simp: round_up_def)
  obtain c where c: "q = 16 * c" using g(1) by auto
  have "16 < q" "q + 16 < 80" using g(3,4) by auto
  then have "c = 2 \<or> c = 3" using c g(2) [of 63] by auto
  then show "q = 32 \<or> q = 48" using c by auto
next
  assume q: "q = 32 \<or> q = 48"
  then have "\<forall>p. q \<le> p \<and> p < q + 16 \<longrightarrow> \<not> (16 \<le> p \<and> p < 32 \<or> 64 \<le> p \<and> p < 80)" by auto
  moreover have "\<exists>p<q. 16 \<le> p \<and> p < 32 \<or> 64 \<le> p \<and> p < 80" using q by (intro exI [of _ 20]) auto
  moreover have "\<exists>p\<ge>q + 16. 16 \<le> p \<and> p < 32 \<or> 64 \<le> p \<and> p < 80" using q by (intro exI [of _ 70]) auto
  moreover have "16 dvd q" using q by auto
  ultimately have "16 dvd q \<and> gap sample_map 16 q" unfolding gap_def sample_page [symmetric] by blast
  then show "map_gap sample_map 10 q" by (simp add: map_gap_def round_up_def)
qed

theorem find_map_space_highest_gap_witness:
  "\<exists>self'. NaClVmmapFindMapSpace sample_map 10 = Inr (48, self')"
proof -
  have u: "unat (10 :: u64) = 10" by simp
  obtain r s where r: "NaClVmmapFindMapSpace sample_map 10 = Inr (r, s)"
    "if r = 0 then \<forall>q. \<not> map_gap sample_map 10 q
     else map_gap sample_map 10 (unat r) \<and> (\<forall>q. map_gap sample_map 10 q \<longrightarrow> q \<le> unat r)"
    using find_map_space_highest_gap [OF wf_sample_map, of 10] unfolding u by auto
  then have "unat r = unat (48 :: u64)" unfolding sample_gaps by (auto split: if_splits)
  then show ?thesis using r(1) unat_eqD by blast
qed

text \<open>\<open>NaClVmmapFindMapSpaceAboveHint\<close> returns, for a hint at an allocation boundary, the lowest
  aligned gap of the size asked for at or above the hint, and 0 exactly when there is none.\<close>

theorem find_map_space_above_hint_lowest_gap:
  assumes "wf_vmmap self" "0 < unat num_pages" "unat num_pages + 15 < 2 ^ 64" "NaClIsAllocPageMultiple uaddr"
  shows "\<exists>r self'. NaClVmmapFindMapSpaceAboveHint self uaddr num_pages = Inr (r, self') \<and> wf_vmmap self' \<and>
    (\<forall>p. vm_page self' p = vm_page self p) \<and>
    (if r = 0 then \<forall>q. map_gap self (unat num_pages) q \<longrightarrow> q < unat uaddr div 4096
     else map_gap self (unat num_pages) (unat r) \<and> unat uaddr div 4096 \<le> unat r \<and>
       (\<forall>q. map_gap self (unat num_pages) q \<and> unat uaddr div 4096 \<le> q \<longrightarrow> unat r \<le> q))"
  by (rule FindMapSpaceAboveHint_best [OF assms])

theorem find_map_space_above_hint_lowest_gap_witness:
  "\<exists>self'. NaClVmmapFindMapSpaceAboveHint sample_map 0x10000 10 = Inr (32, self')"
proof -
  have u: "unat (10 :: u64) = 10" "unat (0x10000 :: u64) div 4096 = 16" by simp_all
  have "NaClIsAllocPageMultiple 0x10000" by (simp add: NaClIsAllocPageMultiple_iff)
  then obtain r s where r: "NaClVmmapFindMapSpaceAboveHint sample_map 0x10000 10 = Inr (r, s)"
    "if r = 0 then \<forall>q. map_gap sample_map 10 q \<longrightarrow> q < 16
     else map_gap sample_map 10 (unat r) \<and> 16 \<le> unat r \<and> (\<forall>q. map_gap sample_map 10 q \<and> 16 \<le> q \<longrightarrow> unat r \<le> q)"
    using find_map_space_above_hint_lowest_gap [OF wf_sample_map, of 10 "0x10000"] unfolding u by auto
  then have "unat r = unat (32 :: u64)" unfolding sample_gaps by (auto split: if_splits)
  then show ?thesis using r(1) unat_eqD by blast
qed

text \<open>C3: Every map built from \<open>NaClVmmapCtor\<close> by additions to unmapped regions, overwriting
  additions, removals, protection changes and lookups is well-formed (its regions are not empty, within
  the limit and disjoint), and \<open>NaClVmmapDtor\<close> then drops exactly the references the map
  holds: every descriptor's count returns to what it was.\<close>

theorem reachable_maps_wf_and_balanced:
  assumes "vm_reach mem GetFlags self" "\<And>n. mem n" "legal_flags GetFlags"
  shows "wf_vmmap self \<and> NaClVmmapDtor self = Inr (\<lambda>_. 0)"
proof -
  have inv: "wf_vmmap self" "\<forall>d. balance self d = 0"
    using vm_reach_inv [where mem = mem, OF assms] by (simp_all add: vm_inv_def)
  obtain refs where "NaClVmmapDtor self = Inr refs" "\<forall>d. refs d = balance self d"
    using Dtor_ok [OF inv(1)] by blast
  then have "NaClVmmapDtor self = Inr refs" "refs = (\<lambda>_. 0)" using inv(2) by auto
  then show ?thesis using inv(1) by simp
qed

theorem reachable_maps_wf_and_balanced_witness:
  "\<exists>s. NaClVmmapAdd (\<lambda>_. True) (the (NaClVmmapCtor (\<lambda>_. True))) 16 4 1 1 (Some 3) 0 0 = Inr s \<and>
     vm_refs s 3 = 1 \<and> wf_vmmap s \<and> NaClVmmapDtor s = Inr (\<lambda>_. 0)"
proof -
  define c where "c = the (NaClVmmapCtor (\<lambda>_. True))"
  have c: "NaClVmmapCtor (\<lambda>_. True) = Some c" "vm_vmentry c = []" "vm_size c = 10" "vm_refs c = (\<lambda>_. 0)"
    by (simp_all add: c_def NaClVmmapCtor_def START_ENTRIES_def sizeof_ptr_def)
  obtain s where s: "NaClVmmapAdd (\<lambda>_. True) c 16 4 1 1 (Some 3) 0 0 = Inr s" "vm_refs s 3 = 1"
    using c by (simp add: NaClVmmapAdd_def NaClVmmapEntryMake_def NaClDescRef_def)
  have "vm_reach (\<lambda>_. True) sample_GetFlags s"
  proof (rule vm_reach.Add [OF vm_reach.Ctor [OF c(1)] _ _ s(1)])
    show "region_ok 16 4" by (simp add: region_ok_def PAGE_LIMIT_def)
  qed (simp add: vm_page_def c(2) List.map_filter_simps)
  from reachable_maps_wf_and_balanced [OF this _ legal_sample_flags] s show ?thesis
    unfolding c_def [symmetric] by auto
qed

end
