(* ===== verification/IntervalMultiset.thy ===== *)
theory IntervalMultiset
  imports Prelude
begin

text \<open>
  Multisets of closed intervals (\<open>trusted/interval_multiset\<close>): the interface of
  \<open>nacl_interval_multiset.h\<close> as a locale over the operations of the virtual table, and its
  first implementation, the linked list of \<open>nacl_interval_list.c\<close>.

  An interval is the pair of its two ends, \<open>uint32_t\<close> values. \<open>mem n\<close> says whether
  \<open>malloc\<close> of \<open>n\<close> bytes succeeds.
\<close>

type_synonym interval = "u32 \<times> u32"

definition overlaps :: "u32 \<Rightarrow> u32 \<Rightarrow> interval \<Rightarrow> bool" where
  "overlaps first_val last_val i \<longleftrightarrow> fst i \<le> last_val \<and> first_val \<le> snd i"

section \<open>The interface\<close>

text \<open>The number of intervals a set can hold: the reference counts of the tree are 32 bits wide
  and count both ends.\<close>

definition INTERVAL_LIMIT :: nat where "INTERVAL_LIMIT = 2 ^ 31 - 1"

text \<open>A call a client makes: \<open>Add\<close> and \<open>Remove\<close> as in the virtual table, and a query.\<close>

datatype im_call = AddI u32 u32 | RemoveI u32 u32 | QueryI u32 u32

text \<open>What the calls mean on multisets, with the answers of the queries; \<open>None\<close> where a call
  breaks the contract (an empty interval, one that is not there, one too many).\<close>

fun im_spec :: "interval multiset \<Rightarrow> im_call list \<Rightarrow> (interval multiset \<times> bool list) option" where
  "im_spec M [] = Some (M, [])"
| "im_spec M (AddI f l # cs) =
     (if f \<le> l \<and> size M < INTERVAL_LIMIT then im_spec (add_mset (f, l) M) cs else None)"
| "im_spec M (RemoveI f l # cs) = (if (f, l) \<in># M then im_spec (M - {#(f, l)#}) cs else None)"
| "im_spec M (QueryI f l # cs) =
     (if f \<le> l then map_option (\<lambda>(M', bs). (M', (\<exists>i\<in>#M. overlaps f l i) # bs)) (im_spec M cs) else None)"

fun im_exec :: "('s \<Rightarrow> u32 \<Rightarrow> u32 \<Rightarrow> 's run) \<Rightarrow> ('s \<Rightarrow> u32 \<Rightarrow> u32 \<Rightarrow> 's run) \<Rightarrow> ('s \<Rightarrow> u32 \<Rightarrow> u32 \<Rightarrow> bool)
    \<Rightarrow> 's \<Rightarrow> im_call list \<Rightarrow> ('s \<times> bool list) run" where
  "im_exec add rem ovl s [] = Inr (s, [])"
| "im_exec add rem ovl s (AddI f l # cs) = bindE (add s f l) (\<lambda>s. im_exec add rem ovl s cs)"
| "im_exec add rem ovl s (RemoveI f l # cs) = bindE (rem s f l) (\<lambda>s. im_exec add rem ovl s cs)"
| "im_exec add rem ovl s (QueryI f l # cs) =
     bindE (im_exec add rem ovl s cs) (\<lambda>(s', bs). Inr (s', ovl s f l # bs))"

locale interval_multiset =
  fixes ctor :: "'s"
    and add_interval :: "'s \<Rightarrow> u32 \<Rightarrow> u32 \<Rightarrow> 's run"
    and remove_interval :: "'s \<Rightarrow> u32 \<Rightarrow> u32 \<Rightarrow> 's run"
    and overlaps_with :: "'s \<Rightarrow> u32 \<Rightarrow> u32 \<Rightarrow> bool"
    and holds :: "'s \<Rightarrow> interval multiset \<Rightarrow> bool"
  assumes holds_ctor: "holds ctor {#}"
    and holds_add: "\<lbrakk>holds s M; f \<le> l; size M < INTERVAL_LIMIT\<rbrakk> \<Longrightarrow>
      \<exists>s'. add_interval s f l = Inr s' \<and> holds s' (add_mset (f, l) M)"
    and holds_remove: "\<lbrakk>holds s M; (f, l) \<in># M\<rbrakk> \<Longrightarrow>
      \<exists>s'. remove_interval s f l = Inr s' \<and> holds s' (M - {#(f, l)#})"
    and holds_overlaps: "\<lbrakk>holds s M; f \<le> l\<rbrakk> \<Longrightarrow> overlaps_with s f l \<longleftrightarrow> (\<exists>i\<in>#M. overlaps f l i)"
begin

text \<open>Every run within the contract returns and gives the answers of the multiset.\<close>

lemma exec_refines_spec:
  "holds s M \<Longrightarrow> im_spec M cs = Some (M', bs) \<Longrightarrow>
     \<exists>s'. im_exec add_interval remove_interval overlaps_with s cs = Inr (s', bs) \<and> holds s' M'"
proof (induction M cs arbitrary: s bs rule: im_spec.induct)
  case (2 M f l cs)
  then have ok: "f \<le> l" "size M < INTERVAL_LIMIT" and rest: "im_spec (add_mset (f, l) M) cs = Some (M', bs)"
    by (auto split: if_splits)
  obtain t where t: "add_interval s f l = Inr t" "holds t (add_mset (f, l) M)"
    using holds_add [OF 2(2) ok] by blast
  from 2(1) [OF _ t(2) rest] ok t(1) show ?case by simp
next
  case (3 M f l cs)
  then have ok: "(f, l) \<in># M" and rest: "im_spec (M - {#(f, l)#}) cs = Some (M', bs)"
    by (auto split: if_splits)
  obtain t where t: "remove_interval s f l = Inr t" "holds t (M - {#(f, l)#})"
    using holds_remove [OF 3(2) ok] by blast
  from 3(1) [OF ok t(2) rest] t(1) show ?case by simp
next
  case (4 M f l cs)
  then obtain bs' where r: "f \<le> l" "im_spec M cs = Some (M', bs')" "bs = (\<exists>i\<in>#M. overlaps f l i) # bs'"
    by (auto split: if_splits)
  with 4(1) [OF r(1) 4(2) r(2)] holds_overlaps [OF 4(2) r(1)] show ?case by auto
qed simp

lemma fresh_exec:
  "im_spec {#} cs = Some (M', bs) \<Longrightarrow>
     \<exists>s'. im_exec add_interval remove_interval overlaps_with ctor cs = Inr (s', bs) \<and> holds s' M'"
  by (rule exec_refines_spec [OF holds_ctor])

end

section \<open>The linked list\<close>

record NaClIntervalNode =
  range_left :: u32
  range_right :: u32

type_synonym NaClIntervalListMultiset = "NaClIntervalNode list"

definition sizeof_NaClIntervalNode :: nat where "sizeof_NaClIntervalNode = 16"

definition NaClIntervalListMultisetCtor :: NaClIntervalListMultiset where
  "NaClIntervalListMultisetCtor = []"

text \<open>The destructor frees the nodes one by one and leaves the empty list.\<close>

fun NaClIntervalListMultisetDtor :: "NaClIntervalListMultiset \<Rightarrow> NaClIntervalListMultiset" where
  "NaClIntervalListMultisetDtor [] = []"
| "NaClIntervalListMultisetDtor (interval # next_interval) = NaClIntervalListMultisetDtor next_interval"

definition NaClIntervalListMultisetAddInterval ::
  "(nat \<Rightarrow> bool) \<Rightarrow> NaClIntervalListMultiset \<Rightarrow> u32 \<Rightarrow> u32 \<Rightarrow> NaClIntervalListMultiset run" where
  "NaClIntervalListMultisetAddInterval mem self first_val last_val =
     (if \<not> mem sizeof_NaClIntervalNode then Inl LogFatal
      else Inr (\<lparr>range_left = first_val, range_right = last_val\<rparr> # self))"

fun NaClIntervalListMultisetRemoveInterval ::
  "NaClIntervalListMultiset \<Rightarrow> u32 \<Rightarrow> u32 \<Rightarrow> NaClIntervalListMultiset run" where
  "NaClIntervalListMultisetRemoveInterval [] first_val last_val = Inl LogFatal"
| "NaClIntervalListMultisetRemoveInterval (p # ps) first_val last_val =
     (if range_left p = first_val \<and> last_val = range_right p then Inr ps
      else bindE (NaClIntervalListMultisetRemoveInterval ps first_val last_val) (\<lambda>ps. Inr (p # ps)))"

fun NaClIntervalListMultisetOverlapsWith :: "NaClIntervalListMultiset \<Rightarrow> u32 \<Rightarrow> u32 \<Rightarrow> bool" where
  "NaClIntervalListMultisetOverlapsWith [] first_val last_val = False"
| "NaClIntervalListMultisetOverlapsWith (p # ps) first_val last_val =
     (if range_left p \<le> last_val \<and> first_val \<le> range_right p then True
      else NaClIntervalListMultisetOverlapsWith ps first_val last_val)"

definition list_holds :: "NaClIntervalListMultiset \<Rightarrow> interval multiset \<Rightarrow> bool" where
  "list_holds self M \<longleftrightarrow> image_mset (\<lambda>p. (range_left p, range_right p)) (mset self) = M"

lemma list_remove_ok:
  "(f, l) \<in> (\<lambda>p. (range_left p, range_right p)) ` set self \<Longrightarrow>
   \<exists>s. NaClIntervalListMultisetRemoveInterval self f l = Inr s \<and>
     image_mset (\<lambda>p. (range_left p, range_right p)) (mset s) =
     image_mset (\<lambda>p. (range_left p, range_right p)) (mset self) - {#(f, l)#}"
proof (induction self)
  case (Cons p ps)
  show ?case
  proof (cases "range_left p = f \<and> l = range_right p")
    case False
    then have "(f, l) \<in> (\<lambda>p. (range_left p, range_right p)) ` set ps" using Cons.prems by auto
    then obtain s where s: "NaClIntervalListMultisetRemoveInterval ps f l = Inr s"
      "image_mset (\<lambda>p. (range_left p, range_right p)) (mset s) =
       image_mset (\<lambda>p. (range_left p, range_right p)) (mset ps) - {#(f, l)#}" using Cons.IH by blast
    have "(f, l) \<noteq> (range_left p, range_right p)" using False by auto
    from diff_union_swap [OF this] have "image_mset (\<lambda>p. (range_left p, range_right p)) (mset (p # s)) =
        image_mset (\<lambda>p. (range_left p, range_right p)) (mset (p # ps)) - {#(f, l)#}"
      unfolding mset.simps image_mset_add_mset s(2) .
    moreover have "NaClIntervalListMultisetRemoveInterval (p # ps) f l = Inr (p # s)"
      using s(1) False by auto
    ultimately show ?thesis by blast
  qed simp
qed simp

lemma list_remove_missing:
  "(f, l) \<notin> (\<lambda>p. (range_left p, range_right p)) ` set self \<Longrightarrow>
   NaClIntervalListMultisetRemoveInterval self f l = Inl LogFatal"
  by (induction self) auto

lemma list_overlaps_iff:
  "NaClIntervalListMultisetOverlapsWith self f l \<longleftrightarrow>
     (\<exists>p\<in>set self. overlaps f l (range_left p, range_right p))"
  by (induction self) (auto simp: overlaps_def)

interpretation il: interval_multiset NaClIntervalListMultisetCtor
  "NaClIntervalListMultisetAddInterval (\<lambda>_. True)" NaClIntervalListMultisetRemoveInterval
  NaClIntervalListMultisetOverlapsWith list_holds
proof unfold_locales
  show "list_holds NaClIntervalListMultisetCtor {#}"
    by (simp add: list_holds_def NaClIntervalListMultisetCtor_def)
  show "\<exists>s'. NaClIntervalListMultisetAddInterval (\<lambda>_. True) s f l = Inr s' \<and> list_holds s' (add_mset (f, l) M)"
    if "list_holds s M" for s M f l
    using that by (simp add: list_holds_def NaClIntervalListMultisetAddInterval_def)
  show "\<exists>s'. NaClIntervalListMultisetRemoveInterval s f l = Inr s' \<and> list_holds s' (M - {#(f, l)#})"
    if "list_holds s M" "(f, l) \<in># M" for s M f l
    using list_remove_ok [of f l s] that by (auto simp: list_holds_def)
  show "NaClIntervalListMultisetOverlapsWith s f l \<longleftrightarrow> (\<exists>i\<in>#M. overlaps f l i)"
    if "list_holds s M" for s M f l
    using that by (auto simp: list_holds_def list_overlaps_iff)
qed

lemma list_Dtor [simp]: "NaClIntervalListMultisetDtor self = []"
  by (induction self) auto

end
