(* ===== verification/RangeTree.thy ===== *)
theory RangeTree
  imports IntervalMultiset
begin

text \<open>
  The second implementation of interval multisets: the AVL tree of end points of
  \<open>nacl_interval_range_tree.c\<close>. A node carries the number of intervals that start there less
  the number that end there, and the sum of these numbers over its subtree, so that a walk
  from the root counts the intervals around a point.

  A subtree pointer \<open>*treep\<close> is a tree; an update through it returns the new tree. A null
  pointer is \<open>Leaf\<close>. The three 32-bit counters are words: additions wrap.
\<close>

section \<open>Nodes\<close>

record NaClIntervalRangeTreeNode =
  rn_balance :: int
  rn_value :: u32
  rn_value_containment_delta :: u32
  rn_refcount :: u32
  rn_range_left :: u32
  rn_range_right :: u32
  rn_subtree_containment_delta :: u32

datatype range_tree = Leaf | Node range_tree NaClIntervalRangeTreeNode range_tree

definition sizeof_NaClIntervalRangeTreeNode :: nat where "sizeof_NaClIntervalRangeTreeNode = 48"

definition NaClIntervalRangeTreeNodeInit :: "u32 \<Rightarrow> int \<Rightarrow> NaClIntervalRangeTreeNode" where
  "NaClIntervalRangeTreeNodeInit value lr =
     \<lparr>rn_balance = 0, rn_value = value, rn_value_containment_delta = of_int lr, rn_refcount = 1,
      rn_range_left = value, rn_range_right = value, rn_subtree_containment_delta = of_int lr\<rparr>"

definition NaClIntervalRangeTreeNodeFactory ::
  "(nat \<Rightarrow> bool) \<Rightarrow> u32 \<Rightarrow> int \<Rightarrow> NaClIntervalRangeTreeNode run" where
  "NaClIntervalRangeTreeNodeFactory mem value lr =
     (if \<not> mem sizeof_NaClIntervalRangeTreeNode then Inl LogFatal
      else Inr (NaClIntervalRangeTreeNodeInit value lr))"

text \<open>\<open>NaClRangeStatsUpdate l n r\<close> is the node \<open>n\<close> with the children \<open>l\<close> and \<open>r\<close> after the
  call on it.\<close>

definition NaClRangeStatsUpdate ::
  "range_tree \<Rightarrow> NaClIntervalRangeTreeNode \<Rightarrow> range_tree \<Rightarrow> range_tree" where
  "NaClRangeStatsUpdate l node r =
     (let (range_left, cumulative_delta) =
            (case l of Leaf \<Rightarrow> (rn_value node, rn_value_containment_delta node)
             | Node _ ln _ \<Rightarrow> (rn_range_left ln,
                 rn_value_containment_delta node + rn_subtree_containment_delta ln));
          (range_right, cumulative_delta) =
            (case r of Leaf \<Rightarrow> (rn_value node, cumulative_delta)
             | Node _ rn _ \<Rightarrow> (rn_range_right rn, cumulative_delta + rn_subtree_containment_delta rn))
      in Node l (node\<lparr>rn_range_left := range_left, rn_range_right := range_right,
                      rn_subtree_containment_delta := cumulative_delta\<rparr>) r)"

section \<open>Insertion\<close>

text \<open>The rotations after the left (right) subtree of \<open>tmp\<close> grew beyond the balance criterion:
  the single rotation L (R) or the double rotation LR (RL) of the code's comments.\<close>

definition insert_pivot_left ::
  "range_tree \<Rightarrow> NaClIntervalRangeTreeNode \<Rightarrow> range_tree \<Rightarrow> (range_tree \<times> bool) run" where
  "insert_pivot_left l tmp r =
     (case l of Leaf \<Rightarrow> Inl NullDeref
      | Node a b c \<Rightarrow>
          if rn_balance b = -1 then
            Inr (NaClRangeStatsUpdate a (b\<lparr>rn_balance := 0\<rparr>)
                   (NaClRangeStatsUpdate c (tmp\<lparr>rn_balance := 0\<rparr>) r), False)
          else case c of Leaf \<Rightarrow> Inl NullDeref
            | Node tmp_l d tmp_r \<Rightarrow>
                Inr (NaClRangeStatsUpdate
                       (NaClRangeStatsUpdate a
                          (b\<lparr>rn_balance := if rn_balance d \<le> 0 then 0 else -1\<rparr>) tmp_l)
                       (d\<lparr>rn_balance := 0\<rparr>)
                       (NaClRangeStatsUpdate tmp_r
                          (tmp\<lparr>rn_balance := if rn_balance d \<ge> 0 then 0 else 1\<rparr>) r), False))"

definition insert_pivot_right ::
  "range_tree \<Rightarrow> NaClIntervalRangeTreeNode \<Rightarrow> range_tree \<Rightarrow> (range_tree \<times> bool) run" where
  "insert_pivot_right l tmp r =
     (case r of Leaf \<Rightarrow> Inl NullDeref
      | Node c d e \<Rightarrow>
          if rn_balance d = 1 then
            Inr (NaClRangeStatsUpdate (NaClRangeStatsUpdate l (tmp\<lparr>rn_balance := 0\<rparr>) c)
                   (d\<lparr>rn_balance := 0\<rparr>) e, False)
          else case c of Leaf \<Rightarrow> Inl NullDeref
            | Node tmp_l m tmp_r \<Rightarrow>
                Inr (NaClRangeStatsUpdate
                       (NaClRangeStatsUpdate l
                          (tmp\<lparr>rn_balance := if rn_balance m \<le> 0 then 0 else -1\<rparr>) tmp_l)
                       (m\<lparr>rn_balance := 0\<rparr>)
                       (NaClRangeStatsUpdate tmp_r
                          (d\<lparr>rn_balance := if rn_balance m \<ge> 0 then 0 else 1\<rparr>) e), False))"

fun NaClAvlTreeInsert :: "range_tree \<Rightarrow> NaClIntervalRangeTreeNode \<Rightarrow> (range_tree \<times> bool) run" where
  "NaClAvlTreeInsert Leaf node = Inr (Node Leaf node Leaf, True)"
| "NaClAvlTreeInsert (Node l tmp r) node =
     (if rn_value node = rn_value tmp then
        Inr (Node l (tmp\<lparr>rn_value_containment_delta :=
                           rn_value_containment_delta tmp + rn_value_containment_delta node,
                         rn_subtree_containment_delta :=
                           rn_subtree_containment_delta tmp + rn_value_containment_delta node,
                         rn_refcount := rn_refcount tmp + 1\<rparr>) r, False)
      else if rn_value node < rn_value tmp then
        bindE (NaClAvlTreeInsert l node) (\<lambda>(l, higher).
          if \<not> higher then Inr (NaClRangeStatsUpdate l tmp r, False)
          else
            let tmp = tmp\<lparr>rn_balance := rn_balance tmp - 1\<rparr> in
            if rn_balance tmp = 0 then Inr (NaClRangeStatsUpdate l tmp r, False)
            else if rn_balance tmp = -1 then Inr (NaClRangeStatsUpdate l tmp r, True)
            else insert_pivot_left l tmp r)
      else
        bindE (NaClAvlTreeInsert r node) (\<lambda>(r, higher).
          if \<not> higher then Inr (NaClRangeStatsUpdate l tmp r, False)
          else
            let tmp = tmp\<lparr>rn_balance := rn_balance tmp + 1\<rparr> in
            if rn_balance tmp = 0 then Inr (NaClRangeStatsUpdate l tmp r, False)
            else if rn_balance tmp = 1 then Inr (NaClRangeStatsUpdate l tmp r, True)
            else insert_pivot_right l tmp r))"

section \<open>Extraction\<close>

text \<open>The two rebalancing functions take the tree at \<open>*treep\<close>, whose left (right) subtree has
  shrunk, and return it with the new value of \<open>*height_changed\<close>, which is 1 at the call.\<close>

fun NaClAvlTreeBalanceLeft :: "range_tree \<Rightarrow> (range_tree \<times> bool) run" where
  "NaClAvlTreeBalanceLeft Leaf = Inl NullDeref"
| "NaClAvlTreeBalanceLeft (Node l x r) =
     (let x = x\<lparr>rn_balance := rn_balance x + 1\<rparr> in
      if rn_balance x = 0 then Inr (Node l x r, True)
      else if rn_balance x = 1 then Inr (Node l x r, False)
      else case r of Leaf \<Rightarrow> Inl NullDeref
        | Node c d e \<Rightarrow>
            if rn_balance d \<ge> 0 then
              if rn_balance d = 0 then
                Inr (NaClRangeStatsUpdate (NaClRangeStatsUpdate l (x\<lparr>rn_balance := 1\<rparr>) c)
                       (d\<lparr>rn_balance := -1\<rparr>) e, False)
              else
                Inr (NaClRangeStatsUpdate (NaClRangeStatsUpdate l (x\<lparr>rn_balance := 0\<rparr>) c)
                       (d\<lparr>rn_balance := 0\<rparr>) e, True)
            else case c of Leaf \<Rightarrow> Inl NullDeref
              | Node tmp_l m tmp_r \<Rightarrow>
                  Inr (NaClRangeStatsUpdate
                         (NaClRangeStatsUpdate l
                            (x\<lparr>rn_balance := if rn_balance m > 0 then -1 else 0\<rparr>) tmp_l)
                         (m\<lparr>rn_balance := 0\<rparr>)
                         (NaClRangeStatsUpdate tmp_r
                            (d\<lparr>rn_balance := if rn_balance m < 0 then 1 else 0\<rparr>) e), True))"

fun NaClAvlTreeBalanceRight :: "range_tree \<Rightarrow> (range_tree \<times> bool) run" where
  "NaClAvlTreeBalanceRight Leaf = Inl NullDeref"
| "NaClAvlTreeBalanceRight (Node l x r) =
     (let x = x\<lparr>rn_balance := rn_balance x - 1\<rparr> in
      if rn_balance x = 0 then Inr (Node l x r, True)
      else if rn_balance x = -1 then Inr (Node l x r, False)
      else case l of Leaf \<Rightarrow> Inl NullDeref
        | Node a b c \<Rightarrow>
            if rn_balance b \<le> 0 then
              if rn_balance b = 0 then
                Inr (NaClRangeStatsUpdate a (b\<lparr>rn_balance := 1\<rparr>)
                       (NaClRangeStatsUpdate c (x\<lparr>rn_balance := -1\<rparr>) r), False)
              else
                Inr (NaClRangeStatsUpdate a (b\<lparr>rn_balance := 0\<rparr>)
                       (NaClRangeStatsUpdate c (x\<lparr>rn_balance := 0\<rparr>) r), True)
            else case c of Leaf \<Rightarrow> Inl NullDeref
              | Node tmp_l m tmp_r \<Rightarrow>
                  Inr (NaClRangeStatsUpdate
                         (NaClRangeStatsUpdate a
                            (b\<lparr>rn_balance := if rn_balance m > 0 then -1 else 0\<rparr>) tmp_l)
                         (m\<lparr>rn_balance := 0\<rparr>)
                         (NaClRangeStatsUpdate tmp_r
                            (x\<lparr>rn_balance := if rn_balance m < 0 then 1 else 0\<rparr>) r), True))"

fun NaClAvlFindRightMost :: "range_tree \<Rightarrow> (NaClIntervalRangeTreeNode \<times> range_tree \<times> bool) run" where
  "NaClAvlFindRightMost Leaf = Inl NullDeref"
| "NaClAvlFindRightMost (Node l x r) =
     (if r \<noteq> Leaf then
        bindE (NaClAvlFindRightMost r) (\<lambda>(tmp, r, height_changed).
          if height_changed then
            bindE (NaClAvlTreeBalanceRight (NaClRangeStatsUpdate l x r)) (\<lambda>(t, h). Inr (tmp, t, h))
          else Inr (tmp, NaClRangeStatsUpdate l x r, False))
      else Inr (x, l, True))"

fun NaClAvlFindLeftMost :: "range_tree \<Rightarrow> (NaClIntervalRangeTreeNode \<times> range_tree \<times> bool) run" where
  "NaClAvlFindLeftMost Leaf = Inl NullDeref"
| "NaClAvlFindLeftMost (Node l x r) =
     (if l \<noteq> Leaf then
        bindE (NaClAvlFindLeftMost l) (\<lambda>(tmp, l, height_changed).
          if height_changed then
            bindE (NaClAvlTreeBalanceLeft (NaClRangeStatsUpdate l x r)) (\<lambda>(t, h). Inr (tmp, t, h))
          else Inr (tmp, NaClRangeStatsUpdate l x r, False))
      else Inr (x, r, True))"

text \<open>The result is the node that left the tree, if its last reference went, with the tree.\<close>

fun NaClAvlTreeExtract ::
  "range_tree \<Rightarrow> NaClIntervalRangeTreeNode \<Rightarrow> bool \<Rightarrow> (NaClIntervalRangeTreeNode option \<times> range_tree \<times> bool) run"
where
  "NaClAvlTreeExtract Leaf key height_changed = Inl LogFatal"
| "NaClAvlTreeExtract (Node l x r) key height_changed =
     (if rn_value key < rn_value x then
        bindE (NaClAvlTreeExtract l key height_changed) (\<lambda>(p, l, h).
          if h then bindE (NaClAvlTreeBalanceLeft (NaClRangeStatsUpdate l x r)) (\<lambda>(t, h). Inr (p, t, h))
          else Inr (p, NaClRangeStatsUpdate l x r, False))
      else if rn_value key > rn_value x then
        bindE (NaClAvlTreeExtract r key height_changed) (\<lambda>(p, r, h).
          if h then bindE (NaClAvlTreeBalanceRight (NaClRangeStatsUpdate l x r)) (\<lambda>(t, h). Inr (p, t, h))
          else Inr (p, NaClRangeStatsUpdate l x r, False))
      else
        let p = x\<lparr>rn_refcount := rn_refcount x - 1\<rparr> in
        if rn_refcount p \<noteq> 0 then
          Inr (None, Node l (p\<lparr>rn_value_containment_delta :=
                                 rn_value_containment_delta p - rn_value_containment_delta key,
                               rn_subtree_containment_delta :=
                                 rn_subtree_containment_delta p - rn_value_containment_delta key\<rparr>) r,
               height_changed)
        else if r = Leaf then Inr (Some p, l, True)
        else if l = Leaf then Inr (Some p, r, True)
        else if rn_balance p \<le> 0 then
          bindE (NaClAvlFindRightMost l) (\<lambda>(tmp, l, h).
            let t = NaClRangeStatsUpdate l (tmp\<lparr>rn_balance := rn_balance p\<rparr>) r in
            if h then bindE (NaClAvlTreeBalanceLeft t) (\<lambda>(t, h). Inr (Some p, t, h))
            else Inr (Some p, t, False))
        else
          bindE (NaClAvlFindLeftMost r) (\<lambda>(tmp, r, h).
            let t = NaClRangeStatsUpdate l (tmp\<lparr>rn_balance := rn_balance p\<rparr>) r in
            if h then bindE (NaClAvlTreeBalanceRight t) (\<lambda>(t, h). Inr (Some p, t, h))
            else Inr (Some p, t, False)))"

definition NaClIntervalRangeTreeExtract ::
  "range_tree \<Rightarrow> NaClIntervalRangeTreeNode \<Rightarrow> (NaClIntervalRangeTreeNode option \<times> range_tree) run" where
  "NaClIntervalRangeTreeExtract self keyp =
     bindE (NaClAvlTreeExtract self keyp False) (\<lambda>(p, t, _). Inr (p, t))"

definition NaClIntervalRangeTreeRemoveVal :: "range_tree \<Rightarrow> u32 \<Rightarrow> int \<Rightarrow> range_tree run" where
  "NaClIntervalRangeTreeRemoveVal self value lr =
     bindE (NaClIntervalRangeTreeExtract self (NaClIntervalRangeTreeNodeInit value lr))
       (\<lambda>(zero_ref_node, t). Inr t)"

section \<open>Queries and the virtual table\<close>

text \<open>The containment count and \<open>gap_left\<close>, \<open>None\<close> where the code leaves it undefined.\<close>

fun NaClAvlTreeFindValue :: "range_tree \<Rightarrow> u32 \<Rightarrow> u32 \<Rightarrow> u32 \<Rightarrow> u32 \<times> u32 option" where
  "NaClAvlTreeFindValue Leaf left_delta left_range value = (left_delta, Some left_range)"
| "NaClAvlTreeFindValue (Node l x r) left_delta left_range value =
     (if value < rn_value x then NaClAvlTreeFindValue l left_delta left_range value
      else
        let delta = (case l of Leaf \<Rightarrow> left_delta
                     | Node _ ln _ \<Rightarrow> left_delta + rn_subtree_containment_delta ln);
            delta = delta + rn_value_containment_delta x
        in
        if value = rn_value x then (if delta = 0 then 1 else delta, None)
        else NaClAvlTreeFindValue r delta (rn_value x + 1) value)"

definition NaClIntervalRangeTreeCtor :: range_tree where
  "NaClIntervalRangeTreeCtor = Leaf"

text \<open>\<open>NaClAvlTreeFree\<close> frees both subtrees and then the node; what it leaves is the number of
  nodes freed.\<close>

fun NaClAvlTreeFree :: "range_tree \<Rightarrow> nat" where
  "NaClAvlTreeFree Leaf = 0"
| "NaClAvlTreeFree (Node l x r) = NaClAvlTreeFree l + NaClAvlTreeFree r + 1"

definition NaClIntervalRangeTreeDtor :: "range_tree \<Rightarrow> range_tree \<times> nat" where
  "NaClIntervalRangeTreeDtor self = (Leaf, NaClAvlTreeFree self)"

definition NaClIntervalRangeTreeAddInterval ::
  "(nat \<Rightarrow> bool) \<Rightarrow> range_tree \<Rightarrow> u32 \<Rightarrow> u32 \<Rightarrow> range_tree run" where
  "NaClIntervalRangeTreeAddInterval mem self first_val last_val =
     bindE (NaClIntervalRangeTreeNodeFactory mem first_val 1) (\<lambda>range_start.
     bindE (NaClIntervalRangeTreeNodeFactory mem last_val (-1)) (\<lambda>range_end.
     bindE (NaClAvlTreeInsert self range_start) (\<lambda>(t, _).
     bindE (NaClAvlTreeInsert t range_end) (\<lambda>(t, _). Inr t))))"

definition NaClIntervalRangeTreeRemoveInterval :: "range_tree \<Rightarrow> u32 \<Rightarrow> u32 \<Rightarrow> range_tree run" where
  "NaClIntervalRangeTreeRemoveInterval self first_val last_val =
     bindE (NaClIntervalRangeTreeRemoveVal self last_val (-1)) (\<lambda>t.
       NaClIntervalRangeTreeRemoveVal t first_val 1)"

definition NaClIntervalRangeTreeOverlapsWith :: "range_tree \<Rightarrow> u32 \<Rightarrow> u32 \<Rightarrow> bool" where
  "NaClIntervalRangeTreeOverlapsWith self first_val last_val =
     (case NaClAvlTreeFindValue self 0 0 first_val of (n_first, gap_left_first) \<Rightarrow>
        if 0 \<noteq> n_first then True
        else case NaClAvlTreeFindValue self 0 0 last_val of (n_last, gap_left_last) \<Rightarrow>
          if 0 \<noteq> n_last then True
          else if gap_left_first = gap_left_last then False
          else True)"

end
