(* ===== verification/RangeTreeProofs.thy ===== *)
theory RangeTreeProofs
  imports RangeTree
begin

text \<open>
  The tree of end points is an AVL search tree whose counters are exact. Insertion and
  extraction act on its inorder list as on a sorted association list of end points, the search
  sums a prefix of the list, and so the tree implements the interface of interval multisets.
\<close>

section \<open>Shape, order and counters\<close>

fun rt_height :: "range_tree \<Rightarrow> nat" where
  "rt_height Leaf = 0"
| "rt_height (Node l x r) = Suc (max (rt_height l) (rt_height r))"

fun rt_avl :: "range_tree \<Rightarrow> bool" where
  "rt_avl Leaf \<longleftrightarrow> True"
| "rt_avl (Node l x r) \<longleftrightarrow> rt_avl l \<and> rt_avl r \<and> rn_balance x = int (rt_height r) - int (rt_height l) \<and>
     -1 \<le> rn_balance x \<and> rn_balance x \<le> 1"

fun root_bal :: "range_tree \<Rightarrow> int" where
  "root_bal Leaf = 0"
| "root_bal (Node l x r) = rn_balance x"

text \<open>An end point with its delta and its reference count.\<close>

type_synonym endpoint = "u32 \<times> u32 \<times> u32"

definition endpoint :: "NaClIntervalRangeTreeNode \<Rightarrow> endpoint" where
  "endpoint x = (rn_value x, rn_value_containment_delta x, rn_refcount x)"

fun endpoints :: "range_tree \<Rightarrow> endpoint list" where
  "endpoints Leaf = []"
| "endpoints (Node l x r) = endpoints l @ endpoint x # endpoints r"

fun stats_ok :: "range_tree \<Rightarrow> bool" where
  "stats_ok Leaf \<longleftrightarrow> True"
| "stats_ok (Node l x r) \<longleftrightarrow> stats_ok l \<and> stats_ok r \<and> NaClRangeStatsUpdate l x r = Node l x r"

lemma endpoint_upd [simp]:
  "endpoint (x\<lparr>rn_balance := b\<rparr>) = endpoint x"
  "endpoint (x\<lparr>rn_range_left := rl\<rparr>) = endpoint x"
  "endpoint (x\<lparr>rn_range_right := rr\<rparr>) = endpoint x"
  "endpoint (x\<lparr>rn_subtree_containment_delta := d\<rparr>) = endpoint x"
  by (simp_all add: endpoint_def)

lemma stats_update [simp]:
  "rt_height (NaClRangeStatsUpdate l x r) = Suc (max (rt_height l) (rt_height r))"
  "rt_avl (NaClRangeStatsUpdate l x r) = rt_avl (Node l x r)"
  "root_bal (NaClRangeStatsUpdate l x r) = rn_balance x"
  "endpoints (NaClRangeStatsUpdate l x r) = endpoints l @ endpoint x # endpoints r"
  "NaClRangeStatsUpdate l x r \<noteq> Leaf"
  by (auto simp: NaClRangeStatsUpdate_def Let_def split: range_tree.splits)

lemma stats_ok_update [simp]: "stats_ok (NaClRangeStatsUpdate l x r) \<longleftrightarrow> stats_ok l \<and> stats_ok r"
  by (auto simp: NaClRangeStatsUpdate_def Let_def split: range_tree.splits)

lemma stats_ok_balance: "stats_ok (Node l (x\<lparr>rn_balance := b\<rparr>) r) = stats_ok (Node l x r)"
  by (cases x) (auto simp: NaClRangeStatsUpdate_def Let_def split: range_tree.splits)

lemma rt_height_0 [simp]: "rt_height t = 0 \<longleftrightarrow> t = Leaf"
  by (cases t) auto

lemma stats_ok_iff:
  "NaClRangeStatsUpdate l x r = Node l x r \<longleftrightarrow>
     rn_range_left x = (case l of Leaf \<Rightarrow> rn_value x | Node _ ln _ \<Rightarrow> rn_range_left ln) \<and>
     rn_range_right x = (case r of Leaf \<Rightarrow> rn_value x | Node _ rn _ \<Rightarrow> rn_range_right rn) \<and>
     rn_subtree_containment_delta x = rn_value_containment_delta x +
       (case l of Leaf \<Rightarrow> 0 | Node _ ln _ \<Rightarrow> rn_subtree_containment_delta ln) +
       (case r of Leaf \<Rightarrow> 0 | Node _ rn _ \<Rightarrow> rn_subtree_containment_delta rn)"
  by (cases x; cases l; cases r) (auto simp: NaClRangeStatsUpdate_def Let_def ac_simps)

section \<open>Rotations\<close>

text \<open>What a rotation keeps.\<close>

definition rotated :: "range_tree \<Rightarrow> range_tree \<Rightarrow> NaClIntervalRangeTreeNode \<Rightarrow> range_tree \<Rightarrow> bool" where
  "rotated t l x r \<longleftrightarrow> rt_avl t \<and> endpoints t = endpoints l @ endpoint x # endpoints r \<and>
     (stats_ok l \<and> stats_ok r \<longrightarrow> stats_ok t)"

lemma insert_pivot_left_ok:
  assumes "rt_avl l" "rt_avl r" "rt_height l = Suc (Suc (rt_height r))" "root_bal l \<noteq> 0"
  shows "\<exists>t. insert_pivot_left l x r = Inr (t, False) \<and> rotated t l x r \<and> rt_height t = rt_height l"
proof -
  obtain a b c where l: "l = Node a b c" using assms(3) by (cases l) auto
  show ?thesis
  proof (cases "rn_balance b = -1")
    case True
    then show ?thesis using assms by (auto simp: l insert_pivot_left_def rotated_def max_def split: if_splits)
  next
    case False
    then have "rn_balance b = 1" using assms(1,4) False by (auto simp: l)
    then obtain c1 d c2 where c: "c = Node c1 d c2" using assms(1) by (cases c) (auto simp: l)
    show ?thesis using assms False
      by (auto simp: l c insert_pivot_left_def rotated_def max_def split: if_splits)
  qed
qed

lemma insert_pivot_right_ok:
  assumes "rt_avl l" "rt_avl r" "rt_height r = Suc (Suc (rt_height l))" "root_bal r \<noteq> 0"
  shows "\<exists>t. insert_pivot_right l x r = Inr (t, False) \<and> rotated t l x r \<and> rt_height t = rt_height r"
proof -
  obtain c d e where r: "r = Node c d e" using assms(3) by (cases r) auto
  show ?thesis
  proof (cases "rn_balance d = 1")
    case True
    then show ?thesis using assms by (auto simp: r insert_pivot_right_def rotated_def max_def split: if_splits)
  next
    case False
    then have "rn_balance d = -1" using assms(2,4) by (auto simp: r)
    then obtain c1 m c2 where c: "c = Node c1 m c2" using assms(2) by (cases c) (auto simp: r)
    show ?thesis using assms False
      by (auto simp: r c insert_pivot_right_def rotated_def max_def split: if_splits)
  qed
qed

section \<open>Insertion and removal on lists of end points\<close>

text \<open>The sorted list of end points under insertion and removal of one end point.\<close>

fun ins_end :: "u32 \<Rightarrow> u32 \<Rightarrow> endpoint list \<Rightarrow> endpoint list" where
  "ins_end v d [] = [(v, d, 1)]"
| "ins_end v d ((w, e, c) # xs) =
     (if v = w then (w, e + d, c + 1) # xs
      else if v < w then (v, d, 1) # (w, e, c) # xs
      else (w, e, c) # ins_end v d xs)"

fun del_end :: "u32 \<Rightarrow> u32 \<Rightarrow> endpoint list \<Rightarrow> endpoint list" where
  "del_end v d [] = []"
| "del_end v d ((w, e, c) # xs) =
     (if v = w then if c - 1 \<noteq> 0 then (w, e - d, c - 1) # xs else xs
      else (w, e, c) # del_end v d xs)"

abbreviation sorted_ends :: "endpoint list \<Rightarrow> bool" where
  "sorted_ends xs \<equiv> sorted_wrt (<) (map fst xs)"

lemma ins_end_append:
  assumes "sorted_ends (xs @ (w, e, c) # ys)"
  shows "v < w \<Longrightarrow> ins_end v d (xs @ (w, e, c) # ys) = ins_end v d xs @ (w, e, c) # ys"
    and "w < v \<Longrightarrow> ins_end v d (xs @ (w, e, c) # ys) = xs @ (w, e, c) # ins_end v d ys"
    and "v = w \<Longrightarrow> ins_end v d (xs @ (w, e, c) # ys) = xs @ (w, e + d, c + 1) # ys"
  using assms by (induction xs) (auto dest: less_trans)

lemma del_end_left:
  "v \<in> fst ` set xs \<Longrightarrow> del_end v d (xs @ ys) = del_end v d xs @ ys"
  by (induction xs) (force split: if_splits)+

lemma del_end_right: "v \<notin> fst ` set xs \<Longrightarrow> del_end v d (xs @ ys) = xs @ del_end v d ys"
  by (induction xs) auto

lemma del_end_append:
  assumes "sorted_ends (xs @ (w, e, c) # ys)"
  shows "v < w \<Longrightarrow> v \<in> fst ` set (xs @ (w, e, c) # ys) \<Longrightarrow> v \<in> fst ` set xs \<and>
      del_end v d (xs @ (w, e, c) # ys) = del_end v d xs @ (w, e, c) # ys"
    and "w < v \<Longrightarrow> del_end v d (xs @ (w, e, c) # ys) = xs @ (w, e, c) # del_end v d ys"
    and "v = w \<Longrightarrow> del_end v d (xs @ (w, e, c) # ys) = xs @ (if c - 1 \<noteq> 0 then [(w, e - d, c - 1)] else []) @ ys"
proof -
  have lt: "\<forall>x\<in>fst ` set xs. x < w" and gt: "\<forall>y\<in>fst ` set ys. w < y"
    using assms by (auto simp: sorted_wrt_append)
  show "v \<in> fst ` set xs \<and> del_end v d (xs @ (w, e, c) # ys) = del_end v d xs @ (w, e, c) # ys"
    if "v < w" "v \<in> fst ` set (xs @ (w, e, c) # ys)"
  proof -
    have "v \<in> fst ` set xs" using that gt by (auto dest: less_asym less_trans)
    then show ?thesis by (simp add: del_end_left)
  qed
  show "del_end v d (xs @ (w, e, c) # ys) = xs @ (w, e, c) # del_end v d ys" if "w < v"
  proof -
    have "v \<notin> fst ` set xs" using lt that by (auto dest: less_trans)
    moreover have "v \<noteq> w" using that by simp
    ultimately show ?thesis by (simp add: del_end_right)
  qed
  show "del_end v d (xs @ (w, e, c) # ys) = xs @ (if c - 1 \<noteq> 0 then [(w, e - d, c - 1)] else []) @ ys" if "v = w"
  proof -
    have "v \<notin> fst ` set xs" using lt that by auto
    then show ?thesis using that by (simp add: del_end_right)
  qed
qed

section \<open>Insertion\<close>

lemma NaClAvlTreeInsert_ok:
  assumes node: "rn_balance node = 0" "rn_refcount node = 1" "stats_ok (Node Leaf node Leaf)"
  shows "rt_avl t \<Longrightarrow> sorted_ends (endpoints t) \<Longrightarrow>
    \<exists>t' h. NaClAvlTreeInsert t node = Inr (t', h) \<and> rt_avl t' \<and>
      rt_height t' = rt_height t + (if h then 1 else 0) \<and> (h \<and> t \<noteq> Leaf \<longrightarrow> root_bal t' \<noteq> 0) \<and>
      endpoints t' = ins_end (rn_value node) (rn_value_containment_delta node) (endpoints t) \<and>
      (stats_ok t \<longrightarrow> stats_ok t')"
proof (induction t)
  case Leaf
  then show ?case using node by (auto simp: endpoint_def)
next
  case (Node l x r)
  have s: "sorted_ends (endpoints l @ (rn_value x, rn_value_containment_delta x, rn_refcount x) # endpoints r)"
    using Node.prems(2) by (simp add: endpoint_def)
  have sl: "sorted_ends (endpoints l)" and sr: "sorted_ends (endpoints r)"
    using s by (simp_all add: sorted_wrt_append)
  have bal: "rn_balance x = int (rt_height r) - int (rt_height l)" "-1 \<le> rn_balance x" "rn_balance x \<le> 1"
    "rt_avl l" "rt_avl r" using Node.prems(1) by simp_all
  consider "rn_value node = rn_value x" | "rn_value node < rn_value x" | "rn_value x < rn_value node"
    by fastforce
  then show ?case
  proof cases
    case 1
    let ?x = "x\<lparr>rn_value_containment_delta := rn_value_containment_delta x + rn_value_containment_delta node,
        rn_subtree_containment_delta := rn_subtree_containment_delta x + rn_value_containment_delta node,
        rn_refcount := rn_refcount x + 1\<rparr>"
    have "stats_ok (Node l x r) \<longrightarrow> stats_ok (Node l ?x r)"
      by (cases l; cases r) (auto simp: stats_ok_iff ac_simps)
    moreover have "endpoints (Node l ?x r) =
        ins_end (rn_value node) (rn_value_containment_delta node) (endpoints (Node l x r))"
      using ins_end_append(3) [OF s 1] by (simp add: endpoint_def)
    moreover have "rt_avl (Node l ?x r)" using bal by auto
    ultimately show ?thesis using 1 by (intro exI [of _ "Node l ?x r"] exI [of _ False]) simp
  next
    case 2
    then have n: "rn_value node < rn_value x" "rn_value node \<noteq> rn_value x" by auto
    obtain l' h where i: "NaClAvlTreeInsert l node = Inr (l', h)" "rt_avl l'"
      "rt_height l' = rt_height l + (if h then 1 else 0)" "h \<and> l \<noteq> Leaf \<longrightarrow> root_bal l' \<noteq> 0"
      "endpoints l' = ins_end (rn_value node) (rn_value_containment_delta node) (endpoints l)"
      "stats_ok l \<longrightarrow> stats_ok l'"
      using Node.IH(1) [OF bal(4) sl] by blast
    have e: "ins_end (rn_value node) (rn_value_containment_delta node) (endpoints (Node l x r)) =
        endpoints l' @ endpoint x # endpoints r"
      using ins_end_append(1) [OF s 2] i(5) by (simp add: endpoint_def)
    show ?thesis
    proof (cases "h \<and> rn_balance x = -1")
      case True
      then have "rt_height l' = Suc (Suc (rt_height r))" "l \<noteq> Leaf" using bal i(3) by auto
      then obtain t where "insert_pivot_left l' (x\<lparr>rn_balance := -2\<rparr>) r = Inr (t, False)"
        "rotated t l' (x\<lparr>rn_balance := -2\<rparr>) r" "rt_height t = rt_height l'"
        using insert_pivot_left_ok [OF i(2) bal(5)] i(4) True by blast
      then show ?thesis using n i True bal unfolding e by (auto simp: rotated_def Let_def)
    next
      case False
      then show ?thesis using n i bal unfolding e by (cases h) (auto simp: Let_def max_def)
    qed
  next
    case 3
    then have n: "\<not> rn_value node < rn_value x" "rn_value node \<noteq> rn_value x" by auto
    obtain r' h where i: "NaClAvlTreeInsert r node = Inr (r', h)" "rt_avl r'"
      "rt_height r' = rt_height r + (if h then 1 else 0)" "h \<and> r \<noteq> Leaf \<longrightarrow> root_bal r' \<noteq> 0"
      "endpoints r' = ins_end (rn_value node) (rn_value_containment_delta node) (endpoints r)"
      "stats_ok r \<longrightarrow> stats_ok r'"
      using Node.IH(2) [OF bal(5) sr] by blast
    have e: "ins_end (rn_value node) (rn_value_containment_delta node) (endpoints (Node l x r)) =
        endpoints l @ endpoint x # endpoints r'"
      using ins_end_append(2) [OF s 3] i(5) by (simp add: endpoint_def)
    show ?thesis
    proof (cases "h \<and> rn_balance x = 1")
      case True
      then have "rt_height r' = Suc (Suc (rt_height l))" "r \<noteq> Leaf" using bal i(3) by auto
      then obtain t where "insert_pivot_right l (x\<lparr>rn_balance := 2\<rparr>) r' = Inr (t, False)"
        "rotated t l (x\<lparr>rn_balance := 2\<rparr>) r'" "rt_height t = rt_height r'"
        using insert_pivot_right_ok [OF bal(4) i(2)] i(4) True by blast
      then show ?thesis using n i True bal unfolding e by (auto simp: rotated_def Let_def)
    next
      case False
      then show ?thesis using n i bal unfolding e by (cases h) (auto simp: Let_def max_def)
    qed
  qed
qed

section \<open>Extraction\<close>

lemma stats_ok_Node_balance:
  "stats_ok (Node l (x\<lparr>rn_balance := b\<rparr>) r) \<longleftrightarrow> stats_ok (Node l x r)"
  by (cases l; cases r) (simp_all add: stats_ok_iff)

lemma NaClAvlTreeBalanceLeft_ok:
  assumes "rt_avl l" "rt_avl r" "rn_balance x = int (rt_height r) - int (rt_height l) - 1"
    "-1 \<le> rn_balance x" "rn_balance x \<le> 1"
  shows "\<exists>t h. NaClAvlTreeBalanceLeft (Node l x r) = Inr (t, h) \<and> rt_avl t \<and>
    endpoints t = endpoints (Node l x r) \<and> (stats_ok (Node l x r) \<longrightarrow> stats_ok t) \<and>
    rt_height t + (if h then 1 else 0) = Suc (max (Suc (rt_height l)) (rt_height r))"
proof (cases "rn_balance x = 1")
  case False
  let ?x = "x\<lparr>rn_balance := rn_balance x + 1\<rparr>"
  have "NaClAvlTreeBalanceLeft (Node l x r) = Inr (Node l ?x r, rn_balance ?x = 0)"
    using False assms by (auto simp: Let_def)
  moreover have "rt_avl (Node l ?x r)"
    "rt_height (Node l ?x r) + (if rn_balance ?x = 0 then 1 else 0) = Suc (max (Suc (rt_height l)) (rt_height r))"
    using False assms by (auto simp: max_def)
  moreover have "stats_ok (Node l x r) \<longrightarrow> stats_ok (Node l ?x r)" using stats_ok_Node_balance by blast
  moreover have "endpoints (Node l ?x r) = endpoints (Node l x r)" by simp
  ultimately show ?thesis by blast
next
  case True
  then have hr: "rt_height r = Suc (Suc (rt_height l))" using assms(3) by simp
  then obtain c d e where r: "r = Node c d e" by (cases r) auto
  show ?thesis
  proof (cases "rn_balance d \<ge> 0")
    case d: True
    moreover have "rn_balance d \<le> 1" using assms(2) by (simp add: r)
    ultimately have "rn_balance d = 0 \<or> rn_balance d = 1" by linarith
    then consider "rn_balance d = 0" | "rn_balance d = 1" by blast
    then show ?thesis using assms True hr by cases (auto simp: r Let_def max_def split: if_splits)
  next
    case d: False
    then obtain c1 m c2 where c: "c = Node c1 m c2" using assms(2) by (cases c) (auto simp: r)
    show ?thesis using assms True hr d by (auto simp: r c Let_def max_def split: if_splits)
  qed
qed

lemma NaClAvlTreeBalanceRight_ok:
  assumes "rt_avl l" "rt_avl r" "rn_balance x = int (rt_height r) - int (rt_height l) + 1"
    "-1 \<le> rn_balance x" "rn_balance x \<le> 1"
  shows "\<exists>t h. NaClAvlTreeBalanceRight (Node l x r) = Inr (t, h) \<and> rt_avl t \<and>
    endpoints t = endpoints (Node l x r) \<and> (stats_ok (Node l x r) \<longrightarrow> stats_ok t) \<and>
    rt_height t + (if h then 1 else 0) = Suc (max (rt_height l) (Suc (rt_height r)))"
proof (cases "rn_balance x = -1")
  case False
  let ?x = "x\<lparr>rn_balance := rn_balance x - 1\<rparr>"
  have "NaClAvlTreeBalanceRight (Node l x r) = Inr (Node l ?x r, rn_balance ?x = 0)"
    using False assms by (auto simp: Let_def)
  moreover have "rt_avl (Node l ?x r)"
    "rt_height (Node l ?x r) + (if rn_balance ?x = 0 then 1 else 0) = Suc (max (rt_height l) (Suc (rt_height r)))"
    using False assms by (auto simp: max_def)
  moreover have "stats_ok (Node l x r) \<longrightarrow> stats_ok (Node l ?x r)" using stats_ok_Node_balance by blast
  moreover have "endpoints (Node l ?x r) = endpoints (Node l x r)" by simp
  ultimately show ?thesis by blast
next
  case True
  then have hr: "rt_height l = Suc (Suc (rt_height r))" using assms(3) by simp
  then obtain a b c where l: "l = Node a b c" by (cases l) auto
  show ?thesis
  proof (cases "rn_balance b \<le> 0")
    case b: True
    moreover have "-1 \<le> rn_balance b" using assms(1) by (simp add: l)
    ultimately have "rn_balance b = 0 \<or> rn_balance b = -1" by linarith
    then consider "rn_balance b = 0" | "rn_balance b = -1" by blast
    then show ?thesis using assms True hr by cases (auto simp: l Let_def max_def split: if_splits)
  next
    case b: False
    then obtain c1 m c2 where c: "c = Node c1 m c2" using assms(1) by (cases c) (auto simp: l)
    show ?thesis using assms True hr b by (auto simp: l c Let_def max_def split: if_splits)
  qed
qed

declare NaClAvlTreeBalanceLeft.simps [simp del] NaClAvlTreeBalanceRight.simps [simp del]

text \<open>The node that is taken out of a subtree, and what is left.\<close>

lemma stats_node: "\<exists>y. NaClRangeStatsUpdate l x r = Node l y r \<and> rn_balance y = rn_balance x \<and> endpoint y = endpoint x"
  by (auto simp: NaClRangeStatsUpdate_def Let_def endpoint_def split: range_tree.splits)

lemma NaClAvlFindRightMost_ok:
  "rt_avl t \<Longrightarrow> t \<noteq> Leaf \<Longrightarrow>
   \<exists>x t' h. NaClAvlFindRightMost t = Inr (x, t', h) \<and> rt_avl t' \<and> endpoints t = endpoints t' @ [endpoint x] \<and>
     rt_height t' + (if h then 1 else 0) = rt_height t \<and> (stats_ok t \<longrightarrow> stats_ok t')"
proof (induction t)
  case (Node l x r)
  have av: "rt_avl l" "rt_avl r" "rn_balance x = int (rt_height r) - int (rt_height l)" "-1 \<le> rn_balance x" "rn_balance x \<le> 1"
    using Node.prems(1) by simp_all
  show ?case
  proof (cases "r = Leaf")
    case True
    then show ?thesis using av by auto
  next
    case False
    obtain z r' h where r': "NaClAvlFindRightMost r = Inr (z, r', h)" "rt_avl r'" "endpoints r = endpoints r' @ [endpoint z]"
      "rt_height r' + (if h then 1 else 0) = rt_height r" "stats_ok r \<longrightarrow> stats_ok r'"
      using Node.IH(2) [OF av(2) False] by blast
    obtain y where y: "NaClRangeStatsUpdate l x r' = Node l y r'" "rn_balance y = rn_balance x" "endpoint y = endpoint x"
      using stats_node by blast
    have st: "stats_ok l \<and> stats_ok r' \<longrightarrow> stats_ok (Node l y r')" using stats_ok_update [of l x r'] y(1) by auto
    show ?thesis
    proof (cases h)
      case True
      obtain t h' where "NaClAvlTreeBalanceRight (Node l y r') = Inr (t, h')" "rt_avl t"
        "endpoints t = endpoints (Node l y r')" "stats_ok (Node l y r') \<longrightarrow> stats_ok t"
        "rt_height t + (if h' then 1 else 0) = Suc (max (rt_height l) (Suc (rt_height r')))"
        using NaClAvlTreeBalanceRight_ok [OF av(1) r'(2), of y] av r'(4) y(2) True by auto
      then show ?thesis using False r' y st True av by auto
    next
      case h: False
      have "rt_avl (Node l y r')" using av r' y(2) h by auto
      then show ?thesis using False r' y st h by auto
    qed
  qed
qed simp

lemma NaClAvlFindLeftMost_ok:
  "rt_avl t \<Longrightarrow> t \<noteq> Leaf \<Longrightarrow>
   \<exists>x t' h. NaClAvlFindLeftMost t = Inr (x, t', h) \<and> rt_avl t' \<and> endpoints t = endpoint x # endpoints t' \<and>
     rt_height t' + (if h then 1 else 0) = rt_height t \<and> (stats_ok t \<longrightarrow> stats_ok t')"
proof (induction t)
  case (Node l x r)
  have av: "rt_avl l" "rt_avl r" "rn_balance x = int (rt_height r) - int (rt_height l)" "-1 \<le> rn_balance x" "rn_balance x \<le> 1"
    using Node.prems(1) by simp_all
  show ?case
  proof (cases "l = Leaf")
    case True
    then show ?thesis using av by auto
  next
    case False
    obtain z l' h where l': "NaClAvlFindLeftMost l = Inr (z, l', h)" "rt_avl l'" "endpoints l = endpoint z # endpoints l'"
      "rt_height l' + (if h then 1 else 0) = rt_height l" "stats_ok l \<longrightarrow> stats_ok l'"
      using Node.IH(1) [OF av(1) False] by blast
    obtain y where y: "NaClRangeStatsUpdate l' x r = Node l' y r" "rn_balance y = rn_balance x" "endpoint y = endpoint x"
      using stats_node by blast
    have st: "stats_ok l' \<and> stats_ok r \<longrightarrow> stats_ok (Node l' y r)" using stats_ok_update [of l' x r] y(1) by auto
    show ?thesis
    proof (cases h)
      case True
      obtain t h' where "NaClAvlTreeBalanceLeft (Node l' y r) = Inr (t, h')" "rt_avl t"
        "endpoints t = endpoints (Node l' y r)" "stats_ok (Node l' y r) \<longrightarrow> stats_ok t"
        "rt_height t + (if h' then 1 else 0) = Suc (max (Suc (rt_height l')) (rt_height r))"
        using NaClAvlTreeBalanceLeft_ok [OF l'(2) av(2), of y] av l'(4) y(2) True by auto
      then show ?thesis using False l' y st True av by auto
    next
      case h: False
      have "rt_avl (Node l' y r)" using av l' y(2) h by auto
      then show ?thesis using False l' y st h by auto
    qed
  qed
qed simp

text \<open>Rebalancing of a node whose left (right) child has changed height by \<open>h\<close>.\<close>

lemma after_left:
  assumes "rt_avl l'" "rt_avl r" "rt_height l' + (if h then 1 else 0) = rt_height l"
    "rn_balance x = int (rt_height r) - int (rt_height l)" "-1 \<le> rn_balance x" "rn_balance x \<le> 1"
  shows "\<exists>t h'. (if h then NaClAvlTreeBalanceLeft (NaClRangeStatsUpdate l' x r)
        else Inr (NaClRangeStatsUpdate l' x r, False)) = Inr (t, h') \<and> rt_avl t \<and>
      endpoints t = endpoints l' @ endpoint x # endpoints r \<and> (stats_ok l' \<and> stats_ok r \<longrightarrow> stats_ok t) \<and>
      rt_height t + (if h' then 1 else 0) = Suc (max (rt_height l) (rt_height r))"
proof (cases h)
  case True
  obtain y where y: "NaClRangeStatsUpdate l' x r = Node l' y r" "rn_balance y = rn_balance x" "endpoint y = endpoint x"
    using stats_node by blast
  have st: "stats_ok l' \<and> stats_ok r \<longrightarrow> stats_ok (Node l' y r)" using stats_ok_update [of l' x r] y(1) by auto
  have hl: "Suc (rt_height l') = rt_height l" using assms(3) True by simp
  have "rn_balance y = int (rt_height r) - int (rt_height l') - 1" using y(2) assms(4) hl by simp
  then obtain t h' where "NaClAvlTreeBalanceLeft (Node l' y r) = Inr (t, h')" "rt_avl t"
    "endpoints t = endpoints (Node l' y r)" "stats_ok (Node l' y r) \<longrightarrow> stats_ok t"
    "rt_height t + (if h' then 1 else 0) = Suc (max (Suc (rt_height l')) (rt_height r))"
    using NaClAvlTreeBalanceLeft_ok [OF assms(1,2), of y] assms(5,6) y(2) by auto
  then show ?thesis using True y st hl by (intro exI [of _ t] exI [of _ h'] conjI) simp_all
next
  case False
  then show ?thesis using assms by auto
qed

lemma after_right:
  assumes "rt_avl l" "rt_avl r'" "rt_height r' + (if h then 1 else 0) = rt_height r"
    "rn_balance x = int (rt_height r) - int (rt_height l)" "-1 \<le> rn_balance x" "rn_balance x \<le> 1"
  shows "\<exists>t h'. (if h then NaClAvlTreeBalanceRight (NaClRangeStatsUpdate l x r')
        else Inr (NaClRangeStatsUpdate l x r', False)) = Inr (t, h') \<and> rt_avl t \<and>
      endpoints t = endpoints l @ endpoint x # endpoints r' \<and> (stats_ok l \<and> stats_ok r' \<longrightarrow> stats_ok t) \<and>
      rt_height t + (if h' then 1 else 0) = Suc (max (rt_height l) (rt_height r))"
proof (cases h)
  case True
  obtain y where y: "NaClRangeStatsUpdate l x r' = Node l y r'" "rn_balance y = rn_balance x" "endpoint y = endpoint x"
    using stats_node by blast
  have st: "stats_ok l \<and> stats_ok r' \<longrightarrow> stats_ok (Node l y r')" using stats_ok_update [of l x r'] y(1) by auto
  have hr: "Suc (rt_height r') = rt_height r" using assms(3) True by simp
  have "rn_balance y = int (rt_height r') - int (rt_height l) + 1" using y(2) assms(4) hr by simp
  then obtain t h' where "NaClAvlTreeBalanceRight (Node l y r') = Inr (t, h')" "rt_avl t"
    "endpoints t = endpoints (Node l y r')" "stats_ok (Node l y r') \<longrightarrow> stats_ok t"
    "rt_height t + (if h' then 1 else 0) = Suc (max (rt_height l) (Suc (rt_height r')))"
    using NaClAvlTreeBalanceRight_ok [OF assms(1,2), of y] assms(5,6) y(2) by auto
  then show ?thesis using True y st hr by (intro exI [of _ t] exI [of _ h'] conjI) simp_all
next
  case False
  then show ?thesis using assms by auto
qed

lemma extract_bind:
  "(if h then bindE (B t) (\<lambda>(t, h). Inr (p, t, h)) else Inr (p, t, False)) =
   bindE (if h then B t else Inr (t, False)) (\<lambda>(t, h). Inr (p, t, h))"
  by simp

lemma endpoint_balance: "endpoint (x\<lparr>rn_refcount := c\<rparr>) = (rn_value x, rn_value_containment_delta x, c)"
  by (simp add: endpoint_def)

text \<open>The node found with its last reference: its place is taken by a neighbour.\<close>

lemma extract_root:
  assumes "rt_avl (Node l x r)" "rn_value key = rn_value x" "rn_refcount x - 1 = 0"
  shows "\<exists>p t h. NaClAvlTreeExtract (Node l x r) key b = Inr (p, t, h) \<and> rt_avl t \<and>
    rt_height t + (if h then 1 else 0) = rt_height (Node l x r) \<and>
    endpoints t = endpoints l @ endpoints r \<and> (stats_ok (Node l x r) \<longrightarrow> stats_ok t)"
proof -
  have av: "rt_avl l" "rt_avl r" "rn_balance x = int (rt_height r) - int (rt_height l)"
    "-1 \<le> rn_balance x" "rn_balance x \<le> 1" using assms(1) by simp_all
  consider (r) "r = Leaf" | (l) "r \<noteq> Leaf" "l = Leaf" | (pre) "r \<noteq> Leaf" "l \<noteq> Leaf" "rn_balance x \<le> 0"
    | (succ) "r \<noteq> Leaf" "l \<noteq> Leaf" "\<not> rn_balance x \<le> 0" by blast
  then show ?thesis
  proof cases
    case r
    then show ?thesis using assms(2,3) av by (auto simp: Let_def)
  next
    case l
    then show ?thesis using assms(2,3) av by (auto simp: Let_def)
  next
    case pre
    obtain z l' h where l': "NaClAvlFindRightMost l = Inr (z, l', h)" "rt_avl l'" "endpoints l = endpoints l' @ [endpoint z]"
      "rt_height l' + (if h then 1 else 0) = rt_height l" "stats_ok l \<longrightarrow> stats_ok l'"
      using NaClAvlFindRightMost_ok [OF av(1) pre(2)] by blast
    let ?z = "z\<lparr>rn_balance := rn_balance x\<rparr>"
    obtain t h' where t: "(if h then NaClAvlTreeBalanceLeft (NaClRangeStatsUpdate l' ?z r)
        else Inr (NaClRangeStatsUpdate l' ?z r, False)) = Inr (t, h')" "rt_avl t"
      "endpoints t = endpoints l' @ endpoint ?z # endpoints r" "stats_ok l' \<and> stats_ok r \<longrightarrow> stats_ok t"
      "rt_height t + (if h' then 1 else 0) = Suc (max (rt_height l) (rt_height r))"
      using after_left [OF l'(2) av(2) l'(4), of ?z] av(3-5) by auto
    have "NaClAvlTreeExtract (Node l x r) key b = Inr (Some (x\<lparr>rn_refcount := rn_refcount x - 1\<rparr>), t, h')"
      using pre assms(2,3) l'(1) t(1) by (auto simp: Let_def split: if_splits)
    then show ?thesis using t l'(3,5) by auto
  next
    case succ
    obtain z r' h where r': "NaClAvlFindLeftMost r = Inr (z, r', h)" "rt_avl r'" "endpoints r = endpoint z # endpoints r'"
      "rt_height r' + (if h then 1 else 0) = rt_height r" "stats_ok r \<longrightarrow> stats_ok r'"
      using NaClAvlFindLeftMost_ok [OF av(2) succ(1)] by blast
    let ?z = "z\<lparr>rn_balance := rn_balance x\<rparr>"
    obtain t h' where t: "(if h then NaClAvlTreeBalanceRight (NaClRangeStatsUpdate l ?z r')
        else Inr (NaClRangeStatsUpdate l ?z r', False)) = Inr (t, h')" "rt_avl t"
      "endpoints t = endpoints l @ endpoint ?z # endpoints r'" "stats_ok l \<and> stats_ok r' \<longrightarrow> stats_ok t"
      "rt_height t + (if h' then 1 else 0) = Suc (max (rt_height l) (rt_height r))"
      using after_right [OF av(1) r'(2) r'(4), of ?z] av(3-5) by auto
    have "NaClAvlTreeExtract (Node l x r) key b = Inr (Some (x\<lparr>rn_refcount := rn_refcount x - 1\<rparr>), t, h')"
      using succ assms(2,3) r'(1) t(1) by (auto simp: Let_def split: if_splits)
    then show ?thesis using t r'(3,5) by auto
  qed
qed

end
