(* ===== verification/RangeTreeRefine.thy ===== *)
theory RangeTreeRefine
  imports RangeTreeProofs
begin

text \<open>
  The range tree implements the interface of interval multisets: its end points are those of
  the intervals it holds, its search counts the intervals around a point, and so it answers
  every sequence of calls as the linked list does.
\<close>

section \<open>Extraction by value\<close>

lemma NaClAvlTreeExtract_ok:
  "rt_avl t \<Longrightarrow> sorted_ends (endpoints t) \<Longrightarrow> rn_value key \<in> fst ` set (endpoints t) \<Longrightarrow>
   \<exists>p t' h. NaClAvlTreeExtract t key False = Inr (p, t', h) \<and> rt_avl t' \<and>
     rt_height t' + (if h then 1 else 0) = rt_height t \<and>
     endpoints t' = del_end (rn_value key) (rn_value_containment_delta key) (endpoints t) \<and>
     (stats_ok t \<longrightarrow> stats_ok t')"
proof (induction t)
  case (Node l x r)
  have s: "sorted_ends (endpoints l @ (rn_value x, rn_value_containment_delta x, rn_refcount x) # endpoints r)"
    using Node.prems(2) by (simp add: endpoint_def)
  have sl: "sorted_ends (endpoints l)" and sr: "sorted_ends (endpoints r)"
    using s by (simp_all add: sorted_wrt_append)
  have av: "rt_avl l" "rt_avl r" "rn_balance x = int (rt_height r) - int (rt_height l)"
    "-1 \<le> rn_balance x" "rn_balance x \<le> 1" using Node.prems(1) by simp_all
  have mem: "rn_value key \<in> fst ` set (endpoints l @ (rn_value x, rn_value_containment_delta x, rn_refcount x) # endpoints r)"
    using Node.prems(3) by (simp add: endpoint_def)
  let ?v = "rn_value key" and ?d = "rn_value_containment_delta key"
  consider "?v < rn_value x" | "rn_value x < ?v" | "?v = rn_value x" by fastforce
  then show ?case
  proof cases
    case 1
    note d = del_end_append(1) [OF s 1 mem, of ?d]
    obtain p l' h where l': "NaClAvlTreeExtract l key False = Inr (p, l', h)" "rt_avl l'"
      "rt_height l' + (if h then 1 else 0) = rt_height l" "endpoints l' = del_end ?v ?d (endpoints l)"
      "stats_ok l \<longrightarrow> stats_ok l'"
      using Node.IH(1) [OF av(1) sl] d by blast
    obtain t h' where t: "(if h then NaClAvlTreeBalanceLeft (NaClRangeStatsUpdate l' x r)
        else Inr (NaClRangeStatsUpdate l' x r, False)) = Inr (t, h')" "rt_avl t"
      "endpoints t = endpoints l' @ endpoint x # endpoints r" "stats_ok l' \<and> stats_ok r \<longrightarrow> stats_ok t"
      "rt_height t + (if h' then 1 else 0) = Suc (max (rt_height l) (rt_height r))"
      using after_left [OF l'(2) av(2) l'(3), of x] av(3-5) by auto
    have "NaClAvlTreeExtract (Node l x r) key False = Inr (p, t, h')"
      using 1 l'(1) t(1) by (auto split: if_splits)
    then show ?thesis using t l'(4,5) d by (auto simp: endpoint_def)
  next
    case 2
    note d = del_end_append(2) [OF s 2, of ?d]
    have "?v \<notin> fst ` set (endpoints l)"
      using s 2 by (auto simp: sorted_wrt_append dest: less_trans)
    then have "?v \<in> fst ` set (endpoints r)" using mem 2 by auto
    then obtain p r' h where r': "NaClAvlTreeExtract r key False = Inr (p, r', h)" "rt_avl r'"
      "rt_height r' + (if h then 1 else 0) = rt_height r" "endpoints r' = del_end ?v ?d (endpoints r)"
      "stats_ok r \<longrightarrow> stats_ok r'"
      using Node.IH(2) [OF av(2) sr] by blast
    obtain t h' where t: "(if h then NaClAvlTreeBalanceRight (NaClRangeStatsUpdate l x r')
        else Inr (NaClRangeStatsUpdate l x r', False)) = Inr (t, h')" "rt_avl t"
      "endpoints t = endpoints l @ endpoint x # endpoints r'" "stats_ok l \<and> stats_ok r' \<longrightarrow> stats_ok t"
      "rt_height t + (if h' then 1 else 0) = Suc (max (rt_height l) (rt_height r))"
      using after_right [OF av(1) r'(2) r'(3), of x] av(3-5) by auto
    have "NaClAvlTreeExtract (Node l x r) key False = Inr (p, t, h')"
      using 2 less_asym [OF 2] r'(1) t(1) by (auto split: if_splits)
    then show ?thesis using t r'(4,5) d by (auto simp: endpoint_def)
  next
    case 3
    note d = del_end_append(3) [OF s 3, of ?d]
    show ?thesis
    proof (cases "rn_refcount x - 1 = 0")
      case True
      then show ?thesis using extract_root [OF Node.prems(1) 3 True, of False] d by (auto simp: endpoint_def)
    next
      case False
      let ?x = "x\<lparr>rn_refcount := rn_refcount x - 1, rn_value_containment_delta := rn_value_containment_delta x - ?d,
          rn_subtree_containment_delta := rn_subtree_containment_delta x - ?d\<rparr>"
      have "NaClAvlTreeExtract (Node l x r) key False = Inr (None, Node l ?x r, False)"
        using 3 False by (simp add: Let_def)
      moreover have "stats_ok (Node l x r) \<longrightarrow> stats_ok (Node l ?x r)"
        by (cases l; cases r) (auto simp: stats_ok_iff algebra_simps)
      moreover have "rt_avl (Node l ?x r)" using av by auto
      moreover have "endpoints (Node l ?x r) = del_end ?v ?d (endpoints (Node l x r))"
        using d False 3 by (simp add: endpoint_def)
      ultimately show ?thesis by (intro exI [of _ None] exI [of _ "Node l ?x r"] exI [of _ False]) simp
    qed
  qed
qed simp

section \<open>The search\<close>

definition delta_sum :: "endpoint list \<Rightarrow> u32" where
  "delta_sum es = sum_list (map (\<lambda>(v, d, c). d) es)"

lemma delta_sum_simps [simp]:
  "delta_sum [] = 0" "delta_sum (e # es) = fst (snd e) + delta_sum es"
  "delta_sum (xs @ ys) = delta_sum xs + delta_sum ys"
  by (simp_all add: delta_sum_def split_beta)

lemma subtree_delta: "stats_ok (Node l x r) \<Longrightarrow> rn_subtree_containment_delta x = delta_sum (endpoints (Node l x r))"
proof (induction "Node l x r" arbitrary: l x r)
  case (Node l x r)
  have "rn_subtree_containment_delta x = rn_value_containment_delta x +
       (case l of Leaf \<Rightarrow> 0 | Node _ ln _ \<Rightarrow> rn_subtree_containment_delta ln) +
       (case r of Leaf \<Rightarrow> 0 | Node _ rn _ \<Rightarrow> rn_subtree_containment_delta rn)"
    using Node.prems by (simp add: stats_ok_iff)
  moreover have "(case t of Leaf \<Rightarrow> 0 | Node _ ln _ \<Rightarrow> rn_subtree_containment_delta ln) = delta_sum (endpoints t)"
    if "t = l \<or> t = r" for t
    using that Node.hyps Node.prems by (cases t) auto
  ultimately show ?case by (simp add: endpoint_def)
qed

text \<open>The end points up to a value, and the start of the gap above the last of them.\<close>

definition upto :: "u32 \<Rightarrow> endpoint list \<Rightarrow> endpoint list" where
  "upto v es = filter (\<lambda>e. fst e \<le> v) es"

definition gap_start :: "u32 \<Rightarrow> endpoint list \<Rightarrow> u32" where
  "gap_start lr es = (if es = [] then lr else fst (last es) + 1)"

lemma upto_all: "\<forall>e\<in>set es. fst e \<le> v \<Longrightarrow> upto v es = es"
  by (simp add: upto_def)

lemma upto_none: "\<forall>e\<in>set es. v < fst e \<Longrightarrow> upto v es = []"
  by (auto simp: upto_def filter_empty_conv)

lemma upto_append [simp]: "upto v (xs @ ys) = upto v xs @ upto v ys"
  by (simp add: upto_def)

lemma FindValue_ok:
  "stats_ok t \<Longrightarrow> sorted_ends (endpoints t) \<Longrightarrow>
   NaClAvlTreeFindValue t ld lr v =
     (let n = ld + delta_sum (upto v (endpoints t)) in
      if v \<in> fst ` set (endpoints t) then (if n = 0 then 1 else n, None)
      else (n, Some (gap_start lr (upto v (endpoints t)))))"
proof (induction t arbitrary: ld lr)
  case Leaf
  then show ?case by (simp add: upto_def gap_start_def)
next
  case (Node l x r)
  have s: "sorted_ends (endpoints l @ (rn_value x, rn_value_containment_delta x, rn_refcount x) # endpoints r)"
    using Node.prems(2) by (simp add: endpoint_def)
  have sl: "sorted_ends (endpoints l)" and sr: "sorted_ends (endpoints r)"
    and lt: "\<forall>e\<in>set (endpoints l). fst e < rn_value x" and gt: "\<forall>e\<in>set (endpoints r). rn_value x < fst e"
    using s by (auto simp: sorted_wrt_append)
  have st: "stats_ok l" "stats_ok r" using Node.prems(1) by simp_all
  have dl: "(case l of Leaf \<Rightarrow> ld | Node _ ln _ \<Rightarrow> ld + rn_subtree_containment_delta ln) = ld + delta_sum (endpoints l)"
    using st(1) subtree_delta by (cases l) auto
  consider "v < rn_value x" | "v = rn_value x" | "rn_value x < v" by fastforce
  then show ?case
  proof cases
    case 1
    then have "upto v (endpoints r) = []" using gt by (intro upto_none) (auto dest: less_trans)
    moreover have "v \<notin> fst ` set (endpoints r)" using 1 gt by (auto dest: less_trans)
    ultimately show ?thesis using 1 Node.IH(1) [OF st(1) sl] by (auto simp: Let_def endpoint_def upto_def)
  next
    case 2
    have "upto v (endpoints r) = []" using 2 gt by (intro upto_none) simp
    moreover have "upto v (endpoints l) = endpoints l" using 2 lt by (intro upto_all) auto
    ultimately show ?thesis using 2 dl by (auto simp: Let_def endpoint_def upto_def add.assoc)
  next
    case 3
    have U: "upto v (endpoints (Node l x r)) = endpoints l @ endpoint x # upto v (endpoints r)"
    proof -
      have "\<forall>e\<in>set (endpoints l). fst e \<le> v" using 3 lt by force
      then have "upto v (endpoints l) = endpoints l" by (rule upto_all)
      then show ?thesis using 3 by (simp add: upto_def endpoint_def)
    qed
    have "v \<notin> fst ` set (endpoints l)" using 3 lt by (auto dest: less_trans)
    then have M: "v \<in> fst ` set (endpoints (Node l x r)) \<longleftrightarrow> v \<in> fst ` set (endpoints r)"
      using 3 by (auto simp: endpoint_def)
    have G: "gap_start lr (endpoints l @ endpoint x # us) = gap_start (rn_value x + 1) us" for us
      by (simp add: gap_start_def endpoint_def)
    have "NaClAvlTreeFindValue (Node l x r) ld lr v =
        NaClAvlTreeFindValue r (ld + delta_sum (endpoints l) + rn_value_containment_delta x) (rn_value x + 1) v"
    proof -
      have "\<not> v < rn_value x" "v \<noteq> rn_value x" using 3 by auto
      then show ?thesis using dl by (simp add: Let_def)
    qed
    then show ?thesis unfolding Node.IH(2) [OF st(2) sr] U M G by (simp add: Let_def endpoint_def add.assoc)
  qed
qed

section \<open>The end points of a multiset of intervals\<close>

text \<open>\<open>ends_rel es net cnt\<close>: the list \<open>es\<close> has for each value its net delta and its reference
  count, and nothing for values without references.\<close>

definition ends_rel :: "endpoint list \<Rightarrow> (u32 \<Rightarrow> int) \<Rightarrow> (u32 \<Rightarrow> nat) \<Rightarrow> bool" where
  "ends_rel es net cnt \<longleftrightarrow> sorted_ends es \<and>
     map_of es = (\<lambda>v. if cnt v = 0 then None else Some (of_int (net v), of_nat (cnt v))) \<and>
     (\<forall>v. cnt v = 0 \<longrightarrow> net v = 0) \<and> (\<forall>v. cnt v < 2 ^ 32)"

lemma fst_ins_end: "fst ` set (ins_end v d es) = insert v (fst ` set es)"
  by (induction v d es rule: ins_end.induct) (simp_all add: insert_commute)

lemma sorted_ins_end: "sorted_ends es \<Longrightarrow> sorted_ends (ins_end v d es)"
proof (induction v d es rule: ins_end.induct)
  case (2 v d w e c xs)
  have "\<forall>x\<in>fst ` set (ins_end v d xs). w < x" if "w < v"
    using 2(2) that unfolding fst_ins_end by auto
  moreover have "w < v" if "v \<noteq> w" "\<not> v < w" using that by simp
  ultimately show ?case using 2 by (auto dest: less_trans)
qed simp

lemma map_of_ins_end:
  "sorted_ends es \<Longrightarrow> map_of (ins_end v d es) =
     (map_of es)(v \<mapsto> (case map_of es v of None \<Rightarrow> (d, 1) | Some (e, c) \<Rightarrow> (e + d, c + 1)))"
proof (induction v d es rule: ins_end.induct)
  case (2 v d w e c xs)
  have "map_of xs v = None" if "v < w"
    using 2(2) that by (auto simp: map_of_eq_None_iff dest: less_trans)
  then show ?case using 2 by (auto simp: fun_eq_iff)
qed (simp add: fun_eq_iff)

lemma fst_del_end: "fst ` set (del_end v d es) \<subseteq> fst ` set es"
  by (induction v d es rule: del_end.induct) (auto split: if_splits)

lemma sorted_del_end: "sorted_ends es \<Longrightarrow> sorted_ends (del_end v d es)"
proof (induction v d es rule: del_end.induct)
  case (2 v d w e c xs)
  have "\<forall>x\<in>fst ` set xs. w < x" using 2(2) by simp
  then have "\<forall>x\<in>fst ` set (del_end v d xs). w < x" using fst_del_end [of v d xs] by blast
  then show ?case using 2 by simp
qed simp

lemma map_of_del_end:
  "sorted_ends es \<Longrightarrow> map_of (del_end v d es) =
     (map_of es)(v := (case map_of es v of None \<Rightarrow> None
       | Some (e, c) \<Rightarrow> if c - 1 \<noteq> 0 then Some (e - d, c - 1) else None))"
proof (induction v d es rule: del_end.induct)
  case (2 v d w e c xs)
  have "map_of xs w = None" using 2(2) by (auto simp: map_of_eq_None_iff)
  then show ?case using 2 by (auto simp: fun_eq_iff)
qed (simp add: fun_eq_iff)

lemma ends_rel_ins:
  assumes "ends_rel es net cnt" "cnt v + 1 < 2 ^ 32"
  shows "ends_rel (ins_end v (of_int i) es) (net(v := net v + i)) (cnt(v := cnt v + 1))"
  using assms sorted_ins_end map_of_ins_end [of es v "of_int i"]
  by (auto simp: ends_rel_def fun_eq_iff)

lemma of_nat_minus_1_eq_0: "n < 2 ^ 32 \<Longrightarrow> (of_nat n - 1 :: u32) = 0 \<longleftrightarrow> n = 1"
proof -
  assume "n < 2 ^ 32"
  then have "unat (of_nat n :: u32) = n" by (simp add: unat_of_nat)
  then have "(of_nat n :: u32) = 1 \<longleftrightarrow> n = 1" by (metis of_nat_1 unat_1)
  then show ?thesis by simp
qed

lemma ends_rel_del:
  assumes "ends_rel es net cnt" "0 < cnt v" "cnt v = 1 \<longrightarrow> net v = i"
  shows "ends_rel (del_end v (of_int i) es) (net(v := net v - i)) (cnt(v := cnt v - 1))"
proof -
  have lim: "cnt v < 2 ^ 32" using assms(1) by (simp add: ends_rel_def)
  have "(of_nat (cnt v) - 1 :: u32) = 0 \<longleftrightarrow> cnt v = 1" by (rule of_nat_minus_1_eq_0 [OF lim])
  moreover have "(of_nat (cnt v - 1) :: u32) = of_nat (cnt v) - 1" using assms(2) by (simp add: of_nat_diff)
  moreover have "cnt v - 1 < 2 ^ 32" using lim by simp
  ultimately show ?thesis
    using assms sorted_del_end map_of_del_end [of es v "of_int i"]
    by (auto simp: ends_rel_def fun_eq_iff)
qed

lemma ends_rel_mem: "ends_rel es net cnt \<Longrightarrow> v \<in> fst ` set es \<longleftrightarrow> 0 < cnt v"
proof -
  assume r: "ends_rel es net cnt"
  have "v \<in> fst ` set es \<longleftrightarrow> map_of es v \<noteq> None" by (simp add: map_of_eq_None_iff)
  also have "\<dots> \<longleftrightarrow> 0 < cnt v" using r by (simp add: ends_rel_def)
  finally show ?thesis .
qed

lemma delta_sum_upto:
  assumes "ends_rel es net cnt"
  shows "delta_sum (upto v es) = of_int (\<Sum>w | w \<le> v. net w)"
proof -
  have d: "distinct (map fst es)" using assms by (simp add: ends_rel_def strict_sorted_iff)
  have val: "fst (the (map_of es w)) = of_int (net w)" if "0 < cnt w" for w
    using assms that by (simp add: ends_rel_def)
  have entry: "snd e = the (map_of es (fst e))" if "e \<in> set es" for e
    using d that by (cases e) (simp add: map_of_is_SomeI)
  have "delta_sum (upto v es) = sum_list (map (\<lambda>w. of_int (net w)) (map fst (upto v es)))"
    unfolding delta_sum_def map_map comp_def
  proof (rule arg_cong [of _ _ sum_list], rule map_cong [OF refl])
    fix e assume "e \<in> set (upto v es)"
    then have e: "e \<in> set es" by (simp add: upto_def)
    then have "0 < cnt (fst e)" using ends_rel_mem [OF assms, of "fst e"] by force
    then have "fst (snd e) = of_int (net (fst e))" unfolding entry [OF e] by (rule val)
    then show "(\<lambda>(v, d, c). d) e = of_int (net (fst e))" by (simp add: split_beta)
  qed
  also have "\<dots> = (\<Sum>w\<in>set (map fst (upto v es)). of_int (net w))"
    using d by (intro sum_list_distinct_conv_sum_set) (simp add: upto_def distinct_map_filter)
  also have "\<dots> = (\<Sum>w | w \<le> v. of_int (net w))"
  proof (rule sum.mono_neutral_left)
    show "\<forall>w\<in>{w. w \<le> v} - set (map fst (upto v es)). (of_int (net w) :: u32) = 0"
    proof
      fix w assume w: "w \<in> {w. w \<le> v} - set (map fst (upto v es))"
      then have "w \<notin> fst ` set es" by (auto simp: upto_def)
      then have "cnt w = 0" using ends_rel_mem [OF assms, of w] by simp
      then show "(of_int (net w) :: u32) = 0" using assms by (simp add: ends_rel_def)
    qed
  qed (auto simp: upto_def)
  also have "\<dots> = of_int (\<Sum>w | w \<le> v. net w)" by simp
  finally show ?thesis .
qed

section \<open>The tree holds a multiset of intervals\<close>

definition starts :: "interval multiset \<Rightarrow> u32 \<Rightarrow> nat" where
  "starts M v = count (image_mset fst M) v"

definition stops :: "interval multiset \<Rightarrow> u32 \<Rightarrow> nat" where
  "stops M v = count (image_mset snd M) v"

definition net_at :: "interval multiset \<Rightarrow> u32 \<Rightarrow> int" where
  "net_at M v = int (starts M v) - int (stops M v)"

definition refs_at :: "interval multiset \<Rightarrow> u32 \<Rightarrow> nat" where
  "refs_at M v = starts M v + stops M v"

definition tree_holds :: "range_tree \<Rightarrow> interval multiset \<Rightarrow> bool" where
  "tree_holds t M \<longleftrightarrow> rt_avl t \<and> stats_ok t \<and> ends_rel (endpoints t) (net_at M) (refs_at M) \<and>
     size M \<le> INTERVAL_LIMIT \<and> (\<forall>i\<in>#M. fst i \<le> snd i)"

lemma refs_at_le: "refs_at M v \<le> 2 * size M"
proof -
  have "count N v \<le> size N" for N :: "u32 multiset" by (rule count_le_size)
  from this [of "image_mset fst M"] this [of "image_mset snd M"] show ?thesis
    by (simp add: refs_at_def starts_def stops_def)
qed

lemma refs_at_pos: "0 < refs_at M v \<longleftrightarrow> (\<exists>i\<in>#M. fst i = v \<or> snd i = v)"
  by (auto simp: refs_at_def starts_def stops_def count_greater_zero_iff image_iff)

lemma at_add_if:
  "net_at (add_mset (f, l) M) v = net_at M v + (if v = f then 1 else 0) - (if v = l then 1 else 0)"
  "refs_at (add_mset (f, l) M) v = refs_at M v + (if v = f then 1 else 0) + (if v = l then 1 else 0)"
  by (simp_all add: net_at_def refs_at_def starts_def stops_def)

lemma net_at_zero: "refs_at M v = 0 \<Longrightarrow> net_at M v = 0"
  by (simp add: net_at_def refs_at_def)

lemma node_init_stats: "stats_ok (Node Leaf (NaClIntervalRangeTreeNodeInit v lr) Leaf)"
  by (simp add: stats_ok_iff NaClIntervalRangeTreeNodeInit_def)

lemma insert_end:
  assumes "rt_avl t" "stats_ok t" "ends_rel (endpoints t) net cnt" "cnt v + 1 < 2 ^ 32"
  shows "\<exists>t' h. NaClAvlTreeInsert t (NaClIntervalRangeTreeNodeInit v lr) = Inr (t', h) \<and> rt_avl t' \<and> stats_ok t' \<and>
    ends_rel (endpoints t') (net(v := net v + lr)) (cnt(v := cnt v + 1))"
proof -
  have "sorted_ends (endpoints t)" using assms(3) by (simp add: ends_rel_def)
  from NaClAvlTreeInsert_ok [OF _ _ node_init_stats assms(1) this, of v lr] obtain t' h where
    "NaClAvlTreeInsert t (NaClIntervalRangeTreeNodeInit v lr) = Inr (t', h)" "rt_avl t'" "stats_ok t'"
    "endpoints t' = ins_end v (of_int lr) (endpoints t)"
    using assms(2) by (auto simp: NaClIntervalRangeTreeNodeInit_def)
  with ends_rel_ins [OF assms(3,4), of lr] show ?thesis by auto
qed

lemma remove_end:
  assumes "rt_avl t" "stats_ok t" "ends_rel (endpoints t) net cnt" "0 < cnt v" "cnt v = 1 \<longrightarrow> net v = lr"
  shows "\<exists>t'. NaClIntervalRangeTreeRemoveVal t v lr = Inr t' \<and> rt_avl t' \<and> stats_ok t' \<and>
    ends_rel (endpoints t') (net(v := net v - lr)) (cnt(v := cnt v - 1))"
proof -
  let ?key = "NaClIntervalRangeTreeNodeInit v lr"
  have "sorted_ends (endpoints t)" using assms(3) by (simp add: ends_rel_def)
  moreover have "rn_value ?key \<in> fst ` set (endpoints t)"
    using ends_rel_mem [OF assms(3)] assms(4) by (simp add: NaClIntervalRangeTreeNodeInit_def)
  ultimately obtain p t' h where
    "NaClAvlTreeExtract t ?key False = Inr (p, t', h)" "rt_avl t'" "stats_ok t'"
    "endpoints t' = del_end v (of_int lr) (endpoints t)"
    using NaClAvlTreeExtract_ok [OF assms(1), of ?key] assms(2) by (auto simp: NaClIntervalRangeTreeNodeInit_def)
  with ends_rel_del [OF assms(3,4,5)] show ?thesis
    by (auto simp: NaClIntervalRangeTreeRemoveVal_def NaClIntervalRangeTreeExtract_def)
qed

lemma tree_add:
  assumes "tree_holds t M" "f \<le> l" "size M < INTERVAL_LIMIT"
  shows "\<exists>t'. NaClIntervalRangeTreeAddInterval (\<lambda>_. True) t f l = Inr t' \<and> tree_holds t' (add_mset (f, l) M)"
proof -
  have t: "rt_avl t" "stats_ok t" "ends_rel (endpoints t) (net_at M) (refs_at M)"
    using assms(1) by (simp_all add: tree_holds_def)
  have lim: "refs_at M v + 2 < 2 ^ 32" for v
    using refs_at_le [of M v] assms(3) by (simp add: INTERVAL_LIMIT_def)
  obtain t1 h1 where t1: "NaClAvlTreeInsert t (NaClIntervalRangeTreeNodeInit f 1) = Inr (t1, h1)" "rt_avl t1" "stats_ok t1"
    "ends_rel (endpoints t1) ((net_at M)(f := net_at M f + 1)) ((refs_at M)(f := refs_at M f + 1))"
    using insert_end [OF t, of f 1] lim [of f] by auto
  have "((refs_at M)(f := refs_at M f + 1)) l + 1 < 2 ^ 32" using lim [of f] lim [of l] by simp
  note ins = insert_end [OF t1(2-4) this, of "-1"]
  have "((net_at M)(f := net_at M f + 1)) (l := ((net_at M)(f := net_at M f + 1)) l + -1) = net_at (add_mset (f, l) M)"
    "((refs_at M)(f := refs_at M f + 1)) (l := ((refs_at M)(f := refs_at M f + 1)) l + 1) = refs_at (add_mset (f, l) M)"
    by (simp_all add: fun_eq_iff at_add_if)
  with ins obtain t2 h2 where
    t2: "NaClAvlTreeInsert t1 (NaClIntervalRangeTreeNodeInit l (-1)) = Inr (t2, h2)" "rt_avl t2" "stats_ok t2"
    "ends_rel (endpoints t2) (net_at (add_mset (f, l) M)) (refs_at (add_mset (f, l) M))"
    by metis
  have "NaClIntervalRangeTreeAddInterval (\<lambda>_. True) t f l = Inr t2"
    using t1(1) t2(1) by (simp add: NaClIntervalRangeTreeAddInterval_def NaClIntervalRangeTreeNodeFactory_def)
  then show ?thesis using t2 assms by (auto simp: tree_holds_def)
qed

lemma tree_remove:
  assumes "tree_holds t M" "(f, l) \<in># M"
  shows "\<exists>t'. NaClIntervalRangeTreeRemoveInterval t f l = Inr t' \<and> tree_holds t' (M - {#(f, l)#})"
proof -
  obtain N where M: "M = add_mset (f, l) N" using assms(2) by (metis insert_DiffM)
  have t: "rt_avl t" "stats_ok t" "ends_rel (endpoints t) (net_at M) (refs_at M)"
    using assms(1) by (simp_all add: tree_holds_def)
  define net1 where "net1 = (net_at M)(l := net_at M l - (-1))"
  define cnt1 where "cnt1 = (refs_at M)(l := refs_at M l - 1)"
  have r: "0 < refs_at M l" by (simp add: M at_add_if)
  have one: "net_at M l = -1" if "refs_at M l = 1"
  proof -
    have "refs_at N l = 0 \<and> l \<noteq> f" using that by (auto simp: M at_add_if split: if_splits)
    then show ?thesis using net_at_zero [of N l] by (simp add: M at_add_if)
  qed
  obtain t1 where t1: "NaClIntervalRangeTreeRemoveVal t l (-1) = Inr t1" "rt_avl t1" "stats_ok t1"
    "ends_rel (endpoints t1) net1 cnt1"
    using remove_end [OF t r, of "-1"] one unfolding net1_def cnt1_def by blast
  have cn: "cnt1 v = refs_at N v + (if v = f then 1 else 0)" "net1 v = net_at N v + (if v = f then 1 else 0)" for v
    by (simp_all add: cnt1_def net1_def M at_add_if)
  have c: "0 < cnt1 f" "cnt1 f = 1 \<longrightarrow> net1 f = 1"
    using net_at_zero [of N f] by (simp_all add: cn)
  obtain t2 where t2: "NaClIntervalRangeTreeRemoveVal t1 f 1 = Inr t2" "rt_avl t2" "stats_ok t2"
    "ends_rel (endpoints t2) (net1(f := net1 f - 1)) (cnt1(f := cnt1 f - 1))"
    using remove_end [OF t1(2-4) c] by blast
  have "net1(f := net1 f - 1) = net_at N" "cnt1(f := cnt1 f - 1) = refs_at N"
    by (auto simp: fun_eq_iff cn)
  then have "tree_holds t2 N" using t2 assms(1) by (simp add: tree_holds_def M)
  then show ?thesis using t1(1) t2(1) by (simp add: NaClIntervalRangeTreeRemoveInterval_def M)
qed

section \<open>Overlap\<close>

text \<open>The net delta up to a point is the number of intervals that start at or before it and end
  after it.\<close>

lemma sum_count_le: "(\<Sum>w | w \<le> (v :: u32). int (count N w)) = int (size (filter_mset (\<lambda>x. x \<le> v) N))"
proof (induction N)
  case (add x N)
  have "(\<Sum>w | w \<le> v. int (count (add_mset x N) w)) =
      (\<Sum>w | w \<le> v. (if w = x then 1 else 0)) + (\<Sum>w | w \<le> v. int (count N w))"
    unfolding sum.distrib [symmetric] by (rule sum.cong) simp_all
  also have "(\<Sum>w | w \<le> v. (if w = x then 1 else 0 :: int)) = (if x \<le> v then 1 else 0)"
    by simp
  finally show ?case using add by simp
qed simp

lemma net_sum:
  assumes "\<forall>i\<in>#M. fst i \<le> snd i"
  shows "(\<Sum>w | w \<le> v. net_at M w) = int (size (filter_mset (\<lambda>i. fst i \<le> v \<and> v < snd i) M))"
proof -
  have sz: "size (filter_mset (\<lambda>x. x \<le> v) (image_mset g M)) = size (filter_mset (\<lambda>i. g i \<le> v) M)" for g
    by (simp add: filter_mset_image_mset)
  have "size (filter_mset (\<lambda>i. fst i \<le> v) M) =
      size (filter_mset (\<lambda>i. fst i \<le> v \<and> v < snd i) M) + size (filter_mset (\<lambda>i. snd i \<le> v) M)"
    using assms
  proof (induction M)
    case (add i M)
    have "fst i \<le> v" if "snd i \<le> v" using add.prems that by (auto intro: order_trans)
    then show ?case using add by (auto simp: not_le)
  qed simp
  then show ?thesis
    by (simp add: net_at_def sum_subtractf starts_def stops_def sum_count_le sz)
qed

lemma find_root:
  assumes "tree_holds t M"
  shows "NaClAvlTreeFindValue t 0 0 v =
    (if 0 < refs_at M v then (fst (NaClAvlTreeFindValue t 0 0 v), None)
     else (of_nat (size (filter_mset (\<lambda>i. fst i \<le> v \<and> v < snd i) M)), Some (gap_start 0 (upto v (endpoints t)))))"
    and "0 < refs_at M v \<Longrightarrow> fst (NaClAvlTreeFindValue t 0 0 v) \<noteq> 0"
proof -
  have t: "stats_ok t" "ends_rel (endpoints t) (net_at M) (refs_at M)" "\<forall>i\<in>#M. fst i \<le> snd i"
    using assms by (simp_all add: tree_holds_def)
  have so: "sorted_ends (endpoints t)" using t(2) by (simp add: ends_rel_def)
  have d: "delta_sum (upto v (endpoints t)) = of_nat (size (filter_mset (\<lambda>i. fst i \<le> v \<and> v < snd i) M))"
    unfolding delta_sum_upto [OF t(2)] net_sum [OF t(3)] by simp
  note F = FindValue_ok [OF t(1) so, of 0 0 v] and mem = ends_rel_mem [OF t(2), of v]
  show "NaClAvlTreeFindValue t 0 0 v =
    (if 0 < refs_at M v then (fst (NaClAvlTreeFindValue t 0 0 v), None)
     else (of_nat (size (filter_mset (\<lambda>i. fst i \<le> v \<and> v < snd i) M)), Some (gap_start 0 (upto v (endpoints t)))))"
    using F mem d by (auto simp: Let_def)
  show "0 < refs_at M v \<Longrightarrow> fst (NaClAvlTreeFindValue t 0 0 v) \<noteq> 0"
    using F mem by (auto simp: Let_def)
qed

lemma plus_1_nonzero:
  assumes "x < (y :: u32)"
  shows "x + 1 \<noteq> 0"
proof
  assume "x + 1 = 0"
  then have "x = -1" by (simp add: eq_neg_iff_add_eq_0)
  with assms show False by (metis word_order.extremum_strict)
qed

lemma gap_start_eq:
  assumes "sorted_ends es" "f \<le> l" "l \<notin> fst ` set es"
  shows "gap_start 0 (upto f es) = gap_start 0 (upto l es) \<longleftrightarrow> (\<forall>e\<in>set es. \<not> (f < fst e \<and> fst e \<le> l))"
proof
  assume none: "\<forall>e\<in>set es. \<not> (f < fst e \<and> fst e \<le> l)"
  have "upto f es = upto l es"
    unfolding upto_def
  proof (rule filter_cong [OF refl])
    fix e assume "e \<in> set es"
    then have "fst e \<le> l \<Longrightarrow> fst e \<le> f" using none by (auto simp: not_less)
    then show "fst e \<le> f \<longleftrightarrow> fst e \<le> l" using assms(2) by auto
  qed
  then show "gap_start 0 (upto f es) = gap_start 0 (upto l es)" by simp
next
  assume eq: "gap_start 0 (upto f es) = gap_start 0 (upto l es)"
  show "\<forall>e\<in>set es. \<not> (f < fst e \<and> fst e \<le> l)"
  proof (intro ballI notI)
    fix e assume e: "e \<in> set es" "f < fst e \<and> fst e \<le> l"
    then have ne: "upto l es \<noteq> []" and el: "e \<in> set (upto l es)" by (auto simp: upto_def filter_empty_conv)
    let ?z = "fst (last (upto l es))"
    have "last (upto l es) \<in> set es" "?z \<le> l" using last_in_set [OF ne] by (auto simp: upto_def)
    then have zl: "?z < l" using assms(3) by force
    have so: "sorted_ends (upto l es)" using assms(1) by (simp add: upto_def sorted_wrt_map sorted_wrt_filter)
    have ez: "fst e \<le> ?z"
    proof (cases "e = last (upto l es)")
      case False
      obtain us where us: "upto l es = us @ [last (upto l es)]" using ne by (metis append_butlast_last_id)
      have "e \<in> set (us @ [last (upto l es)])" using el us by simp
      then have "e \<in> set us" using False by simp
      moreover have "sorted_ends (us @ [last (upto l es)])" using so us by simp
      ultimately have "fst e < ?z" by (auto simp: sorted_wrt_append)
      then show ?thesis by simp
    qed simp
    have gl: "gap_start 0 (upto l es) = ?z + 1" using ne by (simp add: gap_start_def)
    have nz: "?z + 1 \<noteq> 0" using zl by (rule plus_1_nonzero)
    show False
    proof (cases "upto f es = []")
      case True
      then show False using eq gl nz by (simp add: gap_start_def)
    next
      case False
      have "fst (last (upto f es)) \<le> f" using last_in_set [OF False] by (auto simp: upto_def)
      moreover have "fst (last (upto f es)) = ?z" using eq gl False by (simp add: gap_start_def)
      ultimately show False using ez e(2) by auto
    qed
  qed
qed

lemma tree_overlaps:
  assumes "tree_holds t M" "f \<le> l"
  shows "NaClIntervalRangeTreeOverlapsWith t f l \<longleftrightarrow> (\<exists>i\<in>#M. overlaps f l i)"
proof -
  have M: "ends_rel (endpoints t) (net_at M) (refs_at M)" "size M \<le> INTERVAL_LIMIT" "\<forall>i\<in>#M. fst i \<le> snd i"
    using assms(1) by (simp_all add: tree_holds_def)
  have so: "sorted_ends (endpoints t)" using M(1) by (simp add: ends_rel_def)
  note F = find_root [OF assms(1)]
  have at_end: "\<exists>i\<in>#M. fst i \<le> v \<and> v \<le> snd i" if "0 < refs_at M v" for v
    using that M(3) unfolding refs_at_pos by auto
  have cnt: "fst (NaClAvlTreeFindValue t 0 0 v) = 0 \<longleftrightarrow> \<not> (\<exists>i\<in>#M. fst i \<le> v \<and> v \<le> snd i)" for v
  proof (cases "0 < refs_at M v")
    case True
    then show ?thesis using F(2) at_end by blast
  next
    case False
    then have no: "\<forall>i\<in>#M. fst i \<noteq> v \<and> snd i \<noteq> v" using refs_at_pos [of M v] by auto
    let ?A = "filter_mset (\<lambda>i. fst i \<le> v \<and> v < snd i) M"
    have "size ?A \<le> size M" by (rule size_filter_mset_lesseq)
    also have "size M < 2 ^ 32" using M(2) by (simp add: INTERVAL_LIMIT_def)
    finally have "size ?A < 2 ^ 32" .
    then have u: "unat (of_nat (size ?A) :: u32) = size ?A" by (simp add: unat_of_nat)
    have "(of_nat (size ?A) :: u32) = 0 \<longleftrightarrow> unat (of_nat (size ?A) :: u32) = 0" by (simp only: unat_eq_zero)
    also have "\<dots> \<longleftrightarrow> ?A = {#}" unfolding u by (rule size_eq_0_iff_empty)
    also have "\<dots> \<longleftrightarrow> \<not> (\<exists>i\<in>#M. fst i \<le> v \<and> v \<le> snd i)"
      using no by (auto simp: filter_mset_eq_mempty_iff order_le_less)
    finally show ?thesis using F(1) [of v] False by simp
  qed
  have "NaClIntervalRangeTreeOverlapsWith t f l \<longleftrightarrow>
      (\<exists>i\<in>#M. fst i \<le> f \<and> f \<le> snd i) \<or> (\<exists>i\<in>#M. fst i \<le> l \<and> l \<le> snd i) \<or>
      snd (NaClAvlTreeFindValue t 0 0 f) \<noteq> snd (NaClAvlTreeFindValue t 0 0 l)"
    using cnt [of f] cnt [of l] by (auto simp: NaClIntervalRangeTreeOverlapsWith_def split_beta)
  also have "\<dots> \<longleftrightarrow> (\<exists>i\<in>#M. overlaps f l i)"
  proof (cases "0 < refs_at M f \<or> 0 < refs_at M l")
    case True
    then have "(\<exists>i\<in>#M. fst i \<le> f \<and> f \<le> snd i) \<or> (\<exists>i\<in>#M. fst i \<le> l \<and> l \<le> snd i)" using at_end by blast
    then show ?thesis using assms(2) by (auto simp: overlaps_def intro: order_trans)
  next
    case False
    then have fl: "refs_at M f = 0" "refs_at M l = 0" by auto
    then have ends: "\<forall>i\<in>#M. fst i \<noteq> f \<and> snd i \<noteq> f \<and> fst i \<noteq> l \<and> snd i \<noteq> l" using refs_at_pos [of M f] refs_at_pos [of M l] fl by auto
    have l: "l \<notin> fst ` set (endpoints t)" using ends_rel_mem [OF M(1), of l] fl by simp
    have "snd (NaClAvlTreeFindValue t 0 0 f) = snd (NaClAvlTreeFindValue t 0 0 l) \<longleftrightarrow>
        (\<forall>e\<in>set (endpoints t). \<not> (f < fst e \<and> fst e \<le> l))"
      using F(1) [of f] F(1) [of l] fl gap_start_eq [OF so assms(2) l] by simp
    also have "\<dots> \<longleftrightarrow> (\<forall>v\<in>fst ` set (endpoints t). \<not> (f < v \<and> v \<le> l))" by blast
    also have "\<dots> \<longleftrightarrow> (\<forall>v. (\<exists>i\<in>#M. fst i = v \<or> snd i = v) \<longrightarrow> \<not> (f < v \<and> v \<le> l))"
      unfolding Ball_def ends_rel_mem [OF M(1)] refs_at_pos by (rule refl)
    also have "\<dots> \<longleftrightarrow> (\<forall>i\<in>#M. \<not> (f < fst i \<and> fst i \<le> l) \<and> \<not> (f < snd i \<and> snd i \<le> l))" by blast
    finally have gaps: "snd (NaClAvlTreeFindValue t 0 0 f) \<noteq> snd (NaClAvlTreeFindValue t 0 0 l) \<longleftrightarrow>
        (\<exists>i\<in>#M. f < fst i \<and> fst i \<le> l \<or> f < snd i \<and> snd i \<le> l)" by blast
    have "(fst i \<le> f \<and> f \<le> snd i \<or> fst i \<le> l \<and> l \<le> snd i \<or> f < fst i \<and> fst i \<le> l \<or> f < snd i \<and> snd i \<le> l) \<longleftrightarrow>
        overlaps f l i" if "i \<in># M" for i
    proof -
      have "unat (fst i) \<le> unat (snd i)" "unat f \<le> unat l"
        using M(3) that assms(2) by (simp_all add: word_le_nat_alt)
      then show ?thesis unfolding overlaps_def word_le_nat_alt word_less_nat_alt by linarith
    qed
    then show ?thesis unfolding gaps by blast
  qed
  finally show ?thesis .
qed

interpretation rt: interval_multiset NaClIntervalRangeTreeCtor
  "NaClIntervalRangeTreeAddInterval (\<lambda>_. True)" NaClIntervalRangeTreeRemoveInterval
  NaClIntervalRangeTreeOverlapsWith tree_holds
proof unfold_locales
  show "tree_holds NaClIntervalRangeTreeCtor {#}"
    by (simp add: tree_holds_def NaClIntervalRangeTreeCtor_def ends_rel_def net_at_def refs_at_def
        starts_def stops_def fun_eq_iff)
qed (fact tree_add tree_remove tree_overlaps)+

section \<open>The properties\<close>

text \<open>C7: Every sequence of additions, removals and overlap queries that keeps the contract (intervals
  are not empty, only present ones are removed, fewer than \<open>2 ^ 31\<close> are held) returns on the AVL
  range tree, with exactly the answers the multiset of intervals gives.\<close>

theorem range_tree_implements_multiset:
  assumes "im_spec {#} calls = Some (M, answers)"
  shows "\<exists>t. im_exec (NaClIntervalRangeTreeAddInterval (\<lambda>_. True)) NaClIntervalRangeTreeRemoveInterval
      NaClIntervalRangeTreeOverlapsWith NaClIntervalRangeTreeCtor calls = Inr (t, answers) \<and>
    rt_avl t \<and> stats_ok t \<and> sorted_ends (endpoints t)"
  using rt.fresh_exec [OF assms] by (auto simp: tree_holds_def ends_rel_def)

theorem range_tree_implements_multiset_witness:
  "\<exists>t. im_exec (NaClIntervalRangeTreeAddInterval (\<lambda>_. True)) NaClIntervalRangeTreeRemoveInterval
      NaClIntervalRangeTreeOverlapsWith NaClIntervalRangeTreeCtor
      [AddI 10 20, AddI 15 30, QueryI 25 40, RemoveI 15 30, QueryI 25 40, QueryI 20 21]
      = Inr (t, [True, False, True])"
proof -
  have "im_spec {#} [AddI 10 20, AddI 15 30, QueryI 25 40, RemoveI 15 30, QueryI 25 40, QueryI 20 21]
      = Some ({#(10, 20)#}, [True, False, True])"
    by (simp add: overlaps_def INTERVAL_LIMIT_def)
  from range_tree_implements_multiset [OF this] show ?thesis by blast
qed

text \<open>The two implementations behind the virtual table cannot be told apart by a client that
  keeps the contract: the linked list and the AVL tree give the same answers to every sequence of
  calls.\<close>

theorem list_and_tree_agree:
  assumes "im_spec {#} calls \<noteq> None"
  shows "map_sum id snd (im_exec (NaClIntervalListMultisetAddInterval (\<lambda>_. True)) NaClIntervalListMultisetRemoveInterval
      NaClIntervalListMultisetOverlapsWith NaClIntervalListMultisetCtor calls) =
    map_sum id snd (im_exec (NaClIntervalRangeTreeAddInterval (\<lambda>_. True)) NaClIntervalRangeTreeRemoveInterval
      NaClIntervalRangeTreeOverlapsWith NaClIntervalRangeTreeCtor calls)"
proof -
  obtain M bs where "im_spec {#} calls = Some (M, bs)" using assms by auto
  from il.fresh_exec [OF this] rt.fresh_exec [OF this] show ?thesis by auto
qed

theorem list_and_tree_agree_witness:
  "map_sum id snd (im_exec (NaClIntervalListMultisetAddInterval (\<lambda>_. True)) NaClIntervalListMultisetRemoveInterval
      NaClIntervalListMultisetOverlapsWith NaClIntervalListMultisetCtor [AddI 1 2, QueryI 2 3, RemoveI 1 2]) =
    map_sum id snd (im_exec (NaClIntervalRangeTreeAddInterval (\<lambda>_. True)) NaClIntervalRangeTreeRemoveInterval
      NaClIntervalRangeTreeOverlapsWith NaClIntervalRangeTreeCtor [AddI 1 2, QueryI 2 3, RemoveI 1 2])"
  by (rule list_and_tree_agree) (simp add: INTERVAL_LIMIT_def)

end
