(* ===== verification/VmIo.thy ===== *)
theory VmIo
  imports RangeTreeRefine
begin

text \<open>
  Guarding memory against races with input and output in flight (\<open>service_runtime/sel_ldr_sgx.c\<close>):
  an operation registers the addresses it reads or writes for as long as it runs, and a change of
  the memory map stops the process if it would touch one of them. A client of the interface
  \<open>interval_multiset\<close>, through its interpretation on the AVL range tree.
\<close>

section \<open>Operations\<close>

definition NaClVmIoWillStart :: "(nat \<Rightarrow> bool) \<Rightarrow> range_tree \<Rightarrow> u32 \<Rightarrow> u32 \<Rightarrow> range_tree run" where
  "NaClVmIoWillStart mem mem_io_regions addr_first_usr addr_last_usr =
     NaClIntervalRangeTreeAddInterval mem mem_io_regions addr_first_usr addr_last_usr"

definition NaClVmIoHasEnded :: "range_tree \<Rightarrow> u32 \<Rightarrow> u32 \<Rightarrow> range_tree run" where
  "NaClVmIoHasEnded mem_io_regions addr_first_usr addr_last_usr =
     NaClIntervalRangeTreeRemoveInterval mem_io_regions addr_first_usr addr_last_usr"

definition NaClVmIoPendingCheck_mu :: "range_tree \<Rightarrow> u32 \<Rightarrow> u32 \<Rightarrow> unit run" where
  "NaClVmIoPendingCheck_mu mem_io_regions addr_first_usr addr_last_usr =
     (if NaClIntervalRangeTreeOverlapsWith mem_io_regions addr_first_usr addr_last_usr then Inl LogFatal else Inr ())"

section \<open>Operations in flight\<close>

text \<open>The register and the operations that have started and not ended, each on at least one byte.\<close>

inductive io_run :: "range_tree \<Rightarrow> interval multiset \<Rightarrow> bool" where
  io_none: "io_run NaClIntervalRangeTreeCtor {#}"
| io_start: "io_run s M \<Longrightarrow> f \<le> l \<Longrightarrow> size M < INTERVAL_LIMIT \<Longrightarrow> NaClVmIoWillStart (\<lambda>_. True) s f l = Inr s' \<Longrightarrow>
    io_run s' (add_mset (f, l) M)"
| io_end: "io_run s M \<Longrightarrow> (f, l) \<in># M \<Longrightarrow> NaClVmIoHasEnded s f l = Inr s' \<Longrightarrow> io_run s' (M - {#(f, l)#})"

lemma io_run_holds: "io_run s M \<Longrightarrow> tree_holds s M"
proof (induction rule: io_run.induct)
  case io_none
  show ?case by (rule rt.holds_ctor)
next
  case (io_start s M f l s')
  then show ?case using rt.holds_add [OF io_start.IH io_start.hyps(2,3)] by (auto simp: NaClVmIoWillStart_def)
next
  case (io_end s M f l s')
  then show ?case using rt.holds_remove [OF io_end.IH io_end.hyps(2)] by (auto simp: NaClVmIoHasEnded_def)
qed

lemma pending_check_exact:
  assumes "io_run s M" "f \<le> l"
  shows "NaClVmIoPendingCheck_mu s f l =
      (if \<exists>i\<in>#M. \<exists>a. fst i \<le> a \<and> a \<le> snd i \<and> f \<le> a \<and> a \<le> l then Inl LogFatal else Inr ())"
proof -
  have h: "tree_holds s M" by (rule io_run_holds [OF assms(1)])
  have le: "fst i \<le> snd i" if "i \<in># M" for i
    using assms(1) that by (induction rule: io_run.induct) (auto dest: in_diffD)
  have "overlaps f l i \<longleftrightarrow> (\<exists>a. fst i \<le> a \<and> a \<le> snd i \<and> f \<le> a \<and> a \<le> l)" if "i \<in># M" for i
  proof
    assume "overlaps f l i"
    then show "\<exists>a. fst i \<le> a \<and> a \<le> snd i \<and> f \<le> a \<and> a \<le> l"
      using le [OF that] assms(2) by (intro exI [of _ "max (fst i) f"]) (auto simp: overlaps_def)
  qed (auto simp: overlaps_def)
  then show ?thesis
    using rt.holds_overlaps [OF h assms(2)] by (simp add: NaClVmIoPendingCheck_mu_def)
qed

text \<open>C22: With any history of operations on memory, each on at least one byte: a change of the memory
  map is let through exactly if no operation in flight touches a byte of its region, and stops the
  process otherwise; an operation can always be registered and, when it has started, be ended.\<close>

theorem vm_io_check_exact:
  assumes "io_run s M" "f \<le> l"
  shows "NaClVmIoPendingCheck_mu s f l =
      (if \<exists>i\<in>#M. \<exists>a. fst i \<le> a \<and> a \<le> snd i \<and> f \<le> a \<and> a \<le> l then Inl LogFatal else Inr ()) \<and>
    (size M < INTERVAL_LIMIT \<longrightarrow> (\<exists>s'. NaClVmIoWillStart (\<lambda>_. True) s f l = Inr s' \<and> io_run s' (add_mset (f, l) M))) \<and>
    ((f, l) \<in># M \<longrightarrow> (\<exists>s'. NaClVmIoHasEnded s f l = Inr s' \<and> io_run s' (M - {#(f, l)#})))"
proof -
  have h: "tree_holds s M" by (rule io_run_holds [OF assms(1)])
  have "\<exists>s'. NaClVmIoWillStart (\<lambda>_. True) s f l = Inr s' \<and> io_run s' (add_mset (f, l) M)"
    if "size M < INTERVAL_LIMIT"
    using rt.holds_add [OF h assms(2) that] io_start [OF assms that] by (auto simp: NaClVmIoWillStart_def)
  moreover have "\<exists>s'. NaClVmIoHasEnded s f l = Inr s' \<and> io_run s' (M - {#(f, l)#})" if "(f, l) \<in># M"
    using rt.holds_remove [OF h that] io_end [OF assms(1) that] by (auto simp: NaClVmIoHasEnded_def)
  ultimately show ?thesis using pending_check_exact [OF assms] by blast
qed

theorem vm_io_check_exact_witness:
  "\<exists>s. io_run s {#(4096, 4196)#} \<and> NaClVmIoPendingCheck_mu s 0 65535 = Inl LogFatal \<and>
     NaClVmIoPendingCheck_mu s 65536 131071 = Inr ()"
proof -
  have n: "size ({#} :: interval multiset) < INTERVAL_LIMIT" by (simp add: INTERVAL_LIMIT_def)
  have "(4096 :: u32) \<le> 4196" by simp
  from vm_io_check_exact [OF io_none this] n obtain s where
    s: "io_run s {#(4096, 4196)#}" by auto
  have "NaClVmIoPendingCheck_mu s 0 65535 = Inl LogFatal"
    using vm_io_check_exact [OF s, of 0 65535] by (auto intro!: exI [of _ "4100 :: u32"] split: if_splits)
  moreover have "\<not> (\<exists>a :: u32. a \<le> 4196 \<and> 65536 \<le> a)" by (auto simp: word_le_nat_alt)
  then have "NaClVmIoPendingCheck_mu s 65536 131071 = Inr ()"
    using vm_io_check_exact [OF s, of 65536 131071] by auto
  ultimately show ?thesis using s by blast
qed

text \<open>A read of no bytes registers an interval that ends before it starts: no byte is in flight, yet
  a change of the memory around it stops the process.\<close>

lemma empty_io_stops_process:
  "bindE (NaClVmIoWillStart (\<lambda>_. True) NaClIntervalRangeTreeCtor 8192 (8192 + 0 - 1))
     (\<lambda>s. NaClVmIoPendingCheck_mu s 4096 12287) = Inl LogFatal"
  by code_simp

end
