(* ===== verification/SlotTable.thy ===== *)
theory SlotTable
  imports Prelude
begin

text \<open>
  The interface of a table of slots, which the runtime uses for its descriptors and its threads: a
  slot is empty or holds a pointer, and a client reads a slot, overwrites one, or asks for the
  lowest empty one. The laws are stated against the map the table stands for. \<open>DynArray\<close>
  provides it.
\<close>

definition SLOT_LIMIT :: nat where "SLOT_LIMIT = 2 ^ 59"

text \<open>A call a client makes: read a slot, overwrite one, fill the lowest empty one.\<close>

datatype 'a slot_call = GetAt nat | SetAt nat "'a option" | PutFree 'a

text \<open>What it is answered with: what was in the slot, nothing, or the slot chosen.\<close>

datatype 'a slot_answer = Found "'a option" | Done | Chosen nat

text \<open>What the calls mean on maps, \<open>None\<close> where a call is outside the range of the table. The
  lowest empty slot is found by looking at the first \<open>n + 1\<close>, with \<open>n\<close> the number
  of calls and slots so far.\<close>

definition lowest_free :: "(nat \<Rightarrow> 'a option) \<Rightarrow> nat \<Rightarrow> bool" where
  "lowest_free m p \<longleftrightarrow> m p = None \<and> (\<forall>i<p. m i \<noteq> None)"

lemma lowest_free_unique: "lowest_free m p \<Longrightarrow> lowest_free m q \<Longrightarrow> p = q"
  unfolding lowest_free_def by (metis linorder_neqE_nat)

lemma lowest_free_le_card:
  assumes "lowest_free m p" "finite (dom m)"
  shows "p \<le> card (dom m)"
proof -
  have "{..<p} \<subseteq> dom m" using assms(1) by (auto simp: lowest_free_def)
  from card_mono [OF assms(2) this] show ?thesis by simp
qed

inductive slot_spec :: "(nat \<Rightarrow> 'a option) \<Rightarrow> 'a slot_call list \<Rightarrow> 'a slot_answer list \<Rightarrow> (nat \<Rightarrow> 'a option) \<Rightarrow> bool" where
  spec_nil: "slot_spec m [] [] m"
| spec_get: "slot_spec m cs as m' \<Longrightarrow> slot_spec m (GetAt i # cs) (Found (m i) # as) m'"
| spec_set: "i < SLOT_LIMIT \<Longrightarrow> slot_spec (m(i := v)) cs as m' \<Longrightarrow> slot_spec m (SetAt i v # cs) (Done # as) m'"
| spec_put: "lowest_free m p \<Longrightarrow> p < SLOT_LIMIT \<Longrightarrow> slot_spec (m(p := Some v)) cs as m' \<Longrightarrow>
    slot_spec m (PutFree v # cs) (Chosen p # as) m'"

text \<open>The calls on an implementation; the outer option is termination, as for \<open>set\<close>. A set that
  reports failure stops the client, as it does in the runtime.\<close>

fun slot_exec :: "('t \<Rightarrow> nat \<Rightarrow> 'a option run) \<Rightarrow> ('t \<Rightarrow> nat \<Rightarrow> 'a option \<Rightarrow> (bool \<times> 't) run option) \<Rightarrow> ('t \<Rightarrow> (nat \<times> 't) run)
    \<Rightarrow> 't \<Rightarrow> 'a slot_call list \<Rightarrow> ('a slot_answer list \<times> 't) run option" where
  "slot_exec getf setf freef t [] = Some (Inr ([], t))"
| "slot_exec getf setf freef t (GetAt i # cs) =
     (case getf t i of
        Inl e \<Rightarrow> Some (Inl e)
      | Inr v \<Rightarrow> map_option (map_sum id (map_prod ((#) (Found v)) id)) (slot_exec getf setf freef t cs))"
| "slot_exec getf setf freef t (SetAt i v # cs) =
     (case setf t i v of
        None \<Rightarrow> None
      | Some (Inl e) \<Rightarrow> Some (Inl e)
      | Some (Inr (ok, t)) \<Rightarrow>
          if ok then map_option (map_sum id (map_prod ((#) Done) id)) (slot_exec getf setf freef t cs)
          else Some (Inl LogFatal))"
| "slot_exec getf setf freef t (PutFree v # cs) =
     (case freef t of
        Inl e \<Rightarrow> Some (Inl e)
      | Inr (p, t) \<Rightarrow>
          (case setf t p (Some v) of
             None \<Rightarrow> None
           | Some (Inl e) \<Rightarrow> Some (Inl e)
           | Some (Inr (ok, t)) \<Rightarrow>
               if ok then map_option (map_sum id (map_prod ((#) (Chosen p)) id)) (slot_exec getf setf freef t cs)
               else Some (Inl LogFatal)))"

locale slot_table =
  fixes get_slot :: "'t \<Rightarrow> nat \<Rightarrow> 'a option run"
    and set_slot :: "(nat \<Rightarrow> bool) \<Rightarrow> 't \<Rightarrow> nat \<Rightarrow> 'a option \<Rightarrow> (bool \<times> 't) run option"
    and first_free :: "'t \<Rightarrow> (nat \<times> 't) run"
    and holds :: "'t \<Rightarrow> (nat \<Rightarrow> 'a option) \<Rightarrow> bool"
  assumes holds_finite: "holds t m \<Longrightarrow> finite (dom m)"
    and get_law: "holds t m \<Longrightarrow> get_slot t i = Inr (m i)"
    and set_law: "\<lbrakk>holds t m; i < SLOT_LIMIT\<rbrakk> \<Longrightarrow>
      \<exists>ok t'. set_slot mem t i v = Some (Inr (ok, t')) \<and> holds t' (if ok then m(i := v) else m) \<and>
        ((\<forall>n. mem n) \<longrightarrow> ok)"
    and free_law: "holds t m \<Longrightarrow> \<exists>p t'. first_free t = Inr (p, t') \<and> holds t' m \<and> lowest_free m p"
begin

text \<open>With memory to grow, a set succeeds.\<close>

lemma set_succeeds:
  assumes "holds t m" "i < SLOT_LIMIT"
  shows "\<exists>t'. set_slot (\<lambda>_. True) t i v = Some (Inr (True, t')) \<and> holds t' (m(i := v))"
  using set_law [OF assms, of "\<lambda>_. True" v] by auto

lemma free_slot_in_range:
  assumes "holds t m" "card (dom m) < SLOT_LIMIT"
  shows "\<exists>p t'. first_free t = Inr (p, t') \<and> holds t' m \<and> lowest_free m p \<and> p < SLOT_LIMIT \<and> p \<le> card (dom m)"
  using free_law [OF assms(1)] lowest_free_le_card [OF _ holds_finite [OF assms(1)]] assms(2)
  by (metis order_le_less_trans)

text \<open>Any sequence of calls within the range returns, with the answers of the map.\<close>

lemma exec_refines_spec:
  "slot_spec m cs as m' \<Longrightarrow> holds t m \<Longrightarrow>
     \<exists>t'. slot_exec get_slot (set_slot (\<lambda>_. True)) first_free t cs = Some (Inr (as, t')) \<and> holds t' m'"
proof (induction arbitrary: t rule: slot_spec.induct)
  case (spec_get m cs as m' i)
  then show ?case using get_law [OF spec_get.prems, of i] by fastforce
next
  case (spec_set i m v cs as m')
  from set_succeeds [OF spec_set.prems spec_set.hyps(1)] obtain u where
    u: "set_slot (\<lambda>_. True) t i v = Some (Inr (True, u))" "holds u (m(i := v))" by blast
  from spec_set.IH [OF u(2)] u(1) show ?case by fastforce
next
  case (spec_put m p v cs as m')
  from free_law [OF spec_put.prems] obtain q u where
    u: "first_free t = Inr (q, u)" "holds u m" "lowest_free m q" by blast
  have q: "q = p" by (rule lowest_free_unique [OF u(3) spec_put.hyps(1)])
  from set_succeeds [OF u(2) spec_put.hyps(2)] obtain w where
    w: "set_slot (\<lambda>_. True) u p (Some v) = Some (Inr (True, w))" "holds w (m(p := Some v))" by blast
  from spec_put.IH [OF w(2)] w(1) u(1) q show ?case by fastforce
qed simp

end

end
