(* ===== verification/DynArray.thy ===== *)
theory DynArray
  imports SlotTable
begin

text \<open>
  Dynamic arrays of pointers (\<open>service_runtime/dyn_array.c\<close>), which hold the descriptor and
  thread tables. A \<open>size_t\<close> is a natural number, with the reduction modulo \<open>2 ^ 64\<close>
  written out where the code multiplies. A slot is \<open>None\<close> where the code has a null pointer;
  \<open>da_ptr_array\<close> has \<open>ptr_array_space\<close> slots.

  \<open>DynArraySet\<close> returns the array in every case, since a failure of the second \<open>realloc\<close>
  leaves the first one done.
\<close>

section \<open>Operations\<close>

definition kBitsPerWord :: nat where "kBitsPerWord = 32"
definition kWordIndexShift :: nat where "kWordIndexShift = 5"
definition SIZE_T_MAX :: nat where "SIZE_T_MAX = 2 ^ 64 - 1"

record 'a DynArray =
  da_num_entries :: nat
  da_ptr_array :: "'a option list"
  da_ptr_array_space :: nat
  da_available :: "u32 list"
  da_avail_ix :: nat

definition BitsToAllocWords :: "nat \<Rightarrow> nat" where
  "BitsToAllocWords nbits = (nbits + kBitsPerWord - 1) div 2 ^ kWordIndexShift"

definition BitsToIndex :: "nat \<Rightarrow> nat" where
  "BitsToIndex nbits = nbits div 2 ^ kWordIndexShift"

definition BitsToOffset :: "nat \<Rightarrow> nat" where
  "BitsToOffset nbits = nbits mod kBitsPerWord"

definition DynArrayCtor :: "(nat \<Rightarrow> bool) \<Rightarrow> nat \<Rightarrow> 'a DynArray option" where
  "DynArrayCtor mem initial_size =
     (let initial_size = (if initial_size = 0 then 32 else initial_size) in
      if SIZE_T_MAX div 8 < initial_size \<or> SIZE_T_MAX div 4 < BitsToAllocWords initial_size then None
      else if \<not> mem (initial_size * 8) then None
      else if \<not> mem (BitsToAllocWords initial_size * 4) then None
      else Some \<lparr>da_num_entries = 0, da_ptr_array = replicate initial_size None,
                 da_ptr_array_space = initial_size,
                 da_available = replicate (BitsToAllocWords initial_size) 0, da_avail_ix = 0\<rparr>)"

definition DynArrayDtor :: "'a DynArray \<Rightarrow> 'a DynArray" where
  "DynArrayDtor dap = dap\<lparr>da_num_entries := 0, da_ptr_array := [], da_ptr_array_space := 0,
                          da_available := []\<rparr>"

definition DynArrayGet :: "'a DynArray \<Rightarrow> nat \<Rightarrow> 'a option run" where
  "DynArrayGet dap idx =
     (if idx < da_num_entries dap then
        if idx < length (da_ptr_array dap) then Inr (da_ptr_array dap ! idx) else Inl OutOfBounds
      else Inr None)"

text \<open>The loop that finds the space to grow to. It does not return when the space is 0 (an array
  that was destroyed); the inner \<open>None\<close> is the return after an overflow.\<close>

partial_function (option) desired_space_loop :: "nat \<Rightarrow> nat \<Rightarrow> nat option option" where
  "desired_space_loop idx desired_space =
     (if idx \<ge> desired_space then
        let tmp = 2 * desired_space mod 2 ^ 64 in
        if tmp < desired_space then Some None else desired_space_loop idx tmp
      else Some (Some desired_space))"

text \<open>Growing: a size in bytes that wraps around gives a block that is too small for the stores
  that follow.\<close>

definition da_grow :: "(nat \<Rightarrow> bool) \<Rightarrow> 'a DynArray \<Rightarrow> nat \<Rightarrow> (bool \<times> 'a DynArray) run" where
  "da_grow mem dap desired_space =
     (if \<not> mem (desired_space * 8 mod 2 ^ 64) then Inr (False, dap)
      else if 2 ^ 64 \<le> desired_space * 8 then Inl OutOfBounds
      else
        let old_space = da_ptr_array_space dap;
            dap = dap\<lparr>da_ptr_array := take old_space (da_ptr_array dap) @
                                        replicate (desired_space - old_space) None\<rparr>;
            old_avail_nwords = BitsToAllocWords old_space;
            new_avail_nwords = BitsToAllocWords desired_space
        in
        if \<not> mem (new_avail_nwords * 4) then Inr (False, dap)
        else Inr (True, dap\<lparr>da_available := take old_avail_nwords (da_available dap) @
                                               replicate (new_avail_nwords - old_avail_nwords) 0,
                            da_ptr_array_space := desired_space\<rparr>))"

definition da_store :: "'a DynArray \<Rightarrow> nat \<Rightarrow> 'a option \<Rightarrow> 'a DynArray run" where
  "da_store dap idx ptr =
     (let ix = BitsToIndex idx in
      if \<not> idx < length (da_ptr_array dap) \<or> \<not> ix < length (da_available dap) then Inl OutOfBounds
      else
        let dap = dap\<lparr>da_ptr_array := (da_ptr_array dap)[idx := ptr]\<rparr>;
            w = da_available dap ! ix;
            dap =
              (if ptr \<noteq> None then
                 dap\<lparr>da_available := (da_available dap)[ix := w OR push_bit (BitsToOffset idx) 1]\<rparr>
               else
                 let dap = dap\<lparr>da_available :=
                       (da_available dap)[ix := w AND NOT (push_bit (BitsToOffset idx) 1)]\<rparr> in
                 if ix < da_avail_ix dap then dap\<lparr>da_avail_ix := ix\<rparr> else dap)
        in Inr (if da_num_entries dap \<le> idx then dap\<lparr>da_num_entries := idx + 1\<rparr> else dap))"

text \<open>The outer option is termination, the boolean the return value.\<close>

definition DynArraySet :: "(nat \<Rightarrow> bool) \<Rightarrow> 'a DynArray \<Rightarrow> nat \<Rightarrow> 'a option \<Rightarrow> (bool \<times> 'a DynArray) run option" where
  "DynArraySet mem dap idx ptr =
     (case desired_space_loop idx (da_ptr_array_space dap) of
        None \<Rightarrow> None
      | Some None \<Rightarrow> Some (Inr (False, dap))
      | Some (Some desired_space) \<Rightarrow> Some (
          bindE (if desired_space \<noteq> da_ptr_array_space dap then da_grow mem dap desired_space
                 else Inr (True, dap)) (\<lambda>(ok, dap).
            if \<not> ok then Inr (False, dap)
            else bindE (da_store dap idx ptr) (\<lambda>dap. Inr (True, dap)))))"

text \<open>\<open>ffs\<close> of the C library: one more than the position of the lowest set bit, 0 for 0.\<close>

definition ffs :: "u32 \<Rightarrow> nat" where
  "ffs w = (case find (bit w) [0..<32] of None \<Rightarrow> 0 | Some i \<Rightarrow> i + 1)"

text \<open>The index of the first word that is not all ones, from the hint on.\<close>

function first_avail_loop :: "u32 list \<Rightarrow> nat \<Rightarrow> nat \<Rightarrow> nat run" where
  "first_avail_loop available ix last_ix =
     (if ix < last_ix then
        if ix < length available then
          if 0 \<noteq> NOT (available ! ix) then Inr ix else first_avail_loop available (Suc ix) last_ix
        else Inl OutOfBounds
      else Inr ix)"
  by pat_completeness auto
termination
  by (relation "measure (\<lambda>(available, ix, last_ix). last_ix - ix)") auto

declare first_avail_loop.simps [simp del]

definition DynArrayFirstAvail :: "'a DynArray \<Rightarrow> (nat \<times> 'a DynArray) run" where
  "DynArrayFirstAvail dap =
     (let last_ix = BitsToAllocWords (da_ptr_array_space dap) in
      bindE (first_avail_loop (da_available dap) (da_avail_ix dap) last_ix) (\<lambda>ix.
        if ix < last_ix then
          Inr (ffs (NOT (da_available dap ! ix)) - 1 + ix * 2 ^ kWordIndexShift, dap\<lparr>da_avail_ix := ix\<rparr>)
        else Inr (da_ptr_array_space dap, dap)))"

section \<open>The invariant\<close>

definition avail_bit :: "'a DynArray \<Rightarrow> nat \<Rightarrow> bool" where
  "avail_bit dap i \<longleftrightarrow> bit (da_available dap ! (i div 32)) (i mod 32)"

text \<open>The content of the array as a map: slots beyond the space are empty.\<close>

definition slot :: "'a DynArray \<Rightarrow> nat \<Rightarrow> 'a option" where
  "slot dap i = (if i < da_ptr_array_space dap then da_ptr_array dap ! i else None)"

definition wf_dyn :: "'a DynArray \<Rightarrow> bool" where
  "wf_dyn dap \<longleftrightarrow> 0 < da_ptr_array_space dap \<and> da_ptr_array_space dap < 2 ^ 60 \<and> da_ptr_array_space dap \<le> length (da_ptr_array dap) \<and>
     length (da_available dap) = BitsToAllocWords (da_ptr_array_space dap) \<and>
     (\<forall>i < 32 * length (da_available dap). avail_bit dap i \<longleftrightarrow> slot dap i \<noteq> None) \<and>
     (\<forall>i \<ge> da_num_entries dap. slot dap i = None) \<and> da_num_entries dap \<le> da_ptr_array_space dap \<and>
     (\<forall>i < 32 * da_avail_ix dap. slot dap i \<noteq> None)"

section \<open>Growing\<close>

lemma desired_space_loop_returns:
  "0 < d \<Longrightarrow> d < 2 ^ 64 \<Longrightarrow> desired_space_loop idx d \<noteq> None"
proof (induction "2 ^ 64 - d" arbitrary: d rule: less_induct)
  case less
  have "2 * d mod 2 ^ 64 < d \<or> d < 2 * d mod 2 ^ 64 \<and> 2 * d mod 2 ^ 64 < 2 ^ 64"
  proof (cases "2 * d < 2 ^ 64")
    case False
    then have "2 * d mod 2 ^ 64 = 2 * d - 2 ^ 64" using less.prems(2) by (subst le_mod_geq) simp_all
    then show ?thesis using False less.prems by linarith
  qed (use less.prems in simp)
  then show ?case
    using less.hyps [of "2 * d mod 2 ^ 64"] less.prems
    by (subst desired_space_loop.simps) (auto simp: Let_def)
qed

lemma desired_space_loop_finds:
  "0 < d \<Longrightarrow> d < 2 ^ 60 \<Longrightarrow> idx < 2 ^ 59 \<Longrightarrow>
   \<exists>e. desired_space_loop idx d = Some (Some e) \<and> idx < e \<and> d \<le> e \<and> e < 2 ^ 60"
proof (induction "2 ^ 60 - d" arbitrary: d rule: less_induct)
  case less
  show ?case
  proof (cases "d \<le> idx")
    case True
    then have m: "2 * d mod 2 ^ 64 = 2 * d" "2 * d < 2 ^ 60" using less.prems(3) by simp_all
    obtain e where e: "desired_space_loop idx (2 * d) = Some (Some e)" "idx < e" "2 * d \<le> e" "e < 2 ^ 60"
    proof -
      have "2 ^ 60 - 2 * d < 2 ^ 60 - d" using m(2) less.prems(1) by linarith
      from less.hyps [OF this] m(2) less.prems(1,3) that show ?thesis by auto
    qed
    have "desired_space_loop idx d = Some (Some e)"
      using True e(1) m less.prems(1) by (subst desired_space_loop.simps) (simp add: Let_def)
    then show ?thesis using e by (intro exI [of _ e]) simp
  next
    case False
    then show ?thesis using less.prems by (subst desired_space_loop.simps) simp
  qed
qed

lemma alloc_words_bounds: "n \<le> 32 * BitsToAllocWords n" "32 * BitsToAllocWords n < n + 32"
  by (auto simp: BitsToAllocWords_def kBitsPerWord_def kWordIndexShift_def)

lemma alloc_words_mono: "m \<le> n \<Longrightarrow> BitsToAllocWords m \<le> BitsToAllocWords n"
  by (auto simp: BitsToAllocWords_def kBitsPerWord_def kWordIndexShift_def intro!: div_le_mono)

lemma avail_bit_beyond:
  assumes "wf_dyn dap" "da_ptr_array_space dap \<le> i" "i < 32 * length (da_available dap)"
  shows "\<not> avail_bit dap i"
  using assms by (auto simp: wf_dyn_def slot_def)

lemma da_grow_ok:
  assumes wf: "wf_dyn dap" and e: "da_ptr_array_space dap \<le> e" "e < 2 ^ 60"
  shows "\<exists>ok dap'. da_grow mem dap e = Inr (ok, dap') \<and> wf_dyn dap' \<and> slot dap' = slot dap \<and>
    (ok \<longrightarrow> da_ptr_array_space dap' = e) \<and> (\<not> ok \<longrightarrow> \<not> (\<forall>n. mem n)) \<and> da_num_entries dap' = da_num_entries dap"
proof -
  let ?sp = "da_ptr_array_space dap" and ?w = "BitsToAllocWords (da_ptr_array_space dap)"
  let ?d1 = "dap\<lparr>da_ptr_array := take ?sp (da_ptr_array dap) @ replicate (e - ?sp) None\<rparr>"
  let ?d2 = "?d1\<lparr>da_available := take ?w (da_available dap) @ replicate (BitsToAllocWords e - ?w) 0,
    da_ptr_array_space := e\<rparr>"
  have n: "?sp \<le> length (da_ptr_array dap)" "length (da_available dap) = ?w" using wf by (simp_all add: wf_dyn_def)
  have mono: "?w \<le> BitsToAllocWords e" using e(1) by (rule alloc_words_mono)
  have s1: "slot ?d1 = slot dap" using n by (auto simp: slot_def fun_eq_iff nth_append)
  have s2: "slot ?d2 = slot dap" using n e by (auto simp: slot_def fun_eq_iff nth_append)
  have "avail_bit ?d1 = avail_bit dap" by (simp add: avail_bit_def fun_eq_iff)
  then have w1: "wf_dyn ?d1" using wf s1 n e by (simp add: wf_dyn_def)
  have b: "avail_bit ?d2 i \<longleftrightarrow> slot dap i \<noteq> None" if i: "i < 32 * BitsToAllocWords e" for i
  proof (cases "i < 32 * ?w")
    case True
    then have "i div 32 < ?w" by (simp add: less_mult_imp_div_less mult.commute)
    then have "avail_bit ?d2 i = avail_bit dap i" using n by (simp add: avail_bit_def nth_append)
    then show ?thesis using wf True n by (simp add: wf_dyn_def)
  next
    case False
    then have "?w \<le> i div 32" "i div 32 < BitsToAllocWords e" using i by auto
    then have "\<not> avail_bit ?d2 i" using n by (simp add: avail_bit_def nth_append)
    moreover have "slot dap i = None" using False alloc_words_bounds(1) [of ?sp] by (simp add: slot_def)
    ultimately show ?thesis by simp
  qed
  have "length (da_available ?d2) = BitsToAllocWords e" using n mono by simp
  then have w2: "wf_dyn ?d2" using wf s2 b n e by (simp add: wf_dyn_def)
  have "\<not> 2 ^ 64 \<le> e * 8" using e(2) by simp
  then have run: "da_grow mem dap e = Inr (if \<not> mem (e * 8 mod 2 ^ 64) then (False, dap)
      else if \<not> mem (BitsToAllocWords e * 4) then (False, ?d1) else (True, ?d2))"
    unfolding da_grow_def Let_def by simp
  consider "\<not> mem (e * 8 mod 2 ^ 64)" | "mem (e * 8 mod 2 ^ 64)" "\<not> mem (BitsToAllocWords e * 4)"
    | "mem (e * 8 mod 2 ^ 64)" "mem (BitsToAllocWords e * 4)" by blast
  then show ?thesis
  proof cases
    case 1
    then show ?thesis unfolding run using wf by auto
  next
    case 2
    then show ?thesis unfolding run using w1 s1 by auto
  next
    case 3
    then show ?thesis unfolding run using w2 s2 by auto
  qed
qed

section \<open>Storing and reading\<close>

lemma DynArrayGet_slot: "wf_dyn dap \<Longrightarrow> DynArrayGet dap idx = Inr (slot dap idx)"
  by (auto simp: DynArrayGet_def wf_dyn_def slot_def)

lemma same_word_bit: "i div 32 = j div 32 \<Longrightarrow> i mod 32 = j mod 32 \<longleftrightarrow> i = (j :: nat)"
  by (metis div_mult_mod_eq)

lemma set_bit_words:
  assumes "i div 32 < length av" "idx div 32 < length av"
  shows "bit (av[idx div 32 := av ! (idx div 32) OR push_bit (idx mod 32) (1 :: u32)] ! (i div 32)) (i mod 32) \<longleftrightarrow>
      i = idx \<or> bit (av ! (i div 32)) (i mod 32)"
    and "bit (av[idx div 32 := av ! (idx div 32) AND NOT (push_bit (idx mod 32) (1 :: u32))] ! (i div 32)) (i mod 32) \<longleftrightarrow>
      i \<noteq> idx \<and> bit (av ! (i div 32)) (i mod 32)"
  using assms same_word_bit [of i idx]
  by (cases "i div 32 = idx div 32"; auto simp: bit_simps nth_list_update)+

lemma da_store_ok:
  assumes wf: "wf_dyn dap" and idx: "idx < da_ptr_array_space dap"
  shows "\<exists>dap'. da_store dap idx ptr = Inr dap' \<and> wf_dyn dap' \<and> slot dap' = (slot dap)(idx := ptr)"
proof -
  let ?ix = "idx div 32" and ?av = "da_available dap"
  have len: "idx < length (da_ptr_array dap)" "length ?av = BitsToAllocWords (da_ptr_array_space dap)"
    using wf idx by (simp_all add: wf_dyn_def)
  have "idx < 32 * length ?av" using alloc_words_bounds(1) [of "da_ptr_array_space dap"] idx len(2) by simp
  then have ix: "?ix < length ?av" by (simp add: less_mult_imp_div_less mult.commute)
  define av where "av = (if ptr \<noteq> None then ?av[?ix := ?av ! ?ix OR push_bit (idx mod 32) 1]
      else ?av[?ix := ?av ! ?ix AND NOT (push_bit (idx mod 32) 1)])"
  define hint where "hint = (if ptr = None \<and> ?ix < da_avail_ix dap then ?ix else da_avail_ix dap)"
  define d where "d = dap\<lparr>da_ptr_array := (da_ptr_array dap)[idx := ptr], da_available := av, da_avail_ix := hint,
      da_num_entries := max (da_num_entries dap) (idx + 1)\<rparr>"
  have run: "da_store dap idx ptr = Inr d"
    using len ix by (cases dap; cases ptr)
      (simp_all add: da_store_def Let_def BitsToIndex_def BitsToOffset_def kWordIndexShift_def kBitsPerWord_def
        d_def av_def hint_def max_def)
  have sl: "slot d = (slot dap)(idx := ptr)"
    using idx len by (auto simp: slot_def d_def fun_eq_iff)
  have bits: "avail_bit d i \<longleftrightarrow> slot d i \<noteq> None" if i: "i < 32 * length ?av" for i
  proof -
    have "i div 32 < length ?av" using i by (simp add: less_mult_imp_div_less mult.commute)
    from set_bit_words [OF this ix] have "avail_bit d i \<longleftrightarrow> (if i = idx then ptr \<noteq> None else avail_bit dap i)"
      by (auto simp: avail_bit_def d_def av_def)
    moreover have "avail_bit dap i \<longleftrightarrow> slot dap i \<noteq> None" using wf i by (simp add: wf_dyn_def)
    ultimately show ?thesis unfolding sl by auto
  qed
  have hints: "slot d i \<noteq> None" if "i < 32 * hint" for i
  proof (cases "i = idx")
    case True
    have "ptr \<noteq> None"
    proof
      assume "ptr = None"
      then have "hint \<le> ?ix" by (auto simp: hint_def)
      with that True show False by auto
    qed
    then show ?thesis using True sl by simp
  next
    case False
    have "hint \<le> da_avail_ix dap" by (auto simp: hint_def)
    with that have "i < 32 * da_avail_ix dap" by simp
    then show ?thesis using wf False sl by (simp add: wf_dyn_def)
  qed
  have f: "da_ptr_array_space d = da_ptr_array_space dap" "length (da_ptr_array d) = length (da_ptr_array dap)"
    "length (da_available d) = length ?av" "da_avail_ix d = hint" "da_num_entries d = max (da_num_entries dap) (idx + 1)"
    by (simp_all add: d_def av_def)
  have "slot d i = None" if "da_num_entries d \<le> i" for i
    using that wf unfolding sl f by (simp add: wf_dyn_def)
  moreover have "da_num_entries d \<le> da_ptr_array_space d"
    using wf idx unfolding f by (simp add: wf_dyn_def)
  ultimately have "wf_dyn d"
    using wf bits hints unfolding wf_dyn_def f by (intro conjI) simp_all
  with run sl show ?thesis by blast
qed

lemma DynArraySet_ok:
  assumes wf: "wf_dyn dap" and idx: "idx < 2 ^ 59"
  shows "\<exists>ok dap'. DynArraySet mem dap idx ptr = Some (Inr (ok, dap')) \<and> wf_dyn dap' \<and>
    slot dap' = (if ok then (slot dap)(idx := ptr) else slot dap) \<and> ((\<forall>n. mem n) \<longrightarrow> ok)"
proof -
  have sp: "0 < da_ptr_array_space dap" "da_ptr_array_space dap < 2 ^ 60" using wf by (simp_all add: wf_dyn_def)
  obtain e where e: "desired_space_loop idx (da_ptr_array_space dap) = Some (Some e)" "idx < e"
    "da_ptr_array_space dap \<le> e" "e < 2 ^ 60"
    using desired_space_loop_finds [OF sp idx] by blast
  obtain ok g where g: "(if e \<noteq> da_ptr_array_space dap then da_grow mem dap e else Inr (True, dap)) = Inr (ok, g)"
    "wf_dyn g" "slot g = slot dap" "ok \<longrightarrow> da_ptr_array_space g = e" "\<not> ok \<longrightarrow> \<not> (\<forall>n. mem n)"
    using da_grow_ok [OF wf e(3,4), of mem] wf by (cases "e = da_ptr_array_space dap") auto
  show ?thesis
  proof (cases ok)
    case True
    obtain d where "da_store g idx ptr = Inr d" "wf_dyn d" "slot d = (slot g)(idx := ptr)"
      using da_store_ok [OF g(2), of idx ptr] g(4) e(2) True by auto
    then have "DynArraySet mem dap idx ptr = Some (Inr (True, d))" "wf_dyn d" "slot d = (slot dap)(idx := ptr)"
      using e(1) g True unfolding DynArraySet_def by simp_all
    then show ?thesis by (intro exI [of _ True] exI [of _ d]) simp
  next
    case False
    then have "DynArraySet mem dap idx ptr = Some (Inr (False, dap)) \<or> DynArraySet mem dap idx ptr = Some (Inr (False, g))"
      using e(1) g unfolding DynArraySet_def by simp
    then show ?thesis using False e g wf by (intro exI [of _ False]) auto
  qed
qed

section \<open>The first free slot\<close>

lemma ffs_least:
  assumes "w \<noteq> 0"
  shows "ffs w - 1 < 32 \<and> bit w (ffs w - 1) \<and> (\<forall>j < ffs w - 1. \<not> bit w j)"
proof -
  have ex: "\<exists>i<32. bit w i"
  proof (rule ccontr)
    assume n: "\<not> (\<exists>i<32. bit w i)"
    have "w = 0" using n by (intro bit_word_eqI) simp
    with assms show False by simp
  qed
  then obtain i where i: "find (bit w) [0..<32] = Some i"
    using find_None_iff [of "bit w" "[0..<32]"] by (cases "find (bit w) [0..<32]") auto
  then obtain n where "n < 32" "i = [0..<32] ! n" "bit w i" "\<forall>j<n. \<not> bit w ([0..<32] ! j)"
    unfolding find_Some_iff by auto
  then show ?thesis using i by (simp add: ffs_def)
qed

lemma first_avail_loop_ok:
  "last_ix \<le> length av \<Longrightarrow> ix \<le> last_ix \<Longrightarrow>
   \<exists>r. first_avail_loop av ix last_ix = Inr r \<and> ix \<le> r \<and> r \<le> last_ix \<and>
     (\<forall>k. ix \<le> k \<and> k < r \<longrightarrow> NOT (av ! k) = 0) \<and> (r < last_ix \<longrightarrow> NOT (av ! r) \<noteq> 0)"
proof (induction av ix last_ix rule: first_avail_loop.induct)
  case (1 av ix last_ix)
  show ?case
  proof (cases "ix < last_ix \<and> NOT (av ! ix) = 0")
    case True
    then obtain r where "first_avail_loop av (Suc ix) last_ix = Inr r" "Suc ix \<le> r" "r \<le> last_ix"
      "\<forall>k. Suc ix \<le> k \<and> k < r \<longrightarrow> NOT (av ! k) = 0" "r < last_ix \<longrightarrow> NOT (av ! r) \<noteq> 0"
      using 1 by auto
    moreover have "first_avail_loop av ix last_ix = first_avail_loop av (Suc ix) last_ix"
      using True 1(2) by (subst first_avail_loop.simps) simp
    moreover have "k = ix \<or> Suc ix \<le> k" if "ix \<le> k" for k using that by auto
    ultimately show ?thesis using True by (intro exI [of _ r]) auto
  next
    case False
    have "first_avail_loop av ix last_ix = Inr ix"
      using False 1(2,3) by (subst first_avail_loop.simps) auto
    then show ?thesis using False 1(3) by (intro exI [of _ ix]) auto
  qed
qed

lemma DynArrayFirstAvail_ok:
  assumes wf: "wf_dyn dap"
  shows "\<exists>p dap'. DynArrayFirstAvail dap = Inr (p, dap') \<and> wf_dyn dap' \<and> slot dap' = slot dap \<and>
    slot dap p = None \<and> (\<forall>i<p. slot dap i \<noteq> None) \<and> p < 2 ^ 60 + 32"
proof -
  let ?sp = "da_ptr_array_space dap" and ?av = "da_available dap" and ?n = "length (da_available dap)"
  have n: "?n = BitsToAllocWords ?sp" and hint: "\<forall>i < 32 * da_avail_ix dap. slot dap i \<noteq> None"
    and sp: "?sp < 2 ^ 60" using wf by (simp_all add: wf_dyn_def)
  have bits: "avail_bit dap i \<longleftrightarrow> slot dap i \<noteq> None" if "i < 32 * ?n" for i using wf that by (simp add: wf_dyn_def)
  have hn: "da_avail_ix dap \<le> ?n"
  proof (rule ccontr)
    assume "\<not> da_avail_ix dap \<le> ?n"
    then have "?sp < 32 * da_avail_ix dap" using alloc_words_bounds(1) [of ?sp] n by linarith
    then have "slot dap ?sp \<noteq> None" using hint by blast
    then show False by (simp add: slot_def)
  qed
  obtain r where r: "first_avail_loop ?av (da_avail_ix dap) ?n = Inr r" "da_avail_ix dap \<le> r" "r \<le> ?n"
    "\<forall>k. da_avail_ix dap \<le> k \<and> k < r \<longrightarrow> NOT (?av ! k) = 0" "r < ?n \<longrightarrow> NOT (?av ! r) \<noteq> 0"
    using first_avail_loop_ok [OF order_refl hn] by blast
  have full: "slot dap i \<noteq> None" if "i < 32 * r" for i
  proof (cases "i < 32 * da_avail_ix dap")
    case False
    then have k: "da_avail_ix dap \<le> i div 32" "i div 32 < r" using that by auto
    then have "NOT (?av ! (i div 32)) = 0" using r(4) by blast
    moreover have "bit (NOT (?av ! (i div 32))) (i mod 32) \<longleftrightarrow> \<not> avail_bit dap i"
      by (simp add: avail_bit_def bit_simps)
    ultimately have "avail_bit dap i" by simp
    moreover have "i < 32 * ?n" using that r(3) by simp
    ultimately show ?thesis using bits by blast
  qed (use hint in blast)
  show ?thesis
  proof (cases "r < ?n")
    case True
    let ?w = "NOT (?av ! r)" and ?d = "dap\<lparr>da_avail_ix := r\<rparr>"
    define p where "p = ffs ?w - 1 + r * 32"
    note f = ffs_least [of ?w]
    have pos: "ffs ?w - 1 < 32" "bit ?w (ffs ?w - 1)" "\<forall>j < ffs ?w - 1. \<not> bit ?w j" using f r(5) True by auto
    have at: "avail_bit dap (j + r * 32) \<longleftrightarrow> \<not> bit ?w j" if "j < 32" for j
      using that by (simp add: avail_bit_def bit_simps)
    have lt: "j + r * 32 < 32 * ?n" if "j < 32" for j using that True by simp
    have "slot dap p = None" using at [OF pos(1)] bits [OF lt [OF pos(1)]] pos(2) by (simp add: p_def)
    moreover have "slot dap i \<noteq> None" if "i < p" for i
    proof (cases "i < 32 * r")
      case False
      define j where "j = i - r * 32"
      have j: "j < ffs ?w - 1" "i = j + r * 32" using that False by (auto simp: j_def p_def)
      then have "j < 32" using pos(1) by linarith
      then show ?thesis using at [of j] bits [OF lt [of j]] pos(3) j by simp
    qed (use full in blast)
    moreover have "wf_dyn ?d"
    proof -
      have "slot ?d = slot dap" "avail_bit ?d = avail_bit dap" by (simp_all add: slot_def avail_bit_def fun_eq_iff)
      then show ?thesis using wf full by (simp add: wf_dyn_def)
    qed
    moreover have "slot ?d = slot dap" by (simp add: slot_def fun_eq_iff)
    moreover have "p < 2 ^ 60 + 32" using lt [OF pos(1)] alloc_words_bounds(2) [of ?sp] sp n by (simp add: p_def)
    moreover have "DynArrayFirstAvail dap = Inr (p, ?d)"
      using r(1) True n by (simp add: DynArrayFirstAvail_def Let_def p_def kWordIndexShift_def)
    ultimately show ?thesis by blast
  next
    case False
    then have rn: "r = ?n" using r(3) by simp
    have "DynArrayFirstAvail dap = Inr (?sp, dap)"
      using r(1) rn n by (simp add: DynArrayFirstAvail_def Let_def)
    moreover have "slot dap ?sp = None" by (simp add: slot_def)
    moreover have "\<forall>i<?sp. slot dap i \<noteq> None" using full rn alloc_words_bounds(1) [of ?sp] n by auto
    ultimately show ?thesis using wf sp by auto
  qed
qed

lemma DynArrayCtor_ok:
  assumes "DynArrayCtor mem n = Some dap" "n < 2 ^ 60"
  shows "wf_dyn dap \<and> slot dap = (\<lambda>_. None)"
proof -
  define m where "m = (if n = 0 then 32 else n)"
  have m: "0 < m" "m < 2 ^ 60" using assms(2) by (auto simp: m_def)
  have d: "dap = \<lparr>da_num_entries = 0, da_ptr_array = replicate m None, da_ptr_array_space = m,
      da_available = replicate (BitsToAllocWords m) 0, da_avail_ix = 0\<rparr>"
    using assms(1) by (auto simp: DynArrayCtor_def Let_def m_def split: if_splits)
  have s: "slot dap = (\<lambda>_. None)" by (auto simp: d slot_def)
  have "\<not> avail_bit dap i" if "i < 32 * BitsToAllocWords m" for i
  proof -
    have "i div 32 < BitsToAllocWords m" using that by (simp add: less_mult_imp_div_less mult.commute)
    then show ?thesis by (simp add: avail_bit_def d)
  qed
  then show ?thesis using m s unfolding wf_dyn_def s by (simp add: d)
qed

section \<open>The interface\<close>

definition dyn_holds :: "'a DynArray \<Rightarrow> (nat \<Rightarrow> 'a option) \<Rightarrow> bool" where
  "dyn_holds dap m \<longleftrightarrow> wf_dyn dap \<and> slot dap = m"

lemma slot_finite: "finite (dom (slot dap))"
  by (rule finite_subset [of _ "{..<da_ptr_array_space dap}"]) (auto simp: slot_def split: if_splits)

interpretation da: slot_table DynArrayGet DynArraySet DynArrayFirstAvail dyn_holds
proof unfold_locales
  fix t :: "'a DynArray" and m :: "nat \<Rightarrow> 'a option" and i v mem
  assume h: "dyn_holds t m"
  then have t: "wf_dyn t" "slot t = m" by (simp_all add: dyn_holds_def)
  show "finite (dom m)" using slot_finite [of t] t by simp
  show "DynArrayGet t i = Inr (m i)" using DynArrayGet_slot t by metis
  show "\<exists>p t'. DynArrayFirstAvail t = Inr (p, t') \<and> dyn_holds t' m \<and> lowest_free m p"
    using DynArrayFirstAvail_ok [OF t(1)] t(2) unfolding dyn_holds_def lowest_free_def by metis
  assume "i < SLOT_LIMIT"
  then have "i < 2 ^ 59" by (simp only: SLOT_LIMIT_def)
  from DynArraySet_ok [OF t(1) this, of mem v]
  show "\<exists>ok t'. DynArraySet mem t i v = Some (Inr (ok, t')) \<and> dyn_holds t' (if ok then m(i := v) else m) \<and>
      ((\<forall>n. mem n) \<longrightarrow> ok)"
    unfolding dyn_holds_def t(2) by metis
qed

lemma dyn_holds_ctor: "DynArrayCtor mem n = Some dap \<Longrightarrow> n < 2 ^ 60 \<Longrightarrow> dyn_holds dap (\<lambda>_. None)"
  using DynArrayCtor_ok unfolding dyn_holds_def by blast

section \<open>The properties\<close>

text \<open>C8: Every sequence of reads, stores and allocations of the lowest free slot on a freshly
  constructed dynamic array returns, with exactly the answers that a map from indices to pointers
  gives (indices below \<open>2 ^ 59\<close>, and memory to grow).\<close>

theorem dyn_array_implements_table:
  assumes "DynArrayCtor mem n = Some dap" "n < 2 ^ 60" "slot_spec (\<lambda>_. None) calls answers m"
  shows "\<exists>dap'. slot_exec DynArrayGet (DynArraySet (\<lambda>_. True)) DynArrayFirstAvail dap calls = Some (Inr (answers, dap')) \<and>
    wf_dyn dap' \<and> slot dap' = m"
  using da.exec_refines_spec [OF assms(3) dyn_holds_ctor [OF assms(1,2)]] by (simp add: dyn_holds_def)

theorem dyn_array_implements_table_witness:
  "\<exists>dap'. slot_exec DynArrayGet (DynArraySet (\<lambda>_. True)) DynArrayFirstAvail
      (the (DynArrayCtor (\<lambda>_. True) 2)) [PutFree ''a'', PutFree ''b'', SetAt 0 None, PutFree ''c'', GetAt 0]
      = Some (Inr ([Chosen 0, Chosen 1, Done, Chosen 0, Found (Some ''c'')], dap'))"
proof -
  have c: "DynArrayCtor (\<lambda>_. True) 2 = Some (the (DynArrayCtor (\<lambda>_. True) 2 :: string DynArray option))"
    by (simp add: DynArrayCtor_def SIZE_T_MAX_def BitsToAllocWords_def kBitsPerWord_def kWordIndexShift_def)
  define m1 where "m1 = [(0 :: nat) \<mapsto> ''a'']"
  define m2 where "m2 = m1(1 \<mapsto> ''b'')"
  define m3 where "m3 = m2(0 := None)"
  define m4 where "m4 = m3(0 \<mapsto> ''c'')"
  have f: "lowest_free (\<lambda>_. None) 0" "lowest_free m1 1" "lowest_free m3 0" and m4: "m4 0 = Some ''c''"
    by (simp_all add: lowest_free_def m1_def m2_def m3_def m4_def)
  have L: "0 < SLOT_LIMIT" "1 < SLOT_LIMIT" by (simp_all add: SLOT_LIMIT_def)
  have s4: "slot_spec m4 [GetAt 0] [Found (m4 0)] m4" by (rule spec_get, rule spec_nil)
  have s3: "slot_spec m3 [PutFree ''c'', GetAt 0] [Chosen 0, Found (m4 0)] m4"
    by (rule spec_put [OF f(3) L(1)], fold m4_def) (rule s4)
  have s2: "slot_spec m2 [SetAt 0 None, PutFree ''c'', GetAt 0] [Done, Chosen 0, Found (m4 0)] m4"
    by (rule spec_set [OF L(1)], fold m3_def) (rule s3)
  have s1: "slot_spec m1 [PutFree ''b'', SetAt 0 None, PutFree ''c'', GetAt 0] [Chosen 1, Done, Chosen 0, Found (m4 0)] m4"
    by (rule spec_put [OF f(2) L(2)], fold m2_def) (rule s2)
  have "slot_spec (\<lambda>_. None) [PutFree ''a'', PutFree ''b'', SetAt 0 None, PutFree ''c'', GetAt 0]
      [Chosen 0, Chosen 1, Done, Chosen 0, Found (m4 0)] m4"
    by (rule spec_put [OF f(1) L(1)], fold m1_def) (rule s1)
  from dyn_array_implements_table [OF c _ this] show ?thesis unfolding m4 by auto
qed

text \<open>A store that finds no memory to grow reports failure and leaves every slot of a well-formed
  array as it was; a store that succeeds changes exactly the one slot, whether or not it had to
  grow. In both cases the array stays well-formed: the bitmap and the hint agree with the slots.\<close>

theorem dyn_array_set_all_or_nothing:
  assumes "wf_dyn dap" "idx < 2 ^ 59"
  shows "\<exists>ok dap'. DynArraySet mem dap idx ptr = Some (Inr (ok, dap')) \<and> wf_dyn dap' \<and>
    (\<forall>i. DynArrayGet dap' i = (if ok \<and> i = idx then Inr ptr else DynArrayGet dap i))"
proof -
  obtain ok d where "DynArraySet mem dap idx ptr = Some (Inr (ok, d))" "wf_dyn d"
    "slot d = (if ok then (slot dap)(idx := ptr) else slot dap)"
    using DynArraySet_ok [OF assms] by metis
  then show ?thesis using DynArrayGet_slot [OF assms(1)] DynArrayGet_slot [of d]
    by (intro exI [of _ ok] exI [of _ d]) simp
qed

theorem dyn_array_set_all_or_nothing_witness:
  "\<exists>ok dap'. DynArraySet (\<lambda>n. n < 64) (the (DynArrayCtor (\<lambda>_. True) 2 :: string DynArray option)) 9 (Some ''x'') = Some (Inr (ok, dap')) \<and>
     wf_dyn dap' \<and> DynArrayGet dap' 3 = Inr None"
proof -
  let ?d = "the (DynArrayCtor (\<lambda>_. True) 2 :: string DynArray option)"
  have c: "DynArrayCtor (\<lambda>_. True) 2 = Some ?d"
    by (simp add: DynArrayCtor_def SIZE_T_MAX_def BitsToAllocWords_def kBitsPerWord_def kWordIndexShift_def)
  then have w: "wf_dyn ?d" "slot ?d = (\<lambda>_. None)" using DynArrayCtor_ok [OF c] by simp_all
  have g: "DynArrayGet ?d 3 = Inr None" using DynArrayGet_slot [OF w(1)] w(2) by simp
  show ?thesis using dyn_array_set_all_or_nothing [OF w(1), of 9 "\<lambda>n. n < 64" "Some ''x''"] g by fastforce
qed

end
