(* ===== verification/DescTable.thy ===== *)
theory DescTable
  imports DynArray
begin

text \<open>
  Reference counts (\<open>nacl_base/nacl_refcount.c\<close>), and the tables of descriptors and threads
  that the runtime keeps for the sandboxed program (\<open>service_runtime/sel_ldr_sgx.c\<close>): clients of
  the table of slots of \<open>SlotTable\<close>, through its interpretation on \<open>DynArray\<close>.

  The counts are a map from objects; an object that has been freed is not in it, and an access to it
  is a fault. The destructor of every descriptor ends in the one of the count, after it has released
  what the descriptor holds, which is not modelled here. The locks around the operations make each
  of them one step.
\<close>

section \<open>Reference counts\<close>

type_synonym 'o counts = "'o \<Rightarrow> u64 option"

text \<open>Construction gives a count of 1, when its lock can be made.\<close>

definition NaClRefCountCtor :: "bool \<Rightarrow> 'o \<Rightarrow> 'o counts \<Rightarrow> bool \<times> 'o counts" where
  "NaClRefCountCtor mutex_ok self rc = (mutex_ok, rc(self \<mapsto> 1))"

definition NaClRefCountDtor :: "'o \<Rightarrow> 'o counts \<Rightarrow> unit run" where
  "NaClRefCountDtor self rc = (case rc self of None \<Rightarrow> Inl NullDeref
     | Some n \<Rightarrow> if n \<in> {0, 1} then Inr () else Inl LogFatal)"

definition NaClRefCountRef :: "'o \<Rightarrow> 'o counts \<Rightarrow> 'o counts run" where
  "NaClRefCountRef nrcp rc = (case rc nrcp of None \<Rightarrow> Inl NullDeref
     | Some n \<Rightarrow> if n + 1 = 0 then Inl LogFatal else Inr (rc(nrcp \<mapsto> n + 1)))"

definition NaClRefCountUnref :: "'o \<Rightarrow> 'o counts \<Rightarrow> 'o counts run" where
  "NaClRefCountUnref nrcp rc = (case rc nrcp of None \<Rightarrow> Inl NullDeref
     | Some n \<Rightarrow>
         if n = 0 then Inl LogFatal
         else let rc = rc(nrcp \<mapsto> n - 1) in
           if n - 1 = 0 then bindE (NaClRefCountDtor nrcp rc) (\<lambda>_. Inr (rc(nrcp := None))) else Inr rc)"

definition NaClRefCountSafeUnref :: "'o option \<Rightarrow> 'o counts \<Rightarrow> 'o counts run" where
  "NaClRefCountSafeUnref nrcp rc = (case nrcp of None \<Rightarrow> Inr rc | Some p \<Rightarrow> NaClRefCountUnref p rc)"

definition NaClDescRef_obj :: "'o \<Rightarrow> 'o counts \<Rightarrow> 'o counts run" where "NaClDescRef_obj = NaClRefCountRef"
definition NaClDescUnref_obj :: "'o \<Rightarrow> 'o counts \<Rightarrow> 'o counts run" where "NaClDescUnref_obj = NaClRefCountUnref"

definition NaClDescSafeUnref_obj :: "'o option \<Rightarrow> 'o counts \<Rightarrow> 'o counts run" where
  "NaClDescSafeUnref_obj ndp rc = (case ndp of None \<Rightarrow> Inr rc | Some p \<Rightarrow> NaClRefCountUnref p rc)"

section \<open>The tables\<close>

record ('o, 't) app_tables =
  desc_tbl :: "'o DynArray"
  desc_counts :: "'o counts"
  threads :: "'t DynArray"
  num_threads :: int

text \<open>A descriptor number is an \<open>int\<close>, which becomes a \<open>size_t\<close> as an index.\<close>

definition as_index :: "u32 \<Rightarrow> nat" where "as_index d = unat (scast d :: u64)"

definition NaClAppGetDescMu :: "u32 \<Rightarrow> ('o, 't) app_tables \<Rightarrow> ('o option \<times> ('o, 't) app_tables) run" where
  "NaClAppGetDescMu d nap = bindE (DynArrayGet (desc_tbl nap) (as_index d)) (\<lambda>result.
     case result of None \<Rightarrow> Inr (None, nap)
     | Some p \<Rightarrow> bindE (NaClDescRef_obj p (desc_counts nap)) (\<lambda>rc. Inr (Some p, nap\<lparr>desc_counts := rc\<rparr>)))"

definition NaClAppSetDescMu :: "(nat \<Rightarrow> bool) \<Rightarrow> u32 \<Rightarrow> 'o option \<Rightarrow> ('o, 't) app_tables \<Rightarrow> ('o, 't) app_tables run option" where
  "NaClAppSetDescMu mem d ndp nap =
     (case bindE (DynArrayGet (desc_tbl nap) (as_index d)) (\<lambda>result. NaClDescSafeUnref_obj result (desc_counts nap)) of
        Inl e \<Rightarrow> Some (Inl e)
      | Inr rc \<Rightarrow>
          (case DynArraySet mem (desc_tbl nap) (as_index d) ndp of
             None \<Rightarrow> None
           | Some r \<Rightarrow> Some (bindE r (\<lambda>(ok, t). if \<not> ok then Inl LogFatal else Inr (nap\<lparr>desc_counts := rc, desc_tbl := t\<rparr>)))))"

definition NaClAppSetDescAvailMu ::
    "(nat \<Rightarrow> bool) \<Rightarrow> 'o option \<Rightarrow> ('o, 't) app_tables \<Rightarrow> (u32 \<times> ('o, 't) app_tables) run option" where
  "NaClAppSetDescAvailMu mem ndp nap =
     (case DynArrayFirstAvail (desc_tbl nap) of
        Inl e \<Rightarrow> Some (Inl e)
      | Inr (pos, t) \<Rightarrow>
          if pos > 2 ^ 31 - 1 then Some (Inl LogFatal)
          else map_option (map_sum id (Pair (of_nat pos))) (NaClAppSetDescMu mem (of_nat pos) ndp (nap\<lparr>desc_tbl := t\<rparr>)))"

definition NaClAddThreadMu :: "(nat \<Rightarrow> bool) \<Rightarrow> 't \<Rightarrow> ('o, 't) app_tables \<Rightarrow> (u32 \<times> ('o, 't) app_tables) run option" where
  "NaClAddThreadMu mem natp nap =
     (case DynArrayFirstAvail (threads nap) of
        Inl e \<Rightarrow> Some (Inl e)
      | Inr (pos, t) \<Rightarrow>
          (case DynArraySet mem t pos (Some natp) of
             None \<Rightarrow> None
           | Some r \<Rightarrow> Some (bindE r (\<lambda>(ok, t). if \<not> ok then Inl LogFatal
               else Inr (of_nat pos, nap\<lparr>threads := t, num_threads := num_threads nap + 1\<rparr>)))))"

definition NaClRemoveThreadMu :: "(nat \<Rightarrow> bool) \<Rightarrow> u32 \<Rightarrow> ('o, 't) app_tables \<Rightarrow> ('o, 't) app_tables run option" where
  "NaClRemoveThreadMu mem thread_num nap =
     (case DynArrayGet (threads nap) (as_index thread_num) of
        Inl e \<Rightarrow> Some (Inl e)
      | Inr p \<Rightarrow>
          if p = None then Some (Inl LogFatal)
          else if num_threads nap = 0 then Some (Inl LogFatal)
          else
            (case DynArraySet mem (threads nap) (as_index thread_num) None of
               None \<Rightarrow> None
             | Some r \<Rightarrow> Some (bindE r (\<lambda>(ok, t). if \<not> ok then Inl LogFatal
                 else Inr (nap\<lparr>num_threads := num_threads nap - 1, threads := t\<rparr>)))))"

definition NaClGetThreadMu :: "u32 \<Rightarrow> ('o, 't) app_tables \<Rightarrow> 't option run" where
  "NaClGetThreadMu thread_num nap = DynArrayGet (threads nap) (as_index thread_num)"

lemma map_sum_Inl [run_simps]: "map_sum id g q = Inl e \<longleftrightarrow> q = Inl e"
  by (cases q) auto

lemma map_sum_Inr [run_simps]: "map_sum id g q = Inr y \<longleftrightarrow> (\<exists>z. q = Inr z \<and> g z = y)"
  by (cases q) auto

section \<open>Counting slots\<close>

definition slot_count :: "(nat \<Rightarrow> 'a option) \<Rightarrow> 'a \<Rightarrow> nat" where
  "slot_count m x = card {i. m i = Some x}"

lemma slot_count_finite: "finite (dom m) \<Longrightarrow> finite {i. m i = Some x}"
  by (rule finite_subset [of _ "dom m"]) auto

lemma slot_count_upd:
  assumes "finite (dom m)"
  shows "slot_count (m(i := v)) x + (if m i = Some x then 1 else 0) = slot_count m x + (if v = Some x then 1 else 0)"
proof -
  define S where "S = {j. m j = Some x} - {i}"
  have f: "finite S" "i \<notin> S" using slot_count_finite [OF assms] by (simp_all add: S_def)
  have "{j. (m(i := v)) j = Some x} = (if v = Some x then insert i S else S)"
    "{j. m j = Some x} = (if m i = Some x then insert i S else S)" by (auto simp: S_def)
  then show ?thesis unfolding slot_count_def using f by auto
qed

lemma slot_count_pos: "finite (dom m) \<Longrightarrow> m i = Some x \<Longrightarrow> 0 < slot_count m x"
  using slot_count_finite [of m x] by (auto simp: slot_count_def card_gt_0_iff)

lemma card_dom_upd:
  assumes "finite (dom m)"
  shows "card (dom (m(i := v))) + (if m i = None then 0 else 1) = card (dom m) + (if v = None then 0 else 1)"
proof -
  define S where "S = dom m - {i}"
  have f: "finite S" "i \<notin> S" using assms by (simp_all add: S_def)
  have "dom m = (if m i = None then S else insert i S)" "dom (m(i := v)) = (if v = None then S else insert i S)"
    by (auto simp: S_def)
  then show ?thesis using f by auto
qed

section \<open>Programs that keep to the protocol\<close>

text \<open>\<open>ext x\<close> is how many references to \<open>x\<close> the program holds outside the table: one for a
  new object, one more for each lookup, one less for each it stores or drops.\<close>

inductive desc_run :: "('o, 't) app_tables \<Rightarrow> ('o \<Rightarrow> nat) \<Rightarrow> ('o, 't) app_tables \<Rightarrow> bool" for nap0 where
  run_start: "desc_run nap0 (\<lambda>_. 0) nap0"
| run_new: "desc_run nap0 ext nap \<Longrightarrow> desc_counts nap x = None \<Longrightarrow>
    NaClRefCountCtor True x (desc_counts nap) = (True, rc) \<Longrightarrow>
    desc_run nap0 (ext(x := ext x + 1)) (nap\<lparr>desc_counts := rc\<rparr>)"
| run_get: "desc_run nap0 ext nap \<Longrightarrow> NaClAppGetDescMu d nap = Inr (r, nap') \<Longrightarrow>
    desc_run nap0 (case r of None \<Rightarrow> ext | Some x \<Rightarrow> ext(x := ext x + 1)) nap'"
| run_set: "desc_run nap0 ext nap \<Longrightarrow> (case ndp of None \<Rightarrow> True | Some x \<Rightarrow> 0 < ext x) \<Longrightarrow> 0 \<le>s d \<Longrightarrow>
    NaClAppSetDescMu mem d ndp nap = Some (Inr nap') \<Longrightarrow>
    desc_run nap0 (case ndp of None \<Rightarrow> ext | Some x \<Rightarrow> ext(x := ext x - 1)) nap'"
| run_avail: "desc_run nap0 ext nap \<Longrightarrow> 0 < ext x \<Longrightarrow>
    NaClAppSetDescAvailMu mem (Some x) nap = Some (Inr (d, nap')) \<Longrightarrow> desc_run nap0 (ext(x := ext x - 1)) nap'"
| run_drop: "desc_run nap0 ext nap \<Longrightarrow> 0 < ext x \<Longrightarrow> NaClDescUnref_obj x (desc_counts nap) = Inr rc \<Longrightarrow>
    desc_run nap0 (ext(x := ext x - 1)) (nap\<lparr>desc_counts := rc\<rparr>)"

text \<open>Every count is the number of slots plus the number of references outside, and what has none
  is freed.\<close>

definition count_of :: "'o counts \<Rightarrow> 'o \<Rightarrow> nat" where
  "count_of rc x = (case rc x of None \<Rightarrow> 0 | Some n \<Rightarrow> unat n)"

definition accounts :: "'o counts \<Rightarrow> ('o \<Rightarrow> nat) \<Rightarrow> bool" where
  "accounts rc c \<longleftrightarrow> (\<forall>x. count_of rc x = c x \<and> rc x \<noteq> Some 0)"

lemma count_of_upd [simp]: "count_of (rc(x \<mapsto> n)) y = (if y = x then unat n else count_of rc y)"
  "count_of (rc(x := None)) y = (if y = x then 0 else count_of rc y)"
  by (simp_all add: count_of_def)

lemma accounts_alive: "accounts rc c \<Longrightarrow> 0 < c x \<Longrightarrow> \<exists>n. rc x = Some n \<and> n \<noteq> 0 \<and> unat n = c x"
  unfolding accounts_def count_of_def by (metis neq0_conv option.case_eq_if option.collapse)

lemma accounts_ref:
  assumes "accounts rc c" "NaClRefCountRef x rc = Inr rc'"
  shows "accounts rc' (c(x := c x + 1))"
proof -
  obtain n where n: "rc x = Some n" "n + 1 \<noteq> 0" "rc' = rc(x \<mapsto> n + 1)"
    using assms(2) by (auto simp: NaClRefCountRef_def split: option.splits if_splits)
  then have "unat (n + 1) = unat n + 1" by (metis Suc_eq_plus1 add.commute unatSuc)
  moreover have "unat n = c x" using assms(1) n(1) by (metis accounts_def count_of_def option.simps(5))
  ultimately show ?thesis using assms(1) n by (simp add: accounts_def)
qed

text \<open>Dropping a reference that is accounted for, by the table or outside.\<close>

lemma accounts_unref:
  assumes "accounts rc c" "0 < c x"
  shows "\<exists>rc'. NaClRefCountUnref x rc = Inr rc' \<and> accounts rc' (c(x := c x - 1))"
proof -
  obtain n where n: "rc x = Some n" "n \<noteq> 0" "unat n = c x" using accounts_alive [OF assms] by blast
  have n1: "unat (n - 1) = c x - 1" using n(2,3) by (simp add: unat_minus_one)
  show ?thesis
  proof (cases "n - 1 = 0")
    case True
    then have "NaClRefCountUnref x rc = Inr (rc(x := None))"
      using n by (simp add: NaClRefCountUnref_def NaClRefCountDtor_def Let_def)
    moreover have "accounts (rc(x := None)) (c(x := c x - 1))"
      using assms(1) n1 True by (simp add: accounts_def)
    ultimately show ?thesis by blast
  next
    case False
    then have "NaClRefCountUnref x rc = Inr (rc(x \<mapsto> n - 1))" using n by (simp add: NaClRefCountUnref_def Let_def)
    moreover have "accounts (rc(x \<mapsto> n - 1)) (c(x := c x - 1))"
      using assms(1) n1 False by (simp add: accounts_def)
    ultimately show ?thesis by blast
  qed
qed

text \<open>The invariant of the programs.\<close>

definition balanced :: "('o \<Rightarrow> nat) \<Rightarrow> ('o, 't) app_tables \<Rightarrow> bool" where
  "balanced ext nap \<longleftrightarrow> (\<exists>m. dyn_holds (desc_tbl nap) m \<and> accounts (desc_counts nap) (\<lambda>x. slot_count m x + ext x))"

lemma as_index_small: "0 \<le>s d \<Longrightarrow> as_index d < SLOT_LIMIT"
proof -
  assume "0 \<le>s d"
  then have s: "0 \<le> sint d" by (simp add: word_sle_eq)
  have lt: "sint d < 2 ^ 31" using sint_lt [of d] by simp
  have "as_index d = unat (word_of_int (sint d) :: u64)" by (simp only: as_index_def scast_eq)
  also have "\<dots> = nat (sint d mod 2 ^ 64)" by (simp only: unat_eq_nat_uint uint_word_of_int) simp
  also have "\<dots> = nat (sint d)" using s lt by simp
  finally show ?thesis using s lt by (simp add: SLOT_LIMIT_def)
qed

lemma as_index_of_nat: "pos \<le> 2 ^ 31 - 1 \<Longrightarrow> as_index (of_nat pos) = pos \<and> 0 \<le>s (of_nat pos :: u32)"
proof -
  assume p: "pos \<le> 2 ^ 31 - 1"
  have "sint (of_nat pos :: u32) = signed_take_bit 31 (int pos)" by (simp add: signed_of_nat)
  also have "\<dots> = int pos" using p by (intro signed_take_bit_int_eq_self) simp_all
  finally have s: "sint (of_nat pos :: u32) = int pos" .
  have "as_index (of_nat pos) = unat (word_of_int (sint (of_nat pos :: u32)) :: u64)" by (simp only: as_index_def scast_eq)
  also have "\<dots> = nat (int pos mod 2 ^ 64)" unfolding s by (simp only: unat_eq_nat_uint uint_word_of_int) simp
  also have "\<dots> = pos" using p by simp
  finally show ?thesis using s by (simp add: word_sle_eq)
qed

section \<open>Every operation keeps the balance\<close>

lemma balancedI: "dyn_holds (desc_tbl nap) m \<Longrightarrow> accounts (desc_counts nap) (\<lambda>x. slot_count m x + ext x) \<Longrightarrow> balanced ext nap"
  by (auto simp: balanced_def)

lemma accounts_unref_run:
  assumes "accounts rc c" "0 < c x" "NaClRefCountUnref x rc = Inr rc'"
  shows "accounts rc' (c(x := c x - 1))"
  using accounts_unref [OF assms(1,2)] assms(3) by auto

lemma balanced_get:
  assumes "balanced ext nap"
  shows "case NaClAppGetDescMu d nap of Inl e \<Rightarrow> e = LogFatal
    | Inr (r, nap') \<Rightarrow> balanced (case r of None \<Rightarrow> ext | Some x \<Rightarrow> ext(x := ext x + 1)) nap' \<and> desc_tbl nap' = desc_tbl nap"
proof -
  obtain m where m: "dyn_holds (desc_tbl nap) m" "accounts (desc_counts nap) (\<lambda>x. slot_count m x + ext x)"
    using assms by (auto simp: balanced_def)
  have g: "DynArrayGet (desc_tbl nap) (as_index d) = Inr (m (as_index d))" by (rule da.get_law [OF m(1)])
  show ?thesis
  proof (cases "m (as_index d)")
    case None
    then show ?thesis using g assms by (simp add: NaClAppGetDescMu_def)
  next
    case (Some x)
    have "0 < slot_count m x" by (rule slot_count_pos [OF da.holds_finite [OF m(1)] Some])
    then obtain n where n: "desc_counts nap x = Some n" using accounts_alive [OF m(2), of x] by auto
    show ?thesis
    proof (cases "NaClRefCountRef x (desc_counts nap)")
      case (Inl e)
      then have "e = LogFatal" using n by (auto simp: NaClRefCountRef_def split: if_splits)
      then show ?thesis using Inl g Some by (simp add: NaClAppGetDescMu_def NaClDescRef_obj_def)
    next
      case (Inr rc)
      have "(\<lambda>y. slot_count m y + (ext(x := ext x + 1)) y) = (\<lambda>y. slot_count m y + ext y)(x := slot_count m x + ext x + 1)"
        by (auto simp: fun_eq_iff)
      then have "balanced (ext(x := ext x + 1)) (nap\<lparr>desc_counts := rc\<rparr>)"
        using accounts_ref [OF m(2) Inr] m(1) by (intro balancedI [where m = m]) simp_all
      then show ?thesis using Inr g Some by (simp add: NaClAppGetDescMu_def NaClDescRef_obj_def)
    qed
  qed
qed

text \<open>What a store does to the counts: the old descriptor of the slot loses a reference, the new
  one brings the reference it had outside.\<close>

lemma accounts_swap:
  assumes f: "finite (dom m)" and a: "accounts rc (\<lambda>x. slot_count m x + ext x)"
    and e: "case ndp of None \<Rightarrow> True | Some x \<Rightarrow> 0 < ext x"
  shows "\<exists>rc'. NaClDescSafeUnref_obj (m i) rc = Inr rc' \<and>
    accounts rc' (\<lambda>x. slot_count (m(i := ndp)) x + (case ndp of None \<Rightarrow> ext | Some y \<Rightarrow> ext(y := ext y - 1)) x)"
proof -
  let ?c = "\<lambda>x. slot_count m x + ext x"
  have c: "slot_count (m(i := ndp)) x + (case ndp of None \<Rightarrow> ext | Some y \<Rightarrow> ext(y := ext y - 1)) x
      = ?c x - (if m i = Some x then 1 else 0)" for x
    using slot_count_upd [OF f, of i ndp x] e by (cases ndp) (auto split: if_splits)
  show ?thesis
  proof (cases "m i")
    case None
    then show ?thesis using a c by (simp add: NaClDescSafeUnref_obj_def)
  next
    case (Some y)
    have "0 < ?c y" using slot_count_pos [OF f Some] by simp
    from accounts_unref [OF a this] obtain rc' where
      r: "NaClRefCountUnref y rc = Inr rc'" "accounts rc' (?c(y := ?c y - 1))" by blast
    have "?c(y := ?c y - 1) = (\<lambda>x. slot_count (m(i := ndp)) x + (case ndp of None \<Rightarrow> ext | Some z \<Rightarrow> ext(z := ext z - 1)) x)"
      unfolding c using Some by (auto simp: fun_eq_iff)
    then show ?thesis using r Some by (simp add: NaClDescSafeUnref_obj_def)
  qed
qed

lemma balanced_set:
  assumes b: "balanced ext nap" and d: "as_index d < SLOT_LIMIT" and e: "case ndp of None \<Rightarrow> True | Some x \<Rightarrow> 0 < ext x"
  shows "\<exists>r. NaClAppSetDescMu mem d ndp nap = Some r \<and>
    (case r of Inl er \<Rightarrow> er = LogFatal \<and> \<not> (\<forall>n. mem n)
     | Inr nap' \<Rightarrow> balanced (case ndp of None \<Rightarrow> ext | Some x \<Rightarrow> ext(x := ext x - 1)) nap')"
proof -
  obtain m where m: "dyn_holds (desc_tbl nap) m" "accounts (desc_counts nap) (\<lambda>x. slot_count m x + ext x)"
    using b by (auto simp: balanced_def)
  let ?i = "as_index d"
  obtain rc where rc: "NaClDescSafeUnref_obj (m ?i) (desc_counts nap) = Inr rc"
    "accounts rc (\<lambda>x. slot_count (m(?i := ndp)) x + (case ndp of None \<Rightarrow> ext | Some y \<Rightarrow> ext(y := ext y - 1)) x)"
    using accounts_swap [OF da.holds_finite [OF m(1)] m(2) e] by blast
  obtain ok t where t: "DynArraySet mem (desc_tbl nap) ?i ndp = Some (Inr (ok, t))"
    "dyn_holds t (if ok then m(?i := ndp) else m)" "(\<forall>n. mem n) \<longrightarrow> ok"
    using da.set_law [OF m(1) d] by blast
  have run: "NaClAppSetDescMu mem d ndp nap =
      Some (if \<not> ok then Inl LogFatal else Inr (nap\<lparr>desc_counts := rc, desc_tbl := t\<rparr>))"
    using da.get_law [OF m(1)] rc(1) t(1) by (simp add: NaClAppSetDescMu_def)
  show ?thesis
  proof (cases ok)
    case True
    then have "balanced (case ndp of None \<Rightarrow> ext | Some x \<Rightarrow> ext(x := ext x - 1)) (nap\<lparr>desc_counts := rc, desc_tbl := t\<rparr>)"
      using t(2) rc(2) by (intro balancedI [where m = "m(?i := ndp)"]) simp_all
    then show ?thesis using run True by simp
  next
    case False
    then show ?thesis using run t(3) by simp
  qed
qed

lemma balanced_avail:
  assumes b: "balanced ext nap" and e: "0 < ext x" and run: "NaClAppSetDescAvailMu mem (Some x) nap = Some (Inr (d, nap'))"
  shows "balanced (ext(x := ext x - 1)) nap'"
proof -
  obtain m where m: "dyn_holds (desc_tbl nap) m" "accounts (desc_counts nap) (\<lambda>x. slot_count m x + ext x)"
    using b by (auto simp: balanced_def)
  obtain pos t where t: "DynArrayFirstAvail (desc_tbl nap) = Inr (pos, t)" "dyn_holds t m"
    using da.free_law [OF m(1)] by blast
  have b': "balanced ext (nap\<lparr>desc_tbl := t\<rparr>)" using t(2) m(2) by (intro balancedI [where m = m]) simp_all
  have s: "pos \<le> 2 ^ 31 - 1" "map_option (map_sum id (Pair (of_nat pos)))
      (NaClAppSetDescMu mem (of_nat pos) (Some x) (nap\<lparr>desc_tbl := t\<rparr>)) = Some (Inr (d, nap'))"
    using run t(1) by (simp_all add: NaClAppSetDescAvailMu_def split: if_splits)
  have i: "as_index (of_nat pos) < SLOT_LIMIT" using as_index_of_nat [OF s(1)] as_index_small by blast
  from s(2) have "NaClAppSetDescMu mem (of_nat pos) (Some x) (nap\<lparr>desc_tbl := t\<rparr>) = Some (Inr nap')"
    by (auto simp: map_sum_Inr)
  then show ?thesis using balanced_set [OF b' i, of "Some x" mem] e by simp
qed

lemma desc_run_balanced:
  assumes "desc_run nap0 ext nap" "balanced (\<lambda>_. 0) nap0"
  shows "balanced ext nap"
  using assms
proof (induction rule: desc_run.induct)
  case (run_new ext nap x rc)
  then obtain m where m: "dyn_holds (desc_tbl nap) m" "accounts (desc_counts nap) (\<lambda>x. slot_count m x + ext x)"
    by (auto simp: balanced_def)
  have "slot_count m x + ext x = 0" using m(2) run_new.hyps(2) by (metis accounts_def count_of_def option.simps(4))
  then show ?case using m run_new.hyps(3)
    by (intro balancedI [where m = m]) (auto simp: NaClRefCountCtor_def accounts_def)
next
  case (run_get ext nap d r nap')
  from balanced_get [OF run_get.IH [OF run_get.prems], of d] run_get.hyps(2) show ?case by simp
next
  case (run_set ext nap ndp d mem nap')
  from balanced_set [OF run_set.IH [OF run_set.prems] as_index_small [OF run_set.hyps(3)] run_set.hyps(2), of mem]
    run_set.hyps(4) show ?case by simp
next
  case (run_avail ext nap x mem d nap')
  from balanced_avail [OF run_avail.IH [OF run_avail.prems] run_avail.hyps(2,3)] show ?case .
next
  case (run_drop ext nap x rc)
  then obtain m where m: "dyn_holds (desc_tbl nap) m" "accounts (desc_counts nap) (\<lambda>x. slot_count m x + ext x)"
    by (auto simp: balanced_def)
  have "accounts rc ((\<lambda>x. slot_count m x + ext x)(x := slot_count m x + ext x - 1))"
    using accounts_unref_run [OF m(2)] run_drop.hyps by (simp add: NaClDescUnref_obj_def)
  moreover have "(\<lambda>x. slot_count m x + ext x)(x := slot_count m x + ext x - 1) = (\<lambda>y. slot_count m y + (ext(x := ext x - 1)) y)"
    using run_drop.hyps(2) by (auto simp: fun_eq_iff)
  ultimately show ?case using m(1) by (intro balancedI [where m = m]) simp_all
qed simp

lemma balanced_counts:
  assumes "balanced ext nap"
  shows "\<exists>m. (\<forall>i. DynArrayGet (desc_tbl nap) i = Inr (m i)) \<and> finite (dom m) \<and>
      (\<forall>x. count_of (desc_counts nap) x = card {i. m i = Some x} + ext x) \<and>
      (\<forall>x. (x \<in> ran m \<or> 0 < ext x) = (desc_counts nap x \<noteq> None))"
proof -
  obtain m where m: "dyn_holds (desc_tbl nap) m" "accounts (desc_counts nap) (\<lambda>x. slot_count m x + ext x)"
    using assms by (auto simp: balanced_def)
  have f: "finite (dom m)" by (rule da.holds_finite [OF m(1)])
  have c: "count_of (desc_counts nap) x = slot_count m x + ext x \<and> desc_counts nap x \<noteq> Some 0" for x
    using m(2) by (simp add: accounts_def)
  have "(x \<in> ran m \<or> 0 < ext x) = (desc_counts nap x \<noteq> None)" for x
  proof -
    have "(desc_counts nap x \<noteq> None) = (0 < count_of (desc_counts nap) x)"
      using conjunct2 [OF c [of x]] by (auto simp: count_of_def unat_gt_0 split: option.splits)
    moreover have "(x \<in> ran m) = (0 < slot_count m x)"
      using slot_count_pos [OF f] by (auto simp: slot_count_def ran_def card_gt_0_iff)
    ultimately show ?thesis using c [of x] by auto
  qed
  then show ?thesis using da.get_law [OF m(1)] c f unfolding slot_count_def by blast
qed

definition empty_tables :: "'o DynArray \<Rightarrow> 't DynArray \<Rightarrow> ('o, 't) app_tables" where
  "empty_tables d t = \<lparr>desc_tbl = d, desc_counts = (\<lambda>_. None), threads = t, num_threads = 0\<rparr>"

lemma balanced_empty:
  assumes "DynArrayCtor mem n = Some d" "n < 2 ^ 60"
  shows "balanced (\<lambda>_. 0) (empty_tables d t)"
  using DynArrayCtor_ok [OF assms]
  by (intro balancedI [where m = "\<lambda>_. None"])
    (simp_all add: empty_tables_def dyn_holds_def accounts_def slot_count_def count_of_def)

section \<open>The table of threads\<close>

text \<open>Adding and removing threads; a program has fewer than \<open>2 ^ 31 - 1\<close>, so that the count,
  an \<open>int\<close>, does not overflow.\<close>

inductive thread_run :: "('o, 't) app_tables \<Rightarrow> ('o, 't) app_tables \<Rightarrow> bool" for nap0 where
  thread_start: "thread_run nap0 nap0"
| thread_add: "thread_run nap0 nap \<Longrightarrow> num_threads nap < 2 ^ 31 - 1 \<Longrightarrow>
    NaClAddThreadMu mem natp nap = Some (Inr (k, nap')) \<Longrightarrow> thread_run nap0 nap'"
| thread_remove: "thread_run nap0 nap \<Longrightarrow> 0 \<le>s k \<Longrightarrow> NaClRemoveThreadMu mem k nap = Some (Inr nap') \<Longrightarrow> thread_run nap0 nap'"

definition counted :: "('o, 't) app_tables \<Rightarrow> (nat \<Rightarrow> 't option) \<Rightarrow> bool" where
  "counted nap m \<longleftrightarrow> dyn_holds (threads nap) m \<and> num_threads nap = int (card (dom m))"

lemma counted_get: "counted nap m \<Longrightarrow> NaClGetThreadMu k nap = Inr (m (as_index k))"
  by (simp add: counted_def NaClGetThreadMu_def da.get_law)

lemma counted_add:
  assumes c: "counted nap m" and n: "num_threads nap < 2 ^ 31 - 1"
  shows "\<exists>p. lowest_free m p \<and> p \<le> 2 ^ 31 - 1 \<and>
    (\<exists>ok nap'. NaClAddThreadMu mem natp nap = Some (if ok then Inr (of_nat p, nap') else Inl LogFatal) \<and>
       counted nap' (m(p \<mapsto> natp)) \<and> ((\<forall>n. mem n) \<longrightarrow> ok))"
proof -
  have h: "dyn_holds (threads nap) m" and k: "num_threads nap = int (card (dom m))" using c by (simp_all add: counted_def)
  have f: "finite (dom m)" by (rule da.holds_finite [OF h])
  obtain p t where t: "DynArrayFirstAvail (threads nap) = Inr (p, t)" "dyn_holds t m" "lowest_free m p"
    using da.free_law [OF h] by blast
  have "card (dom m) < 2147483647" using n k by simp
  then have p: "p \<le> 2 ^ 31 - 1" using lowest_free_le_card [OF t(3) f] by simp
  then have "p < SLOT_LIMIT" by (simp add: SLOT_LIMIT_def)
  from da.set_law [OF t(2) this] obtain ok u where u: "DynArraySet mem t p (Some natp) = Some (Inr (ok, u))"
    "dyn_holds u (if ok then m(p \<mapsto> natp) else m)" "(\<forall>n. mem n) \<longrightarrow> ok" by blast
  have "card (dom (m(p \<mapsto> natp))) = card (dom m) + 1"
    using card_dom_upd [OF f, of p "Some natp"] t(3) by (simp add: lowest_free_def)
  then have cnt: "ok \<Longrightarrow> counted (nap\<lparr>threads := u, num_threads := num_threads nap + 1\<rparr>) (m(p \<mapsto> natp))"
    using u(2) k by (simp add: counted_def)
  have run: "NaClAddThreadMu mem natp nap = Some (if ok then
      Inr (of_nat p, nap\<lparr>threads := u, num_threads := num_threads nap + 1\<rparr>) else Inl LogFatal)"
    using t(1) u(1) by (simp add: NaClAddThreadMu_def)
  obtain w where w: "DynArraySet (\<lambda>_. True) t p (Some natp) = Some (Inr (True, w))" "dyn_holds w (m(p \<mapsto> natp))"
    using da.set_succeeds [OF t(2) \<open>p < SLOT_LIMIT\<close>] by blast
  have "counted (nap\<lparr>threads := w, num_threads := num_threads nap + 1\<rparr>) (m(p \<mapsto> natp))"
    using w(2) k \<open>card (dom (m(p \<mapsto> natp))) = card (dom m) + 1\<close> by (simp add: counted_def)
  then show ?thesis using t(3) p run cnt u(3) by (cases ok) auto
qed

lemma counted_remove:
  assumes c: "counted nap m" and k: "0 \<le>s k"
  shows "if m (as_index k) = None then NaClRemoveThreadMu mem k nap = Some (Inl LogFatal)
    else \<exists>ok nap'. NaClRemoveThreadMu mem k nap = Some (if ok then Inr nap' else Inl LogFatal) \<and>
      (ok \<longrightarrow> counted nap' (m(as_index k := None))) \<and> ((\<forall>n. mem n) \<longrightarrow> ok)"
proof -
  let ?i = "as_index k"
  have h: "dyn_holds (threads nap) m" and n: "num_threads nap = int (card (dom m))" using c by (simp_all add: counted_def)
  have f: "finite (dom m)" by (rule da.holds_finite [OF h])
  have g: "DynArrayGet (threads nap) ?i = Inr (m ?i)" by (rule da.get_law [OF h])
  show ?thesis
  proof (cases "m ?i = None")
    case True
    then show ?thesis using g by (simp add: NaClRemoveThreadMu_def)
  next
    case False
    have cd: "card (dom (m(?i := None))) + 1 = card (dom m)" using card_dom_upd [OF f, of ?i None] False by simp
    obtain ok u where u: "DynArraySet mem (threads nap) ?i None = Some (Inr (ok, u))"
      "dyn_holds u (if ok then m(?i := None) else m)" "(\<forall>n. mem n) \<longrightarrow> ok"
      using da.set_law [OF h as_index_small [OF k]] by blast
    have "num_threads nap \<noteq> 0" using cd n by simp
    then have "NaClRemoveThreadMu mem k nap = Some (if ok then
        Inr (nap\<lparr>num_threads := num_threads nap - 1, threads := u\<rparr>) else Inl LogFatal)"
      using g False u(1) by (simp add: NaClRemoveThreadMu_def)
    moreover have "ok \<longrightarrow> counted (nap\<lparr>num_threads := num_threads nap - 1, threads := u\<rparr>) (m(?i := None))"
      using u(2) n cd by (cases ok) (simp_all add: counted_def)
    ultimately show ?thesis using False u(3) by auto
  qed
qed

lemma thread_run_counted:
  assumes "thread_run nap0 nap" "counted nap0 m0"
  shows "\<exists>m. counted nap m"
  using assms
proof (induction rule: thread_run.induct)
  case (thread_add nap mem natp k nap')
  then obtain m where m: "counted nap m" by blast
  show ?case using counted_add [OF m thread_add.hyps(2), of mem natp] thread_add.hyps(3)
    by (auto split: if_splits)
next
  case (thread_remove nap k mem nap')
  then obtain m where m: "counted nap m" by blast
  show ?case using counted_remove [OF m thread_remove.hyps(2), of mem] thread_remove.hyps(3)
    by (auto split: if_splits)
qed blast

section \<open>What the tables promise\<close>

text \<open>C20: Programs that keep to the protocol, from empty tables: a descriptor in the table, or held
  outside, is never a freed one; its count is the number of slots that hold it plus the number of
  references outside; so no lookup and no store touches freed memory or finds a count of zero, and
  every store returns, with a fatal log message only when there is no memory to grow.\<close>

theorem desc_table_balanced:
  assumes "DynArrayCtor mem0 n = Some d" "n < 2 ^ 60" "desc_run (empty_tables d t) ext nap"
  shows "(\<exists>m. (\<forall>i. DynArrayGet (desc_tbl nap) i = Inr (m i)) \<and> finite (dom m) \<and>
      (\<forall>x. count_of (desc_counts nap) x = card {i. m i = Some x} + ext x) \<and>
      (\<forall>x. (x \<in> ran m \<or> 0 < ext x) = (desc_counts nap x \<noteq> None))) \<and>
    NaClAppGetDescMu k nap \<notin> {Inl NullDeref, Inl OutOfBounds} \<and>
    (0 \<le>s k \<and> (case ndp of None \<Rightarrow> True | Some x \<Rightarrow> 0 < ext x) \<longrightarrow>
      (\<exists>r. NaClAppSetDescMu mem k ndp nap = Some r \<and> (\<forall>e. r = Inl e \<longrightarrow> e = LogFatal \<and> \<not> (\<forall>n. mem n))))"
proof -
  have b: "balanced ext nap" by (rule desc_run_balanced [OF assms(3) balanced_empty [OF assms(1,2)]])
  have "NaClAppGetDescMu k nap \<notin> {Inl NullDeref, Inl OutOfBounds}" using balanced_get [OF b, of k] by auto
  moreover have "\<exists>r. NaClAppSetDescMu mem k ndp nap = Some r \<and> (\<forall>e. r = Inl e \<longrightarrow> e = LogFatal \<and> \<not> (\<forall>n. mem n))"
    if "0 \<le>s k \<and> (case ndp of None \<Rightarrow> True | Some x \<Rightarrow> 0 < ext x)"
    using balanced_set [OF b as_index_small, of k ndp mem] that by auto
  ultimately show ?thesis using balanced_counts [OF b] by blast
qed

theorem desc_table_balanced_witness:
  "\<exists>ext nap. desc_run (empty_tables (the (DynArrayCtor (\<lambda>_. True) 2)) (the (DynArrayCtor (\<lambda>_. True) 0) :: unit DynArray)) ext nap \<and>
     0 < ext ''file'' \<and> desc_counts nap ''file'' \<noteq> None"
proof -
  let ?t = "the (DynArrayCtor (\<lambda>_. True) 0) :: unit DynArray"
  let ?d = "the (DynArrayCtor (\<lambda>_. True) 2) :: string DynArray"
  let ?nap = "(empty_tables ?d ?t)\<lparr>desc_counts := (\<lambda>_. None)(''file'' \<mapsto> 1)\<rparr>"
  have c: "DynArrayCtor (\<lambda>_. True) 2 = Some ?d"
    by (simp add: DynArrayCtor_def SIZE_T_MAX_def BitsToAllocWords_def kBitsPerWord_def kWordIndexShift_def)
  let ?ext = "(\<lambda>_. 0)(''file'' := (0 :: nat) + 1)"
  have r: "desc_run (empty_tables ?d ?t) ?ext ?nap"
    by (rule run_new [OF run_start]) (simp_all add: empty_tables_def NaClRefCountCtor_def)
  from desc_table_balanced [OF c _ r, of 0 None "\<lambda>_. True"]
  have "\<forall>x. 0 < ?ext x \<longrightarrow> desc_counts ?nap x \<noteq> None" by auto
  then have "0 < ?ext ''file'' \<and> desc_counts ?nap ''file'' \<noteq> None" by simp
  then show ?thesis using r by blast
qed

text \<open>From an empty table of threads, \<open>num_threads\<close> is always the number of threads in the
  table. With memory to grow, adding a thread gives it the lowest free number and nobody else's,
  and removing succeeds exactly on a number that is in use.\<close>

theorem thread_table_counts:
  assumes "DynArrayCtor mem0 n = Some t" "n < 2 ^ 60" "thread_run (empty_tables d t) nap"
  shows "\<exists>m. (\<forall>i. DynArrayGet (threads nap) i = Inr (m i)) \<and> finite (dom m) \<and> num_threads nap = int (card (dom m)) \<and>
    (num_threads nap < 2 ^ 31 - 1 \<longrightarrow> (\<exists>k nap'. NaClAddThreadMu (\<lambda>_. True) natp nap = Some (Inr (k, nap')) \<and>
      lowest_free m (as_index k) \<and> (\<forall>j. NaClGetThreadMu j nap' = Inr ((m(as_index k \<mapsto> natp)) (as_index j))))) \<and>
    (0 \<le>s k \<longrightarrow> (if m (as_index k) = None then NaClRemoveThreadMu (\<lambda>_. True) k nap = Some (Inl LogFatal)
      else \<exists>nap'. NaClRemoveThreadMu (\<lambda>_. True) k nap = Some (Inr nap') \<and>
        (\<forall>j. NaClGetThreadMu j nap' = Inr ((m(as_index k := None)) (as_index j)))))"
proof -
  have "counted (empty_tables d t) (\<lambda>_. None)"
    using DynArrayCtor_ok [OF assms(1,2)] by (simp add: counted_def empty_tables_def dyn_holds_def)
  from thread_run_counted [OF assms(3) this] obtain m where m: "counted nap m" by blast
  have h: "dyn_holds (threads nap) m" "num_threads nap = int (card (dom m))" using m by (simp_all add: counted_def)
  have add: "\<exists>k nap'. NaClAddThreadMu (\<lambda>_. True) natp nap = Some (Inr (k, nap')) \<and>
      lowest_free m (as_index k) \<and> (\<forall>j. NaClGetThreadMu j nap' = Inr ((m(as_index k \<mapsto> natp)) (as_index j)))"
    if lt: "num_threads nap < 2 ^ 31 - 1"
  proof -
    obtain p nap' where p: "lowest_free m p" "p \<le> 2 ^ 31 - 1"
      "NaClAddThreadMu (\<lambda>_. True) natp nap = Some (Inr (of_nat p, nap'))" "counted nap' (m(p \<mapsto> natp))"
      using counted_add [OF m lt, of "\<lambda>_. True" natp] by auto
    have "as_index (of_nat p) = p" using as_index_of_nat [OF p(2)] by blast
    then show ?thesis using p counted_get [OF p(4)] by (intro exI [of _ "of_nat p"] exI [of _ nap']) simp
  qed
  have rem: "if m (as_index k) = None then NaClRemoveThreadMu (\<lambda>_. True) k nap = Some (Inl LogFatal)
      else \<exists>nap'. NaClRemoveThreadMu (\<lambda>_. True) k nap = Some (Inr nap') \<and>
        (\<forall>j. NaClGetThreadMu j nap' = Inr ((m(as_index k := None)) (as_index j)))"
    if "0 \<le>s k" using counted_remove [OF m that, of "\<lambda>_. True"] by (auto simp: counted_get split: if_splits)
  have g: "\<forall>i. DynArrayGet (threads nap) i = Inr (m i)" using da.get_law [OF h(1)] by blast
  show ?thesis
    by (rule exI, rule conjI [OF g conjI [OF da.holds_finite [OF h(1)] conjI [OF h(2) conjI [OF impI [OF add] impI [OF rem]]]]])
qed

theorem thread_table_counts_witness:
  "\<exists>k nap'. NaClAddThreadMu (\<lambda>_. True) ''main'' (empty_tables (the (DynArrayCtor (\<lambda>_. True) 0) :: unit DynArray) (the (DynArrayCtor (\<lambda>_. True) 0)))
     = Some (Inr (k, nap')) \<and> NaClGetThreadMu k nap' = Inr (Some ''main'')"
proof -
  let ?d = "the (DynArrayCtor (\<lambda>_. True) 0) :: unit DynArray"
  let ?t = "the (DynArrayCtor (\<lambda>_. True) 0) :: string DynArray"
  have c: "DynArrayCtor (\<lambda>_. True) 0 = Some ?t"
    by (simp add: DynArrayCtor_def SIZE_T_MAX_def BitsToAllocWords_def kBitsPerWord_def kWordIndexShift_def)
  let ?nap = "empty_tables ?d ?t"
  have z: "(0 :: nat) < 2 ^ 60" by simp
  have n: "num_threads ?nap < 2 ^ 31 - 1" by (simp add: empty_tables_def)
  obtain m where "num_threads ?nap < 2 ^ 31 - 1 \<longrightarrow> (\<exists>k nap'. NaClAddThreadMu (\<lambda>_. True) ''main'' ?nap = Some (Inr (k, nap')) \<and>
      lowest_free m (as_index k) \<and> (\<forall>j. NaClGetThreadMu j nap' = Inr ((m(as_index k \<mapsto> ''main'')) (as_index j))))"
    using thread_table_counts [OF c z thread_start, of ?d "''main''" 0] by (elim exE conjE) (rule that)
  then obtain k nap' where k: "NaClAddThreadMu (\<lambda>_. True) ''main'' ?nap = Some (Inr (k, nap'))"
    and g: "\<forall>j. NaClGetThreadMu j nap' = Inr ((m(as_index k \<mapsto> ''main'')) (as_index j))" using n by blast
  show ?thesis using k spec [OF g, of k] by simp
qed

end
