(* ===== verification/Errno.thy ===== *)
theory Errno
  imports Prelude
begin

text \<open>
  Error numbers: the translation of the host's numbers to those of the sandbox's interface
  (\<open>shared/platform/nacl_host_desc_common.c\<close>) and the tests by which callers tell an error from a
  result (\<open>shared/platform/nacl_host_desc.h\<close>).

  The numbers of the interface are those of \<open>service_runtime/include/sys/errno.h\<close>, those of the
  host those of \<open>stdlib/errno.h\<close>; \<open>ENOTSUP\<close>, which that file lacks, has the value the C
  library gives it. The table of the switch has the cases the preprocessor keeps: those whose name
  the host has. \<open>ELNRNG\<close> is not among them, since its condition names \<open>EL3RNG\<close>.
\<close>

named_theorems errno_defs \<open>the error numbers\<close>

section \<open>Numbers of the interface\<close>

definition NACL_ABI_EPERM :: u32 where [errno_defs]: "NACL_ABI_EPERM = 1"
definition NACL_ABI_ENOENT :: u32 where [errno_defs]: "NACL_ABI_ENOENT = 2"
definition NACL_ABI_ESRCH :: u32 where [errno_defs]: "NACL_ABI_ESRCH = 3"
definition NACL_ABI_EINTR :: u32 where [errno_defs]: "NACL_ABI_EINTR = 4"
definition NACL_ABI_EIO :: u32 where [errno_defs]: "NACL_ABI_EIO = 5"
definition NACL_ABI_ENXIO :: u32 where [errno_defs]: "NACL_ABI_ENXIO = 6"
definition NACL_ABI_E2BIG :: u32 where [errno_defs]: "NACL_ABI_E2BIG = 7"
definition NACL_ABI_ENOEXEC :: u32 where [errno_defs]: "NACL_ABI_ENOEXEC = 8"
definition NACL_ABI_EBADF :: u32 where [errno_defs]: "NACL_ABI_EBADF = 9"
definition NACL_ABI_ECHILD :: u32 where [errno_defs]: "NACL_ABI_ECHILD = 10"
definition NACL_ABI_EAGAIN :: u32 where [errno_defs]: "NACL_ABI_EAGAIN = 11"
definition NACL_ABI_ENOMEM :: u32 where [errno_defs]: "NACL_ABI_ENOMEM = 12"
definition NACL_ABI_EACCES :: u32 where [errno_defs]: "NACL_ABI_EACCES = 13"
definition NACL_ABI_EFAULT :: u32 where [errno_defs]: "NACL_ABI_EFAULT = 14"
definition NACL_ABI_EBUSY :: u32 where [errno_defs]: "NACL_ABI_EBUSY = 16"
definition NACL_ABI_EEXIST :: u32 where [errno_defs]: "NACL_ABI_EEXIST = 17"
definition NACL_ABI_EXDEV :: u32 where [errno_defs]: "NACL_ABI_EXDEV = 18"
definition NACL_ABI_ENODEV :: u32 where [errno_defs]: "NACL_ABI_ENODEV = 19"
definition NACL_ABI_ENOTDIR :: u32 where [errno_defs]: "NACL_ABI_ENOTDIR = 20"
definition NACL_ABI_EISDIR :: u32 where [errno_defs]: "NACL_ABI_EISDIR = 21"
definition NACL_ABI_EINVAL :: u32 where [errno_defs]: "NACL_ABI_EINVAL = 22"
definition NACL_ABI_ENFILE :: u32 where [errno_defs]: "NACL_ABI_ENFILE = 23"
definition NACL_ABI_EMFILE :: u32 where [errno_defs]: "NACL_ABI_EMFILE = 24"
definition NACL_ABI_ENOTTY :: u32 where [errno_defs]: "NACL_ABI_ENOTTY = 25"
definition NACL_ABI_EFBIG :: u32 where [errno_defs]: "NACL_ABI_EFBIG = 27"
definition NACL_ABI_ENOSPC :: u32 where [errno_defs]: "NACL_ABI_ENOSPC = 28"
definition NACL_ABI_ESPIPE :: u32 where [errno_defs]: "NACL_ABI_ESPIPE = 29"
definition NACL_ABI_EROFS :: u32 where [errno_defs]: "NACL_ABI_EROFS = 30"
definition NACL_ABI_EMLINK :: u32 where [errno_defs]: "NACL_ABI_EMLINK = 31"
definition NACL_ABI_EPIPE :: u32 where [errno_defs]: "NACL_ABI_EPIPE = 32"
definition NACL_ABI_ENAMETOOLONG :: u32 where [errno_defs]: "NACL_ABI_ENAMETOOLONG = 36"
definition NACL_ABI_ENOSYS :: u32 where [errno_defs]: "NACL_ABI_ENOSYS = 38"
definition NACL_ABI_EDQUOT :: u32 where [errno_defs]: "NACL_ABI_EDQUOT = 122"
definition NACL_ABI_EDOM :: u32 where [errno_defs]: "NACL_ABI_EDOM = 33"
definition NACL_ABI_ERANGE :: u32 where [errno_defs]: "NACL_ABI_ERANGE = 34"
definition NACL_ABI_EDEADLK :: u32 where [errno_defs]: "NACL_ABI_EDEADLK = 35"
definition NACL_ABI_ENOLCK :: u32 where [errno_defs]: "NACL_ABI_ENOLCK = 37"
definition NACL_ABI_ENOTEMPTY :: u32 where [errno_defs]: "NACL_ABI_ENOTEMPTY = 39"
definition NACL_ABI_ELOOP :: u32 where [errno_defs]: "NACL_ABI_ELOOP = 40"
definition NACL_ABI_ENOMSG :: u32 where [errno_defs]: "NACL_ABI_ENOMSG = 42"
definition NACL_ABI_EIDRM :: u32 where [errno_defs]: "NACL_ABI_EIDRM = 43"
definition NACL_ABI_ECHRNG :: u32 where [errno_defs]: "NACL_ABI_ECHRNG = 44"
definition NACL_ABI_EL2NSYNC :: u32 where [errno_defs]: "NACL_ABI_EL2NSYNC = 45"
definition NACL_ABI_EL3HLT :: u32 where [errno_defs]: "NACL_ABI_EL3HLT = 46"
definition NACL_ABI_EL3RST :: u32 where [errno_defs]: "NACL_ABI_EL3RST = 47"
definition NACL_ABI_ELNRNG :: u32 where [errno_defs]: "NACL_ABI_ELNRNG = 48"
definition NACL_ABI_EUNATCH :: u32 where [errno_defs]: "NACL_ABI_EUNATCH = 49"
definition NACL_ABI_ENOCSI :: u32 where [errno_defs]: "NACL_ABI_ENOCSI = 50"
definition NACL_ABI_EL2HLT :: u32 where [errno_defs]: "NACL_ABI_EL2HLT = 51"
definition NACL_ABI_EBADE :: u32 where [errno_defs]: "NACL_ABI_EBADE = 52"
definition NACL_ABI_EBADR :: u32 where [errno_defs]: "NACL_ABI_EBADR = 53"
definition NACL_ABI_EXFULL :: u32 where [errno_defs]: "NACL_ABI_EXFULL = 54"
definition NACL_ABI_ENOANO :: u32 where [errno_defs]: "NACL_ABI_ENOANO = 55"
definition NACL_ABI_EBADRQC :: u32 where [errno_defs]: "NACL_ABI_EBADRQC = 56"
definition NACL_ABI_EBADSLT :: u32 where [errno_defs]: "NACL_ABI_EBADSLT = 57"
definition NACL_ABI_EDEADLOCK :: u32 where [errno_defs]: "NACL_ABI_EDEADLOCK = 35"
definition NACL_ABI_EBFONT :: u32 where [errno_defs]: "NACL_ABI_EBFONT = 59"
definition NACL_ABI_ENOSTR :: u32 where [errno_defs]: "NACL_ABI_ENOSTR = 60"
definition NACL_ABI_ENODATA :: u32 where [errno_defs]: "NACL_ABI_ENODATA = 61"
definition NACL_ABI_ETIME :: u32 where [errno_defs]: "NACL_ABI_ETIME = 62"
definition NACL_ABI_ENOSR :: u32 where [errno_defs]: "NACL_ABI_ENOSR = 63"
definition NACL_ABI_ENONET :: u32 where [errno_defs]: "NACL_ABI_ENONET = 64"
definition NACL_ABI_ENOPKG :: u32 where [errno_defs]: "NACL_ABI_ENOPKG = 65"
definition NACL_ABI_EREMOTE :: u32 where [errno_defs]: "NACL_ABI_EREMOTE = 66"
definition NACL_ABI_ENOLINK :: u32 where [errno_defs]: "NACL_ABI_ENOLINK = 67"
definition NACL_ABI_EADV :: u32 where [errno_defs]: "NACL_ABI_EADV = 68"
definition NACL_ABI_ESRMNT :: u32 where [errno_defs]: "NACL_ABI_ESRMNT = 69"
definition NACL_ABI_ECOMM :: u32 where [errno_defs]: "NACL_ABI_ECOMM = 70"
definition NACL_ABI_EPROTO :: u32 where [errno_defs]: "NACL_ABI_EPROTO = 71"
definition NACL_ABI_EMULTIHOP :: u32 where [errno_defs]: "NACL_ABI_EMULTIHOP = 72"
definition NACL_ABI_EDOTDOT :: u32 where [errno_defs]: "NACL_ABI_EDOTDOT = 73"
definition NACL_ABI_EBADMSG :: u32 where [errno_defs]: "NACL_ABI_EBADMSG = 74"
definition NACL_ABI_EOVERFLOW :: u32 where [errno_defs]: "NACL_ABI_EOVERFLOW = 75"
definition NACL_ABI_ENOTUNIQ :: u32 where [errno_defs]: "NACL_ABI_ENOTUNIQ = 76"
definition NACL_ABI_EBADFD :: u32 where [errno_defs]: "NACL_ABI_EBADFD = 77"
definition NACL_ABI_EREMCHG :: u32 where [errno_defs]: "NACL_ABI_EREMCHG = 78"
definition NACL_ABI_ELIBACC :: u32 where [errno_defs]: "NACL_ABI_ELIBACC = 79"
definition NACL_ABI_ELIBBAD :: u32 where [errno_defs]: "NACL_ABI_ELIBBAD = 80"
definition NACL_ABI_ELIBSCN :: u32 where [errno_defs]: "NACL_ABI_ELIBSCN = 81"
definition NACL_ABI_ELIBMAX :: u32 where [errno_defs]: "NACL_ABI_ELIBMAX = 82"
definition NACL_ABI_ELIBEXEC :: u32 where [errno_defs]: "NACL_ABI_ELIBEXEC = 83"
definition NACL_ABI_EILSEQ :: u32 where [errno_defs]: "NACL_ABI_EILSEQ = 84"
definition NACL_ABI_EUSERS :: u32 where [errno_defs]: "NACL_ABI_EUSERS = 87"
definition NACL_ABI_ENOTSOCK :: u32 where [errno_defs]: "NACL_ABI_ENOTSOCK = 88"
definition NACL_ABI_EDESTADDRREQ :: u32 where [errno_defs]: "NACL_ABI_EDESTADDRREQ = 89"
definition NACL_ABI_EMSGSIZE :: u32 where [errno_defs]: "NACL_ABI_EMSGSIZE = 90"
definition NACL_ABI_EPROTOTYPE :: u32 where [errno_defs]: "NACL_ABI_EPROTOTYPE = 91"
definition NACL_ABI_ENOPROTOOPT :: u32 where [errno_defs]: "NACL_ABI_ENOPROTOOPT = 92"
definition NACL_ABI_EPROTONOSUPPORT :: u32 where [errno_defs]: "NACL_ABI_EPROTONOSUPPORT = 93"
definition NACL_ABI_ESOCKTNOSUPPORT :: u32 where [errno_defs]: "NACL_ABI_ESOCKTNOSUPPORT = 94"
definition NACL_ABI_EOPNOTSUPP :: u32 where [errno_defs]: "NACL_ABI_EOPNOTSUPP = 95"
definition NACL_ABI_EPFNOSUPPORT :: u32 where [errno_defs]: "NACL_ABI_EPFNOSUPPORT = 96"
definition NACL_ABI_EAFNOSUPPORT :: u32 where [errno_defs]: "NACL_ABI_EAFNOSUPPORT = 97"
definition NACL_ABI_EADDRINUSE :: u32 where [errno_defs]: "NACL_ABI_EADDRINUSE = 98"
definition NACL_ABI_EADDRNOTAVAIL :: u32 where [errno_defs]: "NACL_ABI_EADDRNOTAVAIL = 99"
definition NACL_ABI_ENETDOWN :: u32 where [errno_defs]: "NACL_ABI_ENETDOWN = 100"
definition NACL_ABI_ENETUNREACH :: u32 where [errno_defs]: "NACL_ABI_ENETUNREACH = 101"
definition NACL_ABI_ENETRESET :: u32 where [errno_defs]: "NACL_ABI_ENETRESET = 102"
definition NACL_ABI_ECONNABORTED :: u32 where [errno_defs]: "NACL_ABI_ECONNABORTED = 103"
definition NACL_ABI_ECONNRESET :: u32 where [errno_defs]: "NACL_ABI_ECONNRESET = 104"
definition NACL_ABI_ENOBUFS :: u32 where [errno_defs]: "NACL_ABI_ENOBUFS = 105"
definition NACL_ABI_EISCONN :: u32 where [errno_defs]: "NACL_ABI_EISCONN = 106"
definition NACL_ABI_ENOTCONN :: u32 where [errno_defs]: "NACL_ABI_ENOTCONN = 107"
definition NACL_ABI_ESHUTDOWN :: u32 where [errno_defs]: "NACL_ABI_ESHUTDOWN = 108"
definition NACL_ABI_ETOOMANYREFS :: u32 where [errno_defs]: "NACL_ABI_ETOOMANYREFS = 109"
definition NACL_ABI_ETIMEDOUT :: u32 where [errno_defs]: "NACL_ABI_ETIMEDOUT = 110"
definition NACL_ABI_ECONNREFUSED :: u32 where [errno_defs]: "NACL_ABI_ECONNREFUSED = 111"
definition NACL_ABI_EHOSTDOWN :: u32 where [errno_defs]: "NACL_ABI_EHOSTDOWN = 112"
definition NACL_ABI_EHOSTUNREACH :: u32 where [errno_defs]: "NACL_ABI_EHOSTUNREACH = 113"
definition NACL_ABI_EALREADY :: u32 where [errno_defs]: "NACL_ABI_EALREADY = 114"
definition NACL_ABI_EINPROGRESS :: u32 where [errno_defs]: "NACL_ABI_EINPROGRESS = 115"
definition NACL_ABI_ESTALE :: u32 where [errno_defs]: "NACL_ABI_ESTALE = 116"
definition NACL_ABI_ENOTSUP :: u32 where [errno_defs]: "NACL_ABI_ENOTSUP = 95"
definition NACL_ABI_ENOMEDIUM :: u32 where [errno_defs]: "NACL_ABI_ENOMEDIUM = 123"
definition NACL_ABI_ECANCELED :: u32 where [errno_defs]: "NACL_ABI_ECANCELED = 125"
definition NACL_ABI_EOWNERDEAD :: u32 where [errno_defs]: "NACL_ABI_EOWNERDEAD = 130"
definition NACL_ABI_ENOTRECOVERABLE :: u32 where [errno_defs]: "NACL_ABI_ENOTRECOVERABLE = 131"
definition NACL_ABI_ELBIN :: u32 where [errno_defs]: "NACL_ABI_ELBIN = 2048"
definition NACL_ABI_EFTYPE :: u32 where [errno_defs]: "NACL_ABI_EFTYPE = 2049"
definition NACL_ABI_ENMFILE :: u32 where [errno_defs]: "NACL_ABI_ENMFILE = 2050"
definition NACL_ABI_EPROCLIM :: u32 where [errno_defs]: "NACL_ABI_EPROCLIM = 2051"
definition NACL_ABI_ENOSHARE :: u32 where [errno_defs]: "NACL_ABI_ENOSHARE = 2052"
definition NACL_ABI_ECASECLASH :: u32 where [errno_defs]: "NACL_ABI_ECASECLASH = 2053"
definition NACL_ABI_EWOULDBLOCK :: u32 where [errno_defs]: "NACL_ABI_EWOULDBLOCK = 11"

section \<open>Numbers of the host\<close>

definition EPERM :: u32 where [errno_defs]: "EPERM = 1"
definition ENOENT :: u32 where [errno_defs]: "ENOENT = 2"
definition ESRCH :: u32 where [errno_defs]: "ESRCH = 3"
definition EINTR :: u32 where [errno_defs]: "EINTR = 4"
definition EIO :: u32 where [errno_defs]: "EIO = 5"
definition ENXIO :: u32 where [errno_defs]: "ENXIO = 6"
definition E2BIG :: u32 where [errno_defs]: "E2BIG = 7"
definition ENOEXEC :: u32 where [errno_defs]: "ENOEXEC = 8"
definition EBADF :: u32 where [errno_defs]: "EBADF = 9"
definition ECHILD :: u32 where [errno_defs]: "ECHILD = 10"
definition EAGAIN :: u32 where [errno_defs]: "EAGAIN = 11"
definition ENOMEM :: u32 where [errno_defs]: "ENOMEM = 12"
definition EACCES :: u32 where [errno_defs]: "EACCES = 13"
definition EFAULT :: u32 where [errno_defs]: "EFAULT = 14"
definition ENOTBLK :: u32 where [errno_defs]: "ENOTBLK = 15"
definition EBUSY :: u32 where [errno_defs]: "EBUSY = 16"
definition EEXIST :: u32 where [errno_defs]: "EEXIST = 17"
definition EXDEV :: u32 where [errno_defs]: "EXDEV = 18"
definition ENODEV :: u32 where [errno_defs]: "ENODEV = 19"
definition ENOTDIR :: u32 where [errno_defs]: "ENOTDIR = 20"
definition EISDIR :: u32 where [errno_defs]: "EISDIR = 21"
definition EINVAL :: u32 where [errno_defs]: "EINVAL = 22"
definition ENFILE :: u32 where [errno_defs]: "ENFILE = 23"
definition EMFILE :: u32 where [errno_defs]: "EMFILE = 24"
definition ENOTTY :: u32 where [errno_defs]: "ENOTTY = 25"
definition ETXTBSY :: u32 where [errno_defs]: "ETXTBSY = 26"
definition EFBIG :: u32 where [errno_defs]: "EFBIG = 27"
definition ENOSPC :: u32 where [errno_defs]: "ENOSPC = 28"
definition ESPIPE :: u32 where [errno_defs]: "ESPIPE = 29"
definition EROFS :: u32 where [errno_defs]: "EROFS = 30"
definition EMLINK :: u32 where [errno_defs]: "EMLINK = 31"
definition EPIPE :: u32 where [errno_defs]: "EPIPE = 32"
definition EDOM :: u32 where [errno_defs]: "EDOM = 33"
definition ERANGE :: u32 where [errno_defs]: "ERANGE = 34"
definition EDEADLK :: u32 where [errno_defs]: "EDEADLK = 35"
definition ENAMETOOLONG :: u32 where [errno_defs]: "ENAMETOOLONG = 36"
definition ENOLCK :: u32 where [errno_defs]: "ENOLCK = 37"
definition ENOSYS :: u32 where [errno_defs]: "ENOSYS = 38"
definition ENOTEMPTY :: u32 where [errno_defs]: "ENOTEMPTY = 39"
definition ELOOP :: u32 where [errno_defs]: "ELOOP = 40"
definition EWOULDBLOCK :: u32 where [errno_defs]: "EWOULDBLOCK = 11"
definition ENOMSG :: u32 where [errno_defs]: "ENOMSG = 42"
definition EIDRM :: u32 where [errno_defs]: "EIDRM = 43"
definition ECHRNG :: u32 where [errno_defs]: "ECHRNG = 44"
definition EL2NSYNC :: u32 where [errno_defs]: "EL2NSYNC = 45"
definition EL3HLT :: u32 where [errno_defs]: "EL3HLT = 46"
definition EL3RST :: u32 where [errno_defs]: "EL3RST = 47"
definition ELNRNG :: u32 where [errno_defs]: "ELNRNG = 48"
definition EUNATCH :: u32 where [errno_defs]: "EUNATCH = 49"
definition ENOCSI :: u32 where [errno_defs]: "ENOCSI = 50"
definition EL2HLT :: u32 where [errno_defs]: "EL2HLT = 51"
definition EBADE :: u32 where [errno_defs]: "EBADE = 52"
definition EBADR :: u32 where [errno_defs]: "EBADR = 53"
definition EXFULL :: u32 where [errno_defs]: "EXFULL = 54"
definition ENOANO :: u32 where [errno_defs]: "ENOANO = 55"
definition EBADRQC :: u32 where [errno_defs]: "EBADRQC = 56"
definition EBADSLT :: u32 where [errno_defs]: "EBADSLT = 57"
definition EDEADLOCK :: u32 where [errno_defs]: "EDEADLOCK = 35"
definition EBFONT :: u32 where [errno_defs]: "EBFONT = 59"
definition ENOSTR :: u32 where [errno_defs]: "ENOSTR = 60"
definition ENODATA :: u32 where [errno_defs]: "ENODATA = 61"
definition ETIME :: u32 where [errno_defs]: "ETIME = 62"
definition ENOSR :: u32 where [errno_defs]: "ENOSR = 63"
definition ENONET :: u32 where [errno_defs]: "ENONET = 64"
definition ENOPKG :: u32 where [errno_defs]: "ENOPKG = 65"
definition EREMOTE :: u32 where [errno_defs]: "EREMOTE = 66"
definition ENOLINK :: u32 where [errno_defs]: "ENOLINK = 67"
definition EADV :: u32 where [errno_defs]: "EADV = 68"
definition ESRMNT :: u32 where [errno_defs]: "ESRMNT = 69"
definition ECOMM :: u32 where [errno_defs]: "ECOMM = 70"
definition EPROTO :: u32 where [errno_defs]: "EPROTO = 71"
definition EMULTIHOP :: u32 where [errno_defs]: "EMULTIHOP = 72"
definition EDOTDOT :: u32 where [errno_defs]: "EDOTDOT = 73"
definition EBADMSG :: u32 where [errno_defs]: "EBADMSG = 74"
definition EOVERFLOW :: u32 where [errno_defs]: "EOVERFLOW = 75"
definition ENOTUNIQ :: u32 where [errno_defs]: "ENOTUNIQ = 76"
definition EBADFD :: u32 where [errno_defs]: "EBADFD = 77"
definition EREMCHG :: u32 where [errno_defs]: "EREMCHG = 78"
definition ELIBACC :: u32 where [errno_defs]: "ELIBACC = 79"
definition ELIBBAD :: u32 where [errno_defs]: "ELIBBAD = 80"
definition ELIBSCN :: u32 where [errno_defs]: "ELIBSCN = 81"
definition ELIBMAX :: u32 where [errno_defs]: "ELIBMAX = 82"
definition ELIBEXEC :: u32 where [errno_defs]: "ELIBEXEC = 83"
definition EILSEQ :: u32 where [errno_defs]: "EILSEQ = 84"
definition ERESTART :: u32 where [errno_defs]: "ERESTART = 85"
definition ESTRPIPE :: u32 where [errno_defs]: "ESTRPIPE = 86"
definition EUSERS :: u32 where [errno_defs]: "EUSERS = 87"
definition ENOTSOCK :: u32 where [errno_defs]: "ENOTSOCK = 88"
definition EDESTADDRREQ :: u32 where [errno_defs]: "EDESTADDRREQ = 89"
definition EMSGSIZE :: u32 where [errno_defs]: "EMSGSIZE = 90"
definition EPROTOTYPE :: u32 where [errno_defs]: "EPROTOTYPE = 91"
definition ENOPROTOOPT :: u32 where [errno_defs]: "ENOPROTOOPT = 92"
definition EPROTONOSUPPORT :: u32 where [errno_defs]: "EPROTONOSUPPORT = 93"
definition ESOCKTNOSUPPORT :: u32 where [errno_defs]: "ESOCKTNOSUPPORT = 94"
definition EOPNOTSUPP :: u32 where [errno_defs]: "EOPNOTSUPP = 95"
definition EPFNOSUPPORT :: u32 where [errno_defs]: "EPFNOSUPPORT = 96"
definition EAFNOSUPPORT :: u32 where [errno_defs]: "EAFNOSUPPORT = 97"
definition EADDRINUSE :: u32 where [errno_defs]: "EADDRINUSE = 98"
definition EADDRNOTAVAIL :: u32 where [errno_defs]: "EADDRNOTAVAIL = 99"
definition ENETDOWN :: u32 where [errno_defs]: "ENETDOWN = 100"
definition ENETUNREACH :: u32 where [errno_defs]: "ENETUNREACH = 101"
definition ENETRESET :: u32 where [errno_defs]: "ENETRESET = 102"
definition ECONNABORTED :: u32 where [errno_defs]: "ECONNABORTED = 103"
definition ECONNRESET :: u32 where [errno_defs]: "ECONNRESET = 104"
definition ENOBUFS :: u32 where [errno_defs]: "ENOBUFS = 105"
definition EISCONN :: u32 where [errno_defs]: "EISCONN = 106"
definition ENOTCONN :: u32 where [errno_defs]: "ENOTCONN = 107"
definition ESHUTDOWN :: u32 where [errno_defs]: "ESHUTDOWN = 108"
definition ETOOMANYREFS :: u32 where [errno_defs]: "ETOOMANYREFS = 109"
definition ETIMEDOUT :: u32 where [errno_defs]: "ETIMEDOUT = 110"
definition ECONNREFUSED :: u32 where [errno_defs]: "ECONNREFUSED = 111"
definition EHOSTDOWN :: u32 where [errno_defs]: "EHOSTDOWN = 112"
definition EHOSTUNREACH :: u32 where [errno_defs]: "EHOSTUNREACH = 113"
definition EALREADY :: u32 where [errno_defs]: "EALREADY = 114"
definition EINPROGRESS :: u32 where [errno_defs]: "EINPROGRESS = 115"
definition ESTALE :: u32 where [errno_defs]: "ESTALE = 116"
definition EUCLEAN :: u32 where [errno_defs]: "EUCLEAN = 117"
definition ENOTNAM :: u32 where [errno_defs]: "ENOTNAM = 118"
definition ENAVAIL :: u32 where [errno_defs]: "ENAVAIL = 119"
definition EISNAM :: u32 where [errno_defs]: "EISNAM = 120"
definition EREMOTEIO :: u32 where [errno_defs]: "EREMOTEIO = 121"
definition EDQUOT :: u32 where [errno_defs]: "EDQUOT = 122"
definition ENOMEDIUM :: u32 where [errno_defs]: "ENOMEDIUM = 123"
definition EMEDIUMTYPE :: u32 where [errno_defs]: "EMEDIUMTYPE = 124"
definition ECANCELED :: u32 where [errno_defs]: "ECANCELED = 125"
definition ENOKEY :: u32 where [errno_defs]: "ENOKEY = 126"
definition EKEYEXPIRED :: u32 where [errno_defs]: "EKEYEXPIRED = 127"
definition EKEYREVOKED :: u32 where [errno_defs]: "EKEYREVOKED = 128"
definition EKEYREJECTED :: u32 where [errno_defs]: "EKEYREJECTED = 129"
definition EOWNERDEAD :: u32 where [errno_defs]: "EOWNERDEAD = 130"
definition ENOTRECOVERABLE :: u32 where [errno_defs]: "ENOTRECOVERABLE = 131"
definition ERFKILL :: u32 where [errno_defs]: "ERFKILL = 132"
definition EHWPOISON :: u32 where [errno_defs]: "EHWPOISON = 133"
definition ENOTSUP :: u32 where [errno_defs]: "ENOTSUP = 95"

section \<open>The translation\<close>

definition errno_switch :: "(u32 \<times> u32) list" where
  "errno_switch = [
    (EPERM, NACL_ABI_EPERM), (ENOENT, NACL_ABI_ENOENT), (ESRCH, NACL_ABI_ESRCH), (EINTR, NACL_ABI_EINTR)
    , (EIO, NACL_ABI_EIO), (ENXIO, NACL_ABI_ENXIO), (E2BIG, NACL_ABI_E2BIG), (ENOEXEC, NACL_ABI_ENOEXEC)
    , (EBADF, NACL_ABI_EBADF), (ECHILD, NACL_ABI_ECHILD), (EAGAIN, NACL_ABI_EAGAIN)
    , (ENOMEM, NACL_ABI_ENOMEM), (EACCES, NACL_ABI_EACCES), (EFAULT, NACL_ABI_EFAULT)
    , (EBUSY, NACL_ABI_EBUSY), (EEXIST, NACL_ABI_EEXIST), (EXDEV, NACL_ABI_EXDEV)
    , (ENODEV, NACL_ABI_ENODEV), (ENOTDIR, NACL_ABI_ENOTDIR), (EISDIR, NACL_ABI_EISDIR)
    , (EINVAL, NACL_ABI_EINVAL), (ENFILE, NACL_ABI_ENFILE), (EMFILE, NACL_ABI_EMFILE)
    , (ENOTTY, NACL_ABI_ENOTTY), (EFBIG, NACL_ABI_EFBIG), (ENOSPC, NACL_ABI_ENOSPC)
    , (ESPIPE, NACL_ABI_ESPIPE), (EROFS, NACL_ABI_EROFS), (EMLINK, NACL_ABI_EMLINK)
    , (EPIPE, NACL_ABI_EPIPE), (ENAMETOOLONG, NACL_ABI_ENAMETOOLONG), (ENOSYS, NACL_ABI_ENOSYS)
    , (EDQUOT, NACL_ABI_EDQUOT), (EDOM, NACL_ABI_EDOM), (ERANGE, NACL_ABI_ERANGE)
    , (ENOMSG, NACL_ABI_ENOMSG), (ECHRNG, NACL_ABI_ECHRNG), (EL3HLT, NACL_ABI_EL3HLT)
    , (EL3RST, NACL_ABI_EL3RST), (EUNATCH, NACL_ABI_EUNATCH), (ENOCSI, NACL_ABI_ENOCSI)
    , (EL2HLT, NACL_ABI_EL2HLT), (EDEADLK, NACL_ABI_EDEADLK), (ENOLCK, NACL_ABI_ENOLCK)
    , (EBADE, NACL_ABI_EBADE), (EBADR, NACL_ABI_EBADR), (EXFULL, NACL_ABI_EXFULL)
    , (ENOANO, NACL_ABI_ENOANO), (EBADRQC, NACL_ABI_EBADRQC), (EBADSLT, NACL_ABI_EBADSLT)
    , (EBFONT, NACL_ABI_EBFONT), (ENOSTR, NACL_ABI_ENOSTR), (ENODATA, NACL_ABI_ENODATA)
    , (ETIME, NACL_ABI_ETIME), (ENOSR, NACL_ABI_ENOSR), (ENONET, NACL_ABI_ENONET)
    , (ENOPKG, NACL_ABI_ENOPKG), (EREMOTE, NACL_ABI_EREMOTE), (ENOLINK, NACL_ABI_ENOLINK)
    , (EADV, NACL_ABI_EADV), (ESRMNT, NACL_ABI_ESRMNT), (ECOMM, NACL_ABI_ECOMM)
    , (EPROTO, NACL_ABI_EPROTO), (EMULTIHOP, NACL_ABI_EMULTIHOP), (EDOTDOT, NACL_ABI_EDOTDOT)
    , (EBADMSG, NACL_ABI_EBADMSG), (ENOTUNIQ, NACL_ABI_ENOTUNIQ), (EBADFD, NACL_ABI_EBADFD)
    , (EREMCHG, NACL_ABI_EREMCHG), (ELIBACC, NACL_ABI_ELIBACC), (ELIBBAD, NACL_ABI_ELIBBAD)
    , (ELIBSCN, NACL_ABI_ELIBSCN), (ELIBMAX, NACL_ABI_ELIBMAX), (ELIBEXEC, NACL_ABI_ELIBEXEC)
    , (ENOTEMPTY, NACL_ABI_ENOTEMPTY), (ELOOP, NACL_ABI_ELOOP), (EOPNOTSUPP, NACL_ABI_EOPNOTSUPP)
    , (EPFNOSUPPORT, NACL_ABI_EPFNOSUPPORT), (ECONNRESET, NACL_ABI_ECONNRESET)
    , (ENOBUFS, NACL_ABI_ENOBUFS), (EAFNOSUPPORT, NACL_ABI_EAFNOSUPPORT)
    , (EPROTOTYPE, NACL_ABI_EPROTOTYPE), (ENOTSOCK, NACL_ABI_ENOTSOCK)
    , (ENOPROTOOPT, NACL_ABI_ENOPROTOOPT), (ESHUTDOWN, NACL_ABI_ESHUTDOWN)
    , (ECONNREFUSED, NACL_ABI_ECONNREFUSED), (EADDRINUSE, NACL_ABI_EADDRINUSE)
    , (ECONNABORTED, NACL_ABI_ECONNABORTED), (ENETUNREACH, NACL_ABI_ENETUNREACH)
    , (ENETDOWN, NACL_ABI_ENETDOWN), (ETIMEDOUT, NACL_ABI_ETIMEDOUT), (EHOSTDOWN, NACL_ABI_EHOSTDOWN)
    , (EHOSTUNREACH, NACL_ABI_EHOSTUNREACH), (EINPROGRESS, NACL_ABI_EINPROGRESS)
    , (EALREADY, NACL_ABI_EALREADY), (EDESTADDRREQ, NACL_ABI_EDESTADDRREQ)
    , (EPROTONOSUPPORT, NACL_ABI_EPROTONOSUPPORT), (ESOCKTNOSUPPORT, NACL_ABI_ESOCKTNOSUPPORT)
    , (EADDRNOTAVAIL, NACL_ABI_EADDRNOTAVAIL), (ENETRESET, NACL_ABI_ENETRESET)
    , (EISCONN, NACL_ABI_EISCONN), (ENOTCONN, NACL_ABI_ENOTCONN), (ETOOMANYREFS, NACL_ABI_ETOOMANYREFS)
    , (EUSERS, NACL_ABI_EUSERS), (ESTALE, NACL_ABI_ESTALE), (ENOMEDIUM, NACL_ABI_ENOMEDIUM)
    , (EILSEQ, NACL_ABI_EILSEQ), (EOVERFLOW, NACL_ABI_EOVERFLOW), (ECANCELED, NACL_ABI_ECANCELED)
    , (EL2NSYNC, NACL_ABI_EL2NSYNC), (EIDRM, NACL_ABI_EIDRM), (EMSGSIZE, NACL_ABI_EMSGSIZE)
    , (EOWNERDEAD, NACL_ABI_EOWNERDEAD), (ENOTRECOVERABLE, NACL_ABI_ENOTRECOVERABLE)]"

definition NaClXlateErrno :: "u32 \<Rightarrow> u32" where
  "NaClXlateErrno errnum =
     (if errnum = 0 then 0 else case map_of errno_switch errnum of Some e \<Rightarrow> e | None \<Rightarrow> NACL_ABI_EINVAL)"

datatype sync_status = NACL_SYNC_OK | NACL_SYNC_INTERNAL_ERROR | NACL_SYNC_BUSY | NACL_SYNC_MUTEX_INVALID
  | NACL_SYNC_MUTEX_DEADLOCK | NACL_SYNC_MUTEX_PERMISSION | NACL_SYNC_MUTEX_INTERRUPTED
  | NACL_SYNC_CONDVAR_TIMEDOUT | NACL_SYNC_CONDVAR_INTR | NACL_SYNC_SEM_INTERRUPTED | NACL_SYNC_SEM_RANGE_ERROR

fun NaClXlateNaClSyncStatus :: "sync_status \<Rightarrow> u32 run" where
  "NaClXlateNaClSyncStatus NACL_SYNC_OK = Inr 0"
| "NaClXlateNaClSyncStatus NACL_SYNC_INTERNAL_ERROR = Inl LogFatal"
| "NaClXlateNaClSyncStatus NACL_SYNC_BUSY = Inr (NACL_ABI_EBUSY)"
| "NaClXlateNaClSyncStatus NACL_SYNC_MUTEX_INVALID = Inr (NACL_ABI_EINVAL)"
| "NaClXlateNaClSyncStatus NACL_SYNC_MUTEX_DEADLOCK = Inr (NACL_ABI_EDEADLK)"
| "NaClXlateNaClSyncStatus NACL_SYNC_MUTEX_PERMISSION = Inr (NACL_ABI_EPERM)"
| "NaClXlateNaClSyncStatus NACL_SYNC_MUTEX_INTERRUPTED = Inr (NACL_ABI_EINTR)"
| "NaClXlateNaClSyncStatus NACL_SYNC_CONDVAR_TIMEDOUT = Inr (NACL_ABI_ETIMEDOUT)"
| "NaClXlateNaClSyncStatus NACL_SYNC_CONDVAR_INTR = Inr (NACL_ABI_EINTR)"
| "NaClXlateNaClSyncStatus NACL_SYNC_SEM_INTERRUPTED = Inr (NACL_ABI_EINTR)"
| "NaClXlateNaClSyncStatus NACL_SYNC_SEM_RANGE_ERROR = Inr (NACL_ABI_ERANGE)"

section \<open>Telling errors from results\<close>

definition NaClPtrIsNegErrno :: "u64 \<Rightarrow> bool" where
  "NaClPtrIsNegErrno val \<longleftrightarrow> val AND NOT 0xffff = NOT 0xffff"

definition NaClSSizeIsNegErrno :: "u64 \<Rightarrow> bool" where
  "NaClSSizeIsNegErrno val \<longleftrightarrow> val AND NOT 0xffff = NOT 0xffff"

definition NaClOff64IsNegErrno :: "u64 \<Rightarrow> bool" where
  "NaClOff64IsNegErrno val \<longleftrightarrow> val AND NOT 0xffff = NOT 0xffff"

text \<open>An error number as a result of 64 bits.\<close>

definition err64 :: "u32 \<Rightarrow> u64" where "err64 e = scast (- e)"

section \<open>Which numbers are known\<close>

text \<open>In the order of the cases; and the numbers of the host that are not among them.\<close>

definition known_errno :: "nat list" where
  "known_errno = [
    1, 2, 3, 4, 5, 6, 7, 8, 9, 10, 11, 12, 13, 14, 16, 17, 18, 19, 20, 21, 22, 23, 24, 25, 27, 28,
    29, 30, 31, 32, 36, 38, 122, 33, 34, 42, 44, 46, 47, 49, 50, 51, 35, 37, 52, 53, 54, 55, 56, 57,
    59, 60, 61, 62, 63, 64, 65, 66, 67, 68, 69, 70, 71, 72, 73, 74, 76, 77, 78, 79, 80, 81, 82, 83,
    39, 40, 95, 96, 104, 105, 97, 91, 88, 92, 108, 111, 98, 103, 101, 100, 110, 112, 113, 115, 114,
    89, 93, 94, 99, 102, 106, 107, 109, 87, 116, 123, 84, 75, 125, 45, 43, 90, 130, 131]"

definition unknown_errno :: "nat list" where
  "unknown_errno = [15, 26, 41, 48, 58, 85, 86, 117, 118, 119, 120, 121, 124, 126, 127, 128, 129, 132, 133]"

lemma errno_switch_eq: "errno_switch = map (\<lambda>n. (of_nat n, of_nat n)) known_errno"
  by (simp only: errno_switch_def known_errno_def errno_defs list.map of_nat_numeral of_nat_1)

lemma sort_known: "sort known_errno = filter (\<lambda>n. n \<notin> set unknown_errno) [1..<134]"
  by code_simp

lemma in_known: "n \<in> set known_errno \<longleftrightarrow> 1 \<le> n \<and> n < 134 \<and> n \<notin> set unknown_errno"
proof -
  have "set known_errno = set (filter (\<lambda>n. n \<notin> set unknown_errno) [1..<134])"
    by (metis set_sort sort_known)
  then show ?thesis by auto
qed

lemma map_of_same: "map_of (map (\<lambda>n. (of_nat n, of_nat n)) ns) e = (if e \<in> of_nat ` set ns then Some e else None)"
  by (induction ns) auto

lemma xlate_eq: "NaClXlateErrno e = (if unat e < 134 \<and> unat e \<notin> set unknown_errno then e else 22)"
proof (cases "e = 0")
  case True
  then show ?thesis by (simp add: NaClXlateErrno_def unknown_errno_def)
next
  case False
  have "e \<in> of_nat ` set known_errno \<longleftrightarrow> unat e \<in> set known_errno"
  proof
    assume "e \<in> of_nat ` set known_errno"
    then obtain n where n: "e = of_nat n" "n \<in> set known_errno" by blast
    then have "n < 2 ^ LENGTH(32)" by (simp add: in_known)
    then have "unat e = n" unfolding n(1) unat_of_nat by (rule mod_less)
    then show "unat e \<in> set known_errno" using n(2) by simp
  next
    assume "unat e \<in> set known_errno"
    then show "e \<in> of_nat ` set known_errno" by (intro image_eqI [of _ _ "unat e"]) simp_all
  qed
  moreover have "1 \<le> unat e" using False by (simp add: Suc_le_eq unat_gt_0)
  ultimately show ?thesis using False
    by (simp add: NaClXlateErrno_def errno_switch_eq map_of_same in_known NACL_ABI_EINVAL_def)
qed

lemma neg_errno_iff: "NaClSSizeIsNegErrno (- v) \<longleftrightarrow> v \<noteq> 0 \<and> v \<le> 0x10000" for v :: u64
proof (cases "v = 0")
  case False
  have m: "(0xffff :: u64) = mask 16" by (simp add: mask_eq_exp_minus_1)
  have "- v = NOT (v - 1)" by (simp add: not_eq_complement)
  then have "NaClSSizeIsNegErrno (- v) \<longleftrightarrow> NOT ((v - 1) OR mask 16) = NOT (mask 16 :: u64)"
    by (simp add: NaClSSizeIsNegErrno_def m)
  also have "\<dots> \<longleftrightarrow> (v - 1) OR mask 16 = mask 16" by (metis bit.double_compl)
  also have "\<dots> \<longleftrightarrow> take_bit 16 (v - 1) = v - 1"
    by (auto simp: bit_eq_iff bit_simps)
  also have "\<dots> \<longleftrightarrow> v - 1 < 2 ^ 16" 
    by (simp add: word_unat_eq_iff unsigned_take_bit_eq take_bit_nat_eq_self_iff word_less_nat_alt)
  also have "\<dots> \<longleftrightarrow> v \<le> 0x10000" using False by (simp add: word_less_nat_alt word_le_nat_alt unat_minus_one) (use unat_gt_0 [of v] in linarith)
  finally show ?thesis using False by simp
qed (simp add: NaClSSizeIsNegErrno_def)

lemma zero_known: "0 \<notin> set unknown_errno"
  by (simp add: unknown_errno_def)

text \<open>The translation of error numbers keeps every number the interface has and makes
  \<open>EINVAL\<close> of every other, so that no two of the numbers it knows are confused; a result that is
  its negation is an error number to the callers exactly when there was an error.\<close>

theorem xlate_errno_faithful:
  "NaClXlateErrno e = (if unat e < 134 \<and> unat e \<notin> set unknown_errno then e else 22) \<and>
   (NaClSSizeIsNegErrno (- ucast (NaClXlateErrno e)) \<longleftrightarrow> e \<noteq> 0)"
proof
  have "ucast (NaClXlateErrno e) \<noteq> (0 :: u64) \<and> ucast (NaClXlateErrno e) \<le> (0x10000 :: u64) \<longleftrightarrow> e \<noteq> 0"
    using xlate_eq [of e] zero_known
    by (auto simp: word_unat_eq_iff unsigned_ucast_eq word_le_nat_alt take_bit_nat_eq_self split: if_splits) (metis gr0I)
  then show "NaClSSizeIsNegErrno (- ucast (NaClXlateErrno e)) \<longleftrightarrow> e \<noteq> 0" unfolding neg_errno_iff .
qed (rule xlate_eq)

end
