(* ===== verification/SyncChecked.thy ===== *)
theory SyncChecked
  imports Errno
begin

text \<open>
  The checked calls for locks and condition variables (\<open>shared/platform/nacl_sync_checked.c\<close>), as functions of
  the status that the call itself returned (\<open>Locks\<close>).
\<close>

text \<open>The checked calls stop the process unless the status is one of those they allow.\<close>

definition sync_checked :: "sync_status list \<Rightarrow> sync_status \<Rightarrow> sync_status run" where
  "sync_checked allowed status = (if status \<in> set allowed then Inr status else Inl LogFatal)"

definition NaClXMutexLock_status :: "sync_status \<Rightarrow> sync_status run" where
  "NaClXMutexLock_status = sync_checked [NACL_SYNC_OK]"
definition NaClXMutexTryLock_status :: "sync_status \<Rightarrow> sync_status run" where
  "NaClXMutexTryLock_status = sync_checked [NACL_SYNC_OK, NACL_SYNC_BUSY]"
definition NaClXMutexUnlock_status :: "sync_status \<Rightarrow> sync_status run" where
  "NaClXMutexUnlock_status = sync_checked [NACL_SYNC_OK]"
definition NaClXCondVarSignal_status :: "sync_status \<Rightarrow> sync_status run" where
  "NaClXCondVarSignal_status = sync_checked [NACL_SYNC_OK]"
definition NaClXCondVarBroadcast_status :: "sync_status \<Rightarrow> sync_status run" where
  "NaClXCondVarBroadcast_status = sync_checked [NACL_SYNC_OK]"
definition NaClXCondVarWait_status :: "sync_status \<Rightarrow> sync_status run" where
  "NaClXCondVarWait_status = sync_checked [NACL_SYNC_OK]"
definition NaClXCondVarTimedWaitAbsolute_status :: "sync_status \<Rightarrow> sync_status run" where
  "NaClXCondVarTimedWaitAbsolute_status = sync_checked [NACL_SYNC_OK, NACL_SYNC_CONDVAR_TIMEDOUT]"
definition NaClXCondVarTimedWaitRelative_status :: "sync_status \<Rightarrow> sync_status run" where
  "NaClXCondVarTimedWaitRelative_status = sync_checked [NACL_SYNC_OK, NACL_SYNC_CONDVAR_TIMEDOUT]"

end
