(* ===== verification/ModuleState.thy ===== *)
theory ModuleState
  imports DescTable SyncChecked
begin

text \<open>
  Loading and starting the module (\<open>service_runtime/sel_ldr_sgx.c\<close>): the state of the
  initialisation, the status that is remembered, and the two operations that drive them, which may
  be called from several threads. Everything between taking and releasing the lock \<open>mu\<close> is one
  step of the thread; a thread is the point it has reached.

  The wait on the condition variable is the one of \<open>Locks\<close>, where \<open>condvar_waits_once\<close> shows that it
  works once: the first wait marks the variable (\<open>cv_waited\<close>), and each later one returns
  \<open>NACL_SYNC_MUTEX_INVALID\<close>, at which the checked call stops the process. The first one may return
  \<open>NACL_SYNC_INTERNAL_ERROR\<close> when another thread marks the mutex as contended meanwhile. A wait that
  succeeds may return at any time, since the host refuses to put a thread to sleep on a word inside
  the enclave; the broadcasts of \<open>NaClSetInitState\<close> therefore have no effect of their own.

  Reading the file and preparing the launch are parameters: any functions of the rest of the
  application, which give a status.
\<close>

section \<open>State\<close>

datatype module_state = NACL_MODULE_UNINITIALIZED | NACL_MODULE_LOADING | NACL_MODULE_LOADED
  | NACL_MODULE_STARTING | NACL_MODULE_STARTED | NACL_MODULE_ERROR

text \<open>The numbers of the enumeration order it.\<close>

fun state_number :: "module_state \<Rightarrow> nat" where
  "state_number NACL_MODULE_UNINITIALIZED = 0"
| "state_number NACL_MODULE_LOADING = 1"
| "state_number NACL_MODULE_LOADED = 2"
| "state_number NACL_MODULE_STARTING = 3"
| "state_number NACL_MODULE_STARTED = 4"
| "state_number NACL_MODULE_ERROR = 5"

lemma state_number_inject: "state_number a = state_number b \<Longrightarrow> a = b"
  by (cases a; cases b; simp)

instantiation module_state :: linorder
begin

definition less_eq_module_state :: "module_state \<Rightarrow> module_state \<Rightarrow> bool" where
  "less_eq_module_state a b \<longleftrightarrow> state_number a \<le> state_number b"

definition less_module_state :: "module_state \<Rightarrow> module_state \<Rightarrow> bool" where
  "less_module_state a b \<longleftrightarrow> state_number a < state_number b"

instance
  by standard (auto simp: less_eq_module_state_def less_module_state_def intro: state_number_inject)

end

definition LOAD_OK :: u32 where "LOAD_OK = 0"
definition LOAD_INTERNAL :: u32 where "LOAD_INTERNAL = 4"

record ('o, 'r) module_app =
  module_initialization_state :: module_state
  module_load_status :: u32
  cv_waited :: bool
  main_nexe_desc :: "'o option"
  nexe_counts :: "'o counts"
  rest :: 'r

record ('o, 'r) module_services =
  NaClAppLoadFile :: "'o \<Rightarrow> 'r \<Rightarrow> u32 \<times> 'r"
  NaClAppPrepareToLaunch :: "'r \<Rightarrow> u32 \<times> 'r"

section \<open>Operations\<close>

definition NaClGetInitState :: "('o, 'r) module_app \<Rightarrow> module_state" where
  "NaClGetInitState nap = module_initialization_state nap"

definition NaClSetInitState :: "module_state \<Rightarrow> ('o, 'r) module_app \<Rightarrow> ('o, 'r) module_app run" where
  "NaClSetInitState state nap =
     guardE CheckFailed (state > module_initialization_state nap) (Inr (nap\<lparr>module_initialization_state := state\<rparr>))"

definition NaClRememberLoadStatus :: "u32 \<Rightarrow> ('o, 'r) module_app \<Rightarrow> ('o, 'r) module_app" where
  "NaClRememberLoadStatus status nap =
     (if module_load_status nap = LOAD_OK then nap\<lparr>module_load_status := status\<rparr> else nap)"

definition NaClGetLoadStatus :: "('o, 'r) module_app \<Rightarrow> u32" where
  "NaClGetLoadStatus nap = module_load_status nap"

text \<open>The points of a thread in \<open>NaClAppLoadModule\<close> and in \<open>NaClAppStartModule\<close>.\<close>

datatype 'o load_pc = LdEnter 'o | LdSetLoading 'o | LdRef 'o | LdFile 'o | LdFailed u32 | LdSetError
  | LdPrepare | LdPrepared u32 | LdSetLoaded | LdReturned

datatype start_pc = StEnter | StWaiting | StSetStarting | StSetStarted | StReturned

text \<open>The section that holds the lock while the file is read.\<close>

definition load_section :: "('o, 'r) module_services \<Rightarrow> 'o \<Rightarrow> ('o, 'r) module_app \<Rightarrow> (u32 \<times> ('o, 'r) module_app) run" where
  "load_section F nexe nap =
     guardE CheckFailed (main_nexe_desc nap = None)
       (case NaClAppLoadFile F nexe (rest nap) of (status, r) \<Rightarrow>
          let nap = nap\<lparr>main_nexe_desc := Some nexe, rest := r\<rparr> in
          if status \<noteq> LOAD_OK
          then bindE (NaClDescUnref_obj nexe (nexe_counts nap)) (\<lambda>rc.
                 Inr (status, nap\<lparr>nexe_counts := rc, main_nexe_desc := None\<rparr>))
          else Inr (status, nap))"

fun NaClAppLoadModule ::
    "('o, 'r) module_services \<Rightarrow> 'o load_pc \<Rightarrow> ('o, 'r) module_app \<Rightarrow> ('o load_pc \<times> ('o, 'r) module_app) run option" where
  "NaClAppLoadModule F (LdEnter nexe) nap =
     Some (Inr (if NaClGetInitState nap \<noteq> NACL_MODULE_UNINITIALIZED then LdReturned else LdSetLoading nexe, nap))"
| "NaClAppLoadModule F (LdSetLoading nexe) nap =
     Some (bindE (NaClSetInitState NACL_MODULE_LOADING nap) (\<lambda>nap. Inr (LdRef nexe, nap)))"
| "NaClAppLoadModule F (LdRef nexe) nap =
     Some (bindE (NaClDescRef_obj nexe (nexe_counts nap)) (\<lambda>rc. Inr (LdFile nexe, nap\<lparr>nexe_counts := rc\<rparr>)))"
| "NaClAppLoadModule F (LdFile nexe) nap =
     Some (bindE (load_section F nexe nap) (\<lambda>(status, nap).
       Inr (if LOAD_OK \<noteq> status then LdFailed status else LdPrepare, nap)))"
| "NaClAppLoadModule F (LdFailed status) nap = Some (Inr (LdSetError, NaClRememberLoadStatus status nap))"
| "NaClAppLoadModule F LdSetError nap =
     Some (bindE (NaClSetInitState NACL_MODULE_ERROR nap) (\<lambda>nap. Inr (LdReturned, nap)))"
| "NaClAppLoadModule F LdPrepare nap =
     (case NaClAppPrepareToLaunch F (rest nap) of (status, r) \<Rightarrow> Some (Inr (LdPrepared status, nap\<lparr>rest := r\<rparr>)))"
| "NaClAppLoadModule F (LdPrepared status) nap = Some (Inr (LdSetLoaded, NaClRememberLoadStatus status nap))"
| "NaClAppLoadModule F LdSetLoaded nap =
     Some (bindE (NaClSetInitState NACL_MODULE_LOADED nap) (\<lambda>nap. Inr (LdReturned, nap)))"
| "NaClAppLoadModule F LdReturned nap = None"

text \<open>The loop that waits while the module is being loaded, from its test on: a thread gets to the test
  when it has entered and each time a wait has returned. \<open>w\<close> is the status of a first wait. The status
  the thread reads or computes is only logged.\<close>

definition wait_loaded :: "sync_status \<Rightarrow> ('o, 'r) module_app \<Rightarrow> (start_pc \<times> ('o, 'r) module_app) run" where
  "wait_loaded w nap =
     (if module_initialization_state nap = NACL_MODULE_LOADING
      then bindE (NaClXCondVarWait_status (if cv_waited nap then NACL_SYNC_MUTEX_INVALID else w))
             (\<lambda>_. Inr (StWaiting, nap\<lparr>cv_waited := True\<rparr>))
      else Inr (if module_initialization_state nap \<noteq> NACL_MODULE_LOADED then StReturned else StSetStarting, nap))"

fun NaClAppStartModule ::
    "sync_status \<Rightarrow> start_pc \<Rightarrow> ('o, 'r) module_app \<Rightarrow> (start_pc \<times> ('o, 'r) module_app) run option" where
  "NaClAppStartModule w StEnter nap = Some (wait_loaded w nap)"
| "NaClAppStartModule w StWaiting nap = Some (wait_loaded w nap)"
| "NaClAppStartModule w StSetStarting nap =
     Some (bindE (NaClSetInitState NACL_MODULE_STARTING nap) (\<lambda>nap. Inr (StSetStarted, nap)))"
| "NaClAppStartModule w StSetStarted nap =
     Some (bindE (NaClSetInitState NACL_MODULE_STARTED nap) (\<lambda>nap. Inr (StReturned, nap)))"
| "NaClAppStartModule w StReturned nap = None"

section \<open>Threads\<close>

datatype 'o thread = Loader "'o load_pc" | Starter start_pc

text \<open>\<open>None\<close>: the thread has returned.\<close>

fun thread_step :: "('o, 'r) module_services \<Rightarrow> sync_status \<Rightarrow> 'o thread \<Rightarrow> ('o, 'r) module_app \<Rightarrow> ('o thread \<times> ('o, 'r) module_app) run option" where
  "thread_step F w (Loader pc) nap = map_option (map_sum id (map_prod Loader id)) (NaClAppLoadModule F pc nap)"
| "thread_step F w (Starter pc) nap = map_option (map_sum id (map_prod Starter id)) (NaClAppStartModule w pc nap)"

text \<open>The runs of a family of threads, with the points that were left, latest first.\<close>

inductive app_run ::
    "('o, 'r) module_services \<Rightarrow> ('o, 'r) module_app \<Rightarrow> (nat \<Rightarrow> 'o thread) \<Rightarrow> (nat \<times> 'o thread) list
      \<Rightarrow> ('o, 'r) module_app \<Rightarrow> (nat \<Rightarrow> 'o thread) \<Rightarrow> bool" for F nap0 ts0 where
  app_start: "app_run F nap0 ts0 [] nap0 ts0"
| app_step: "app_run F nap0 ts0 tr nap ts \<Longrightarrow> thread_step F w (ts t) nap = Some (Inr (th, nap')) \<Longrightarrow>
    app_run F nap0 ts0 ((t, ts t) # tr) nap' (ts(t := th))"

section \<open>The invariant\<close>

text \<open>The thread that owns the loading, and the one that owns the start.\<close>

fun loading :: "'o thread \<Rightarrow> bool" where
  "loading (Loader pc) \<longleftrightarrow> (case pc of LdEnter n \<Rightarrow> False | LdSetLoading n \<Rightarrow> False | LdReturned \<Rightarrow> False | _ \<Rightarrow> True)"
| "loading (Starter pc) \<longleftrightarrow> False"

fun before_file :: "'o thread \<Rightarrow> bool" where
  "before_file (Loader (LdRef n)) \<longleftrightarrow> True"
| "before_file (Loader (LdFile n)) \<longleftrightarrow> True"
| "before_file _ \<longleftrightarrow> False"

fun reads_file :: "nat \<times> 'o thread \<Rightarrow> bool" where
  "reads_file (t, Loader (LdFile n)) \<longleftrightarrow> True"
| "reads_file _ \<longleftrightarrow> False"

definition starts_module :: "nat \<times> 'o thread \<Rightarrow> bool" where
  "starts_module e \<longleftrightarrow> snd e = Starter StSetStarted"

definition owners :: "('o thread \<Rightarrow> bool) \<Rightarrow> (nat \<Rightarrow> 'o thread) \<Rightarrow> nat set" where
  "owners P ts = {t. P (ts t)}"

lemma owners_upd: "owners P (ts(t := th)) = (if P th then insert t (owners P ts) else owners P ts - {t})"
  by (auto simp: owners_def)

lemma owners_mem: "t \<in> owners P ts \<longleftrightarrow> P (ts t)" by (simp add: owners_def)

definition module_inv :: "('o, 'r) module_app \<Rightarrow> (nat \<Rightarrow> 'o thread) \<Rightarrow> bool" where
  "module_inv nap ts \<longleftrightarrow>
     (\<exists>w. owners loading ts = (if module_initialization_state nap = NACL_MODULE_LOADING then {w} else {})) \<and>
     (\<exists>w. owners (\<lambda>th. th = Starter StSetStarted) ts = (if module_initialization_state nap = NACL_MODULE_STARTING then {w} else {})) \<and>
     (owners (\<lambda>th. th = Starter StSetStarting) ts \<noteq> {} \<longrightarrow>
        module_initialization_state nap \<in> {NACL_MODULE_LOADED, NACL_MODULE_STARTING, NACL_MODULE_STARTED})"

lemmas step_defs = NaClGetInitState_def NaClSetInitState_def NaClRememberLoadStatus_def guardE_def less_module_state_def less_eq_module_state_def

text \<open>What a step does to the state, by the point it leaves.\<close>

lemma load_step:
  assumes "NaClAppLoadModule F pc nap = Some (Inr (pc', nap'))"
  shows "(case pc of
      LdEnter n \<Rightarrow> nap' = nap \<and> pc' = (if module_initialization_state nap = NACL_MODULE_UNINITIALIZED then LdSetLoading n else LdReturned)
    | LdSetLoading n \<Rightarrow> module_initialization_state nap = NACL_MODULE_UNINITIALIZED \<and> pc' = LdRef n \<and>
        nap' = nap\<lparr>module_initialization_state := NACL_MODULE_LOADING\<rparr>
    | LdSetError \<Rightarrow> pc' = LdReturned \<and> nap' = nap\<lparr>module_initialization_state := NACL_MODULE_ERROR\<rparr>
    | LdSetLoaded \<Rightarrow> pc' = LdReturned \<and> nap' = nap\<lparr>module_initialization_state := NACL_MODULE_LOADED\<rparr>
    | LdReturned \<Rightarrow> False
    | _ \<Rightarrow> loading (Loader pc') \<and> module_initialization_state nap' = module_initialization_state nap)"
  using assms
  by (cases pc; cases "module_initialization_state nap")
    (auto simp: step_defs load_section_def bindE_eq_Inr Let_def split: if_splits prod.splits)

lemma start_step:
  assumes "NaClAppStartModule w pc nap = Some (Inr (pc', nap'))"
  shows "(case pc of
      StSetStarting \<Rightarrow> module_initialization_state nap < NACL_MODULE_STARTING \<and> pc' = StSetStarted \<and>
        nap' = nap\<lparr>module_initialization_state := NACL_MODULE_STARTING\<rparr>
    | StSetStarted \<Rightarrow> pc' = StReturned \<and> nap' = nap\<lparr>module_initialization_state := NACL_MODULE_STARTED\<rparr>
    | StReturned \<Rightarrow> False
    | _ \<Rightarrow> if module_initialization_state nap = NACL_MODULE_LOADING
        then pc' = StWaiting \<and> nap' = nap\<lparr>cv_waited := True\<rparr> \<and> \<not> cv_waited nap \<and> w = NACL_SYNC_OK
        else nap' = nap \<and> pc' = (if module_initialization_state nap = NACL_MODULE_LOADED then StSetStarting else StReturned))"
  using assms
  by (cases pc) (auto simp: step_defs wait_loaded_def NaClXCondVarWait_status_def sync_checked_def split: if_splits)

lemma module_inv_step:
  assumes "module_inv nap ts" "thread_step F w (ts t) nap = Some (Inr (th, nap'))"
  shows "module_inv nap' (ts(t := th))"
proof (cases "ts t")
  case (Loader pc)
  then obtain pc' where s: "NaClAppLoadModule F pc nap = Some (Inr (pc', nap'))" "th = Loader pc'"
    using assms(2) by (auto simp: map_sum_Inr)
  have t: "t \<notin> owners (\<lambda>th. th = Starter StSetStarted) ts" "t \<notin> owners (\<lambda>th. th = Starter StSetStarting) ts"
    "(t \<in> owners loading ts) = loading (Loader pc)"
    using Loader by (simp_all add: owners_mem)
  then show ?thesis using assms(1) load_step [OF s(1)]
    by (cases pc; cases "module_initialization_state nap") (auto simp: module_inv_def owners_upd s(2) split: if_splits)
next
  case (Starter pc)
  then obtain pc' where s: "NaClAppStartModule w pc nap = Some (Inr (pc', nap'))" "th = Starter pc'"
    using assms(2) by (auto simp: map_sum_Inr)
  have t: "t \<notin> owners loading ts" "(t \<in> owners (\<lambda>th. th = Starter StSetStarted) ts) = (pc = StSetStarted)"
    "(t \<in> owners (\<lambda>th. th = Starter StSetStarting) ts) = (pc = StSetStarting)"
    using Starter by (simp_all add: owners_mem)
  then show ?thesis using assms(1) start_step [OF s(1)]
    by (cases pc; cases "module_initialization_state nap")
      (auto simp: module_inv_def owners_upd s(2) less_module_state_def split: if_splits)
qed

text \<open>What has happened so far: the file was read at most once, and not before its thread got there;
  the module was started at most once, after a thread had it loaded.\<close>

definition history_inv :: "('o, 'r) module_app \<Rightarrow> (nat \<Rightarrow> 'o thread) \<Rightarrow> (nat \<times> 'o thread) list \<Rightarrow> bool" where
  "history_inv nap ts tr \<longleftrightarrow>
     (module_initialization_state nap = NACL_MODULE_UNINITIALIZED \<or> owners before_file ts \<noteq> {} \<longrightarrow>
        main_nexe_desc nap = None \<and> filter reads_file tr = []) \<and>
     length (filter reads_file tr) \<le> 1 \<and>
     (\<forall>t n. ts t = Loader (LdFile n) \<longrightarrow> nexe_counts nap n \<notin> {None, Some 0}) \<and>
     length (filter starts_module tr) \<le> 1 \<and>
     (module_initialization_state nap \<noteq> NACL_MODULE_STARTED \<longrightarrow> filter starts_module tr = []) \<and>
     (module_initialization_state nap \<in> {NACL_MODULE_LOADED, NACL_MODULE_STARTING, NACL_MODULE_STARTED} \<longrightarrow>
        (\<exists>t. (t, Loader LdSetLoaded) \<in> set tr))"

lemma before_file_loading: "before_file th \<Longrightarrow> loading th"
  by (cases th rule: before_file.cases) auto

text \<open>While a thread loads, no other does.\<close>

lemma one_loader: "module_inv nap ts \<Longrightarrow> loading (ts t) \<Longrightarrow> loading (ts u) \<Longrightarrow> t = u"
  unfolding module_inv_def by (metis empty_iff owners_mem singletonD)

lemma loading_state: "module_inv nap ts \<Longrightarrow> loading (ts t) \<Longrightarrow> module_initialization_state nap = NACL_MODULE_LOADING"
  unfolding module_inv_def by (metis empty_iff owners_mem)

lemma starting_state: "module_inv nap ts \<Longrightarrow> ts t = Starter StSetStarted \<Longrightarrow> module_initialization_state nap = NACL_MODULE_STARTING"
  unfolding module_inv_def by (metis (mono_tags) empty_iff owners_mem)

lemma ready_state: "module_inv nap ts \<Longrightarrow> ts t = Starter StSetStarting \<Longrightarrow>
    module_initialization_state nap \<in> {NACL_MODULE_LOADED, NACL_MODULE_STARTING, NACL_MODULE_STARTED}"
  unfolding module_inv_def by (metis (mono_tags) empty_iff owners_mem)

lemma history_file: "history_inv nap ts tr \<Longrightarrow> ts t = Loader (LdFile n) \<Longrightarrow> \<exists>k. nexe_counts nap n = Some k \<and> k \<noteq> 0"
  unfolding history_inv_def by (metis insertCI option.exhaust)

lemma history_before: "history_inv nap ts tr \<Longrightarrow> before_file (ts t) \<Longrightarrow> main_nexe_desc nap = None \<and> filter reads_file tr = []"
  unfolding history_inv_def by (metis empty_iff owners_mem)

lemma no_file_owner:
  assumes "module_inv nap ts" "loading (ts t)" "\<not> before_file th"
  shows "owners before_file (ts(t := th)) = {}"
  using one_loader [OF assms(1,2)] before_file_loading assms(3) by (auto simp: owners_upd owners_mem) (auto simp: owners_def)

lemma history_after_file:
  assumes "owners before_file ts = {}" "module_initialization_state nap \<noteq> NACL_MODULE_UNINITIALIZED"
    "length (filter reads_file tr) \<le> 1" "filter starts_module tr = []"
    "module_initialization_state nap \<in> {NACL_MODULE_LOADED, NACL_MODULE_STARTING, NACL_MODULE_STARTED} \<longrightarrow>
       (\<exists>t. (t, Loader LdSetLoaded) \<in> set tr)"
  shows "history_inv nap ts tr"
proof -
  have "ts u \<noteq> Loader (LdFile n)" for u n
    using assms(1) by (metis before_file.simps(2) empty_iff owners_mem)
  then show ?thesis using assms by (simp add: history_inv_def)
qed

lemma history_loading:
  assumes "history_inv nap ts tr" "module_inv nap ts" "loading (ts t)" "\<not> before_file th"
    "module_initialization_state nap' \<in> {NACL_MODULE_LOADING, NACL_MODULE_ERROR} \<or>
       module_initialization_state nap' = NACL_MODULE_LOADED \<and> ts t = Loader LdSetLoaded"
    "before_file (ts t) \<or> \<not> reads_file (t, ts t)"
  shows "history_inv nap' (ts(t := th)) ((t, ts t) # tr)"
proof (rule history_after_file [OF no_file_owner [OF assms(2,3,4)]])
  have s: "\<not> starts_module (t, ts t)" using assms(3) by (auto simp: starts_module_def)
  have st: "module_initialization_state nap = NACL_MODULE_LOADING" by (rule loading_state [OF assms(2,3)])
  then show "filter starts_module ((t, ts t) # tr) = []" using assms(1) s by (simp add: history_inv_def)
  show "length (filter reads_file ((t, ts t) # tr)) \<le> 1"
    using assms(1,6) history_before [OF assms(1), of t] by (auto simp: history_inv_def)
qed (use assms(5) in auto)

lemma history_inv_step:
  assumes h: "history_inv nap ts tr" and i: "module_inv nap ts" and s: "thread_step F w (ts t) nap = Some (Inr (th, nap'))"
  shows "history_inv nap' (ts(t := th)) ((t, ts t) # tr)"
proof (cases "ts t")
  case (Starter pc)
  then obtain pc' where s': "NaClAppStartModule w pc nap = Some (Inr (pc', nap'))" "th = Starter pc'"
    using s by (auto simp: map_sum_Inr)
  have t: "t \<notin> owners before_file ts" using Starter by (simp add: owners_mem)
  show ?thesis
    using h start_step [OF s'(1)] starting_state [OF i, of t] ready_state [OF i, of t] Starter s'(2) t
    by (cases pc) (auto simp: history_inv_def owners_upd starts_module_def less_module_state_def split: if_splits)
next
  case (Loader pc)
  then obtain pc' where s': "NaClAppLoadModule F pc nap = Some (Inr (pc', nap'))" "th = Loader pc'"
    using s by (auto simp: map_sum_Inr)
  note st = load_step [OF s'(1)]
  have l: "loading (Loader pc) \<Longrightarrow> module_initialization_state nap = NACL_MODULE_LOADING"
    using loading_state [OF i, of t] Loader by simp
  show ?thesis
  proof (cases pc)
    case (LdEnter n)
    then show ?thesis using h st Loader s'(2) by (auto simp: history_inv_def owners_upd starts_module_def split: if_splits)
  next
    case (LdSetLoading n)
    then show ?thesis using h st Loader s'(2) by (auto simp: history_inv_def owners_upd starts_module_def)
  next
    case (LdRef n)
    then have "t \<in> owners before_file ts" using Loader by (simp add: owners_mem)
    then show ?thesis using h s' l Loader LdRef
      by (auto simp: history_inv_def owners_upd starts_module_def NaClDescRef_obj_def NaClRefCountRef_def
          split: option.splits if_splits)
  next
    case (LdFile n)
    then have "\<not> before_file th" "module_initialization_state nap' = NACL_MODULE_LOADING"
      using s' st l by (auto simp: bindE_eq_Inr split: if_splits)
    then show ?thesis using Loader LdFile by (intro history_loading [OF h i]) simp_all
  qed (use history_loading [OF h i, of t th nap'] st s' Loader l in \<open>auto simp: bindE_eq_Inr split: prod.splits\<close>)
qed

section \<open>Steps that stop, wait, or go on\<close>

text \<open>A module that is neither loaded nor started, and threads that have yet to call.\<close>

definition new_module :: "'o counts \<Rightarrow> 'r \<Rightarrow> ('o, 'r) module_app" where
  "new_module rc r = \<lparr>module_initialization_state = NACL_MODULE_UNINITIALIZED, module_load_status = LOAD_OK, cv_waited = False,
     main_nexe_desc = None, nexe_counts = rc, rest = r\<rparr>"

fun entering :: "'o thread \<Rightarrow> bool" where
  "entering (Loader pc) \<longleftrightarrow> (case pc of LdEnter n \<Rightarrow> True | _ \<Rightarrow> False)"
| "entering (Starter pc) \<longleftrightarrow> pc = StEnter"

lemma entering_not: "entering th \<Longrightarrow> \<not> loading th \<and> \<not> before_file th \<and> th \<noteq> Starter StSetStarted \<and> th \<noteq> Starter StSetStarting"
  by (cases th) (auto split: load_pc.splits)

text \<open>Nobody waits on a variable that is not marked.\<close>

definition waiting_inv :: "('o, 'r) module_app \<Rightarrow> (nat \<Rightarrow> 'o thread) \<Rightarrow> bool" where
  "waiting_inv nap ts \<longleftrightarrow> (\<forall>t. ts t = Starter StWaiting \<longrightarrow> cv_waited nap)"

lemma load_keeps_waited: "NaClAppLoadModule F pc nap = Some (Inr (pc', nap')) \<Longrightarrow> cv_waited nap' = cv_waited nap"
  by (cases pc) (auto simp: step_defs load_section_def bindE_eq_Inr Let_def split: if_splits prod.splits)

lemma waiting_inv_step:
  assumes "waiting_inv nap ts" "thread_step F w (ts t) nap = Some (Inr (th, nap'))"
  shows "waiting_inv nap' (ts(t := th))"
proof (cases "ts t")
  case (Loader pc)
  then show ?thesis using assms load_keeps_waited [of F pc nap] by (auto simp: waiting_inv_def map_sum_Inr)
next
  case (Starter pc)
  then obtain pc' where s: "NaClAppStartModule w pc nap = Some (Inr (pc', nap'))" "th = Starter pc'"
    using assms(2) by (auto simp: map_sum_Inr)
  then show ?thesis using assms(1) start_step [OF s(1)] by (cases pc) (auto simp: waiting_inv_def split: if_splits)
qed

lemma app_run_invs:
  assumes "app_run F (new_module rc r) ts0 tr nap ts" "\<forall>t. entering (ts0 t)"
  shows "module_inv nap ts \<and> history_inv nap ts tr \<and> waiting_inv nap ts"
  using assms
proof (induction rule: app_run.induct)
  case app_start
  then have e: "\<not> loading (ts0 t)" "\<not> before_file (ts0 t)" "ts0 t \<noteq> Starter StSetStarted" "ts0 t \<noteq> Starter StSetStarting" for t
    using entering_not by blast+
  then have "ts0 t \<noteq> Loader (LdFile n)" "ts0 t \<noteq> Starter StWaiting" for t n
    using app_start by (metis before_file.simps(2), metis entering.simps(2) start_pc.distinct(1))
  then show ?case using e by (simp add: module_inv_def history_inv_def waiting_inv_def new_module_def owners_def)
next
  case (app_step tr nap ts w t th nap')
  then have "module_inv nap ts" "history_inv nap ts tr" "waiting_inv nap ts" by blast+
  with app_step.hyps(2) show ?case
    by (intro conjI) (erule module_inv_step history_inv_step waiting_inv_step; assumption)+
qed

lemma thread_step_monotone:
  assumes "thread_step F w th nap = Some (Inr (th', nap'))"
  shows "module_initialization_state nap \<le> module_initialization_state nap' \<and>
    (module_load_status nap \<noteq> LOAD_OK \<longrightarrow> module_load_status nap' = module_load_status nap)"
proof (cases th)
  case (Loader pc)
  then show ?thesis using assms
    by (cases pc; cases "module_initialization_state nap")
      (auto simp: map_sum_Inr step_defs load_section_def bindE_eq_Inr Let_def split: if_splits prod.splits)
next
  case (Starter pc)
  then obtain pc' where s: "NaClAppStartModule w pc nap = Some (Inr (pc', nap'))" using assms by (auto simp: map_sum_Inr)
  show ?thesis
    using s start_step [OF s]
    by (cases pc; cases "module_initialization_state nap") (auto simp: step_defs split: if_splits)
qed

lemma thread_step_aborts:
  assumes i: "module_inv nap ts" and h: "history_inv nap ts tr" and s: "thread_step F w (ts t) nap = Some (Inl e)"
  shows "(\<exists>n. ts t = Loader (LdRef n)) \<or>
    e = CheckFailed \<and> (ts t = Starter StSetStarting \<or> (\<exists>n. ts t = Loader (LdSetLoading n))) \<or>
    e = LogFatal \<and> ts t \<in> {Starter StEnter, Starter StWaiting} \<and>
      module_initialization_state nap = NACL_MODULE_LOADING \<and> (cv_waited nap \<or> w \<noteq> NACL_SYNC_OK)"
proof (cases "ts t")
  case (Loader pc)
  have l: "loading (Loader pc) \<Longrightarrow> module_initialization_state nap = NACL_MODULE_LOADING" using loading_state [OF i, of t] Loader by simp
  have r: "NaClAppLoadModule F pc nap = Some (Inl e)" using s Loader by (auto simp: map_sum_Inl)
  show ?thesis
  proof (cases pc)
    case (LdFile n)
    obtain k where k: "nexe_counts nap n = Some k" "k \<noteq> 0" using history_file [OF h, of t n] Loader LdFile by blast
    have "main_nexe_desc nap = None" using history_before [OF h, of t] Loader LdFile by simp
    then show ?thesis using r LdFile k
      by (auto simp: load_section_def guardE_def NaClDescUnref_obj_def NaClRefCountUnref_def NaClRefCountDtor_def Let_def
          split: prod.splits if_splits)
  qed (use r l Loader in \<open>auto simp: step_defs split: if_splits prod.splits\<close>)
next
  case (Starter pc)
  then show ?thesis using s starting_state [OF i, of t]
    by (cases pc)
      (auto simp: map_sum_Inl step_defs wait_loaded_def NaClXCondVarWait_status_def sync_checked_def split: if_splits)
qed

text \<open>A thread that is not done can make a step.\<close>

lemma thread_step_waits: "thread_step F w th nap = None \<Longrightarrow> th \<in> {Loader LdReturned, Starter StReturned}"
proof (cases th)
  case (Loader pc)
  then show "thread_step F w th nap = None \<Longrightarrow> th \<in> {Loader LdReturned, Starter StReturned}"
    by (cases pc) (auto split: prod.splits)
next
  case (Starter pc)
  then show "thread_step F w th nap = None \<Longrightarrow> th \<in> {Loader LdReturned, Starter StReturned}" by (cases pc) auto
qed

lemma second_wait_stops:
  "module_initialization_state nap = NACL_MODULE_LOADING \<Longrightarrow> cv_waited nap \<Longrightarrow> th \<in> {Starter StEnter, Starter StWaiting} \<Longrightarrow>
     thread_step F w th nap = Some (Inl LogFatal)"
  by (auto simp: wait_loaded_def NaClXCondVarWait_status_def sync_checked_def)

section \<open>The properties\<close>

text \<open>C21: However many threads call the two functions, in any interleaving: the file is read at most
  once and the module started at most once, never before it was loaded; the state only grows and
  the first error is remembered; and no thread is stuck. What stops the process is the \<open>CHECK\<close> of a
  thread that lost the race between looking at the state and setting it, a descriptor that may not be
  referenced, and a wait that fails: once a thread has waited for the module to be loaded, the next
  wait stops the process, and so a thread that has waited itself and finds the module still being
  loaded, and a second thread that wants to start it then.\<close>

theorem module_loaded_and_started_once:
  assumes "app_run F (new_module rc r) ts0 tr nap ts" "\<forall>t. entering (ts0 t)"
  shows "length (filter reads_file tr) \<le> 1 \<and> length (filter starts_module tr) \<le> 1 \<and>
    (module_initialization_state nap \<in> {NACL_MODULE_LOADED, NACL_MODULE_STARTING, NACL_MODULE_STARTED} \<longrightarrow>
       (\<exists>u. (u, Loader LdSetLoaded) \<in> set tr)) \<and>
    (case thread_step F w (ts t) nap of
       Some (Inr (th, nap')) \<Rightarrow> module_initialization_state nap \<le> module_initialization_state nap' \<and>
         (module_load_status nap \<noteq> LOAD_OK \<longrightarrow> module_load_status nap' = module_load_status nap)
     | Some (Inl e) \<Rightarrow> (\<exists>n. ts t = Loader (LdRef n)) \<or>
         e = CheckFailed \<and> (ts t = Starter StSetStarting \<or> (\<exists>n. ts t = Loader (LdSetLoading n))) \<or>
         e = LogFatal \<and> ts t \<in> {Starter StEnter, Starter StWaiting} \<and>
           module_initialization_state nap = NACL_MODULE_LOADING \<and> (cv_waited nap \<or> w \<noteq> NACL_SYNC_OK)
     | None \<Rightarrow> ts t \<in> {Loader LdReturned, Starter StReturned}) \<and>
    (module_initialization_state nap = NACL_MODULE_LOADING \<and> (\<exists>u. ts u = Starter StWaiting) \<and>
       ts t \<in> {Starter StEnter, Starter StWaiting} \<longrightarrow> thread_step F w (ts t) nap = Some (Inl LogFatal))"
proof -
  have i: "module_inv nap ts" and h: "history_inv nap ts tr" and v: "waiting_inv nap ts"
    using app_run_invs [OF assms] by simp_all
  have c: "case thread_step F w (ts t) nap of
       Some (Inr (th, nap')) \<Rightarrow> module_initialization_state nap \<le> module_initialization_state nap' \<and>
         (module_load_status nap \<noteq> LOAD_OK \<longrightarrow> module_load_status nap' = module_load_status nap)
     | Some (Inl e) \<Rightarrow> (\<exists>n. ts t = Loader (LdRef n)) \<or>
         e = CheckFailed \<and> (ts t = Starter StSetStarting \<or> (\<exists>n. ts t = Loader (LdSetLoading n))) \<or>
         e = LogFatal \<and> ts t \<in> {Starter StEnter, Starter StWaiting} \<and>
           module_initialization_state nap = NACL_MODULE_LOADING \<and> (cv_waited nap \<or> w \<noteq> NACL_SYNC_OK)
     | None \<Rightarrow> ts t \<in> {Loader LdReturned, Starter StReturned}"
    using thread_step_monotone [of F w "ts t" nap] thread_step_aborts [OF i h, of F w t] thread_step_waits [of F w "ts t" nap]
    by (simp only: split: option.split sum.split prod.split) blast
  have f: "module_initialization_state nap = NACL_MODULE_LOADING \<and> (\<exists>u. ts u = Starter StWaiting) \<and>
       ts t \<in> {Starter StEnter, Starter StWaiting} \<longrightarrow> thread_step F w (ts t) nap = Some (Inl LogFatal)"
    using second_wait_stops v unfolding waiting_inv_def by blast
  show ?thesis using h c f unfolding history_inv_def by blast
qed

text \<open>A schedule: the threads that make a step, in order.\<close>

fun run_schedule :: "('o, 'r) module_services \<Rightarrow> nat list \<Rightarrow> ('o, 'r) module_app \<times> (nat \<Rightarrow> 'o thread) \<Rightarrow>
    (('o, 'r) module_app \<times> (nat \<Rightarrow> 'o thread)) option" where
  "run_schedule F [] (nap, ts) = Some (nap, ts)"
| "run_schedule F (t # sched) (nap, ts) =
     (case thread_step F NACL_SYNC_OK (ts t) nap of
        Some (Inr (th, nap')) \<Rightarrow> run_schedule F sched (nap', ts(t := th))
      | _ \<Rightarrow> None)"

lemma run_schedule_sound:
  "run_schedule F sched (nap, ts) = Some (nap', ts') \<Longrightarrow> app_run F nap0 ts0 tr nap ts \<Longrightarrow>
     \<exists>tr'. app_run F nap0 ts0 tr' nap' ts'"
proof (induction F sched "(nap, ts)" arbitrary: nap ts tr rule: run_schedule.induct)
  case (2 F t sched nap ts)
  then obtain th nap1 where s: "thread_step F NACL_SYNC_OK (ts t) nap = Some (Inr (th, nap1))"
    "run_schedule F sched (nap1, ts(t := th)) = Some (nap', ts')"
    by (auto split: option.splits sum.splits)
  show ?case by (rule 2(1) [OF s(1) refl refl s(2) app_step [OF 2(3) s(1)]])
qed auto

theorem module_loaded_and_started_once_witness:
  "\<exists>tr nap ts. app_run \<lparr>NaClAppLoadFile = (\<lambda>n r. (LOAD_OK, r)), NaClAppPrepareToLaunch = (\<lambda>r. (LOAD_OK, r))\<rparr>
      (new_module [''nexe'' \<mapsto> 1] ()) (\<lambda>t. if t = 0 then Loader (LdEnter ''nexe'') else Starter StEnter) tr nap ts \<and>
    module_initialization_state nap = NACL_MODULE_STARTED \<and> (\<exists>u. (u, Loader LdSetLoaded) \<in> set tr)"
proof -
  let ?F = "\<lparr>NaClAppLoadFile = (\<lambda>n r. (LOAD_OK, r)), NaClAppPrepareToLaunch = (\<lambda>r. (LOAD_OK, r))\<rparr>"
  let ?ts = "\<lambda>t :: nat. if t = 0 then Loader (LdEnter ''nexe'') else Starter StEnter"
  obtain nap ts where "run_schedule ?F [0, 0, 1, 0, 0, 0, 0, 0, 1, 1, 1] (new_module [''nexe'' \<mapsto> 1] (), ?ts) = Some (nap, ts)"
    and st: "module_initialization_state nap = NACL_MODULE_STARTED"
    by (simp add: new_module_def step_defs load_section_def NaClDescRef_obj_def NaClRefCountRef_def LOAD_OK_def
        wait_loaded_def NaClXCondVarWait_status_def sync_checked_def)
  from run_schedule_sound [OF this(1) app_start] obtain tr where
    tr: "app_run ?F (new_module [''nexe'' \<mapsto> 1] ()) ?ts tr nap ts" by blast
  have "\<forall>t. entering (?ts t)" by simp
  from module_loaded_and_started_once [OF tr this] st have "\<exists>u. (u, Loader LdSetLoaded) \<in> set tr" by simp
  then show ?thesis using tr st by blast
qed

text \<open>Looking at the state and setting it are two sections of the lock: with two threads that load,
  the second can stop the process. And a module whose launch could not be prepared is marked as
  loaded all the same, and is started; the status is only remembered.\<close>

theorem load_races_and_failed_launch:
  fixes F :: "('o, 'r) module_services"
  shows "(\<exists>tr nap ts. app_run F (new_module [nexe \<mapsto> 1] r) (\<lambda>t. Loader (LdEnter nexe)) tr nap ts \<and>
      thread_step F NACL_SYNC_OK (ts 1) nap = Some (Inl CheckFailed)) \<and>
    (\<exists>tr nap ts. app_run (F\<lparr>NaClAppLoadFile := (\<lambda>n r. (LOAD_OK, r)), NaClAppPrepareToLaunch := (\<lambda>r. (e, r))\<rparr>)
        (new_module [nexe \<mapsto> 1] r) (\<lambda>t. if t = 0 then Loader (LdEnter nexe) else Starter StEnter) tr nap ts \<and>
      module_initialization_state nap = NACL_MODULE_STARTED \<and> NaClGetLoadStatus nap = e)"
proof (rule conjI)
  let ?ts = "\<lambda>t :: nat. Loader (LdEnter nexe)"
  obtain nap ts where "run_schedule F [0, 1, 0] (new_module [nexe \<mapsto> 1] r, ?ts) = Some (nap, ts)"
    and st: "thread_step F NACL_SYNC_OK (ts 1) nap = Some (Inl CheckFailed)"
    by (simp add: new_module_def step_defs)
  with run_schedule_sound [OF this(1) app_start] show "\<exists>tr nap ts. app_run F (new_module [nexe \<mapsto> 1] r) ?ts tr nap ts \<and>
      thread_step F NACL_SYNC_OK (ts 1) nap = Some (Inl CheckFailed)" by blast
next
  let ?F = "F\<lparr>NaClAppLoadFile := (\<lambda>n r. (LOAD_OK, r)), NaClAppPrepareToLaunch := (\<lambda>r. (e, r))\<rparr>"
  let ?ts = "\<lambda>t :: nat. if t = 0 then Loader (LdEnter nexe) else Starter StEnter"
  obtain nap ts where "run_schedule ?F [0, 0, 0, 0, 0, 0, 0, 1, 1, 1] (new_module [nexe \<mapsto> 1] r, ?ts) = Some (nap, ts)"
    and st: "module_initialization_state nap = NACL_MODULE_STARTED \<and> NaClGetLoadStatus nap = e"
    by (simp add: new_module_def step_defs load_section_def NaClDescRef_obj_def NaClRefCountRef_def LOAD_OK_def NaClGetLoadStatus_def wait_loaded_def)
  with run_schedule_sound [OF this(1) app_start] show "\<exists>tr nap ts. app_run ?F (new_module [nexe \<mapsto> 1] r) ?ts tr nap ts \<and>
      module_initialization_state nap = NACL_MODULE_STARTED \<and> NaClGetLoadStatus nap = e" by blast
qed

end
