(* ===== verification/AddrSpace.thy ===== *)
theory AddrSpace
  imports VmmapProps VmIo Errno
begin

text \<open>
  The address space of the sandboxed program (\<open>service_runtime/sel_ldr-inl.h\<close>, for x86-64): the
  translations between its addresses and those of the enclave, and the state that the memory system
  calls share (\<open>sel_ldr.h\<close>).

  The program's addresses run from 0 to \<open>2 ^ addr_bits\<close>; they are placed at \<open>mem_start\<close>.
\<close>

record sys_app =
  addr_bits :: nat
  mem_start :: u64
  bundle_size :: u32
  static_text_end :: u64
  dynamic_text_start :: u64
  dynamic_text_end :: u64
  data_end :: u64
  break_addr :: u64
  pnacl_mode :: bool
  enable_dyncode_syscalls :: bool
  mem_map :: NaClVmmap
  mem_io_regions :: range_tree
  memory :: "u64 \<Rightarrow> u8"

section \<open>Translations\<close>

definition kNaClBadAddress :: u64 where "kNaClBadAddress = - 1"

definition NaClUserToSysAddrNullOkay :: "sys_app \<Rightarrow> u64 \<Rightarrow> u64" where
  "NaClUserToSysAddrNullOkay nap uaddr =
     (if push_bit (addr_bits nap) 1 \<le> uaddr then kNaClBadAddress else uaddr + mem_start nap)"

definition NaClUserToSysAddr :: "sys_app \<Rightarrow> u64 \<Rightarrow> u64" where
  "NaClUserToSysAddr nap uaddr =
     (if 0 = uaddr \<or> push_bit (addr_bits nap) 1 \<le> uaddr then kNaClBadAddress else uaddr + mem_start nap)"

definition NaClIsUserAddr :: "sys_app \<Rightarrow> u64 \<Rightarrow> bool" where
  "NaClIsUserAddr nap sysaddr \<longleftrightarrow> mem_start nap \<le> sysaddr \<and> sysaddr < mem_start nap + push_bit (addr_bits nap) 1"

definition NaClUserToSysAddrRange :: "sys_app \<Rightarrow> u64 \<Rightarrow> u64 \<Rightarrow> u64" where
  "NaClUserToSysAddrRange nap uaddr cnt =
     (if 0 = uaddr then kNaClBadAddress
      else
        let end_addr = uaddr + cnt in
        if end_addr < uaddr then kNaClBadAddress
        else if push_bit (addr_bits nap) 1 < end_addr then kNaClBadAddress
        else uaddr + mem_start nap)"

definition NaClUserToSys :: "sys_app \<Rightarrow> u64 \<Rightarrow> u64 run" where
  "NaClUserToSys nap uaddr =
     (if 0 = uaddr \<or> push_bit (addr_bits nap) 1 \<le> uaddr then Inl LogFatal else Inr (uaddr + mem_start nap))"

definition NaClSysToUser :: "sys_app \<Rightarrow> u64 \<Rightarrow> u64 run" where
  "NaClSysToUser nap sysaddr =
     (if sysaddr < mem_start nap \<or> mem_start nap + push_bit (addr_bits nap) 1 \<le> sysaddr then Inl LogFatal
      else Inr (sysaddr - mem_start nap))"

definition NaClUserToSysStackAddr :: "sys_app \<Rightarrow> u64 \<Rightarrow> u64" where "NaClUserToSysStackAddr nap stackaddr = stackaddr"
definition NaClSysToUserStackAddr :: "sys_app \<Rightarrow> u64 \<Rightarrow> u64" where "NaClSysToUserStackAddr nap stackaddr = stackaddr"

definition NaClRawUserStackAddrNormalize :: "u64 \<Rightarrow> u32" where "NaClRawUserStackAddrNormalize stack_addr = ucast stack_addr"

definition NaClEndOfStaticText :: "sys_app \<Rightarrow> u64" where "NaClEndOfStaticText nap = static_text_end nap"

definition NaClSandboxCodeAddr :: "sys_app \<Rightarrow> u64 \<Rightarrow> u64" where
  "NaClSandboxCodeAddr nap addr =
     (let addr = addr + (ucast (bundle_size nap) - 1);
          addr = addr AND NOT (ucast (bundle_size nap) - 1)
      in mem_start nap + ucast (ucast addr :: u32))"

definition NaClIsValidJumpTarget :: "sys_app \<Rightarrow> u64 \<Rightarrow> bool" where
  "NaClIsValidJumpTarget nap addr \<longleftrightarrow> 0 = addr AND (ucast (bundle_size nap) - 1) \<and> addr < dynamic_text_end nap"

section \<open>Where they lead\<close>

text \<open>The space of the program lies below the end of the address space of the enclave.\<close>

definition space_ok :: "sys_app \<Rightarrow> bool" where
  "space_ok nap \<longleftrightarrow> addr_bits nap \<le> 32 \<and> unat (mem_start nap) + 2 ^ addr_bits nap < 2 ^ 64 - 1"

lemma unat_limit: "space_ok nap \<Longrightarrow> unat (push_bit (addr_bits nap) 1 :: u64) = 2 ^ addr_bits nap"
proof -
  assume "space_ok nap"
  then have "(2 :: nat) ^ addr_bits nap \<le> 2 ^ 32" by (intro power_increasing) (simp_all add: space_ok_def)
  then have lt: "(2 :: nat) ^ addr_bits nap < 2 ^ 64" by simp
  have "push_bit (addr_bits nap) (1 :: u64) = of_nat (2 ^ addr_bits nap)" by (simp add: push_bit_eq_mult)
  then show ?thesis using lt by (simp only: unat_of_nat) (simp add: take_bit_nat_eq_self)
qed

lemma unat_space_end: "space_ok nap \<Longrightarrow>
    unat (mem_start nap + push_bit (addr_bits nap) 1) = unat (mem_start nap) + 2 ^ addr_bits nap"
  using unat_limit [of nap] by (subst unat_add_no_wrap) (auto simp: space_ok_def)

lemma user_range_iff:
  assumes "space_ok nap"
  shows "NaClUserToSysAddrRange nap uaddr cnt =
    (if 0 < unat uaddr \<and> unat uaddr + unat cnt \<le> 2 ^ addr_bits nap then uaddr + mem_start nap else kNaClBadAddress)"
proof (cases "unat uaddr + unat cnt < 2 ^ 64")
  case True
  then show ?thesis using unat_limit [OF assms]
    by (auto simp: NaClUserToSysAddrRange_def Let_def word_less_nat_alt unat_add_no_wrap unat_eq_0)
next
  case False
  have "(2 :: nat) ^ addr_bits nap \<le> 2 ^ 32" using assms by (intro power_increasing) (simp_all add: space_ok_def)
  moreover have "uaddr + cnt < uaddr" using False unsigned_less [of cnt, where ?'a = nat] by (simp add: word_less_nat_alt unat_plus_if_size word_size)
  ultimately show ?thesis using False by (auto simp: NaClUserToSysAddrRange_def)
qed

lemma sys_addr:
  assumes "space_ok nap" "unat uaddr \<le> 2 ^ addr_bits nap"
  shows "unat (uaddr + mem_start nap) = unat uaddr + unat (mem_start nap)" "uaddr + mem_start nap \<noteq> kNaClBadAddress"
proof -
  show a: "unat (uaddr + mem_start nap) = unat uaddr + unat (mem_start nap)"
    using assms by (subst unat_add_no_wrap) (auto simp: space_ok_def)
  have "unat kNaClBadAddress = 2 ^ 64 - 1" by (simp add: kNaClBadAddress_def unsigned_minus_1_eq_mask mask_eq_exp_minus_1)
  with a assms show "uaddr + mem_start nap \<noteq> kNaClBadAddress" by (auto simp: space_ok_def)
qed

lemma sys_to_user:
  assumes "space_ok nap" "unat uaddr < 2 ^ addr_bits nap"
  shows "NaClSysToUser nap (uaddr + mem_start nap) = Inr uaddr" "NaClIsUserAddr nap (uaddr + mem_start nap)"
  using sys_addr(1) [OF assms(1), of uaddr] unat_space_end [OF assms(1)] assms(2)
  by (simp_all add: NaClSysToUser_def NaClIsUserAddr_def word_less_nat_alt word_le_nat_alt)

lemma user_addr_eq:
  assumes "space_ok nap"
  shows "NaClUserToSys nap uaddr = (if NaClUserToSysAddr nap uaddr = kNaClBadAddress then Inl LogFatal
      else Inr (NaClUserToSysAddr nap uaddr))"
  using sys_addr(2) [OF assms, of uaddr] unat_limit [OF assms]
  by (auto simp: NaClUserToSys_def NaClUserToSysAddr_def word_le_nat_alt)

lemma code_addr_user:
  assumes "space_ok nap" "addr_bits nap = 32"
  shows "NaClIsUserAddr nap (NaClSandboxCodeAddr nap addr)"
proof -
  obtain a :: u32 where a: "NaClSandboxCodeAddr nap addr = ucast a + mem_start nap"
    by (simp add: NaClSandboxCodeAddr_def Let_def add.commute)
  have "unat (ucast a :: u64) < 2 ^ addr_bits nap"
    using unsigned_less [of a, where ?'a = nat] assms(2) by (simp add: unsigned_ucast_eq take_bit_nat_eq_self)
  from sys_to_user(2) [OF assms(1) this] show ?thesis using a by simp
qed

text \<open>C23: A range of addresses that the program passes is accepted exactly if it does not start at 0 and
  ends within its space, also where the sum wraps around; then every byte of it is placed inside
  the space of the program, at the address that translates back to it. The translation that stops
  the process and the one that returns an error agree, and every jump that leaves the runtime goes
  back into the space.\<close>

theorem user_range_confined:
  assumes "space_ok nap"
  shows "(if 0 < unat uaddr \<and> unat uaddr + unat cnt \<le> 2 ^ addr_bits nap
      then unat (NaClUserToSysAddrRange nap uaddr cnt) = unat (mem_start nap) + unat uaddr \<and>
        (\<forall>k < unat cnt. NaClIsUserAddr nap (NaClUserToSysAddrRange nap uaddr cnt + of_nat k) \<and>
           NaClSysToUser nap (NaClUserToSysAddrRange nap uaddr cnt + of_nat k) = Inr (uaddr + of_nat k))
      else NaClUserToSysAddrRange nap uaddr cnt = kNaClBadAddress) \<and>
    NaClUserToSys nap uaddr = (if NaClUserToSysAddr nap uaddr = kNaClBadAddress then Inl LogFatal
      else Inr (NaClUserToSysAddr nap uaddr)) \<and>
    (addr_bits nap = 32 \<longrightarrow> NaClIsUserAddr nap (NaClSandboxCodeAddr nap addr))"
proof -
  have byte: "NaClIsUserAddr nap (uaddr + mem_start nap + of_nat k) \<and>
      NaClSysToUser nap (uaddr + mem_start nap + of_nat k) = Inr (uaddr + of_nat k)"
    if "unat uaddr + unat cnt \<le> 2 ^ addr_bits nap" "k < unat cnt" for k
  proof -
    have "(2 :: nat) ^ addr_bits nap \<le> 2 ^ 32" using assms by (intro power_increasing) (simp_all add: space_ok_def)
    moreover have "unat (of_nat k :: u64) = k"
      using that(2) unsigned_less [of cnt, where ?'a = nat] by (simp add: unat_of_nat take_bit_nat_eq_self)
    ultimately have "unat (uaddr + of_nat k) < 2 ^ addr_bits nap"
      using that by (subst unat_add_no_wrap) simp_all
    from sys_to_user [OF assms this] show ?thesis by (simp add: ac_simps)
  qed
  have "if 0 < unat uaddr \<and> unat uaddr + unat cnt \<le> 2 ^ addr_bits nap
      then unat (NaClUserToSysAddrRange nap uaddr cnt) = unat (mem_start nap) + unat uaddr \<and>
        (\<forall>k < unat cnt. NaClIsUserAddr nap (NaClUserToSysAddrRange nap uaddr cnt + of_nat k) \<and>
           NaClSysToUser nap (NaClUserToSysAddrRange nap uaddr cnt + of_nat k) = Inr (uaddr + of_nat k))
      else NaClUserToSysAddrRange nap uaddr cnt = kNaClBadAddress"
    using byte sys_addr(1) [OF assms, of uaddr] user_range_iff [OF assms, of uaddr cnt] by simp
  then show ?thesis using user_addr_eq [OF assms] code_addr_user [OF assms] by blast
qed

definition sample_app :: sys_app where
  "sample_app = \<lparr>addr_bits = 32, mem_start = 0x7f0000000000, bundle_size = 32, static_text_end = 0x20000,
     dynamic_text_start = 0x20000, dynamic_text_end = 0x20000, data_end = 0x50000, break_addr = 0x50000,
     pnacl_mode = False, enable_dyncode_syscalls = True, mem_map = sample_map, mem_io_regions = NaClIntervalRangeTreeCtor, memory = (\<lambda>_. 7)\<rparr>"

lemma sample_space: "space_ok sample_app"
  by (simp add: space_ok_def sample_app_def)

theorem user_range_confined_witness:
  "NaClSysToUser sample_app (NaClUserToSysAddrRange sample_app 0x50000 16 + of_nat 15) = Inr 0x5000f \<and>
   NaClUserToSysAddrRange sample_app 0xfffffff8 16 = kNaClBadAddress \<and>
   NaClUserToSysAddrRange sample_app 16 0xfffffffffffffff8 = kNaClBadAddress"
proof -
  have b: "addr_bits sample_app = 32" by (simp add: sample_app_def)
  have "\<forall>k<16. NaClSysToUser sample_app (NaClUserToSysAddrRange sample_app 0x50000 16 + of_nat k) = Inr (0x50000 + of_nat k)"
    using user_range_confined [OF sample_space, of "0x50000" 16] unfolding b by simp
  from spec [OF this, of 15] have "NaClSysToUser sample_app (NaClUserToSysAddrRange sample_app 0x50000 16 + of_nat 15) = Inr 0x5000f"
    by simp
  moreover have "NaClUserToSysAddrRange sample_app 0xfffffff8 16 = kNaClBadAddress"
    using user_range_confined [OF sample_space, of "0xfffffff8" 16] unfolding b by simp
  moreover have "NaClUserToSysAddrRange sample_app 16 0xfffffffffffffff8 = kNaClBadAddress"
    using user_range_confined [OF sample_space, of 16 "0xfffffffffffffff8"] unfolding b by simp
  ultimately show ?thesis by blast
qed

end
