(* ===== verification/SysMemory.thy ===== *)
theory SysMemory
  imports AddrSpace
begin

text \<open>
  The memory system calls of the sandboxed program (\<open>service_runtime/sys_memory.c\<close>, in the build
  for the enclave): releasing a region, changing its protection, and moving the end of the data
  segment. They put together the translation of addresses, the memory map and the register of
  operations in flight.

  Each runs under the lock \<open>mu\<close>. Results are the values the system calls return; a fault is
  where they stop the process.
\<close>

section \<open>System calls\<close>

definition zero_bytes :: "u64 \<Rightarrow> u64 \<Rightarrow> (u64 \<Rightarrow> u8) \<Rightarrow> u64 \<Rightarrow> u8" where
  "zero_bytes a n m = (\<lambda>x. if x - a < n then 0 else m x)"

definition NaClSysCommonAddrRangeContainsExecutablePages :: "sys_app \<Rightarrow> u64 \<Rightarrow> u64 \<Rightarrow> bool" where
  "NaClSysCommonAddrRangeContainsExecutablePages nap usraddr len \<longleftrightarrow> NaClTruncAllocPage usraddr < dynamic_text_end nap"

definition NaClSysCommonAddrRangeInAllowedDynamicCodeSpace :: "sys_app \<Rightarrow> u64 \<Rightarrow> u64 \<Rightarrow> bool" where
  "NaClSysCommonAddrRangeInAllowedDynamicCodeSpace nap usraddr len \<longleftrightarrow>
     (let usr_region_end = usraddr + len in
      if usr_region_end < usraddr then False
      else
        let usr_region_end = NaClRoundAllocPage usr_region_end in
        if usr_region_end < usraddr then False
        else dynamic_text_start nap \<le> usraddr \<and> usr_region_end \<le> dynamic_text_end nap)"

definition MunmapInternal :: "(nat \<Rightarrow> bool) \<Rightarrow> sys_app \<Rightarrow> u64 \<Rightarrow> u64 \<Rightarrow> (u32 \<times> sys_app) run" where
  "MunmapInternal mem nap sysaddr len =
     (let nap = nap\<lparr>memory := zero_bytes sysaddr len (memory nap)\<rparr> in
      bindE (NaClSysToUser nap sysaddr) (\<lambda>usraddr.
      bindE (NaClVmmapRemove mem (mem_map nap) (drop_bit NACL_PAGESHIFT usraddr) (drop_bit NACL_PAGESHIFT len)) (\<lambda>m.
        Inr (0, nap\<lparr>mem_map := m\<rparr>))))"

definition NaClSysMunmap :: "(nat \<Rightarrow> bool) \<Rightarrow> sys_app \<Rightarrow> u32 \<Rightarrow> u32 \<Rightarrow> (u32 \<times> sys_app) run" where
  "NaClSysMunmap mem nap start len =
     (if \<not> NaClIsAllocPageMultiple (ucast start) then Inr (- NACL_ABI_EINVAL, nap)
      else
        let alloc_rounded_length = NaClRoundAllocPage (ucast len);
            len = (if alloc_rounded_length \<noteq> ucast len then ucast alloc_rounded_length else len)
        in
        if 0 = len then Inr (- NACL_ABI_EINVAL, nap)
        else
          let sysaddr = NaClUserToSysAddrRange nap (ucast start) (ucast len) in
          if kNaClBadAddress = sysaddr then Inr (- NACL_ABI_EFAULT, nap)
          else if NaClSysCommonAddrRangeContainsExecutablePages nap (ucast start) (ucast len)
          then Inr (- NACL_ABI_EINVAL, nap)
          else bindE (NaClVmIoPendingCheck_mu (mem_io_regions nap) start (start + len - 1)) (\<lambda>_.
                 MunmapInternal mem nap sysaddr (ucast len)))"

text \<open>Inside an enclave the protection of pages cannot be changed.\<close>

definition MprotectInternal :: "sys_app \<Rightarrow> u64 \<Rightarrow> u64 \<Rightarrow> u32 \<Rightarrow> u32" where
  "MprotectInternal nap sysaddr len prot = 0"

definition NaClSysMprotectInternal ::
    "(nat \<Rightarrow> bool) \<Rightarrow> (nat \<Rightarrow> u32) \<Rightarrow> sys_app \<Rightarrow> u32 \<Rightarrow> u64 \<Rightarrow> u32 \<Rightarrow> (u32 \<times> sys_app) run" where
  "NaClSysMprotectInternal mem GetFlags nap start len prot =
     (if \<not> NaClIsAllocPageMultiple (ucast start) then Inr (- NACL_ABI_EINVAL, nap)
      else
        let len = NaClRoundAllocPage len;
            sysaddr = NaClUserToSysAddrRange nap (ucast start) len
        in
        if kNaClBadAddress = sysaddr then Inr (- NACL_ABI_EFAULT, nap)
        else if 0 \<noteq> NOT (NACL_ABI_PROT_READ OR NACL_ABI_PROT_WRITE) AND prot then Inr (- NACL_ABI_EACCES, nap)
        else if NaClSysCommonAddrRangeContainsExecutablePages nap (ucast start) len then Inr (- NACL_ABI_EACCES, nap)
        else
          bindE (NaClSysToUser nap sysaddr) (\<lambda>usraddr.
          bindE (NaClVmmapChangeProt mem GetFlags (mem_map nap) (drop_bit NACL_PAGESHIFT usraddr)
                   (drop_bit NACL_PAGESHIFT len) prot) (\<lambda>(ok, m).
            let nap = nap\<lparr>mem_map := m\<rparr> in
            if \<not> ok then Inr (- NACL_ABI_EACCES, nap)
            else bindE (NaClVmIoPendingCheck_mu (mem_io_regions nap) start (ucast (ucast start + len - 1))) (\<lambda>_.
                   Inr (MprotectInternal nap sysaddr len prot, nap)))))"

definition NaClSysMprotect ::
    "(nat \<Rightarrow> bool) \<Rightarrow> (nat \<Rightarrow> u32) \<Rightarrow> sys_app \<Rightarrow> u32 \<Rightarrow> u64 \<Rightarrow> u32 \<Rightarrow> (u32 \<times> sys_app) run" where
  "NaClSysMprotect mem GetFlags nap start len prot = NaClSysMprotectInternal mem GetFlags nap start len prot"

text \<open>Growing the data segment past the last page that is mapped: the entry of the map is extended
  in place, unless the next one is in the way.\<close>

definition brk_extend :: "sys_app \<Rightarrow> u64 \<Rightarrow> (bool \<times> sys_app) run" where
  "brk_extend nap new_break =
     (let usr_last_data_page = drop_bit NACL_PAGESHIFT (break_addr nap - 1);
          usr_new_last_data_page = drop_bit NACL_PAGESHIFT (new_break - 1);
          last_internal_data_addr = NaClRoundAllocPage new_break - 1;
          last_internal_page = drop_bit NACL_PAGESHIFT last_internal_data_addr
      in
      bindE (NaClVmmapFindPageIter (mem_map nap) usr_last_data_page) (\<lambda>(iter, m).
        let nap = nap\<lparr>mem_map := m\<rparr> in
        if NaClVmmapIterAtEnd m iter then Inl LogFatal
        else bindE (NaClVmmapIterStar m iter) (\<lambda>ent.
          if usr_new_last_data_page < ve_page_num ent + ve_npages ent then Inr (True, nap\<lparr>break_addr := new_break\<rparr>)
          else
            let iter' = NaClVmmapIterIncr iter in
            bindE (if NaClVmmapIterAtEnd m iter' then Inr False
                   else bindE (NaClVmmapIterStar m iter') (\<lambda>next_ent. Inr (ve_page_num next_ent \<le> last_internal_page)))
              (\<lambda>in_the_way.
                 if in_the_way then Inr (False, nap)
                 else Inr (True, nap\<lparr>mem_map := vmentry_set m iter
                                       (ent\<lparr>ve_npages := last_internal_page - ve_page_num ent + 1\<rparr>),
                                     break_addr := new_break\<rparr>)))))"

definition NaClSysBrk :: "bool \<Rightarrow> sys_app \<Rightarrow> u64 \<Rightarrow> (u32 \<times> sys_app) run" where
  "NaClSysBrk lock_ok nap new_break =
     (if pnacl_mode nap then Inr (- NACL_ABI_ENOSYS, nap)
      else
        let sys_new_break = NaClUserToSysAddr nap new_break in
        if kNaClBadAddress = sys_new_break then Inr (ucast (break_addr nap), nap)
        else if \<not> lock_ok then Inr (ucast (break_addr nap), nap)
        else if new_break < data_end nap then Inr (ucast (break_addr nap), nap)
        else if new_break \<le> break_addr nap then Inr (ucast new_break, nap\<lparr>break_addr := new_break\<rparr>)
        else
          bindE (NaClUserToSys nap (break_addr nap)) (\<lambda>sys_break.
          bindE (brk_extend nap new_break) (\<lambda>(ok, nap').
            if \<not> ok then Inr (ucast (break_addr nap), nap')
            else guardE CheckFailed (sys_new_break > sys_break)
              (Inr (ucast new_break,
                    nap'\<lparr>memory := zero_bytes sys_break (sys_new_break - sys_break) (memory nap')\<rparr>)))))"

section \<open>Releasing a region\<close>

lemma unat_ucast_64 [simp]: "unat (ucast (x :: u32) :: u64) = unat x"
  using unsigned_less [of x, where ?'a = nat] by (simp add: unsigned_ucast_eq take_bit_nat_eq_self)

lemma alloc_multiple_iff: "NaClIsAllocPageMultiple x \<longleftrightarrow> 65536 dvd unat x"
proof -
  have "(NACL_MAP_PAGESIZE - 1) AND x = take_bit 16 x"
    by (simp add: NACL_MAP_PAGESIZE_def take_bit_eq_mask mask_16 and.commute)
  then have "NaClIsAllocPageMultiple x \<longleftrightarrow> unat (take_bit 16 x) = 0"
    by (auto simp: NaClIsAllocPageMultiple_def unat_eq_0)
  also have "unat (take_bit 16 x) = unat x mod 65536" by (simp only: unsigned_take_bit_eq) (simp add: take_bit_eq_mod)
  finally show ?thesis by (simp add: dvd_eq_mod_eq_0)
qed

lemma trunc_alloc_multiple: "65536 dvd unat x \<Longrightarrow> NaClTruncAllocPage x = x"
  using unat_and_not_mask [of x 16]
  by (intro unat_eqD) (simp add: NaClTruncAllocPage_def NACL_MAP_PAGESIZE_def mask_16)

text \<open>The length in bytes, rounded up to allocation pages.\<close>

definition alloc_len :: "nat \<Rightarrow> nat" where "alloc_len n = round_up n 65536"

lemma alloc_len_bounds: "n \<le> alloc_len n" "65536 dvd alloc_len n" "n \<le> 2 ^ 32 \<Longrightarrow> alloc_len n \<le> 2 ^ 32"
  "alloc_len n = 0 \<longleftrightarrow> n = 0"
proof -
  show "n \<le> alloc_len n" by (simp add: alloc_len_def round_up_ge)
  then show "alloc_len n = 0 \<longleftrightarrow> n = 0" by (auto simp: alloc_len_def round_up_def)
  show "65536 dvd alloc_len n" by (simp add: alloc_len_def round_up_dvd)
  show "n \<le> 2 ^ 32 \<Longrightarrow> alloc_len n \<le> 2 ^ 32" unfolding alloc_len_def by (rule round_up_least) simp_all
qed

lemma unat_round_alloc: "unat x \<le> 2 ^ 32 \<Longrightarrow> unat (NaClRoundAllocPage x) = alloc_len (unat x)"
  by (simp add: unat_NaClRoundAllocPage alloc_len_def)

lemma unat_rounded32:
  "unat (if NaClRoundAllocPage (ucast len) \<noteq> ucast len then ucast (NaClRoundAllocPage (ucast len)) else len :: u32)
     = alloc_len (unat len) mod 2 ^ 32"
proof -
  have lt: "unat len < 2 ^ 32" using unsigned_less [of len, where ?'a = nat] by simp
  then have r: "unat (NaClRoundAllocPage (ucast len)) = alloc_len (unat len)" by (simp add: unat_round_alloc)
  show ?thesis
  proof (cases "NaClRoundAllocPage (ucast len) = (ucast len :: u64)")
    case True
    then have "alloc_len (unat len) = unat len" using r by simp
    then show ?thesis using True lt by simp
  next
    case False
    then show ?thesis using r by (simp add: unsigned_ucast_eq take_bit_eq_mod)
  qed
qed

text \<open>What holds between system calls: the space is where it should be, the map is well-formed, the
  operations in flight are registered, and the text segment, which no call can reach, is mapped.\<close>

definition sys_inv :: "sys_app \<Rightarrow> interval multiset \<Rightarrow> bool" where
  "sys_inv nap M \<longleftrightarrow> space_ok nap \<and> wf_vmmap (mem_map nap) \<and> io_run (mem_io_regions nap) M \<and>
     (\<exists>q. q * 4096 < unat (dynamic_text_end nap) \<and> vm_page (mem_map nap) q \<noteq> None)"

text \<open>An operation in flight touches the region of \<open>n\<close> bytes from \<open>s\<close>.\<close>

definition io_touches :: "interval multiset \<Rightarrow> nat \<Rightarrow> nat \<Rightarrow> bool" where
  "io_touches M s n \<longleftrightarrow> (\<exists>i\<in>#M. \<exists>a. unat (fst i) \<le> a \<and> a \<le> unat (snd i) \<and> s \<le> a \<and> a < s + n)"

lemma pending_check_touches:
  assumes "io_run R M" "0 < n" "unat f + n \<le> 2 ^ 32" "unat l = unat f + n - 1"
  shows "NaClVmIoPendingCheck_mu R f l = (if io_touches M (unat f) n then Inl LogFatal else Inr ())"
proof -
  have le: "f \<le> l" using assms(2,4) by (simp add: word_le_nat_alt)
  have "(\<exists>a. fst i \<le> a \<and> a \<le> snd i \<and> f \<le> a \<and> a \<le> l) \<longleftrightarrow>
      (\<exists>a. unat (fst i) \<le> a \<and> a \<le> unat (snd i) \<and> unat f \<le> a \<and> a < unat f + n)" for i :: interval
  proof
    assume "\<exists>a. unat (fst i) \<le> a \<and> a \<le> unat (snd i) \<and> unat f \<le> a \<and> a < unat f + n"
    then obtain a where a: "unat (fst i) \<le> a" "a \<le> unat (snd i)" "unat f \<le> a" "a < unat f + n" by blast
    then have "unat (of_nat a :: u32) = a" using assms(3) by (simp add: unat_of_nat take_bit_nat_eq_self)
    with a assms(2,4) show "\<exists>a. fst i \<le> a \<and> a \<le> snd i \<and> f \<le> a \<and> a \<le> l"
      by (intro exI [of _ "of_nat a"]) (simp add: word_le_nat_alt)
  next
    assume "\<exists>a. fst i \<le> a \<and> a \<le> snd i \<and> f \<le> a \<and> a \<le> l"
    then obtain a where "fst i \<le> a" "a \<le> snd i" "f \<le> a" "a \<le> l" by blast
    with assms(2,4) show "\<exists>a. unat (fst i) \<le> a \<and> a \<le> unat (snd i) \<and> unat f \<le> a \<and> a < unat f + n"
      by (intro exI [of _ "unat a"]) (simp add: word_le_nat_alt)
  qed
  then show ?thesis using pending_check_exact [OF assms(1) le] by (simp add: io_touches_def)
qed

lemma translate_upd [simp]:
  "NaClSysToUser (nap\<lparr>memory := m\<rparr>) = NaClSysToUser nap" "NaClSysToUser (nap\<lparr>mem_map := mm\<rparr>) = NaClSysToUser nap"
  by (simp_all add: NaClSysToUser_def fun_eq_iff)

lemma unat_page: "unat (drop_bit NACL_PAGESHIFT (x :: u64)) = unat x div 4096"
  using unsigned_less [of x, where ?'a = nat]
  by (simp only: NACL_PAGESHIFT_def unsigned_drop_bit_eq) (simp add: drop_bit_eq_div take_bit_nat_eq_self)

lemma region_pages:
  assumes "4096 dvd unat a" "4096 dvd unat n"
  shows "in_region (drop_bit NACL_PAGESHIFT a) (drop_bit NACL_PAGESHIFT n) p \<longleftrightarrow>
    unat a \<le> p * 4096 \<and> p * 4096 < unat a + unat n"
proof -
  obtain i j where "unat a = 4096 * i" "unat n = 4096 * j" using assms by (elim dvdE)
  then show ?thesis by (auto simp: in_region_def unat_page)
qed

lemma MunmapInternal_ok:
  assumes inv: "sys_inv nap M" and a: "4096 dvd unat a" "4096 dvd unat n" "0 < unat n" "unat a + unat n \<le> 2 ^ addr_bits nap"
    and above: "unat (dynamic_text_end nap) \<le> unat a"
  shows "\<exists>m. MunmapInternal (\<lambda>_. True) nap (a + mem_start nap) n =
      Inr (0, nap\<lparr>memory := zero_bytes (a + mem_start nap) n (memory nap), mem_map := m\<rparr>) \<and> wf_vmmap m \<and>
      (\<forall>p. vm_page m p = (if unat a \<le> p * 4096 \<and> p * 4096 < unat a + unat n then None else vm_page (mem_map nap) p))"
proof -
  let ?pn = "drop_bit NACL_PAGESHIFT a" and ?np = "drop_bit NACL_PAGESHIFT n"
  have sp: "space_ok nap" and wf: "wf_vmmap (mem_map nap)" using inv by (simp_all add: sys_inv_def)
  have "(2 :: nat) ^ addr_bits nap \<le> 2 ^ 32" using sp by (intro power_increasing) (simp_all add: space_ok_def)
  then have np: "0 < unat ?np" "unat ?pn + unat ?np \<le> PAGE_LIMIT"
    using a by (auto simp: unat_page PAGE_LIMIT_def elim!: dvdE)
  have "\<exists>q. \<not> in_region ?pn ?np q \<and> vm_page (mem_map nap) q \<noteq> None"
    using inv above unfolding region_pages [OF a(1,2)] sys_inv_def by (meson leD le_trans less_le_trans)
  from Remove_pages(1) [where mem = "\<lambda>_. True", OF wf np _ this] obtain m where
    m: "NaClVmmapRemove (\<lambda>_. True) (mem_map nap) ?pn ?np = Inr m" "wf_vmmap m"
      "\<forall>p. vm_page m p = (if in_region ?pn ?np p then None else vm_page (mem_map nap) p)" by blast
  have "unat a < 2 ^ addr_bits nap" using a(3,4) by simp
  then have s: "NaClSysToUser nap (a + mem_start nap) = Inr a" using sys_to_user(1) [OF sp] by blast
  show ?thesis using m s unfolding region_pages [OF a(1,2)]
    by (intro exI [of _ m]) (simp add: MunmapInternal_def)
qed

text \<open>The region of a call: an allocation page, and whole allocation pages from there.\<close>

definition region_len :: "u32 \<Rightarrow> nat" where "region_len len = alloc_len (unat len) mod 2 ^ 32"

definition user_region :: "sys_app \<Rightarrow> nat \<Rightarrow> nat \<Rightarrow> bool" where
  "user_region nap s n \<longleftrightarrow> 0 < s \<and> s + n \<le> 2 ^ addr_bits nap"

lemma user_region_range:
  assumes "space_ok nap" "unat uaddr < 2 ^ 32"
  shows "NaClUserToSysAddrRange nap uaddr cnt =
      (if user_region nap (unat uaddr) (unat cnt) then uaddr + mem_start nap else kNaClBadAddress)"
    and "user_region nap (unat uaddr) (unat cnt) \<Longrightarrow> uaddr + mem_start nap \<noteq> kNaClBadAddress"
  using user_range_iff [OF assms(1), of uaddr cnt] sys_addr(2) [OF assms(1), of uaddr] by (auto simp: user_region_def)

lemma executable_iff: "65536 dvd unat a \<Longrightarrow>
    NaClSysCommonAddrRangeContainsExecutablePages nap a n \<longleftrightarrow> unat a < unat (dynamic_text_end nap)"
  by (simp add: NaClSysCommonAddrRangeContainsExecutablePages_def trunc_alloc_multiple word_less_nat_alt)

text \<open>The call, with its guards in terms of numbers.\<close>

lemma NaClSysMunmap_eq:
  assumes inv: "sys_inv nap M"
  shows "NaClSysMunmap mem nap start len =
    (if \<not> 65536 dvd unat start \<or> region_len len = 0 then Inr (- NACL_ABI_EINVAL, nap)
     else if \<not> user_region nap (unat start) (region_len len) then Inr (- NACL_ABI_EFAULT, nap)
     else if unat start < unat (dynamic_text_end nap) then Inr (- NACL_ABI_EINVAL, nap)
     else if io_touches M (unat start) (region_len len) then Inl LogFatal
     else MunmapInternal mem nap (ucast start + mem_start nap) (of_nat (region_len len)))"
proof -
  define l :: u32 where "l = (if NaClRoundAllocPage (ucast len) \<noteq> ucast len then ucast (NaClRoundAllocPage (ucast len)) else len)"
  have l: "unat l = region_len len" unfolding l_def region_len_def by (rule unat_rounded32)
  have sp: "space_ok nap" and io: "io_run (mem_io_regions nap) M" using inv by (simp_all add: sys_inv_def)
  have st: "unat start < 2 ^ 32" using unsigned_less [of start, where ?'a = nat] by simp
  have lu: "(ucast l :: u64) = of_nat (region_len len)" by (simp flip: l)
  have l0: "0 = l \<longleftrightarrow> region_len len = 0" using l by (metis unat_eq_0)
  have bits: "(2 :: nat) ^ addr_bits nap \<le> 2 ^ 32" using sp by (intro power_increasing) (simp_all add: space_ok_def)
  have chk: "NaClVmIoPendingCheck_mu (mem_io_regions nap) start (start + l - 1) =
      (if io_touches M (unat start) (region_len len) then Inl LogFatal else Inr ())"
    if "user_region nap (unat start) (region_len len)" "region_len len \<noteq> 0"
  proof (rule pending_check_touches [OF io])
    show "unat start + region_len len \<le> 2 ^ 32" using that(1) bits by (simp add: user_region_def)
    then have "unat (start + (l - 1)) = unat start + unat (l - 1)" "unat (l - 1) = unat l - 1"
      using that(2) l unat_diff_le [of 1 l] by (auto simp: unat_add_no_wrap)
    then show "unat (start + l - 1) = unat start + region_len len - 1"
      using that(2) l by (simp add: add_diff_eq)
  qed (use that in simp)
  have rng: "NaClUserToSysAddrRange nap (ucast start) (ucast l) =
      (if user_region nap (unat start) (region_len len) then ucast start + mem_start nap else kNaClBadAddress)"
    and ne: "user_region nap (unat start) (region_len len) \<Longrightarrow> ucast start + mem_start nap \<noteq> kNaClBadAddress"
    using user_region_range [OF sp, of "ucast start" "ucast l"] st unfolding unat_ucast_64 l by auto
  have "NaClSysMunmap mem nap start len =
    (if \<not> NaClIsAllocPageMultiple (ucast start) then Inr (- NACL_ABI_EINVAL, nap)
     else if 0 = l then Inr (- NACL_ABI_EINVAL, nap)
     else if kNaClBadAddress = NaClUserToSysAddrRange nap (ucast start) (ucast l) then Inr (- NACL_ABI_EFAULT, nap)
     else if NaClSysCommonAddrRangeContainsExecutablePages nap (ucast start) (ucast l) then Inr (- NACL_ABI_EINVAL, nap)
     else bindE (NaClVmIoPendingCheck_mu (mem_io_regions nap) start (start + l - 1)) (\<lambda>_.
            MunmapInternal mem nap (NaClUserToSysAddrRange nap (ucast start) (ucast l)) (ucast l)))"
    unfolding NaClSysMunmap_def Let_def l_def by (rule refl)
  then show ?thesis unfolding alloc_multiple_iff unat_ucast_64 l0 rng unfolding lu
    using ne chk by (auto simp: executable_iff)
qed

section \<open>Changing the protection\<close>

lemma MprotectInternal_region:
  assumes inv: "sys_inv nap M" and a: "65536 dvd unat a" "65536 dvd unat n" "0 < unat n" "unat a + unat n \<le> 2 ^ addr_bits nap"
    and lf: "legal_flags GetFlags"
  shows "\<exists>ok m. NaClVmmapChangeProt (\<lambda>_. True) GetFlags (mem_map nap) (drop_bit NACL_PAGESHIFT a) (drop_bit NACL_PAGESHIFT n) prot
      = Inr (ok, m) \<and> wf_vmmap m \<and>
    (ok \<longleftrightarrow> (\<forall>p. unat a \<le> p * 4096 \<and> p * 4096 < unat a + unat n \<longrightarrow>
       (\<exists>at. vm_page (mem_map nap) p = Some at \<and> prot_allowed GetFlags prot at))) \<and>
    (\<forall>p. if ok \<and> unat a \<le> p * 4096 \<and> p * 4096 < unat a + unat n
         then map_option no_offset (vm_page m p) = map_option (no_offset \<circ> set_prot prot) (vm_page (mem_map nap) p)
         else vm_page m p = vm_page (mem_map nap) p)"
proof -
  let ?pn = "drop_bit NACL_PAGESHIFT a" and ?np = "drop_bit NACL_PAGESHIFT n"
  have sp: "space_ok nap" and wf: "wf_vmmap (mem_map nap)" using inv by (simp_all add: sys_inv_def)
  have "(2 :: nat) ^ addr_bits nap \<le> 2 ^ 32" using sp by (intro power_increasing) (simp_all add: space_ok_def)
  then have np: "0 < unat ?np" "unat ?pn + unat ?np \<le> PAGE_LIMIT"
    using a by (auto simp: unat_page PAGE_LIMIT_def elim!: dvdE)
  have d: "4096 dvd unat a" "4096 dvd unat n" using a(1,2) by (auto elim!: dvdE)
  show ?thesis
  proof (cases "region_allows GetFlags (mem_map nap) ?pn ?np prot")
    case True
    obtain m where m: "NaClVmmapChangeProt (\<lambda>_. True) GetFlags (mem_map nap) ?pn ?np prot = Inr (True, m)" "wf_vmmap m"
      "\<And>f p. f = no_offset \<or> f = (\<lambda>a. a) \<and> (starts_entry (mem_map nap) ?pn \<or> \<not> in_region ?pn ?np p) \<Longrightarrow>
        map_option f (vm_page m p) =
        map_option f (if in_region ?pn ?np p then map_option (set_prot prot) (vm_page (mem_map nap) p) else vm_page (mem_map nap) p)"
      using change_prot_pages [where mem = "\<lambda>_. True", OF wf np lf _ True] by blast
    show ?thesis
      using m(1,2) True m(3) [of no_offset] m(3) [of "\<lambda>a. a"] unfolding region_allows_def region_pages [OF d]
      by (intro exI [of _ True] exI [of _ m] conjI) (simp_all add: option.map_ident option.map_comp)
  next
    case False
    then show ?thesis
      using ChangeProt_refuses [OF wf np lf False, of "\<lambda>_. True"] unfolding region_allows_def region_pages [OF d]
      by (intro exI [of _ False]) (simp del: split_paired_Ex split_paired_All)
  qed
qed

lemma bindE_if: "bindE (if b then x else y) f = (if b then bindE x f else bindE y f)"
  by simp

lemma user_region_bounds: "space_ok nap \<Longrightarrow> user_region nap s n \<Longrightarrow> s + n \<le> 2 ^ 32"
proof -
  assume "space_ok nap" and u: "user_region nap s n"
  then have "(2 :: nat) ^ addr_bits nap \<le> 2 ^ 32" by (intro power_increasing) (simp_all add: space_ok_def)
  then show ?thesis using u by (simp add: user_region_def)
qed

lemma mprotect_check:
  assumes inv: "sys_inv nap M" and u: "user_region nap (unat start) (unat n)" and n: "0 < unat n"
  shows "NaClVmIoPendingCheck_mu (mem_io_regions nap) start (ucast (ucast start + n - 1 :: u64)) =
    (if io_touches M (unat start) (unat n) then Inl LogFatal else Inr ())"
proof (rule pending_check_touches)
  have sp: "space_ok nap" using inv by (simp add: sys_inv_def)
  show le: "unat start + unat n \<le> 2 ^ 32" by (rule user_region_bounds [OF sp u])
  have "unat (n - 1) = unat n - 1" using n unat_diff_le [of 1 n] by simp
  moreover from this have "unat (ucast start + (n - 1) :: u64) = unat start + unat (n - 1)"
    using le n by (subst unat_add_no_wrap) simp_all
  ultimately have e: "unat (ucast start + n - 1 :: u64) = unat start + unat n - 1" using n by (simp add: add_diff_eq)
  show "unat (ucast (ucast start + n - 1 :: u64) :: u32) = unat start + unat n - 1"
    using le n unfolding unsigned_ucast_eq e by (simp add: take_bit_nat_eq_self)
qed (use inv n in \<open>simp_all add: sys_inv_def\<close>)

lemma NaClSysMprotect_eq:
  assumes inv: "sys_inv nap M" and len: "0 < unat len" "unat len \<le> 2 ^ 32"
  shows "NaClSysMprotect mem GetFlags nap start len prot =
    (if \<not> 65536 dvd unat start then Inr (- NACL_ABI_EINVAL, nap)
     else if \<not> user_region nap (unat start) (alloc_len (unat len)) then Inr (- NACL_ABI_EFAULT, nap)
     else if 0 \<noteq> NOT (NACL_ABI_PROT_READ OR NACL_ABI_PROT_WRITE) AND prot \<or> unat start < unat (dynamic_text_end nap)
     then Inr (- NACL_ABI_EACCES, nap)
     else bindE (NaClVmmapChangeProt mem GetFlags (mem_map nap) (drop_bit NACL_PAGESHIFT (ucast start))
            (drop_bit NACL_PAGESHIFT (NaClRoundAllocPage len)) prot) (\<lambda>(ok, m).
          if \<not> ok then Inr (- NACL_ABI_EACCES, nap\<lparr>mem_map := m\<rparr>)
          else if io_touches M (unat start) (alloc_len (unat len)) then Inl LogFatal
          else Inr (0, nap\<lparr>mem_map := m\<rparr>)))"
proof -
  let ?n = "NaClRoundAllocPage len"
  have n: "unat ?n = alloc_len (unat len)" by (rule unat_round_alloc [OF len(2)])
  have n0: "0 < alloc_len (unat len)" using len(1) alloc_len_bounds(1) [of "unat len"] by simp
  have sp: "space_ok nap" using inv by (simp add: sys_inv_def)
  have st: "unat start < 2 ^ 32" using unsigned_less [of start, where ?'a = nat] by simp
  have rng: "NaClUserToSysAddrRange nap (ucast start) ?n =
      (if user_region nap (unat start) (alloc_len (unat len)) then ucast start + mem_start nap else kNaClBadAddress)"
    and ne: "user_region nap (unat start) (alloc_len (unat len)) \<Longrightarrow> ucast start + mem_start nap \<noteq> kNaClBadAddress"
    using user_region_range [OF sp, of "ucast start" ?n] st unfolding unat_ucast_64 n by auto
  have usr: "user_region nap (unat start) (alloc_len (unat len)) \<Longrightarrow> NaClSysToUser nap (ucast start + mem_start nap) = Inr (ucast start)"
    using n0 by (intro sys_to_user(1) [OF sp]) (simp add: user_region_def)
  have chk: "user_region nap (unat start) (alloc_len (unat len)) \<Longrightarrow>
      NaClVmIoPendingCheck_mu (mem_io_regions nap) start (ucast (ucast start + ?n - 1 :: u64)) =
      (if io_touches M (unat start) (alloc_len (unat len)) then Inl LogFatal else Inr ())"
    using mprotect_check [OF inv, of start ?n] n0 unfolding n by simp
  show ?thesis
  proof (cases "65536 dvd unat start \<and> user_region nap (unat start) (alloc_len (unat len))")
    case True
    then show ?thesis using ne rng usr chk executable_iff [of "ucast start" nap ?n]
      by (simp add: NaClSysMprotect_def NaClSysMprotectInternal_def alloc_multiple_iff Let_def bindE_if MprotectInternal_def
          cong: if_cong)
  next
    case False
    then show ?thesis using rng by (auto simp: NaClSysMprotect_def NaClSysMprotectInternal_def alloc_multiple_iff)
  qed
qed

end
