(* ===== verification/SysBrk.thy ===== *)
theory SysBrk
  imports SysMemory
begin

text \<open>
  What the memory system calls of \<open>SysMemory\<close> do: the proof that moving the end of the data segment
  keeps the memory map well-formed, and the properties of the three calls.
\<close>

section \<open>Extending an entry\<close>

lemma FindPageIter_entries:
  assumes "wf_vmmap self" "vm_page self (unat pnum) \<noteq> None"
  shows "\<exists>pre e post s. NaClVmmapFindPageIter self pnum = Inr (length pre, s) \<and> entries s (pre @ e # post) \<and>
    wf_entries (pre @ e # post) \<and> ordered (pre @ e # post) \<and> covers e (unat pnum) \<and> wf_vmmap s \<and>
    (\<forall>p. vm_page s p = vm_page self p)"
proof -
  obtain s es where s: "NaClVmmapMakeSorted self = Inr s" "entries s es" "wf_entries es" "ordered es"
    "wf_vmmap s" "\<forall>p. vm_page s p = vm_page self p"
    using make_sorted_wf [OF assms(1)] by blast
  have wfe: "\<forall>e\<in>set es. wf_entry e" using s(3) by (simp add: wf_entries_def)
  have v: "vm_vmentry s = map Some es" using s(2) by (simp add: entries_def)
  obtain ix where ix: "bsearch_elems NaClVmmapContainCmpEntries pnum (map Some es) = Some ix"
  proof (cases "bsearch_elems NaClVmmapContainCmpEntries pnum (map Some es)")
    case None
    then have "\<forall>e\<in>set es. \<not> covers e (unat pnum)" using bsearch_entries [OF s(4) wfe, of pnum] by simp
    then have "vm_page s (unat pnum) = None" using mapped_iff [OF s(2,3)] by blast
    then show thesis using assms(2) s(6) by simp
  qed (rule that)
  then have i: "ix < length es" "covers (es ! ix) (unat pnum)" using bsearch_entries [OF s(4) wfe, of pnum] by auto
  have es: "es = take ix es @ es ! ix # drop (Suc ix) es" using i(1) by (rule id_take_nth_drop)
  have l: "length (take ix es) = ix" using i(1) by simp
  have "NaClVmmapFindPageIter self pnum = Inr (length (take ix es), s)"
    using s(1) ix l by (simp add: NaClVmmapFindPageIter_def v)
  then show ?thesis using s(2-6) i(2) es by metis
qed

lemma extend_entry:
  assumes en: "entries s (pre @ e # post)" and wf: "wf_entries (pre @ e # post)" and ord: "ordered (pre @ e # post)"
    and N: "ve_end e \<le> N" "N \<le> PAGE_LIMIT" "\<forall>x\<in>set post. N \<le> ve_first x" and n: "unat n = N - ve_first e"
  shows "wf_vmmap (vmentry_set s (length pre) (e\<lparr>ve_npages := n\<rparr>)) \<and>
    (\<forall>p. vm_page (vmentry_set s (length pre) (e\<lparr>ve_npages := n\<rparr>)) p =
      (if ve_end e \<le> p \<and> p < N then Some (attrs e p) else vm_page s p)) \<and>
    (\<forall>p. ve_end e \<le> p \<and> p < N \<longrightarrow> vm_page s p = None)"
proof -
  let ?e = "e\<lparr>ve_npages := n\<rparr>" and ?s = "vmentry_set s (length pre) (e\<lparr>ve_npages := n\<rparr>)"
  have we: "wf_entry e" "\<not> ve_removed e" using wf by (simp_all add: wf_entries_def)
  have le: "ve_first e < ve_end e" using we(1) by (simp add: wf_entry_def ve_end_def ve_first_def)
  have f: "ve_first ?e = ve_first e" "ve_end ?e = N" "attrs ?e p = attrs e p" for p
    using n N(1) le by (simp_all add: ve_first_def ve_end_def attrs_def)
  have en': "entries ?s (pre @ ?e # post)" by (rule entries_set [OF en])
  have one: "size (page_at (pre @ e # post) p) \<le> 1" for p using wf unfolding wf_entries_def by blast
  have pre0: "page_at pre p = {#}" if "ve_end e \<le> p" for p
  proof (rule page_at_outside)
    fix x assume "x \<in> set pre"
    then have "ve_end x \<le> ve_first e" using ord by (auto simp: ordered_def sorted_wrt_append)
    then show "\<not> covers x p" using that le by (simp add: covers_def)
  qed
  have post0: "page_at post p = {#}" if "p < N" for p
    using that N(3) by (intro page_at_outside) (auto simp: covers_def)
  have c: "covers ?e p = (if ve_end e \<le> p \<and> p < N then True else covers e p)" for p
    using le N(1) by (auto simp: covers_def f)
  have pg: "page_at (pre @ ?e # post) p =
      (if ve_end e \<le> p \<and> p < N then {#attrs e p#} else page_at (pre @ e # post) p)" for p
    using pre0 [of p] post0 [of p] we(2) by (simp add: c f)
  have gap0: "page_at (pre @ e # post) p = {#}" if "ve_end e \<le> p \<and> p < N" for p
    using pre0 [of p] post0 [of p] that by (simp add: covers_def)
  have one': "size (page_at (pre @ ?e # post) p) \<le> 1" for p using one [of p] by (simp add: pg del: page_at_simps)
  have "wf_entry ?e" using le N f by (simp add: wf_entry_def n)
  then have wf': "wf_entries (pre @ ?e # post)" using wf one' we(2) by (simp add: wf_entries_def del: page_at_simps)
  have "sorted (map ve_first (pre @ ?e # post))" using ordered_sorted [OF ord] f(1) wf by (simp add: wf_entries_def)
  then have "wf_vmmap ?s" using en' wf' by (auto simp: wf_vmmap_def)
  moreover have "vm_page ?s p = (if ve_end e \<le> p \<and> p < N then Some (attrs e p) else vm_page s p)" for p
  proof (cases "ve_end e \<le> p \<and> p < N")
    case True
    then show ?thesis using vm_page_iff(1) [OF en' one', of p] pg [of p] by (simp del: page_at_simps)
  next
    case False
    show ?thesis using vm_page_cong [OF en' en _ one, of p] pg [of p] unfolding if_not_P [OF False] by blast
  qed
  moreover have "vm_page s p = None" if "ve_end e \<le> p \<and> p < N" for p
    using vm_page_iff(2) [OF en one, of p] gap0 [OF that] by simp
  ultimately show ?thesis by blast
qed

section \<open>Moving the end of the data segment\<close>

text \<open>The last page up to which the data segment grows: whole allocation pages.\<close>

definition brk_pages :: "nat \<Rightarrow> nat" where "brk_pages b = alloc_len b div 4096"

lemma brk_pages_bounds: "b \<le> 2 ^ 32 \<Longrightarrow> brk_pages b \<le> 2 ^ 20" "0 < b \<Longrightarrow> (b - 1) div 4096 < brk_pages b"
proof -
  show "b \<le> 2 ^ 32 \<Longrightarrow> brk_pages b \<le> 2 ^ 20"
    using alloc_len_bounds(3) [of b] by (simp add: brk_pages_def)
  assume "0 < b"
  obtain k where k: "alloc_len b = 65536 * k" using alloc_len_bounds(2) [of b] by (elim dvdE)
  have "b \<le> 65536 * k" using alloc_len_bounds(1) [of b] k by simp
  then show "(b - 1) div 4096 < brk_pages b" using \<open>0 < b\<close> unfolding brk_pages_def k by simp
qed

lemma last_internal:
  assumes "0 < unat b" "unat b \<le> 2 ^ 32"
  shows "unat (drop_bit NACL_PAGESHIFT (NaClRoundAllocPage b - 1)) = brk_pages (unat b) - 1"
    "0 < brk_pages (unat b)"
proof -
  obtain k where k: "alloc_len (unat b) = 65536 * k" using alloc_len_bounds(2) [of "unat b"] by (elim dvdE)
  have k0: "0 < k" using k alloc_len_bounds(1) [of "unat b"] assms(1) by (cases k) auto
  have "unat (NaClRoundAllocPage b - 1) = alloc_len (unat b) - 1"
    using unat_round_alloc [OF assms(2)] k k0 unat_diff_le [of 1 "NaClRoundAllocPage b"] by simp
  then show "unat (drop_bit NACL_PAGESHIFT (NaClRoundAllocPage b - 1)) = brk_pages (unat b) - 1"
    using k0 unfolding unat_page brk_pages_def k by simp
  show "0 < brk_pages (unat b)" using k0 by (simp add: brk_pages_def k)
qed

text \<open>Growing: the pages from the end of the entry on, up to the new last page, become pages like the
  last one; or one of them is taken, and nothing changes.\<close>

lemma brk_extend_ok:
  assumes sp: "space_ok nap" and wf: "wf_vmmap (mem_map nap)"
    and br: "0 < unat (break_addr nap)" "vm_page (mem_map nap) ((unat (break_addr nap) - 1) div 4096) \<noteq> None"
    and nb: "unat (break_addr nap) < unat nb" "unat nb < 2 ^ addr_bits nap"
  shows "\<exists>ok m. brk_extend nap nb = Inr (ok, if ok then nap\<lparr>mem_map := m, break_addr := nb\<rparr> else nap\<lparr>mem_map := m\<rparr>) \<and> wf_vmmap m \<and>
    (\<exists>e. covers e ((unat (break_addr nap) - 1) div 4096) \<and>
      (\<forall>p. covers e p \<longrightarrow> vm_page (mem_map nap) p = Some (attrs e p)) \<and>
      (if ok then \<forall>p. vm_page m p = (if (unat nb - 1) div 4096 \<ge> ve_end e \<and> ve_end e \<le> p \<and> p < brk_pages (unat nb)
                    then Some (attrs e p) else vm_page (mem_map nap) p) \<and>
               (vm_page m p \<noteq> vm_page (mem_map nap) p \<longrightarrow> vm_page (mem_map nap) p = None)
       else (\<forall>p. vm_page m p = vm_page (mem_map nap) p) \<and>
            (\<exists>p. ve_end e \<le> p \<and> p < brk_pages (unat nb) \<and> vm_page (mem_map nap) p \<noteq> None)))"
proof -
  let ?b = "break_addr nap"
  have bits: "(2 :: nat) ^ addr_bits nap \<le> 2 ^ 32" using sp by (intro power_increasing) (simp_all add: space_ok_def)
  have u: "unat (drop_bit NACL_PAGESHIFT (?b - 1)) = (unat ?b - 1) div 4096"
    "unat (drop_bit NACL_PAGESHIFT (nb - 1)) = (unat nb - 1) div 4096"
    using br(1) nb(1) unat_diff_le [of 1 ?b] unat_diff_le [of 1 nb] by (simp_all add: unat_page)
  let ?lip = "drop_bit NACL_PAGESHIFT (NaClRoundAllocPage nb - 1)"
  have lip: "unat ?lip = brk_pages (unat nb) - 1" "0 < brk_pages (unat nb)"
    using last_internal [of nb] nb bits by simp_all
  have np: "brk_pages (unat nb) \<le> 2 ^ 20" using brk_pages_bounds(1) [of "unat nb"] nb bits by simp
  have new: "(unat nb - 1) div 4096 < brk_pages (unat nb)" using brk_pages_bounds(2) [of "unat nb"] nb by simp
  obtain pre e post s where s: "NaClVmmapFindPageIter (mem_map nap) (drop_bit NACL_PAGESHIFT (?b - 1)) = Inr (length pre, s)"
    "entries s (pre @ e # post)" "wf_entries (pre @ e # post)" "ordered (pre @ e # post)"
    "covers e ((unat ?b - 1) div 4096)" "wf_vmmap s" "\<forall>p. vm_page s p = vm_page (mem_map nap) p"
    using FindPageIter_entries [OF wf, of "drop_bit NACL_PAGESHIFT (?b - 1)"] br(2) unfolding u(1) by metis
  have we: "wf_entry e" "\<not> ve_removed e" using s(3) by (simp_all add: wf_entries_def)
  have cov: "\<forall>p. covers e p \<longrightarrow> vm_page (mem_map nap) p = Some (attrs e p)"
    using covers_vm_page [OF s(2,3), of e] s(7) by auto
  have nv: "vm_nvalid s = length pre + Suc (length post)" using s(2) by (simp add: entries_def)
  have at: "\<not> NaClVmmapIterAtEnd s (length pre)" "NaClVmmapIterStar s (length pre) = Inr e"
    using entries_at [OF s(2)] nv by (simp_all add: NaClVmmapIterAtEnd_def NaClVmmapIterStar_def)
  have within: "drop_bit NACL_PAGESHIFT (nb - 1) < ve_page_num e + ve_npages e \<longleftrightarrow> (unat nb - 1) div 4096 < ve_end e"
    using u(2) ve_end_word [OF we(1)] by (simp add: word_less_nat_alt)
  define way where "way = (case post of [] \<Rightarrow> False | x # _ \<Rightarrow> ve_first x < brk_pages (unat nb))"
  have way: "(if NaClVmmapIterAtEnd s (NaClVmmapIterIncr (length pre)) then Inr False
      else bindE (NaClVmmapIterStar s (NaClVmmapIterIncr (length pre))) (\<lambda>next_ent. Inr (ve_page_num next_ent \<le> ?lip))) = Inr way"
  proof (cases post)
    case Nil
    then show ?thesis using nv by (simp add: way_def NaClVmmapIterAtEnd_def NaClVmmapIterIncr_def)
  next
    case (Cons x xs)
    have "entries s ((pre @ [e]) @ x # xs)" using s(2) Cons by simp
    from entries_at [OF this] have "NaClVmmapIterStar s (Suc (length pre)) = Inr x" by (simp add: NaClVmmapIterStar_def)
    moreover have "ve_page_num x \<le> ?lip \<longleftrightarrow> ve_first x < brk_pages (unat nb)"
      using lip by (auto simp: word_le_nat_alt ve_first_def)
    ultimately show ?thesis using Cons nv by (simp add: way_def NaClVmmapIterAtEnd_def NaClVmmapIterIncr_def)
  qed
  define e' where "e' = e\<lparr>ve_npages := ?lip - ve_page_num e + 1\<rparr>"
  have run: "brk_extend nap nb =
      (if (unat nb - 1) div 4096 < ve_end e then Inr (True, nap\<lparr>mem_map := s, break_addr := nb\<rparr>)
       else if way then Inr (False, nap\<lparr>mem_map := s\<rparr>)
       else Inr (True, nap\<lparr>mem_map := vmentry_set s (length pre) e', break_addr := nb\<rparr>))"
    using s(1) at way within by (simp add: brk_extend_def Let_def e'_def)
  let ?out = "\<lambda>ok m. (if ok then \<forall>p. vm_page m p = (if (unat nb - 1) div 4096 \<ge> ve_end e \<and> ve_end e \<le> p \<and> p < brk_pages (unat nb)
                    then Some (attrs e p) else vm_page (mem_map nap) p) \<and>
               (vm_page m p \<noteq> vm_page (mem_map nap) p \<longrightarrow> vm_page (mem_map nap) p = None)
       else (\<forall>p. vm_page m p = vm_page (mem_map nap) p) \<and>
            (\<exists>p. ve_end e \<le> p \<and> p < brk_pages (unat nb) \<and> vm_page (mem_map nap) p \<noteq> None))"
  have ext: "\<exists>ok m. brk_extend nap nb = Inr (ok, if ok then nap\<lparr>mem_map := m, break_addr := nb\<rparr> else nap\<lparr>mem_map := m\<rparr>) \<and>
      wf_vmmap m \<and> ?out ok m"
  proof (cases "(unat nb - 1) div 4096 < ve_end e")
    case True
    then show ?thesis using run s(6,7) by (intro exI [of _ True] exI [of _ s]) simp
  next
    case out: False
    show ?thesis
    proof (cases way)
      case True
      then obtain x xs where x: "post = x # xs" "ve_first x < brk_pages (unat nb)" by (auto simp: way_def split: list.splits)
      have "ve_end e \<le> ve_first x" using s(4) x(1) by (simp add: ordered_def sorted_wrt_append)
      moreover have "covers x (ve_first x)" using s(3) x(1) by (auto simp: wf_entries_def wf_entry_def covers_def ve_end_def ve_first_def)
      then have "vm_page s (ve_first x) \<noteq> None" using covers_vm_page [OF s(2,3), of x "ve_first x"] x(1) by simp
      ultimately have "\<exists>p. ve_end e \<le> p \<and> p < brk_pages (unat nb) \<and> vm_page (mem_map nap) p \<noteq> None"
        using x(2) s(7) by metis
      then show ?thesis using run s(6,7) True out by (intro exI [of _ False] exI [of _ s]) simp
    next
      case False
      have far: "\<forall>x\<in>set post. brk_pages (unat nb) \<le> ve_first x"
      proof
        fix y assume y: "y \<in> set post"
        then obtain x xs where x: "post = x # xs" "brk_pages (unat nb) \<le> ve_first x" using False by (auto simp: way_def split: list.splits)
        have "ve_first x \<le> ve_first y" using s(4) x(1) y by (auto simp: ordered_def sorted_wrt_append ve_end_def ve_first_def)
        then show "brk_pages (unat nb) \<le> ve_first y" using x(2) by simp
      qed
      have le: "ve_end e \<le> brk_pages (unat nb)" "ve_first e \<le> brk_pages (unat nb) - 1" "brk_pages (unat nb) \<le> PAGE_LIMIT"
        using out new np we(1) by (simp_all add: wf_entry_def ve_end_def ve_first_def PAGE_LIMIT_def)
      have "unat (?lip - ve_page_num e) = brk_pages (unat nb) - 1 - ve_first e"
        using lip(1) le(2) unat_diff_le [of "ve_page_num e" ?lip] by (simp add: ve_first_def)
      then have "unat (?lip - ve_page_num e + 1) = brk_pages (unat nb) - ve_first e"
        using np lip(2) le(2) by (subst unat_add_no_wrap) simp_all
      from extend_entry [OF s(2-4) le(1,3) far this] s(7) run out False show ?thesis
        unfolding e'_def [symmetric] by (intro exI [of _ True] exI [of _ "vmentry_set s (length pre) e'"]) simp
    qed
  qed
  show ?thesis using ext s(5) cov by blast
qed

text \<open>The data segment is mapped up to the break.\<close>

definition data_mapped :: "sys_app \<Rightarrow> bool" where
  "data_mapped nap \<longleftrightarrow> 0 < unat (data_end nap) \<and> unat (data_end nap) \<le> unat (break_addr nap) \<and>
     unat (break_addr nap) < 2 ^ addr_bits nap \<and>
     (\<forall>p. (unat (data_end nap) - 1) div 4096 \<le> p \<and> p * 4096 < unat (break_addr nap) \<longrightarrow> vm_page (mem_map nap) p \<noteq> None)"

definition last_data_page :: "sys_app \<Rightarrow> nat" where "last_data_page nap = (unat (break_addr nap) - 1) div 4096"

lemma brk_extend_pages:
  assumes sp: "space_ok nap" and wf: "wf_vmmap (mem_map nap)" and dm: "data_mapped nap"
    and nb: "unat (break_addr nap) < unat nb" "unat nb < 2 ^ addr_bits nap"
  shows "\<exists>ok m. brk_extend nap nb = Inr (ok, if ok then nap\<lparr>mem_map := m, break_addr := nb\<rparr> else nap\<lparr>mem_map := m\<rparr>) \<and> wf_vmmap m \<and>
    (if ok then (\<forall>p. vm_page (mem_map nap) p \<noteq> None \<longrightarrow> vm_page m p = vm_page (mem_map nap) p) \<and>
         (\<forall>p. vm_page m p \<noteq> None \<longrightarrow> vm_page (mem_map nap) p \<noteq> None \<or> p < brk_pages (unat nb)) \<and>
         (\<forall>p. last_data_page nap \<le> p \<and> p * 4096 < unat nb \<longrightarrow>
            map_option no_offset (vm_page m p) = map_option no_offset (vm_page (mem_map nap) (last_data_page nap)) \<and>
            vm_page m p \<noteq> None)
     else (\<forall>p. vm_page m p = vm_page (mem_map nap) p) \<and>
         (\<exists>p. last_data_page nap < p \<and> p < brk_pages (unat nb) \<and> vm_page (mem_map nap) p \<noteq> None))"
proof -
  let ?l = "last_data_page nap"
  have br: "0 < unat (break_addr nap)" "vm_page (mem_map nap) ?l \<noteq> None"
  proof -
    show b0: "0 < unat (break_addr nap)" using dm by (simp add: data_mapped_def)
    have "unat (data_end nap) \<le> unat (break_addr nap)" using dm by (simp add: data_mapped_def)
    then have "(unat (data_end nap) - 1) div 4096 \<le> ?l" unfolding last_data_page_def by (intro div_le_mono diff_le_mono)
    moreover have "?l * 4096 < unat (break_addr nap)"
      using b0 div_times_less_eq_dividend [of "unat (break_addr nap) - 1" 4096] unfolding last_data_page_def by linarith
    ultimately show "vm_page (mem_map nap) ?l \<noteq> None" using dm by (simp add: data_mapped_def)
  qed
  obtain ok m e where r: "brk_extend nap nb = Inr (ok, if ok then nap\<lparr>mem_map := m, break_addr := nb\<rparr> else nap\<lparr>mem_map := m\<rparr>)"
    "wf_vmmap m" "covers e ?l" "\<forall>p. covers e p \<longrightarrow> vm_page (mem_map nap) p = Some (attrs e p)"
    and o: "if ok then \<forall>p. vm_page m p = (if (unat nb - 1) div 4096 \<ge> ve_end e \<and> ve_end e \<le> p \<and> p < brk_pages (unat nb)
                    then Some (attrs e p) else vm_page (mem_map nap) p) \<and>
               (vm_page m p \<noteq> vm_page (mem_map nap) p \<longrightarrow> vm_page (mem_map nap) p = None)
       else (\<forall>p. vm_page m p = vm_page (mem_map nap) p) \<and>
            (\<exists>p. ve_end e \<le> p \<and> p < brk_pages (unat nb) \<and> vm_page (mem_map nap) p \<noteq> None)"
    using brk_extend_ok [OF sp wf br(1) _ nb] br(2) unfolding last_data_page_def by blast
  have le: "ve_first e \<le> ?l" "?l < ve_end e" using r(3) by (simp_all add: covers_def)
  have no: "no_offset (attrs e p) = no_offset (attrs e q)" for p q by (simp add: no_offset_def attrs_def)
  show ?thesis
  proof (cases ok)
    case False
    then show ?thesis using r(1,2) o le by (intro exI [of _ False] exI [of _ m]) (auto intro: less_le_trans)
  next
    case True
    have "map_option no_offset (vm_page m p) = map_option no_offset (vm_page (mem_map nap) ?l) \<and> vm_page m p \<noteq> None"
      if p: "?l \<le> p" "p * 4096 < unat nb" for p
    proof -
      have p': "p \<le> (unat nb - 1) div 4096" "p < brk_pages (unat nb)"
        using p(2) brk_pages_bounds(2) [of "unat nb"] nb(1) by auto
      have "vm_page m p = Some (attrs e p)"
      proof (cases "p < ve_end e")
        case True
        then have c: "covers e p" using le p(1) by (simp add: covers_def)
        then show ?thesis using o \<open>ok\<close> r(4) by force
      next
        case False
        then show ?thesis using o \<open>ok\<close> p' by auto
      qed
      then show ?thesis using r(3,4) no by auto
    qed
    moreover have "vm_page m p \<noteq> None \<longrightarrow> vm_page (mem_map nap) p \<noteq> None \<or> p < brk_pages (unat nb)" for p
      using o True by (auto split: if_splits)
    moreover have "vm_page (mem_map nap) p \<noteq> None \<longrightarrow> vm_page m p = vm_page (mem_map nap) p" for p
      using o True by metis
    ultimately show ?thesis using r(1,2) True by (intro exI [of _ True] exI [of _ m]) simp
  qed
qed

lemma sys_new_break_greater:
  assumes "space_ok nap" "unat (break_addr nap) < unat nb" "unat nb < 2 ^ addr_bits nap"
  shows "nb + mem_start nap > break_addr nap + mem_start nap"
    "nb + mem_start nap - (break_addr nap + mem_start nap) = nb - break_addr nap"
  using sys_addr(1) [OF assms(1), of nb] sys_addr(1) [OF assms(1), of "break_addr nap"] assms(2,3)
  by (simp_all add: word_less_nat_alt)

lemma brk_text_kept:
  assumes "sys_inv nap M" "wf_vmmap m" "\<forall>p. vm_page (mem_map nap) p \<noteq> None \<longrightarrow> vm_page m p \<noteq> None"
  shows "sys_inv (nap\<lparr>mem_map := m\<rparr>) M" "sys_inv (nap\<lparr>mem_map := m, break_addr := b\<rparr>) M"
    "sys_inv (nap\<lparr>mem_map := m, break_addr := b, memory := mm\<rparr>) M"
  using assms by (auto simp: sys_inv_def space_ok_def)

section \<open>The properties\<close>

text \<open>C24: Releasing a region does nothing but return the error unless it is a region of whole
  allocation pages of the program, above its code; it stops the process exactly when an operation in
  flight touches the region; otherwise it unmaps exactly the pages of the region, clears exactly their
  bytes, and succeeds.\<close>

theorem munmap_exact:
  assumes "sys_inv nap M"
  shows "if \<not> 65536 dvd unat start \<or> region_len len = 0 then NaClSysMunmap (\<lambda>_. True) nap start len = Inr (- NACL_ABI_EINVAL, nap)
    else if \<not> user_region nap (unat start) (region_len len) then NaClSysMunmap (\<lambda>_. True) nap start len = Inr (- NACL_ABI_EFAULT, nap)
    else if unat start < unat (dynamic_text_end nap) then NaClSysMunmap (\<lambda>_. True) nap start len = Inr (- NACL_ABI_EINVAL, nap)
    else if io_touches M (unat start) (region_len len) then NaClSysMunmap (\<lambda>_. True) nap start len = Inl LogFatal
    else \<exists>nap'. NaClSysMunmap (\<lambda>_. True) nap start len = Inr (0, nap') \<and> sys_inv nap' M \<and>
      (\<forall>p. vm_page (mem_map nap') p = (if unat start \<le> p * 4096 \<and> p * 4096 < unat start + region_len len then None
                                       else vm_page (mem_map nap) p)) \<and>
      (\<forall>x. memory nap' x = (if x - (mem_start nap + ucast start) < of_nat (region_len len) then 0 else memory nap x))"
proof -
  have r: "unat (of_nat (region_len len) :: u64) = region_len len"
    by (simp add: region_len_def unat_of_nat take_bit_nat_eq_self mod_less_divisor less_trans)
  have run: "\<exists>nap'. NaClSysMunmap (\<lambda>_. True) nap start len = Inr (0, nap') \<and> sys_inv nap' M \<and>
      (\<forall>p. vm_page (mem_map nap') p = (if unat start \<le> p * 4096 \<and> p * 4096 < unat start + region_len len then None
                                       else vm_page (mem_map nap) p)) \<and>
      (\<forall>x. memory nap' x = (if x - (mem_start nap + ucast start) < of_nat (region_len len) then 0 else memory nap x))"
    if c: "65536 dvd unat start" "region_len len \<noteq> 0" "user_region nap (unat start) (region_len len)"
      "\<not> unat start < unat (dynamic_text_end nap)" "\<not> io_touches M (unat start) (region_len len)"
  proof -
    have "65536 dvd region_len len" unfolding region_len_def by (intro dvd_mod alloc_len_bounds(2)) simp
    then have d: "4096 dvd unat (ucast start :: u64)" "4096 dvd unat (of_nat (region_len len) :: u64)"
      using c(1) unfolding r by (auto elim!: dvdE)
    obtain m where m: "MunmapInternal (\<lambda>_. True) nap (ucast start + mem_start nap) (of_nat (region_len len)) =
        Inr (0, nap\<lparr>memory := zero_bytes (ucast start + mem_start nap) (of_nat (region_len len)) (memory nap), mem_map := m\<rparr>)"
      "wf_vmmap m" "\<forall>p. vm_page m p = (if unat start \<le> p * 4096 \<and> p * 4096 < unat start + region_len len then None
         else vm_page (mem_map nap) p)"
      using MunmapInternal_ok [OF assms d] c unfolding r user_region_def by auto
    obtain q where "q * 4096 < unat (dynamic_text_end nap)" "vm_page (mem_map nap) q \<noteq> None"
      using assms by (auto simp: sys_inv_def)
    then have "q * 4096 < unat (dynamic_text_end nap) \<and> vm_page m q \<noteq> None" using m(3) c(4) by simp
    then have "sys_inv (nap\<lparr>memory := zero_bytes (ucast start + mem_start nap) (of_nat (region_len len)) (memory nap), mem_map := m\<rparr>) M"
      using assms m(2) by (auto simp: sys_inv_def space_ok_def)
    moreover have "NaClSysMunmap (\<lambda>_. True) nap start len =
        Inr (0, nap\<lparr>memory := zero_bytes (ucast start + mem_start nap) (of_nat (region_len len)) (memory nap), mem_map := m\<rparr>)"
      using c m(1) by (simp add: NaClSysMunmap_eq [OF assms])
    ultimately show ?thesis using m(3)
      by (intro exI [of _ "nap\<lparr>memory := zero_bytes (ucast start + mem_start nap) (of_nat (region_len len)) (memory nap), mem_map := m\<rparr>"])
        (simp add: zero_bytes_def add.commute)
  qed
  show ?thesis using run NaClSysMunmap_eq [OF assms, of "\<lambda>_. True" start len] by simp
qed

lemma sample_inv: "sys_inv sample_app {#}" "data_mapped sample_app"
proof -
  have "16 * 4096 < unat (dynamic_text_end sample_app) \<and> vm_page (mem_map sample_app) 16 \<noteq> None"
    by (simp add: sample_app_def sample_pages)
  moreover have "mem_map sample_app = sample_map" "mem_io_regions sample_app = NaClIntervalRangeTreeCtor"
    by (simp_all add: sample_app_def)
  ultimately show "sys_inv sample_app {#}" unfolding sys_inv_def using sample_space wf_sample_map io_none by metis
  show "data_mapped sample_app" by (auto simp: data_mapped_def sample_app_def sample_pages)
qed

theorem munmap_exact_witness:
  "\<exists>nap'. NaClSysMunmap (\<lambda>_. True) sample_app 0x40000 0x8000 = Inr (0, nap') \<and> sys_inv nap' {#} \<and>
     vm_page (mem_map nap') 79 = None \<and> memory nap' 0x7f0000040000 = 0 \<and> memory nap' 0x7f0000050000 = 7"
proof -
  have l: "region_len 0x8000 = 65536" by (simp add: region_len_def alloc_len_def round_up_def)
  have g: "65536 dvd unat (0x40000 :: u32)" "user_region sample_app (unat (0x40000 :: u32)) 65536"
    "\<not> unat (0x40000 :: u32) < unat (dynamic_text_end sample_app)" "\<not> io_touches {#} (unat (0x40000 :: u32)) 65536"
    by (simp_all add: user_region_def sample_app_def io_touches_def)
  obtain nap' where n: "NaClSysMunmap (\<lambda>_. True) sample_app 0x40000 0x8000 = Inr (0, nap')" "sys_inv nap' {#}"
      "\<forall>p. vm_page (mem_map nap') p = (if unat (0x40000 :: u32) \<le> p * 4096 \<and> p * 4096 < unat (0x40000 :: u32) + 65536 then None
                                       else vm_page (mem_map sample_app) p)"
      "\<forall>x. memory nap' x = (if x - (mem_start sample_app + ucast (0x40000 :: u32)) < of_nat 65536 then 0 else memory sample_app x)"
    using munmap_exact [OF sample_inv(1), of "0x40000" "0x8000"] g unfolding l by auto
  have "memory nap' 0x7f0000040000 = 0" "memory nap' 0x7f0000050000 = 7"
    using n(4) by (simp_all add: sample_app_def)
  moreover have "vm_page (mem_map nap') 79 = None" using n(3) by simp
  ultimately show ?thesis using n(1,2) by blast
qed

text \<open>C25: Changing the protection does nothing but return the error unless the region is one of whole
  allocation pages of the program, above its code, and asks for reading and writing at most. It
  succeeds exactly if every page of the region is mapped and its descriptor allows the protection;
  then the map records it for exactly these pages. The memory itself is left as it is: inside the
  enclave the new protection is not enforced.\<close>

theorem mprotect_exact:
  assumes "sys_inv nap M" "legal_flags GetFlags" "0 < unat len" "unat len \<le> 2 ^ 32"
  shows "if \<not> 65536 dvd unat start then NaClSysMprotect (\<lambda>_. True) GetFlags nap start len prot = Inr (- NACL_ABI_EINVAL, nap)
    else if \<not> user_region nap (unat start) (alloc_len (unat len))
    then NaClSysMprotect (\<lambda>_. True) GetFlags nap start len prot = Inr (- NACL_ABI_EFAULT, nap)
    else if 0 \<noteq> NOT (NACL_ABI_PROT_READ OR NACL_ABI_PROT_WRITE) AND prot \<or> unat start < unat (dynamic_text_end nap)
    then NaClSysMprotect (\<lambda>_. True) GetFlags nap start len prot = Inr (- NACL_ABI_EACCES, nap)
    else \<exists>ok m. NaClSysMprotect (\<lambda>_. True) GetFlags nap start len prot =
        (if \<not> ok then Inr (- NACL_ABI_EACCES, nap\<lparr>mem_map := m\<rparr>)
         else if io_touches M (unat start) (alloc_len (unat len)) then Inl LogFatal
         else Inr (0, nap\<lparr>mem_map := m\<rparr>)) \<and> sys_inv (nap\<lparr>mem_map := m\<rparr>) M \<and>
      (ok \<longleftrightarrow> (\<forall>p. unat start \<le> p * 4096 \<and> p * 4096 < unat start + alloc_len (unat len) \<longrightarrow>
         (\<exists>at. vm_page (mem_map nap) p = Some at \<and> prot_allowed GetFlags prot at))) \<and>
      (\<forall>p. if ok \<and> unat start \<le> p * 4096 \<and> p * 4096 < unat start + alloc_len (unat len)
           then map_option no_offset (vm_page m p) = map_option (no_offset \<circ> set_prot prot) (vm_page (mem_map nap) p)
           else vm_page m p = vm_page (mem_map nap) p)"
proof -
  let ?n = "NaClRoundAllocPage len" and ?L = "alloc_len (unat len)"
  have n: "unat ?n = ?L" by (rule unat_round_alloc [OF assms(4)])
  have n0: "0 < ?L" using assms(3) alloc_len_bounds(1) [of "unat len"] by simp
  have run: "\<exists>ok m. NaClSysMprotect (\<lambda>_. True) GetFlags nap start len prot =
        (if \<not> ok then Inr (- NACL_ABI_EACCES, nap\<lparr>mem_map := m\<rparr>)
         else if io_touches M (unat start) ?L then Inl LogFatal else Inr (0, nap\<lparr>mem_map := m\<rparr>)) \<and>
      sys_inv (nap\<lparr>mem_map := m\<rparr>) M \<and>
      (ok \<longleftrightarrow> (\<forall>p. unat start \<le> p * 4096 \<and> p * 4096 < unat start + ?L \<longrightarrow>
         (\<exists>at. vm_page (mem_map nap) p = Some at \<and> prot_allowed GetFlags prot at))) \<and>
      (\<forall>p. if ok \<and> unat start \<le> p * 4096 \<and> p * 4096 < unat start + ?L
           then map_option no_offset (vm_page m p) = map_option (no_offset \<circ> set_prot prot) (vm_page (mem_map nap) p)
           else vm_page m p = vm_page (mem_map nap) p)"
    if c: "65536 dvd unat start" "user_region nap (unat start) ?L"
      "\<not> (0 \<noteq> NOT (NACL_ABI_PROT_READ OR NACL_ABI_PROT_WRITE) AND prot \<or> unat start < unat (dynamic_text_end nap))"
  proof -
    have d: "65536 dvd unat (ucast start :: u64)" "65536 dvd unat ?n" "0 < unat ?n" "unat (ucast start :: u64) + unat ?n \<le> 2 ^ addr_bits nap"
      using c(1,2) n0 alloc_len_bounds(2) [of "unat len"] unfolding n by (simp_all add: user_region_def)
    obtain ok m where m: "NaClVmmapChangeProt (\<lambda>_. True) GetFlags (mem_map nap) (drop_bit NACL_PAGESHIFT (ucast start))
        (drop_bit NACL_PAGESHIFT ?n) prot = Inr (ok, m)" "wf_vmmap m"
      and p: "ok \<longleftrightarrow> (\<forall>p. unat start \<le> p * 4096 \<and> p * 4096 < unat start + ?L \<longrightarrow>
         (\<exists>at. vm_page (mem_map nap) p = Some at \<and> prot_allowed GetFlags prot at))"
        "\<forall>p. if ok \<and> unat start \<le> p * 4096 \<and> p * 4096 < unat start + ?L
           then map_option no_offset (vm_page m p) = map_option (no_offset \<circ> set_prot prot) (vm_page (mem_map nap) p)
           else vm_page m p = vm_page (mem_map nap) p"
      using MprotectInternal_region [OF assms(1) d assms(2), of prot] unfolding n unat_ucast_64 by blast
    have "vm_page (mem_map nap) q \<noteq> None \<longrightarrow> vm_page m q \<noteq> None" for q
      using p(2) by (metis option.map_disc_iff)
    then have "sys_inv (nap\<lparr>mem_map := m\<rparr>) M" using brk_text_kept(1) [OF assms(1) m(2)] by blast
    moreover have "NaClSysMprotect (\<lambda>_. True) GetFlags nap start len prot =
        (if \<not> ok then Inr (- NACL_ABI_EACCES, nap\<lparr>mem_map := m\<rparr>)
         else if io_touches M (unat start) ?L then Inl LogFatal else Inr (0, nap\<lparr>mem_map := m\<rparr>))"
      using NaClSysMprotect_eq [OF assms(1,3,4), of "\<lambda>_. True" GetFlags start prot] c m(1) by simp
    ultimately show ?thesis using p by blast
  qed
  show ?thesis
    using run NaClSysMprotect_eq [OF assms(1,3,4), of "\<lambda>_. True" GetFlags start prot] by (auto simp del: split_paired_Ex split_paired_All)
qed

theorem mprotect_exact_witness:
  "\<exists>m. NaClSysMprotect (\<lambda>_. True) sample_GetFlags sample_app 0x40000 1 NACL_ABI_PROT_READ = Inr (0, sample_app\<lparr>mem_map := m\<rparr>) \<and>
     map_option no_offset (vm_page m 64) = Some (NACL_ABI_PROT_READ, NACL_ABI_MAP_PRIVATE, None, 0, 0)"
proof -
  have l: "alloc_len (unat (1 :: u64)) = 65536" by (simp add: alloc_len_def round_up_def)
  have u: "unat (0x40000 :: u32) = 262144" by simp
  have g: "65536 dvd (262144 :: nat)" "user_region sample_app 262144 65536"
    "\<not> (0 \<noteq> NOT (NACL_ABI_PROT_READ OR NACL_ABI_PROT_WRITE) AND NACL_ABI_PROT_READ \<or> 262144 < unat (dynamic_text_end sample_app))"
    by (simp_all add: user_region_def sample_app_def prot_consts)
  have mm: "mem_map sample_app = sample_map" by (simp add: sample_app_def)
  obtain ok m where r: "NaClSysMprotect (\<lambda>_. True) sample_GetFlags sample_app 0x40000 1 NACL_ABI_PROT_READ =
        (if \<not> ok then Inr (- NACL_ABI_EACCES, sample_app\<lparr>mem_map := m\<rparr>)
         else if io_touches {#} 262144 65536 then Inl LogFatal else Inr (0, sample_app\<lparr>mem_map := m\<rparr>))"
      "ok \<longleftrightarrow> (\<forall>p. 262144 \<le> p * 4096 \<and> p * 4096 < 262144 + 65536 \<longrightarrow>
         (\<exists>at. vm_page sample_map p = Some at \<and> prot_allowed sample_GetFlags NACL_ABI_PROT_READ at))"
      "\<forall>p. if ok \<and> 262144 \<le> p * 4096 \<and> p * 4096 < 262144 + 65536
           then map_option no_offset (vm_page m p) = map_option (no_offset \<circ> set_prot NACL_ABI_PROT_READ) (vm_page sample_map p)
           else vm_page m p = vm_page sample_map p"
    using mprotect_exact [OF sample_inv(1) legal_sample_flags, of 1 "0x40000" NACL_ABI_PROT_READ] g
    unfolding l u mm by (auto simp del: split_paired_Ex split_paired_All)
  have ok: ok unfolding r(2) by (auto simp: sample_pages prot_allowed_def attrs_max_prot_def prot_consts map_consts)
  have "map_option no_offset (vm_page m 64) = Some (NACL_ABI_PROT_READ, NACL_ABI_MAP_PRIVATE, None, 0, 0)"
    using spec [OF r(3), of 64] ok by (simp add: sample_pages no_offset_def set_prot_def)
  moreover have "NaClSysMprotect (\<lambda>_. True) sample_GetFlags sample_app 0x40000 1 NACL_ABI_PROT_READ = Inr (0, sample_app\<lparr>mem_map := m\<rparr>)"
    using r(1) ok by (simp add: io_touches_def)
  ultimately show ?thesis by blast
qed

text \<open>C26: Moving the end of the data segment: a break outside the space or below the data leaves
  everything as it is; a lower one only moves the break; a higher one makes every page up to it a
  page like the last one, keeps all others, and clears exactly the bytes between the old and the new
  break, unless another region is in the way, when nothing changes. The data segment stays mapped up to
  the break, so the next call finds it.\<close>

theorem brk_moves_data_end:
  assumes "sys_inv nap M" "data_mapped nap"
  shows "\<exists>r nap'. NaClSysBrk True nap nb = Inr (r, nap') \<and> sys_inv nap' M \<and> data_mapped nap' \<and>
    (if pnacl_mode nap then r = - NACL_ABI_ENOSYS \<and> nap' = nap
     else if nb = 0 \<or> 2 ^ addr_bits nap \<le> unat nb \<or> unat nb < unat (data_end nap) then r = ucast (break_addr nap) \<and> nap' = nap
     else if unat nb \<le> unat (break_addr nap) then r = ucast nb \<and> nap' = nap\<lparr>break_addr := nb\<rparr>
     else \<exists>ok. r = ucast (if ok then nb else break_addr nap) \<and> break_addr nap' = (if ok then nb else break_addr nap) \<and>
       (\<forall>x. memory nap' x = (if ok \<and> x - (break_addr nap + mem_start nap) < nb - break_addr nap then 0 else memory nap x)) \<and>
       (if ok then (\<forall>p. vm_page (mem_map nap) p \<noteq> None \<longrightarrow> vm_page (mem_map nap') p = vm_page (mem_map nap) p) \<and>
           (\<forall>p. vm_page (mem_map nap') p \<noteq> None \<longrightarrow> vm_page (mem_map nap) p \<noteq> None \<or> p < brk_pages (unat nb)) \<and>
           (\<forall>p. last_data_page nap \<le> p \<and> p * 4096 < unat nb \<longrightarrow>
              map_option no_offset (vm_page (mem_map nap') p) = map_option no_offset (vm_page (mem_map nap) (last_data_page nap)) \<and>
              vm_page (mem_map nap') p \<noteq> None)
        else (\<forall>p. vm_page (mem_map nap') p = vm_page (mem_map nap) p) \<and>
           (\<exists>p. last_data_page nap < p \<and> p < brk_pages (unat nb) \<and> vm_page (mem_map nap) p \<noteq> None)))"
proof -
  have sp: "space_ok nap" and wf: "wf_vmmap (mem_map nap)" using assms(1) by (simp_all add: sys_inv_def)
  have lim: "unat (push_bit (addr_bits nap) 1 :: u64) = 2 ^ addr_bits nap" by (rule unat_limit [OF sp])
  have bad: "kNaClBadAddress = NaClUserToSysAddr nap nb \<longleftrightarrow> nb = 0 \<or> 2 ^ addr_bits nap \<le> unat nb"
    using sys_addr(2) [OF sp, of nb] lim by (auto simp: NaClUserToSysAddr_def word_le_nat_alt)
  consider "pnacl_mode nap" | "\<not> pnacl_mode nap" "nb = 0 \<or> 2 ^ addr_bits nap \<le> unat nb \<or> unat nb < unat (data_end nap)"
    | "\<not> pnacl_mode nap" "nb \<noteq> 0" "unat nb < 2 ^ addr_bits nap" "unat (data_end nap) \<le> unat nb" "unat nb \<le> unat (break_addr nap)"
    | "\<not> pnacl_mode nap" "nb \<noteq> 0" "unat nb < 2 ^ addr_bits nap" "unat (data_end nap) \<le> unat nb" "unat (break_addr nap) < unat nb"
    by linarith
  then show ?thesis
  proof cases
    case 1
    then show ?thesis using assms by (simp add: NaClSysBrk_def)
  next
    case 2
    then have "NaClSysBrk True nap nb = Inr (ucast (break_addr nap), nap)"
      using bad by (auto simp: NaClSysBrk_def Let_def word_less_nat_alt)
    then show ?thesis using 2 assms by simp
  next
    case 3
    have "NaClSysBrk True nap nb = Inr (ucast nb, nap\<lparr>break_addr := nb\<rparr>)"
      using 3 bad by (simp add: NaClSysBrk_def Let_def word_less_nat_alt word_le_nat_alt)
    moreover have "sys_inv (nap\<lparr>break_addr := nb\<rparr>) M" using assms(1) by (simp add: sys_inv_def space_ok_def)
    moreover have "data_mapped (nap\<lparr>break_addr := nb\<rparr>)" using assms(2) 3 by (simp add: data_mapped_def)
    ultimately show ?thesis using 3 by simp
  next
    case 4
    obtain ok m where e: "brk_extend nap nb = Inr (ok, if ok then nap\<lparr>mem_map := m, break_addr := nb\<rparr> else nap\<lparr>mem_map := m\<rparr>)"
      "wf_vmmap m" and o: "if ok then (\<forall>p. vm_page (mem_map nap) p \<noteq> None \<longrightarrow> vm_page m p = vm_page (mem_map nap) p) \<and>
         (\<forall>p. vm_page m p \<noteq> None \<longrightarrow> vm_page (mem_map nap) p \<noteq> None \<or> p < brk_pages (unat nb)) \<and>
         (\<forall>p. last_data_page nap \<le> p \<and> p * 4096 < unat nb \<longrightarrow>
            map_option no_offset (vm_page m p) = map_option no_offset (vm_page (mem_map nap) (last_data_page nap)) \<and>
            vm_page m p \<noteq> None)
       else (\<forall>p. vm_page m p = vm_page (mem_map nap) p) \<and>
         (\<exists>p. last_data_page nap < p \<and> p < brk_pages (unat nb) \<and> vm_page (mem_map nap) p \<noteq> None)"
      using brk_extend_pages [OF sp wf assms(2) 4(5,3)] by blast
    have us: "NaClUserToSys nap (break_addr nap) = Inr (break_addr nap + mem_start nap)"
      using assms(2) lim by (auto simp: NaClUserToSys_def data_mapped_def word_le_nat_alt)
    have sys: "NaClUserToSysAddr nap nb = nb + mem_start nap"
      using 4 lim by (simp add: NaClUserToSysAddr_def word_le_nat_alt)
    define nap' where "nap' = (if ok then nap\<lparr>mem_map := m, break_addr := nb,
        memory := zero_bytes (break_addr nap + mem_start nap) (nb - break_addr nap) (memory nap)\<rparr> else nap\<lparr>mem_map := m\<rparr>)"
    have run: "NaClSysBrk True nap nb = Inr (ucast (if ok then nb else break_addr nap), nap')"
      using 4 bad us e(1) sys_new_break_greater [OF sp 4(5,3)] sys
      by (simp add: NaClSysBrk_def Let_def word_less_nat_alt word_le_nat_alt nap'_def)
    have kept: "\<forall>p. vm_page (mem_map nap) p \<noteq> None \<longrightarrow> vm_page m p \<noteq> None" using o by (auto split: if_splits)
    have "sys_inv nap' M" using brk_text_kept [OF assms(1) e(2) kept] by (simp add: nap'_def)
    moreover have "data_mapped nap'"
    proof (cases ok)
      case True
      have "vm_page m p \<noteq> None" if p: "(unat (data_end nap) - 1) div 4096 \<le> p" "p * 4096 < unat nb" for p
      proof (cases "p * 4096 < unat (break_addr nap)")
        case True
        then show ?thesis using assms(2) p(1) kept by (simp add: data_mapped_def)
      next
        case False
        then have "last_data_page nap \<le> p" unfolding last_data_page_def by (intro div_le_mono [of _ "p * 4096" 4096, simplified]) simp
        then show ?thesis using o True p(2) \<open>ok\<close> by simp
      qed
      then show ?thesis using True assms(2) 4 by (simp add: data_mapped_def nap'_def)
    next
      case False
      then show ?thesis using assms(2) o by (simp add: data_mapped_def nap'_def)
    qed
    moreover have "break_addr nap' = (if ok then nb else break_addr nap)"
      "\<forall>x. memory nap' x = (if ok \<and> x - (break_addr nap + mem_start nap) < nb - break_addr nap then 0 else memory nap x)"
      "mem_map nap' = m"
      by (simp_all add: nap'_def zero_bytes_def)
    moreover have c: "\<not> pnacl_mode nap" "\<not> (nb = 0 \<or> 2 ^ addr_bits nap \<le> unat nb \<or> unat nb < unat (data_end nap))"
      "\<not> unat nb \<le> unat (break_addr nap)" using 4 by simp_all
    ultimately show ?thesis unfolding if_not_P [OF c(1)] if_not_P [OF c(2)] if_not_P [OF c(3)] using run o
      by (intro exI [of _ "ucast (if ok then nb else break_addr nap)"] exI [of _ nap'] exI [of _ ok] conjI; blast)
  qed
qed

theorem brk_moves_data_end_witness:
  "\<exists>nap'. NaClSysBrk True sample_app 0x50001 = Inr (0x50001, nap') \<and> vm_page (mem_map nap') 80 \<noteq> None \<and>
     memory nap' 0x7f0000050000 = 0 \<and> memory nap' 0x7f0000050001 = 7"
proof -
  have b: "brk_pages (unat (0x50001 :: u64)) = 96" by (simp add: brk_pages_def alloc_len_def round_up_def)
  have l: "last_data_page sample_app = 79" by (simp add: last_data_page_def sample_app_def)
  have c: "\<not> pnacl_mode sample_app" "\<not> ((0x50001 :: u64) = 0 \<or> 2 ^ addr_bits sample_app \<le> unat (0x50001 :: u64) \<or>
      unat (0x50001 :: u64) < unat (data_end sample_app))" "\<not> unat (0x50001 :: u64) \<le> unat (break_addr sample_app)"
    by (simp_all add: sample_app_def)
  have m: "mem_map sample_app = sample_map" by (simp add: sample_app_def)
  obtain r nap' ok where r: "NaClSysBrk True sample_app 0x50001 = Inr (r, nap')"
      "r = ucast (if ok then 0x50001 else break_addr sample_app)"
      "\<forall>x. memory nap' x = (if ok \<and> x - (break_addr sample_app + mem_start sample_app) < 0x50001 - break_addr sample_app
         then 0 else memory sample_app x)"
    and o: "if ok then (\<forall>p. vm_page sample_map p \<noteq> None \<longrightarrow> vm_page (mem_map nap') p = vm_page sample_map p) \<and>
           (\<forall>p. vm_page (mem_map nap') p \<noteq> None \<longrightarrow> vm_page sample_map p \<noteq> None \<or> p < 96) \<and>
           (\<forall>p. 79 \<le> p \<and> p * 4096 < unat (0x50001 :: u64) \<longrightarrow>
              map_option no_offset (vm_page (mem_map nap') p) = map_option no_offset (vm_page sample_map 79) \<and>
              vm_page (mem_map nap') p \<noteq> None)
        else (\<forall>p. vm_page (mem_map nap') p = vm_page sample_map p) \<and>
           (\<exists>p. 79 < p \<and> p < 96 \<and> vm_page sample_map p \<noteq> None)"
    using brk_moves_data_end [OF sample_inv, of "0x50001"] unfolding if_not_P [OF c(1)] if_not_P [OF c(2)] if_not_P [OF c(3)] b l m
    by (elim exE conjE) (rule that)
  have ok: ok using o unfolding sample_page by (auto split: if_splits)
  have "vm_page (mem_map nap') 80 \<noteq> None" using o ok by simp
  moreover have "memory nap' 0x7f0000050000 = 0" "memory nap' 0x7f0000050001 = 7"
    using r(3) ok by (simp_all add: sample_app_def)
  ultimately show ?thesis using r(1,2) ok by simp
qed

end
