(* ===== verification/Bytes.thy ===== *)
theory Bytes
  imports Prelude
begin

text \<open>
  Words and their bytes, lowest first, and bytes in memory: what the copies of the program
  (\<open>memcpy\<close> of a word into a buffer, or out of it) do.
\<close>

definition bytes_of :: "'a::len word \<Rightarrow> u8 list" where
  "bytes_of w = map (\<lambda>i. ucast (drop_bit (8 * i) w)) [0..<LENGTH('a) div 8]"

definition of_bytes :: "u8 list \<Rightarrow> 'a::len word" where
  "of_bytes bs = foldr (\<lambda>b w. ucast b OR push_bit 8 w) bs 0"

definition store_bytes :: "u64 \<Rightarrow> u8 list \<Rightarrow> (u64 \<Rightarrow> u8) \<Rightarrow> u64 \<Rightarrow> u8" where
  "store_bytes a bs m x = (if unat (x - a) < length bs then bs ! unat (x - a) else m x)"

definition load_bytes :: "u64 \<Rightarrow> nat \<Rightarrow> (u64 \<Rightarrow> u8) \<Rightarrow> u8 list" where
  "load_bytes a n m = map (\<lambda>i. m (a + of_nat i)) [0..<n]"

lemma bit_of_bytes:
  "bit (of_bytes bs :: 'a::len word) k \<longleftrightarrow> k < LENGTH('a) \<and> k div 8 < length bs \<and> bit (bs ! (k div 8)) (k mod 8)"
proof (induction bs arbitrary: k)
  case Nil
  then show ?case by (simp add: of_bytes_def)
next
  case (Cons b bs)
  have "bit (of_bytes (b # bs) :: 'a word) k \<longleftrightarrow> bit (ucast b OR push_bit 8 (of_bytes bs) :: 'a word) k"
    by (simp add: of_bytes_def)
  also have "\<dots> \<longleftrightarrow> k < LENGTH('a) \<and> (if k < 8 then bit b k else bit (of_bytes bs :: 'a word) (k - 8))"
    by (auto simp: bit_simps dest: bit_imp_le_length)
  also have "\<dots> \<longleftrightarrow> k < LENGTH('a) \<and> k div 8 < length (b # bs) \<and> bit ((b # bs) ! (k div 8)) (k mod 8)"
  proof (cases "k < 8")
    case False
    then have "k div 8 = Suc ((k - 8) div 8)" "k mod 8 = (k - 8) mod 8"
      by (simp_all add: le_div_geq le_mod_geq)
    then show ?thesis using False by (auto simp: Cons.IH)
  qed simp
  finally show ?case .
qed

lemma length_bytes_of [simp]: "length (bytes_of (w :: 'a::len word)) = LENGTH('a) div 8"
  by (simp add: bytes_of_def)

lemma of_bytes_bytes_of [simp]:
  fixes w :: "'a::len word"
  assumes "8 dvd LENGTH('a)"
  shows "of_bytes (bytes_of w) = w"
proof (rule bit_word_eqI)
  fix k assume k: "k < LENGTH('a)"
  have "k div 8 < LENGTH('a) div 8" using k assms by (simp add: div_less_iff_less_mult)
  moreover from this have "bytes_of w ! (k div 8) = ucast (drop_bit (8 * (k div 8)) w)"
    by (simp add: bytes_of_def)
  ultimately show "bit (of_bytes (bytes_of w) :: 'a word) k = bit w k" using k
    by (simp add: bit_of_bytes bit_simps)
qed

lemma load_store: "length bs = n \<Longrightarrow> n < 2 ^ 64 \<Longrightarrow> load_bytes a n (store_bytes a bs m) = bs"
  by (rule nth_equalityI) (simp_all add: load_bytes_def store_bytes_def unat_of_nat take_bit_nat_eq_self)

lemma load_bytes_cong: "(\<And>i. i < n \<Longrightarrow> m (a + of_nat i) = m' (a + of_nat i)) \<Longrightarrow> load_bytes a n m = load_bytes a n m'"
  by (simp add: load_bytes_def)

end
