(* ===== verification/UserCopy.thy ===== *)
theory UserCopy
  imports AddrSpace Bytes
begin

text \<open>
  Copies between the memory of the sandboxed program and the runtime (\<open>service_runtime/nacl_copy.c\<close>).
  A buffer of the runtime is a list of bytes. The copy that fails returns no bytes. The locks around
  the copies keep the mapping in place; each copy is one step.
\<close>

definition NaClCopyInFromUser :: "sys_app \<Rightarrow> u64 \<Rightarrow> u64 \<Rightarrow> u8 list option" where
  "NaClCopyInFromUser nap src_usr_addr num_bytes =
     (let src_sys_addr = NaClUserToSysAddrRange nap src_usr_addr num_bytes in
      if kNaClBadAddress = src_sys_addr then None
      else Some (load_bytes src_sys_addr (unat num_bytes) (memory nap)))"

definition NaClCopyInFromUserAndDropLock :: "sys_app \<Rightarrow> u64 \<Rightarrow> u64 \<Rightarrow> u8 list option" where
  "NaClCopyInFromUserAndDropLock nap src_usr_addr num_bytes =
     (let src_sys_addr = NaClUserToSysAddrRange nap src_usr_addr num_bytes in
      if kNaClBadAddress = src_sys_addr then None
      else Some (load_bytes src_sys_addr (unat num_bytes) (memory nap)))"

text \<open>\<open>strncpy\<close>: the bytes before the first zero, and zeros for the rest of the buffer.\<close>

definition strncpy :: "u64 \<Rightarrow> nat \<Rightarrow> (u64 \<Rightarrow> u8) \<Rightarrow> u8 list" where
  "strncpy src n m = (let s = takeWhile (\<lambda>b. b \<noteq> 0) (load_bytes src n m) in s @ replicate (n - length s) 0)"

definition NaClCopyInFromUserZStr :: "sys_app \<Rightarrow> u8 list \<Rightarrow> u64 \<Rightarrow> (bool \<times> u8 list) run" where
  "NaClCopyInFromUserZStr nap dst_buffer src_usr_addr =
     guardE CheckFailed (0 < length dst_buffer)
       (let src_sys_addr = NaClUserToSysAddr nap src_usr_addr in
        if kNaClBadAddress = src_sys_addr then Inr (False, dst_buffer[0 := 0])
        else
          let dst_buffer = strncpy src_sys_addr (length dst_buffer) (memory nap) in
          if dst_buffer ! (length dst_buffer - 1) \<noteq> 0
          then Inr (False, dst_buffer[length dst_buffer - 1 := 0])
          else Inr (True, dst_buffer))"

definition NaClCopyOutToUser :: "sys_app \<Rightarrow> u64 \<Rightarrow> u8 list \<Rightarrow> bool \<times> sys_app" where
  "NaClCopyOutToUser nap dst_usr_addr bs =
     (let dst_sys_addr = NaClUserToSysAddrRange nap dst_usr_addr (of_nat (length bs)) in
      if kNaClBadAddress = dst_sys_addr then (False, nap)
      else (True, nap\<lparr>memory := store_bytes dst_sys_addr bs (memory nap)\<rparr>))"

end
