(* ===== verification/Enclave.thy ===== *)
theory Enclave
  imports Bytes
begin

text \<open>
  The boundary between the enclave and its untrusted host (\<open>trusted/xcall/enclave_framework.c\<close>):
  one flat address space, of which the range from \<open>enclave_base\<close> to \<open>enclave_top\<close>
  belongs to the enclave, and a second stack in untrusted memory on which the arguments of a call out
  of the enclave are built.

  The host is a parameter. It answers a call from the untrusted memory alone, and it may rewrite the
  untrusted memory whenever the enclave is about to read from it (\<open>h_tamper\<close>), since its other
  threads run at the same time; enclave memory it can neither read nor write, which is what the
  processor guarantees. A signed C integer has the bits of its word. Addresses of the enclave's own
  objects are parameters of the wrappers; an object that does not escape is a value of the model.
\<close>

section \<open>The machine\<close>

datatype ocall_code =
    OCALL_ALLOC_UNTRUSTED | OCALL_MMAP_UNTRUSTED | OCALL_UNMAP_UNTRUSTED | OCALL_MPROTECT
    | OCALL_OPEN | OCALL_CLOSE | OCALL_READ | OCALL_WRITE | OCALL_STAT | OCALL_LSTAT | OCALL_FSTAT
    | OCALL_STAT64 | OCALL_LSTAT64 | OCALL_FSTAT64 | OCALL_FSETNONBLOCK | OCALL_FCHMOD
    | OCALL_FCHDIR | OCALL_FSYNC | OCALL_FDATASYNC | OCALL_FTRUNCATE | OCALL_LSEEK64 | OCALL_PREAD64
    | OCALL_PWRITE64 | OCALL_DUP | OCALL_MKDIR | OCALL_RMDIR | OCALL_CHDIR | OCALL_GETCWD
    | OCALL_LINK | OCALL_UNLINK | OCALL_TRUNCATE | OCALL_RENAME | OCALL_CHMOD | OCALL_ACCESS
    | OCALL_FCNTL | OCALL_GETDENTS | OCALL_SOCKETPAIR | OCALL_SOCK_LISTEN | OCALL_SOCK_ACCEPT
    | OCALL_SOCK_CONNECT | OCALL_SOCK_RECV | OCALL_SOCK_SEND | OCALL_SOCK_RECV_FD
    | OCALL_SOCK_SEND_FD | OCALL_SOCK_SETOPT | OCALL_SOCK_SHUTDOWN | OCALL_GETTIMEOFDAY
    | OCALL_CLOCK_GETRES | OCALL_CLOCK_GETTIME | OCALL_SLEEP | OCALL_NSLEEP | OCALL_EXIT
    | OCALL_CPUID | OCALL_GETPID | OCALL_FIONREAD | OCALL_FUTEX | OCALL_PRINT_STRING | OCALL_DEBUGP
    | OCALL_SGX_INIT_QUOTE | OCALL_REMOTE_ATTESTATION

record 'h enclave =
  enclave_base :: u64
  enclave_top :: u64
  tls_ustack :: u64
  tls_ustack_top :: u64
  tls_exit_target :: u64
  mem :: "u64 \<Rightarrow> u8"
  host_state :: 'h

record 'h host_behaviour =
  h_ocall :: "ocall_code \<Rightarrow> u64 \<Rightarrow> 'h \<Rightarrow> (u64 \<Rightarrow> u8) \<Rightarrow> u32 \<times> 'h \<times> (u64 \<Rightarrow> u8)"
  h_tamper :: "'h \<Rightarrow> (u64 \<Rightarrow> u8) \<Rightarrow> 'h \<times> (u64 \<Rightarrow> u8)"

type_synonym ('h, 'a) act = "'h enclave \<Rightarrow> ('a \<times> 'h enclave) run"

definition retX :: "'a \<Rightarrow> ('h, 'a) act" where "retX x st = Inr (x, st)"

definition failX :: "fault \<Rightarrow> ('h, 'a) act" where "failX e st = Inl e"

definition bindX :: "('h, 'a) act \<Rightarrow> ('a \<Rightarrow> ('h, 'b) act) \<Rightarrow> ('h, 'b) act" where
  "bindX m f st = (case m st of Inl e \<Rightarrow> Inl e | Inr (x, st') \<Rightarrow> f x st')"

definition thenX :: "('h, 'a) act \<Rightarrow> ('h, 'b) act \<Rightarrow> ('h, 'b) act" where
  "thenX m k = bindX m (\<lambda>_. k)"

definition seqX :: "('h, unit) act list \<Rightarrow> ('h, 'b) act \<Rightarrow> ('h, 'b) act" where
  "seqX ms k = foldr thenX ms k"

definition in_enclave :: "'h enclave \<Rightarrow> u64 \<Rightarrow> bool" where
  "in_enclave st a \<longleftrightarrow> enclave_base st \<le> a \<and> a < enclave_top st"

text \<open>What the host sees of the memory, and the memory after the host has worked on it.\<close>

definition untrusted :: "'h enclave \<Rightarrow> u64 \<Rightarrow> u8" where
  "untrusted st a = (if in_enclave st a then 0 else mem st a)"

definition merge :: "'h enclave \<Rightarrow> 'h \<times> (u64 \<Rightarrow> u8) \<Rightarrow> 'h enclave" where
  "merge st r = st\<lparr>host_state := fst r, mem := (\<lambda>a. if in_enclave st a then mem st a else snd r a)\<rparr>"

definition tamper :: "'h host_behaviour \<Rightarrow> ('h, unit) act" where
  "tamper H st = Inr ((), merge st (h_tamper H (host_state st) (untrusted st)))"

text \<open>The call out of the enclave (\<open>enclave_entry.S\<close>).\<close>

definition sgx_ocall :: "'h host_behaviour \<Rightarrow> ocall_code \<Rightarrow> u64 \<Rightarrow> ('h, u32) act" where
  "sgx_ocall H code ms st =
     (let r = h_ocall H code ms (host_state st) (untrusted st) in Inr (fst r, merge st (snd r)))"

section \<open>Words in memory\<close>

text \<open>A store to a member of a structure in untrusted memory, and a load: the structure's address is
  null when there was no room for it.\<close>

definition put :: "u64 \<Rightarrow> u64 \<Rightarrow> 'a::len word \<Rightarrow> ('h, unit) act" where
  "put ms off w st = (if ms = 0 then Inl NullDeref
     else Inr ((), st\<lparr>mem := store_bytes (ms + off) (bytes_of w) (mem st)\<rparr>))"

definition fetch :: "'h host_behaviour \<Rightarrow> u64 \<Rightarrow> u64 \<Rightarrow> ('h, 'a::len word) act" where
  "fetch H ms off = (if ms = 0 then failX NullDeref
     else thenX (tamper H) (\<lambda>st. Inr (of_bytes (load_bytes (ms + off) (LENGTH('a) div 8) (mem st)), st)))"

text \<open>\<open>memcpy\<close> of \<open>n\<close> bytes.\<close>

definition copy_bytes :: "u64 \<Rightarrow> u64 \<Rightarrow> u64 \<Rightarrow> (u64 \<Rightarrow> u8) \<Rightarrow> u64 \<Rightarrow> u8" where
  "copy_bytes dst src n m x = (if x - dst < n then m (src + (x - dst)) else m x)"

definition memcpyX :: "'h host_behaviour \<Rightarrow> u64 \<Rightarrow> u64 \<Rightarrow> u64 \<Rightarrow> ('h, unit) act" where
  "memcpyX H dst src n = thenX (tamper H) (\<lambda>st. Inr ((), st\<lparr>mem := copy_bytes dst src n (mem st)\<rparr>))"

text \<open>\<open>strlen\<close> on enclave memory, with \<open>n\<close> bytes left to look at: a string without an end in
  \<open>2 ^ 31\<close> bytes, whose length the code could not store in its \<open>int\<close>, is a fault.\<close>

fun strlen_from :: "(u64 \<Rightarrow> u8) \<Rightarrow> u64 \<Rightarrow> nat \<Rightarrow> nat run" where
  "strlen_from m a n = (if n = 0 then Inl OutOfBounds
     else if m a = 0 then Inr 0 else map_sum id Suc (strlen_from m (a + 1) (n - 1)))"

declare strlen_from.simps [simp del]

definition path_len :: "u64 \<Rightarrow> ('h, u64) act" where
  "path_len p st = (if p = 0 then Inr (0, st)
     else bindE (strlen_from (mem st) p (2 ^ 31 - 1)) (\<lambda>n. Inr (of_nat n + 1, st)))"

section \<open>The framework\<close>

definition UINTPTR_MAX :: u64 where "UINTPTR_MAX = - 1"
definition RED_ZONE_SIZE :: u64 where "RED_ZONE_SIZE = 128"

definition sgx_is_completely_within_enclave :: "'h enclave \<Rightarrow> u64 \<Rightarrow> u64 \<Rightarrow> bool" where
  "sgx_is_completely_within_enclave st addr sz =
     (if addr > UINTPTR_MAX - sz then False
      else enclave_base st \<le> addr \<and> addr + sz \<le> enclave_top st)"

definition sgx_is_completely_outside_enclave :: "'h enclave \<Rightarrow> u64 \<Rightarrow> u64 \<Rightarrow> bool" where
  "sgx_is_completely_outside_enclave st addr sz =
     (if addr > UINTPTR_MAX - sz then False
      else enclave_base st \<ge> addr + sz \<or> enclave_top st \<le> addr)"

definition ALIGN_DOWN_POW2 :: "u64 \<Rightarrow> u64 \<Rightarrow> u64" where
  "ALIGN_DOWN_POW2 val alignment = val - (val AND (alignment - 1))"

definition sgx_prepare_ustack :: "('h, u64) act" where
  "sgx_prepare_ustack st =
     (let old_ustack = tls_ustack st;
          ustack = (if old_ustack \<noteq> tls_ustack_top st then old_ustack - RED_ZONE_SIZE else old_ustack)
      in Inr (old_ustack, st\<lparr>tls_ustack := ustack\<rparr>))"

definition sgx_alloc_on_ustack_aligned :: "u64 \<Rightarrow> u64 \<Rightarrow> ('h, u64) act" where
  "sgx_alloc_on_ustack_aligned sz alignment st =
     (let ustack = ALIGN_DOWN_POW2 (tls_ustack st - sz) alignment in
      if \<not> sgx_is_completely_outside_enclave st ustack sz then Inr (0, st)
      else Inr (ustack, st\<lparr>tls_ustack := ustack\<rparr>))"

definition sgx_alloc_on_ustack :: "u64 \<Rightarrow> ('h, u64) act" where
  "sgx_alloc_on_ustack sz = sgx_alloc_on_ustack_aligned sz 1"

definition sgx_copy_to_ustack :: "'h host_behaviour \<Rightarrow> u64 \<Rightarrow> u64 \<Rightarrow> ('h, u64) act" where
  "sgx_copy_to_ustack H ptr sz st =
     (if \<not> sgx_is_completely_within_enclave st ptr sz then Inr (0, st)
      else bindX (sgx_alloc_on_ustack sz) (\<lambda>uptr.
             if uptr \<noteq> 0 then thenX (memcpyX H uptr ptr sz) (retX uptr) else retX uptr) st)"

definition sgx_reset_ustack :: "u64 \<Rightarrow> ('h, unit) act" where
  "sgx_reset_ustack old_ustack st = Inr ((), st\<lparr>tls_ustack := old_ustack\<rparr>)"

text \<open>The pointer that is stored through \<open>ptr\<close> and the result; \<open>ptr\<close> is not null.\<close>

definition sgx_copy_ptr_to_enclave :: "u64 \<Rightarrow> u64 \<Rightarrow> ('h, u64 \<times> bool) act" where
  "sgx_copy_ptr_to_enclave uptr sz st =
     (if \<not> sgx_is_completely_outside_enclave st uptr sz then Inr ((0, False), st)
      else Inr ((uptr, True), st))"

definition sgx_copy_to_enclave :: "'h host_behaviour \<Rightarrow> u64 \<Rightarrow> u64 \<Rightarrow> u64 \<Rightarrow> u64 \<Rightarrow> ('h, bool) act" where
  "sgx_copy_to_enclave H ptr maxsize uptr usize st =
     (if usize > maxsize \<or> \<not> sgx_is_completely_outside_enclave st uptr usize \<or>
         \<not> sgx_is_completely_within_enclave st ptr usize then Inr (False, st)
      else thenX (memcpyX H ptr uptr usize) (retX True) st)"

text \<open>The frame of nearly every wrapper: the untrusted stack pointer is saved, moved below the red
  zone, and restored.\<close>

definition framed :: "('h, 'a) act \<Rightarrow> ('h, 'a) act" where
  "framed body = bindX sgx_prepare_ustack (\<lambda>old_ustack.
     bindX body (\<lambda>r. thenX (sgx_reset_ustack old_ustack) (retX r)))"

section \<open>Ranges\<close>

definition range_outside :: "u64 \<Rightarrow> u64 \<Rightarrow> u64 \<Rightarrow> nat \<Rightarrow> bool" where
  "range_outside b t a n \<longleftrightarrow> (\<forall>i<n. \<not> (b \<le> a + of_nat i \<and> a + of_nat i < t))"

definition range_of :: "u64 \<Rightarrow> u64 \<Rightarrow> u64 set" where
  "range_of a n = {x. x - a < n}"

lemma no_wrap: "\<not> addr > UINTPTR_MAX - sz \<longleftrightarrow> unat addr + unat sz < 2 ^ 64" for addr sz :: u64
proof -
  have "unat (UINTPTR_MAX - sz) = unat UINTPTR_MAX - unat sz"
    by (rule unat_sub) (simp add: UINTPTR_MAX_def)
  moreover have "unat UINTPTR_MAX = 2 ^ 64 - 1"
    by (simp add: UINTPTR_MAX_def unsigned_minus_1_eq_mask mask_eq_exp_minus_1)
  moreover have "unat sz < 2 ^ 64" "unat addr < 2 ^ 64" using unsigned_less [of sz] unsigned_less [of addr] by simp_all
  ultimately show ?thesis by (auto simp: word_less_nat_alt)
qed

lemma unat_plus_no_wrap: "unat a + unat n < 2 ^ 64 \<Longrightarrow> unat (a + n) = unat a + unat n" for a n :: u64
  by (simp add: unat_word_ariths)

lemma outside_iff:
  "sgx_is_completely_outside_enclave st addr sz \<longleftrightarrow> unat addr + unat sz < 2 ^ 64 \<and>
     (unat addr + unat sz \<le> unat (enclave_base st) \<or> unat (enclave_top st) \<le> unat addr)"
proof (cases "unat addr + unat sz < 2 ^ 64")
  case True
  then have n: "\<not> addr > UINTPTR_MAX - sz" unfolding no_wrap .
  show ?thesis unfolding sgx_is_completely_outside_enclave_def if_not_P [OF n] word_le_nat_alt unat_plus_no_wrap [OF True]
    using True by blast
next
  case False
  then have "addr > UINTPTR_MAX - sz" using no_wrap [of sz addr] by blast
  then show ?thesis using False unfolding sgx_is_completely_outside_enclave_def by simp
qed

lemma within_iff:
  "sgx_is_completely_within_enclave st addr sz \<longleftrightarrow> unat addr + unat sz < 2 ^ 64 \<and>
     unat (enclave_base st) \<le> unat addr \<and> unat addr + unat sz \<le> unat (enclave_top st)"
proof (cases "unat addr + unat sz < 2 ^ 64")
  case True
  then have n: "\<not> addr > UINTPTR_MAX - sz" unfolding no_wrap .
  show ?thesis unfolding sgx_is_completely_within_enclave_def if_not_P [OF n] word_le_nat_alt unat_plus_no_wrap [OF True]
    using True by blast
next
  case False
  then have "addr > UINTPTR_MAX - sz" using no_wrap [of sz addr] by blast
  then show ?thesis using False unfolding sgx_is_completely_within_enclave_def by simp
qed

lemma unat_diff_lt: "x - a < n \<Longrightarrow> unat a + unat n < 2 ^ 64 \<Longrightarrow> unat a \<le> unat x \<and> unat x < unat a + unat n" for x a n :: u64
proof -
  assume *: "x - a < n" "unat a + unat n < 2 ^ 64"
  then have "unat (x - a) < unat n" by (simp add: word_less_nat_alt)
  moreover have "unat (a + (x - a)) = unat a + unat (x - a)"
    using calculation *(2) by (intro unat_plus_no_wrap) linarith
  moreover have "a + (x - a) = x" by simp
  ultimately show ?thesis by simp
qed

lemma range_of_outside:
  "sgx_is_completely_outside_enclave st a n \<Longrightarrow> x \<in> range_of a n \<Longrightarrow> \<not> in_enclave st x"
  using unat_diff_lt [of x a n] by (auto simp: outside_iff range_of_def in_enclave_def word_le_nat_alt word_less_nat_alt)

lemma range_of_within:
  "sgx_is_completely_within_enclave st a n \<Longrightarrow> x \<in> range_of a n \<Longrightarrow> in_enclave st x"
  using unat_diff_lt [of x a n] by (auto simp: within_iff range_of_def in_enclave_def word_le_nat_alt word_less_nat_alt)

end
