(* ===== verification/OcallFile.thy ===== *)
theory OcallFile
  imports Enclave
begin

text \<open>
  The calls out of the enclave for memory and files (\<open>xcall/ocall_mem_t.c\<close>,
  \<open>xcall/ocall_file_t.c\<close>), statement by statement: each allocates its argument structure on the
  untrusted stack, fills it, calls out, and reads its results back from untrusted memory. Offsets and
  sizes of the structures of \<open>ocall_types.h\<close> are those of the x86-64 ABI. A result pointer is
  returned beside the result.
\<close>

definition PRESET_PAGESIZE :: u64 where "PRESET_PAGESIZE = 4096"
definition MAX_UNTRUSTED_STACK_BUF :: u64 where "MAX_UNTRUSTED_STACK_BUF = 128 * PRESET_PAGESIZE"

definition ALLOC_ALIGNUP :: "u64 \<Rightarrow> u64" where
  "ALLOC_ALIGNUP addr = (addr + (PRESET_PAGESIZE - 1)) AND NOT (PRESET_PAGESIZE - 1)"

text \<open>A call whose structure is \<open>n\<close> bytes with alignment \<open>al\<close>, filled by \<open>fill\<close>.\<close>

definition simple_ocall :: "'h host_behaviour \<Rightarrow> ocall_code \<Rightarrow> u64 \<Rightarrow> u64 \<Rightarrow> (u64 \<Rightarrow> ('h, unit) act list) \<Rightarrow> ('h, u32) act" where
  "simple_ocall H code n al fill = framed (
     bindX (sgx_alloc_on_ustack_aligned n al) (\<lambda>ms. seqX (fill ms) (sgx_ocall H code ms)))"

text \<open>A path argument: copied to the untrusted stack, its address stored at \<open>off\<close>.\<close>

definition put_copy :: "'h host_behaviour \<Rightarrow> u64 \<Rightarrow> u64 \<Rightarrow> u64 \<Rightarrow> u64 \<Rightarrow> ('h, unit) act" where
  "put_copy H ms off ptr len = bindX (sgx_copy_to_ustack H ptr len) (\<lambda>p. put ms off p)"

definition put_alloc :: "u64 \<Rightarrow> u64 \<Rightarrow> u64 \<Rightarrow> u64 \<Rightarrow> ('h, unit) act" where
  "put_alloc ms off n al = bindX (sgx_alloc_on_ustack_aligned n al) (\<lambda>p. put ms off p)"

section \<open>Memory\<close>

definition ocall_alloc_untrusted :: "'h host_behaviour \<Rightarrow> u64 \<Rightarrow> u64 \<Rightarrow> ('h, u32 \<times> u64) act" where
  "ocall_alloc_untrusted H sz pmem = framed (
     bindX (sgx_alloc_on_ustack_aligned 16 8) (\<lambda>ms. thenX (put ms 0 sz)
       (bindX (sgx_ocall H OCALL_ALLOC_UNTRUSTED ms) (\<lambda>retval.
          if retval = 0 then bindX (fetch H ms 8) (\<lambda>m st.
            if sgx_is_completely_within_enclave st m sz then Inr ((-1, pmem), st)
            else bindX (fetch H ms 8) (\<lambda>m. retX (retval, m)) st)
          else retX (retval, pmem)))))"

definition ocall_mmap_untrusted :: "'h host_behaviour \<Rightarrow> u32 \<Rightarrow> u64 \<Rightarrow> u64 \<Rightarrow> u16 \<Rightarrow> u64 \<Rightarrow> ('h, u32 \<times> u64) act" where
  "ocall_mmap_untrusted H fd offset sz prot pmem = framed (
     bindX (sgx_alloc_on_ustack_aligned 40 8) (\<lambda>ms.
       seqX [put ms 0 fd, put ms 8 offset, put ms 16 sz, put ms 24 prot]
       (bindX (sgx_ocall H OCALL_MMAP_UNTRUSTED ms) (\<lambda>retval.
          if retval = 0 then bindX (fetch H ms 32) (\<lambda>m st.
            if sgx_is_completely_within_enclave st m sz then Inr ((-1, pmem), st)
            else bindX (fetch H ms 32) (\<lambda>m. retX (retval, m)) st)
          else retX (retval, pmem)))))"

definition ocall_unmap_untrusted :: "'h host_behaviour \<Rightarrow> u64 \<Rightarrow> u64 \<Rightarrow> ('h, u32) act" where
  "ocall_unmap_untrusted H m sz = framed (\<lambda>st.
     if sgx_is_completely_within_enclave st m sz then Inr (-1, st)
     else bindX (sgx_alloc_on_ustack_aligned 16 8) (\<lambda>ms.
       seqX [put ms 0 m, put ms 8 sz] (sgx_ocall H OCALL_UNMAP_UNTRUSTED ms)) st)"

definition ocall_mprotect :: "'h host_behaviour \<Rightarrow> u64 \<Rightarrow> u64 \<Rightarrow> u32 \<Rightarrow> ('h, u32) act" where
  "ocall_mprotect H addr len prot = framed (\<lambda>st.
     if sgx_is_completely_within_enclave st addr len then Inr (-1, st)
     else bindX (sgx_alloc_on_ustack_aligned 24 8) (\<lambda>ms.
       seqX [put ms 0 addr, put ms 8 len, put ms 16 prot] (sgx_ocall H OCALL_MPROTECT ms)) st)"

section \<open>Files\<close>

definition ocall_open :: "'h host_behaviour \<Rightarrow> u64 \<Rightarrow> u32 \<Rightarrow> u16 \<Rightarrow> ('h, u32) act" where
  "ocall_open H pathname flags mode = bindX (path_len pathname) (\<lambda>len.
     simple_ocall H OCALL_OPEN 24 8 (\<lambda>ms. [put_copy H ms 0 pathname len, put ms 12 flags, put ms 16 mode]))"

definition ocall_close :: "'h host_behaviour \<Rightarrow> u32 \<Rightarrow> ('h, u32) act" where
  "ocall_close H fd = simple_ocall H OCALL_CLOSE 4 4 (\<lambda>ms. [put ms 0 fd])"

definition ocall_read :: "'h host_behaviour \<Rightarrow> u32 \<Rightarrow> u64 \<Rightarrow> u32 \<Rightarrow> ('h, u32) act" where
  "ocall_read H fd buf cnt = bindX sgx_prepare_ustack (\<lambda>old_ustack.
     bindX (if ucast cnt > MAX_UNTRUSTED_STACK_BUF then ocall_alloc_untrusted H (ALLOC_ALIGNUP (ucast cnt)) 0
            else retX (0, 0)) (\<lambda>(retval, obuf).
     if retval <s 0 then retX retval
     else
       let out = (\<lambda>retval. thenX (sgx_reset_ustack old_ustack)
             (thenX (if obuf \<noteq> 0 then ocall_unmap_untrusted H obuf (ALLOC_ALIGNUP (ucast cnt)) else retX 0)
             (retX retval))) in
       bindX (sgx_alloc_on_ustack_aligned 24 8) (\<lambda>ms.
         if ms = 0 then out (-1)
         else seqX [put ms 0 fd, put ms 16 cnt, if obuf \<noteq> 0 then put ms 8 obuf else put_alloc ms 8 (ucast cnt) 1]
           (bindX (sgx_ocall H OCALL_READ ms) (\<lambda>retval.
              if 0 <s retval then
                if retval > cnt then out (-1)
                else bindX (fetch H ms 8) (\<lambda>p.
                  bindX (sgx_copy_to_enclave H buf (ucast cnt) p (ucast retval)) (\<lambda>ok.
                    if ok then out retval else out (-1)))
              else out retval)))))"

definition ocall_write :: "'h host_behaviour \<Rightarrow> u32 \<Rightarrow> u64 \<Rightarrow> u32 \<Rightarrow> ('h, u32) act" where
  "ocall_write H fd buf cnt = bindX sgx_prepare_ustack (\<lambda>old_ustack.
     bindX (if ucast cnt > MAX_UNTRUSTED_STACK_BUF then ocall_alloc_untrusted H (ALLOC_ALIGNUP (ucast cnt)) 0
            else retX (0, 0)) (\<lambda>(retval, obuf).
     if retval <s 0 then retX retval
     else
       let out = (\<lambda>retval. thenX (sgx_reset_ustack old_ustack)
             (thenX (if obuf \<noteq> 0 then ocall_unmap_untrusted H obuf (ALLOC_ALIGNUP (ucast cnt)) else retX 0)
             (retX retval))) in
       bindX (sgx_alloc_on_ustack_aligned 24 8) (\<lambda>ms.
         seqX [put ms 0 fd,
               if obuf \<noteq> 0 then seqX [put ms 8 obuf, memcpyX H obuf buf (ucast cnt)] (retX ())
               else put_copy H ms 8 buf (ucast cnt),
               put ms 16 cnt]
           (bindX (sgx_ocall H OCALL_WRITE ms) (\<lambda>retval.
              if 0 <s retval \<and> retval > cnt then out (-1) else out retval)))))"

text \<open>The structures \<open>stat\<close> and \<open>stat64\<close> of the C library.\<close>

definition sizeof_stat :: u64 where "sizeof_stat = 144"
definition sizeof_stat64 :: u64 where "sizeof_stat64 = 144"

definition read_back :: "'h host_behaviour \<Rightarrow> u64 \<Rightarrow> u64 \<Rightarrow> u64 \<Rightarrow> u64 \<Rightarrow> u32 \<Rightarrow> ('h, u32) act" where
  "read_back H ms off buf n retval =
     (if retval = 0 then bindX (fetch H ms off) (\<lambda>p. thenX (memcpyX H buf p n) (retX retval)) else retX retval)"

definition ocall_stat :: "'h host_behaviour \<Rightarrow> u64 \<Rightarrow> u64 \<Rightarrow> ('h, u32) act" where
  "ocall_stat H path buf = bindX (path_len path) (\<lambda>len. framed (
     bindX (sgx_alloc_on_ustack_aligned 16 8) (\<lambda>ms.
       seqX [put_copy H ms 0 path len, put_alloc ms 8 sizeof_stat 8]
       (bindX (sgx_ocall H OCALL_STAT ms) (read_back H ms 8 buf sizeof_stat)))))"

definition ocall_lstat :: "'h host_behaviour \<Rightarrow> u64 \<Rightarrow> u64 \<Rightarrow> ('h, u32) act" where
  "ocall_lstat H path buf = bindX (path_len path) (\<lambda>len. framed (
     bindX (sgx_alloc_on_ustack_aligned 16 8) (\<lambda>ms.
       seqX [put_copy H ms 0 path len, put_alloc ms 8 sizeof_stat 8]
       (bindX (sgx_ocall H OCALL_LSTAT ms) (read_back H ms 8 buf sizeof_stat)))))"

definition ocall_fstat :: "'h host_behaviour \<Rightarrow> u32 \<Rightarrow> u64 \<Rightarrow> ('h, u32) act" where
  "ocall_fstat H fd buf = framed (
     bindX (sgx_alloc_on_ustack_aligned 16 8) (\<lambda>ms.
       seqX [put ms 0 fd, put_alloc ms 8 sizeof_stat 8]
       (bindX (sgx_ocall H OCALL_FSTAT ms) (read_back H ms 8 buf sizeof_stat))))"

definition ocall_stat64 :: "'h host_behaviour \<Rightarrow> u64 \<Rightarrow> u64 \<Rightarrow> ('h, u32) act" where
  "ocall_stat64 H path buf = bindX (path_len path) (\<lambda>len. framed (
     bindX (sgx_alloc_on_ustack_aligned 16 8) (\<lambda>ms.
       seqX [put_copy H ms 0 path len, put_alloc ms 8 sizeof_stat64 8]
       (bindX (sgx_ocall H OCALL_STAT64 ms) (read_back H ms 8 buf sizeof_stat64)))))"

definition ocall_lstat64 :: "'h host_behaviour \<Rightarrow> u64 \<Rightarrow> u64 \<Rightarrow> ('h, u32) act" where
  "ocall_lstat64 H path buf = bindX (path_len path) (\<lambda>len. framed (
     bindX (sgx_alloc_on_ustack_aligned 16 8) (\<lambda>ms.
       seqX [put_copy H ms 0 path len, put_alloc ms 8 sizeof_stat64 8]
       (bindX (sgx_ocall H OCALL_LSTAT64 ms) (read_back H ms 8 buf sizeof_stat64)))))"

definition ocall_fstat64 :: "'h host_behaviour \<Rightarrow> u32 \<Rightarrow> u64 \<Rightarrow> ('h, u32) act" where
  "ocall_fstat64 H fd buf = framed (
     bindX (sgx_alloc_on_ustack_aligned 16 8) (\<lambda>ms.
       seqX [put ms 0 fd, put_alloc ms 8 sizeof_stat64 8]
       (bindX (sgx_ocall H OCALL_FSTAT64 ms) (read_back H ms 8 buf sizeof_stat64))))"

definition ocall_fsetnonblock :: "'h host_behaviour \<Rightarrow> u32 \<Rightarrow> u32 \<Rightarrow> ('h, u32) act" where
  "ocall_fsetnonblock H fd nonblocking =
     simple_ocall H OCALL_FSETNONBLOCK 8 4 (\<lambda>ms. [put ms 0 fd, put ms 4 nonblocking])"

definition ocall_fchmod :: "'h host_behaviour \<Rightarrow> u32 \<Rightarrow> u16 \<Rightarrow> ('h, u32) act" where
  "ocall_fchmod H fd mode = simple_ocall H OCALL_FCHMOD 8 4 (\<lambda>ms. [put ms 0 fd, put ms 4 mode])"

definition ocall_fchdir :: "'h host_behaviour \<Rightarrow> u32 \<Rightarrow> ('h, u32) act" where
  "ocall_fchdir H fd = simple_ocall H OCALL_FCHDIR 4 4 (\<lambda>ms. [put ms 0 fd])"

definition ocall_fsync :: "'h host_behaviour \<Rightarrow> u32 \<Rightarrow> ('h, u32) act" where
  "ocall_fsync H fd = simple_ocall H OCALL_FSYNC 4 4 (\<lambda>ms. [put ms 0 fd])"

definition ocall_fdatasync :: "'h host_behaviour \<Rightarrow> u32 \<Rightarrow> ('h, u32) act" where
  "ocall_fdatasync H fd = simple_ocall H OCALL_FDATASYNC 4 4 (\<lambda>ms. [put ms 0 fd])"

definition ocall_ftruncate :: "'h host_behaviour \<Rightarrow> u32 \<Rightarrow> u64 \<Rightarrow> ('h, u32) act" where
  "ocall_ftruncate H fd len = simple_ocall H OCALL_FTRUNCATE 16 8 (\<lambda>ms. [put ms 0 fd, put ms 8 len])"

definition ocall_lseek64 :: "'h host_behaviour \<Rightarrow> u32 \<Rightarrow> u64 \<Rightarrow> u32 \<Rightarrow> ('h, u32) act" where
  "ocall_lseek64 H fd offset whence =
     simple_ocall H OCALL_LSEEK64 24 8 (\<lambda>ms. [put ms 0 fd, put ms 8 offset, put ms 16 whence])"

text \<open>The count is a \<open>size_t\<close> here, and the structure's member has 32 bits.\<close>

definition ocall_pread64 :: "'h host_behaviour \<Rightarrow> u32 \<Rightarrow> u64 \<Rightarrow> u64 \<Rightarrow> u64 \<Rightarrow> ('h, u32) act" where
  "ocall_pread64 H fd buf cnt pos = bindX sgx_prepare_ustack (\<lambda>old_ustack.
     bindX (if cnt > 4096 then ocall_alloc_untrusted H (ALLOC_ALIGNUP cnt) 0 else retX (0, 0)) (\<lambda>(retval, obuf).
     if retval <s 0 then retX retval
     else bindX (sgx_alloc_on_ustack_aligned 32 8) (\<lambda>ms.
       seqX [put ms 0 fd, if obuf \<noteq> 0 then put ms 8 obuf else put_alloc ms 8 cnt 1,
             put ms 16 (ucast cnt :: u32), put ms 24 pos]
         (bindX (sgx_ocall H OCALL_PREAD64 ms) (\<lambda>retval.
            thenX (if 0 <s retval then bindX (fetch H ms 8) (\<lambda>p. memcpyX H buf p (ucast retval)) else retX ())
           (thenX (sgx_reset_ustack old_ustack)
           (thenX (if obuf \<noteq> 0 then ocall_unmap_untrusted H obuf (ALLOC_ALIGNUP cnt) else retX 0)
           (retX retval))))))))"

definition ocall_pwrite64 :: "'h host_behaviour \<Rightarrow> u32 \<Rightarrow> u64 \<Rightarrow> u64 \<Rightarrow> u64 \<Rightarrow> ('h, u32) act" where
  "ocall_pwrite64 H fd buf cnt offset = bindX sgx_prepare_ustack (\<lambda>old_ustack.
     bindX (if cnt > 4096 then ocall_alloc_untrusted H (ALLOC_ALIGNUP cnt) 0 else retX (0, 0)) (\<lambda>(retval, obuf).
     if retval <s 0 then retX retval
     else bindX (sgx_alloc_on_ustack_aligned 24 8) (\<lambda>ms.
       seqX [put ms 0 fd,
             if obuf \<noteq> 0 then seqX [put ms 8 obuf, memcpyX H obuf buf cnt] (retX ())
             else put_copy H ms 8 buf cnt,
             put ms 16 (ucast cnt :: u32), put ms 20 (ucast offset :: u32)]
         (bindX (sgx_ocall H OCALL_PWRITE64 ms) (\<lambda>retval.
            thenX (sgx_reset_ustack old_ustack)
           (thenX (if obuf \<noteq> 0 then ocall_unmap_untrusted H obuf (ALLOC_ALIGNUP cnt) else retX 0)
           (retX retval)))))))"

definition ocall_dup :: "'h host_behaviour \<Rightarrow> u32 \<Rightarrow> ('h, u32) act" where
  "ocall_dup H fd = simple_ocall H OCALL_DUP 4 4 (\<lambda>ms. [put ms 0 fd])"

end
