(* ===== verification/OcallMisc.thy ===== *)
theory OcallMisc
  imports OcallFile
begin

text \<open>
  The other calls out of the enclave: directories, time, miscellaneous, sockets and attestation
  (\<open>xcall/ocall_dir_t.c\<close>, \<open>ocall_time_t.c\<close>, \<open>ocall_misc_t.c\<close>,
  \<open>ocall_socket_t.c\<close>, \<open>ocall_ra_t.c\<close>). A pointer to a length that is read and written
  (\<open>addrlen\<close>) is a value that may be absent (null) and is returned beside the result; a pointer
  to a result (\<open>tv\<close>, \<open>tp\<close>, \<open>values\<close>) is a value that is returned.
\<close>

section \<open>Directories\<close>

definition path_ocall :: "'h host_behaviour \<Rightarrow> ocall_code \<Rightarrow> u64 \<Rightarrow> u64 \<Rightarrow> (u64 \<Rightarrow> ('h, unit) act list) \<Rightarrow> ('h, u32) act" where
  "path_ocall H code n path rest = bindX (path_len path) (\<lambda>len.
     simple_ocall H code n 8 (\<lambda>ms. put_copy H ms 0 path len # rest ms))"

definition ocall_mkdir :: "'h host_behaviour \<Rightarrow> u64 \<Rightarrow> u16 \<Rightarrow> ('h, u32) act" where
  "ocall_mkdir H pathname mode = path_ocall H OCALL_MKDIR 16 pathname (\<lambda>ms. [put ms 8 mode])"

definition ocall_rmdir :: "'h host_behaviour \<Rightarrow> u64 \<Rightarrow> ('h, u32) act" where
  "ocall_rmdir H pathname = path_ocall H OCALL_RMDIR 8 pathname (\<lambda>ms. [])"

definition ocall_chdir :: "'h host_behaviour \<Rightarrow> u64 \<Rightarrow> ('h, u32) act" where
  "ocall_chdir H pathname = path_ocall H OCALL_CHDIR 8 pathname (\<lambda>ms. [])"

definition ocall_getcwd :: "'h host_behaviour \<Rightarrow> u64 \<Rightarrow> u64 \<Rightarrow> ('h, u32) act" where
  "ocall_getcwd H pathname sz = framed (
     bindX (sgx_alloc_on_ustack_aligned 24 8) (\<lambda>ms.
       seqX [put ms 16 sz]
       (bindX (sgx_ocall H OCALL_GETCWD ms) (\<lambda>retval.
          if 0 \<le>s retval then
            bindX (fetch H ms 0) (\<lambda>path :: u64. bindX (if path \<noteq> 0 then fetch H ms 8 else retX 0) (\<lambda>pathlen :: u64.
              if pathlen \<noteq> 0 then
                bindX (fetch H ms 0) (\<lambda>path. bindX (fetch H ms 8) (\<lambda>pathlen.
                  thenX (sgx_copy_to_enclave H pathname sz path (pathlen + 1)) (retX retval)))
              else retX retval))
          else retX retval))))"

definition two_paths :: "'h host_behaviour \<Rightarrow> ocall_code \<Rightarrow> u64 \<Rightarrow> u64 \<Rightarrow> ('h, u32) act" where
  "two_paths H code oldpath newpath = bindX (path_len oldpath) (\<lambda>oldlen. bindX (path_len newpath) (\<lambda>newlen.
     simple_ocall H code 16 8 (\<lambda>ms. [put_copy H ms 0 oldpath oldlen, put_copy H ms 8 newpath newlen])))"

definition ocall_link :: "'h host_behaviour \<Rightarrow> u64 \<Rightarrow> u64 \<Rightarrow> ('h, u32) act" where
  "ocall_link H = two_paths H OCALL_LINK"

definition ocall_unlink :: "'h host_behaviour \<Rightarrow> u64 \<Rightarrow> ('h, u32) act" where
  "ocall_unlink H pathname = path_ocall H OCALL_UNLINK 8 pathname (\<lambda>ms. [])"

definition ocall_truncate :: "'h host_behaviour \<Rightarrow> u64 \<Rightarrow> u32 \<Rightarrow> ('h, u32) act" where
  "ocall_truncate H pathname sz = path_ocall H OCALL_TRUNCATE 16 pathname (\<lambda>ms. [put ms 8 sz])"

definition ocall_rename :: "'h host_behaviour \<Rightarrow> u64 \<Rightarrow> u64 \<Rightarrow> ('h, u32) act" where
  "ocall_rename H = two_paths H OCALL_RENAME"

definition ocall_chmod :: "'h host_behaviour \<Rightarrow> u64 \<Rightarrow> u64 \<Rightarrow> ('h, u32) act" where
  "ocall_chmod H path mode = path_ocall H OCALL_CHMOD 16 path (\<lambda>ms. [put ms 8 mode])"

definition ocall_access :: "'h host_behaviour \<Rightarrow> u64 \<Rightarrow> u16 \<Rightarrow> ('h, u32) act" where
  "ocall_access H pathname mode = path_ocall H OCALL_ACCESS 16 pathname (\<lambda>ms. [put ms 8 mode])"

definition ocall_fcntl :: "'h host_behaviour \<Rightarrow> u32 \<Rightarrow> u32 \<Rightarrow> u64 \<Rightarrow> ('h, u32) act" where
  "ocall_fcntl H fd cmd args = simple_ocall H OCALL_FCNTL 16 8 (\<lambda>ms. [put ms 0 fd, put ms 4 cmd, put ms 8 args])"

definition ocall_getdents :: "'h host_behaviour \<Rightarrow> u32 \<Rightarrow> u64 \<Rightarrow> u32 \<Rightarrow> ('h, u32) act" where
  "ocall_getdents H fd dirp sz = framed (
     bindX (sgx_alloc_on_ustack_aligned 24 8) (\<lambda>ms.
       seqX [put ms 0 fd, put_alloc ms 8 (ucast sz) 1, put ms 16 sz]
       (bindX (sgx_ocall H OCALL_GETDENTS ms) (\<lambda>retval.
          if 0 <s retval then
            bindX (fetch H ms 8) (\<lambda>p. thenX (sgx_copy_to_enclave H dirp (ucast sz) p (ucast retval)) (retX retval))
          else retX retval))))"

section \<open>Time\<close>

definition fetch_pair :: "'h host_behaviour \<Rightarrow> u64 \<Rightarrow> u64 \<Rightarrow> u64 \<Rightarrow> ('h, u64 \<times> u64) act" where
  "fetch_pair H ms o1 o2 = bindX (fetch H ms o1) (\<lambda>x. bindX (fetch H ms o2) (\<lambda>y. retX (x, y)))"

definition ocall_gettimeofday :: "'h host_behaviour \<Rightarrow> ('h, u32 \<times> (u64 \<times> u64) option) act" where
  "ocall_gettimeofday H = framed (
     bindX (sgx_alloc_on_ustack_aligned 16 8) (\<lambda>ms. bindX (sgx_ocall H OCALL_GETTIMEOFDAY ms) (\<lambda>retval.
       if retval = 0 then bindX (fetch_pair H ms 0 8) (\<lambda>tv. retX (retval, Some tv)) else retX (retval, None))))"

definition ocall_clock_getres :: "'h host_behaviour \<Rightarrow> u32 \<Rightarrow> ('h, u32 \<times> (u64 \<times> u64) option) act" where
  "ocall_clock_getres H clk_id = framed (
     bindX (sgx_alloc_on_ustack_aligned 24 8) (\<lambda>ms. seqX [put ms 0 clk_id]
       (bindX (sgx_ocall H OCALL_CLOCK_GETRES ms) (\<lambda>retval.
         if retval = 0 then bindX (fetch_pair H ms 8 16) (\<lambda>tp. retX (retval, Some tp)) else retX (retval, None)))))"

definition ocall_clock_gettime :: "'h host_behaviour \<Rightarrow> u32 \<Rightarrow> ('h, u32 \<times> (u64 \<times> u64) option) act" where
  "ocall_clock_gettime H clk_id = framed (
     bindX (sgx_alloc_on_ustack_aligned 24 8) (\<lambda>ms. seqX [put ms 0 clk_id]
       (bindX (sgx_ocall H OCALL_CLOCK_GETTIME ms) (\<lambda>retval.
         if retval = 0 then bindX (fetch_pair H ms 8 16) (\<lambda>tp. retX (retval, Some tp)) else retX (retval, None)))))"

definition MINUS_EINTR :: u32 where "MINUS_EINTR = - 4"

definition ocall_sleep :: "'h host_behaviour \<Rightarrow> u64 option \<Rightarrow> ('h, u32 \<times> u64 option) act" where
  "ocall_sleep H microsec = framed (
     bindX (sgx_alloc_on_ustack_aligned 8 8) (\<lambda>ms. seqX [put ms 0 (case microsec of None \<Rightarrow> 0 | Some m \<Rightarrow> m)]
       (bindX (sgx_ocall H OCALL_SLEEP ms) (\<lambda>retval.
         if microsec \<noteq> None then
           if retval = 0 then retX (retval, Some 0)
           else if retval = MINUS_EINTR then bindX (fetch H ms 0) (\<lambda>m. retX (retval, Some m))
           else retX (retval, microsec)
         else retX (retval, microsec)))))"

definition ocall_nsleep :: "'h host_behaviour \<Rightarrow> u64 \<times> u64 \<Rightarrow> ('h, u32 \<times> (u64 \<times> u64) option) act" where
  "ocall_nsleep H rqtp = framed (
     bindX (sgx_alloc_on_ustack_aligned 32 8) (\<lambda>ms. seqX [put ms 0 (fst rqtp), put ms 8 (snd rqtp)]
       (bindX (sgx_ocall H OCALL_NSLEEP ms) (\<lambda>retval.
         if 0 \<le>s retval then bindX (fetch_pair H ms 16 24) (\<lambda>tp. retX (retval, Some tp))
         else if retval = MINUS_EINTR then bindX (fetch_pair H ms 0 8) (\<lambda>tp. retX (retval, Some tp))
         else retX (retval, None)))))"

section \<open>Miscellaneous\<close>

text \<open>\<open>ocall_exit\<close> repeats its call for ever; \<open>None\<close> is that it does not return.\<close>

partial_function (option) ocall_exit :: "'h host_behaviour \<Rightarrow> u32 \<Rightarrow> 'h enclave \<Rightarrow> (unit \<times> 'h enclave) run option" where
  "ocall_exit H exitcode st =
     (case sgx_ocall H OCALL_EXIT (scast exitcode) st of
        Inl e \<Rightarrow> Some (Inl e)
      | Inr (_, st') \<Rightarrow> ocall_exit H exitcode st')"

definition ocall_cpuid :: "'h host_behaviour \<Rightarrow> u32 \<Rightarrow> u32 \<Rightarrow> ('h, u32 \<times> u32 list option) act" where
  "ocall_cpuid H leaf subleaf = framed (
     bindX (sgx_alloc_on_ustack_aligned 24 4) (\<lambda>ms. seqX [put ms 0 leaf, put ms 4 subleaf]
       (bindX (sgx_ocall H OCALL_CPUID ms) (\<lambda>retval.
         if retval = 0 then
           bindX (fetch H ms 8) (\<lambda>a. bindX (fetch H ms 12) (\<lambda>b. bindX (fetch H ms 16) (\<lambda>c. bindX (fetch H ms 20) (\<lambda>d.
             retX (retval, Some [a, b, c, d])))))
         else retX (retval, None)))))"

definition ocall_getpid :: "'h host_behaviour \<Rightarrow> ('h, u32) act" where
  "ocall_getpid H = simple_ocall H OCALL_GETPID 4 4 (\<lambda>ms. [])"

definition ocall_fionread :: "'h host_behaviour \<Rightarrow> u32 \<Rightarrow> ('h, u32) act" where
  "ocall_fionread H fd = simple_ocall H OCALL_FIONREAD 4 4 (\<lambda>ms. [put ms 0 fd])"

text \<open>The string is copied out twice; a null or empty string returns 0, since the assignment of the
  error is after the jump.\<close>

definition ocall_print_string :: "'h host_behaviour \<Rightarrow> u64 \<Rightarrow> u32 \<Rightarrow> ('h, u32) act" where
  "ocall_print_string H str len = framed (
     if str = 0 \<or> len \<le> 0 then retX 0
     else bindX (sgx_alloc_on_ustack_aligned 16 8) (\<lambda>ms.
       if ms = 0 then retX (-1)
       else seqX [put_copy H ms 0 str (ucast len), put ms 8 len, put_copy H ms 0 str (ucast len)]
         (bindX (sgx_ocall H OCALL_PRINT_STRING ms) (\<lambda>retval.
           retX (if 0 <s retval \<and> retval > len then -1 else retval)))))"

definition ocall_fprint_string :: "u64 \<Rightarrow> u64 \<Rightarrow> u32 \<Rightarrow> ('h, u32) act" where
  "ocall_fprint_string fp str len = retX 0"

definition OCALL_NO_TIMEOUT :: u64 where "OCALL_NO_TIMEOUT = - 1"

definition ocall_futex :: "'h host_behaviour \<Rightarrow> u64 \<Rightarrow> u32 \<Rightarrow> u32 \<Rightarrow> u64 option \<Rightarrow> u64 \<Rightarrow> u32 \<Rightarrow> ('h, u32) act" where
  "ocall_futex H futex op val timeout uaddr2 val3 = framed (
     bindX (sgx_alloc_on_ustack_aligned 40 8) (\<lambda>ms st.
       if sgx_is_completely_within_enclave st futex 4 then Inr (-1, st)
       else seqX [put ms 0 futex, put ms 8 op, put ms 12 val,
                  put ms 16 (case timeout of None \<Rightarrow> OCALL_NO_TIMEOUT | Some t \<Rightarrow> t),
                  put ms 24 uaddr2, put ms 32 val3] (sgx_ocall H OCALL_FUTEX ms) st))"

definition ocall_debugp :: "'h host_behaviour \<Rightarrow> u32 \<Rightarrow> ('h, u32) act" where
  "ocall_debugp H val = thenX (simple_ocall H OCALL_DEBUGP 4 4 (\<lambda>ms. [put ms 0 val])) (retX 0)"

section \<open>Sockets\<close>

definition ocall_socketpair :: "'h host_behaviour \<Rightarrow> u32 \<Rightarrow> u32 \<Rightarrow> u32 \<Rightarrow> ('h, u32 \<times> (u32 \<times> u32) option) act" where
  "ocall_socketpair H domain type protocol = framed (
     bindX (sgx_alloc_on_ustack_aligned 20 4) (\<lambda>ms. seqX [put ms 0 domain, put ms 4 type, put ms 8 protocol]
       (bindX (sgx_ocall H OCALL_SOCKETPAIR ms) (\<lambda>retval.
         if retval = 0 then bindX (fetch H ms 12) (\<lambda>a. bindX (fetch H ms 16) (\<lambda>b. retX (retval, Some (a, b))))
         else retX (retval, None)))))"

text \<open>The test of the block the host says the address is in: the pointer at \<open>aoff\<close> must not lie
  within the enclave, and the length at \<open>loff\<close> must not exceed \<open>n\<close>.\<close>

definition bad_block :: "'h host_behaviour \<Rightarrow> u64 \<Rightarrow> u64 \<Rightarrow> u64 \<Rightarrow> u64 \<Rightarrow> u32 \<Rightarrow> ('h, bool) act" where
  "bad_block H ms aoff loff sz n = bindX (fetch H ms aoff) (\<lambda>p st.
     if sgx_is_completely_within_enclave st p sz then Inr (True, st)
     else bindX (fetch H ms loff) (\<lambda>l. retX (l > n)) st)"

text \<open>The address and its length copied back; the length is read from untrusted memory once for the
  copy and once more for the result.\<close>

definition copy_back :: "'h host_behaviour \<Rightarrow> u64 \<Rightarrow> u64 \<Rightarrow> u64 \<Rightarrow> u64 \<Rightarrow> u32 \<Rightarrow> ('h, u32) act" where
  "copy_back H ms aoff loff addr n = bindX (fetch H ms aoff) (\<lambda>p. bindX (fetch H ms loff) (\<lambda>l :: u32.
     thenX (sgx_copy_to_enclave H addr (ucast n) p (ucast l)) (fetch H ms loff)))"

definition ocall_sock_listen :: "'h host_behaviour \<Rightarrow> u32 \<Rightarrow> u32 \<Rightarrow> u32 \<Rightarrow> u64 \<Rightarrow> u32 option \<Rightarrow> ('h, u32 \<times> u32 option) act" where
  "ocall_sock_listen H domain type protocol addr addrlen =
     (case addrlen of None \<Rightarrow> failX NullDeref | Some bind_len \<Rightarrow> framed (
        bindX (sgx_alloc_on_ustack_aligned 32 8) (\<lambda>ms.
          seqX [put ms 0 domain, put ms 4 type, put ms 8 protocol, put_copy H ms 16 addr (ucast bind_len), put ms 24 bind_len]
          (bindX (sgx_ocall H OCALL_SOCK_LISTEN ms) (\<lambda>retval.
             if 0 \<le>s retval then bindX (bad_block H ms 16 24 (ucast bind_len) bind_len) (\<lambda>bad.
               if bad then retX (-1, addrlen)
               else if addr \<noteq> 0 then bindX (copy_back H ms 16 24 addr bind_len) (\<lambda>l. retX (retval, Some l))
               else retX (retval, addrlen))
             else retX (retval, addrlen))))))"

definition ocall_sock_accept :: "'h host_behaviour \<Rightarrow> u32 \<Rightarrow> u64 \<Rightarrow> u32 option \<Rightarrow> ('h, u32 \<times> u32 option) act" where
  "ocall_sock_accept H sockfd addr addrlen =
     (let len = (case addrlen of None \<Rightarrow> 0 | Some l \<Rightarrow> l) in framed (
        bindX (sgx_alloc_on_ustack_aligned 24 8) (\<lambda>ms.
          seqX [put ms 0 sockfd, put_copy H ms 8 addr (ucast len), put ms 16 len]
          (bindX (sgx_ocall H OCALL_SOCK_ACCEPT ms) (\<lambda>retval.
             if 0 \<le>s retval then bindX (if len \<noteq> 0 then bad_block H ms 8 16 (ucast len) len else retX False) (\<lambda>bad.
               if bad then retX (-1, addrlen)
               else if addr \<noteq> 0 then
                 case addrlen of None \<Rightarrow> failX NullDeref
                 | Some n \<Rightarrow> bindX (copy_back H ms 8 16 addr n) (\<lambda>l. retX (retval, Some l))
               else retX (retval, addrlen))
             else retX (retval, addrlen))))))"

definition ocall_sock_connect :: "'h host_behaviour \<Rightarrow> u32 \<Rightarrow> u32 \<Rightarrow> u32 \<Rightarrow> u64 \<Rightarrow> u32 \<Rightarrow> u64 \<Rightarrow> u32 option \<Rightarrow>
    ('h, u32 \<times> u32 option) act" where
  "ocall_sock_connect H domain type protocol addr addrlen bind_addr bind_addrlen =
     (let bind_len = (case bind_addrlen of None \<Rightarrow> 0 | Some l \<Rightarrow> l) in framed (
        bindX (sgx_alloc_on_ustack_aligned 48 8) (\<lambda>ms.
          seqX [put ms 0 domain, put ms 4 type, put ms 8 protocol, put_copy H ms 16 addr (ucast addrlen), put ms 24 addrlen,
                if bind_addr \<noteq> 0 then put_copy H ms 32 bind_addr (ucast bind_len) else put ms 32 (0 :: u64), put ms 40 bind_len]
          (bindX (sgx_ocall H OCALL_SOCK_CONNECT ms) (\<lambda>retval.
             if 0 \<le>s retval then bindX (if bind_len \<noteq> 0 then bad_block H ms 32 40 (ucast bind_len) bind_len else retX False) (\<lambda>bad.
               if bad then retX (-1, bind_addrlen)
               else if bind_addr \<noteq> 0 then
                 case bind_addrlen of None \<Rightarrow> failX NullDeref
                 | Some n \<Rightarrow> bindX (copy_back H ms 32 40 bind_addr n) (\<lambda>l. retX (retval, Some l))
               else retX (retval, bind_addrlen))
             else retX (retval, bind_addrlen))))))"

text \<open>The copy of the data may be refused; its result is not looked at.\<close>

definition ocall_sock_recv :: "'h host_behaviour \<Rightarrow> u32 \<Rightarrow> u64 \<Rightarrow> u32 \<Rightarrow> u64 \<Rightarrow> u32 option \<Rightarrow> ('h, u32 \<times> u32 option) act" where
  "ocall_sock_recv H sockfd buf cnt addr addrlen =
     (let len = (case addrlen of None \<Rightarrow> 0 | Some l \<Rightarrow> l) in framed (
        bindX (sgx_alloc_on_ustack_aligned 40 8) (\<lambda>ms.
          seqX [put ms 0 sockfd, put_alloc ms 8 (ucast cnt) 1, put ms 16 cnt,
                if addr \<noteq> 0 then put_alloc ms 24 (ucast len) 1 else put ms 24 (0 :: u64), put ms 32 len]
          (bindX (sgx_ocall H OCALL_SOCK_RECV ms) (\<lambda>retval.
             if 0 \<le>s retval then bindX (if len \<noteq> 0 then bad_block H ms 24 32 (ucast len) len else retX False) (\<lambda>bad.
               if bad then retX (-1, addrlen)
               else bindX (fetch H ms 8) (\<lambda>p. thenX (sgx_copy_to_enclave H buf (ucast cnt) p (ucast retval))
                 (case addrlen of None \<Rightarrow> retX (retval, addrlen)
                  | Some n \<Rightarrow> if addr \<noteq> 0 then bindX (copy_back H ms 24 32 addr n) (\<lambda>l. retX (retval, Some l))
                      else retX (retval, addrlen))))
             else retX (retval, addrlen))))))"

definition ocall_sock_send :: "'h host_behaviour \<Rightarrow> u32 \<Rightarrow> u64 \<Rightarrow> u32 \<Rightarrow> u64 \<Rightarrow> u32 \<Rightarrow> ('h, u32) act" where
  "ocall_sock_send H sockfd buf cnt addr addrlen = simple_ocall H OCALL_SOCK_SEND 40 8 (\<lambda>ms.
     [put ms 0 sockfd, put_copy H ms 8 buf (ucast cnt), put ms 16 cnt,
      if addr \<noteq> 0 then put_copy H ms 24 addr (ucast addrlen) else put ms 24 (0 :: u64), put ms 32 addrlen])"

definition ocall_sock_recv_fd :: "'h host_behaviour \<Rightarrow> u32 \<Rightarrow> u64 \<Rightarrow> u32 \<Rightarrow> u64 \<Rightarrow> u32 \<Rightarrow> ('h, u32 \<times> u32) act" where
  "ocall_sock_recv_fd H sockfd buf cnt fds nfds = framed (
     bindX (sgx_alloc_on_ustack_aligned 40 8) (\<lambda>ms.
       seqX [put ms 0 sockfd, put_alloc ms 8 (ucast cnt) 1, put ms 16 cnt,
             if fds \<noteq> 0 then put_alloc ms 24 (4 * ucast nfds) 1 else put ms 24 (0 :: u64), put ms 32 nfds]
       (bindX (sgx_ocall H OCALL_SOCK_RECV_FD ms) (\<lambda>retval.
          if 0 \<le>s retval then bindX (bad_block H ms 24 32 (4 * ucast nfds) nfds) (\<lambda>bad.
            if bad then retX (-1, nfds)
            else bindX (fetch H ms 8) (\<lambda>p. thenX (sgx_copy_to_enclave H buf (ucast cnt) p (ucast retval))
              (bindX (fetch H ms 24) (\<lambda>p. bindX (fetch H ms 32) (\<lambda>n :: u32.
                 thenX (sgx_copy_to_enclave H fds (ucast nfds) p (4 * ucast n))
                   (bindX (fetch H ms 32) (\<lambda>n. retX (retval, n))))))))
          else retX (retval, nfds)))))"

definition ocall_sock_send_fd :: "'h host_behaviour \<Rightarrow> u32 \<Rightarrow> u64 \<Rightarrow> u32 \<Rightarrow> u64 \<Rightarrow> u32 \<Rightarrow> ('h, u32) act" where
  "ocall_sock_send_fd H sockfd buf cnt fds nfds = simple_ocall H OCALL_SOCK_SEND_FD 40 8 (\<lambda>ms.
     [put ms 0 sockfd, put_copy H ms 8 buf (ucast cnt), put ms 16 cnt,
      if fds \<noteq> 0 then put_copy H ms 24 fds (4 * ucast nfds) else put ms 24 (0 :: u64), put ms 32 nfds])"

definition ocall_sock_setopt :: "'h host_behaviour \<Rightarrow> u32 \<Rightarrow> u32 \<Rightarrow> u32 \<Rightarrow> u64 \<Rightarrow> u32 \<Rightarrow> ('h, u32) act" where
  "ocall_sock_setopt H sockfd level optname optval optlen = simple_ocall H OCALL_SOCK_SETOPT 32 8 (\<lambda>ms.
     [put ms 0 sockfd, put ms 4 level, put ms 8 optname, put_copy H ms 16 optval (ucast optlen), put ms 24 optlen])"

definition ocall_sock_shutdown :: "'h host_behaviour \<Rightarrow> u32 \<Rightarrow> u32 \<Rightarrow> ('h, u32) act" where
  "ocall_sock_shutdown H sockfd how = simple_ocall H OCALL_SOCK_SHUTDOWN 8 4 (\<lambda>ms. [put ms 0 sockfd, put ms 4 how])"

section \<open>Attestation\<close>

text \<open>Sizes of the structures of Intel's headers.\<close>

definition sizeof_sgx_target_info_t :: u64 where "sizeof_sgx_target_info_t = 512"
definition sizeof_sgx_report_t :: u64 where "sizeof_sgx_report_t = 432"

definition ocall_sgx_init_quote :: "'h host_behaviour \<Rightarrow> u64 \<Rightarrow> ('h, u32) act" where
  "ocall_sgx_init_quote H target_info = framed (
     bindX (sgx_alloc_on_ustack_aligned 8 8) (\<lambda>ms.
       seqX [if target_info = 0 then put ms 0 (0 :: u64) else retX (), put_alloc ms 0 sizeof_sgx_target_info_t 8]
       (bindX (sgx_ocall H OCALL_SGX_INIT_QUOTE ms) (\<lambda>status.
          if status = 0 \<and> target_info \<noteq> 0 then
            bindX (fetch H ms 0) (\<lambda>p.
              thenX (sgx_copy_to_enclave H target_info sizeof_sgx_target_info_t p sizeof_sgx_target_info_t) (retX status))
          else retX status))))"

definition ocall_remote_attestation :: "'h host_behaviour \<Rightarrow> u64 \<Rightarrow> u64 \<Rightarrow> u64 \<Rightarrow> ('h, u32 \<times> u32) act" where
  "ocall_remote_attestation H quote report opts = framed (
     bindX (sgx_alloc_on_ustack_aligned 56 8) (\<lambda>ms.
       if ms = 0 then failX NullDeref
       else seqX [memcpyX H ms opts 16, memcpyX H (ms + 16) (opts + 16) 4, put_copy H ms 24 report sizeof_sgx_report_t]
         (bindX (sgx_ocall H OCALL_REMOTE_ATTESTATION ms) (\<lambda>status.
            bindX (fetch H ms 40) (\<lambda>quote_size :: u32. bindX (fetch H ms 32) (\<lambda>p.
              thenX (sgx_copy_to_enclave H quote (ucast quote_size) p (ucast quote_size)) (retX (status, quote_size))))))))"

end
