(* ===== verification/AesCtr.thy ===== *)
theory AesCtr
  imports Prelude
begin

text \<open>
  The counter mode of AES (\<open>wolfssl/aes.c\<close>, \<open>wc_AesCtrEncrypt\<close> and what it uses), with
  which the descriptors encrypt files: a key stream of encrypted counter values, of which the part of
  a block that was not used is kept for the next call.

  The cipher on one block, \<open>wc_AesEncrypt\<close> with the key schedule, is the parameter \<open>E\<close> of
  the definitions, a function of the key and the block; nothing is assumed of it but that it gives 16
  bytes. Buffers are lists, input and output do not overlap.
\<close>

definition AES_BLOCK_SIZE :: nat where "AES_BLOCK_SIZE = 16"
definition BAD_FUNC_ARG :: int where "BAD_FUNC_ARG = - 173"

record aes =
  aes_key :: "u8 list"
  aes_reg :: "u8 list"
  aes_tmp :: "u8 list"
  aes_left :: nat

type_synonym block_cipher = "u8 list \<Rightarrow> u8 list \<Rightarrow> u8 list"

section \<open>The code\<close>

text \<open>The key schedule belongs to the block cipher: the state holds the key.\<close>

definition wc_AesSetKey :: "aes \<Rightarrow> u8 list \<Rightarrow> nat \<Rightarrow> u8 list \<Rightarrow> aes \<times> int" where
  "wc_AesSetKey a userKey keylen iv =
     (if keylen \<notin> {16, 24, 32} then (a, BAD_FUNC_ARG)
      else (a\<lparr>aes_left := 0, aes_key := take keylen userKey, aes_reg := take AES_BLOCK_SIZE iv\<rparr>, 0))"

text \<open>\<open>i\<close> is one more than the index of the byte that is incremented next.\<close>

fun IncrementAesCounter_loop :: "nat \<Rightarrow> u8 list \<Rightarrow> u8 list" where
  "IncrementAesCounter_loop 0 ctr = ctr"
| "IncrementAesCounter_loop (Suc i) ctr =
     (let ctr' = ctr[i := ctr ! i + 1] in if ctr' ! i \<noteq> 0 then ctr' else IncrementAesCounter_loop i ctr')"

definition IncrementAesCounter :: "u8 list \<Rightarrow> u8 list" where
  "IncrementAesCounter ctr = IncrementAesCounter_loop AES_BLOCK_SIZE ctr"

text \<open>The bytes left of the last block; then whole blocks; each returns the output and the input that
  remains.\<close>

fun ctr_left :: "aes \<Rightarrow> u8 list \<Rightarrow> aes \<times> u8 list \<times> u8 list" where
  "ctr_left a [] = (a, [], [])"
| "ctr_left a (b # bs) =
     (if aes_left a = 0 then (a, [], b # bs)
      else case ctr_left (a\<lparr>aes_left := aes_left a - 1\<rparr>) bs of
        (a', out, rest) \<Rightarrow> (a', (b XOR aes_tmp a ! (AES_BLOCK_SIZE - aes_left a)) # out, rest))"

function ctr_blocks :: "block_cipher \<Rightarrow> aes \<Rightarrow> u8 list \<Rightarrow> aes \<times> u8 list \<times> u8 list" where
  "ctr_blocks E a bs =
     (if length bs < AES_BLOCK_SIZE then (a, [], bs)
      else
        let out = map2 (XOR) (E (aes_key a) (aes_reg a)) (take AES_BLOCK_SIZE bs);
            a' = a\<lparr>aes_reg := IncrementAesCounter (aes_reg a), aes_left := 0\<rparr>
        in case ctr_blocks E a' (drop AES_BLOCK_SIZE bs) of (a'', out', rest) \<Rightarrow> (a'', out @ out', rest))"
  by auto
termination
  by (relation "measure (\<lambda>(E, a, bs). length bs)") (auto simp: AES_BLOCK_SIZE_def)

declare ctr_blocks.simps [simp del]

definition wc_AesCtrEncrypt :: "block_cipher \<Rightarrow> aes \<Rightarrow> u8 list \<Rightarrow> aes \<times> u8 list" where
  "wc_AesCtrEncrypt E a inp =
     (case ctr_left a inp of (a1, out1, rest1) \<Rightarrow>
      case ctr_blocks E a1 rest1 of (a2, out2, rest2) \<Rightarrow>
        if rest2 = [] then (a2, out1 @ out2)
        else
          let a3 = a2\<lparr>aes_tmp := E (aes_key a2) (aes_reg a2), aes_reg := IncrementAesCounter (aes_reg a2),
                aes_left := AES_BLOCK_SIZE\<rparr>
          in case ctr_left a3 rest2 of (a4, out3, _) \<Rightarrow> (a4, out1 @ out2 @ out3))"

section \<open>The counter\<close>

text \<open>The number a counter stands for, most significant byte first.\<close>

definition be_value :: "u8 list \<Rightarrow> nat" where "be_value bs = foldl (\<lambda>n b. 256 * n + unat b) 0 bs"

lemma foldl_be: "foldl (\<lambda>n b. 256 * n + unat b) n bs = n * 256 ^ length bs + be_value bs" for bs :: "u8 list"
proof (induction bs arbitrary: n)
  case (Cons b bs)
  have "foldl (\<lambda>n b. 256 * n + unat b) n (b # bs) = (256 * n + unat b) * 256 ^ length bs + be_value bs"
    using Cons.IH [of "256 * n + unat b"] by simp
  moreover have "be_value (b # bs) = unat b * 256 ^ length bs + be_value bs"
    using Cons.IH [of "unat b"] by (simp add: be_value_def)
  ultimately show ?case by (simp add: algebra_simps)
qed (simp add: be_value_def)

lemma be_value_snoc: "be_value (bs @ [b]) = 256 * be_value bs + unat b"
  by (simp add: be_value_def)

lemma be_value_append: "be_value (xs @ ys) = be_value xs * 256 ^ length ys + be_value ys"
  using foldl_be [of "be_value xs" ys] by (simp add: be_value_def)

lemma be_value_less: "be_value bs < 256 ^ length bs"
proof (induction bs rule: rev_induct)
  case (snoc b bs)
  have "unat b < 256" using unsigned_less [of b] by simp
  with snoc show ?case by (simp add: be_value_snoc)
qed (simp add: be_value_def)

lemma length_increment_loop [simp]: "length (IncrementAesCounter_loop i ctr) = length ctr"
  by (induction i ctr rule: IncrementAesCounter_loop.induct) (auto simp: Let_def)

lemma length_increment [simp]: "length (IncrementAesCounter ctr) = length ctr"
  by (simp add: IncrementAesCounter_def)

lemma increment_loop_value:
  "i \<le> length ctr \<Longrightarrow> \<forall>j. i \<le> j \<longrightarrow> j < length ctr \<longrightarrow> ctr ! j = 0 \<Longrightarrow>
   be_value (IncrementAesCounter_loop i ctr) = (be_value ctr + 256 ^ (length ctr - i)) mod 256 ^ length ctr"
proof (induction i ctr rule: IncrementAesCounter_loop.induct)
  case (1 ctr)
  then have "be_value ctr < 256 ^ length ctr" by (simp add: be_value_less)
  then show ?case by simp
next
  case (2 i ctr)
  let ?n = "length ctr - Suc i"
  have i: "i < length ctr" "length ctr - i = Suc ?n" using "2.prems"(1) by simp_all
  have split: "be_value (ctr[i := b]) = be_value (take i ctr) * 256 ^ Suc ?n + unat b * 256 ^ ?n" for b
  proof -
    have "drop (Suc i) ctr = replicate ?n 0"
      by (rule nth_equalityI) (use "2.prems" in auto)
    moreover have "be_value (replicate n 0) = 0" for n by (induction n) (simp_all add: be_value_def)
    ultimately show ?thesis
      using i(1) be_value_append [of "take i ctr" "b # drop (Suc i) ctr"] be_value_append [of "[b]" "drop (Suc i) ctr"]
      by (simp add: upd_conv_take_nth_drop be_value_def)
  qed
  have old: "be_value ctr = be_value (take i ctr) * 256 ^ Suc ?n + unat (ctr ! i) * 256 ^ ?n"
    using split [of "ctr ! i"] by simp
  have lt: "unat (ctr ! i) < 256" using unsigned_less [of "ctr ! i"] by simp
  show ?case
  proof (cases "ctr ! i + 1 = 0")
    case False
    then have "unat (ctr ! i + 1) = unat (ctr ! i) + 1"
      by (metis Suc_eq_plus1 add.commute unatSuc)
    then have "be_value (ctr[i := ctr ! i + 1]) = be_value ctr + 256 ^ ?n"
      using split [of "ctr ! i + 1"] old by (simp add: algebra_simps)
    then show ?thesis using False i be_value_less [of "ctr[i := ctr ! i + 1]"] by (simp add: Let_def)
  next
    case True
    then have "ctr ! i = - 1" by (simp add: eq_neg_iff_add_eq_0)
    then have c: "unat (ctr ! i) = 255" by (simp add: unsigned_minus_1_eq_mask mask_eq_exp_minus_1)
    have "be_value (IncrementAesCounter_loop i (ctr[i := 0])) =
        (be_value (ctr[i := 0]) + 256 ^ (length ctr - i)) mod 256 ^ length ctr"
      using "2.IH" [OF refl] True i "2.prems" by (simp add: nth_list_update)
    moreover have "be_value (ctr[i := 0]) + 256 ^ (length ctr - i) = be_value ctr + 256 ^ ?n"
      using split [of 0] old by (simp add: c i(2) algebra_simps)
    ultimately show ?thesis using True i(1) by (simp add: Let_def)
  qed
qed

text \<open>The counter counts: it is the next number, modulo \<open>2 ^ 128\<close>.\<close>

lemma increment_value:
  "length ctr = 16 \<Longrightarrow> be_value (IncrementAesCounter ctr) = (be_value ctr + 1) mod 2 ^ 128"
  using increment_loop_value [of 16 ctr] by (simp add: IncrementAesCounter_def AES_BLOCK_SIZE_def)

section \<open>The key stream\<close>

text \<open>The byte at position \<open>j\<close> of the stream that is still to be used.\<close>

definition ctr_stream :: "block_cipher \<Rightarrow> aes \<Rightarrow> nat \<Rightarrow> u8" where
  "ctr_stream E a j =
     (if j < aes_left a then aes_tmp a ! (16 - aes_left a + j)
      else E (aes_key a) ((IncrementAesCounter ^^ ((j - aes_left a) div 16)) (aes_reg a)) ! ((j - aes_left a) mod 16))"

definition aes_wf :: "aes \<Rightarrow> bool" where
  "aes_wf a \<longleftrightarrow> length (aes_reg a) = 16 \<and> aes_left a \<le> 16 \<and> (aes_left a > 0 \<longrightarrow> length (aes_tmp a) = 16)"

definition gives_blocks :: "block_cipher \<Rightarrow> bool" where
  "gives_blocks E \<longleftrightarrow> (\<forall>k b. length b = 16 \<longrightarrow> length (E k b) = 16)"

text \<open>What a part of the code does: it consumes the front of the input, and the stream goes on where
  it stopped.\<close>

definition consumes :: "block_cipher \<Rightarrow> aes \<Rightarrow> u8 list \<Rightarrow> aes \<times> u8 list \<Rightarrow> bool" where
  "consumes E a inp r \<longleftrightarrow> (case r of (a', out) \<Rightarrow> aes_wf a' \<and> aes_key a' = aes_key a \<and> length out \<le> length inp \<and>
     (\<forall>j<length out. out ! j = inp ! j XOR ctr_stream E a j) \<and>
     (\<forall>j. ctr_stream E a' j = ctr_stream E a (length out + j)))"

lemma consumes_nil: "aes_wf a \<Longrightarrow> consumes E a inp (a, [])"
  by (simp add: consumes_def)

lemma consumes_append:
  assumes "consumes E a inp (a1, out1)" "consumes E a1 (drop (length out1) inp) (a2, out2)"
  shows "consumes E a inp (a2, out1 @ out2)"
proof -
  have "(out1 @ out2) ! j = inp ! j XOR ctr_stream E a j" if "j < length (out1 @ out2)" for j
  proof (cases "j < length out1")
    case False
    then have "j - length out1 < length out2" using that by simp
    then have "out2 ! (j - length out1) = drop (length out1) inp ! (j - length out1) XOR ctr_stream E a1 (j - length out1)"
      using assms(2) by (simp add: consumes_def)
    then show ?thesis using False assms by (simp add: consumes_def nth_append)
  qed (use assms(1) in \<open>simp add: consumes_def nth_append\<close>)
  then show ?thesis using assms by (auto simp: consumes_def add.assoc)
qed

lemma ctr_left_ok:
  assumes "aes_wf a" "ctr_left a inp = (a', out, rest)"
  shows "consumes E a inp (a', out) \<and> inp = take (length out) inp @ rest \<and> (rest \<noteq> [] \<longrightarrow> aes_left a' = 0) \<and>
    length out = min (aes_left a) (length inp)"
  using assms
proof (induction a inp arbitrary: a' out rest rule: ctr_left.induct)
  case (1 a)
  then show ?case by (simp add: consumes_nil)
next
  case (2 a b bs)
  show ?case
  proof (cases "aes_left a = 0")
    case True
    then show ?thesis using "2.prems" by (simp add: consumes_nil)
  next
    case False
    let ?a = "a\<lparr>aes_left := aes_left a - 1\<rparr>"
    obtain out' where r: "ctr_left ?a bs = (a', out', rest)" "out = (b XOR aes_tmp a ! (16 - aes_left a)) # out'"
      using "2.prems"(2) False by (auto simp: AES_BLOCK_SIZE_def split: prod.splits)
    have wf: "aes_wf ?a" using "2.prems"(1) by (auto simp: aes_wf_def)
    note IH = "2.IH" [OF False wf r(1)]
    have "16 - (aes_left a - 1) + j = 16 - aes_left a + (j + 1)" if "j < aes_left a - 1" for j
      using "2.prems"(1) False by (auto simp: aes_wf_def)
    then have "ctr_stream E ?a j = ctr_stream E a (1 + j)" for j
      using False by (auto simp: ctr_stream_def)
    then have "consumes E a (b # bs) (?a, [b XOR aes_tmp a ! (16 - aes_left a)])"
      using wf False by (simp add: consumes_def) (simp add: ctr_stream_def)
    from consumes_append [OF this, of a' out'] IH show ?thesis using False by (auto simp: r(2))
  qed
qed

lemma stream_next_block:
  "aes_left a = 0 \<Longrightarrow> ctr_stream E (a\<lparr>aes_reg := IncrementAesCounter (aes_reg a), aes_left := 0\<rparr>) j = ctr_stream E a (16 + j)"
  by (simp add: ctr_stream_def funpow_Suc_right div_add_self1 del: funpow.simps)

lemma ctr_blocks_ok:
  assumes "gives_blocks E" "aes_wf a" "aes_left a = 0 \<or> length inp < 16" "ctr_blocks E a inp = (a', out, rest)"
  shows "consumes E a inp (a', out) \<and> inp = take (length out) inp @ rest \<and> length rest < 16 \<and>
    (rest \<noteq> [] \<longrightarrow> aes_left a = 0 \<longrightarrow> aes_left a' = 0) \<and> (aes_left a \<noteq> 0 \<longrightarrow> a' = a)"
  using assms
proof (induction E a inp arbitrary: a' out rest rule: ctr_blocks.induct)
  case (1 E a bs)
  show ?case
  proof (cases "length bs < 16")
    case True
    then show ?thesis using "1.prems" by (simp add: ctr_blocks.simps [of E a bs] AES_BLOCK_SIZE_def consumes_nil)
  next
    case False
    let ?a = "a\<lparr>aes_reg := IncrementAesCounter (aes_reg a), aes_left := 0\<rparr>"
    let ?out = "map2 (XOR) (E (aes_key a) (aes_reg a)) (take 16 bs)"
    obtain out' where r: "ctr_blocks E ?a (drop 16 bs) = (a', out', rest)" "out = ?out @ out'"
      using "1.prems"(4) False by (auto simp: ctr_blocks.simps [of E a bs] AES_BLOCK_SIZE_def Let_def split: prod.splits)
    have left: "aes_left a = 0" using "1.prems"(3) False by simp
    have wf: "aes_wf ?a" using "1.prems"(2) by (simp add: aes_wf_def)
    have len: "length (E (aes_key a) (aes_reg a)) = 16" using "1.prems"(1,2) by (simp add: gives_blocks_def aes_wf_def)
    then have o: "length ?out = 16" using False by simp
    have IH: "consumes E ?a (drop 16 bs) (a', out') \<and> drop 16 bs = take (length out') (drop 16 bs) @ rest \<and>
      length rest < 16 \<and> (rest \<noteq> [] \<longrightarrow> aes_left ?a = 0 \<longrightarrow> aes_left a' = 0) \<and> (aes_left ?a \<noteq> 0 \<longrightarrow> a' = ?a)"
      by (rule "1.IH" [unfolded AES_BLOCK_SIZE_def, OF _ refl refl]) (use False "1.prems"(1) wf r(1) in simp_all)
    have "?out ! j = bs ! j XOR ctr_stream E a j" if "j < 16" for j
      using that len False left by (simp add: ctr_stream_def xor.commute)
    then have "consumes E a bs (?a, ?out)"
      using wf o False stream_next_block [OF left, of E] by (simp add: consumes_def)
    from consumes_append [OF this, of a' out'] IH o
    have c: "consumes E a bs (a', out)" by (simp add: r(2))
    have "bs = take 16 bs @ take (length out') (drop 16 bs) @ rest"
      using IH by (metis append_take_drop_id)
    then have "bs = take (length out) bs @ rest"
      using o by (metis r(2) append_assoc length_append take_add)
    then show ?thesis using c IH left by simp
  qed
qed

lemma stream_partial_block:
  assumes "aes_left a = 0"
  shows "ctr_stream E (a\<lparr>aes_tmp := E (aes_key a) (aes_reg a), aes_reg := IncrementAesCounter (aes_reg a),
    aes_left := 16\<rparr>) j = ctr_stream E a j"
proof (cases "j < 16")
  case False
  then obtain i where "j = 16 + i" by (metis le_Suc_ex not_less)
  then show ?thesis using assms by (simp add: ctr_stream_def funpow_Suc_right div_add_self1 del: funpow.simps)
qed (simp add: ctr_stream_def assms)

lemma wc_AesCtrEncrypt_ok:
  assumes "gives_blocks E" "aes_wf a"
  shows "consumes E a inp (wc_AesCtrEncrypt E a inp) \<and> length (snd (wc_AesCtrEncrypt E a inp)) = length inp"
proof -
  obtain a1 out1 rest1 where l: "ctr_left a inp = (a1, out1, rest1)" by (cases "ctr_left a inp")
  obtain a2 out2 rest2 where b: "ctr_blocks E a1 rest1 = (a2, out2, rest2)" by (cases "ctr_blocks E a1 rest1")
  have 1: "consumes E a inp (a1, out1)" "inp = take (length out1) inp @ rest1" "rest1 \<noteq> [] \<longrightarrow> aes_left a1 = 0"
    using ctr_left_ok [OF assms(2) l] by blast+
  then have wf1: "aes_wf a1" and rest1: "rest1 = drop (length out1) inp"
    by (simp add: consumes_def) (metis 1(2) append_eq_conv_conj append_take_drop_id)
  have "aes_left a1 = 0 \<or> length rest1 < 16" using 1(3) by auto
  from ctr_blocks_ok [OF assms(1) wf1 this b] have 2: "consumes E a1 rest1 (a2, out2)"
    "rest1 = take (length out2) rest1 @ rest2" "length rest2 < 16" "rest2 \<noteq> [] \<longrightarrow> aes_left a1 = 0 \<longrightarrow> aes_left a2 = 0"
    by blast+
  have c12: "consumes E a inp (a2, out1 @ out2)" by (rule consumes_append [OF 1(1)]) (use 2(1) rest1 in simp)
  have rest2: "rest2 = drop (length (out1 @ out2)) inp"
    using 2(2) rest1 by (metis append_eq_conv_conj append_take_drop_id drop_drop length_append add.commute)
  show ?thesis
  proof (cases "rest2 = []")
    case True
    have "length inp \<le> length out1 + length out2" using True rest2 by simp
    moreover have "length (out1 @ out2) \<le> length inp" using c12 by (simp add: consumes_def)
    ultimately show ?thesis using True c12 l b by (simp add: wc_AesCtrEncrypt_def)
  next
    case False
    then have left: "aes_left a2 = 0" using 2 1(3) by (cases rest1) auto
    let ?a3 = "a2\<lparr>aes_tmp := E (aes_key a2) (aes_reg a2), aes_reg := IncrementAesCounter (aes_reg a2), aes_left := 16\<rparr>"
    have wf2: "aes_wf a2" using c12 by (simp add: consumes_def)
    then have wf3: "aes_wf ?a3" using assms(1) by (simp add: aes_wf_def gives_blocks_def)
    obtain a4 out3 rest3 where t: "ctr_left ?a3 rest2 = (a4, out3, rest3)" by (cases "ctr_left ?a3 rest2")
    have 3: "consumes E ?a3 rest2 (a4, out3)" "length out3 = length rest2"
      using ctr_left_ok [OF wf3 t] 2(3) by simp_all
    have "consumes E a2 rest2 (a4, out3)" using 3(1) stream_partial_block [OF left] by (simp add: consumes_def)
    then have "consumes E a inp (a4, (out1 @ out2) @ out3)" by (intro consumes_append [OF c12]) (simp add: rest2)
    moreover have "length ((out1 @ out2) @ out3) = length inp"
      using 3(2) rest2 c12 by (simp add: consumes_def)
    ultimately show ?thesis using False l b t by (simp add: wc_AesCtrEncrypt_def AES_BLOCK_SIZE_def)
  qed
qed

lemma encrypt_nth:
  assumes "gives_blocks E" "aes_wf a" "j < length inp"
  shows "snd (wc_AesCtrEncrypt E a inp) ! j = inp ! j XOR ctr_stream E a j"
  using wc_AesCtrEncrypt_ok [OF assms(1,2), of inp] assms(3) by (auto simp: consumes_def split: prod.splits)

lemma encrypt_stream:
  assumes "gives_blocks E" "aes_wf a"
  shows "ctr_stream E (fst (wc_AesCtrEncrypt E a inp)) j = ctr_stream E a (length inp + j)"
    "aes_wf (fst (wc_AesCtrEncrypt E a inp))" "length (snd (wc_AesCtrEncrypt E a inp)) = length inp"
  using wc_AesCtrEncrypt_ok [OF assms, of inp] by (auto simp: consumes_def split: prod.splits)

lemma encrypt_append:
  assumes "gives_blocks E" "aes_wf a"
  shows "snd (wc_AesCtrEncrypt E a (xs @ ys)) =
    snd (wc_AesCtrEncrypt E a xs) @ snd (wc_AesCtrEncrypt E (fst (wc_AesCtrEncrypt E a xs)) ys)"
proof -
  note a = encrypt_stream [OF assms, where inp = xs]
  show ?thesis
    by (rule nth_equalityI)
      (auto simp: encrypt_nth assms a encrypt_stream(3) [OF assms] encrypt_stream(3) [OF assms(1) a(2)] nth_append)
qed

lemma encrypt_twice:
  "gives_blocks E \<Longrightarrow> aes_wf a \<Longrightarrow> snd (wc_AesCtrEncrypt E a (snd (wc_AesCtrEncrypt E a xs))) = xs"
  by (rule nth_equalityI) (simp_all add: encrypt_nth encrypt_stream(3) xor.assoc)

section \<open>The properties\<close>

text \<open>C17: Counter mode is a stream cipher, however the stream is cut: data that is encrypted in two
  calls, of any lengths, gives the same bytes as in one, and applying it again from the same state
  gives the data back. The counter that drives it takes all its \<open>2 ^ 128\<close> values.\<close>

theorem aes_ctr_stream:
  assumes "gives_blocks E" "aes_wf a"
  shows "snd (wc_AesCtrEncrypt E a (xs @ ys)) =
      snd (wc_AesCtrEncrypt E a xs) @ snd (wc_AesCtrEncrypt E (fst (wc_AesCtrEncrypt E a xs)) ys) \<and>
    snd (wc_AesCtrEncrypt E a (snd (wc_AesCtrEncrypt E a xs))) = xs \<and>
    be_value (IncrementAesCounter (aes_reg a)) = (be_value (aes_reg a) + 1) mod 2 ^ 128"
  using encrypt_append [OF assms] encrypt_twice [OF assms] increment_value assms(2) by (simp add: aes_wf_def)

theorem aes_ctr_stream_witness:
  "snd (wc_AesCtrEncrypt (\<lambda>k b. b) \<lparr>aes_key = [], aes_reg = replicate 16 255, aes_tmp = [], aes_left = 0\<rparr> [1, 2, 3]) = [254, 253, 252] \<and>
   snd (wc_AesCtrEncrypt (\<lambda>k b. b) \<lparr>aes_key = [], aes_reg = replicate 16 255, aes_tmp = [], aes_left = 0\<rparr> [254, 253, 252]) = [1, 2, 3]"
proof -
  let ?a = "\<lparr>aes_key = [], aes_reg = replicate 16 255, aes_tmp = [], aes_left = 0\<rparr> :: aes"
  have wf: "gives_blocks (\<lambda>k b. b)" "aes_wf ?a" by (simp_all add: gives_blocks_def aes_wf_def)
  have "snd (wc_AesCtrEncrypt (\<lambda>k b. b) ?a [1, 2, 3]) = [254, 253, 252]"
    by (rule nth_equalityI)
      (auto simp: encrypt_stream(3) [OF wf] encrypt_nth [OF wf] ctr_stream_def less_Suc_eq numeral_3_eq_3)
  then show ?thesis using aes_ctr_stream [OF wf, of "[1, 2, 3]" "[]"] by simp
qed

end
