(* ===== verification/HostDesc.thy ===== *)
theory HostDesc
  imports OcallMisc AesCtr Errno NaClConfig
begin

text \<open>
  Host descriptors inside the enclave (\<open>shared/platform/sgx/nacl_host_desc.c\<close> and
  \<open>nacl_host_desc_common.c\<close>): the files of the sandboxed program, which are read and written by
  calls out of the enclave and encrypted by AES in counter mode once a key has been fetched.

  A descriptor is a record whose update is returned. What is not code of this file is a parameter: the
  host and its memory (\<open>Enclave\<close>), the value of \<open>errno\<close>, which no call out of the enclave
  sets, the addresses \<open>malloc\<close> returns, the result of starting the random generator, the bytes of
  an uninitialised \<open>Aes\<close>, and the one-block cipher. The access server, the trace log and the key
  server, with which a file is opened over TLS, are the parameters of \<open>open_services\<close>.
\<close>

section \<open>Flags and modes\<close>

definition S_IRUSR :: u32 where "S_IRUSR = 256"
definition S_IWUSR :: u32 where "S_IWUSR = 128"
definition S_IXUSR :: u32 where "S_IXUSR = 64"
definition NACL_ABI_S_IRUSR :: u32 where "NACL_ABI_S_IRUSR = 256"
definition NACL_ABI_S_IWUSR :: u32 where "NACL_ABI_S_IWUSR = 128"
definition NACL_ABI_S_IXUSR :: u32 where "NACL_ABI_S_IXUSR = 64"
definition R_OK :: u32 where "R_OK = 4"
definition W_OK :: u32 where "W_OK = 2"
definition X_OK :: u32 where "X_OK = 1"
definition F_OK :: u32 where "F_OK = 0"
definition NACL_ABI_R_OK :: u32 where "NACL_ABI_R_OK = 4"
definition NACL_ABI_W_OK :: u32 where "NACL_ABI_W_OK = 2"
definition NACL_ABI_X_OK :: u32 where "NACL_ABI_X_OK = 1"
definition NACL_ABI_F_OK :: u32 where "NACL_ABI_F_OK = 0"
definition O_RDONLY :: u32 where "O_RDONLY = 0"
definition O_WRONLY :: u32 where "O_WRONLY = 1"
definition O_RDWR :: u32 where "O_RDWR = 2"
definition O_CREAT :: u32 where "O_CREAT = 64"
definition O_EXCL :: u32 where "O_EXCL = 128"
definition O_TRUNC :: u32 where "O_TRUNC = 512"
definition O_APPEND :: u32 where "O_APPEND = 1024"
definition O_LARGEFILE :: u32 where "O_LARGEFILE = 0x8000"
definition F_GETFL :: u32 where "F_GETFL = 3"
definition F_SETFL :: u32 where "F_SETFL = 4"
definition PROT_READ :: u32 where "PROT_READ = 1"
definition PROT_WRITE :: u32 where "PROT_WRITE = 2"
definition PROT_EXEC :: u32 where "PROT_EXEC = 4"
definition MAP_SHARED :: u32 where "MAP_SHARED = 1"
definition MAP_PRIVATE :: u32 where "MAP_PRIVATE = 2"
definition MAP_FIXED :: u32 where "MAP_FIXED = 16"
definition MAP_ANONYMOUS :: u32 where "MAP_ANONYMOUS = 32"

lemmas host_consts = S_IRUSR_def S_IWUSR_def S_IXUSR_def NACL_ABI_S_IRUSR_def NACL_ABI_S_IWUSR_def
  NACL_ABI_S_IXUSR_def R_OK_def W_OK_def X_OK_def F_OK_def NACL_ABI_R_OK_def NACL_ABI_W_OK_def
  NACL_ABI_X_OK_def NACL_ABI_F_OK_def O_RDONLY_def O_WRONLY_def O_RDWR_def O_CREAT_def O_EXCL_def
  O_TRUNC_def O_APPEND_def PROT_READ_def PROT_WRITE_def PROT_EXEC_def MAP_SHARED_def MAP_PRIVATE_def
  MAP_FIXED_def MAP_ANONYMOUS_def

text \<open>\<open>M(H)\<close>: the host's bit when the interface's bit is set.\<close>

definition map_bit :: "u32 \<Rightarrow> u32 \<Rightarrow> u32 \<Rightarrow> u32 \<Rightarrow> u32" where
  "map_bit abi abi_bit host_bit acc = (if abi AND abi_bit \<noteq> 0 then acc OR host_bit else acc)"

definition NaClMapMode :: "u32 \<Rightarrow> u32" where
  "NaClMapMode abi_mode = map_bit abi_mode NACL_ABI_S_IXUSR S_IXUSR
     (map_bit abi_mode NACL_ABI_S_IWUSR S_IWUSR (map_bit abi_mode NACL_ABI_S_IRUSR S_IRUSR 0))"

definition NaClMapAccessMode :: "u32 \<Rightarrow> u32" where
  "NaClMapAccessMode nacl_mode =
     (if nacl_mode = NACL_ABI_F_OK then F_OK
      else map_bit nacl_mode NACL_ABI_X_OK X_OK (map_bit nacl_mode NACL_ABI_W_OK W_OK (map_bit nacl_mode NACL_ABI_R_OK R_OK 0)))"

definition NaClMapOpenFlags :: "u32 \<Rightarrow> u32" where
  "NaClMapOpenFlags nacl_flags =
     (let f = nacl_flags AND (NACL_ABI_O_ACCMODE OR NACL_ABI_O_CREAT OR NACL_ABI_O_EXCL OR NACL_ABI_O_TRUNC OR NACL_ABI_O_APPEND);
          acc = f AND NACL_ABI_O_ACCMODE;
          h = (if acc = NACL_ABI_O_RDONLY then O_RDONLY else if acc = NACL_ABI_O_WRONLY then O_WRONLY
               else if acc = NACL_ABI_O_RDWR then O_RDWR else 0)
      in map_bit f NACL_ABI_O_APPEND O_APPEND (map_bit f NACL_ABI_O_TRUNC O_TRUNC
         (map_bit f NACL_ABI_O_EXCL O_EXCL (map_bit f NACL_ABI_O_CREAT O_CREAT h))))"

definition NaClMapOpenPerm :: "u32 \<Rightarrow> u32" where
  "NaClMapOpenPerm nacl_perm = map_bit nacl_perm NACL_ABI_S_IWUSR S_IWUSR (map_bit nacl_perm NACL_ABI_S_IRUSR S_IRUSR 0)"

definition NaClMapFlagMap :: "u32 \<Rightarrow> u32" where
  "NaClMapFlagMap nacl_map_flags = map_bit nacl_map_flags NACL_ABI_MAP_ANONYMOUS MAP_ANONYMOUS
     (map_bit nacl_map_flags NACL_ABI_MAP_FIXED MAP_FIXED (map_bit nacl_map_flags NACL_ABI_MAP_PRIVATE MAP_PRIVATE
     (map_bit nacl_map_flags NACL_ABI_MAP_SHARED MAP_SHARED 0)))"

definition NaClProtMap :: "u32 \<Rightarrow> u32" where
  "NaClProtMap abi_prot = map_bit abi_prot NACL_ABI_PROT_EXEC PROT_EXEC
     (map_bit abi_prot NACL_ABI_PROT_WRITE PROT_WRITE (map_bit abi_prot NACL_ABI_PROT_READ PROT_READ 0))"

definition NACL_ALLOWED_OPEN_FLAGS :: u32 where
  "NACL_ALLOWED_OPEN_FLAGS =
     NACL_ABI_O_ACCMODE OR NACL_ABI_O_CREAT OR NACL_ABI_O_TRUNC OR NACL_ABI_O_APPEND OR NACL_ABI_O_EXCL"

section \<open>Descriptors\<close>

record desc_ctx =
  sks_key :: "u8 list option"
  sks_key_len :: u32
  iv :: "u8 list"

record host_desc =
  hd_d :: u32
  hd_flags :: u32
  hd_ctx :: "desc_ctx option"

record desc_env =
  errno_now :: u32
  block_cipher :: block_cipher
  malloc_input :: u64
  malloc_output :: u64
  stack_aes :: aes
  rng_init :: u32

text \<open>\<open>return -NaClXlateErrno(errno)\<close>, in a result of 32 or of 64 bits.\<close>

definition neg_errno :: "desc_env \<Rightarrow> u32" where "neg_errno V = - NaClXlateErrno (errno_now V)"

definition fail_errno :: "desc_env \<Rightarrow> u64" where "fail_errno V = scast (neg_errno V)"

definition NaClHostDescCheckValidity :: "host_desc option \<Rightarrow> host_desc run" where
  "NaClHostDescCheckValidity d = (case d of
       None \<Rightarrow> Inl LogFatal
     | Some h \<Rightarrow> if hd_d h = - 1 then Inl LogFatal else Inr h)"

definition with_valid :: "host_desc option \<Rightarrow> (host_desc \<Rightarrow> ('h, 'a) act) \<Rightarrow> ('h, 'a) act" where
  "with_valid d body = (case NaClHostDescCheckValidity d of Inl e \<Rightarrow> failX e | Inr h \<Rightarrow> body h)"

text \<open>Whether reads and writes go through the cipher.\<close>

definition usable_key :: "host_desc \<Rightarrow> (desc_ctx \<times> u8 list) option" where
  "usable_key h = (case hd_ctx h of
       None \<Rightarrow> None
     | Some c \<Rightarrow> (case sks_key c of None \<Rightarrow> None | Some k \<Rightarrow> if sks_key_len c \<noteq> 64 then None else Some (c, k)))"

section \<open>Reading and writing\<close>

definition set_mem :: "u64 \<Rightarrow> u8 list \<Rightarrow> ('h, unit) act" where
  "set_mem a bs st = Inr ((), st\<lparr>mem := store_bytes a bs (mem st)\<rparr>)"

text \<open>\<open>wc_AesCtrEncrypt(&aes, output, input, n)\<close> on memory; the result is the error code.\<close>

definition aes_ctr_memory :: "block_cipher \<Rightarrow> aes \<Rightarrow> u64 \<Rightarrow> u64 \<Rightarrow> u32 \<Rightarrow> ('h, int) act" where
  "aes_ctr_memory E a output input n st =
     (if output = 0 \<or> input = 0 then Inr (BAD_FUNC_ARG, st)
      else thenX (set_mem output (snd (wc_AesCtrEncrypt E a (load_bytes input (unat n) (mem st))))) (retX 0) st)"

definition ReadFile ::
    "'h host_behaviour \<Rightarrow> desc_env \<Rightarrow> host_desc \<Rightarrow> desc_ctx \<Rightarrow> u8 list \<Rightarrow> u64 \<Rightarrow> u64 \<Rightarrow> ('h, u64) act" where
  "ReadFile H V h c k buf len =
     bindX (ocall_read H (hd_d h) (malloc_input V) (ucast len)) (\<lambda>r.
       if r = - 1 then retX (fail_errno V)
       else case wc_AesSetKey (stack_aes V) k AES_BLOCK_SIZE (iv c) of (a, e) \<Rightarrow>
         if e \<noteq> 0 then retX (- ucast NACL_ABI_EINVAL)
         else bindX (aes_ctr_memory (block_cipher V) a (malloc_output V) (malloc_input V) (ucast len)) (\<lambda>e.
           if e \<noteq> 0 then retX (- ucast NACL_ABI_EINVAL)
           else thenX (memcpyX H buf (malloc_output V) len) (retX (scast r))))"

definition NaClHostDescRead :: "'h host_behaviour \<Rightarrow> desc_env \<Rightarrow> host_desc option \<Rightarrow> u64 \<Rightarrow> u64 \<Rightarrow> ('h, u64) act" where
  "NaClHostDescRead H V d buf len = with_valid d (\<lambda>h.
     if hd_flags h AND NACL_ABI_O_ACCMODE = NACL_ABI_O_WRONLY then retX (- ucast NACL_ABI_EBADF)
     else case usable_key h of
       None \<Rightarrow> bindX (ocall_read H (hd_d h) buf (ucast len)) (\<lambda>r. retX (if r = - 1 then fail_errno V else scast r))
     | Some (c, k) \<Rightarrow> ReadFile H V h c k buf len)"

text \<open>The error of the cipher is overwritten by the result of the write.\<close>

definition WriteFile ::
    "'h host_behaviour \<Rightarrow> desc_env \<Rightarrow> host_desc \<Rightarrow> desc_ctx \<Rightarrow> u8 list \<Rightarrow> u64 \<Rightarrow> u64 \<Rightarrow> ('h, u64) act" where
  "WriteFile H V h c k buf len =
     (if rng_init V \<noteq> 0 then retX (- ucast NACL_ABI_EBADF)
      else case wc_AesSetKey (stack_aes V) k AES_BLOCK_SIZE (iv c) of (a, e) \<Rightarrow>
        if e \<noteq> 0 then retX (- ucast NACL_ABI_EBADF)
        else if malloc_input V = 0 \<and> len \<noteq> 0 then failX NullDeref
        else thenX (memcpyX H (malloc_input V) buf len)
          (bindX (aes_ctr_memory (block_cipher V) a (malloc_output V) (malloc_input V) (ucast len)) (\<lambda>_.
           bindX (ocall_write H (hd_d h) (malloc_output V) (ucast len)) (\<lambda>r.
             retX (if r = - 1 then fail_errno V else scast r)))))"

definition NaClHostDescWrite :: "'h host_behaviour \<Rightarrow> desc_env \<Rightarrow> host_desc option \<Rightarrow> u64 \<Rightarrow> u64 \<Rightarrow> ('h, u64) act" where
  "NaClHostDescWrite H V d buf len = with_valid d (\<lambda>h.
     if hd_flags h AND NACL_ABI_O_ACCMODE = NACL_ABI_O_RDONLY then retX (- ucast NACL_ABI_EBADF)
     else case usable_key h of
       None \<Rightarrow> bindX (ocall_write H (hd_d h) buf (ucast len)) (\<lambda>r. retX (if r = - 1 then fail_errno V else scast r))
     | Some (c, k) \<Rightarrow> WriteFile H V h c k buf len)"

definition NaClHostDescSeek :: "'h host_behaviour \<Rightarrow> desc_env \<Rightarrow> host_desc option \<Rightarrow> u64 \<Rightarrow> u32 \<Rightarrow> ('h, u64) act" where
  "NaClHostDescSeek H V d offset whence = with_valid d (\<lambda>h.
     bindX (ocall_lseek64 H (hd_d h) offset whence) (\<lambda>r. retX (if r = - 1 then fail_errno V else scast r)))"

definition NaClHostDescPRead :: "'h host_behaviour \<Rightarrow> desc_env \<Rightarrow> host_desc option \<Rightarrow> u64 \<Rightarrow> u64 \<Rightarrow> u64 \<Rightarrow> ('h, u64) act" where
  "NaClHostDescPRead H V d buf len offset = with_valid d (\<lambda>h.
     if hd_flags h AND NACL_ABI_O_ACCMODE = NACL_ABI_O_WRONLY then retX (- ucast NACL_ABI_EBADF)
     else bindX (ocall_pread64 H (hd_d h) buf len offset) (\<lambda>r. retX (if r = - 1 then fail_errno V else scast r)))"

text \<open>With \<open>O_APPEND\<close>, which is switched off meanwhile; the locks do nothing.\<close>

definition NaClHostDescPWrite :: "'h host_behaviour \<Rightarrow> desc_env \<Rightarrow> host_desc option \<Rightarrow> u64 \<Rightarrow> u64 \<Rightarrow> u64 \<Rightarrow> ('h, u64) act" where
  "NaClHostDescPWrite H V d buf len offset = with_valid d (\<lambda>h.
     if hd_flags h AND NACL_ABI_O_ACCMODE = NACL_ABI_O_RDONLY then retX (- ucast NACL_ABI_EBADF)
     else
       let write = bindX (ocall_pwrite64 H (hd_d h) buf len offset)
       in if hd_flags h AND NACL_ABI_O_APPEND \<noteq> 0 then
            bindX (ocall_fcntl H (hd_d h) F_GETFL 0) (\<lambda>orig_flags.
            if orig_flags AND O_APPEND = 0 then failX CheckFailed
            else bindX (ocall_fcntl H (hd_d h) F_SETFL (scast (orig_flags AND NOT O_APPEND))) (\<lambda>e.
            if e = - 1 then failX LogFatal
            else write (\<lambda>r. bindX (ocall_fcntl H (hd_d h) F_SETFL (scast orig_flags)) (\<lambda>e.
            if e = - 1 then failX LogFatal else retX (if r = - 1 then fail_errno V else scast r)))))
          else write (\<lambda>r. retX (if r = - 1 then fail_errno V else scast r)))"

section \<open>Opening and closing\<close>

definition NaClHostDescCtor :: "host_desc \<Rightarrow> u32 \<Rightarrow> u32 \<Rightarrow> u32 \<times> host_desc" where
  "NaClHostDescCtor h fd flags = (0, h\<lparr>hd_d := fd, hd_flags := flags\<rparr>)"

definition bad_open_flags :: "u32 \<Rightarrow> bool" where
  "bad_open_flags flags \<longleftrightarrow> flags AND NOT NACL_ALLOWED_OPEN_FLAGS \<noteq> 0 \<or>
     flags AND NACL_ABI_O_ACCMODE \<notin> {NACL_ABI_O_RDONLY, NACL_ABI_O_WRONLY, NACL_ABI_O_RDWR}"

text \<open>What happens before the flags are looked at: the access server grants the path or not, the
  clock is read, the trace log is sent, and the key server stores a key in the context.\<close>

record 'h open_services =
  check_file_status :: "u64 \<Rightarrow> desc_ctx option \<Rightarrow> ('h, bool) act"
  time_of_day :: "('h, u32) act"
  send_trace :: "u64 \<Rightarrow> u32 \<Rightarrow> ('h, unit) act"
  redis_get_key :: "desc_ctx option \<Rightarrow> ('h, desc_ctx option) act"

definition NaClHostDescOpen :: "'h host_behaviour \<Rightarrow> desc_env \<Rightarrow> 'h open_services \<Rightarrow>
    host_desc option \<Rightarrow> u64 \<Rightarrow> u32 \<Rightarrow> u32 \<Rightarrow> ('h, u32 \<times> host_desc) act" where
  "NaClHostDescOpen H V S d path flags mode = (case d of None \<Rightarrow> failX NullDeref | Some h \<Rightarrow>
     bindX (check_file_status S path (hd_ctx h)) (\<lambda>granted.
     if \<not> granted then retX (- 1, h)
     else bindX (time_of_day S) (\<lambda>retval.
       if retval \<noteq> 0 then retX (retval, h)
       else thenX (send_trace S path flags) (bindX (redis_get_key S (hd_ctx h)) (\<lambda>c.
         let h = h\<lparr>hd_ctx := c\<rparr> in
         if bad_open_flags flags then retX (- NACL_ABI_EINVAL, h)
         else bindX (ocall_open H path (NaClMapOpenFlags flags OR O_LARGEFILE) (ucast (NaClMapOpenPerm mode))) (\<lambda>fd.
           if fd = - 1 then retX (neg_errno V, h) else retX (NaClHostDescCtor h fd flags)))))))"

definition NaClHostDescPosixDup :: "'h host_behaviour \<Rightarrow> host_desc option \<Rightarrow> u32 \<Rightarrow> u32 \<Rightarrow> ('h, u32 \<times> host_desc) act" where
  "NaClHostDescPosixDup H d posix_d flags = (case d of None \<Rightarrow> failX LogFatal | Some h \<Rightarrow>
     if bad_open_flags flags then retX (- NACL_ABI_EINVAL, h)
     else bindX (ocall_dup H posix_d) (\<lambda>fd.
       if fd = - 1 then retX (- NACL_ABI_EINVAL, h) else retX (0, h\<lparr>hd_d := fd, hd_flags := flags\<rparr>)))"

definition NaClHostDescPosixTake :: "host_desc option \<Rightarrow> u32 \<Rightarrow> u32 \<Rightarrow> (u32 \<times> host_desc) run" where
  "NaClHostDescPosixTake d posix_d flags = (case d of None \<Rightarrow> Inl LogFatal | Some h \<Rightarrow>
     if bad_open_flags flags then Inr (- NACL_ABI_EINVAL, h)
     else Inr (0, h\<lparr>hd_d := posix_d, hd_flags := flags\<rparr>))"

text \<open>\<open>fresh\<close> is what \<open>malloc\<close> returned, null or a descriptor of arbitrary contents.\<close>

definition NaClHostDescPosixMake :: "host_desc option \<Rightarrow> u32 \<Rightarrow> u32 \<Rightarrow> host_desc run" where
  "NaClHostDescPosixMake fresh posix_d flags = (if fresh = None then Inl LogFatal
     else bindE (NaClHostDescPosixTake fresh posix_d flags) (\<lambda>(e, h). if e \<noteq> 0 then Inl LogFatal else Inr h))"

definition NaClHostDescClose :: "'h host_behaviour \<Rightarrow> desc_env \<Rightarrow> host_desc option \<Rightarrow> ('h, u32 \<times> host_desc) act" where
  "NaClHostDescClose H V d = with_valid d (\<lambda>h.
     bindX (ocall_close H (hd_d h)) (\<lambda>r.
       let h = (if r \<noteq> - 1 then h\<lparr>hd_d := - 1\<rparr> else h) in retX (if r = - 1 then neg_errno V else r, h)))"

end
