(* ===== verification/HostDescMisc.thy ===== *)
theory HostDescMisc
  imports HostDesc
begin

text \<open>
  The other operations of \<open>shared/platform/sgx/nacl_host_desc.c\<close>: mappings, attributes, and paths.
  They are one call out of the enclave each, whose failure becomes an error number, or nothing at
  all. \<open>fchdir\<close>, which is called by its C name, is a parameter, as is \<open>free\<close>.
\<close>

section \<open>Mappings\<close>

text \<open>The file is not mapped: the address is returned as it was given, and a mapping with
  \<open>PROT_EXEC\<close> is fatal. What is left after that check is not reached.\<close>

definition NaClHostDescMap :: "host_desc option \<Rightarrow> desc_env \<Rightarrow> u64 \<Rightarrow> u32 \<Rightarrow> u32 \<Rightarrow> u64 run" where
  "NaClHostDescMap d V start_addr prot flags =
     (if d = None \<and> flags AND NACL_ABI_MAP_ANONYMOUS = 0 then Inl LogFatal
      else if (case d of None \<Rightarrow> False | Some h \<Rightarrow> hd_d h = - 1) then Inl LogFatal
      else if (flags AND NACL_ABI_MAP_SHARED = 0) = (flags AND NACL_ABI_MAP_PRIVATE = 0) then Inl LogFatal
      else
        let host_prot = NaClProtMap (prot AND NACL_ABI_PROT_MASK);
            need_exec = (PROT_EXEC AND host_prot \<noteq> 0)
        in if start_addr = 0 then Inl LogFatal
           else if need_exec \<and> start_addr \<noteq> - 1 then Inl LogFatal
           else if start_addr = - 1 then Inr (fail_errno V)
           else Inr start_addr)"

definition NaClHostDescUnmapUnsafe :: "(u64 \<Rightarrow> ('h, unit) act) \<Rightarrow> u64 \<Rightarrow> ('h, unit) act" where
  "NaClHostDescUnmapUnsafe free addr = free addr"

section \<open>Attributes\<close>

text \<open>An error is \<open>-1\<close>, or anything but 0.\<close>

definition unless_minus1 :: "desc_env \<Rightarrow> ('h, u32) act \<Rightarrow> ('h, u32) act" where
  "unless_minus1 V m = bindX m (\<lambda>r. retX (if r = - 1 then neg_errno V else 0))"

definition unless_nonzero :: "desc_env \<Rightarrow> ('h, u32) act \<Rightarrow> ('h, u32) act" where
  "unless_nonzero V m = bindX m (\<lambda>r. retX (if r \<noteq> 0 then neg_errno V else 0))"

definition NaClHostDescFstat :: "'h host_behaviour \<Rightarrow> desc_env \<Rightarrow> host_desc option \<Rightarrow> u64 \<Rightarrow> ('h, u32) act" where
  "NaClHostDescFstat H V d nhsp = with_valid d (\<lambda>h. unless_minus1 V (ocall_fstat64 H (hd_d h) nhsp))"

definition NaClHostDescIsatty :: "host_desc option \<Rightarrow> ('h, u32) act" where
  "NaClHostDescIsatty d = with_valid d (\<lambda>h. retX 1)"

definition NaClHostDescFchdir :: "(u32 \<Rightarrow> ('h, u32) act) \<Rightarrow> desc_env \<Rightarrow> host_desc option \<Rightarrow> ('h, u32) act" where
  "NaClHostDescFchdir fchdir V d = with_valid d (\<lambda>h. unless_minus1 V (fchdir (hd_d h)))"

definition NaClHostDescFchmod :: "'h host_behaviour \<Rightarrow> desc_env \<Rightarrow> host_desc option \<Rightarrow> u32 \<Rightarrow> ('h, u32) act" where
  "NaClHostDescFchmod H V d mode = with_valid d (\<lambda>h. unless_minus1 V (ocall_fchmod H (hd_d h) (ucast (NaClMapMode mode))))"

definition NaClHostDescFsync :: "'h host_behaviour \<Rightarrow> desc_env \<Rightarrow> host_desc option \<Rightarrow> ('h, u32) act" where
  "NaClHostDescFsync H V d = with_valid d (\<lambda>h. unless_minus1 V (ocall_fsync H (hd_d h)))"

definition NaClHostDescFdatasync :: "'h host_behaviour \<Rightarrow> desc_env \<Rightarrow> host_desc option \<Rightarrow> ('h, u32) act" where
  "NaClHostDescFdatasync H V d = with_valid d (\<lambda>h. unless_minus1 V (ocall_fdatasync H (hd_d h)))"

definition NaClHostDescFtruncate :: "'h host_behaviour \<Rightarrow> desc_env \<Rightarrow> host_desc option \<Rightarrow> u64 \<Rightarrow> ('h, u32) act" where
  "NaClHostDescFtruncate H V d len = with_valid d (\<lambda>h. unless_minus1 V (ocall_ftruncate H (hd_d h) len))"

section \<open>Paths\<close>

definition NaClHostDescStat :: "'h host_behaviour \<Rightarrow> desc_env \<Rightarrow> u64 \<Rightarrow> u64 \<Rightarrow> ('h, u32) act" where
  "NaClHostDescStat H V path nhsp = unless_minus1 V (ocall_stat64 H path nhsp)"

definition NaClHostDescLstat :: "'h host_behaviour \<Rightarrow> desc_env \<Rightarrow> u64 \<Rightarrow> u64 \<Rightarrow> ('h, u32) act" where
  "NaClHostDescLstat H V path nhsp = unless_minus1 V (ocall_lstat64 H path nhsp)"

definition NaClHostDescMkdir :: "'h host_behaviour \<Rightarrow> desc_env \<Rightarrow> u64 \<Rightarrow> u32 \<Rightarrow> ('h, u32) act" where
  "NaClHostDescMkdir H V path mode = unless_nonzero V (ocall_mkdir H path (ucast mode))"

definition NaClHostDescRmdir :: "'h host_behaviour \<Rightarrow> desc_env \<Rightarrow> u64 \<Rightarrow> ('h, u32) act" where
  "NaClHostDescRmdir H V path = unless_nonzero V (ocall_rmdir H path)"

definition NaClHostDescChdir :: "'h host_behaviour \<Rightarrow> desc_env \<Rightarrow> u64 \<Rightarrow> ('h, u32) act" where
  "NaClHostDescChdir H V path = unless_nonzero V (ocall_chdir H path)"

definition NaClHostDescGetcwd :: "'h host_behaviour \<Rightarrow> desc_env \<Rightarrow> u64 \<Rightarrow> u64 \<Rightarrow> ('h, u32) act" where
  "NaClHostDescGetcwd H V path len = bindX (ocall_getcwd H path len) (\<lambda>r. retX (if r = 0 then neg_errno V else 0))"

definition NaClHostDescUnlink :: "'h host_behaviour \<Rightarrow> desc_env \<Rightarrow> u64 \<Rightarrow> ('h, u32) act" where
  "NaClHostDescUnlink H V path = unless_nonzero V (ocall_unlink H path)"

text \<open>The length has 64 bits, the parameter of the call 32.\<close>

definition NaClHostDescTruncate :: "'h host_behaviour \<Rightarrow> desc_env \<Rightarrow> u64 \<Rightarrow> u64 \<Rightarrow> ('h, u32) act" where
  "NaClHostDescTruncate H V path len = unless_nonzero V (ocall_truncate H path (ucast len))"

definition NaClHostDescLink :: "'h host_behaviour \<Rightarrow> desc_env \<Rightarrow> u64 \<Rightarrow> u64 \<Rightarrow> ('h, u32) act" where
  "NaClHostDescLink H V oldpath newpath = unless_nonzero V (ocall_link H oldpath newpath)"

definition NaClHostDescRename :: "'h host_behaviour \<Rightarrow> desc_env \<Rightarrow> u64 \<Rightarrow> u64 \<Rightarrow> ('h, u32) act" where
  "NaClHostDescRename H V oldpath newpath = unless_nonzero V (ocall_rename H oldpath newpath)"

definition NaClHostDescChmod :: "'h host_behaviour \<Rightarrow> desc_env \<Rightarrow> u64 \<Rightarrow> u32 \<Rightarrow> ('h, u32) act" where
  "NaClHostDescChmod H V path mode = unless_nonzero V (ocall_chmod H path (ucast (NaClMapMode mode)))"

definition NaClHostDescAccess :: "'h host_behaviour \<Rightarrow> desc_env \<Rightarrow> u64 \<Rightarrow> u32 \<Rightarrow> ('h, u32) act" where
  "NaClHostDescAccess H V path amode = unless_nonzero V (ocall_access H path (ucast (NaClMapAccessMode amode)))"

definition NaClHostDescSymlink :: "desc_env \<Rightarrow> ('h, u32) act" where
  "NaClHostDescSymlink V = retX (neg_errno V)"

definition NaClHostDescReadlink :: "desc_env \<Rightarrow> ('h, u32) act" where
  "NaClHostDescReadlink V = retX (neg_errno V)"

definition NaClHostDescUtimes :: "('h, u32) act" where
  "NaClHostDescUtimes = failX LogFatal"

end
