(* ===== verification/SysMmap.thy ===== *)
theory SysMmap
  imports SysBrk UserCopy HostDescMisc
begin

text \<open>
  Mapping memory (\<open>service_runtime/sys_memory.c\<close>, in the build for the enclave, and the host file
  descriptors of \<open>desc/nacl_desc_io.c\<close> that a mapping reaches).

  The function is cut where the code has its steps: the checks of the request, the extent of the
  file, the choice of an address under the lock, the checks of the region, and the mapping itself.
  Where the code jumps to \<open>cleanup\<close> a step returns \<open>Inl\<close> of the result. \<open>mmap_env\<close> collects what
  the call reaches through pointers: the descriptor table, the virtual methods of a descriptor, the
  validator of code and the allocator.
\<close>

section \<open>The call\<close>

record mmap_env =
  GetDesc :: "u32 \<Rightarrow> nat option"
  Fstat :: "nat \<Rightarrow> u32 \<times> u32 \<times> u64"
  DescMap :: "nat \<Rightarrow> u64 \<Rightarrow> u64 \<Rightarrow> u32 \<Rightarrow> u32 \<Rightarrow> u64 \<Rightarrow> u64 run"
  DescFlags :: "nat \<Rightarrow> u32"
  typeTag :: "nat \<Rightarrow> nat"
  Validate :: "u64 \<Rightarrow> u64 \<Rightarrow> u64 \<Rightarrow> u32 \<Rightarrow> bool"
  free_image :: "u64 \<Rightarrow> sys_app \<Rightarrow> sys_app run"
  find_space :: "u64 \<Rightarrow> u64 option"
  io_env :: desc_env
  malloc_ok :: "nat \<Rightarrow> bool"

definition kMaxUsableFileSize :: u64 where "kMaxUsableFileSize = drop_bit 1 (- 1)"

definition size_min :: "u64 \<Rightarrow> u64 \<Rightarrow> u64" where "size_min a b = (if a < b then a else b)"

definition NACL_ABI_S_IFMT :: u32 where "NACL_ABI_S_IFMT = 0x1f000"
definition NACL_ABI_S_IFREG :: u32 where "NACL_ABI_S_IFREG = 0x8000"
definition NACL_ABI_S_IFSHM :: u32 where "NACL_ABI_S_IFSHM = 0x14000"
definition NACL_DESC_HOST_IO :: nat where "NACL_DESC_HOST_IO = 2"
definition NACL_DESC_FLAGS_MMAP_EXEC_OK :: u32 where "NACL_DESC_FLAGS_MMAP_EXEC_OK = 0x1000"
definition NACL_DISABLE_NONTEMPORALS_X86 :: u32 where "NACL_DISABLE_NONTEMPORALS_X86 = 1"
definition NACL_ABI_E_MOVE_ADDRESS_SPACE :: u32 where "NACL_ABI_E_MOVE_ADDRESS_SPACE = 0x40000000"

definition NaClDescIsSafeForMmap :: "(nat \<Rightarrow> u32) \<Rightarrow> nat \<Rightarrow> bool" where
  "NaClDescIsSafeForMmap GetFlags self \<longleftrightarrow> 0 \<noteq> GetFlags self AND NACL_DESC_FLAGS_MMAP_EXEC_OK"

definition NaClDescIoDescMap ::
    "(u64 \<Rightarrow> u64 option) \<Rightarrow> desc_env \<Rightarrow> host_desc option \<Rightarrow> u64 \<Rightarrow> u64 \<Rightarrow> u32 \<Rightarrow> u32 \<Rightarrow> u64 \<Rightarrow> u64 run" where
  "NaClDescIoDescMap find_as V self start_addr len prot flags offset =
     (if 0 \<noteq> NOT NACL_ABI_PROT_MASK AND prot then Inr (err64 NACL_ABI_EINVAL)
      else
        case (if 0 = NACL_ABI_MAP_FIXED AND flags then find_as len else Some start_addr) of
          None \<Rightarrow> Inr (err64 NACL_ABI_ENOMEM)
        | Some start_addr \<Rightarrow> NaClHostDescMap self V start_addr prot (flags OR NACL_ABI_MAP_FIXED))"

definition NaClDescIoDescMapAnon ::
    "(u64 \<Rightarrow> u64 option) \<Rightarrow> desc_env \<Rightarrow> u64 \<Rightarrow> u64 \<Rightarrow> u32 \<Rightarrow> u32 \<Rightarrow> u64 \<Rightarrow> u64 run" where
  "NaClDescIoDescMapAnon find_as V start_addr len prot flags offset =
     NaClDescIoDescMap find_as V None start_addr len prot flags offset"

text \<open>The checks of the request. The result is whether it maps code, the address, and the length in
  whole allocation pages.\<close>

definition mmap_code_check :: "sys_app \<Rightarrow> u64 \<Rightarrow> u64 \<Rightarrow> u32 \<Rightarrow> u32 \<Rightarrow> nat option \<Rightarrow> u64 + bool" where
  "mmap_code_check nap usraddr len prot flags ndp =
     (if 0 \<noteq> NACL_ABI_PROT_EXEC AND prot \<and> 0 \<noteq> NACL_ABI_MAP_FIXED AND flags \<and> ndp \<noteq> None \<and>
         NaClSysCommonAddrRangeInAllowedDynamicCodeSpace nap usraddr len
      then if \<not> enable_dyncode_syscalls nap then Inl (err64 NACL_ABI_EINVAL)
           else if 0 \<noteq> NACL_ABI_PROT_WRITE AND prot then Inl (err64 NACL_ABI_EINVAL)
           else Inr True
      else if 0 \<noteq> prot AND NACL_ABI_PROT_EXEC then Inl (err64 NACL_ABI_EINVAL)
      else Inr False)"

definition mmap_request :: "sys_app \<Rightarrow> u64 \<Rightarrow> u64 \<Rightarrow> u32 \<Rightarrow> u32 \<Rightarrow> nat option \<Rightarrow> u64 \<Rightarrow> u64 + (bool \<times> u64 \<times> u64)" where
  "mmap_request nap usraddr len prot flags ndp offset =
     (case mmap_code_check nap usraddr len prot flags ndp of Inl r \<Rightarrow> Inl r
      | Inr mapping_code \<Rightarrow>
          if \<not> NaClIsAllocPageMultiple usraddr \<and> NACL_ABI_MAP_FIXED AND flags \<noteq> 0 then Inl (err64 NACL_ABI_EINVAL)
          else
            let usraddr = (if \<not> NaClIsAllocPageMultiple usraddr then NaClTruncAllocPage usraddr else usraddr) in
            if offset <s 0 then Inl (err64 NACL_ABI_EINVAL)
            else if \<not> NaClIsAllocPageMultiple offset then Inl (err64 NACL_ABI_EINVAL)
            else
              let alloc_rounded_length = NaClRoundAllocPage len in
              if alloc_rounded_length \<noteq> len \<and> mapping_code then Inl (err64 NACL_ABI_EINVAL)
              else if (0 :: u32) = ucast alloc_rounded_length then Inl (err64 NACL_ABI_EINVAL)
              else Inr (mapping_code, usraddr, alloc_rounded_length))"

text \<open>The extent of the file from the offset: its size, and how many bytes are left, also in whole
  pages of the host.\<close>

definition mmap_extent :: "mmap_env \<Rightarrow> nat option \<Rightarrow> u64 \<Rightarrow> (u64 + (u64 \<times> u64 \<times> u64)) run" where
  "mmap_extent E ndp offset = (case ndp of
       None \<Rightarrow> Inr (Inr (kMaxUsableFileSize, kMaxUsableFileSize, kMaxUsableFileSize))
     | Some d \<Rightarrow>
         let (map_result, st_mode, file_size) = Fstat E d in
         if map_result \<noteq> 0 then Inr (Inl (scast map_result))
         else if st_mode AND NACL_ABI_S_IFMT \<noteq> NACL_ABI_S_IFREG \<and> st_mode AND NACL_ABI_S_IFMT \<noteq> NACL_ABI_S_IFSHM
         then Inr (Inl (err64 NACL_ABI_ENODEV))
         else if file_size <s offset then Inr (Inl (err64 NACL_ABI_EINVAL))
         else
           let file_bytes = file_size - offset;
               host_rounded_file_bytes = (if kMaxUsableFileSize <s file_bytes then kMaxUsableFileSize
                                          else NaClRoundHostAllocPage file_bytes)
           in guardE CheckFailed (host_rounded_file_bytes \<le>s kMaxUsableFileSize)
             (let alloc_rounded_file_bytes = NaClRoundAllocPage host_rounded_file_bytes in
              if 0 = alloc_rounded_file_bytes \<and> 0 \<noteq> host_rounded_file_bytes then Inr (Inl (err64 NACL_ABI_ENOMEM))
              else Inr (Inr (file_size, file_bytes, host_rounded_file_bytes))))"

text \<open>Where to map: at the address when it is fixed, at a gap above a hint, or at any gap.\<close>

definition mmap_place :: "sys_app \<Rightarrow> u32 \<Rightarrow> u64 \<Rightarrow> u64 \<Rightarrow> ((u64 + u64) \<times> sys_app) run" where
  "mmap_place nap flags usraddr alloc_rounded_length =
     (if 0 \<noteq> flags AND NACL_ABI_MAP_FIXED then Inr (Inr usraddr, nap)
      else
        let npages = drop_bit NACL_PAGESHIFT alloc_rounded_length;
            found = (\<lambda>usrpage nap. Inr (if 0 = usrpage then Inl (err64 NACL_ABI_ENOMEM)
                                         else Inr (push_bit NACL_PAGESHIFT usrpage), nap))
        in
        if 0 = usraddr
        then bindE (NaClVmmapFindMapSpace (mem_map nap) npages) (\<lambda>(usrpage, m). found usrpage (nap\<lparr>mem_map := m\<rparr>))
        else bindE (NaClVmmapFindMapSpaceAboveHint (mem_map nap) usraddr npages) (\<lambda>(usrpage, m).
          let nap = nap\<lparr>mem_map := m\<rparr> in
          if 0 = usrpage
          then bindE (NaClVmmapFindMapSpace (mem_map nap) npages) (\<lambda>(usrpage, m). found usrpage (nap\<lparr>mem_map := m\<rparr>))
          else found usrpage nap))"

text \<open>Whether the region may be mapped.\<close>

definition mmap_region_ok :: "mmap_env \<Rightarrow> sys_app \<Rightarrow> nat option \<Rightarrow> bool \<Rightarrow> u64 \<Rightarrow> u64 \<Rightarrow> u64 \<Rightarrow> bool" where
  "mmap_region_ok E nap ndp mapping_code usraddr len alloc_rounded_length \<longleftrightarrow>
     (if push_bit (addr_bits nap) 1 \<le> usraddr then False
      else
        let endaddr = usraddr + alloc_rounded_length in
        if endaddr < usraddr then False
        else if push_bit (addr_bits nap) 1 < endaddr then False
        else if mapping_code then (case ndp of None \<Rightarrow> False | Some d \<Rightarrow> NaClDescIsSafeForMmap (DescFlags E) d)
        else \<not> NaClSysCommonAddrRangeContainsExecutablePages nap usraddr len)"

text \<open>Mapping code: a scratch copy is validated. In the build for the enclave the calls that would
  register the region and insert the code are left out, with 0 as their result.\<close>

definition mmap_code :: "mmap_env \<Rightarrow> sys_app \<Rightarrow> nat \<Rightarrow> u64 \<Rightarrow> u64 \<Rightarrow> u64 \<Rightarrow> u64 \<Rightarrow> (u64 \<times> sys_app) run" where
  "mmap_code E nap d usraddr sysaddr len offset =
     (if typeTag E d \<noteq> NACL_DESC_HOST_IO then Inr (err64 NACL_ABI_EINVAL, nap)
      else bindE (DescMap E d 0 len (NACL_ABI_PROT_READ OR NACL_ABI_PROT_WRITE) NACL_ABI_MAP_PRIVATE offset) (\<lambda>image_sys_addr.
        if NaClPtrIsNegErrno image_sys_addr then Inr (image_sys_addr, nap)
        else
          let val_flags = (if pnacl_mode nap then NACL_DISABLE_NONTEMPORALS_X86 else 0) in
          if Validate E usraddr image_sys_addr len val_flags
          then
            let ret = (0 :: u32) in
            if ret = 0 then Inr (err64 NACL_ABI_EINVAL, nap)
            else bindE (free_image E image_sys_addr nap) (\<lambda>nap.
              bindE (DescMap E d sysaddr len (NACL_ABI_PROT_READ OR NACL_ABI_PROT_EXEC)
                       (NACL_ABI_MAP_PRIVATE OR NACL_ABI_MAP_FIXED) offset) (\<lambda>image_sys_addr.
                if image_sys_addr \<noteq> sysaddr then Inl LogFatal else Inr (scast (ucast usraddr :: u32), nap)))
          else
            let sys_ret = (0 :: u32);
                map_result = (if sys_ret <s 0 then scast sys_ret else scast (ucast usraddr :: u32))
            in bindE (free_image E image_sys_addr nap) (\<lambda>nap. Inr (map_result, nap))))"

text \<open>Mapping data, and what lies past the end of the file.\<close>

definition mmap_data ::
    "mmap_env \<Rightarrow> sys_app \<Rightarrow> nat option \<Rightarrow> u64 \<Rightarrow> u64 \<Rightarrow> u64 \<Rightarrow> u32 \<Rightarrow> u32 \<Rightarrow> u64 \<Rightarrow> (u64 + unit) run" where
  "mmap_data E nap ndp sysaddr len file_bytes prot flags offset =
     bindE (case ndp of
              None \<Rightarrow> NaClDescIoDescMapAnon (find_space E) (io_env E) sysaddr len prot flags offset
            | Some d \<Rightarrow> DescMap E d sysaddr (size_min len file_bytes) prot flags offset) (\<lambda>map_result.
       if NaClPtrIsNegErrno map_result
       then if err64 NACL_ABI_E_MOVE_ADDRESS_SPACE = map_result then Inl LogFatal else Inr (Inl map_result)
       else if map_result \<noteq> sysaddr then Inl LogFatal
       else Inr (Inr ()))"

definition mmap_install ::
    "mmap_env \<Rightarrow> sys_app \<Rightarrow> nat option \<Rightarrow> u64 \<Rightarrow> u64 \<Rightarrow> u64 \<Rightarrow> u64 \<Rightarrow> u32 \<Rightarrow> u32 \<Rightarrow> u64 \<Rightarrow> u64 \<Rightarrow> (u64 \<times> sys_app) run" where
  "mmap_install E nap ndp usraddr sysaddr len alloc_rounded_length prot flags offset file_size =
     bindE (if len < alloc_rounded_length
            then MunmapInternal (malloc_ok E) nap (sysaddr + len) (alloc_rounded_length - len)
            else Inr (0, nap)) (\<lambda>(map_result, nap).
       if map_result \<noteq> 0 then Inr (scast map_result, nap)
       else if alloc_rounded_length > 0
       then bindE (NaClSysToUser nap sysaddr) (\<lambda>u.
              bindE (NaClVmmapAddWithOverwrite (malloc_ok E) (mem_map nap) (drop_bit NACL_PAGESHIFT u)
                       (drop_bit NACL_PAGESHIFT alloc_rounded_length) prot flags ndp offset file_size) (\<lambda>m.
                Inr (usraddr, nap\<lparr>mem_map := m\<rparr>)))
       else Inr (usraddr, nap))"

definition mmap_locked ::
    "mmap_env \<Rightarrow> sys_app \<Rightarrow> nat option \<Rightarrow> bool \<Rightarrow> u64 \<Rightarrow> u64 \<Rightarrow> u64 \<Rightarrow> u32 \<Rightarrow> u32 \<Rightarrow> u64 \<Rightarrow> u64 \<Rightarrow> u64 \<Rightarrow> (u64 \<times> sys_app) run" where
  "mmap_locked E nap ndp mapping_code usraddr len alloc_rounded_length prot flags offset file_size file_bytes =
     (if \<not> mmap_region_ok E nap ndp mapping_code usraddr len alloc_rounded_length then Inr (err64 NACL_ABI_EINVAL, nap)
      else bindE (NaClVmIoPendingCheck_mu (mem_io_regions nap) (ucast usraddr) (ucast (usraddr + len - 1))) (\<lambda>_.
        let flags = flags OR NACL_ABI_MAP_FIXED;
            prot = prot AND NOT NACL_ABI_PROT_EXEC
        in
        if (0 = flags AND NACL_ABI_MAP_SHARED) = (0 = flags AND NACL_ABI_MAP_PRIVATE) then Inr (err64 NACL_ABI_EINVAL, nap)
        else bindE (NaClUserToSys nap usraddr) (\<lambda>sysaddr.
          case ndp of
            Some d \<Rightarrow>
              if len > 0 \<and> mapping_code then mmap_code E nap d usraddr sysaddr len offset
              else bindE (if len > 0 then mmap_data E nap ndp sysaddr len file_bytes prot flags offset else Inr (Inr ())) (\<lambda>r.
                case r of Inl map_result \<Rightarrow> Inr (map_result, nap)
                | Inr _ \<Rightarrow> mmap_install E nap ndp usraddr sysaddr len alloc_rounded_length prot flags offset file_size)
          | None \<Rightarrow>
              bindE (if len > 0 then mmap_data E nap ndp sysaddr len file_bytes prot flags offset else Inr (Inr ())) (\<lambda>r.
                case r of Inl map_result \<Rightarrow> Inr (map_result, nap)
                | Inr _ \<Rightarrow> mmap_install E nap ndp usraddr sysaddr len alloc_rounded_length prot flags offset file_size))))"

definition mmap_body ::
    "mmap_env \<Rightarrow> sys_app \<Rightarrow> nat option \<Rightarrow> u64 \<Rightarrow> u64 \<Rightarrow> u32 \<Rightarrow> u32 \<Rightarrow> u64 \<Rightarrow> (u64 \<times> sys_app) run" where
  "mmap_body E nap ndp usraddr len prot flags offset =
     (case mmap_request nap usraddr len prot flags ndp offset of Inl r \<Rightarrow> Inr (r, nap)
      | Inr (mapping_code, usraddr, alloc_rounded_length) \<Rightarrow>
          guardE CheckFailed (alloc_rounded_length = ucast (ucast alloc_rounded_length :: u32))
            (bindE (mmap_extent E ndp offset) (\<lambda>ext.
               case ext of Inl r \<Rightarrow> Inr (r, nap)
               | Inr (file_size, file_bytes, host_rounded_file_bytes) \<Rightarrow>
                   if mapping_code \<and> file_bytes < alloc_rounded_length then Inr (err64 NACL_ABI_EINVAL, nap)
                   else
                     let len = size_min alloc_rounded_length host_rounded_file_bytes in
                     bindE (mmap_place nap flags usraddr alloc_rounded_length) (\<lambda>(pl, nap).
                       case pl of Inl r \<Rightarrow> Inr (r, nap)
                       | Inr usraddr \<Rightarrow> mmap_locked E nap ndp mapping_code usraddr len alloc_rounded_length prot flags
                                          offset file_size file_bytes))))"

text \<open>The whole call takes a reference to the descriptor and drops it at the end. \<open>refs\<close> is what it
  has added to the counts.\<close>

definition mmap_allowed_flags :: u32 where
  "mmap_allowed_flags = NACL_ABI_MAP_FIXED OR NACL_ABI_MAP_SHARED OR NACL_ABI_MAP_PRIVATE OR NACL_ABI_MAP_ANONYMOUS"

definition mmap_finish :: "nat option \<Rightarrow> (nat \<Rightarrow> int) \<Rightarrow> u64 \<times> sys_app \<Rightarrow> (u32 \<times> sys_app \<times> (nat \<Rightarrow> int)) run" where
  "mmap_finish ndp refs = (\<lambda>(map_result, nap).
     let refs = (if ndp \<noteq> None then NaClDescSafeUnref refs ndp else refs) in
     if map_result > 0xffffffff \<and> \<not> NaClPtrIsNegErrno map_result then Inl LogFatal
     else Inr (ucast map_result, nap, refs))"

definition NaClSysMmapIntern ::
    "mmap_env \<Rightarrow> sys_app \<Rightarrow> (nat \<Rightarrow> int) \<Rightarrow> u64 \<Rightarrow> u64 \<Rightarrow> u32 \<Rightarrow> u32 \<Rightarrow> u32 \<Rightarrow> u64 \<Rightarrow>
     (u32 \<times> sys_app \<times> (nat \<Rightarrow> int)) run" where
  "NaClSysMmapIntern E nap refs start len prot flags d offset =
     (let flags = (if 0 \<noteq> flags AND NOT mmap_allowed_flags then flags AND mmap_allowed_flags else flags) in
      if 0 \<noteq> flags AND NACL_ABI_MAP_ANONYMOUS
      then bindE (mmap_body E nap None start len prot flags offset) (mmap_finish None refs)
      else
        case GetDesc E d of
          None \<Rightarrow> mmap_finish None refs (err64 NACL_ABI_EBADF, nap)
        | Some ndp \<Rightarrow>
            bindE (mmap_body E nap (Some ndp) start len prot flags offset)
              (mmap_finish (Some ndp) (NaClDescRef refs (Some ndp))))"

definition NaClSysMmap ::
    "mmap_env \<Rightarrow> sys_app \<Rightarrow> (nat \<Rightarrow> int) \<Rightarrow> u32 \<Rightarrow> u64 \<Rightarrow> u32 \<Rightarrow> u32 \<Rightarrow> u32 \<Rightarrow> u32 \<Rightarrow>
     (u32 \<times> sys_app \<times> (nat \<Rightarrow> int)) run" where
  "NaClSysMmap E nap refs start len prot flags d offp =
     (case NaClCopyInFromUser nap (ucast offp) 8 of
        None \<Rightarrow> Inr (- NACL_ABI_EFAULT, nap, refs)
      | Some offset \<Rightarrow> NaClSysMmapIntern E nap refs (ucast start) len prot flags d (of_bytes offset))"


end
