(* ===== verification/SysMmapProps.thy ===== *)
theory SysMmapProps
  imports SysMmap
begin

text \<open>
  What mapping memory does: the address it picks, the pages it changes, and the memory it leaves.
\<close>

section \<open>The address\<close>

lemma mapped_below: "wf_vmmap m \<Longrightarrow> vm_page m p \<noteq> None \<Longrightarrow> p < PAGE_LIMIT"
proof -
  assume wf: "wf_vmmap m" and p: "vm_page m p \<noteq> None"
  obtain es where es: "entries m es" "wf_entries es" using wf_vmmap_entries [OF wf] by blast
  then obtain e where "e \<in> set es" "covers e p" using p vm_page_ex [OF es, of p "\<lambda>_. True"] by auto
  then have "p < ve_end e" "wf_entry e" using es(2) by (auto simp: covers_def wf_entries_def)
  then show ?thesis by (simp add: wf_entry_def)
qed

lemma gap_below: "wf_vmmap m \<Longrightarrow> map_gap m n q \<Longrightarrow> q < PAGE_LIMIT"
  using mapped_below [of m] by (fastforce simp: map_gap_def gap_def)

text \<open>The address the code picks: the one it is given when it is fixed; otherwise the lowest gap at
  or above a hint, or the highest gap of all.\<close>

definition mmap_place_ok :: "NaClVmmap \<Rightarrow> bool \<Rightarrow> nat \<Rightarrow> nat \<Rightarrow> nat option \<Rightarrow> bool" where
  "mmap_place_ok m fixed h n r \<longleftrightarrow>
     (if fixed then r = Some h
      else
        let hinted = (\<lambda>g. map_gap m n g \<and> h div 4096 \<le> g) in
        case r of
          None \<Rightarrow> \<forall>g. \<not> map_gap m n g
        | Some a \<Rightarrow> \<exists>q. a = q * 4096 \<and> map_gap m n q \<and>
            (if h \<noteq> 0 \<and> (\<exists>g. hinted g) then hinted q \<and> (\<forall>g. hinted g \<longrightarrow> q \<le> g)
             else \<forall>g. map_gap m n g \<longrightarrow> g \<le> q))"

lemma map_gap_cong: "\<forall>p. vm_page s p = vm_page t p \<Longrightarrow> map_gap s n q = map_gap t n q"
  unfolding map_gap_def using gap_cong [of s t "round_up n 16" q] by simp

lemma unat_page_addr: "unat (q :: u64) < PAGE_LIMIT \<Longrightarrow> unat (push_bit NACL_PAGESHIFT q) = unat q * 4096"
  by (simp add: NACL_PAGESHIFT_def push_bit_eq_mult PAGE_LIMIT_def unat_word_ariths)

lemma mmap_place_spec:
  assumes wf: "wf_vmmap (mem_map nap)" and n: "4096 \<le> unat n" "unat n < 2 ^ 33" and h: "65536 dvd unat h"
  shows "\<exists>r m. mmap_place nap flags h n = Inr (r, nap\<lparr>mem_map := m\<rparr>) \<and> wf_vmmap m \<and>
    (\<forall>p. vm_page m p = vm_page (mem_map nap) p) \<and>
    mmap_place_ok (mem_map nap) (0 \<noteq> flags AND NACL_ABI_MAP_FIXED) (unat h) (unat n div 4096)
      (case r of Inl e \<Rightarrow> None | Inr a \<Rightarrow> Some (unat a)) \<and>
    (case r of Inl e \<Rightarrow> e = err64 NACL_ABI_ENOMEM | Inr a \<Rightarrow> True)"
proof (cases "0 \<noteq> flags AND NACL_ABI_MAP_FIXED")
  case True
  then show ?thesis using wf by (intro exI [of _ "Inr h"] exI [of _ "mem_map nap"]) (simp add: mmap_place_def mmap_place_ok_def)
next
  case False
  let ?np = "drop_bit NACL_PAGESHIFT n" and ?m = "mem_map nap"
  have np: "0 < unat ?np" "unat ?np + 15 < 2 ^ 64" "unat ?np = unat n div 4096" using n by (auto simp: unat_page)
  have any: "\<exists>r m. NaClVmmapFindMapSpace s ?np = Inr (r, m) \<and> wf_vmmap m \<and> (\<forall>p. vm_page m p = vm_page ?m p) \<and>
      (if r = 0 then \<forall>q. \<not> map_gap ?m (unat ?np) q
       else map_gap ?m (unat ?np) (unat r) \<and> (\<forall>q. map_gap ?m (unat ?np) q \<longrightarrow> q \<le> unat r))"
    if "wf_vmmap s" "\<forall>p. vm_page s p = vm_page ?m p" for s
    using FindMapSpace_best [OF that(1) np(1,2)] unfolding map_gap_cong [OF that(2)]
    by (simp only: spec [OF that(2)])
  have addr: "unat (push_bit NACL_PAGESHIFT r) = unat r * 4096" if "map_gap ?m (unat ?np) (unat r)" for r :: u64
    by (rule unat_page_addr [OF gap_below [OF wf that]])
  show ?thesis
  proof (cases "h = 0")
    case True
    obtain r m where r: "NaClVmmapFindMapSpace ?m ?np = Inr (r, m)" "wf_vmmap m" "\<forall>p. vm_page m p = vm_page ?m p"
      and b: "if r = 0 then \<forall>q. \<not> map_gap ?m (unat ?np) q
       else map_gap ?m (unat ?np) (unat r) \<and> (\<forall>q. map_gap ?m (unat ?np) q \<longrightarrow> q \<le> unat r)"
      using any [OF wf] by auto
    show ?thesis using False True r b addr [of r] unfolding np(3)
      by (intro exI [of _ "if r = 0 then Inl (err64 NACL_ABI_ENOMEM) else Inr (push_bit NACL_PAGESHIFT r)"] exI [of _ m])
        (simp add: mmap_place_def mmap_place_ok_def split: if_splits)
  next
    case h0: False
    then have hn: "unat h \<noteq> 0" by (simp add: unat_eq_0)
    obtain r m where r: "NaClVmmapFindMapSpaceAboveHint ?m h ?np = Inr (r, m)" "wf_vmmap m" "\<forall>p. vm_page m p = vm_page ?m p"
      and b: "if r = 0 then \<forall>q. map_gap ?m (unat ?np) q \<longrightarrow> q < unat h div 4096
       else map_gap ?m (unat ?np) (unat r) \<and> unat h div 4096 \<le> unat r \<and>
         (\<forall>q. map_gap ?m (unat ?np) q \<and> unat h div 4096 \<le> q \<longrightarrow> unat r \<le> q)"
      using FindMapSpaceAboveHint_best [OF wf np(1,2), of h] h by (auto simp: alloc_multiple_iff)
    show ?thesis
    proof (cases "r = 0")
      case True
      obtain r' m' where r': "NaClVmmapFindMapSpace m ?np = Inr (r', m')" "wf_vmmap m'" "\<forall>p. vm_page m' p = vm_page ?m p"
        and b': "if r' = 0 then \<forall>q. \<not> map_gap ?m (unat ?np) q
         else map_gap ?m (unat ?np) (unat r') \<and> (\<forall>q. map_gap ?m (unat ?np) q \<longrightarrow> q \<le> unat r')"
        using any [OF r(2,3)] by auto
      have none: "\<not> (\<exists>g. map_gap ?m (unat ?np) g \<and> unat h div 4096 \<le> g)" using b True by (auto simp: not_le)
      show ?thesis using False True h0 r r' b' addr [of r'] none unfolding np(3)
        by (intro exI [of _ "if r' = 0 then Inl (err64 NACL_ABI_ENOMEM) else Inr (push_bit NACL_PAGESHIFT r')"] exI [of _ m'])
          (simp add: mmap_place_def mmap_place_ok_def Let_def split: if_splits)
    next
      case r0: False
      then show ?thesis using False h0 hn r b addr [of r] unfolding np(3)
        by (intro exI [of _ "Inr (push_bit NACL_PAGESHIFT r)"] exI [of _ m])
          (auto simp: mmap_place_def mmap_place_ok_def Let_def)
    qed
  qed
qed

section \<open>The region\<close>

text \<open>How much of the region the file reaches, in whole pages of the host.\<close>

definition file_extent :: "mmap_env \<Rightarrow> nat option \<Rightarrow> u64 \<Rightarrow> u64 \<Rightarrow> nat \<Rightarrow> nat" where
  "file_extent E ndp offset file_size sz = (case ndp of None \<Rightarrow> sz
     | Some d \<Rightarrow> min sz (round_up (unat file_size - unat offset) 4096))"

text \<open>The descriptor is regular and reaches beyond the offset, and is an open host file.\<close>

definition mmap_size_ok :: "mmap_env \<Rightarrow> nat option \<Rightarrow> u64 \<Rightarrow> u64 \<Rightarrow> bool" where
  "mmap_size_ok E ndp offset file_size = (case ndp of
       None \<Rightarrow> file_size = kMaxUsableFileSize
     | Some d \<Rightarrow> (\<exists>mode. Fstat E d = (0, mode, file_size) \<and>
           mode AND NACL_ABI_S_IFMT \<in> {NACL_ABI_S_IFREG, NACL_ABI_S_IFSHM}) \<and>
         unat offset < unat file_size \<and> unat file_size < 2 ^ 62)"

definition mmap_file_ok :: "mmap_env \<Rightarrow> nat option \<Rightarrow> u64 \<Rightarrow> u64 \<Rightarrow> bool" where
  "mmap_file_ok E ndp offset file_size \<longleftrightarrow> mmap_size_ok E ndp offset file_size \<and>
     (case ndp of None \<Rightarrow> True
      | Some d \<Rightarrow> \<exists>hd. hd_d hd \<noteq> - 1 \<and> DescMap E d = NaClDescIoDescMap (find_space E) (io_env E) (Some hd))"

lemma unat_max_size: "unat kMaxUsableFileSize = 2 ^ 63 - 1"
  by (simp add: kMaxUsableFileSize_def drop_bit_eq_div unsigned_minus_1_eq_mask mask_eq_exp_minus_1 unsigned_drop_bit_eq)

lemma sint_of_small: "unat x < 2 ^ 63 \<Longrightarrow> sint x = int (unat x)" for x :: u64
proof -
  assume "unat x < 2 ^ 63"
  then have "int (unat x) < 2 ^ 63" by (simp only: of_nat_less_numeral_power_cancel_iff)
  then have "uint x < 2 ^ 63" by simp
  then show ?thesis using signed_take_bit_int_eq_self [of 63 "uint x"] order_trans [OF _ uint_ge_0, of "- (2 ^ 63)" x]
    by (simp add: sint_uint)
qed

lemma below_max_size: "x \<le>s kMaxUsableFileSize" "\<not> kMaxUsableFileSize <s x"
proof -
  have "sint kMaxUsableFileSize = 2 ^ 63 - 1" using unat_max_size by (simp add: sint_of_small)
  moreover have "sint x < 2 ^ 63" using sint_lt [of x] by simp
  ultimately show "x \<le>s kMaxUsableFileSize" "\<not> kMaxUsableFileSize <s x"
    by (simp_all add: word_sle_eq word_sless_alt)
qed

lemma mmap_extent_ok:
  assumes "mmap_size_ok E ndp offset fs"
  shows "\<exists>fb hr. mmap_extent E ndp offset = Inr (Inr (fs, fb, hr)) \<and> (ndp \<noteq> None \<longrightarrow> unat fb = unat fs - unat offset) \<and>
    (0 < sz \<and> sz < 2 ^ 62 \<longrightarrow> unat (size_min (of_nat sz) hr) = file_extent E ndp offset fs sz)"
proof (cases ndp)
  case None
  show ?thesis using assms None unat_max_size
    by (auto simp: mmap_extent_def mmap_size_ok_def file_extent_def size_min_def word_less_nat_alt unat_of_nat take_bit_nat_eq_self)
next
  case (Some d)
  obtain mode where f: "Fstat E d = (0, mode, fs)" "mode AND NACL_ABI_S_IFMT \<in> {NACL_ABI_S_IFREG, NACL_ABI_S_IFSHM}"
    and lt: "unat offset < unat fs" "unat fs < 2 ^ 62" using assms Some by (auto simp: mmap_size_ok_def)
  have fb: "unat (fs - offset) = unat fs - unat offset" using lt by (simp add: unat_diff_le)
  have ru: "round_up (unat fs - unat offset) 4096 \<le> 2 ^ 62" using lt by (intro round_up_least) simp_all
  have hr: "unat (NaClRoundHostAllocPage (fs - offset)) = round_up (unat fs - unat offset) 4096"
    using lt fb by (simp add: NaClRoundHostAllocPage_def unat_NaClRoundPage)
  have pos: "unat fs - unat offset \<le> round_up (unat fs - unat offset) 4096" by (simp add: round_up_ge)
  have "unat (NaClRoundAllocPage (NaClRoundHostAllocPage (fs - offset))) \<noteq> 0"
    using hr ru pos lt round_up_ge [of 65536 "round_up (unat fs - unat offset) 4096"]
    by (subst unat_NaClRoundAllocPage) auto
  then have alloc: "NaClRoundAllocPage (NaClRoundHostAllocPage (fs - offset)) \<noteq> 0" by (metis unat_0)
  have "\<not> fs <s offset" using lt by (simp add: word_sless_alt sint_of_small del: of_nat_unat)
  then have e: "mmap_extent E ndp offset = Inr (Inr (fs, fs - offset, NaClRoundHostAllocPage (fs - offset)))"
    using Some f alloc by (auto simp: mmap_extent_def below_max_size Let_def)
  moreover have "unat (fs - offset) = unat fs - unat offset" by (rule fb)
  moreover have "unat (size_min (of_nat sz) (NaClRoundHostAllocPage (fs - offset))) = file_extent E ndp offset fs sz"
    if "0 < sz" "sz < 2 ^ 62"
    using that hr Some by (auto simp: file_extent_def size_min_def word_less_nat_alt unat_of_nat take_bit_nat_eq_self)
  ultimately show ?thesis by blast
qed

text \<open>The space of the program ends below the addresses that look like error numbers.\<close>

definition space_low :: "sys_app \<Rightarrow> bool" where
  "space_low nap \<longleftrightarrow> unat (mem_start nap) + 2 ^ addr_bits nap \<le> 2 ^ 64 - 2 ^ 16"

lemma not_neg_errno: "unat x < 2 ^ 64 - 2 ^ 16 \<Longrightarrow> \<not> NaClPtrIsNegErrno x"
proof
  assume x: "unat x < 2 ^ 64 - 2 ^ 16" and "NaClPtrIsNegErrno x"
  then have "x AND NOT (mask 16) = NOT (mask 16)" by (simp add: NaClPtrIsNegErrno_def mask_16)
  then have "unat x div 65536 * 65536 = unat (NOT (mask 16) :: u64)" using unat_and_not_mask [of x 16] by simp
  also have "\<dots> = 2 ^ 64 - 2 ^ 16" by (simp add: mask_eq_exp_minus_1 not_eq_complement)
  finally show False using x by linarith
qed

lemma region_ok_iff:
  assumes "space_ok nap" "65536 dvd unat a" "0 < unat sz" "unat sz \<le> 2 ^ 32"
  shows "mmap_region_ok E nap ndp False a len sz \<longleftrightarrow>
    unat a + unat sz \<le> 2 ^ addr_bits nap \<and> unat (dynamic_text_end nap) \<le> unat a"
proof -
  have lim: "unat (push_bit (addr_bits nap) 1 :: u64) = 2 ^ addr_bits nap" by (rule unat_limit [OF assms(1)])
  have bits: "(2 :: nat) ^ addr_bits nap \<le> 2 ^ 32" using assms(1) by (intro power_increasing) (simp_all add: space_ok_def)
  show ?thesis
  proof (cases "unat a < 2 ^ addr_bits nap")
    case True
    then have "unat (a + sz) = unat a + unat sz" using bits assms(4) by (intro unat_add_no_wrap) simp
    then show ?thesis using True lim executable_iff [OF assms(2), of nap len]
      by (auto simp: mmap_region_ok_def Let_def word_le_nat_alt word_less_nat_alt)
  next
    case False
    then show ?thesis using lim assms(3) by (simp add: mmap_region_ok_def word_le_nat_alt)
  qed
qed

lemma host_map_ok:
  assumes "space_ok nap" "space_low nap" "0 < unat a" "unat a < 2 ^ addr_bits nap"
    and "prot AND NACL_ABI_PROT_EXEC = 0"
    and "(0 = flags AND NACL_ABI_MAP_SHARED) \<noteq> (0 = flags AND NACL_ABI_MAP_PRIVATE)"
    and "d = None \<longrightarrow> flags AND NACL_ABI_MAP_ANONYMOUS \<noteq> 0" "\<And>h. d = Some h \<Longrightarrow> hd_d h \<noteq> - 1"
  shows "NaClHostDescMap d V (a + mem_start nap) prot flags = Inr (a + mem_start nap)"
proof -
  have s: "unat (a + mem_start nap) = unat a + unat (mem_start nap)" "a + mem_start nap \<noteq> - 1"
    using sys_addr [OF assms(1), of a] assms(4) by (simp_all add: kNaClBadAddress_def)
  have ne: "a + mem_start nap \<noteq> 0" using s(1) assms(3) by (metis add_is_0 unat_0 less_irrefl)
  have x: "PROT_EXEC AND NaClProtMap (prot AND NACL_ABI_PROT_MASK) = 0"
    using assms(5) by (simp add: NaClProtMap_def map_bit_def host_consts prot_consts and.assoc)
  show ?thesis using assms(6-8) ne s(2) x
    by (auto simp: NaClHostDescMap_def Let_def split: option.splits)
qed

section \<open>Mapping\<close>

lemma mmap_data_spec:
  assumes "space_ok nap" "space_low nap" "0 < unat a" "unat a < 2 ^ addr_bits nap"
    and "prot AND NACL_ABI_PROT_EXEC = 0" "0 \<noteq> flags AND NACL_ABI_MAP_FIXED"
    and "(0 = flags AND NACL_ABI_MAP_SHARED) \<noteq> (0 = flags AND NACL_ABI_MAP_PRIVATE)"
    and "mmap_file_ok E ndp offset fs" "ndp = None \<longrightarrow> flags AND NACL_ABI_MAP_ANONYMOUS \<noteq> 0"
  shows "mmap_data E nap ndp (a + mem_start nap) len fb prot flags offset =
    (if 0 \<noteq> NOT NACL_ABI_PROT_MASK AND prot then Inr (Inl (err64 NACL_ABI_EINVAL)) else Inr (Inr ()))"
proof -
  have s: "unat (a + mem_start nap) < 2 ^ 64 - 2 ^ 16"
    using sys_addr(1) [OF assms(1), of a] assms(2,4) by (simp add: space_low_def)
  have e: "NaClPtrIsNegErrno (err64 NACL_ABI_EINVAL)" "err64 NACL_ABI_EINVAL \<noteq> err64 NACL_ABI_E_MOVE_ADDRESS_SPACE"
    by (simp_all add: NaClPtrIsNegErrno_def err64_def errno_defs NACL_ABI_E_MOVE_ADDRESS_SPACE_def)
  have fl: "(flags OR NACL_ABI_MAP_FIXED) AND NACL_ABI_MAP_SHARED = flags AND NACL_ABI_MAP_SHARED"
    "(flags OR NACL_ABI_MAP_FIXED) AND NACL_ABI_MAP_PRIVATE = flags AND NACL_ABI_MAP_PRIVATE"
    "(flags OR NACL_ABI_MAP_FIXED) AND NACL_ABI_MAP_ANONYMOUS = flags AND NACL_ABI_MAP_ANONYMOUS"
    by (simp_all add: map_consts bit.conj_disj_distrib2 NACL_ABI_MAP_ANONYMOUS_def NACL_ABI_MAP_FIXED_def)
  have io: "NaClDescIoDescMap f V d (a + mem_start nap) n prot flags offset =
      (if 0 \<noteq> NOT NACL_ABI_PROT_MASK AND prot then Inr (err64 NACL_ABI_EINVAL) else Inr (a + mem_start nap))"
    if "d = None \<longrightarrow> flags AND NACL_ABI_MAP_ANONYMOUS \<noteq> 0" "\<And>h. d = Some h \<Longrightarrow> hd_d h \<noteq> - 1" for f V d n
    using host_map_ok [OF assms(1-5), of "flags OR NACL_ABI_MAP_FIXED" d V] assms(6,7) that unfolding fl
    by (simp add: NaClDescIoDescMap_def and.commute [of NACL_ABI_MAP_FIXED])
  show ?thesis
  proof (cases ndp)
    case None
    then show ?thesis using io [of None] assms(9) not_neg_errno [OF s] e
      by (simp add: mmap_data_def NaClDescIoDescMapAnon_def)
  next
    case (Some d)
    then obtain h where "hd_d h \<noteq> - 1" "DescMap E d = NaClDescIoDescMap (find_space E) (io_env E) (Some h)"
      using assms(8) by (auto simp: mmap_file_ok_def)
    then show ?thesis using Some io [of "Some h"] not_neg_errno [OF s] e by (simp add: mmap_data_def)
  qed
qed

text \<open>What the mapping leaves: the pages of the region get the new attributes, the bytes past the
  extent of the file are cleared, all else is kept.\<close>

definition mmap_done ::
    "sys_app \<Rightarrow> nat \<Rightarrow> nat \<Rightarrow> nat \<Rightarrow> u32 \<Rightarrow> u32 \<Rightarrow> nat option \<Rightarrow> u64 \<Rightarrow> u64 \<Rightarrow> sys_app \<Rightarrow> bool" where
  "mmap_done nap a ext sz prot flags ndp offset fs nap' \<longleftrightarrow>
     (\<forall>p. vm_page (mem_map nap') p =
        (if a \<le> p * 4096 \<and> p * 4096 < a + sz then Some (prot, flags, ndp, offset + of_nat (p * 4096 - a), fs)
         else vm_page (mem_map nap) p)) \<and>
     (\<forall>x. memory nap' x =
        (if x - (mem_start nap + of_nat (a + ext)) < of_nat (sz - ext) then 0 else memory nap x)) \<and>
     nap' = nap\<lparr>mem_map := mem_map nap', memory := memory nap'\<rparr>"

lemma mmap_install_ok:
  assumes inv: "sys_inv nap M" and a: "65536 dvd unat a" "65536 dvd unat sz" "0 < unat sz" "unat a + unat sz \<le> 2 ^ addr_bits nap"
    and above: "unat (dynamic_text_end nap) \<le> unat a"
    and len: "4096 dvd unat len" "unat len \<le> unat sz" and mem: "malloc_ok E = (\<lambda>_. True)"
  shows "\<exists>nap'. mmap_install E nap ndp a (a + mem_start nap) len sz prot flags offset fs = Inr (a, nap') \<and>
    sys_inv nap' M \<and> mmap_done nap (unat a) (unat len) (unat sz) prot flags ndp offset fs nap'"
proof -
  let ?pn = "drop_bit NACL_PAGESHIFT a" and ?np = "drop_bit NACL_PAGESHIFT sz"
  have sp: "space_ok nap" using inv by (simp add: sys_inv_def)
  have bits: "(2 :: nat) ^ addr_bits nap \<le> 2 ^ 32" using sp by (intro power_increasing) (simp_all add: space_ok_def)
  have d: "4096 dvd unat a" "4096 dvd unat sz" using a(1,2) by (auto elim!: dvdE)
  have np: "0 < unat ?np" "unat ?pn + unat ?np \<le> PAGE_LIMIT"
    using a d bits by (auto simp: unat_page PAGE_LIMIT_def elim!: dvdE)
  have us: "NaClSysToUser nap (a + mem_start nap) = Inr a" using a(3,4) by (intro sys_to_user(1) [OF sp]) simp
  obtain nap1 where r: "(if len < sz then MunmapInternal (\<lambda>_. True) nap (a + mem_start nap + len) (sz - len) else Inr (0, nap)) = Inr (0, nap1)"
    and wf: "wf_vmmap (mem_map nap1)"
    and n1: "nap1 = nap\<lparr>mem_map := mem_map nap1, memory := memory nap1\<rparr>"
    and m1: "\<forall>x. memory nap1 x = (if x - (mem_start nap + (a + len)) < sz - len then 0 else memory nap x)"
    and p1: "\<forall>p. \<not> (unat a \<le> p * 4096 \<and> p * 4096 < unat a + unat sz) \<longrightarrow> vm_page (mem_map nap1) p = vm_page (mem_map nap) p"
  proof (cases "len < sz")
    case True
    have u: "unat (a + len) = unat a + unat len" "unat (sz - len) = unat sz - unat len"
      using a(4) len(2) bits by (simp_all add: unat_add_no_wrap unat_diff_le)
    have "4096 dvd unat (a + len)" "4096 dvd unat (sz - len)" "0 < unat (sz - len)" "unat (a + len) + unat (sz - len) \<le> 2 ^ addr_bits nap"
      "unat (dynamic_text_end nap) \<le> unat (a + len)"
      using True d a len above unfolding u by (auto simp: word_less_nat_alt)
    from MunmapInternal_ok [OF inv this] obtain m where
      m: "MunmapInternal (\<lambda>_. True) nap (a + len + mem_start nap) (sz - len) =
        Inr (0, nap\<lparr>memory := zero_bytes (a + len + mem_start nap) (sz - len) (memory nap), mem_map := m\<rparr>)" "wf_vmmap m"
      "\<forall>p. vm_page m p = (if unat (a + len) \<le> p * 4096 \<and> p * 4096 < unat (a + len) + unat (sz - len) then None else vm_page (mem_map nap) p)"
      by blast
    show ?thesis
      by (rule that [of "nap\<lparr>memory := zero_bytes (a + len + mem_start nap) (sz - len) (memory nap), mem_map := m\<rparr>"])
        (use True m len(2) in \<open>auto simp: u ac_simps zero_bytes_def\<close>)
  next
    case False
    then have "sz = len" using len(2) by (intro unat_eqD) (simp add: word_less_nat_alt)
    then show ?thesis using False inv by (intro that [of nap]) (simp_all add: sys_inv_def)
  qed
  obtain m where m: "NaClVmmapAddWithOverwrite (\<lambda>_. True) (mem_map nap1) ?pn ?np prot flags ndp offset fs = Inr m" "wf_vmmap m"
    "\<forall>p. vm_page m p = (if in_region ?pn ?np p then Some (new_attrs ?pn prot flags ndp offset fs p) else vm_page (mem_map nap1) p)"
    using AddWithOverwrite_pages [where mem = "\<lambda>_. True", OF wf np] by blast
  define nap' where "nap' = nap1\<lparr>mem_map := m\<rparr>"
  have us1: "NaClSysToUser nap1 (a + mem_start nap) = Inr a" by (subst n1) (simp add: us)
  have run: "mmap_install E nap ndp a (a + mem_start nap) len sz prot flags offset fs = Inr (a, nap')"
    using r m(1) us1 a(3) unfolding mmap_install_def mem nap'_def by (simp add: word_less_nat_alt)
  have at: "new_attrs ?pn prot flags ndp offset fs p = (prot, flags, ndp, offset + of_nat (p * 4096 - unat a), fs)"
    if "unat a \<le> p * 4096" for p
  proof -
    obtain k where k: "unat a = 4096 * k" using d(1) by (elim dvdE)
    have "unat ?pn = k" using k by (simp add: unat_page)
    moreover have "(of_nat (unat ?pn) :: u64) = ?pn" by simp
    ultimately have "?pn = of_nat k" by simp
    moreover have "of_nat p - of_nat k = (of_nat (p - k) :: u64)" using that k by (simp add: of_nat_diff)
    moreover have "p * 4096 - unat a = 4096 * (p - k)" using k by (simp add: diff_mult_distrib2)
    ultimately show ?thesis by (simp add: new_attrs_def NACL_PAGESHIFT_def push_bit_eq_mult)
  qed
  have w: "(of_nat (unat a + unat len) :: u64) = a + len" "(of_nat (unat sz - unat len) :: u64) = sz - len"
    using len(2) by (simp_all add: of_nat_diff)
  have "mmap_done nap (unat a) (unat len) (unat sz) prot flags ndp offset fs nap'"
    unfolding mmap_done_def w
  proof (intro conjI allI)
    show "vm_page (mem_map nap') p = (if unat a \<le> p * 4096 \<and> p * 4096 < unat a + unat sz
        then Some (prot, flags, ndp, offset + of_nat (p * 4096 - unat a), fs) else vm_page (mem_map nap) p)" for p
      using m(3) p1 at [of p] unfolding region_pages [OF d] nap'_def by simp
    show "memory nap' x = (if x - (mem_start nap + (a + len)) < sz - len then 0 else memory nap x)" for x
      using m1 unfolding nap'_def by simp
    show "nap' = nap\<lparr>mem_map := mem_map nap', memory := memory nap'\<rparr>" unfolding nap'_def by (subst n1) simp
  qed
  moreover have "sys_inv nap' M"
  proof -
    obtain q where q: "q * 4096 < unat (dynamic_text_end nap)" "vm_page (mem_map nap) q \<noteq> None"
      using inv by (auto simp: sys_inv_def)
    then have "vm_page m q \<noteq> None" using above m(3) p1 unfolding region_pages [OF d] by auto
    then show ?thesis using inv q m(2) unfolding nap'_def sys_inv_def
      by (subst n1, subst (2) n1, subst (3) n1) (auto simp: space_ok_def)
  qed
  ultimately show ?thesis using run by blast
qed

lemma mmap_pending:
  fixes a len sz :: u64
  assumes inv: "sys_inv nap M" and a: "0 < unat len" "unat len \<le> unat sz" "unat a + unat sz \<le> 2 ^ addr_bits nap"
  shows "NaClVmIoPendingCheck_mu (mem_io_regions nap) (ucast a) (ucast (a + len - 1)) =
    (if io_touches M (unat a) (unat len) then Inl LogFatal else Inr ())"
proof -
  have bits: "(2 :: nat) ^ addr_bits nap \<le> 2 ^ 32"
    using inv by (intro power_increasing) (simp_all add: space_ok_def sys_inv_def)
  have f: "unat (ucast a :: u32) = unat a" using a bits by (simp add: unsigned_ucast_eq take_bit_nat_eq_self)
  have "unat (len - 1) = unat len - 1" using a(1) unat_diff_le [of 1 len] by simp
  moreover from this have "unat (a + (len - 1)) = unat a + unat (len - 1)" using a bits by (subst unat_add_no_wrap) simp_all
  ultimately have e: "unat (a + len - 1) = unat a + unat len - 1" using a(1) by (simp add: add_diff_eq)
  have "unat (ucast (a + len - 1) :: u32) = unat a + unat len - 1"
    using a bits unfolding unsigned_ucast_eq e by (simp add: take_bit_nat_eq_self)
  then show ?thesis using inv a bits f unfolding f [symmetric]
    by (intro pending_check_touches) (simp_all add: sys_inv_def)
qed

lemma mmap_locked_eq:
  assumes inv: "sys_inv nap M" "space_low nap" and a: "65536 dvd unat a" "0 < unat sz" "unat sz \<le> 2 ^ 32"
    and len: "0 < unat len" "unat len \<le> unat sz" and prot: "prot AND NACL_ABI_PROT_EXEC = 0"
    and fok: "mmap_file_ok E ndp offset fs" "ndp = None \<longrightarrow> flags AND NACL_ABI_MAP_ANONYMOUS \<noteq> 0"
  shows "mmap_locked E nap ndp False a len sz prot flags offset fs fb =
    (if 2 ^ addr_bits nap < unat a + unat sz \<or> unat a < unat (dynamic_text_end nap) then Inr (err64 NACL_ABI_EINVAL, nap)
     else if io_touches M (unat a) (unat len) then Inl LogFatal
     else if (0 = flags AND NACL_ABI_MAP_SHARED) = (0 = flags AND NACL_ABI_MAP_PRIVATE) \<or> 0 \<noteq> NOT NACL_ABI_PROT_MASK AND prot
     then Inr (err64 NACL_ABI_EINVAL, nap)
     else mmap_install E nap ndp a (a + mem_start nap) len sz prot (flags OR NACL_ABI_MAP_FIXED) offset fs)"
proof -
  have sp: "space_ok nap" using inv by (simp add: sys_inv_def)
  have "prot = (prot AND NACL_ABI_PROT_EXEC) OR (prot AND NOT NACL_ABI_PROT_EXEC)" by (simp flip: bit.conj_disj_distrib)
  then have pe: "prot AND NOT NACL_ABI_PROT_EXEC = prot" unfolding prot by simp
  have fl: "(flags OR NACL_ABI_MAP_FIXED) AND NACL_ABI_MAP_SHARED = flags AND NACL_ABI_MAP_SHARED"
    "(flags OR NACL_ABI_MAP_FIXED) AND NACL_ABI_MAP_PRIVATE = flags AND NACL_ABI_MAP_PRIVATE"
    "(flags OR NACL_ABI_MAP_FIXED) AND NACL_ABI_MAP_ANONYMOUS = flags AND NACL_ABI_MAP_ANONYMOUS"
    "0 \<noteq> (flags OR NACL_ABI_MAP_FIXED) AND NACL_ABI_MAP_FIXED"
    by (simp_all add: map_consts bit.conj_disj_distrib2 NACL_ABI_MAP_ANONYMOUS_def NACL_ABI_MAP_FIXED_def)
  show ?thesis
  proof (cases "unat a + unat sz \<le> 2 ^ addr_bits nap \<and> unat (dynamic_text_end nap) \<le> unat a")
    case True
    obtain q where "q * 4096 < unat (dynamic_text_end nap)" using inv by (auto simp: sys_inv_def)
    then have a0: "0 < unat a" "unat a < 2 ^ addr_bits nap" using True a by auto
    then have us: "NaClUserToSys nap a = Inr (a + mem_start nap)"
      using unat_limit [OF sp] by (auto simp: NaClUserToSys_def word_le_nat_alt unat_eq_0)
    have data: "mmap_data E nap ndp (a + mem_start nap) len fb prot (flags OR NACL_ABI_MAP_FIXED) offset =
        (if 0 \<noteq> NOT NACL_ABI_PROT_MASK AND prot then Inr (Inl (err64 NACL_ABI_EINVAL)) else Inr (Inr ()))"
      if "(0 = flags AND NACL_ABI_MAP_SHARED) \<noteq> (0 = flags AND NACL_ABI_MAP_PRIVATE)"
      using mmap_data_spec [OF sp inv(2) a0 prot fl(4) _ fok(1)] fok(2) that unfolding fl(1-3) by blast
    have ok: "mmap_region_ok E nap ndp False a len sz" using True region_ok_iff [OF sp a] by blast
    show ?thesis using True ok mmap_pending [OF inv(1) len, of a] us data len(1) unfolding mmap_locked_def
      by (cases ndp) (simp_all add: Let_def pe fl(1,2) word_less_nat_alt)
  next
    case False
    then show ?thesis using region_ok_iff [OF sp a] by (auto simp: mmap_locked_def)
  qed
qed

lemma mmap_request_eq:
  assumes prot: "prot AND NACL_ABI_PROT_EXEC = 0" and off: "65536 dvd unat offset" "unat offset < 2 ^ 63"
    and len: "unat len < 2 ^ 32"
  shows "mmap_request nap start len prot flags ndp offset =
    (if 0 \<noteq> flags AND NACL_ABI_MAP_FIXED \<and> \<not> 65536 dvd unat start \<or> unat len = 0 \<or> alloc_len (unat len) = 2 ^ 32
     then Inl (err64 NACL_ABI_EINVAL)
     else Inr (False, NaClTruncAllocPage start, NaClRoundAllocPage len))"
proof -
  let ?n = "NaClRoundAllocPage len"
  have n: "unat ?n = alloc_len (unat len)" "alloc_len (unat len) \<le> 2 ^ 32"
    using unat_round_alloc [of len] alloc_len_bounds(3) [of "unat len"] len by simp_all
  have z: "(0 :: u32) = ucast ?n \<longleftrightarrow> unat len = 0 \<or> alloc_len (unat len) = 2 ^ 32"
  proof -
    have "unat (ucast ?n :: u32) = alloc_len (unat len) mod 2 ^ 32"
      by (simp add: unsigned_ucast_eq take_bit_eq_mod n(1))
    moreover have "(0 :: u32) = ucast ?n \<longleftrightarrow> unat (ucast ?n :: u32) = 0" by (simp only: unat_eq_0 eq_commute [of 0])
    ultimately have "(0 :: u32) = ucast ?n \<longleftrightarrow> alloc_len (unat len) mod 2 ^ 32 = 0" by simp
    then show ?thesis using n(2) alloc_len_bounds(4) [of "unat len"] by (auto simp: le_less)
  qed
  have nn: "\<not> offset <s 0" using off(2) by (simp add: word_sless_alt sint_of_small)
  have c: "mmap_code_check nap start len prot flags ndp = Inr False"
    using prot by (simp add: mmap_code_check_def and.commute [of NACL_ABI_PROT_EXEC])
  have t: "(if \<not> 65536 dvd unat start then NaClTruncAllocPage start else start) = NaClTruncAllocPage start"
    by (simp add: trunc_alloc_multiple)
  show ?thesis using off(1) nn z
    by (auto simp: mmap_request_def c alloc_multiple_iff Let_def t and.commute [of NACL_ABI_MAP_FIXED])
qed

section \<open>The call\<close>

text \<open>A refused call leaves every page, the memory and the counts as they are.\<close>

definition mmap_refused :: "u32 \<Rightarrow> sys_app \<Rightarrow> (nat \<Rightarrow> int) \<Rightarrow> (u32 \<times> sys_app \<times> (nat \<Rightarrow> int)) run \<Rightarrow> bool" where
  "mmap_refused e nap refs r \<longleftrightarrow> (\<exists>m. r = Inr (- e, nap\<lparr>mem_map := m\<rparr>, refs) \<and> wf_vmmap m \<and>
     (\<forall>p. vm_page m p = vm_page (mem_map nap) p))"

lemma err64_small [simp]:
  "e \<in> {NACL_ABI_EINVAL, NACL_ABI_ENOMEM, NACL_ABI_EBADF, NACL_ABI_ENODEV} \<Longrightarrow> NaClPtrIsNegErrno (err64 e)"
  by (auto simp: NaClPtrIsNegErrno_def err64_def errno_defs)

lemma ucast_err64: "(ucast (err64 e) :: u32) = - e"
  unfolding err64_def by (rule bit_word_eqI) (auto simp: bit_simps)

lemma sys_inv_map:
  assumes "sys_inv nap M" "wf_vmmap m" "\<forall>p. vm_page m p = vm_page (mem_map nap) p"
  shows "sys_inv (nap\<lparr>mem_map := m\<rparr>) M"
  using assms by (simp add: sys_inv_def space_ok_def)

lemma mmap_place_aligned:
  "mmap_place_ok m fixed h n (Some a) \<Longrightarrow> 65536 dvd h \<Longrightarrow> 65536 dvd a"
  by (auto simp: mmap_place_ok_def Let_def map_gap_def elim!: dvdE split: if_splits)

definition taken :: "nat option \<Rightarrow> (nat \<Rightarrow> int) \<Rightarrow> nat \<Rightarrow> int" where
  "taken ndp refs = (if ndp = None then refs else NaClDescRef refs ndp)"

lemma mmap_finish_refused:
  assumes "NaClPtrIsNegErrno (err64 e)" "wf_vmmap m" "\<forall>p. vm_page m p = vm_page (mem_map nap) p"
  shows "mmap_refused e nap refs (mmap_finish ndp (taken ndp refs) (err64 e, nap\<lparr>mem_map := m\<rparr>))"
  using assms ucast_err64 [of e]
  by (auto simp: mmap_finish_def mmap_refused_def taken_def NaClDescRef_def NaClDescSafeUnref_def Let_def split: option.splits)

lemma mmap_finish_ok:
  assumes "unat a < 2 ^ 32"
  shows "mmap_finish ndp (taken ndp refs) (a, nap) = Inr (of_nat (unat a), nap, refs)"
proof -
  have "\<not> a > 0xffffffff" using assms by (simp add: word_less_nat_alt)
  moreover have "(ucast a :: u32) = of_nat (unat a)" by simp
  ultimately show ?thesis
    by (auto simp: mmap_finish_def taken_def NaClDescRef_def NaClDescSafeUnref_def Let_def split: option.splits)
qed

lemma NaClSysMmapIntern_body:
  assumes "flags AND NOT mmap_allowed_flags = 0" "ndp = (if 0 \<noteq> flags AND NACL_ABI_MAP_ANONYMOUS then None else GetDesc E d)"
    "ndp = None \<longrightarrow> flags AND NACL_ABI_MAP_ANONYMOUS \<noteq> 0"
  shows "NaClSysMmapIntern E nap refs start len prot flags d offset =
    bindE (mmap_body E nap ndp start len prot flags offset) (mmap_finish ndp (taken ndp refs))"
  using assms by (auto simp: NaClSysMmapIntern_def taken_def split: option.splits)

lemma file_extent_bounds:
  assumes "mmap_size_ok E ndp offset fs" "65536 dvd sz" "0 < sz"
  shows "4096 dvd file_extent E ndp offset fs sz" "0 < file_extent E ndp offset fs sz" "file_extent E ndp offset fs sz \<le> sz"
proof -
  have "4096 dvd sz" using assms(2) by (auto elim!: dvdE)
  moreover have "4096 dvd round_up (unat fs - unat offset) 4096" by (simp add: round_up_dvd)
  ultimately show "4096 dvd file_extent E ndp offset fs sz" by (auto simp: file_extent_def min_def split: option.splits)
  show "0 < file_extent E ndp offset fs sz" "file_extent E ndp offset fs sz \<le> sz"
    using assms round_up_ge [of 4096 "unat fs - unat offset"]
    by (auto simp: file_extent_def mmap_size_ok_def split: option.splits)
qed

text \<open>What the call does once it has an address \<open>a\<close> for a region of \<open>sz\<close> bytes, of which the file
  reaches \<open>ext\<close>.\<close>

definition mmap_outcome ::
    "sys_app \<Rightarrow> interval multiset \<Rightarrow> (nat \<Rightarrow> int) \<Rightarrow> nat \<Rightarrow> nat \<Rightarrow> nat \<Rightarrow> u32 \<Rightarrow> u32 \<Rightarrow> nat option \<Rightarrow> u64 \<Rightarrow> u64 \<Rightarrow>
     (u32 \<times> sys_app \<times> (nat \<Rightarrow> int)) run \<Rightarrow> bool" where
  "mmap_outcome nap M refs a ext sz prot flags ndp offset fs r \<longleftrightarrow>
     (if 2 ^ addr_bits nap < a + sz \<or> a < unat (dynamic_text_end nap) then mmap_refused NACL_ABI_EINVAL nap refs r
      else if io_touches M a ext then r = Inl LogFatal
      else if (0 = flags AND NACL_ABI_MAP_SHARED) = (0 = flags AND NACL_ABI_MAP_PRIVATE) \<or>
        0 \<noteq> NOT NACL_ABI_PROT_MASK AND prot then mmap_refused NACL_ABI_EINVAL nap refs r
      else \<exists>nap'. r = Inr (of_nat a, nap', refs) \<and> sys_inv nap' M \<and>
        mmap_done nap a ext sz prot (flags OR NACL_ABI_MAP_FIXED) ndp offset fs nap')"

lemma mmap_locked_outcome:
  assumes inv: "sys_inv nap M" "space_low nap" and mem: "malloc_ok E = (\<lambda>_. True)"
    and m: "wf_vmmap m" "\<forall>p. vm_page m p = vm_page (mem_map nap) p"
    and a: "65536 dvd unat a" "65536 dvd unat sz" "0 < unat sz" "unat sz \<le> 2 ^ 32"
    and len: "4096 dvd unat len" "0 < unat len" "unat len \<le> unat sz" and prot: "prot AND NACL_ABI_PROT_EXEC = 0"
    and fok: "mmap_file_ok E ndp offset fs" "ndp = None \<longrightarrow> flags AND NACL_ABI_MAP_ANONYMOUS \<noteq> 0"
  shows "mmap_outcome nap M refs (unat a) (unat len) (unat sz) prot flags ndp offset fs
    (bindE (mmap_locked E (nap\<lparr>mem_map := m\<rparr>) ndp False a len sz prot flags offset fs fb) (mmap_finish ndp (taken ndp refs)))"
proof -
  let ?nap = "nap\<lparr>mem_map := m\<rparr>" and ?I = "mmap_install E (nap\<lparr>mem_map := m\<rparr>) ndp a (a + mem_start nap) len sz prot (flags OR NACL_ABI_MAP_FIXED) offset fs"
  have inv': "sys_inv ?nap M" "space_low ?nap" using sys_inv_map [OF inv(1) m] inv(2) by (simp_all add: space_low_def)
  have sp: "space_ok nap" using inv(1) by (simp add: sys_inv_def)
  have bits: "(2 :: nat) ^ addr_bits nap \<le> 2 ^ 32" using sp by (intro power_increasing) (simp_all add: space_ok_def)
  have installed: "\<exists>nap'. bindE ?I (mmap_finish ndp (taken ndp refs)) = Inr (of_nat (unat a), nap', refs) \<and> sys_inv nap' M \<and>
      mmap_done nap (unat a) (unat len) (unat sz) prot (flags OR NACL_ABI_MAP_FIXED) ndp offset fs nap'"
    if c: "unat a + unat sz \<le> 2 ^ addr_bits nap" "unat (dynamic_text_end nap) \<le> unat a"
  proof -
    obtain nap' where "?I = Inr (a, nap')" "sys_inv nap' M"
        "mmap_done ?nap (unat a) (unat len) (unat sz) prot (flags OR NACL_ABI_MAP_FIXED) ndp offset fs nap'"
      using mmap_install_ok [OF inv'(1) a(1-3) _ _ len(1,3) mem, where prot = prot and flags = "flags OR NACL_ABI_MAP_FIXED"
          and ndp = ndp and offset = offset and fs = fs] c by auto
    moreover from this(3) have "mmap_done nap (unat a) (unat len) (unat sz) prot (flags OR NACL_ABI_MAP_FIXED) ndp offset fs nap'"
      using m(2) by (simp add: mmap_done_def)
    moreover have "unat a < 2 ^ 32" using c(1) a(3) bits by simp
    ultimately show ?thesis using mmap_finish_ok [of a ndp refs nap'] by simp
  qed
  show ?thesis
    using mmap_locked_eq [OF inv' a(1,3,4) len(2,3) prot fok] mmap_finish_refused [of NACL_ABI_EINVAL m nap refs ndp, OF _ m] installed
    by (simp add: mmap_outcome_def)
qed

lemma mmap_main:
  assumes inv: "sys_inv nap M" "space_low nap" and mem: "malloc_ok E = (\<lambda>_. True)"
    and fl: "flags AND NOT mmap_allowed_flags = 0"
    and ndp: "ndp = (if 0 \<noteq> flags AND NACL_ABI_MAP_ANONYMOUS then None else GetDesc E d)"
      "ndp = None \<longrightarrow> flags AND NACL_ABI_MAP_ANONYMOUS \<noteq> 0"
    and fok: "mmap_file_ok E ndp offset fs"
    and prot: "prot AND NACL_ABI_PROT_EXEC = 0" and off: "65536 dvd unat offset" "unat offset < 2 ^ 63"
    and len: "unat len < 2 ^ 32"
  shows "let fixed = (0 \<noteq> flags AND NACL_ABI_MAP_FIXED); sz = alloc_len (unat len);
      r = NaClSysMmapIntern E nap refs start len prot flags d offset in
    if fixed \<and> \<not> 65536 dvd unat start \<or> unat len = 0 \<or> sz = 2 ^ 32 then mmap_refused NACL_ABI_EINVAL nap refs r
    else \<exists>pl. mmap_place_ok (mem_map nap) fixed (unat start div 65536 * 65536) (sz div 4096) pl \<and>
      (case pl of
         None \<Rightarrow> mmap_refused NACL_ABI_ENOMEM nap refs r
       | Some a \<Rightarrow> mmap_outcome nap M refs a (file_extent E ndp offset fs sz) sz prot flags ndp offset fs r)"
proof -
  define fixed where "fixed \<longleftrightarrow> 0 \<noteq> flags AND NACL_ABI_MAP_FIXED"
  define sz where "sz = alloc_len (unat len)"
  define ext where "ext = file_extent E ndp offset fs sz"
  define bad where "bad \<longleftrightarrow> fixed \<and> \<not> 65536 dvd unat start \<or> unat len = 0 \<or> sz = 2 ^ 32"
  let ?n = "NaClRoundAllocPage len" and ?h = "NaClTruncAllocPage start"
    and ?r = "NaClSysMmapIntern E nap refs start len prot flags d offset"
  have req: "mmap_request nap start len prot flags ndp offset =
      (if bad then Inl (err64 NACL_ABI_EINVAL) else Inr (False, ?h, ?n))"
    using mmap_request_eq [OF prot off len, of nap start flags ndp] unfolding bad_def fixed_def sz_def by blast
  have r: "?r = bindE (mmap_body E nap ndp start len prot flags offset) (mmap_finish ndp (taken ndp refs))"
    by (rule NaClSysMmapIntern_body [OF fl ndp])
  have wf: "wf_vmmap (mem_map nap)" and sok: "mmap_size_ok E ndp offset fs"
    using inv(1) fok by (simp_all add: sys_inv_def mmap_file_ok_def)
  have "mmap_refused NACL_ABI_EINVAL nap refs ?r" if bad
    using that mmap_finish_refused [of NACL_ABI_EINVAL "mem_map nap" nap refs ndp] wf unfolding r by (simp add: mmap_body_def req)
  moreover have "\<exists>p. mmap_place_ok (mem_map nap) fixed (unat start div 65536 * 65536) (sz div 4096) p \<and>
      (case p of None \<Rightarrow> mmap_refused NACL_ABI_ENOMEM nap refs ?r
       | Some a \<Rightarrow> mmap_outcome nap M refs a ext sz prot flags ndp offset fs ?r)" if good: "\<not> bad"
  proof -
    have szb: "sz \<le> 2 ^ 32" "65536 dvd sz" "0 < sz"
      using alloc_len_bounds(2,3,4) [of "unat len"] len good unfolding sz_def bad_def by auto
    then have n: "unat ?n = sz" "sz < 2 ^ 32" "65536 \<le> sz"
      using unat_round_alloc [of len] len good unfolding bad_def by (auto simp: sz_def dest: dvd_imp_le)
    have chk: "?n = ucast (ucast ?n :: u32)"
      using n by (intro unat_eqD) (simp add: unsigned_ucast_eq unsigned_take_bit_eq take_bit_nat_eq_self)
    have h: "unat ?h = unat start div 65536 * 65536" by (rule unat_NaClTruncAllocPage)
    obtain fb hr where ex: "mmap_extent E ndp offset = Inr (Inr (fs, fb, hr))" "unat (size_min ?n hr) = ext"
      using mmap_extent_ok [OF sok, of sz] n unfolding ext_def n(1) [symmetric] by auto
    obtain pl m where pl: "mmap_place nap flags ?h ?n = Inr (pl, nap\<lparr>mem_map := m\<rparr>)" "wf_vmmap m"
        "\<forall>p. vm_page m p = vm_page (mem_map nap) p"
      and ok: "mmap_place_ok (mem_map nap) fixed (unat ?h) (sz div 4096) (case pl of Inl e \<Rightarrow> None | Inr a \<Rightarrow> Some (unat a))"
      and e: "case pl of Inl e \<Rightarrow> e = err64 NACL_ABI_ENOMEM | Inr a \<Rightarrow> True"
      using mmap_place_spec [OF wf, of ?n ?h flags] n h unfolding fixed_def by auto
    have body: "mmap_body E nap ndp start len prot flags offset =
        (case pl of Inl r \<Rightarrow> Inr (r, nap\<lparr>mem_map := m\<rparr>)
         | Inr a \<Rightarrow> mmap_locked E (nap\<lparr>mem_map := m\<rparr>) ndp False a (size_min ?n hr) ?n prot flags offset fs fb)"
      using good chk by (simp add: mmap_body_def req ex(1) pl(1))
    show ?thesis
    proof (cases pl)
      case (Inl e')
      then have "mmap_refused NACL_ABI_ENOMEM nap refs ?r"
        using e mmap_finish_refused [of NACL_ABI_ENOMEM m nap refs ndp, OF err64_small] pl(2,3) unfolding r body by simp
      then show ?thesis using Inl ok h by (intro exI [of _ None]) simp
    next
      case (Inr a)
      have al: "65536 dvd unat a" using mmap_place_aligned [of _ fixed "unat ?h" _ "unat a"] ok Inr h by simp
      have "mmap_outcome nap M refs (unat a) ext sz prot flags ndp offset fs ?r"
        using mmap_locked_outcome [OF inv mem pl(2,3) al, where sz = ?n and len = "size_min ?n hr"] n szb prot fok ndp(2)
          file_extent_bounds [OF sok szb(2,3), folded ext_def]
        unfolding n(1) ex(2) r body Inr by simp
      then show ?thesis using Inr ok h by (intro exI [of _ "Some (unat a)"]) simp
    qed
  qed
  ultimately show ?thesis unfolding bad_def fixed_def ext_def sz_def Let_def by simp
qed

section \<open>Requests that are refused before an address is chosen\<close>

text \<open>Unknown flags are dropped.\<close>

lemma mmap_unknown_flags:
  "NaClSysMmapIntern E nap refs start len prot flags d offset =
   NaClSysMmapIntern E nap refs start len prot (flags AND mmap_allowed_flags) d offset"
proof -
  have m: "(flags AND mmap_allowed_flags) AND NOT mmap_allowed_flags = 0" by (simp add: and.assoc)
  show ?thesis
  proof (cases "flags AND NOT mmap_allowed_flags = 0")
    case True
    then have "flags AND mmap_allowed_flags = flags"
      using bit.conj_disj_distrib [of flags mmap_allowed_flags "NOT mmap_allowed_flags"] by simp
    then show ?thesis by simp
  next
    case False
    then have "0 \<noteq> flags AND NOT mmap_allowed_flags" "\<not> 0 \<noteq> (flags AND mmap_allowed_flags) AND NOT mmap_allowed_flags"
      using m by simp_all
    then show ?thesis by (simp only: NaClSysMmapIntern_def Let_def if_True if_False not_False_eq_True)
  qed
qed

text \<open>The refusals in the order of the code, with their errors: no such descriptor; an executable mapping that
  is not one of code into the dynamic code space; a bad offset; and, when address and length are good, a file
  whose status cannot be read (with the error of \<open>fstat\<close>), that is neither regular nor shared memory, or that
  ends before the offset.\<close>

definition mmap_code_allowed :: "sys_app \<Rightarrow> u64 \<Rightarrow> u64 \<Rightarrow> u32 \<Rightarrow> u32 \<Rightarrow> bool" where
  "mmap_code_allowed nap start len prot flags \<longleftrightarrow>
     0 \<noteq> flags AND NACL_ABI_MAP_FIXED \<and> 0 = flags AND NACL_ABI_MAP_ANONYMOUS \<and> 0 = prot AND NACL_ABI_PROT_WRITE \<and>
     NaClSysCommonAddrRangeInAllowedDynamicCodeSpace nap start len \<and> enable_dyncode_syscalls nap"

definition file_refusal :: "mmap_env \<Rightarrow> nat \<Rightarrow> u64 \<Rightarrow> u32 \<Rightarrow> bool" where
  "file_refusal E p offset e \<longleftrightarrow> (case Fstat E p of (res, mode, fs) \<Rightarrow>
     if res \<noteq> 0 then res = - e \<and> NaClPtrIsNegErrno (err64 e)
     else if mode AND NACL_ABI_S_IFMT \<notin> {NACL_ABI_S_IFREG, NACL_ABI_S_IFSHM} then e = NACL_ABI_ENODEV
     else sint fs < sint offset \<and> e = NACL_ABI_EINVAL)"

definition mmap_refusal :: "mmap_env \<Rightarrow> sys_app \<Rightarrow> u64 \<Rightarrow> u64 \<Rightarrow> u32 \<Rightarrow> u32 \<Rightarrow> u32 \<Rightarrow> u64 \<Rightarrow> u32 \<Rightarrow> bool" where
  "mmap_refusal E nap start len prot flags d offset e \<longleftrightarrow>
     (if 0 = flags AND NACL_ABI_MAP_ANONYMOUS \<and> GetDesc E d = None then e = NACL_ABI_EBADF
      else if 0 \<noteq> prot AND NACL_ABI_PROT_EXEC then \<not> mmap_code_allowed nap start len prot flags \<and> e = NACL_ABI_EINVAL
      else if sint offset < 0 \<or> \<not> 65536 dvd unat offset then e = NACL_ABI_EINVAL
      else unat len < 2 ^ 32 \<and> \<not> (0 \<noteq> flags AND NACL_ABI_MAP_FIXED \<and> \<not> 65536 dvd unat start) \<and> unat len \<noteq> 0 \<and>
        alloc_len (unat len) \<noteq> 2 ^ 32 \<and> 0 = flags AND NACL_ABI_MAP_ANONYMOUS \<and> file_refusal E (the (GetDesc E d)) offset e)"

lemma unat_of_not_neg: "\<not> sint x < 0 \<Longrightarrow> unat x < 2 ^ 63" for x :: u64
proof -
  assume "\<not> sint x < 0"
  then have "uint x = sint x"
    using sint_lt [of x] by (simp add: uint_sint take_bit_int_eq_self_iff)
  then have "int (unat x) < 2 ^ 63" using sint_lt [of x] by simp
  then show ?thesis by (simp only: of_nat_less_numeral_power_cancel_iff)
qed

lemma mmap_refusal_refused:
  assumes inv: "sys_inv nap M" and fl: "flags AND NOT mmap_allowed_flags = 0"
    and ref: "mmap_refusal E nap start len prot flags d offset e"
  shows "mmap_refused e nap refs (NaClSysMmapIntern E nap refs start len prot flags d offset)"
proof -
  have wf: "wf_vmmap (mem_map nap)" using inv by (simp add: sys_inv_def)
  show ?thesis
  proof (cases "0 = flags AND NACL_ABI_MAP_ANONYMOUS \<and> GetDesc E d = None")
    case True
    then have "e = NACL_ABI_EBADF" using ref by (simp add: mmap_refusal_def)
    moreover have "NaClSysMmapIntern E nap refs start len prot flags d offset =
        mmap_finish None (taken None refs) (err64 NACL_ABI_EBADF, nap\<lparr>mem_map := mem_map nap\<rparr>)"
      using True fl by (simp add: NaClSysMmapIntern_def taken_def)
    ultimately show ?thesis using mmap_finish_refused [of NACL_ABI_EBADF "mem_map nap" nap refs None] wf by simp
  next
    case False
    define ndp where "ndp = (if 0 \<noteq> flags AND NACL_ABI_MAP_ANONYMOUS then None else GetDesc E d)"
    have some: "ndp = None \<longleftrightarrow> 0 \<noteq> flags AND NACL_ABI_MAP_ANONYMOUS" using False by (auto simp: ndp_def)
    have "mmap_body E nap ndp start len prot flags offset = Inr (err64 e, nap) \<and> NaClPtrIsNegErrno (err64 e)"
    proof (cases "0 \<noteq> prot AND NACL_ABI_PROT_EXEC")
      case True
      then have "mmap_request nap start len prot flags ndp offset = Inl (err64 NACL_ABI_EINVAL)" "e = NACL_ABI_EINVAL"
        using ref False some
        by (auto simp: mmap_refusal_def mmap_request_def mmap_code_check_def mmap_code_allowed_def and.commute)
      then show ?thesis by (simp add: mmap_body_def)
    next
      case prot: False
      show ?thesis
      proof (cases "sint offset < 0 \<or> \<not> 65536 dvd unat offset")
        case True
        then have "mmap_request nap start len prot flags ndp offset = Inl (err64 NACL_ABI_EINVAL)" "e = NACL_ABI_EINVAL"
          using ref False prot
          by (auto simp: mmap_refusal_def mmap_request_def mmap_code_check_def alloc_multiple_iff word_sless_alt Let_def and.commute)
        then show ?thesis by (simp add: mmap_body_def)
      next
        case off: False
        then have o63: "65536 dvd unat offset" "unat offset < 2 ^ 63" using unat_of_not_neg by blast+
        have r: "unat len < 2 ^ 32" "\<not> (0 \<noteq> flags AND NACL_ABI_MAP_FIXED \<and> \<not> 65536 dvd unat start)" "unat len \<noteq> 0"
          "alloc_len (unat len) \<noteq> 2 ^ 32" "0 = flags AND NACL_ABI_MAP_ANONYMOUS" "file_refusal E (the (GetDesc E d)) offset e"
          using ref [unfolded mmap_refusal_def if_not_P [OF False] if_not_P [OF prot] if_not_P [OF off]] by blast+
        then obtain p where p: "ndp = Some p" "file_refusal E p offset e" using False by (auto simp: ndp_def)
        have "mmap_request nap start len prot flags ndp offset = Inr (False, NaClTruncAllocPage start, NaClRoundAllocPage len)"
          using mmap_request_eq [OF _ o63 r(1), of prot nap start flags ndp] prot r by simp
        moreover have "NaClRoundAllocPage len = ucast (ucast (NaClRoundAllocPage len) :: u32)"
        proof -
          have "unat (NaClRoundAllocPage len) < 2 ^ 32"
            using unat_round_alloc [of len] alloc_len_bounds(3) [of "unat len"] r(1,4) by simp
          then show ?thesis
            by (intro unat_eqD) (simp add: unsigned_ucast_eq unsigned_take_bit_eq take_bit_nat_eq_self)
        qed
        moreover have "mmap_extent E ndp offset = Inr (Inl (err64 e))" "NaClPtrIsNegErrno (err64 e)"
          using p by (auto simp: mmap_extent_def file_refusal_def word_sless_alt split: prod.splits if_splits)
            (simp_all add: err64_def)
        ultimately show ?thesis by (simp add: mmap_body_def)
      qed
    qed
    then show ?thesis
      using NaClSysMmapIntern_body [OF fl ndp_def] some mmap_finish_refused [of e "mem_map nap" nap refs ndp] wf by simp
  qed
qed

text \<open>C27: Mapping data. A call that is refused changes no page, no byte and no count: one without a
  descriptor, one for an executable mapping outside the dynamic code space, one with a bad offset, address,
  length or sharing mode, one for a file whose status cannot be read, that is of the wrong kind or ends before
  the offset, and one whose region would leave the space of the program or touch its code. Otherwise (for no
  file, or an open host file of less than \<open>2 ^ 62\<close> bytes that reaches beyond the offset) the address is the
  one asked for, or the lowest gap above the hint, or the highest gap, and there is an error exactly if there
  is none. The call stops the process if an operation in flight touches the part of the region that the file
  reaches; an operation on the rest goes unnoticed. Else every page of the region gets the new attributes, all
  other pages are kept, and so is the memory, but for the part past the end of the file, which is cleared: so
  neither the contents of the file nor zeros are put in the rest of the region. The reference to the
  descriptor is given back.\<close>

theorem mmap_maps_region:
  assumes inv: "sys_inv nap M" "space_low nap" and mem: "malloc_ok E = (\<lambda>_. True)"
  shows "let flags' = flags AND mmap_allowed_flags; fixed = (0 \<noteq> flags' AND NACL_ABI_MAP_FIXED); sz = alloc_len (unat len);
      ndp = (if 0 \<noteq> flags' AND NACL_ABI_MAP_ANONYMOUS then None else GetDesc E d);
      r = NaClSysMmapIntern E nap refs start len prot flags d offset in
    (\<forall>e. mmap_refusal E nap start len prot flags' d offset e \<longrightarrow> mmap_refused e nap refs r) \<and>
    (\<forall>fs. (ndp = None \<longrightarrow> flags' AND NACL_ABI_MAP_ANONYMOUS \<noteq> 0) \<and> mmap_file_ok E ndp offset fs \<and>
       prot AND NACL_ABI_PROT_EXEC = 0 \<and> 65536 dvd unat offset \<and> unat offset < 2 ^ 63 \<and> unat len < 2 ^ 32 \<longrightarrow>
     (if fixed \<and> \<not> 65536 dvd unat start \<or> unat len = 0 \<or> sz = 2 ^ 32 then mmap_refused NACL_ABI_EINVAL nap refs r
      else \<exists>pl. mmap_place_ok (mem_map nap) fixed (unat start div 65536 * 65536) (sz div 4096) pl \<and>
        (case pl of
           None \<Rightarrow> mmap_refused NACL_ABI_ENOMEM nap refs r
         | Some a \<Rightarrow> mmap_outcome nap M refs a (file_extent E ndp offset fs sz) sz prot flags' ndp offset fs r)))"
proof -
  have fl: "(flags AND mmap_allowed_flags) AND NOT mmap_allowed_flags = 0" by (simp add: and.assoc)
  show ?thesis
    unfolding mmap_unknown_flags [of E nap refs start len prot flags d offset] Let_def
    apply (intro conjI allI impI)
    subgoal for e by (rule mmap_refusal_refused [OF inv(1) fl])
    subgoal for fs by (elim conjE, rule mmap_main [OF inv mem fl refl, unfolded Let_def]) assumption+
    done
qed

definition sample_env :: mmap_env where
  "sample_env = \<lparr>GetDesc = (\<lambda>d. if d = 3 then Some 3 else None), Fstat = (\<lambda>_. (0, NACL_ABI_S_IFREG, 0x20000)),
     DescMap = (\<lambda>_. NaClDescIoDescMap (\<lambda>_. Some 0x600000000000)
       \<lparr>errno_now = 0, block_cipher = (\<lambda>_ _. []), malloc_input = 0, malloc_output = 0,
        stack_aes = undefined, rng_init = 0\<rparr> (Some \<lparr>hd_d = 3, hd_flags = 0, hd_ctx = None\<rparr>)),
     DescFlags = (\<lambda>_. NACL_DESC_FLAGS_MMAP_EXEC_OK), typeTag = (\<lambda>_. NACL_DESC_HOST_IO),
     Validate = (\<lambda>_ image _ _. image = 0x600000000000), free_image = (\<lambda>_. Inr), find_space = (\<lambda>_. Some 0x600000000000),
     io_env = \<lparr>errno_now = 0, block_cipher = (\<lambda>_ _. []), malloc_input = 0, malloc_output = 0,
        stack_aes = undefined, rng_init = 0\<rparr>, malloc_ok = (\<lambda>_. True)\<rparr>"

theorem mmap_maps_region_witness:
  "\<exists>nap'. NaClSysMmapIntern sample_env sample_app (\<lambda>_. 0) 0 0xa000 3 0x22 0 0 = Inr (0x30000, nap', \<lambda>_. 0) \<and>
     vm_page (mem_map nap') 48 = Some (3, 0x32, None, 0, kMaxUsableFileSize) \<and> memory nap' 0x7f0000030000 = 7"
proof -
  have sz: "alloc_len (unat (0xa000 :: u64)) = 65536" by (simp add: alloc_len_def round_up_def)
  have c: "0 \<noteq> (0x22 :: u32) AND NACL_ABI_MAP_ANONYMOUS" "(0x22 :: u32) AND NOT mmap_allowed_flags = 0"
    "\<not> 0 \<noteq> (0x22 :: u32) AND NACL_ABI_MAP_FIXED" "(3 :: u32) AND NACL_ABI_PROT_EXEC = 0"
    "(0 = (0x22 :: u32) AND NACL_ABI_MAP_SHARED) \<noteq> (0 = (0x22 :: u32) AND NACL_ABI_MAP_PRIVATE)"
    "\<not> 0 \<noteq> NOT NACL_ABI_PROT_MASK AND (3 :: u32)"
    by (simp_all add: map_consts prot_consts NACL_ABI_MAP_ANONYMOUS_def NACL_ABI_MAP_FIXED_def mmap_allowed_flags_def NACL_ABI_PROT_MASK_def)
  have low: "space_low sample_app" by (simp add: space_low_def sample_app_def)
  have fe: "file_extent sample_env None 0 kMaxUsableFileSize 65536 = 65536" by (simp add: file_extent_def)
  have flx: "(0x22 :: u32) AND NACL_ABI_MAP_ANONYMOUS \<noteq> 0" "(0x22 :: u32) AND NACL_ABI_MAP_FIXED = 0"
    using c(1,3) by auto
  have all_flags: "(0x22 :: u32) AND mmap_allowed_flags = 0x22" by (simp add: map_consts mmap_allowed_flags_def
      NACL_ABI_MAP_ANONYMOUS_def NACL_ABI_MAP_FIXED_def)
  have ok: "malloc_ok sample_env = (\<lambda>_. True)" "mmap_file_ok sample_env None 0 kMaxUsableFileSize"
    by (simp_all add: sample_env_def mmap_file_ok_def mmap_size_ok_def)
  let ?r = "NaClSysMmapIntern sample_env sample_app (\<lambda>_. 0) 0 0xa000 3 0x22 0 0"
  have "\<exists>pl. mmap_place_ok (mem_map sample_app) False 0 16 pl \<and>
      (case pl of None \<Rightarrow> mmap_refused NACL_ABI_ENOMEM sample_app (\<lambda>_. 0) ?r
       | Some a \<Rightarrow> mmap_outcome sample_app {#} (\<lambda>_. 0) a 65536 65536 3 0x22 None 0 kMaxUsableFileSize ?r)"
    using mmap_maps_region [OF sample_inv(1) low, where E = sample_env and flags = "0x22" and prot = 3 and len = "0xa000"
        and refs = "\<lambda>_. 0" and start = 0 and offset = 0 and d = 0, unfolded Let_def, THEN conjunct2, rule_format, of kMaxUsableFileSize]
    unfolding all_flags sz if_P [OF c(1)] fe by (simp add: c(4) flx ok)
  then obtain pl where pl: "mmap_place_ok sample_map False 0 16 pl"
    "case pl of None \<Rightarrow> True | Some a \<Rightarrow> mmap_outcome sample_app {#} (\<lambda>_. 0) a 65536 65536 3 0x22 None 0 kMaxUsableFileSize ?r"
    by (auto simp: sample_app_def split: option.splits)
  have g: "map_gap sample_map 16 q \<longleftrightarrow> q = 32 \<or> q = 48" for q
    using sample_gaps [of q] by (simp add: map_gap_def round_up_def)
  have "pl = Some (48 * 4096)" using pl(1) unfolding mmap_place_ok_def g by (auto split: option.splits if_splits)
  then have "mmap_outcome sample_app {#} (\<lambda>_. 0) (48 * 4096) 65536 65536 3 0x22 None 0 kMaxUsableFileSize ?r" using pl(2) by simp
  then obtain nap' where "?r = Inr (of_nat (48 * 4096), nap', \<lambda>_. 0)"
      "mmap_done sample_app (48 * 4096) 65536 65536 3 (0x22 OR NACL_ABI_MAP_FIXED) None 0 kMaxUsableFileSize nap'"
    using c(5,6) by (auto simp: mmap_outcome_def sample_app_def io_touches_def)
  then show ?thesis by (intro exI [of _ nap']) (simp add: mmap_done_def NACL_ABI_MAP_FIXED_def sample_app_def)
qed

section \<open>Code\<close>

text \<open>A request to map code from a file: into whole allocation pages of the region for dynamic code, from
  a file that is marked as safe and long enough, with the scratch copy mapped at \<open>img\<close>.\<close>

definition mmap_code_request :: "mmap_env \<Rightarrow> sys_app \<Rightarrow> u64 \<Rightarrow> u64 \<Rightarrow> u32 \<Rightarrow> u64 \<Rightarrow> u64 \<Rightarrow> bool" where
  "mmap_code_request E nap start len d offset img \<longleftrightarrow>
     65536 dvd unat start \<and> 0 < unat start \<and> unat start < 2 ^ 31 \<and> 65536 dvd unat len \<and> 0 < unat len \<and> unat len < 2 ^ 32 \<and>
     unat (dynamic_text_start nap) \<le> unat start \<and> unat start + unat len \<le> unat (dynamic_text_end nap) \<and>
     unat (dynamic_text_end nap) \<le> 2 ^ addr_bits nap \<and> enable_dyncode_syscalls nap \<and>
     65536 dvd unat offset \<and>
     (\<exists>ndp fs. GetDesc E d = Some ndp \<and> mmap_size_ok E (Some ndp) offset fs \<and> unat offset + unat len \<le> unat fs \<and>
        NaClDescIsSafeForMmap (DescFlags E) ndp \<and> typeTag E ndp = NACL_DESC_HOST_IO \<and>
        DescMap E ndp 0 len (NACL_ABI_PROT_READ OR NACL_ABI_PROT_WRITE) NACL_ABI_MAP_PRIVATE offset = Inr img) \<and>
     \<not> NaClPtrIsNegErrno img"

lemma code_space_iff:
  assumes "65536 dvd unat a" "65536 dvd unat n" "unat a + unat n \<le> 2 ^ 32"
  shows "NaClSysCommonAddrRangeInAllowedDynamicCodeSpace nap a n \<longleftrightarrow>
    unat (dynamic_text_start nap) \<le> unat a \<and> unat a + unat n \<le> unat (dynamic_text_end nap)"
proof -
  have s: "unat (a + n) = unat a + unat n" using assms(3) by (intro unat_add_no_wrap) simp
  moreover have "unat (NaClRoundAllocPage (a + n)) = unat a + unat n"
    using assms s round_up_least [of 65536 "unat a + unat n" "unat a + unat n"] round_up_ge [of 65536 "unat a + unat n"]
    by (simp add: unat_NaClRoundAllocPage)
  ultimately show ?thesis
    by (auto simp: NaClSysCommonAddrRangeInAllowedDynamicCodeSpace_def Let_def word_le_nat_alt word_less_nat_alt)
qed

text \<open>Mapping code, inside the enclave, has the wrong result either way. When the validator accepts
  the file, the call fails; when it rejects it, the call returns the address as if the code were
  there. No code is mapped in either case.\<close>

theorem mmap_code_inverted:
  assumes inv: "sys_inv nap M" "space_low nap" and rq: "mmap_code_request E nap start len d offset img"
    and fr: "free_image E img nap = Inr nap" and io: "\<not> io_touches M (unat start) (unat len)"
  shows "NaClSysMmapIntern E nap refs start len (NACL_ABI_PROT_READ OR NACL_ABI_PROT_EXEC)
      (NACL_ABI_MAP_PRIVATE OR NACL_ABI_MAP_FIXED) d offset =
    Inr (if Validate E start img len (if pnacl_mode nap then NACL_DISABLE_NONTEMPORALS_X86 else 0)
         then - NACL_ABI_EINVAL else ucast start, nap, refs)"
proof -
  let ?prot = "NACL_ABI_PROT_READ OR NACL_ABI_PROT_EXEC" and ?flags = "NACL_ABI_MAP_PRIVATE OR NACL_ABI_MAP_FIXED"
  obtain ndp fs where a: "65536 dvd unat start" "0 < unat start" "unat start < 2 ^ 31" "65536 dvd unat len" "0 < unat len" "unat len < 2 ^ 32"
      "unat (dynamic_text_start nap) \<le> unat start" "unat start + unat len \<le> unat (dynamic_text_end nap)"
      "unat (dynamic_text_end nap) \<le> 2 ^ addr_bits nap" "enable_dyncode_syscalls nap" "65536 dvd unat offset"
    and f: "GetDesc E d = Some ndp" "mmap_size_ok E (Some ndp) offset fs" "unat offset + unat len \<le> unat fs"
      "NaClDescIsSafeForMmap (DescFlags E) ndp" "typeTag E ndp = NACL_DESC_HOST_IO"
      "DescMap E ndp 0 len (NACL_ABI_PROT_READ OR NACL_ABI_PROT_WRITE) NACL_ABI_MAP_PRIVATE offset = Inr img"
      "\<not> NaClPtrIsNegErrno img"
    using rq unfolding mmap_code_request_def by blast
  have sp: "space_ok nap" using inv(1) by (simp add: sys_inv_def)
  have bits: "(2 :: nat) ^ addr_bits nap \<le> 2 ^ 32" using sp by (intro power_increasing) (simp_all add: space_ok_def)
  have round: "NaClRoundAllocPage len = len"
    using a(4,6) round_up_least [of 65536 "unat len" "unat len"] round_up_ge [of 65536 "unat len"]
    by (intro unat_eqD) (simp add: unat_NaClRoundAllocPage)
  have fl: "?flags AND NOT mmap_allowed_flags = 0" "\<not> 0 \<noteq> ?flags AND NACL_ABI_MAP_ANONYMOUS" "0 \<noteq> ?flags AND NACL_ABI_MAP_FIXED"
    "0 \<noteq> NACL_ABI_MAP_FIXED AND ?flags"
    "(0 = (?flags OR NACL_ABI_MAP_FIXED) AND NACL_ABI_MAP_SHARED) \<noteq> (0 = (?flags OR NACL_ABI_MAP_FIXED) AND NACL_ABI_MAP_PRIVATE)"
    and pr: "0 \<noteq> NACL_ABI_PROT_EXEC AND ?prot" "\<not> 0 \<noteq> NACL_ABI_PROT_WRITE AND ?prot"
    by (simp_all add: map_consts prot_consts NACL_ABI_MAP_ANONYMOUS_def NACL_ABI_MAP_FIXED_def mmap_allowed_flags_def)
  have nn: "\<not> offset <s 0" using f(2) by (simp add: word_sless_alt sint_of_small mmap_size_ok_def)
  have "ucast len \<noteq> (0 :: u32)"
  proof
    assume "ucast len = (0 :: u32)"
    then have "unat (ucast len :: u32) = 0" by simp
    then show False using a(5,6) by (simp add: unsigned_ucast_eq take_bit_nat_eq_self)
  qed
  then have req: "mmap_request nap start len ?prot ?flags (Some ndp) offset = Inr (True, start, len)"
    using a code_space_iff [of start len nap] bits fl pr nn
    by (simp add: mmap_request_def mmap_code_check_def alloc_multiple_iff round)
  have chk: "len = ucast (ucast len :: u32)"
    using a(6) by (intro unat_eqD) (simp add: unsigned_ucast_eq unsigned_take_bit_eq take_bit_nat_eq_self)
  obtain fb hr where ex: "mmap_extent E (Some ndp) offset = Inr (Inr (fs, fb, hr))" "unat fb = unat fs - unat offset"
      "unat (size_min len hr) = file_extent E (Some ndp) offset fs (unat len)"
    using mmap_extent_ok [OF f(2), of "unat len"] a(5,6) by auto
  have "size_min len hr = len"
    using ex(3) f(3) round_up_ge [of 4096 "unat fs - unat offset"] by (intro unat_eqD) (simp add: file_extent_def)
  moreover have "\<not> fb < len" using ex(2) f(3) by (simp add: word_less_nat_alt)
  ultimately have body: "mmap_body E nap (Some ndp) start len ?prot ?flags offset =
      mmap_locked E nap (Some ndp) True start len len ?prot ?flags offset fs fb"
    using chk fl(3) by (simp add: mmap_body_def req ex(1) mmap_place_def)
  have e: "unat start + unat len \<le> 2 ^ addr_bits nap" using a(8,9) by simp
  have "unat (start + len) = unat start + unat len" using e bits by (intro unat_add_no_wrap) simp
  then have ok: "mmap_region_ok E nap (Some ndp) True start len len"
    using e a(5) unat_limit [OF sp] f(4) by (simp add: mmap_region_ok_def Let_def word_le_nat_alt word_less_nat_alt)
  have us: "NaClUserToSys nap start = Inr (start + mem_start nap)"
    using e a(2,5) unat_limit [OF sp] by (auto simp: NaClUserToSys_def word_le_nat_alt unat_eq_0)
  have "0 < len" using a(5) by (simp add: word_less_nat_alt)
  then have lock: "mmap_locked E nap (Some ndp) True start len len ?prot ?flags offset fs fb =
      mmap_code E nap ndp start (start + mem_start nap) len offset"
    using ok us mmap_pending [OF inv(1) a(5) _ e] io fl(5) by (simp add: mmap_locked_def Let_def)
  have "start = take_bit 31 start"
    using a(3) by (intro unat_eqD) (simp add: unsigned_take_bit_eq take_bit_nat_eq_self)
  then have "\<not> bit start k" if "31 \<le> k" for k using that by (metis bit_take_bit_iff not_less)
  then have small: "scast (ucast start :: u32) = start" by (intro bit_word_eqI) (auto simp: bit_simps min_def)
  have run: "NaClSysMmapIntern E nap refs start len ?prot ?flags d offset =
      bindE (mmap_body E nap (Some ndp) start len ?prot ?flags offset) (mmap_finish (Some ndp) (taken (Some ndp) refs))"
    using fl(1,2) f(1) by (intro NaClSysMmapIntern_body) auto
  show ?thesis
  proof (cases "Validate E start img len (if pnacl_mode nap then NACL_DISABLE_NONTEMPORALS_X86 else 0)")
    case True
    have "mmap_finish (Some ndp) (taken (Some ndp) refs) (err64 NACL_ABI_EINVAL, nap) = Inr (- NACL_ABI_EINVAL, nap, refs)"
      by (simp add: mmap_finish_def taken_def NaClDescRef_def NaClDescSafeUnref_def err64_small ucast_err64)
    then show ?thesis using True f(5-7) unfolding run body lock by (simp add: mmap_code_def)
  next
    case False
    then show ?thesis using f(5-7) fr mmap_finish_ok [of start "Some ndp" refs nap] a(3) small unfolding run body lock
      by (simp add: mmap_code_def Let_def)
  qed
qed

definition code_app :: sys_app where
  "code_app = sample_app\<lparr>dynamic_text_start := 0x10000, dynamic_text_end := 0x20000\<rparr>"

theorem mmap_code_inverted_witness:
  "NaClSysMmapIntern sample_env code_app (\<lambda>_. 0) 0x10000 0x10000 5 0x12 3 0 = Inr (- NACL_ABI_EINVAL, code_app, \<lambda>_. 0) \<and>
   NaClSysMmapIntern (sample_env\<lparr>Validate := \<lambda>_ _ _ _. False\<rparr>) code_app (\<lambda>_. 0) 0x10000 0x10000 5 0x12 3 0 =
     Inr (0x10000, code_app, \<lambda>_. 0)"
proof -
  have c: "(5 :: u32) = NACL_ABI_PROT_READ OR NACL_ABI_PROT_EXEC" "(0x12 :: u32) = NACL_ABI_MAP_PRIVATE OR NACL_ABI_MAP_FIXED"
    by (simp_all add: map_consts prot_consts NACL_ABI_MAP_FIXED_def)
  have "16 * 4096 < unat (dynamic_text_end code_app) \<and> vm_page (mem_map code_app) 16 \<noteq> None"
    by (simp add: code_app_def sample_app_def sample_pages)
  then have inv: "sys_inv code_app {#}" "space_low code_app"
    using sample_inv(1) by (auto simp: code_app_def sys_inv_def space_ok_def space_low_def sample_app_def)
  have img: "\<not> NaClPtrIsNegErrno 0x600000000000" by (simp add: NaClPtrIsNegErrno_def)
  have rq: "mmap_code_request (sample_env\<lparr>Validate := V\<rparr>) code_app 0x10000 0x10000 3 0 0x600000000000" for V
    unfolding mmap_code_request_def
    by (simp add: img code_app_def sample_app_def sample_env_def mmap_size_ok_def NaClDescIsSafeForMmap_def
      NaClDescIoDescMap_def NaClHostDescMap_def Let_def map_consts prot_consts NaClProtMap_def map_bit_def host_consts
      NACL_ABI_MAP_FIXED_def NACL_ABI_PROT_MASK_def NACL_DESC_FLAGS_MMAP_EXEC_OK_def NACL_ABI_S_IFREG_def NACL_ABI_S_IFMT_def)
  have io: "\<not> io_touches {#} (unat (0x10000 :: u64)) (unat (0x10000 :: u64))" by (simp add: io_touches_def)
  have "NaClSysMmapIntern (sample_env\<lparr>Validate := V\<rparr>) code_app (\<lambda>_. 0) 0x10000 0x10000 5 0x12 3 0 =
      Inr (if V 0x10000 0x600000000000 0x10000 0 then - NACL_ABI_EINVAL else 0x10000, code_app, \<lambda>_. 0)" for V
    using mmap_code_inverted [OF inv rq [of V] _ io, of "\<lambda>_. 0"] unfolding c
    by (simp add: sample_env_def code_app_def sample_app_def)
  from this [of "Validate sample_env"] this [of "\<lambda>_ _ _ _. False"] show ?thesis by (simp add: sample_env_def)
qed

end
