(* ===== verification/Xfer.thy ===== *)
theory Xfer
  imports HostDesc
begin

text \<open>
  Descriptors in messages: the part of a descriptor that every kind has (\<open>desc/nacl_desc_base.c\<close>), how
  each kind is written to a message and built from one (\<open>desc/nacl_desc_io.c\<close>, \<open>nacl_desc_imc.c\<close>,
  \<open>nacl_desc_imc_shm.c\<close>, \<open>nacl_desc_sync_socket.c\<close>, \<open>nacl_desc_invalid.c\<close>, \<open>nacl_desc_null.c\<close>,
  \<open>posix/nacl_desc_conn_cap.c\<close>), and the messages themselves (\<open>desc/nrd_xfer.c\<close>).

  A descriptor is a value: an object that has just been built, before anyone shares it. A handle is a
  number of the host; \<open>xs_closed\<close> lists those the code has closed. What the code reads through a
  pointer into a buffer is guarded by the length of the buffer. Parameters are whether an allocation
  of \<open>n\<close> bytes and the making of a lock succeed, and the channel.
\<close>

section \<open>The base of a descriptor\<close>

record desc_base =
  bd_flags :: u32
  metadata_type :: u32
  metadata_num_bytes :: u32
  metadata :: "u8 list option"

text \<open>\<open>xe_new t\<close>: whether an object of the kind with tag \<open>t\<close> can be allocated; \<open>xe_host p\<close> is what the
  allocation of a host descriptor gives when the receiver is at byte \<open>p\<close> of the message, with whatever its
  memory holds; \<open>xe_junk\<close> is what other new memory holds. The one invalid
  descriptor has been made.\<close>

record xfer_env =
  xe_malloc :: "nat \<Rightarrow> bool"
  xe_mutex :: bool
  xe_new :: "nat \<Rightarrow> bool"
  xe_host :: "nat \<Rightarrow> host_desc option"
  xe_junk :: "nat \<Rightarrow> u8"

definition NACL_DESC_FLAGS_PUBLIC_MASK :: u32 where "NACL_DESC_FLAGS_PUBLIC_MASK = 0xffff"
definition NACL_DESC_FLAGS_HAS_METADATA :: u32 where "NACL_DESC_FLAGS_HAS_METADATA = 0x10000"
definition NACL_DESC_METADATA_NONE_TYPE :: u32 where "NACL_DESC_METADATA_NONE_TYPE = - 1"

definition NaClDescCtor :: "xfer_env \<Rightarrow> bool \<times> desc_base" where
  "NaClDescCtor A = (xe_mutex A, \<lparr>bd_flags = 0, metadata_type = NACL_DESC_METADATA_NONE_TYPE,
                                   metadata_num_bytes = 0, metadata = None\<rparr>)"

definition NaClDescSetFlags :: "desc_base \<Rightarrow> u32 \<Rightarrow> desc_base" where
  "NaClDescSetFlags self flags =
     self\<lparr>bd_flags := (bd_flags self AND NOT NACL_DESC_FLAGS_PUBLIC_MASK) OR (flags AND NACL_DESC_FLAGS_PUBLIC_MASK)\<rparr>"

definition NaClDescGetFlags :: "desc_base \<Rightarrow> u32" where
  "NaClDescGetFlags self = bd_flags self AND NACL_DESC_FLAGS_PUBLIC_MASK"

definition NaClDescMarkSafeForMmap :: "desc_base \<Rightarrow> desc_base" where
  "NaClDescMarkSafeForMmap self = NaClDescSetFlags self (0x1000 OR NaClDescGetFlags self)"

definition NaClDescSetMetadata :: "xfer_env \<Rightarrow> desc_base \<Rightarrow> u32 \<Rightarrow> u8 list \<Rightarrow> u32 \<times> desc_base" where
  "NaClDescSetMetadata A self typ bs =
     (if typ <s 0 then (- NACL_ABI_EINVAL, self)
      else if \<not> xe_malloc A (length bs) then (- NACL_ABI_ENOMEM, self)
      else if 0 \<noteq> bd_flags self AND NACL_DESC_FLAGS_HAS_METADATA then (- NACL_ABI_EPERM, self)
      else (0, self\<lparr>metadata_type := typ, metadata_num_bytes := of_nat (length bs), metadata := Some bs,
                    bd_flags := bd_flags self OR NACL_DESC_FLAGS_HAS_METADATA\<rparr>))"

text \<open>\<open>buffer\<close> is the length of the caller's buffer, or none; the result has the type, the length of the
  metadata and the bytes that are copied.\<close>

definition NaClDescGetMetadata :: "desc_base \<Rightarrow> bool \<Rightarrow> u32 \<Rightarrow> (u32 \<times> u32 \<times> u8 list) run" where
  "NaClDescGetMetadata self buffer bytes_in =
     (if 0 = NACL_DESC_FLAGS_HAS_METADATA AND bd_flags self then Inr (NACL_DESC_METADATA_NONE_TYPE, 0, [])
      else if NACL_DESC_METADATA_NONE_TYPE = metadata_type self then Inr (NACL_DESC_METADATA_NONE_TYPE, 0, [])
      else
        let bytes_to_copy = (if bytes_in > metadata_num_bytes self then metadata_num_bytes self else bytes_in) in
        if buffer \<and> 0 < bytes_to_copy
        then (case metadata self of None \<Rightarrow> Inl NullDeref
              | Some bs \<Rightarrow> guardE OutOfBounds (unat bytes_to_copy \<le> length bs)
                  (Inr (metadata_type self, metadata_num_bytes self, take (unat bytes_to_copy) bs)))
        else Inr (metadata_type self, metadata_num_bytes self, []))"

section \<open>The state of a transfer\<close>

record xfer_state =
  xs_bytes :: "u8 list"
  next_byte :: nat
  byte_buffer_end :: nat
  xs_handles :: "u32 list"
  next_handle :: nat
  handle_buffer_end :: nat
  xs_closed :: "u32 list"

definition NACL_INVALID_HANDLE :: u32 where "NACL_INVALID_HANDLE = - 1"

text \<open>\<open>memcpy\<close> to and from the buffer, and the next handle.\<close>

definition put_bytes :: "u8 list \<Rightarrow> xfer_state \<Rightarrow> xfer_state run" where
  "put_bytes bs x = guardE OutOfBounds (next_byte x + length bs \<le> length (xs_bytes x))
     (Inr (x\<lparr>xs_bytes := take (next_byte x) (xs_bytes x) @ bs @ drop (next_byte x + length bs) (xs_bytes x),
             next_byte := next_byte x + length bs\<rparr>))"

definition get_bytes :: "nat \<Rightarrow> xfer_state \<Rightarrow> (u8 list \<times> xfer_state) run" where
  "get_bytes n x = guardE OutOfBounds (next_byte x + n \<le> length (xs_bytes x))
     (Inr (take n (drop (next_byte x) (xs_bytes x)), x\<lparr>next_byte := next_byte x + n\<rparr>))"

definition put_handle :: "u32 \<Rightarrow> xfer_state \<Rightarrow> xfer_state run" where
  "put_handle h x = guardE OutOfBounds (next_handle x < length (xs_handles x))
     (Inr (x\<lparr>xs_handles := (xs_handles x)[next_handle x := h], next_handle := next_handle x + 1\<rparr>))"

text \<open>Taking a handle leaves \<open>NACL_INVALID_HANDLE\<close> in its place.\<close>

definition take_handle :: "xfer_state \<Rightarrow> (u32 \<times> xfer_state) run" where
  "take_handle x = guardE OutOfBounds (next_handle x < length (xs_handles x))
     (Inr (xs_handles x ! next_handle x,
           x\<lparr>xs_handles := (xs_handles x)[next_handle x := NACL_INVALID_HANDLE], next_handle := next_handle x + 1\<rparr>))"

definition NaClDescExternalizeSize :: "desc_base \<Rightarrow> u64 \<times> u64" where
  "NaClDescExternalizeSize self =
     ((if 0 \<noteq> NACL_DESC_FLAGS_HAS_METADATA AND bd_flags self then 4 + (4 + 4 + ucast (metadata_num_bytes self)) else 4), 0)"

definition NaClDescExternalize :: "desc_base \<Rightarrow> xfer_state \<Rightarrow> xfer_state run" where
  "NaClDescExternalize self xfer =
     bindE (put_bytes (bytes_of (bd_flags self)) xfer) (\<lambda>xfer.
       if 0 \<noteq> NACL_DESC_FLAGS_HAS_METADATA AND bd_flags self
       then bindE (put_bytes (bytes_of (metadata_type self)) xfer) (\<lambda>xfer.
            bindE (put_bytes (bytes_of (metadata_num_bytes self)) xfer) (\<lambda>xfer.
              case metadata self of None \<Rightarrow> Inl NullDeref
              | Some bs \<Rightarrow> guardE OutOfBounds (unat (metadata_num_bytes self) \<le> length bs)
                  (put_bytes (take (unat (metadata_num_bytes self)) bs) xfer)))
       else Inr xfer)"

text \<open>The result is the object, when it could be built; \<open>next_byte\<close> advances only then.\<close>

definition NaClDescInternalizeCtor :: "xfer_env \<Rightarrow> xfer_state \<Rightarrow> (desc_base option \<times> xfer_state) run" where
  "NaClDescInternalizeCtor A xfer =
     (case NaClDescCtor A of (rv, vself) \<Rightarrow>
        if \<not> rv then Inr (None, xfer)
        else if next_byte xfer + 4 > byte_buffer_end xfer then Inr (None, xfer)
        else bindE (get_bytes 4 xfer) (\<lambda>(bs, nxt).
          let vself = vself\<lparr>bd_flags := of_bytes bs\<rparr> in
          if 0 = NACL_DESC_FLAGS_HAS_METADATA AND bd_flags vself then Inr (Some vself, nxt)
          else if next_byte nxt + 4 + 4 > byte_buffer_end xfer then Inr (None, xfer)
          else bindE (get_bytes 4 nxt) (\<lambda>(bs, nxt). let vself = vself\<lparr>metadata_type := of_bytes bs\<rparr> in
               bindE (get_bytes 4 nxt) (\<lambda>(bs, nxt). let vself = vself\<lparr>metadata_num_bytes := of_bytes bs\<rparr> in
                 if next_byte nxt + unat (metadata_num_bytes vself) > byte_buffer_end xfer then Inr (None, xfer)
                 else if \<not> xe_malloc A (unat (metadata_num_bytes vself)) then Inr (None, xfer)
                 else bindE (get_bytes (unat (metadata_num_bytes vself)) nxt) (\<lambda>(bs, nxt).
                        Inr (Some (vself\<lparr>metadata := Some bs\<rparr>), nxt))))))"

section \<open>The kinds\<close>

datatype xfer_desc =
    DescInvalid
  | DescIo desc_base host_desc
  | DescConnCapFd desc_base u32
  | DescImcShm desc_base u32 u64
  | DescSyncSocket desc_base u32
  | DescXferableData desc_base u32
  | DescNull desc_base
  | DescOther nat

definition NACL_DESC_IMC_SOCKET :: nat where "NACL_DESC_IMC_SOCKET = 14"
definition NACL_DESC_TYPE_MAX :: nat where "NACL_DESC_TYPE_MAX = 19"
definition NACL_DESC_TYPE_END_TAG :: nat where "NACL_DESC_TYPE_END_TAG = 0xff"

fun xfer_typeTag :: "xfer_desc \<Rightarrow> nat" where
  "xfer_typeTag DescInvalid = 0"
| "xfer_typeTag (DescIo b h) = 2"
| "xfer_typeTag (DescConnCapFd b h) = 4"
| "xfer_typeTag (DescImcShm b h sz) = 7"
| "xfer_typeTag (DescSyncSocket b h) = 12"
| "xfer_typeTag (DescXferableData b h) = 13"
| "xfer_typeTag (DescNull b) = 18"
| "xfer_typeTag (DescOther tag) = tag"

text \<open>The methods of each kind: the size in bytes and handles, and writing. The error is that of the descriptors
  that cannot be transferred.\<close>

definition NaClDescInvalidExternalizeSize :: "u64 + (u64 \<times> u64)" where [simp]:
  "NaClDescInvalidExternalizeSize = Inr (0, 0)"

definition NaClDescInvalidExternalize :: "xfer_state \<Rightarrow> (u32 \<times> xfer_state) run" where [simp]:
  "NaClDescInvalidExternalize xfer = Inr (0, xfer)"

definition NaClDescIoDescExternalizeSize :: "desc_base \<Rightarrow> u64 + (u64 \<times> u64)" where [simp]:
  "NaClDescIoDescExternalizeSize b = (case NaClDescExternalizeSize b of (nbytes, nhandles) \<Rightarrow> Inr (nbytes + 4, nhandles + 1))"

definition NaClDescIoDescExternalize :: "desc_base \<Rightarrow> host_desc \<Rightarrow> xfer_state \<Rightarrow> (u32 \<times> xfer_state) run" where [simp]:
  "NaClDescIoDescExternalize b h xfer =
     bindE (NaClDescExternalize b xfer) (\<lambda>xfer.
     bindE (put_bytes (bytes_of (hd_flags h)) xfer) (\<lambda>xfer. bindE (put_handle (hd_d h) xfer) (\<lambda>xfer. Inr (0, xfer))))"

definition NaClDescConnCapFdExternalizeSize :: "desc_base \<Rightarrow> u64 + (u64 \<times> u64)" where [simp]:
  "NaClDescConnCapFdExternalizeSize b = (case NaClDescExternalizeSize b of (nbytes, nhandles) \<Rightarrow> Inr (nbytes, nhandles + 1))"

definition NaClDescConnCapFdExternalize :: "desc_base \<Rightarrow> u32 \<Rightarrow> xfer_state \<Rightarrow> (u32 \<times> xfer_state) run" where [simp]:
  "NaClDescConnCapFdExternalize b h xfer = 
     bindE (NaClDescExternalize b xfer) (\<lambda>xfer. bindE (put_handle h xfer) (\<lambda>xfer. Inr (0, xfer)))"

definition NaClDescImcShmExternalizeSize :: "desc_base \<Rightarrow> u64 + (u64 \<times> u64)" where [simp]:
  "NaClDescImcShmExternalizeSize b = (case NaClDescExternalizeSize b of (nbytes, nhandles) \<Rightarrow> Inr (nbytes + 8, nhandles + 1))"

definition NaClDescImcShmExternalize :: "desc_base \<Rightarrow> u32 \<Rightarrow> u64 \<Rightarrow> xfer_state \<Rightarrow> (u32 \<times> xfer_state) run" where [simp]:
  "NaClDescImcShmExternalize b h sz xfer = 
     bindE (NaClDescExternalize b xfer) (\<lambda>xfer.
     bindE (put_handle h xfer) (\<lambda>xfer. bindE (put_bytes (bytes_of sz) xfer) (\<lambda>xfer. Inr (0, xfer))))"

definition NaClDescSyncSocketExternalizeSize :: "desc_base \<Rightarrow> u64 + (u64 \<times> u64)" where [simp]:
  "NaClDescSyncSocketExternalizeSize b = (case NaClDescExternalizeSize b of (nbytes, nhandles) \<Rightarrow> Inr (nbytes, nhandles + 1))"

definition NaClDescSyncSocketExternalize :: "desc_base \<Rightarrow> u32 \<Rightarrow> xfer_state \<Rightarrow> (u32 \<times> xfer_state) run" where [simp]:
  "NaClDescSyncSocketExternalize b h xfer = 
     bindE (NaClDescExternalize b xfer) (\<lambda>xfer. bindE (put_handle h xfer) (\<lambda>xfer. Inr (0, xfer)))"

definition NaClDescXferableDataDescExternalizeSize :: "desc_base \<Rightarrow> u64 + (u64 \<times> u64)" where [simp]:
  "NaClDescXferableDataDescExternalizeSize b = (case NaClDescExternalizeSize b of (nbytes, nhandles) \<Rightarrow> Inr (nbytes, nhandles + 1))"

definition NaClDescXferableDataDescExternalize :: "desc_base \<Rightarrow> u32 \<Rightarrow> xfer_state \<Rightarrow> (u32 \<times> xfer_state) run" where [simp]:
  "NaClDescXferableDataDescExternalize b h xfer = 
     bindE (NaClDescExternalize b xfer) (\<lambda>xfer. bindE (put_handle h xfer) (\<lambda>xfer. Inr (0, xfer)))"

definition NaClDescNullExternalizeSize :: "u64 + (u64 \<times> u64)" where [simp]:
  "NaClDescNullExternalizeSize = Inr (0, 0)"

definition NaClDescNullExternalize :: "xfer_state \<Rightarrow> (u32 \<times> xfer_state) run" where [simp]:
  "NaClDescNullExternalize xfer = Inr (0, xfer)"

definition NaClDescExternalizeSizeNotImplemented :: "u64 + (u64 \<times> u64)" where [simp]:
  "NaClDescExternalizeSizeNotImplemented = Inl (err64 NACL_ABI_EINVAL)"

definition NaClDescExternalizeNotImplemented :: "xfer_state \<Rightarrow> (u32 \<times> xfer_state) run" where [simp]:
  "NaClDescExternalizeNotImplemented xfer = Inr (- NACL_ABI_EINVAL, xfer)"

text \<open>The calls through the table of methods.\<close>

fun ExternalizeSize :: "xfer_desc \<Rightarrow> u64 + (u64 \<times> u64)" where
  "ExternalizeSize DescInvalid = NaClDescInvalidExternalizeSize"
| "ExternalizeSize (DescIo b h) = NaClDescIoDescExternalizeSize b"
| "ExternalizeSize (DescConnCapFd b h) = NaClDescConnCapFdExternalizeSize b"
| "ExternalizeSize (DescImcShm b h sz) = NaClDescImcShmExternalizeSize b"
| "ExternalizeSize (DescSyncSocket b h) = NaClDescSyncSocketExternalizeSize b"
| "ExternalizeSize (DescXferableData b h) = NaClDescXferableDataDescExternalizeSize b"
| "ExternalizeSize (DescNull b) = NaClDescNullExternalizeSize"
| "ExternalizeSize (DescOther tag) = NaClDescExternalizeSizeNotImplemented"

fun Externalize :: "xfer_desc \<Rightarrow> xfer_state \<Rightarrow> (u32 \<times> xfer_state) run" where
  "Externalize DescInvalid xfer = NaClDescInvalidExternalize xfer"
| "Externalize (DescIo b h) xfer = NaClDescIoDescExternalize b h xfer"
| "Externalize (DescConnCapFd b h) xfer = NaClDescConnCapFdExternalize b h xfer"
| "Externalize (DescImcShm b h sz) xfer = NaClDescImcShmExternalize b h sz xfer"
| "Externalize (DescSyncSocket b h) xfer = NaClDescSyncSocketExternalize b h xfer"
| "Externalize (DescXferableData b h) xfer = NaClDescXferableDataDescExternalize b h xfer"
| "Externalize (DescNull b) xfer = NaClDescNullExternalize xfer"
| "Externalize (DescOther tag) xfer = NaClDescExternalizeNotImplemented xfer"

section \<open>Building descriptors\<close>

text \<open>Each returns the status, the descriptor it has stored through its out parameter, if any, and the
  state. A descriptor that is dropped before it is complete holds no handle.\<close>

type_synonym internalized = "(u32 \<times> xfer_desc option \<times> xfer_state) run"

definition close_handle :: "u32 \<Rightarrow> xfer_state \<Rightarrow> xfer_state" where
  "close_handle h x = (if NACL_INVALID_HANDLE \<noteq> h then x\<lparr>xs_closed := xs_closed x @ [h]\<rparr> else x)"

definition NaClDescInvalidInternalize :: "xfer_env \<Rightarrow> xfer_state \<Rightarrow> internalized" where
  "NaClDescInvalidInternalize A xfer = Inr (0, Some DescInvalid, xfer)"

definition NaClDescInternalizeNotImplemented :: "xfer_state \<Rightarrow> internalized" where
  "NaClDescInternalizeNotImplemented xfer = Inr (- NACL_ABI_EIO, None, xfer)"

text \<open>The host descriptor is fresh memory of which \<open>NaClHostDescPosixTake\<close> sets the number and the flags: its
  context stays what the memory held.\<close>

definition NaClDescIoInternalize :: "xfer_env \<Rightarrow> xfer_state \<Rightarrow> internalized" where
  "NaClDescIoInternalize A xfer = (let fresh = xe_host A (next_byte xfer) in
      if fresh = None then Inr (- NACL_ABI_ENOMEM, None, xfer)
      else if \<not> xe_new A 2 then Inr (- NACL_ABI_ENOMEM, None, xfer)
      else bindE (NaClDescInternalizeCtor A xfer) (\<lambda>(ndidp, xfer). case ndidp of
          None \<Rightarrow> Inr (- NACL_ABI_ENOMEM, None, xfer)
        | Some b \<Rightarrow>
            if next_handle xfer = handle_buffer_end xfer \<or> next_byte xfer + 4 > byte_buffer_end xfer
            then Inr (- NACL_ABI_EIO, None, xfer)
            else bindE (get_bytes 4 xfer) (\<lambda>(bs, xfer). bindE (take_handle xfer) (\<lambda>(h, xfer).
                 bindE (NaClHostDescPosixTake fresh h (of_bytes bs)) (\<lambda>(rv, nhdp).
                   if rv <s 0 then Inr (rv, None, close_handle h xfer)
                   else Inr (0, Some (DescIo b nhdp), xfer))))))"

definition NaClDescConnCapFdInternalize :: "xfer_env \<Rightarrow> xfer_state \<Rightarrow> internalized" where
  "NaClDescConnCapFdInternalize A xfer =
     (if \<not> xe_new A 4 then Inr (- NACL_ABI_ENOMEM, None, xfer)
      else bindE (NaClDescInternalizeCtor A xfer) (\<lambda>(conn_cap, xfer). case conn_cap of
          None \<Rightarrow> Inr (- NACL_ABI_ENOMEM, None, xfer)
        | Some b \<Rightarrow>
            if next_handle xfer = handle_buffer_end xfer then Inr (- NACL_ABI_EIO, None, xfer)
            else bindE (take_handle xfer) (\<lambda>(h, xfer). Inr (0, Some (DescConnCapFd b h), xfer))))"

definition NaClDescImcShmInternalize :: "xfer_env \<Rightarrow> xfer_state \<Rightarrow> internalized" where
  "NaClDescImcShmInternalize A xfer =
     (if \<not> xe_new A 7 then Inr (- NACL_ABI_ENOMEM, None, xfer)
      else bindE (NaClDescInternalizeCtor A xfer) (\<lambda>(ndisp, xfer). case ndisp of
          None \<Rightarrow> Inr (- NACL_ABI_ENOMEM, None, xfer)
        | Some b \<Rightarrow>
            if next_handle xfer = handle_buffer_end xfer then Inr (- NACL_ABI_EIO, None, xfer)
            else if next_byte xfer + 8 > byte_buffer_end xfer then Inr (- NACL_ABI_EIO, None, xfer)
            else bindE (take_handle xfer) (\<lambda>(h, xfer). bindE (get_bytes 8 xfer) (\<lambda>(bs, xfer).
                   let hsize = of_bytes bs in
                   if hsize <s 0 then Inr (- NACL_ABI_EIO, None, xfer)
                   else Inr (0, Some (DescImcShm b h hsize), xfer)))))"

definition NaClDescSyncSocketInternalize :: "xfer_env \<Rightarrow> xfer_state \<Rightarrow> internalized" where
  "NaClDescSyncSocketInternalize A xfer =
     (if \<not> xe_new A 12 then Inr (- NACL_ABI_ENOMEM, None, xfer)
      else bindE (NaClDescInternalizeCtor A xfer) (\<lambda>(ndssp, xfer). case ndssp of
          None \<Rightarrow> Inr (- NACL_ABI_ENOMEM, None, xfer)
        | Some b \<Rightarrow>
            if next_handle xfer = handle_buffer_end xfer then Inr (- NACL_ABI_EIO, None, xfer)
            else bindE (take_handle xfer) (\<lambda>(h, xfer). Inr (0, Some (DescSyncSocket b h), xfer))))"

text \<open>Here the status of the failed constructor, 0, is returned as it is.\<close>

definition NaClDescXferableDataDescInternalize :: "xfer_env \<Rightarrow> xfer_state \<Rightarrow> internalized" where
  "NaClDescXferableDataDescInternalize A xfer =
     (if \<not> xe_new A 13 then Inr (- NACL_ABI_ENOMEM, None, xfer)
      else bindE (NaClDescInternalizeCtor A xfer) (\<lambda>(ndxdp, xfer). case ndxdp of
          None \<Rightarrow> Inr (0, None, xfer)
        | Some b \<Rightarrow>
            if next_handle xfer = handle_buffer_end xfer then Inr (- NACL_ABI_EIO, None, xfer)
            else bindE (take_handle xfer) (\<lambda>(h, xfer). Inr (0, Some (DescXferableData b h), xfer))))"

definition NaClDescNullInternalize :: "xfer_env \<Rightarrow> xfer_state \<Rightarrow> internalized" where
  "NaClDescNullInternalize A xfer =
     (if \<not> xe_new A 18 then Inr (- NACL_ABI_ENOMEM, None, xfer)
      else case NaClDescCtor A of (ok, b) \<Rightarrow>
        if \<not> ok then Inr (- NACL_ABI_EIO, None, xfer) else Inr (0, Some (DescNull b), xfer))"

text \<open>The array of constructors, indexed by the tag. It has 18 entries for 19 tags, since the tag of host
  sockets was added to the tags alone: the entries from 17 on are one place off.\<close>

definition NaClDescInternalize :: "(xfer_env \<Rightarrow> xfer_state \<Rightarrow> internalized) option list" where
  "NaClDescInternalize =
     (let ni = Some (\<lambda>A. NaClDescInternalizeNotImplemented) in
      [Some NaClDescInvalidInternalize, ni, Some NaClDescIoInternalize, ni, Some NaClDescConnCapFdInternalize,
       ni, ni, Some NaClDescImcShmInternalize, ni, ni, ni, ni, Some NaClDescSyncSocketInternalize,
       Some NaClDescXferableDataDescInternalize, ni, ni, ni, Some NaClDescNullInternalize, None])"

definition NaClNrdXferReadTypeTag :: "xfer_state \<Rightarrow> (nat \<times> xfer_state) run" where
  "NaClNrdXferReadTypeTag xferp = bindE (get_bytes 1 xferp) (\<lambda>(bs, xferp). Inr (unat (hd bs), xferp))"

definition NaClNrdXferWriteTypeTag :: "xfer_state \<Rightarrow> xfer_desc \<Rightarrow> xfer_state run" where
  "NaClNrdXferWriteTypeTag xferp descp = put_bytes [of_nat (xfer_typeTag descp)] xferp"

definition NaClDescInternalizeFromXferBuffer :: "xfer_env \<Rightarrow> xfer_state \<Rightarrow> internalized" where
  "NaClDescInternalizeFromXferBuffer A xferp =
     bindE (NaClNrdXferReadTypeTag xferp) (\<lambda>(type_tag, xferp).
       if NACL_DESC_TYPE_END_TAG = type_tag then Inr (0, None, xferp)
       else if type_tag \<ge> NACL_DESC_TYPE_MAX then Inr (- NACL_ABI_EIO, None, xferp)
       else case NaClDescInternalize ! type_tag of
           None \<Rightarrow> Inl LogFatal
         | Some internalize \<Rightarrow> bindE (internalize A xferp) (\<lambda>(xfer_status, out, xferp).
             Inr (if 0 = xfer_status then 1 else 0, out, xferp)))"

definition NaClDescExternalizeToXferBuffer :: "xfer_state \<Rightarrow> xfer_desc \<Rightarrow> (u32 \<times> xfer_state) run" where
  "NaClDescExternalizeToXferBuffer xferp out =
     bindE (NaClNrdXferWriteTypeTag xferp out) (\<lambda>xferp. Externalize out xferp)"

section \<open>Sending a message\<close>

definition NACL_ABI_SIZE_T_MAX :: u64 where "NACL_ABI_SIZE_T_MAX = 0xffffffff"
definition NACL_ABI_IMC_IOVEC_MAX :: nat where "NACL_ABI_IMC_IOVEC_MAX = 256"
definition NACL_ABI_IMC_USER_DESC_MAX :: nat where "NACL_ABI_IMC_USER_DESC_MAX = 8"
definition NACL_ABI_IMC_DESC_MAX :: nat where "NACL_ABI_IMC_DESC_MAX = 8"
definition NACL_ABI_IMC_USER_BYTES_MAX :: u64 where "NACL_ABI_IMC_USER_BYTES_MAX = 0x20000"
definition NACL_ABI_IMC_BYTES_MAX :: nat where "NACL_ABI_IMC_BYTES_MAX = 0x20000 + (1 + 28) * 8 + 16"
definition NACL_HANDLE_TRANSFER_PROTOCOL :: u32 where "NACL_HANDLE_TRANSFER_PROTOCOL = 0xd3c0de01"
definition NACL_ABI_IMC_NONBLOCK :: u32 where "NACL_ABI_IMC_NONBLOCK = 1"
definition NACL_DONT_WAIT :: u32 where "NACL_DONT_WAIT = 1"
definition NACL_ABI_RECVMSG_DESC_TRUNCATED :: u32 where "NACL_ABI_RECVMSG_DESC_TRUNCATED = 2"
definition sizeof_NaClInternalHeader :: nat where "sizeof_NaClInternalHeader = 16"

definition min_size :: "u64 \<Rightarrow> u64 \<Rightarrow> u64" where "min_size a b = (if a < b then a else b)"

fun iov_total :: "u64 \<Rightarrow> u64 list \<Rightarrow> u64 option" where
  "iov_total user_bytes [] = Some user_bytes"
| "iov_total user_bytes (l # ls) = (if user_bytes > - 1 - l then None else iov_total (user_bytes + l) ls)"

fun xfer_sizes :: "u64 \<Rightarrow> u64 \<Rightarrow> xfer_desc list \<Rightarrow> u64 + (u64 \<times> u64)" where
  "xfer_sizes sys_bytes sys_handles [] = Inr (sys_bytes, sys_handles)"
| "xfer_sizes sys_bytes sys_handles (d # ds) = (case ExternalizeSize d of
       Inl retval \<Rightarrow> Inl retval
     | Inr (desc_bytes, desc_handles) \<Rightarrow>
         if desc_bytes > NACL_ABI_SIZE_T_MAX - 1 \<or> desc_bytes + 1 > NACL_ABI_SIZE_T_MAX - sys_bytes \<or>
            desc_handles > NACL_ABI_SIZE_T_MAX - sys_handles
         then Inl (err64 NACL_ABI_EOVERFLOW)
         else xfer_sizes (sys_bytes + (1 + desc_bytes)) (sys_handles + desc_handles) ds)"

fun externalize_all :: "xfer_desc list \<Rightarrow> xfer_state \<Rightarrow> (u32 \<times> xfer_state) run" where
  "externalize_all [] x = Inr (0, x)"
| "externalize_all (d # ds) x = bindE (NaClDescExternalizeToXferBuffer x d) (\<lambda>(retval, x).
     if 0 \<noteq> retval then Inr (retval, x) else externalize_all ds x)"

text \<open>The first part of the message: its header, and the descriptors with their handles.\<close>

definition imc_header :: "xfer_env \<Rightarrow> xfer_desc list \<Rightarrow> (u64 + (u8 list \<times> u32 list)) run" where
  "imc_header A kern_desc =
     (if kern_desc = [] then Inr (Inr (bytes_of NACL_HANDLE_TRANSFER_PROTOCOL @ replicate 12 0, []))
      else case xfer_sizes 0 0 kern_desc of Inl retval \<Rightarrow> Inr (Inl retval)
      | Inr (sys_bytes, sys_handles) \<Rightarrow>
          if unat sys_handles > NACL_ABI_IMC_DESC_MAX then Inl LogFatal
          else
            let sys_bytes = (sys_bytes + 1 + 0xf) AND NOT 0xf in
            if sys_bytes > NACL_ABI_SIZE_T_MAX - of_nat sizeof_NaClInternalHeader then Inl LogFatal
            else if \<not> xe_malloc A (unat sys_bytes + sizeof_NaClInternalHeader) then Inr (Inl (err64 NACL_ABI_ENOMEM))
            else if sys_bytes > 0xffffffff then Inr (Inl (err64 NACL_ABI_EOVERFLOW))
            else
              let hdr = bytes_of NACL_HANDLE_TRANSFER_PROTOCOL @ bytes_of (ucast sys_bytes :: u32) @ replicate 8 0;
                  xfer = \<lparr>xs_bytes = hdr @ map (xe_junk A) [0..<unat sys_bytes], next_byte = sizeof_NaClInternalHeader,
                          byte_buffer_end = sizeof_NaClInternalHeader + unat sys_bytes,
                          xs_handles = map (\<lambda>i. ucast (xe_junk A i)) [0..<NACL_ABI_IMC_DESC_MAX], next_handle = 0,
                          handle_buffer_end = NACL_ABI_IMC_DESC_MAX, xs_closed = []\<rparr>
              in bindE (externalize_all kern_desc xfer) (\<lambda>(retval, xfer).
                   if 0 \<noteq> retval then Inr (Inl (scast retval))
                   else bindE (put_bytes [of_nat NACL_DESC_TYPE_END_TAG] xfer) (\<lambda>xfer.
                        bindE (put_bytes (replicate (byte_buffer_end xfer - next_byte xfer) 0) xfer) (\<lambda>xfer.
                          Inr (Inr (xs_bytes xfer, take (unat sys_handles) (xs_handles xfer)))))))"

text \<open>\<open>send\<close> is the channel: it gets the bytes of the message and the handles. \<open>would_block\<close> is
  whether the failure was that it would have had to wait.\<close>

definition NaClImcSendTypedMessage ::
    "xfer_env \<Rightarrow> (u8 list \<Rightarrow> u32 list \<Rightarrow> u32 \<Rightarrow> u64) \<Rightarrow> bool \<Rightarrow> nat \<Rightarrow> u8 list list \<Rightarrow> xfer_desc list \<Rightarrow> u32 \<Rightarrow> u64 run" where
  "NaClImcSendTypedMessage A send would_block channel_tag iov ndescv flags =
     (let flags = (if 0 \<noteq> flags AND NOT NACL_ABI_IMC_NONBLOCK then flags AND NACL_ABI_IMC_NONBLOCK else flags) in
      if 0 \<noteq> length ndescv \<and> NACL_DESC_IMC_SOCKET \<noteq> channel_tag then Inr (err64 NACL_ABI_EINVAL)
      else if length iov > NACL_ABI_IMC_IOVEC_MAX then Inr (err64 NACL_ABI_EINVAL)
      else if length ndescv > NACL_ABI_IMC_USER_DESC_MAX then Inr (err64 NACL_ABI_EINVAL)
      else case iov_total 0 (map (of_nat \<circ> length) iov) of None \<Rightarrow> Inr (err64 NACL_ABI_EINVAL)
      | Some user_bytes \<Rightarrow>
          if user_bytes > NACL_ABI_IMC_USER_BYTES_MAX then Inr (err64 NACL_ABI_EINVAL)
          else bindE (imc_header A ndescv) (\<lambda>h. case h of Inl retval \<Rightarrow> Inr retval
            | Inr (kern_iov0, handles) \<Rightarrow>
                let retval = send (kern_iov0 @ concat iov) handles flags in
                if NaClSSizeIsNegErrno retval
                then if 0 \<noteq> flags AND NACL_DONT_WAIT \<and> would_block then Inr (err64 NACL_ABI_EAGAIN)
                     else if err64 NACL_ABI_EMSGSIZE = retval then Inr (err64 NACL_ABI_EMSGSIZE)
                     else Inr (err64 NACL_ABI_EIO)
                else if unat (ucast retval :: u32) < length kern_iov0 then Inr (err64 NACL_ABI_ENOBUFS)
                else Inr (retval - of_nat (length kern_iov0))))"

section \<open>Receiving a message\<close>

text \<open>The user's data goes into the buffers of the caller, in order, as far as it goes.\<close>

fun scatter :: "u8 list \<Rightarrow> nat \<Rightarrow> u64 \<Rightarrow> u64 list \<Rightarrow> u8 list list run" where
  "scatter recv_buf user_data avail [] = Inr []"
| "scatter recv_buf user_data avail (l # ls) =
     (if 0 < avail
      then
        let iov_copy_size = min_size l avail in
        guardE OutOfBounds (user_data + unat iov_copy_size \<le> length recv_buf)
          (let tmp = avail - iov_copy_size in
           if tmp > avail then Inl LogFatal
           else bindE (scatter recv_buf (user_data + unat iov_copy_size) tmp ls) (\<lambda>rest.
                  Inr (take (unat iov_copy_size) (drop user_data recv_buf) # rest)))
      else Inr [])"

function recv_descs :: "xfer_env \<Rightarrow> xfer_desc list \<Rightarrow> xfer_state \<Rightarrow> (xfer_desc list \<times> bool \<times> xfer_state) run" where
  "recv_descs A new_desc xfer =
     (if next_byte xfer < byte_buffer_end xfer
      then bindE (NaClDescInternalizeFromXferBuffer A xfer) (\<lambda>(xfer_status, out, xfer).
        if 0 = xfer_status then Inr (new_desc, True, xfer)
        else if length new_desc \<ge> NACL_ABI_IMC_DESC_MAX then Inl LogFatal
        else if 1 \<noteq> xfer_status then Inr (new_desc, False, xfer)
        else case out of None \<Rightarrow> Inl Uninit
             | Some d \<Rightarrow> recv_descs A (new_desc @ [d]) xfer)
      else Inr (new_desc, True, xfer))"
  by pat_completeness auto
termination
  by (relation "measure (\<lambda>(A, new_desc, xfer). NACL_ABI_IMC_DESC_MAX - length new_desc)") (auto split: option.splits)

declare recv_descs.simps [simp del]

text \<open>Dropping the only reference to a descriptor closes what it holds; a host descriptor that holds
  nothing is fatal.\<close>

fun drop_desc :: "xfer_desc \<Rightarrow> xfer_state \<Rightarrow> xfer_state run" where
  "drop_desc (DescIo b h) x = (if hd_d h = - 1 then Inl LogFatal else Inr (close_handle (hd_d h) x))"
| "drop_desc (DescConnCapFd b h) x = Inr (close_handle h x)"
| "drop_desc (DescImcShm b h sz) x = Inr (close_handle h x)"
| "drop_desc (DescSyncSocket b h) x = Inr (close_handle h x)"
| "drop_desc (DescXferableData b h) x = Inr (close_handle h x)"
| "drop_desc d x = Inr x"

fun drop_descs :: "xfer_desc list \<Rightarrow> xfer_state \<Rightarrow> xfer_state run" where
  "drop_descs [] x = Inr x"
| "drop_descs (d # ds) x = bindE (drop_desc d x) (drop_descs ds)"

record recv_result =
  rr_retval :: u64
  rr_iov :: "u8 list list"
  rr_descs :: "xfer_desc list"
  rr_ndesc_length :: nat
  rr_flags :: u32
  rr_closed :: "u32 list"

text \<open>The end of the call: what was not handed over is dropped, and what is left of the handles is
  closed.\<close>

definition recv_cleanup :: "xfer_desc list \<Rightarrow> xfer_state \<Rightarrow> recv_result \<Rightarrow> recv_result run" where
  "recv_cleanup new_desc xfer r = bindE (drop_descs new_desc xfer) (\<lambda>x.
     Inr (r\<lparr>rr_closed := xs_closed (fold close_handle (xs_handles x) x)\<rparr>))"

definition kern_handles :: "u32 list \<Rightarrow> xfer_state" where
  "kern_handles hs = \<lparr>xs_bytes = [], next_byte = 0, byte_buffer_end = 0, xs_handles = hs, next_handle = 0,
     handle_buffer_end = length hs, xs_closed = []\<rparr>"

text \<open>The message that has arrived: its bytes and handles, into the buffers \<open>iov\<close> and at most
  \<open>ndesc_length\<close> descriptors.\<close>

definition imc_parse ::
    "xfer_env \<Rightarrow> u8 list \<Rightarrow> u32 list \<Rightarrow> u64 list \<Rightarrow> u64 \<Rightarrow> nat \<Rightarrow> u32 \<Rightarrow> recv_result run" where
  "imc_parse A recv_buf handles iov user_bytes ndesc_length msg_flags =
     (let failed = (\<lambda>e. \<lparr>rr_retval = e, rr_iov = [], rr_descs = [], rr_ndesc_length = ndesc_length, rr_flags = msg_flags,
                       rr_closed = []\<rparr>);
          total = length recv_buf
      in
      if total < sizeof_NaClInternalHeader then recv_cleanup [] (kern_handles handles) (failed (err64 NACL_ABI_EIO))
      else
        let xfer_protocol_version = of_bytes (take 4 recv_buf) :: u32;
            descriptor_data_bytes = of_bytes (take 4 (drop 4 recv_buf)) :: u32
        in
        if NACL_HANDLE_TRANSFER_PROTOCOL \<noteq> xfer_protocol_version
        then recv_cleanup [] (kern_handles handles) (failed (err64 NACL_ABI_EIO))
        else if total < unat descriptor_data_bytes + sizeof_NaClInternalHeader
        then recv_cleanup [] (kern_handles handles) (failed (err64 NACL_ABI_EIO))
        else
          let avail = min_size (of_nat (total - unat descriptor_data_bytes - sizeof_NaClInternalHeader)) user_bytes;
              user_data = sizeof_NaClInternalHeader + unat descriptor_data_bytes
          in bindE (scatter recv_buf user_data avail iov) (\<lambda>copied.
             let xfer = (kern_handles handles)\<lparr>xs_bytes := recv_buf, next_byte := sizeof_NaClInternalHeader,
                   byte_buffer_end := sizeof_NaClInternalHeader + unat descriptor_data_bytes\<rparr>
             in bindE (recv_descs A [] xfer) (\<lambda>(new_desc, ok, xfer).
                if \<not> ok then recv_cleanup new_desc xfer ((failed (err64 NACL_ABI_EIO))\<lparr>rr_iov := copied\<rparr>)
                else
                  let num_user_desc = length new_desc;
                      msg_flags = (if ndesc_length < num_user_desc then msg_flags OR NACL_ABI_RECVMSG_DESC_TRUNCATED else msg_flags);
                      num_user_desc = (if ndesc_length < num_user_desc then ndesc_length else num_user_desc)
                  in recv_cleanup (drop num_user_desc new_desc) xfer
                       \<lparr>rr_retval = avail, rr_iov = copied, rr_descs = take num_user_desc new_desc,
                        rr_ndesc_length = num_user_desc, rr_flags = msg_flags, rr_closed = []\<rparr>)))"

text \<open>\<open>recv\<close> is the channel: what it returns, and the bytes and handles it has stored. A channel that is
  not a connected socket is asked for no handles.\<close>

definition NaClImcRecvTypedMessage ::
    "xfer_env \<Rightarrow> (nat \<Rightarrow> u32 \<Rightarrow> u64 \<times> u8 list \<times> u32 list) \<Rightarrow> nat \<Rightarrow> u64 list \<Rightarrow> nat \<Rightarrow> u32 \<Rightarrow> u32 \<Rightarrow> recv_result run" where
  "NaClImcRecvTypedMessage A recv channel_tag iov ndesc_length msg_flags flags =
     (let failed = (\<lambda>e. \<lparr>rr_retval = e, rr_iov = [], rr_descs = [], rr_ndesc_length = ndesc_length, rr_flags = msg_flags,
                       rr_closed = []\<rparr>);
          flags = (if 0 \<noteq> flags AND NOT NACL_ABI_IMC_NONBLOCK then flags AND NACL_ABI_IMC_NONBLOCK else flags)
      in
      if length iov > NACL_ABI_IMC_IOVEC_MAX then Inr (failed (err64 NACL_ABI_EINVAL))
      else if ndesc_length > NACL_ABI_IMC_USER_DESC_MAX then Inr (failed (err64 NACL_ABI_EINVAL))
      else case iov_total 0 iov of None \<Rightarrow> Inr (failed (err64 NACL_ABI_EINVAL))
      | Some user_bytes \<Rightarrow>
          let user_bytes = min_size user_bytes NACL_ABI_IMC_USER_BYTES_MAX in
          if \<not> xe_malloc A NACL_ABI_IMC_BYTES_MAX then Inr (failed (err64 NACL_ABI_ENOMEM))
          else
            case recv (if NACL_DESC_IMC_SOCKET = channel_tag then NACL_ABI_IMC_DESC_MAX else 0) flags of
              (total_recv_bytes, recv_buf, handles) \<Rightarrow>
                if NaClSSizeIsNegErrno total_recv_bytes
                then recv_cleanup [] (kern_handles handles) (failed total_recv_bytes)
                else imc_parse A recv_buf handles iov user_bytes ndesc_length msg_flags)"

end
