(* ===== verification/XferProps.thy ===== *)
theory XferProps
  imports Xfer
begin

text \<open>
  What a message does to descriptors: everything that is sent arrives, whatever arrives is read within its
  bounds, and every handle ends up in one place.
\<close>

section \<open>Descriptors as bytes\<close>

definition wf_base :: "desc_base \<Rightarrow> bool" where
  "wf_base b \<longleftrightarrow>
     (if NACL_DESC_FLAGS_HAS_METADATA AND bd_flags b = 0
      then metadata_type b = NACL_DESC_METADATA_NONE_TYPE \<and> metadata_num_bytes b = 0 \<and> metadata b = None
      else \<exists>bs. metadata b = Some bs \<and> length bs = unat (metadata_num_bytes b))"

definition enc_base :: "desc_base \<Rightarrow> u8 list" where
  "enc_base b = bytes_of (bd_flags b) @
     (if NACL_DESC_FLAGS_HAS_METADATA AND bd_flags b = 0 then []
      else bytes_of (metadata_type b) @ bytes_of (metadata_num_bytes b) @ the (metadata b))"

fun enc_body :: "xfer_desc \<Rightarrow> u8 list" where
  "enc_body (DescIo b h) = enc_base b @ bytes_of (hd_flags h)"
| "enc_body (DescConnCapFd b h) = enc_base b"
| "enc_body (DescImcShm b h sz) = enc_base b @ bytes_of sz"
| "enc_body (DescSyncSocket b h) = enc_base b"
| "enc_body (DescXferableData b h) = enc_base b"
| "enc_body d = []"

definition enc_desc :: "xfer_desc \<Rightarrow> u8 list" where
  "enc_desc d = of_nat (xfer_typeTag d) # enc_body d"

fun desc_handles :: "xfer_desc \<Rightarrow> u32 list" where
  "desc_handles (DescIo b h) = [hd_d h]"
| "desc_handles (DescConnCapFd b h) = [h]"
| "desc_handles (DescImcShm b h sz) = [h]"
| "desc_handles (DescSyncSocket b h) = [h]"
| "desc_handles (DescXferableData b h) = [h]"
| "desc_handles d = []"

text \<open>The descriptors that can be sent and arrive.\<close>

fun sendable :: "xfer_desc \<Rightarrow> bool" where
  "sendable DescInvalid \<longleftrightarrow> True"
| "sendable (DescIo b h) \<longleftrightarrow> wf_base b \<and> \<not> bad_open_flags (hd_flags h)"
| "sendable (DescConnCapFd b h) \<longleftrightarrow> wf_base b"
| "sendable (DescImcShm b h sz) \<longleftrightarrow> wf_base b \<and> 0 \<le>s sz"
| "sendable (DescSyncSocket b h) \<longleftrightarrow> wf_base b"
| "sendable (DescXferableData b h) \<longleftrightarrow> wf_base b"
| "sendable d \<longleftrightarrow> False"

text \<open>What arrives: the context of a file is not in the message, the new host descriptor keeps what its memory
  held. \<open>p\<close> is the position of the message, after the tag for one descriptor and before it for several.\<close>

fun arrive :: "xfer_env \<Rightarrow> nat \<Rightarrow> xfer_desc \<Rightarrow> xfer_desc" where
  "arrive A p (DescIo b h) = DescIo b (h\<lparr>hd_ctx := hd_ctx (the (xe_host A p))\<rparr>)"
| "arrive A p d = d"

fun arrive_all :: "xfer_env \<Rightarrow> nat \<Rightarrow> xfer_desc list \<Rightarrow> xfer_desc list" where
  "arrive_all A p [] = []"
| "arrive_all A p (d # ds) = arrive A (p + 1) d # arrive_all A (p + length (enc_desc d)) ds"

lemma length_arrive_all [simp]: "length (arrive_all A p ds) = length ds"
  by (induction ds arbitrary: p) simp_all

section \<open>Writing\<close>

text \<open>The state with \<open>bs\<close> and \<open>hs\<close> written at its positions.\<close>

definition written :: "u8 list \<Rightarrow> u32 list \<Rightarrow> xfer_state \<Rightarrow> xfer_state" where
  "written bs hs x = x\<lparr>
     xs_bytes := take (next_byte x) (xs_bytes x) @ bs @ drop (next_byte x + length bs) (xs_bytes x),
     next_byte := next_byte x + length bs,
     xs_handles := take (next_handle x) (xs_handles x) @ hs @ drop (next_handle x + length hs) (xs_handles x),
     next_handle := next_handle x + length hs\<rparr>"

definition room :: "nat \<Rightarrow> nat \<Rightarrow> xfer_state \<Rightarrow> bool" where
  "room n k x \<longleftrightarrow> next_byte x + n \<le> length (xs_bytes x) \<and> next_handle x + k \<le> length (xs_handles x)"

lemma put_bytes_written: "room (length bs) 0 x \<Longrightarrow> put_bytes bs x = Inr (written bs [] x)"
  by (simp add: put_bytes_def written_def room_def)

lemma put_handle_written: "room 0 1 x \<Longrightarrow> put_handle h x = Inr (written [] [h] x)"
  by (simp add: put_handle_def written_def room_def upd_conv_take_nth_drop)

lemma splice_splice:
  "n + length bs \<le> length xs \<Longrightarrow>
     take (n + length bs) (take n xs @ bs @ drop (n + length bs) xs) @ bs' @
     drop (n + length bs + length bs') (take n xs @ bs @ drop (n + length bs) xs) =
     take n xs @ (bs @ bs') @ drop (n + length (bs @ bs')) xs"
  by (simp add: min_absorb2 ac_simps)

lemma written_written: "room (length bs) (length hs) x \<Longrightarrow>
    written bs' hs' (written bs hs x) = written (bs @ bs') (hs @ hs') x"
  using splice_splice [of "next_byte x" bs "xs_bytes x" bs'] splice_splice [of "next_handle x" hs "xs_handles x" hs']
  by (simp add: written_def room_def del: append_assoc)

lemma room_written: "room m j x \<Longrightarrow> length bs + n \<le> m \<Longrightarrow> length hs + k \<le> j \<Longrightarrow> room n k (written bs hs x)"
  by (auto simp: written_def room_def)

lemma room_mono: "room n k x \<Longrightarrow> n' \<le> n \<Longrightarrow> k' \<le> k \<Longrightarrow> room n' k' x"
  by (simp add: room_def)

lemma ExternalizeBase_ok:
  assumes "wf_base b" "room (length (enc_base b)) 0 x"
  shows "NaClDescExternalize b x = Inr (written (enc_base b) [] x)"
proof (cases "NACL_DESC_FLAGS_HAS_METADATA AND bd_flags b = 0")
  case True
  then show ?thesis using assms by (simp add: NaClDescExternalize_def enc_base_def put_bytes_written)
next
  case False
  then obtain bs where bs: "metadata b = Some bs" "length bs = unat (metadata_num_bytes b)"
    using assms(1) by (auto simp: wf_base_def)
  have r: "room (4 + (4 + (4 + length bs))) 0 x" using assms(2) False bs(1) by (simp add: enc_base_def)
  let ?x1 = "written (bytes_of (bd_flags b)) [] x"
  let ?x2 = "written (bytes_of (metadata_type b)) [] ?x1"
  let ?x3 = "written (bytes_of (metadata_num_bytes b)) [] ?x2"
  have r1: "room (4 + (4 + length bs)) 0 ?x1" using r by (rule room_written) simp_all
  then have r2: "room (4 + length bs) 0 ?x2" by (rule room_written) simp_all
  then have r3: "room (length bs) 0 ?x3" by (rule room_written) simp_all
  have "NaClDescExternalize b x = Inr (written bs [] ?x3)"
    using False bs r r1 r2 r3 by (simp add: NaClDescExternalize_def put_bytes_written room_mono [OF r] room_mono [OF r1] room_mono [OF r2])
  also have "written bs [] ?x3 = written (enc_base b) [] x"
    using False bs r by (simp add: written_written enc_base_def room_mono [OF r])
  finally show ?thesis .
qed

lemma room_written_eq: "room (length bs) (length hs) x \<Longrightarrow> room n k (written bs hs x) \<longleftrightarrow> room (length bs + n) (length hs + k) x"
  by (auto simp: written_def room_def)

lemma written_nil: "written [] [] x = x"
  by (simp add: written_def)

lemma put_bytes_after: "room (length bs + length bs') (length hs) x \<Longrightarrow>
    put_bytes bs' (written bs hs x) = Inr (written (bs @ bs') hs x)"
  by (subst put_bytes_written) (simp_all add: room_written_eq written_written room_mono)

lemma externalize_desc:
  assumes "sendable d" "room (length (enc_desc d)) (length (desc_handles d)) x"
  shows "NaClDescExternalizeToXferBuffer x d = Inr (0, written (enc_desc d) (desc_handles d) x)"
proof -
  note r = room_mono [OF assms(2)]
  show ?thesis
    using assms(1)
    by (cases d) (simp_all add: NaClDescExternalizeToXferBuffer_def NaClNrdXferWriteTypeTag_def put_bytes_written
        put_handle_written ExternalizeBase_ok written_written room_written_eq r enc_desc_def)
qed

section \<open>The header\<close>

definition enc_all :: "xfer_desc list \<Rightarrow> u8 list" where "enc_all ds = concat (map enc_desc ds)"

definition all_handles :: "xfer_desc list \<Rightarrow> u32 list" where "all_handles ds = concat (map desc_handles ds)"

lemma externalize_all_ok:
  "list_all sendable ds \<Longrightarrow> room (length (enc_all ds)) (length (all_handles ds)) x \<Longrightarrow>
   externalize_all ds x = Inr (0, written (enc_all ds) (all_handles ds) x)"
proof (induction ds arbitrary: x)
  case Nil
  then show ?case by (simp add: enc_all_def all_handles_def written_nil)
next
  case (Cons d ds)
  let ?x = "written (enc_desc d) (desc_handles d) x"
  have r: "room (length (enc_desc d)) (length (desc_handles d)) x"
    by (rule room_mono [OF Cons.prems(2)]) (simp_all add: enc_all_def all_handles_def)
  moreover have "room (length (enc_all ds)) (length (all_handles ds)) ?x"
    by (rule room_written [OF Cons.prems(2)]) (simp_all add: enc_all_def all_handles_def)
  ultimately show ?case using Cons.IH [of ?x] Cons.prems(1) externalize_desc [of d x]
    by (simp add: written_written enc_all_def all_handles_def)
qed

lemma base_size:
  assumes "wf_base b"
  shows "NaClDescExternalizeSize b = (of_nat (length (enc_base b)), 0)"
  using assms by (auto simp: NaClDescExternalizeSize_def enc_base_def wf_base_def)

lemma desc_size:
  assumes "sendable d"
  shows "ExternalizeSize d = Inr (of_nat (length (enc_body d)), of_nat (length (desc_handles d)))"
  using assms by (cases d) (simp_all add: base_size)

lemma xfer_sizes_ok:
  "list_all sendable ds \<Longrightarrow> length (enc_all ds) + n < 2 ^ 31 \<Longrightarrow> length (all_handles ds) + k < 2 ^ 31 \<Longrightarrow>
   xfer_sizes (of_nat n) (of_nat k) ds = Inr (of_nat (n + length (enc_all ds)), of_nat (k + length (all_handles ds)))"
proof (induction ds arbitrary: n k)
  case Nil
  then show ?case by (simp add: enc_all_def all_handles_def)
next
  case (Cons d ds)
  have u: "unat (of_nat m :: u64) = m" if "m < 2 ^ 31" for m
    using that by (simp add: unat_of_nat take_bit_nat_eq_self)
  let ?L = "length (enc_body d)" and ?H = "length (desc_handles d)"
  have b: "?L + 1 + length (enc_all ds) + n < 2 ^ 31" "?H + length (all_handles ds) + k < 2 ^ 31"
    using Cons.prems by (simp_all add: enc_all_def all_handles_def enc_desc_def)
  have m: "unat (NACL_ABI_SIZE_T_MAX - 1) = 2 ^ 32 - 2" "unat NACL_ABI_SIZE_T_MAX = 2 ^ 32 - 1"
    by (simp_all add: NACL_ABI_SIZE_T_MAX_def)
  then have m': "unat (NACL_ABI_SIZE_T_MAX - of_nat n) = 2 ^ 32 - 1 - n" "unat (NACL_ABI_SIZE_T_MAX - of_nat k) = 2 ^ 32 - 1 - k"
    using b u [of n] u [of k] by (simp_all add: unat_diff_le)
  have "of_nat ?L + 1 = (of_nat (?L + 1) :: u64)" by simp
  then have l: "unat (of_nat ?L + 1 :: u64) = ?L + 1" using b u [of "?L + 1"] by presburger
  have "\<not> (of_nat ?L > NACL_ABI_SIZE_T_MAX - 1 \<or> of_nat ?L + 1 > NACL_ABI_SIZE_T_MAX - of_nat n \<or>
      of_nat ?H > NACL_ABI_SIZE_T_MAX - of_nat k)"
    using b u [of ?L] u [of ?H] unfolding word_less_nat_alt m m' l by auto
  then have "xfer_sizes (of_nat n) (of_nat k) (d # ds) = xfer_sizes (of_nat (n + (1 + ?L))) (of_nat (k + ?H)) ds"
    using Cons.prems(1) by (simp add: desc_size ac_simps)
  also have "\<dots> = Inr (of_nat (n + (1 + ?L) + length (enc_all ds)), of_nat (k + ?H + length (all_handles ds)))"
    using Cons.prems(1) b by (intro Cons.IH) simp_all
  finally show ?case by (simp add: enc_all_def all_handles_def enc_desc_def ac_simps)
qed

text \<open>The bytes of the descriptors are padded to a multiple of 16, with the end tag after them.\<close>

definition pad_len :: "nat \<Rightarrow> nat" where "pad_len n = (n + 16) div 16 * 16"

definition enc_header :: "xfer_desc list \<Rightarrow> u8 list" where
  "enc_header ds = (if ds = [] then bytes_of NACL_HANDLE_TRANSFER_PROTOCOL @ replicate 12 0
     else let n = length (enc_all ds) in
       bytes_of NACL_HANDLE_TRANSFER_PROTOCOL @ bytes_of (of_nat (pad_len n) :: u32) @ replicate 8 0 @
       enc_all ds @ 0xff # replicate (pad_len n - n - 1) 0)"

lemma unat_pad: "n < 2 ^ 31 \<Longrightarrow> unat ((of_nat n + 1 + 0xf) AND NOT 0xf :: u64) = pad_len n"
proof -
  assume n: "n < 2 ^ 31"
  have "unat (of_nat (n + 16) :: u64) = n + 16" using n by (simp only: unat_of_nat) (simp add: take_bit_nat_eq_self)
  moreover have e: "of_nat n + 1 + 0xf = (of_nat (n + 16) :: u64)" "(0xf :: u64) = mask 4"
    by (simp_all add: mask_eq_exp_minus_1)
  ultimately show ?thesis using unat_and_not_mask [of "of_nat (n + 16) :: u64" 4]
    unfolding e(1) unfolding e(2) pad_len_def by simp
qed

lemma pad_len_bounds: "n < pad_len n" "pad_len n \<le> n + 16" "16 dvd pad_len n"
  by (auto simp: pad_len_def)

lemma all_handles_le: "length (all_handles ds) \<le> length ds"
proof (induction ds)
  case (Cons d ds)
  have "length (desc_handles d) \<le> 1" by (cases d) simp_all
  then show ?case using Cons by (simp add: all_handles_def)
qed (simp add: all_handles_def)

lemma imc_header_ok:
  assumes s: "list_all sendable ds" "length ds \<le> 8" "length (enc_all ds) < 2 ^ 31 - 32" and m: "xe_malloc A = (\<lambda>_. True)"
  shows "imc_header A ds = Inr (Inr (enc_header ds, all_handles ds))"
proof (cases "ds = []")
  case True
  then show ?thesis by (simp add: imc_header_def enc_header_def all_handles_def)
next
  case False
  define n where "n = length (enc_all ds)"
  define k where "k = length (all_handles ds)"
  have k: "k \<le> 8" using all_handles_le [of ds] s(2) unfolding k_def by simp
  have n: "n < 2 ^ 31 - 32" using s(3) by (simp add: n_def)
  let ?hdr = "bytes_of NACL_HANDLE_TRANSFER_PROTOCOL @ bytes_of (of_nat (pad_len n) :: u32) @ replicate 8 (0 :: u8)"
  let ?x = "\<lparr>xs_bytes = ?hdr @ map (xe_junk A) [0..<pad_len n], next_byte = 16, byte_buffer_end = 16 + pad_len n,
      xs_handles = map (\<lambda>i. ucast (xe_junk A i)) [0..<8], next_handle = 0, handle_buffer_end = 8, xs_closed = []\<rparr>"
  define W where "W = (of_nat n + 1 + 0xf :: u64) AND NOT 0xf"
  have Wn: "16 + of_nat n AND - 16 = W" by (simp add: W_def)
  have W: "unat W = pad_len n" unfolding W_def by (rule unat_pad) (use n in simp)
  have p: "pad_len n < 2 ^ 31 - 16" using pad_len_bounds(2) [of n] n by simp
  have W': "\<not> W > NACL_ABI_SIZE_T_MAX - of_nat sizeof_NaClInternalHeader" "\<not> W > 0xffffffff"
    using p by (simp_all add: word_less_nat_alt W NACL_ABI_SIZE_T_MAX_def sizeof_NaClInternalHeader_def)
  have Wc: "(ucast W :: u32) = of_nat (pad_len n)" by (simp flip: W add: of_nat_unat)
  have sz: "xfer_sizes 0 0 ds = Inr (of_nat n, of_nat k)"
    using xfer_sizes_ok [of ds 0 0] s(1) n k by (simp add: n_def k_def)
  have k': "unat (of_nat k :: u64) = k" using k by (simp add: unat_of_nat take_bit_nat_eq_self)
  have r: "room (pad_len n) 8 ?x" by (simp add: room_def)
  have e: "externalize_all ds ?x = Inr (0, written (enc_all ds) (all_handles ds) ?x)"
    by (rule externalize_all_ok [OF s(1)], rule room_mono [OF r]) (use k pad_len_bounds(1) [of n] in \<open>simp_all add: n_def k_def\<close>)
  have f: "put_bytes [0xff] (written (enc_all ds) (all_handles ds) ?x) = Inr (written (enc_all ds @ [0xff]) (all_handles ds) ?x)"
    by (rule put_bytes_after, rule room_mono [OF r]) (use k pad_len_bounds(1) [of n] in \<open>simp_all add: n_def k_def\<close>)
  have g: "put_bytes (replicate (pad_len n - Suc n) 0) (written (enc_all ds @ [0xff]) (all_handles ds) ?x) =
      Inr (written ((enc_all ds @ [0xff]) @ replicate (pad_len n - Suc n) 0) (all_handles ds) ?x)"
    by (rule put_bytes_after, rule room_mono [OF r]) (use k pad_len_bounds(1) [of n] in \<open>simp_all add: n_def k_def\<close>)
  have nb: "next_byte (written (enc_all ds @ [0xff]) (all_handles ds) ?x) = 17 + n"
    "byte_buffer_end (written (enc_all ds @ [0xff]) (all_handles ds) ?x) = 16 + pad_len n"
    by (simp_all add: written_def flip: n_def)
  have "imc_header A ds = Inr (Inr (?hdr @ enc_all ds @ 0xff # replicate (pad_len n - Suc n) 0, all_handles ds))"
    using False k m W' e f g nb pad_len_bounds(1) [of n] unfolding imc_header_def sz
    by (simp add: k' W Wc Wn Let_def NACL_ABI_IMC_DESC_MAX_def NACL_DESC_TYPE_END_TAG_def sizeof_NaClInternalHeader_def written_def
        flip: n_def k_def)
  then show ?thesis using False by (simp add: enc_header_def Let_def flip: n_def)
qed

section \<open>Reading\<close>

text \<open>\<open>bs\<close> and \<open>hs\<close> are what comes next, within the ends; then they are consumed.\<close>

definition ahead :: "u8 list \<Rightarrow> u32 list \<Rightarrow> xfer_state \<Rightarrow> bool" where
  "ahead bs hs x \<longleftrightarrow> take (length bs) (drop (next_byte x) (xs_bytes x)) = bs \<and>
     next_byte x + length bs \<le> byte_buffer_end x \<and> byte_buffer_end x \<le> length (xs_bytes x) \<and>
     take (length hs) (drop (next_handle x) (xs_handles x)) = hs \<and>
     next_handle x + length hs \<le> length (xs_handles x) \<and> handle_buffer_end x = length (xs_handles x)"

definition consumed :: "nat \<Rightarrow> nat \<Rightarrow> xfer_state \<Rightarrow> xfer_state" where
  "consumed n k x = x\<lparr>next_byte := next_byte x + n,
     xs_handles := take (next_handle x) (xs_handles x) @ replicate k NACL_INVALID_HANDLE @ drop (next_handle x + k) (xs_handles x),
     next_handle := next_handle x + k\<rparr>"

lemma take_append_eq: "take (length (bs @ bs')) xs = bs @ bs' \<Longrightarrow> take (length bs) xs = bs \<and> take (length bs') (drop (length bs) xs) = bs'"
proof -
  assume "take (length (bs @ bs')) xs = bs @ bs'"
  then have "take (length bs) (take (length bs + length bs') xs) = bs" "drop (length bs) (take (length bs + length bs') xs) = bs'"
    by simp_all
  then show ?thesis by (simp add: drop_take min_absorb1)
qed

lemma ahead_prefix: "ahead (bs @ bs') (hs @ hs') x \<Longrightarrow> ahead bs hs x"
  using take_append_eq [of bs bs' "drop (next_byte x) (xs_bytes x)"] take_append_eq [of hs hs' "drop (next_handle x) (xs_handles x)"]
  by (simp add: ahead_def)

lemma ahead_consumed:
  assumes "ahead (bs @ bs') (hs @ hs') x"
  shows "ahead bs' hs' (consumed (length bs) (length hs) x)"
  using assms take_append_eq [of bs bs' "drop (next_byte x) (xs_bytes x)"]
    take_append_eq [of hs hs' "drop (next_handle x) (xs_handles x)"]
  by (simp add: ahead_def consumed_def ac_simps)

lemma consumed_consumed: "next_handle x + k \<le> length (xs_handles x) \<Longrightarrow> consumed n' k' (consumed n k x) = consumed (n + n') (k + k') x"
  by (simp add: consumed_def ac_simps replicate_add)

lemma get_bytes_ahead: "ahead bs hs x \<Longrightarrow> get_bytes (length bs) x = Inr (bs, consumed (length bs) 0 x)"
  by (simp add: get_bytes_def ahead_def consumed_def)

lemma take_handle_ahead: "ahead bs (h # hs) x \<Longrightarrow> take_handle x = Inr (h, consumed 0 1 x)"
  by (auto simp: take_handle_def ahead_def consumed_def upd_conv_take_nth_drop hd_drop_conv_nth take_Suc)

definition able :: "xfer_env \<Rightarrow> bool" where
  "able A \<longleftrightarrow> xe_mutex A \<and> xe_malloc A = (\<lambda>_. True) \<and> xe_new A = (\<lambda>_. True) \<and> (\<forall>p. xe_host A p \<noteq> None)"

text \<open>A step that consumes \<open>bs\<close> and \<open>hs\<close>, whatever follows.\<close>

lemma get_word:
  fixes w :: "'a::len word"
  assumes "ahead (bytes_of w @ bs) hs x"
  shows "get_bytes (LENGTH('a) div 8) x = Inr (bytes_of w, consumed (LENGTH('a) div 8) 0 x)"
    and "ahead bs hs (consumed (LENGTH('a) div 8) 0 x)"
  using get_bytes_ahead [of "bytes_of w" "[]" x] ahead_prefix [of "bytes_of w" bs "[]" hs x]
    ahead_consumed [of "bytes_of w" bs "[]" hs x] assms
  by simp_all

lemma InternalizeCtor_ok:
  assumes b: "wf_base b" and x: "ahead (enc_base b @ bs) hs x" and A: "able A"
  shows "NaClDescInternalizeCtor A x = Inr (Some b, consumed (length (enc_base b)) 0 x)"
proof (cases "NACL_DESC_FLAGS_HAS_METADATA AND bd_flags b = 0")
  case True
  then have "ahead (bytes_of (bd_flags b) @ bs) hs x" using x by (simp add: enc_base_def)
  note g = get_word [OF this]
  show ?thesis using True A b x g(1)
    by (simp add: NaClDescInternalizeCtor_def NaClDescCtor_def able_def enc_base_def wf_base_def ahead_def)
next
  case False
  then obtain m where m: "metadata b = Some m" "length m = unat (metadata_num_bytes b)"
    using b by (auto simp: wf_base_def)
  have "ahead (bytes_of (bd_flags b) @ bytes_of (metadata_type b) @ bytes_of (metadata_num_bytes b) @ m @ bs) hs x"
    using x False m by (simp add: enc_base_def)
  note g1 = get_word [OF this]
  note g2 = get_word [OF g1(2)]
  note g3 = get_word [OF g2(2)]
  have g4: "get_bytes (length m) (consumed 4 0 (consumed 4 0 (consumed 4 0 x))) =
      Inr (m, consumed (length m) 0 (consumed 4 0 (consumed 4 0 (consumed 4 0 x))))"
    by (rule get_bytes_ahead, rule ahead_prefix [of m bs "[]" hs]) (use g3(2) in simp)
  show ?thesis
    using False A b m x g1(1) g2(1) g3(1) g4
    by (simp add: NaClDescInternalizeCtor_def NaClDescCtor_def able_def enc_base_def ahead_def consumed_consumed)
       (simp add: consumed_def)
qed

lemma handle_left: "ahead bs (h # hs) x \<Longrightarrow> next_handle x \<noteq> handle_buffer_end x"
  by (auto simp: ahead_def)

lemma ahead_handle: "ahead bs (h # hs) x \<Longrightarrow> ahead bs hs (consumed 0 1 x)"
  using ahead_consumed [of "[]" bs "[h]" hs x] by simp

lemma consumed_add: "ahead bs hs x \<Longrightarrow> k \<le> length hs \<Longrightarrow> consumed n' k' (consumed n k x) = consumed (n + n') (k + k') x"
  by (rule consumed_consumed) (simp add: ahead_def)

text \<open>The kinds that are a base and a handle.\<close>

lemma handle_only:
  assumes b: "wf_base b" and a: "ahead (enc_base b @ bs) (h # hs) y" and A: "able A"
  shows "bindE (NaClDescInternalizeCtor A y) (\<lambda>(v, x). case v of None \<Rightarrow> bad x
        | Some b' \<Rightarrow> if next_handle x = handle_buffer_end x then eio x else bindE (take_handle x) (\<lambda>(h', x). k b' h' x)) =
      k b h (consumed (length (enc_base b)) 1 y)"
proof -
  note z = ahead_consumed [of "enc_base b" bs "[]" "h # hs" y, simplified, OF a]
  show ?thesis by (simp add: InternalizeCtor_ok [OF b a A] handle_left [OF z] take_handle_ahead [OF z] consumed_add [OF a])
qed

lemma internalize_body:
  assumes d: "sendable d" and y: "ahead (enc_body d @ bs) (desc_handles d @ hs) y" and A: "able A"
  shows "\<exists>f. NaClDescInternalize ! xfer_typeTag d = Some f \<and>
    f A y = Inr (0, Some (arrive A (next_byte y) d), consumed (length (enc_body d)) (length (desc_handles d)) y)"
proof -
  note new = A [unfolded able_def]
  note ctor = InternalizeCtor_ok [OF _ _ A]
  show ?thesis
  proof (cases d)
    case DescInvalid
    then show ?thesis by (simp add: NaClDescInternalize_def Let_def NaClDescInvalidInternalize_def consumed_def)
  next
    case (DescConnCapFd b h)
    then show ?thesis using handle_only [OF _ _ A, of b bs h hs y] y d new
      by (simp add: NaClDescInternalize_def Let_def NaClDescConnCapFdInternalize_def)
  next
    case (DescSyncSocket b h)
    then show ?thesis using handle_only [OF _ _ A, of b bs h hs y] y d new
      by (simp add: NaClDescInternalize_def Let_def NaClDescSyncSocketInternalize_def)
  next
    case (DescXferableData b h)
    then show ?thesis using handle_only [OF _ _ A, of b bs h hs y] y d new
      by (simp add: NaClDescInternalize_def Let_def NaClDescXferableDataDescInternalize_def)
  next
    case (DescImcShm b h sz)
    then have a: "ahead (enc_base b @ bytes_of sz @ bs) (h # hs) y" and b: "wf_base b" "0 \<le>s sz" using y d by simp_all
    note z = ahead_consumed [of "enc_base b" _ "[]" "h # hs" y, simplified, OF a]
    note w = get_word [OF ahead_handle [OF z]]
    have l: "next_byte (consumed (length (enc_base b)) 0 y) + 8 \<le> byte_buffer_end (consumed (length (enc_base b)) 0 y)"
      using z by (simp add: ahead_def)
    show ?thesis unfolding DescImcShm using a z new w(1) l b(2)
      by (simp add: NaClDescInternalize_def Let_def NaClDescImcShmInternalize_def ctor [OF b(1) a] handle_left [OF z]
          take_handle_ahead [OF z] consumed_add [OF a] word_sle_eq word_sless_alt)
  next
    case (DescIo b g)
    then have a: "ahead (enc_base b @ bytes_of (hd_flags g) @ bs) (hd_d g # hs) y" and b: "wf_base b" "\<not> bad_open_flags (hd_flags g)" using y d by simp_all
    note z = ahead_consumed [of "enc_base b" _ "[]" "hd_d g # hs" y, simplified, OF a]
    note w = get_word [OF z]
    have l: "next_byte (consumed (length (enc_base b)) 0 y) + 4 \<le> byte_buffer_end (consumed (length (enc_base b)) 0 y)"
      using z by (simp add: ahead_def)
    have v: "take_handle (consumed (length (enc_base b) + 4) 0 y) = Inr (hd_d g, consumed (length (enc_base b) + 4) 1 y)"
      using take_handle_ahead [OF w(2)] by (simp add: consumed_add [OF a])
    obtain m where m: "xe_host A (next_byte y) = Some m" using new by auto
    have "m\<lparr>hd_d := hd_d g, hd_flags := hd_flags g\<rparr> = g\<lparr>hd_ctx := hd_ctx m\<rparr>" by (cases m; cases g) simp
    then show ?thesis unfolding DescIo using a z new w l b(2) m
      by (simp add: NaClDescInternalize_def Let_def NaClDescIoInternalize_def ctor [OF b(1) a] handle_left [OF z]
          v consumed_add [OF a] NaClHostDescPosixTake_def)
  qed (use d in simp_all)
qed

lemma read_tag: "ahead (t # bs) hs x \<Longrightarrow> NaClNrdXferReadTypeTag x = Inr (unat t, consumed 1 0 x) \<and> ahead bs hs (consumed 1 0 x)"
  using get_bytes_ahead [of "[t]" "[]" x] ahead_prefix [of "[t]" bs "[]" hs x] ahead_consumed [of "[t]" bs "[]" hs x]
  by (simp add: NaClNrdXferReadTypeTag_def)

lemma internalize_desc:
  assumes d: "sendable d" and x: "ahead (enc_desc d @ bs) (desc_handles d @ hs) x" and A: "able A"
  shows "NaClDescInternalizeFromXferBuffer A x = Inr (1, Some (arrive A (next_byte x + 1) d), consumed (length (enc_desc d)) (length (desc_handles d)) x)"
proof -
  have t: "xfer_typeTag d < 19" using d by (cases d) simp_all
  then have u: "unat (of_nat (xfer_typeTag d) :: u8) = xfer_typeTag d" by (simp add: unat_of_nat take_bit_nat_eq_self)
  have "ahead (of_nat (xfer_typeTag d) # enc_body d @ bs) (desc_handles d @ hs) x" using x by (simp add: enc_desc_def)
  note r = read_tag [OF this]
  obtain f where f: "NaClDescInternalize ! xfer_typeTag d = Some f"
    "f A (consumed 1 0 x) = Inr (0, Some (arrive A (next_byte x + 1) d), consumed (length (enc_body d)) (length (desc_handles d)) (consumed 1 0 x))"
    using internalize_body [OF d _ A, of bs hs "consumed 1 0 x"] r by (auto simp: consumed_def)
  have "consumed (length (enc_body d)) (length (desc_handles d)) (consumed 1 0 x) = consumed (length (enc_desc d)) (length (desc_handles d)) x"
    using consumed_add [OF x, of 0] by (simp add: enc_desc_def)
  then show ?thesis using r t f
    by (simp add: NaClDescInternalizeFromXferBuffer_def u NACL_DESC_TYPE_END_TAG_def NACL_DESC_TYPE_MAX_def)
qed

lemma recv_descs_ok:
  "list_all sendable ds \<Longrightarrow> length pre + length ds \<le> 8 \<Longrightarrow> able A \<Longrightarrow> ahead (enc_all ds @ 0xff # bs) (all_handles ds) x \<Longrightarrow>
   recv_descs A pre x = Inr (pre @ arrive_all A (next_byte x) ds, True, consumed (Suc (length (enc_all ds))) (length (all_handles ds)) x)"
proof (induction ds arbitrary: pre x)
  case Nil
  then have a: "ahead (0xff # bs) [] x" by (simp add: enc_all_def all_handles_def)
  then have "next_byte x < byte_buffer_end x" by (simp add: ahead_def)
  then show ?case using read_tag [OF a] Nil
    by (subst recv_descs.simps)
      (simp add: NaClDescInternalizeFromXferBuffer_def NACL_DESC_TYPE_END_TAG_def enc_all_def all_handles_def)
next
  case (Cons d ds)
  then have a: "ahead (enc_desc d @ enc_all ds @ 0xff # bs) (desc_handles d @ all_handles ds) x" and d: "sendable d"
    by (simp_all add: enc_all_def all_handles_def)
  let ?y = "consumed (length (enc_desc d)) (length (desc_handles d)) x" and ?d = "arrive A (next_byte x + 1) d"
  have y: "next_byte ?y = next_byte x + length (enc_desc d)" by (simp add: consumed_def)
  have "next_byte x < byte_buffer_end x" using a by (simp add: ahead_def enc_desc_def)
  moreover have "recv_descs A (pre @ [?d]) ?y = Inr ((pre @ [?d]) @ arrive_all A (next_byte ?y) ds, True, consumed (Suc (length (enc_all ds))) (length (all_handles ds)) ?y)"
    using Cons.prems ahead_consumed [OF a] by (intro Cons.IH) simp_all
  ultimately show ?case using internalize_desc [OF d a Cons.prems(3)] Cons.prems(2) consumed_add [OF a]
    by (subst recv_descs.simps) (simp add: y NACL_ABI_IMC_DESC_MAX_def enc_all_def all_handles_def)
qed

section \<open>The user's data\<close>

lemma scatter_ok:
  "p + unat avail \<le> length buf \<Longrightarrow> \<exists>cs. scatter buf p avail ls = Inr cs \<and>
     (unat avail \<le> sum_list (map unat ls) \<longrightarrow> concat cs = take (unat avail) (drop p buf))"
proof (induction ls arbitrary: p avail)
  case (Cons l ls)
  define c where "c = min_size l avail"
  have c: "c \<le> avail" "c = l \<or> c = avail" "unat avail \<le> unat l + n \<Longrightarrow> unat avail - unat c \<le> n" for n
    by (auto simp: c_def min_size_def word_less_nat_alt word_le_nat_alt)
  then have u: "unat (avail - c) = unat avail - unat c" "unat c \<le> unat avail" by (simp_all add: unat_sub word_le_nat_alt)
  have "\<not> avail - c > avail" using u by (simp add: word_less_nat_alt)
  moreover obtain cs where "scatter buf (p + unat c) (avail - c) ls = Inr cs"
    "unat (avail - c) \<le> sum_list (map unat ls) \<longrightarrow> concat cs = take (unat (avail - c)) (drop (p + unat c) buf)"
    using Cons.IH [of "p + unat c" "avail - c"] Cons.prems u by auto
  moreover have "\<not> 0 < avail \<Longrightarrow> unat avail = 0" by (simp add: word_neq_0_conv [symmetric])
  moreover have "take (unat c) (drop p buf) @ take (unat avail - unat c) (drop (unat c + p) buf) = take (unat avail) (drop p buf)"
    using u(2) by (metis add.commute drop_drop le_add_diff_inverse take_add)
  ultimately show ?case using Cons.prems u c(3) [of "sum_list (map unat ls)"]
    by (auto simp: Let_def ac_simps simp flip: c_def)
qed simp

section \<open>Messages\<close>

lemma close_invalid: "(close_handle NACL_INVALID_HANDLE ^^ k) x = x"
  by (induction k) (simp_all add: close_handle_def)

lemma length_enc_header: "length (enc_header ds) = 16 + (if ds = [] then 0 else pad_len (length (enc_all ds)))"
  using pad_len_bounds(1) [of "length (enc_all ds)"] by (simp add: enc_header_def Let_def)

lemma header_fields:
  shows "take 4 (enc_header ds @ u) = bytes_of NACL_HANDLE_TRANSFER_PROTOCOL"
    and "of_bytes (take 4 (drop 4 (enc_header ds @ u))) = (of_nat (length (enc_header ds) - 16) :: u32)"
    and "ds \<noteq> [] \<Longrightarrow> drop 16 (enc_header ds @ u) = enc_all ds @ 0xff # replicate (pad_len (length (enc_all ds)) - length (enc_all ds) - 1) 0 @ u"
proof -
  have z: "of_bytes (replicate 4 0) = (0 :: u32)" by (simp add: of_bytes_def numeral_eq_Suc)
  show "of_bytes (take 4 (drop 4 (enc_header ds @ u))) = (of_nat (length (enc_header ds) - 16) :: u32)"
    unfolding length_enc_header by (simp add: enc_header_def Let_def z)
qed (simp_all add: enc_header_def Let_def)

lemma recv_descs_header:
  assumes ds: "list_all sendable ds" "length ds \<le> 8" and A: "able A"
  shows "\<exists>x. recv_descs A [] ((kern_handles (all_handles ds))\<lparr>xs_bytes := enc_header ds @ u, next_byte := 16,
      byte_buffer_end := length (enc_header ds)\<rparr>) = Inr (arrive_all A 16 ds, True, x) \<and>
    xs_handles x = replicate (length (all_handles ds)) NACL_INVALID_HANDLE \<and> xs_closed x = []"
    (is "\<exists>x. recv_descs A [] ?x = _ \<and> _")
proof (cases "ds = []")
  case True
  then show ?thesis by (subst recv_descs.simps) (simp add: length_enc_header kern_handles_def all_handles_def)
next
  case False
  have "drop 16 (enc_header ds @ u) = (enc_all ds @ [0xff]) @ replicate (pad_len (length (enc_all ds)) - length (enc_all ds) - 1) 0 @ u"
    using header_fields(3) [OF False] by simp
  then have "take (length (enc_all ds @ [0xff])) (drop 16 (enc_header ds @ u)) = enc_all ds @ [0xff]" by (metis append_eq_conv_conj)
  then have "ahead (enc_all ds @ [0xff]) (all_handles ds) ?x"
    using False pad_len_bounds(1) [of "length (enc_all ds)"] by (simp add: ahead_def kern_handles_def length_enc_header)
  then show ?thesis using recv_descs_ok [OF ds(1) _ A, of "[]" "[]" ?x] ds(2) by (simp add: consumed_def kern_handles_def)
qed

lemma imc_parse_ok:
  assumes ds: "list_all sendable ds" "length ds \<le> 8" and M: "length (enc_header ds) + length u < 2 ^ 31"
    and ls: "length u \<le> sum_list (map unat ls)" "length u \<le> unat user_bytes" and n: "length ds \<le> n" and A: "able A"
  shows "\<exists>cs. concat cs = u \<and> imc_parse A (enc_header ds @ u) (all_handles ds) ls user_bytes n fl =
    Inr \<lparr>rr_retval = of_nat (length u), rr_iov = cs, rr_descs = arrive_all A 16 ds, rr_ndesc_length = length ds, rr_flags = fl, rr_closed = []\<rparr>"
proof -
  obtain m where m: "length (enc_header ds) = 16 + m" by (cases "ds = []") (simp_all add: length_enc_header)
  have dd: "unat (of_nat m :: u32) = m" using M m by (simp add: unat_of_nat take_bit_nat_eq_self)
  have uu: "unat (of_nat (length u) :: u64) = length u" using M by (simp add: unat_of_nat take_bit_nat_eq_self)
  have av: "min_size (of_nat (length u)) user_bytes = of_nat (length u)"
    using ls(2) uu by (auto simp: min_size_def word_less_nat_alt intro: word_unat_eq_iff [THEN iffD2])
  obtain cs where cs: "scatter (enc_header ds @ u) (16 + m) (of_nat (length u)) ls = Inr cs" "concat cs = u"
    using scatter_ok [of "16 + m" "of_nat (length u)" "enc_header ds @ u" ls] ls(1) m by (auto simp: uu)
  obtain x where x: "recv_descs A [] ((kern_handles (all_handles ds))\<lparr>xs_bytes := enc_header ds @ u, next_byte := 16,
      byte_buffer_end := 16 + m\<rparr>) = Inr (arrive_all A 16 ds, True, x)"
    "xs_handles x = replicate (length (all_handles ds)) NACL_INVALID_HANDLE" "xs_closed x = []"
    using recv_descs_header [OF ds A, of u] m by auto
  note hf = header_fields(1,2) [of ds "[]", simplified, unfolded m, simplified]
  show ?thesis using n cs x
    by (simp add: imc_parse_def hf m dd av sizeof_NaClInternalHeader_def Let_def recv_cleanup_def close_invalid)
qed

lemma iov_total_ok:
  "unat n + sum_list (map unat ls) < 2 ^ 64 \<Longrightarrow> \<exists>t. iov_total n ls = Some t \<and> unat t = unat n + sum_list (map unat ls)"
proof (induction ls arbitrary: n)
  case (Cons l ls)
  have "unat (- 1 - l) = 2 ^ 64 - 1 - unat l" using unat_sub [of l "- 1"] by (simp add: unsigned_minus_1_eq_mask mask_eq_exp_minus_1)
  then have "\<not> n > - 1 - l" using Cons.prems by (simp add: word_less_nat_alt)
  moreover have "unat (n + l) = unat n + unat l" using Cons.prems by (simp add: unat_word_ariths)
  ultimately show ?case using Cons.IH [of "n + l"] Cons.prems by (simp add: ac_simps)
qed simp

lemma small_not_errno:
  assumes "n < 2 ^ 31"
  shows "\<not> NaClSSizeIsNegErrno (of_nat n)"
proof
  assume "NaClSSizeIsNegErrno (of_nat n)"
  then have "NOT 0xffff \<le> (of_nat n :: u64)" unfolding NaClSSizeIsNegErrno_def by (metis word_and_le2)
  then show False using assms by (simp add: word_le_nat_alt unat_of_nat take_bit_nat_eq_self)
qed

lemma send_ok:
  assumes ds: "list_all sendable ds" "length ds \<le> 8" and bufs: "length bufs \<le> 256" "length (concat bufs) \<le> 0x20000"
    and M: "length (enc_header ds @ concat bufs) \<le> NACL_ABI_IMC_BYTES_MAX" and A: "able A"
    and send: "send (enc_header ds @ concat bufs) (all_handles ds) 0 = of_nat (length (enc_header ds @ concat bufs))"
  shows "NaClImcSendTypedMessage A send wb NACL_DESC_IMC_SOCKET bufs ds 0 = Inr (of_nat (length (concat bufs)))"
proof -
  let ?h = "enc_header ds" and ?u = "concat bufs"
  have Ml: "length ?h + length ?u \<le> 131320" using M by (simp add: NACL_ABI_IMC_BYTES_MAX_def)
  have e: "length (enc_all ds) < 2 ^ 31 - 32"
    using Ml pad_len_bounds(1) [of "length (enc_all ds)"] by (auto simp: length_enc_header enc_all_def split: if_splits)
  have h: "imc_header A ds = Inr (Inr (?h, all_handles ds))" using imc_header_ok [OF ds e] A by (simp add: able_def)
  have lu: "sum_list (map (unat \<circ> (of_nat \<circ> length :: u8 list \<Rightarrow> u64)) bufs) = length ?u"
    using bufs(2) by (induction bufs) (simp_all add: unat_of_nat take_bit_nat_eq_self)
  then obtain t where t: "iov_total 0 (map (of_nat \<circ> length) bufs) = Some t" "unat t = length ?u"
    using iov_total_ok [of 0 "map (of_nat \<circ> length) bufs"] bufs(2) by auto
  have c: "unat (ucast (of_nat (length ?h + length ?u) :: u64) :: u32) = length ?h + length ?u"
    using Ml by (simp add: unsigned_ucast_eq unat_of_nat take_bit_nat_eq_self del: of_nat_add)
  have neg: "\<not> NaClSSizeIsNegErrno (of_nat (length ?h + length ?u))" using Ml by (intro small_not_errno) simp
  show ?thesis
    using send bufs ds(2) t h c neg
    by (simp add: NaClImcSendTypedMessage_def NACL_ABI_IMC_IOVEC_MAX_def NACL_ABI_IMC_USER_DESC_MAX_def
        NACL_ABI_IMC_USER_BYTES_MAX_def word_less_nat_alt)
qed

lemma recv_ok:
  assumes ds: "list_all sendable ds" "length ds \<le> 8" and u: "length u \<le> 0x20000"
    and M: "length (enc_header ds @ u) \<le> NACL_ABI_IMC_BYTES_MAX"
    and ls: "length ls \<le> 256" "length u \<le> sum_list (map unat ls)" "sum_list (map unat ls) < 2 ^ 64"
    and n: "length ds \<le> n" "n \<le> 8" and A: "able A"
  shows "\<exists>iov. concat iov = u \<and>
    NaClImcRecvTypedMessage A (\<lambda>k fl. (of_nat (length (enc_header ds @ u)), enc_header ds @ u, all_handles ds))
      NACL_DESC_IMC_SOCKET ls n 0 0 =
    Inr \<lparr>rr_retval = of_nat (length u), rr_iov = iov, rr_descs = arrive_all A 16 ds, rr_ndesc_length = length ds, rr_flags = 0, rr_closed = []\<rparr>"
proof -
  have Ml: "length (enc_header ds) + length u \<le> 131320" using M by (simp add: NACL_ABI_IMC_BYTES_MAX_def)
  have neg: "\<not> NaClSSizeIsNegErrno (of_nat (length (enc_header ds) + length u))" using Ml by (intro small_not_errno) simp
  obtain t where t: "iov_total 0 ls = Some t" "unat t = sum_list (map unat ls)"
    using iov_total_ok [of 0 ls] ls(3) by auto
  have m: "length u \<le> unat (min_size t NACL_ABI_IMC_USER_BYTES_MAX)"
    using t(2) ls(2) u by (simp add: min_size_def NACL_ABI_IMC_USER_BYTES_MAX_def)
  obtain iov where iov: "concat iov = u" "imc_parse A (enc_header ds @ u) (all_handles ds) ls (min_size t NACL_ABI_IMC_USER_BYTES_MAX) n 0 =
      Inr \<lparr>rr_retval = of_nat (length u), rr_iov = iov, rr_descs = arrive_all A 16 ds, rr_ndesc_length = length ds, rr_flags = 0, rr_closed = []\<rparr>"
    using imc_parse_ok [OF ds _ ls(2) m n(1) A, of 0] Ml by auto
  then show ?thesis using ls(1) n(2) t neg A
    by (auto simp: NaClImcRecvTypedMessage_def NACL_ABI_IMC_IOVEC_MAX_def NACL_ABI_IMC_USER_DESC_MAX_def able_def)
qed

text \<open>C28: A message carries everything. For any message the interface accepts (at most eight descriptors of
  the kinds that can be transferred, at most 128 KiB of data in at most 256 buffers), the sender gives the
  channel one string of bytes and one list of handles, whatever its memory held before, and reports the
  data as sent; a receiver that is given them, with buffers that are large enough, gets the same
  descriptors in the same order, field by field, and the same data, and closes no handle. One field is not
  in the message: the context of a file, with its key, is on arrival whatever the memory of the new host
  descriptor held.\<close>

theorem message_roundtrip:
  assumes ds: "list_all sendable ds" "length ds \<le> 8" and bufs: "length bufs \<le> 256" "length (concat bufs) \<le> 0x20000"
    and M: "length (enc_header ds @ concat bufs) \<le> NACL_ABI_IMC_BYTES_MAX"
    and ls: "length ls \<le> 256" "length (concat bufs) \<le> sum_list (map unat ls)" "sum_list (map unat ls) < 2 ^ 64"
    and n: "length ds \<le> n" "n \<le> 8" and A: "able A" "able B"
  shows "(\<forall>send wb. send (enc_header ds @ concat bufs) (all_handles ds) 0 = of_nat (length (enc_header ds @ concat bufs)) \<longrightarrow>
       NaClImcSendTypedMessage A send wb NACL_DESC_IMC_SOCKET bufs ds 0 = Inr (of_nat (length (concat bufs)))) \<and>
     (\<exists>iov. concat iov = concat bufs \<and>
       NaClImcRecvTypedMessage B (\<lambda>k fl. (of_nat (length (enc_header ds @ concat bufs)), enc_header ds @ concat bufs, all_handles ds))
         NACL_DESC_IMC_SOCKET ls n 0 0 =
       Inr \<lparr>rr_retval = of_nat (length (concat bufs)), rr_iov = iov, rr_descs = arrive_all B 16 ds, rr_ndesc_length = length ds,
            rr_flags = 0, rr_closed = []\<rparr>)"
  using send_ok [OF ds bufs M A(1)] recv_ok [OF ds bufs(2) M ls n A(2)] by blast

section \<open>Whatever arrives\<close>

text \<open>What holds of a result; the two faults are the ones the code can be made to raise.\<close>

definition sound :: "('a \<Rightarrow> bool) \<Rightarrow> 'a run \<Rightarrow> bool" where
  "sound P r \<longleftrightarrow> (case r of Inl f \<Rightarrow> f \<in> {LogFatal, Uninit} | Inr v \<Rightarrow> P v)"

lemma sound_simps [simp]: "sound P (Inr v) \<longleftrightarrow> P v" "sound P (Inl f) \<longleftrightarrow> f \<in> {LogFatal, Uninit}"
  by (simp_all add: sound_def)

lemma sound_bind: "sound Q r \<Longrightarrow> (\<And>v. Q v \<Longrightarrow> sound P (k v)) \<Longrightarrow> sound P (bindE r k)"
  by (cases r) simp_all

lemma sound_mono: "sound Q r \<Longrightarrow> (\<And>v. Q v \<Longrightarrow> P v) \<Longrightarrow> sound P r"
  by (cases r) simp_all

definition bounded :: "xfer_state \<Rightarrow> bool" where
  "bounded x \<longleftrightarrow> next_byte x \<le> byte_buffer_end x \<and> byte_buffer_end x \<le> length (xs_bytes x) \<and>
     next_handle x \<le> handle_buffer_end x \<and> handle_buffer_end x = length (xs_handles x)"

text \<open>The handles that are somewhere: still in the buffer, closed, or in a descriptor.\<close>

definition real_handles :: "u32 list \<Rightarrow> u32 multiset" where
  "real_handles hs = {#h \<in># mset hs. h \<noteq> NACL_INVALID_HANDLE#}"

definition held :: "xfer_state \<Rightarrow> u32 multiset" where
  "held x = real_handles (xs_handles x) + real_handles (xs_closed x)"

lemma real_handles_simps [simp]:
  "real_handles [] = {#}"
  "real_handles (h # hs) = (if h = NACL_INVALID_HANDLE then {#} else {#h#}) + real_handles hs"
  "real_handles (hs @ hs') = real_handles hs + real_handles hs'"
  by (simp_all add: real_handles_def)

lemma real_handles_upd:
  assumes "i < length hs"
  shows "real_handles hs = (if hs ! i = NACL_INVALID_HANDLE then {#} else {#hs ! i#}) + real_handles (hs[i := NACL_INVALID_HANDLE])"
proof -
  have "real_handles hs = real_handles (take i hs @ hs ! i # drop (Suc i) hs)" using assms by (simp flip: id_take_nth_drop)
  also have "\<dots> = (if hs ! i = NACL_INVALID_HANDLE then {#} else {#hs ! i#}) + real_handles (hs[i := NACL_INVALID_HANDLE])"
    using assms by (simp only: upd_conv_take_nth_drop) simp
  finally show ?thesis .
qed

lemma held_next_byte [simp]: "held (x\<lparr>next_byte := n\<rparr>) = held x"
  by (simp add: held_def)

text \<open>A step leaves the buffers within their ends and keeps the handles, those of \<open>hs\<close> apart.\<close>

definition keeps :: "u32 list \<Rightarrow> xfer_state \<Rightarrow> xfer_state \<Rightarrow> bool" where
  "keeps hs x y \<longleftrightarrow> bounded y \<and> held y + real_handles hs \<subseteq># held x \<and> byte_buffer_end y = byte_buffer_end x"

lemma keeps_refl: "bounded x \<Longrightarrow> keeps [] x x"
  by (simp add: keeps_def)

lemma keeps_trans: "keeps hs x y \<Longrightarrow> keeps hs' y z \<Longrightarrow> keeps (hs @ hs') x z"
proof -
  assume a: "keeps hs x y" "keeps hs' y z"
  then have "(held z + real_handles hs') + real_handles hs \<subseteq># held y + real_handles hs" by (simp add: keeps_def)
  also have "\<dots> \<subseteq># held x" using a by (simp add: keeps_def)
  finally show ?thesis using a by (simp add: keeps_def ac_simps)
qed

lemma get_bytes_sound:
  "bounded x \<Longrightarrow> next_byte x + n \<le> byte_buffer_end x \<Longrightarrow> sound (\<lambda>(bs, y). length bs = n \<and> keeps [] x y \<and>
     next_byte y = next_byte x + n \<and> next_handle y = next_handle x \<and> handle_buffer_end y = handle_buffer_end x) (get_bytes n x)"
  by (auto simp: get_bytes_def keeps_def bounded_def)

lemma take_handle_sound:
  "bounded x \<Longrightarrow> next_handle x \<noteq> handle_buffer_end x \<Longrightarrow>
   sound (\<lambda>(h, y). keeps [h] x y \<and> next_byte y = next_byte x) (take_handle x)"
  using real_handles_upd [of "next_handle x" "xs_handles x"]
  by (auto simp: take_handle_def keeps_def bounded_def held_def)

lemma InternalizeCtor_sound:
  assumes "bounded x"
  shows "sound (\<lambda>(v, y). keeps [] x y \<and> (\<forall>b. v = Some b \<longrightarrow> wf_base b)) (NaClDescInternalizeCtor A x)"
proof -
  have g: "sound (\<lambda>(bs, z). length bs = n \<and> keeps [] x z \<and> next_byte z = next_byte y + n) (get_bytes n y)"
    if "keeps [] x y" "next_byte y + n \<le> byte_buffer_end x" for n y
    using that by (intro sound_mono [OF get_bytes_sound]) (auto simp: keeps_def dest: keeps_trans [OF that(1)])
  show ?thesis
    unfolding NaClDescInternalizeCtor_def Let_def
    using assms
    by (auto split: prod.split simp: keeps_refl wf_base_def NaClDescCtor_def intro!: sound_bind [OF g])
qed

fun out_handles :: "xfer_desc option \<Rightarrow> u32 list" where
  "out_handles None = []"
| "out_handles (Some d) = desc_handles d"

text \<open>What a descriptor that arrived can be: one that could have been sent, with a context that nobody set,
  or a null descriptor.\<close>

definition memory_ctx :: "xfer_env \<Rightarrow> desc_ctx option \<Rightarrow> bool" where
  "memory_ctx A c \<longleftrightarrow> (\<exists>p m. xe_host A p = Some m \<and> c = hd_ctx m)"

lemma memory_ctxI: "xe_host A p = Some m \<Longrightarrow> memory_ctx A (hd_ctx m)"
  by (auto simp: memory_ctx_def)

fun unset_ctx :: "xfer_env \<Rightarrow> xfer_desc \<Rightarrow> bool" where
  "unset_ctx A (DescIo b h) \<longleftrightarrow> memory_ctx A (hd_ctx h)"
| "unset_ctx A d \<longleftrightarrow> True"

definition arrived :: "xfer_env \<Rightarrow> xfer_desc \<Rightarrow> bool" where
  "arrived A d \<longleftrightarrow> sendable d \<and> unset_ctx A d \<or> (\<exists>b. d = DescNull b)"

definition builds :: "xfer_env \<Rightarrow> xfer_state \<Rightarrow> u32 \<times> xfer_desc option \<times> xfer_state \<Rightarrow> bool" where
  "builds A x = (\<lambda>(st, out, y). keeps (out_handles out) x y \<and> pred_option (arrived A) out)"

lemma builds_simp [simp]: "builds A x (st, out, y) \<longleftrightarrow> keeps (out_handles out) x y \<and> pred_option (arrived A) out"
  by (simp add: builds_def)

lemma keeps_bounded: "keeps hs x y \<Longrightarrow> bounded y"
  by (simp add: keeps_def)

lemma keeps_drop: "keeps hs x y \<Longrightarrow> keeps [] x y"
  by (auto simp: keeps_def intro: subset_mset.order_trans [OF mset_subset_eq_add_left])

lemma close_keeps: "keeps [h] x y \<Longrightarrow> keeps [] x (close_handle h y)"
  by (auto simp: keeps_def close_handle_def bounded_def held_def ac_simps)

text \<open>The steps of a constructor, from a state that has kept the handles of \<open>x\<close>.\<close>

lemma ctor_step: "keeps [] x y \<Longrightarrow> (\<And>v z. keeps [] x z \<Longrightarrow> (\<And>b. v = Some b \<Longrightarrow> wf_base b) \<Longrightarrow> sound P (k (v, z))) \<Longrightarrow> sound P (bindE (NaClDescInternalizeCtor A y) k)"
  by (rule sound_bind [OF InternalizeCtor_sound]) (auto simp: keeps_bounded dest: keeps_trans)

lemma byte_step:
  "keeps hs x y \<Longrightarrow> next_byte y + n \<le> byte_buffer_end y \<Longrightarrow>
   (\<And>bs z. keeps hs x z \<Longrightarrow> next_handle z = next_handle y \<Longrightarrow> handle_buffer_end z = handle_buffer_end y \<Longrightarrow> sound P (k (bs, z))) \<Longrightarrow>
   sound P (bindE (get_bytes n y) k)"
  by (rule sound_bind [OF get_bytes_sound]) (auto simp: keeps_bounded dest: keeps_trans)

lemma handle_step:
  "keeps [] x y \<Longrightarrow> next_handle y \<noteq> handle_buffer_end y \<Longrightarrow>
   (\<And>h z. keeps [h] x z \<Longrightarrow> next_byte z = next_byte y \<Longrightarrow> byte_buffer_end z = byte_buffer_end y \<Longrightarrow> sound P (k (h, z))) \<Longrightarrow>
   sound P (bindE (take_handle y) k)"
  by (rule sound_bind [OF take_handle_sound]) (auto simp: keeps_bounded dest: keeps_trans simp: keeps_def)

lemma internalize_sound:
  assumes "i < 19" "NaClDescInternalize ! i = Some f" "bounded x"
  shows "sound (builds A x) (f A x)"
proof -
  note r = keeps_refl [OF assms(3)]
  note steps = ctor_step [of x] byte_step [of _ x] handle_step [of x]
  have "sound (builds A x) (NaClDescConnCapFdInternalize A x)" "sound (builds A x) (NaClDescSyncSocketInternalize A x)"
    "sound (builds A x) (NaClDescXferableDataDescInternalize A x)" "sound (builds A x) (NaClDescInvalidInternalize A x)"
    "sound (builds A x) (NaClDescInternalizeNotImplemented x)" "sound (builds A x) (NaClDescNullInternalize A x)"
    by (auto simp: NaClDescConnCapFdInternalize_def NaClDescSyncSocketInternalize_def NaClDescXferableDataDescInternalize_def
        NaClDescInvalidInternalize_def NaClDescInternalizeNotImplemented_def NaClDescNullInternalize_def NaClDescCtor_def r arrived_def
        intro!: steps split: option.split)
  moreover have "sound (builds A x) (NaClDescImcShmInternalize A x)"
    by (auto simp: NaClDescImcShmInternalize_def r Let_def arrived_def word_sle_eq word_sless_alt intro!: ctor_step [of x] handle_step [of x] byte_step [of "[h]" x for h]
        split: option.split) (assumption, erule keeps_drop, assumption)
  moreover have "sound (builds A x) (NaClDescIoInternalize A x)"
    by (auto simp: NaClDescIoInternalize_def Let_def NaClHostDescPosixTake_def NACL_ABI_EINVAL_def word_sless_alt arrived_def r intro!: steps close_keeps memory_ctxI split: option.split)
  ultimately show ?thesis using assms by (auto simp: NaClDescInternalize_def Let_def less_Suc_eq numeral_eq_Suc)
qed

lemma from_buffer_sound:
  assumes x: "bounded x" "next_byte x < byte_buffer_end x"
  shows "sound (builds A x) (NaClDescInternalizeFromXferBuffer A x)"
proof -
  have t: "sound (\<lambda>(t, y). keeps [] x y) (NaClNrdXferReadTypeTag x)"
    unfolding NaClNrdXferReadTypeTag_def by (rule byte_step [OF keeps_refl]) (use x in auto)
  have b: "sound (builds A x) (bindE (f A y) (\<lambda>(st, out, y). Inr (if st = 0 then 1 else 0, out, y)))"
    if "keeps [] x y" "i < 19" "NaClDescInternalize ! i = Some f" for y i f
    by (rule sound_bind [OF internalize_sound [OF that(2,3) keeps_bounded [OF that(1)]]]) (auto dest: keeps_trans [OF that(1), simplified])
  show ?thesis unfolding NaClDescInternalizeFromXferBuffer_def
    by (rule sound_bind [OF t]) (use b in \<open>auto simp: NACL_DESC_TYPE_MAX_def not_le split: option.split\<close>)
qed

definition gathers :: "xfer_env \<Rightarrow> xfer_desc list \<Rightarrow> xfer_state \<Rightarrow> xfer_desc list \<Rightarrow> xfer_state \<Rightarrow> bool" where
  "gathers A pre x ds y \<longleftrightarrow> (list_all (arrived A) pre \<longrightarrow> list_all (arrived A) ds) \<and> held y + real_handles (all_handles ds) \<subseteq># held x + real_handles (all_handles pre)"

lemma gathers_refl: "gathers A pre x pre x"
  by (simp add: gathers_def)

lemma gathers_keeps: "keeps [] x y \<Longrightarrow> gathers A pre x pre y"
  by (simp add: gathers_def keeps_def)

lemma gathers_step: "arrived A d \<Longrightarrow> keeps (desc_handles d) x y \<Longrightarrow> gathers A (pre @ [d]) y ds z \<Longrightarrow> gathers A pre x ds z"
proof -
  assume d: "arrived A d" and a: "keeps (desc_handles d) x y" and b: "gathers A (pre @ [d]) y ds z"
  have "held y + real_handles (desc_handles d) + real_handles (all_handles pre) \<subseteq># held x + real_handles (all_handles pre)"
    using a by (simp add: keeps_def)
  then have "held y + real_handles (all_handles (pre @ [d])) \<subseteq># held x + real_handles (all_handles pre)"
    by (simp add: all_handles_def ac_simps)
  then have "held z + real_handles (all_handles ds) \<subseteq># held x + real_handles (all_handles pre)"
    using b unfolding gathers_def by (blast intro: subset_mset.order_trans)
  then show ?thesis using b d by (simp add: gathers_def)
qed

lemma recv_descs_sound: "bounded x \<Longrightarrow> sound (\<lambda>(ds, ok, y). gathers A pre x ds y) (recv_descs A pre x)"
proof (induction A pre x rule: recv_descs.induct)
  case (1 A pre x)
  show ?case
  proof (cases "next_byte x < byte_buffer_end x")
    case True
    show ?thesis
    proof (cases "NaClDescInternalizeFromXferBuffer A x")
      case (Inl f)
      then show ?thesis using from_buffer_sound [OF "1.prems" True, of A] True by (subst recv_descs.simps) simp
    next
      case (Inr r)
      obtain st out y where r: "r = (st, out, y)" by (cases r)
      have y: "builds A x (st, out, y)" using from_buffer_sound [OF "1.prems" True, of A] Inr r by simp
      then have k: "gathers A pre x pre y" by (auto intro: gathers_keeps keeps_drop)
      have "sound (\<lambda>(ds, ok, y). gathers A pre x ds y) (recv_descs A (pre @ [d]) y)"
        if "0 \<noteq> st" "\<not> NACL_ABI_IMC_DESC_MAX \<le> length pre" "\<not> 1 \<noteq> st" "out = Some d" for d
        by (rule sound_mono [OF "1.IH" [OF True Inr r [symmetric] refl that]]) (use y that gathers_step [of A d x y pre] keeps_bounded in auto)
      then show ?thesis using k Inr r True by (subst recv_descs.simps) (auto split: option.split)
    qed
  next
    case False
    then show ?thesis by (subst recv_descs.simps) (simp add: gathers_refl)
  qed
qed

lemma held_close [simp]: "held (close_handle h x) = held x + real_handles [h]"
  by (simp add: close_handle_def held_def ac_simps)

lemma drop_descs_sound: "sound (\<lambda>y. held y = held x + real_handles (all_handles ds)) (drop_descs ds x)"
proof (induction ds arbitrary: x)
  case (Cons d ds)
  have "sound (\<lambda>y. held y = held x + real_handles (desc_handles d)) (drop_desc d x)"
    by (cases d) simp_all
  then show ?case by (auto simp: all_handles_def ac_simps intro!: sound_bind [where Q = "\<lambda>y. held y = held x + real_handles (desc_handles d)"]
        sound_mono [OF Cons.IH])
qed (simp add: all_handles_def)

lemma closed_list: "xs_closed (fold close_handle hs x) = xs_closed x @ filter (\<lambda>h. NACL_INVALID_HANDLE \<noteq> h) hs"
  by (induction hs arbitrary: x) (simp_all add: close_handle_def)

lemma closed_all: "real_handles (xs_closed (fold close_handle hs x)) = real_handles (xs_closed x) + real_handles hs"
  by (induction hs arbitrary: x) (simp_all add: close_handle_def)

lemma recv_cleanup_sound:
  "sound (\<lambda>r'. real_handles (rr_closed r') = held x + real_handles (all_handles ds) \<and> rr_descs r' = rr_descs r)
     (recv_cleanup ds x r)"
  unfolding recv_cleanup_def by (rule sound_bind [OF drop_descs_sound]) (simp add: closed_all held_def ac_simps)

lemma held_kern [simp]: "held (kern_handles hs) = real_handles hs"
  by (simp add: held_def kern_handles_def)

definition places :: "xfer_env \<Rightarrow> u32 list \<Rightarrow> nat \<Rightarrow> recv_result \<Rightarrow> bool" where
  "places A hs n r \<longleftrightarrow> real_handles (all_handles (rr_descs r)) + real_handles (rr_closed r) \<subseteq># real_handles hs \<and>
     length (rr_descs r) \<le> n \<and> list_all (arrived A) (rr_descs r)"

lemma failed_places: "rr_descs r = [] \<Longrightarrow> sound (places A hs n) (recv_cleanup [] (kern_handles hs) r)"
  by (rule sound_mono [OF recv_cleanup_sound]) (simp add: places_def all_handles_def)

lemma all_handles_append: "all_handles (ds @ ds') = all_handles ds @ all_handles ds'"
  by (simp add: all_handles_def)

lemma gathered_places:
  assumes "gathers A [] x ds y" "held x = real_handles hs" "ds = delivered @ dropped" "rr_descs r = delivered" "length delivered \<le> n"
  shows "sound (places A hs n) (recv_cleanup dropped y r)"
  using assms by (intro sound_mono [OF recv_cleanup_sound])
    (auto simp: places_def gathers_def all_handles_append ac_simps all_handles_def [of "[]"])

lemma imc_parse_sound:
  assumes "length buf < 2 ^ 64"
  shows "sound (places A hs n) (imc_parse A buf hs iov user_bytes n fl)"
proof -
  define dd where "dd = unat (of_bytes (take 4 (drop 4 buf)) :: u32)"
  define avail where "avail = min_size (of_nat (length buf - dd - 16)) user_bytes"
  define x where "x = (kern_handles hs)\<lparr>xs_bytes := buf, next_byte := 16, byte_buffer_end := 16 + dd\<rparr>"
  have body: "sound (places A hs n) (bindE (scatter buf (16 + dd) avail iov) (\<lambda>copied. bindE (recv_descs A [] x) (\<lambda>(ds, ok, y). k copied ds ok y)))"
    if l: "dd + 16 \<le> length buf" and k: "\<And>copied ds ok y. gathers A [] x ds y \<Longrightarrow> sound (places A hs n) (k copied ds ok y)" for k
  proof -
    have "unat avail \<le> length buf - dd - 16"
      using assms by (auto simp: avail_def min_size_def word_less_nat_alt unat_of_nat take_bit_nat_eq_self)
    then have "p = 16 + dd \<Longrightarrow> p + unat avail \<le> length buf" for p using l by simp
    then obtain cs where cs: "scatter buf (16 + dd) avail iov = Inr cs"
      using scatter_ok [of "16 + dd" avail buf iov] by auto
    have "bounded x" using l by (simp add: x_def bounded_def kern_handles_def)
    then show ?thesis using k by (auto simp: cs intro!: sound_bind [OF recv_descs_sound])
  qed
  have x: "held x = real_handles hs" by (simp add: x_def held_def kern_handles_def)
  show ?thesis
    unfolding imc_parse_def Let_def dd_def [symmetric] sizeof_NaClInternalHeader_def avail_def [symmetric] x_def [symmetric]
    using gathered_places [OF _ x, where delivered = "[]"] gathered_places [OF _ x, where dropped = "[]"]
      gathered_places [OF _ x, where delivered = "take n ds" and dropped = "drop n ds" for ds]
    by (auto simp: failed_places intro!: body)
qed

lemma recv_places:
  assumes "length buf < 2 ^ 64"
  shows "sound (places A hs n) (NaClImcRecvTypedMessage A (\<lambda>k fl. (t, buf, hs)) tag iov n msg_flags flags)"
  using imc_parse_sound [OF assms]
  by (auto simp: NaClImcRecvTypedMessage_def Let_def places_def all_handles_def intro!: failed_places split: option.split)

text \<open>C29: Nothing that arrives can take the receiver outside its buffers, or make it use a handle twice.
  Whatever bytes and handles the channel delivers, to whatever buffers, the receiver reads within
  the message and within the list of handles; the only faults are the abort the code asks for and the use
  of an out parameter that was not set; and when it returns, the handles in the descriptors it gives to
  the caller and those it has closed are, each with its multiplicity, handles that arrived: none is given
  out twice, closed twice, or closed while it is in use. A handle can be in neither place: that of a shared
  memory whose size is negative is taken out of the message and never closed. The receiver gives out at most as many descriptors as the
  caller asked for.\<close>

theorem message_handles_accounted:
  assumes "length buf < 2 ^ 64"
  shows "case NaClImcRecvTypedMessage A (\<lambda>k fl. (t, buf, hs)) tag iov n msg_flags flags of
      Inl f \<Rightarrow> f = LogFatal \<or> f = Uninit
    | Inr r \<Rightarrow> length (rr_descs r) \<le> n \<and>
        {#h \<in># mset (all_handles (rr_descs r) @ rr_closed r). h \<noteq> NACL_INVALID_HANDLE#} \<subseteq># mset hs"
  using recv_places [OF assms, of A hs n t tag iov msg_flags flags]
  by (auto simp: sound_def places_def real_handles_def intro: subset_mset.order_trans [OF _ multiset_filter_subset] split: sum.splits)

text \<open>C30: What a receiver is given is well-formed as far as the message determines it, whatever bytes and
  handles arrived: a descriptor's metadata is there exactly if its flags say so, and has the length it
  records; a file has a mode of access that exists and no flags outside the allowed ones; a shared memory
  has a size that is not negative; the descriptor is of one of the kinds that can be transferred, or null.
  What the message does not determine is not set: the context of a received file, by which it decides
  whether and with which key to encrypt, is the one that happens to be in the memory that was allocated for
  its host descriptor.\<close>

theorem received_descs_well_formed:
  assumes "length buf < 2 ^ 64"
    and "NaClImcRecvTypedMessage A (\<lambda>k fl. (t, buf, hs)) tag iov n msg_flags flags = Inr r"
    and "d \<in> set (rr_descs r)"
  shows "case d of
      DescInvalid \<Rightarrow> True
    | DescIo b h \<Rightarrow> wf_base b \<and> \<not> bad_open_flags (hd_flags h) \<and>
        (\<exists>p m. xe_host A p = Some m \<and> hd_ctx h = hd_ctx m)
    | DescConnCapFd b h \<Rightarrow> wf_base b
    | DescImcShm b h sz \<Rightarrow> wf_base b \<and> 0 \<le>s sz
    | DescSyncSocket b h \<Rightarrow> wf_base b
    | DescXferableData b h \<Rightarrow> wf_base b
    | DescNull b \<Rightarrow> True
    | DescOther k \<Rightarrow> False"
proof -
  have "list_all (arrived A) (rr_descs r)"
    using recv_places [OF assms(1), of A hs n t tag iov msg_flags flags] assms(2) by (simp add: places_def)
  then have "arrived A d" using assms(3) by (simp add: list_all_iff)
  then show ?thesis by (cases d) (simp_all add: arrived_def memory_ctx_def)
qed

text \<open>A message whose descriptors are the \<open>n\<close> bytes \<open>bs\<close>.\<close>

definition desc_message :: "u8 list \<Rightarrow> u8 list \<Rightarrow> u8 list" where
  "desc_message bs u = bytes_of NACL_HANDLE_TRANSFER_PROTOCOL @ bytes_of (of_nat (length bs) :: u32) @ replicate 8 0 @ bs @ u"

definition start :: "u8 list \<Rightarrow> u8 list \<Rightarrow> u32 list \<Rightarrow> xfer_state" where
  "start bs u hs = (kern_handles hs)\<lparr>xs_bytes := desc_message bs u, next_byte := 16, byte_buffer_end := 16 + length bs\<rparr>"

lemma start_simps [simp]: "next_byte (start bs u hs) = 16" "byte_buffer_end (start bs u hs) = 16 + length bs"
  by (simp_all add: start_def)

lemma cleanup_start: "recv_cleanup [] ((start bs u hs)\<lparr>next_byte := k\<rparr>) r = Inr (r\<lparr>rr_closed := filter (\<lambda>h. NACL_INVALID_HANDLE \<noteq> h) hs\<rparr>)"
  by (simp add: recv_cleanup_def closed_list start_def kern_handles_def)

text \<open>What the first byte of the descriptors leads to.\<close>

lemma first_tag:
  "recv_descs A [] (start (t # bs) u hs) =
    (let y = (start (t # bs) u hs)\<lparr>next_byte := 17\<rparr> in
     if t = 0xff then Inr ([], True, y) else if 19 \<le> unat t then Inr ([], False, y)
     else case NaClDescInternalize ! unat t of None \<Rightarrow> Inl LogFatal
     | Some f \<Rightarrow> bindE (f A y) (\<lambda>(st, out, y). if st \<noteq> 0 then Inr ([], True, y)
         else case out of None \<Rightarrow> Inl Uninit | Some d \<Rightarrow> recv_descs A [d] y))"
proof -
  let ?y = "(start (t # bs) u hs)\<lparr>next_byte := 17\<rparr>"
  have g: "NaClNrdXferReadTypeTag (start (t # bs) u hs) = Inr (unat t, ?y)"
    by (simp add: NaClNrdXferReadTypeTag_def get_bytes_def start_def desc_message_def)
  have e: "unat t = 255 \<longleftrightarrow> t = 0xff" by (simp add: word_unat_eq_iff)
  have n: "next_byte (start (t # bs) u hs) < byte_buffer_end (start (t # bs) u hs)" by (simp add: start_def)
  have b: "bindE (bindE m (\<lambda>(st, out, y). Inr (if st = 0 then 1 else 0 :: u32, out, y))) (\<lambda>(st, out, x).
        if st = 0 then Inr ([], True, x) else if NACL_ABI_IMC_DESC_MAX \<le> length ([] :: xfer_desc list) then Inl LogFatal
        else if 1 \<noteq> st then Inr ([], False, x) else case out of None \<Rightarrow> Inl Uninit | Some d \<Rightarrow> recv_descs A ([] @ [d]) x) =
      bindE m (\<lambda>(st, out, y). if st \<noteq> 0 then Inr ([], True, y) else case out of None \<Rightarrow> Inl Uninit | Some d \<Rightarrow> recv_descs A [d] y)"
    for m :: internalized
    by (cases m) (auto simp: NACL_ABI_IMC_DESC_MAX_def split: option.split)
  show ?thesis unfolding recv_descs.simps [of A "[]" "start (t # bs) u hs"] if_P [OF n]
    by (auto simp: NaClDescInternalizeFromXferBuffer_def g e b NACL_DESC_TYPE_END_TAG_def NACL_DESC_TYPE_MAX_def Let_def
        NACL_ABI_IMC_DESC_MAX_def NACL_ABI_EIO_def split: option.split)
qed

lemma parse_message:
  assumes "length bs < 2 ^ 31"
  shows "imc_parse A (desc_message bs u) hs [] ub n fl =
    bindE (recv_descs A [] (start bs u hs)) (\<lambda>(ds, ok, x).
      if ok then recv_cleanup (drop (min n (length ds)) ds) x
        \<lparr>rr_retval = min_size (of_nat (length u)) ub, rr_iov = [], rr_descs = take (min n (length ds)) ds,
         rr_ndesc_length = min n (length ds),
         rr_flags = (if n < length ds then fl OR NACL_ABI_RECVMSG_DESC_TRUNCATED else fl), rr_closed = []\<rparr>
      else recv_cleanup ds x \<lparr>rr_retval = err64 NACL_ABI_EIO, rr_iov = [], rr_descs = [], rr_ndesc_length = n,
         rr_flags = fl, rr_closed = []\<rparr>)"
proof -
  have "unat (of_nat (length bs) :: u32) = length bs" using assms by (simp add: unat_of_nat take_bit_nat_eq_self)
  then show ?thesis
    by (auto simp: imc_parse_def desc_message_def start_def sizeof_NaClInternalHeader_def Let_def min_def
        intro!: arg_cong2 [where f = bindE])
qed

text \<open>What the receiver makes of a descriptor it cannot build. A null descriptor, which the sender
  writes without complaint, aborts it: the table of constructors has no entry for the last tag. A data
  socket cut off after its tag counts as built although no descriptor was stored, and the unset pointer is
  used. A kind that cannot be transferred (here a bound socket) ends the list exactly as the end tag does,
  and the message is reported as received in full. A tag beyond the table is an error.\<close>

theorem unbuildable_descriptors:
  assumes A: "able A"
  shows "(\<exists>h. imc_header A [DescNull b] = Inr (Inr (h, [])) \<and> imc_parse A (h @ u) hs [] ub n fl = Inl LogFatal) \<and>
    imc_parse A (desc_message [13] u) hs [] ub n fl = Inl Uninit \<and>
    imc_parse A (desc_message [5] u) hs [] ub n fl = imc_parse A (desc_message [0xff] u) hs [] ub n fl \<and>
    (\<exists>r. imc_parse A (desc_message [5] u) hs [] ub n fl = Inr r \<and> rr_retval r = min_size (of_nat (length u)) ub \<and> rr_descs r = []) \<and>
    (\<exists>r. imc_parse A (desc_message [19] u) hs [] ub n fl = Inr r \<and> rr_retval r = err64 NACL_ABI_EIO)"
proof -
  have table: "NaClDescInternalize ! 18 = None" "NaClDescInternalize ! 13 = Some NaClDescXferableDataDescInternalize"
    "NaClDescInternalize ! 5 = Some (\<lambda>A. NaClDescInternalizeNotImplemented)"
    by (simp_all add: NaClDescInternalize_def Let_def)
  note parse = parse_message first_tag cleanup_start Let_def
  have w: "(17 AND NOT 0xf :: u64) = 16" by code_simp
  have "imc_header A [DescNull b] = Inr (Inr (desc_message (18 # 0xff # replicate 14 0) [], []))"
    using A w by (simp add: imc_header_def able_def NACL_ABI_SIZE_T_MAX_def sizeof_NaClInternalHeader_def NACL_DESC_TYPE_END_TAG_def
        NACL_ABI_IMC_DESC_MAX_def NaClDescExternalizeToXferBuffer_def NaClNrdXferWriteTypeTag_def put_bytes_def desc_message_def)
  moreover have "imc_parse A (desc_message (18 # 0xff # replicate 14 0) u) hs [] ub n fl = Inl LogFatal"
    using table by (simp add: parse)
  moreover have "desc_message bs [] @ u = desc_message bs u" for bs by (simp add: desc_message_def)
  moreover have "imc_parse A (desc_message [13] u) hs [] ub n fl = Inl Uninit"
    using A table by (simp add: parse NaClDescXferableDataDescInternalize_def able_def NaClDescInternalizeCtor_def NaClDescCtor_def)
  moreover have e: "imc_parse A (desc_message [5] u) hs [] ub n fl = imc_parse A (desc_message [0xff] u) hs [] ub n fl"
    using table by (simp add: parse NaClDescInternalizeNotImplemented_def NACL_ABI_EIO_def)
  moreover have "\<exists>r. imc_parse A (desc_message [0xff] u) hs [] ub n fl = Inr r \<and> rr_retval r = min_size (of_nat (length u)) ub \<and> rr_descs r = []"
    by (simp add: parse)
  moreover have "\<exists>r. imc_parse A (desc_message [19] u) hs [] ub n fl = Inr r \<and> rr_retval r = err64 NACL_ABI_EIO"
    by (simp add: parse)
  ultimately show ?thesis by simp
qed

section \<open>Witnesses\<close>

text \<open>The memory of the host descriptor of the second descriptor below still holds a context with a key.\<close>

definition stale_ctx :: desc_ctx where
  "stale_ctx = \<lparr>sks_key = Some (replicate 64 0x61), sks_key_len = 64, iv = replicate 16 7\<rparr>"

definition sample_xfer :: xfer_env where
  "sample_xfer = \<lparr>xe_malloc = (\<lambda>_. True), xe_mutex = True, xe_new = (\<lambda>_. True),
     xe_host = (\<lambda>p. Some \<lparr>hd_d = 0, hd_flags = 0, hd_ctx = if p = 40 then Some stale_ctx else None\<rparr>), xe_junk = (\<lambda>_. 0xaa)\<rparr>"

definition sample_base :: desc_base where
  "sample_base = \<lparr>bd_flags = 0x11000, metadata_type = 3, metadata_num_bytes = 2, metadata = Some [7, 8]\<rparr>"

lemma able_sample: "able sample_xfer"
  by (simp add: able_def sample_xfer_def)

lemma wf_sample: "wf_base sample_base"
  by (simp add: wf_base_def sample_base_def NACL_DESC_FLAGS_HAS_METADATA_def)

definition sample_descs :: "xfer_desc list" where
  "sample_descs = [DescImcShm sample_base 5 4096, DescIo sample_base \<lparr>hd_d = 6, hd_flags = 2, hd_ctx = None\<rparr>]"

lemma sample_descs:
  "list_all sendable sample_descs" "length sample_descs = 2" "length (enc_header sample_descs) = 64" "all_handles sample_descs = [5, 6]"
  "arrive_all sample_xfer 16 sample_descs =
    [DescImcShm sample_base 5 4096, DescIo sample_base \<lparr>hd_d = 6, hd_flags = 2, hd_ctx = Some stale_ctx\<rparr>]"
proof -
  have "length (enc_all sample_descs) = 42"
    by (simp add: sample_descs_def enc_all_def enc_desc_def enc_base_def sample_base_def NACL_DESC_FLAGS_HAS_METADATA_def)
  then show "length (enc_header sample_descs) = 64" by (simp add: length_enc_header pad_len_def sample_descs_def)
  have "\<not> bad_open_flags 2" by code_simp
  then show "list_all sendable sample_descs" by (simp add: sample_descs_def wf_sample word_sle_eq)
  have "length (enc_base sample_base) = 14"
    by (simp add: enc_base_def sample_base_def NACL_DESC_FLAGS_HAS_METADATA_def)
  then show "arrive_all sample_xfer 16 sample_descs =
    [DescImcShm sample_base 5 4096, DescIo sample_base \<lparr>hd_d = 6, hd_flags = 2, hd_ctx = Some stale_ctx\<rparr>]"
    by (simp add: sample_descs_def enc_desc_def sample_xfer_def)
qed (simp_all add: sample_descs_def all_handles_def)

abbreviation sample_receive :: "recv_result run" where
  "sample_receive \<equiv> NaClImcRecvTypedMessage sample_xfer (\<lambda>k fl. (67, enc_header sample_descs @ [1, 2, 3], [5, 6]))
     NACL_DESC_IMC_SOCKET [2, 10] 8 0 0"

lemma sample_received:
  "\<exists>r. sample_receive = Inr r \<and> rr_descs r = arrive_all sample_xfer 16 sample_descs"
  using recv_ok [of sample_descs "[1, 2, 3]" "[2, 10]" 8 sample_xfer] able_sample
  by (auto simp: sample_descs(1-4) NACL_ABI_IMC_BYTES_MAX_def)

theorem message_roundtrip_witness:
  "\<exists>iov. concat iov = [1, 2, 3] \<and>
     sample_receive = Inr \<lparr>rr_retval = 3, rr_iov = iov,
       rr_descs = [DescImcShm sample_base 5 4096, DescIo sample_base \<lparr>hd_d = 6, hd_flags = 2, hd_ctx = Some stale_ctx\<rparr>],
       rr_ndesc_length = 2, rr_flags = 0, rr_closed = []\<rparr>"
  using message_roundtrip [of sample_descs "[[1, 2], [3]]" "[2, 10]" 8 sample_xfer sample_xfer] able_sample
  by (simp add: sample_descs NACL_ABI_IMC_BYTES_MAX_def)

theorem received_descs_well_formed_witness:
  "\<exists>r b h. sample_receive = Inr r \<and> DescIo b h \<in> set (rr_descs r) \<and> wf_base b \<and> \<not> bad_open_flags (hd_flags h) \<and>
     (\<exists>p m. xe_host sample_xfer p = Some m \<and> hd_ctx h = hd_ctx m)"
proof -
  obtain r where r: "sample_receive = Inr r" "rr_descs r = arrive_all sample_xfer 16 sample_descs"
    using sample_received by blast
  let ?h = "\<lparr>hd_d = 6, hd_flags = 2, hd_ctx = Some stale_ctx\<rparr>"
  have d: "DescIo sample_base ?h \<in> set (rr_descs r)" unfolding r(2) sample_descs(5) by simp
  show ?thesis using received_descs_well_formed [OF _ r(1) d] r(1) d by (fastforce simp: sample_descs(3))
qed

theorem message_handles_accounted_witness:
  "case NaClImcRecvTypedMessage sample_xfer (\<lambda>k fl. (9, [1, 2, 3], [4, 5])) 14 [] 8 0 0 of
      Inl f \<Rightarrow> f = LogFatal \<or> f = Uninit
    | Inr r \<Rightarrow> length (rr_descs r) \<le> 8 \<and>
        {#h \<in># mset (all_handles (rr_descs r) @ rr_closed r). h \<noteq> NACL_INVALID_HANDLE#} \<subseteq># mset [4, 5]"
  by (rule message_handles_accounted) simp

theorem unbuildable_descriptors_witness:
  "imc_parse sample_xfer (desc_message [13] [1, 2]) [] [] 2 8 0 = Inl Uninit"
  using unbuildable_descriptors [OF able_sample, of sample_base "[1, 2]" "[]" 2 8 0] by simp

end
