(* ===== verification/Locks.thy ===== *)
theory Locks
  imports SyncChecked
begin

text \<open>
  Locks and condition variables inside the enclave (\<open>shared/platform/sgx/lock.c\<close>,
  \<open>condition_variable.c\<close>, \<open>nacl_fast_mutex.c\<close>, called through \<open>SyncChecked\<close>), with any
  number of threads.

  One mutex and one condition variable are shared. The calls are cut into their accesses to shared memory:
  a program point is where a thread stands between two of them, and \<open>sync_access\<close> is the access it makes
  next. A thread is at \<open>Outside\<close> or \<open>Inside\<close> when it runs its own code without or with the mutex. The
  exchanges of \<open>gatomic.h\<close> return the old value, as their comments say.

  What a futex call does depends on where the word is. \<open>ocall_futex\<close> refuses an address inside the enclave
  and returns at once (\<open>Refused\<close>): nobody sleeps, and a thread that waits takes the next exchange. For a word outside, the
  host serves the call: as a futex (\<open>Served\<close>) it puts a thread to sleep exactly if the word has the expected
  value, and wakes sleepers only when it is told to; a \<open>Hostile\<close> host may let any of these calls return at
  any time and wake nobody. The timeout that a broadcast passes is an address, \<open>INT_MAX\<close>, which a served
  call reads; the read is taken to succeed, and the result to be large enough for all waiters to be requeued.
\<close>

section \<open>Shared memory\<close>

record sync_mem =
  mutex_mu :: u32
  cv_mu :: u32
  cv_seq :: u32

definition MUTEX_SPINLOCK_TIMES :: nat where "MUTEX_SPINLOCK_TIMES = 100"
definition MUTEX_UNLOCKED :: u32 where [simp]: "MUTEX_UNLOCKED = 0"
definition MUTEX_LOCKED :: u32 where [simp]: "MUTEX_LOCKED = 1"
definition MUTEX_CONTENDED :: u32 where [simp]: "MUTEX_CONTENDED = 2"

text \<open>The result is the old value and the new contents of the word.\<close>

definition icmpxchg :: "u32 \<Rightarrow> u32 \<Rightarrow> u32 \<Rightarrow> u32 \<times> u32" where [simp]:
  "icmpxchg p t s = (p, if p = t then s else p)"

text \<open>The operands of this instruction do not say that the register of \<open>s\<close> receives the old value, which the
  function returns from \<open>eax\<close>: the two are the same only if the compiler puts \<open>s\<close> into \<open>eax\<close>, as it may and,
  with the one register being the result, usually does. The model assumes it; in a build where it does not
  hold, a mutex excludes nobody.\<close>

definition ixchg :: "u32 \<Rightarrow> u32 \<Rightarrow> u32 \<times> u32" where [simp]:
  "ixchg p s = (p, s)"

text \<open>The memory operand of the addition is \<open>v\<close>, the parameter that holds the address, and not \<open>*v\<close>: the
  instruction adds to the copy of the address and leaves the word as it is.\<close>

definition iatomic_add :: "u32 \<Rightarrow> u32 \<Rightarrow> u32" where [simp]:
  "iatomic_add i v = v"

section \<open>Program points\<close>

text \<open>An unlock is a call of its own or the first half of a wait, which then goes on with the value of
  \<open>seq\<close> it has read. The boolean of a signal or broadcast is whether the thread has the mutex.\<close>

datatype unlock_for = Caller | Waiting u32

datatype sync_pc =
    Outside | Inside
  | LockSpin nat | LockMark | LockWait | LockAsleep | LockTake
  | UnlockTest unlock_for | UnlockStore unlock_for | UnlockXchg unlock_for
  | UnlockSpin nat unlock_for | UnlockCas nat unlock_for | UnlockWake unlock_for
  | WaitSeq | WaitTest u32 | WaitRead u32 | WaitCas u32 u32 | WaitCompare u32 | WaitCompared u32 u32
  | WaitSleep u32 | WaitAsleep | WaitRequeued
  | SignalAdd bool | SignalWake bool
  | BroadcastTest bool | BroadcastAdd bool | BroadcastRequeue bool

text \<open>The first program point of each call.\<close>

definition NaClMutexLock :: sync_pc where "NaClMutexLock = LockSpin 0"
definition NaClMutexUnlock :: "unlock_for \<Rightarrow> sync_pc" where "NaClMutexUnlock k = UnlockTest k"
definition NaClCondVarWait :: sync_pc where "NaClCondVarWait = WaitSeq"
definition NaClCondVarSignal :: "bool \<Rightarrow> sync_pc" where "NaClCondVarSignal h = SignalAdd h"
definition NaClCondVarBroadcast :: "bool \<Rightarrow> sync_pc" where "NaClCondVarBroadcast h = BroadcastTest h"

text \<open>The fast mutex is the mutex.\<close>

definition NaClFastMutexLock :: sync_pc where "NaClFastMutexLock = NaClMutexLock"
definition NaClFastMutexUnlock :: sync_pc where "NaClFastMutexUnlock = NaClMutexUnlock Caller"

text \<open>The destructor of the mutex unlocks it. The checked try-lock calls the unlock, too.\<close>

definition NaClMutexDtor :: sync_pc where "NaClMutexDtor = NaClMutexUnlock Caller"
definition NaClXMutexTryLock :: sync_pc where "NaClXMutexTryLock = NaClMutexUnlock Caller"

definition NaClMutexCtor :: "sync_mem \<Rightarrow> bool \<times> sync_mem" where
  "NaClMutexCtor m = (True, m\<lparr>mutex_mu := 0\<rparr>)"

definition NaClCondVarCtor :: "sync_mem \<Rightarrow> bool \<times> sync_mem" where
  "NaClCondVarCtor m = (True, m\<lparr>cv_mu := 0, cv_seq := 0\<rparr>)"

text \<open>The waits with a time limit do nothing.\<close>

definition NaClCondVarTimedWaitRelative :: "sync_mem \<Rightarrow> u64 \<times> u64 \<Rightarrow> sync_status \<times> sync_mem" where
  "NaClCondVarTimedWaitRelative m reltime = (NACL_SYNC_CONDVAR_TIMEDOUT, m)"

definition NaClCondVarTimedWaitAbsolute :: "sync_mem \<Rightarrow> u64 \<times> u64 \<Rightarrow> sync_status \<times> sync_mem" where
  "NaClCondVarTimedWaitAbsolute m abstime = (NACL_SYNC_CONDVAR_TIMEDOUT, m)"

section \<open>Accesses\<close>

text \<open>Where a thread is after an unlock, and after a call that leaves the mutex as it was; the status is
  that of a call which ends here.\<close>

definition unlocked :: "unlock_for \<Rightarrow> sync_pc \<times> sync_status option" where
  "unlocked k = (case k of Caller \<Rightarrow> (Outside, Some NACL_SYNC_OK) | Waiting seq \<Rightarrow> (WaitSleep seq, None))"

definition at_home :: "bool \<Rightarrow> sync_pc" where
  "at_home h = (if h then Inside else Outside)"

definition MutexLock_access :: "sync_mem \<Rightarrow> sync_pc \<Rightarrow> (sync_mem \<times> sync_pc \<times> sync_status option) option" where
  "MutexLock_access m pc = (case pc of
       LockSpin i \<Rightarrow>
         (case icmpxchg (mutex_mu m) MUTEX_UNLOCKED MUTEX_LOCKED of (c, mu) \<Rightarrow>
            let m = m\<lparr>mutex_mu := mu\<rparr> in
            if c = MUTEX_UNLOCKED then Some (m, Inside, Some NACL_SYNC_OK)
            else if i + 1 < MUTEX_SPINLOCK_TIMES then Some (m, LockSpin (i + 1), None)
            else if c = MUTEX_LOCKED then Some (m, LockMark, None)
            else Some (m, LockWait, None))
     | LockMark \<Rightarrow>
         (case ixchg (mutex_mu m) MUTEX_CONTENDED of (c, mu) \<Rightarrow>
            Some (m\<lparr>mutex_mu := mu\<rparr>, if c \<noteq> 0 then (LockWait, None) else (Inside, Some NACL_SYNC_OK)))
     | LockTake \<Rightarrow>
         (case ixchg (mutex_mu m) MUTEX_CONTENDED of (c, mu) \<Rightarrow>
            Some (m\<lparr>mutex_mu := mu\<rparr>, if c \<noteq> 0 then (LockWait, None) else (Inside, Some NACL_SYNC_OK)))
     | _ \<Rightarrow> None)"

definition MutexUnlock_access :: "sync_mem \<Rightarrow> sync_pc \<Rightarrow> (sync_mem \<times> sync_pc \<times> sync_status option) option" where
  "MutexUnlock_access m pc = (case pc of
       UnlockTest k \<Rightarrow>
         Some (m, if mutex_mu m = MUTEX_CONTENDED then UnlockStore k else UnlockXchg k, None)
     | UnlockStore k \<Rightarrow> Some (m\<lparr>mutex_mu := MUTEX_UNLOCKED\<rparr>, UnlockSpin 0 k, None)
     | UnlockXchg k \<Rightarrow>
         (case ixchg (mutex_mu m) MUTEX_UNLOCKED of (c, mu) \<Rightarrow>
            Some (m\<lparr>mutex_mu := mu\<rparr>, if c = MUTEX_LOCKED then unlocked k else (UnlockSpin 0 k, None)))
     | UnlockSpin i k \<Rightarrow>
         Some (m, if mutex_mu m \<noteq> 0 then UnlockCas i k
                  else if i + 1 < MUTEX_SPINLOCK_TIMES * 2 then UnlockSpin (i + 1) k else UnlockWake k, None)
     | UnlockCas i k \<Rightarrow>
         (case icmpxchg (mutex_mu m) MUTEX_LOCKED MUTEX_CONTENDED of (c, mu) \<Rightarrow>
            Some (m\<lparr>mutex_mu := mu\<rparr>,
                  if c \<noteq> 0 then unlocked k
                  else (if i + 1 < MUTEX_SPINLOCK_TIMES * 2 then UnlockSpin (i + 1) k else UnlockWake k, None)))
     | _ \<Rightarrow> None)"

text \<open>The wait compares the value of the mutex with the word in the condition variable, where the code
  it was made from keeps a pointer to the mutex.\<close>

definition CondVarWait_access :: "sync_mem \<Rightarrow> sync_pc \<Rightarrow> (sync_mem \<times> sync_pc \<times> sync_status option) option" where
  "CondVarWait_access m pc = (case pc of
       WaitSeq \<Rightarrow> Some (m, WaitTest (cv_seq m), None)
     | WaitTest seq \<Rightarrow>
         if cv_mu m \<noteq> 0 then Some (m, Inside, Some NACL_SYNC_MUTEX_INVALID) else Some (m, WaitRead seq, None)
     | WaitRead seq \<Rightarrow> Some (m, WaitCas seq (mutex_mu m), None)
     | WaitCas seq v \<Rightarrow>
         (case icmpxchg (cv_mu m) 0 v of (_, mu) \<Rightarrow> Some (m\<lparr>cv_mu := mu\<rparr>, WaitCompare seq, None))
     | WaitCompare seq \<Rightarrow> Some (m, WaitCompared seq (cv_mu m), None)
     | WaitCompared seq v \<Rightarrow>
         if v \<noteq> mutex_mu m then Some (m, Inside, Some NACL_SYNC_INTERNAL_ERROR)
         else Some (m, NaClMutexUnlock (Waiting seq), None)
     | _ \<Rightarrow> None)"

definition CondVarSignal_access :: "sync_mem \<Rightarrow> sync_pc \<Rightarrow> (sync_mem \<times> sync_pc \<times> sync_status option) option" where
  "CondVarSignal_access m pc = (case pc of
       SignalAdd h \<Rightarrow> Some (m\<lparr>cv_seq := iatomic_add 1 (cv_seq m)\<rparr>, SignalWake h, None)
     | _ \<Rightarrow> None)"

definition CondVarBroadcast_access :: "sync_mem \<Rightarrow> sync_pc \<Rightarrow> (sync_mem \<times> sync_pc \<times> sync_status option) option" where
  "CondVarBroadcast_access m pc = (case pc of
       BroadcastTest h \<Rightarrow>
         Some (m, if cv_mu m = 0 then (at_home h, Some NACL_SYNC_OK) else (BroadcastAdd h, None))
     | BroadcastAdd h \<Rightarrow> Some (m\<lparr>cv_seq := iatomic_add 1 (cv_seq m)\<rparr>, BroadcastRequeue h, None)
     | _ \<Rightarrow> None)"

text \<open>The programs have no program point in common.\<close>

definition sync_access :: "sync_mem \<Rightarrow> sync_pc \<Rightarrow> (sync_mem \<times> sync_pc \<times> sync_status option) option" where
  "sync_access m pc = (case MutexLock_access m pc of Some r \<Rightarrow> Some r
     | None \<Rightarrow> (case MutexUnlock_access m pc of Some r \<Rightarrow> Some r
     | None \<Rightarrow> (case CondVarWait_access m pc of Some r \<Rightarrow> Some r
     | None \<Rightarrow> (case CondVarSignal_access m pc of Some r \<Rightarrow> Some r
     | None \<Rightarrow> CondVarBroadcast_access m pc))))"

lemmas access_defs = sync_access_def MutexLock_access_def MutexUnlock_access_def CondVarWait_access_def
  CondVarSignal_access_def CondVarBroadcast_access_def unlocked_def at_home_def NaClMutexUnlock_def

section \<open>Threads\<close>

record sync_state =
  sync_mem :: sync_mem
  pc :: "nat \<Rightarrow> sync_pc"
  status :: "nat \<Rightarrow> sync_status option"

definition goto :: "nat \<Rightarrow> sync_pc \<Rightarrow> sync_state \<Rightarrow> sync_state" where
  "goto t p s = s\<lparr>pc := (pc s)(t := p)\<rparr>"

definition report :: "nat \<Rightarrow> sync_status option \<Rightarrow> sync_state \<Rightarrow> sync_state" where
  "report t r s = (case r of None \<Rightarrow> s | Some c \<Rightarrow> s\<lparr>status := (status s)(t := Some c)\<rparr>)"

text \<open>The calls a program that keeps to the protocol makes: it locks when it does not have the mutex,
  and unlocks and waits when it has.\<close>

inductive sync_call :: "sync_pc \<Rightarrow> sync_pc \<Rightarrow> bool" where
  call_lock: "sync_call Outside NaClMutexLock"
| call_unlock: "sync_call Inside (NaClMutexUnlock Caller)"
| call_wait: "sync_call Inside NaClCondVarWait"
| call_signal: "sync_call (at_home h) (NaClCondVarSignal h)"
| call_broadcast: "sync_call (at_home h) (NaClCondVarBroadcast h)"

datatype futex_host = Refused | Served | Hostile

text \<open>A step inside a call.\<close>

inductive sync_step :: "futex_host \<Rightarrow> sync_state \<Rightarrow> sync_state \<Rightarrow> bool" for host where
  access: "sync_access (sync_mem s) (pc s t) = Some (m, p, r) \<Longrightarrow>
     sync_step host s (report t r (goto t p (s\<lparr>sync_mem := m\<rparr>)))"
| lock_sleeps: "pc s t = LockWait \<Longrightarrow> host \<noteq> Refused \<Longrightarrow> mutex_mu (sync_mem s) = 2 \<Longrightarrow> sync_step host s (goto t LockAsleep s)"
| lock_no_sleep: "pc s t = LockWait \<Longrightarrow> host \<noteq> Served \<or> mutex_mu (sync_mem s) \<noteq> 2 \<Longrightarrow> sync_step host s (goto t LockTake s)"
| wait_sleeps: "pc s t = WaitSleep q \<Longrightarrow> host \<noteq> Refused \<Longrightarrow> cv_seq (sync_mem s) = q \<Longrightarrow> sync_step host s (goto t WaitAsleep s)"
| wait_no_sleep: "pc s t = WaitSleep q \<Longrightarrow> host \<noteq> Served \<or> cv_seq (sync_mem s) \<noteq> q \<Longrightarrow> sync_step host s (goto t LockTake s)"
| unlock_wakes: "pc s t = UnlockWake k \<Longrightarrow> pc s w = LockAsleep \<Longrightarrow> unlocked k = (p, r) \<Longrightarrow>
     sync_step host s (report t r (goto w LockTake (goto t p s)))"
| unlock_wakes_none: "pc s t = UnlockWake k \<Longrightarrow> host = Hostile \<or> (\<forall>w. pc s w \<noteq> LockAsleep) \<Longrightarrow> unlocked k = (p, r) \<Longrightarrow>
     sync_step host s (report t r (goto t p s))"
| signal_wakes: "pc s t = SignalWake h \<Longrightarrow> pc s w = WaitAsleep \<Longrightarrow>
     sync_step host s (report t (Some NACL_SYNC_OK) (goto w LockTake (goto t (at_home h) s)))"
| signal_wakes_none: "pc s t = SignalWake h \<Longrightarrow> host = Hostile \<or> (\<forall>w. pc s w \<noteq> WaitAsleep) \<Longrightarrow>
     sync_step host s (report t (Some NACL_SYNC_OK) (goto t (at_home h) s))"
| broadcast_wakes: "pc s t = BroadcastRequeue h \<Longrightarrow> pc s w = WaitAsleep \<Longrightarrow>
     sync_step host s (report t (Some NACL_SYNC_OK) (goto w LockTake (goto t (at_home h)
       (s\<lparr>pc := (\<lambda>v. if pc s v = WaitAsleep then WaitRequeued else pc s v)\<rparr>))))"
| broadcast_wakes_none: "pc s t = BroadcastRequeue h \<Longrightarrow> host = Hostile \<or> (\<forall>w. pc s w \<noteq> WaitAsleep) \<Longrightarrow>
     sync_step host s (report t (Some NACL_SYNC_OK) (goto t (at_home h) s))"
| wakes_up: "host = Hostile \<Longrightarrow> pc s t \<in> {LockAsleep, WaitAsleep, WaitRequeued} \<Longrightarrow> sync_step host s (goto t LockTake s)"

inductive sync_run :: "futex_host \<Rightarrow> sync_state \<Rightarrow> sync_state \<Rightarrow> bool" for host where
  run_refl: "sync_run host s s"
| run_call: "sync_run host s s' \<Longrightarrow> sync_call (pc s' t) p \<Longrightarrow> sync_run host s (goto t p s')"
| run_step: "sync_run host s s' \<Longrightarrow> sync_step host s' s'' \<Longrightarrow> sync_run host s s''"

definition sync_init :: sync_state where
  "sync_init = \<lparr>sync_mem = snd (NaClCondVarCtor (snd (NaClMutexCtor \<lparr>mutex_mu = 0, cv_mu = 0, cv_seq = 0\<rparr>))),
     pc = (\<lambda>_. Outside), status = (\<lambda>_. None)\<rparr>"

end
