(* ===== verification/LockProps.thy ===== *)
theory LockProps
  imports Locks
begin

text \<open>
  The mutex excludes whatever the host does, and an honest host's sleepers are not forgotten; the
  condition variable serves one wait in its life.
\<close>

section \<open>Who has the mutex\<close>

fun has_mutex :: "sync_pc \<Rightarrow> bool" where
  "has_mutex Inside \<longleftrightarrow> True"
| "has_mutex (UnlockTest k) \<longleftrightarrow> True"
| "has_mutex (UnlockStore k) \<longleftrightarrow> True"
| "has_mutex (UnlockXchg k) \<longleftrightarrow> True"
| "has_mutex WaitSeq \<longleftrightarrow> True"
| "has_mutex (WaitTest q) \<longleftrightarrow> True"
| "has_mutex (WaitRead q) \<longleftrightarrow> True"
| "has_mutex (WaitCas q v) \<longleftrightarrow> True"
| "has_mutex (WaitCompare q) \<longleftrightarrow> True"
| "has_mutex (WaitCompared q v) \<longleftrightarrow> True"
| "has_mutex (SignalAdd h) \<longleftrightarrow> h"
| "has_mutex (SignalWake h) \<longleftrightarrow> h"
| "has_mutex (BroadcastTest h) \<longleftrightarrow> h"
| "has_mutex (BroadcastAdd h) \<longleftrightarrow> h"
| "has_mutex (BroadcastRequeue h) \<longleftrightarrow> h"
| "has_mutex _ \<longleftrightarrow> False"

lemma has_mutex_home [simp]: "has_mutex (at_home h) \<longleftrightarrow> h" "at_home h \<noteq> UnlockStore k"
  by (simp_all add: at_home_def)

lemma has_mutex_unlocked: "unlocked k = (p, r) \<Longrightarrow> \<not> has_mutex p \<and> (\<forall>k. p \<noteq> UnlockStore k)"
  by (auto simp: unlocked_def split: unlock_for.splits)

text \<open>What an access can do to the mutex: nothing, take it, release it, or mark it as contended.\<close>

lemma access_mutex:
  assumes "sync_access m p = Some (m', p', r)" and mu: "mutex_mu m \<in> {0, 1, 2}"
    and h: "has_mutex p \<longrightarrow> mutex_mu m \<noteq> 0" "\<forall>k. p = UnlockStore k \<longrightarrow> mutex_mu m = 2"
  shows "mutex_mu m' \<in> {0, 1, 2} \<and> (\<forall>k. p' = UnlockStore k \<longrightarrow> mutex_mu m' = 2) \<and>
    (has_mutex p \<and> has_mutex p' \<and> mutex_mu m' = mutex_mu m \<or>
     has_mutex p \<and> \<not> has_mutex p' \<and> mutex_mu m' = 0 \<or>
     \<not> has_mutex p \<and> has_mutex p' \<and> mutex_mu m = 0 \<and> mutex_mu m' \<noteq> 0 \<or>
     \<not> has_mutex p \<and> \<not> has_mutex p' \<and> (mutex_mu m' = 0 \<longleftrightarrow> mutex_mu m = 0) \<and> (mutex_mu m = 2 \<longrightarrow> mutex_mu m' = 2))"
  using assms by (cases p) (auto simp: access_defs Let_def split: if_splits unlock_for.splits)

definition mutex_inv :: "sync_state \<Rightarrow> bool" where
  "mutex_inv s \<longleftrightarrow> mutex_mu (sync_mem s) \<in> {0, 1, 2} \<and>
     (\<forall>t t'. has_mutex (pc s t) \<and> has_mutex (pc s t') \<longrightarrow> t = t') \<and>
     (mutex_mu (sync_mem s) = 0 \<longleftrightarrow> (\<forall>t. \<not> has_mutex (pc s t))) \<and>
     (\<forall>t k. pc s t = UnlockStore k \<longrightarrow> mutex_mu (sync_mem s) = 2)"

lemma mutex_values: "mutex_inv s \<Longrightarrow> mutex_mu (sync_mem s) \<in> {0, 1, 2}"
  unfolding mutex_inv_def by blast

lemma mutex_free: "mutex_inv s \<Longrightarrow> mutex_mu (sync_mem s) = 0 \<Longrightarrow> \<not> has_mutex (pc s t)"
  unfolding mutex_inv_def by blast

lemma goto_sel [simp]: "sync_mem (goto t p s) = sync_mem s" "pc (goto t p s) = (pc s)(t := p)"
  by (simp_all add: goto_def)

lemma report_sel [simp]: "sync_mem (report t r s) = sync_mem s" "pc (report t r s) = pc s"
  by (simp_all add: report_def split: option.split)

text \<open>A thread moves between two points of which both or neither have the mutex.\<close>

lemma mutex_inv_move:
  assumes "mutex_inv s" "sync_mem s' = sync_mem s" "\<And>t. has_mutex (pc s' t) = has_mutex (pc s t)"
    "\<And>t k. pc s' t = UnlockStore k \<Longrightarrow> pc s t = UnlockStore k"
  shows "mutex_inv s'"
  using assms(1,4) unfolding mutex_inv_def assms(2,3) by blast

lemma one_moves:
  assumes one: "\<And>v v'. H v \<Longrightarrow> H v' \<Longrightarrow> v = v'" and z: "z \<longleftrightarrow> (\<forall>v. \<not> H v)"
    and c: "H t \<and> b \<and> z' = z \<or> H t \<and> \<not> b \<and> z' \<or> \<not> H t \<and> b \<and> z \<and> \<not> z' \<or> \<not> H t \<and> \<not> b \<and> z' = z"
  shows "(\<forall>v v'. (if v = t then b else H v) \<and> (if v' = t then b else H v') \<longrightarrow> v = v') \<and>
    (z' \<longleftrightarrow> (\<forall>v. \<not> (if v = t then b else H v)))"
  using c
proof (elim disjE conjE)
  assume "H t" "\<not> b" z'
  then show ?thesis using one [of _ t] one by auto
next
  assume "\<not> H t" b z "\<not> z'"
  then show ?thesis using z by auto
next
  assume "H t" b "z' = z"
  then show ?thesis using one z by (metis (full_types))
next
  assume "\<not> H t" "\<not> b" "z' = z"
  then show ?thesis using one z by (metis (full_types))
qed

lemma mutex_inv_access:
  assumes inv: "mutex_inv s" and a: "sync_access (sync_mem s) (pc s t) = Some (m, p, r)"
  shows "mutex_inv (report t r (goto t p (s\<lparr>sync_mem := m\<rparr>)))"
proof -
  have i: "mutex_mu (sync_mem s) \<in> {0, 1, 2}" "\<forall>v v'. has_mutex (pc s v) \<and> has_mutex (pc s v') \<longrightarrow> v = v'"
    "mutex_mu (sync_mem s) = 0 \<longleftrightarrow> (\<forall>v. \<not> has_mutex (pc s v))" "\<forall>v k. pc s v = UnlockStore k \<longrightarrow> mutex_mu (sync_mem s) = 2"
    using inv unfolding mutex_inv_def by blast+
  have c: "mutex_mu m \<in> {0, 1, 2} \<and> (\<forall>k. p = UnlockStore k \<longrightarrow> mutex_mu m = 2) \<and>
    (has_mutex (pc s t) \<and> has_mutex p \<and> mutex_mu m = mutex_mu (sync_mem s) \<or>
     has_mutex (pc s t) \<and> \<not> has_mutex p \<and> mutex_mu m = 0 \<or>
     \<not> has_mutex (pc s t) \<and> has_mutex p \<and> mutex_mu (sync_mem s) = 0 \<and> mutex_mu m \<noteq> 0 \<or>
     \<not> has_mutex (pc s t) \<and> \<not> has_mutex p \<and> (mutex_mu m = 0 \<longleftrightarrow> mutex_mu (sync_mem s) = 0) \<and>
       (mutex_mu (sync_mem s) = 2 \<longrightarrow> mutex_mu m = 2))" (is "_ \<and> ?st \<and> ?c")
    by (rule access_mutex [OF a i(1)]) (use i in blast)+
  have st: "has_mutex (pc s v)" if "pc s v = UnlockStore k" for v k using that by simp
  have has: "has_mutex (((pc s)(t := p)) v) = (if v = t then has_mutex p else has_mutex (pc s v))" for v by simp
  have "(\<forall>v v'. has_mutex (((pc s)(t := p)) v) \<and> has_mutex (((pc s)(t := p)) v') \<longrightarrow> v = v') \<and>
      (mutex_mu m = 0 \<longleftrightarrow> (\<forall>v. \<not> has_mutex (((pc s)(t := p)) v)))"
    unfolding has by (rule one_moves) (use i(2) in blast, use i(3) in blast, use c in auto)
  moreover have "mutex_mu m = 2" if "((pc s)(t := p)) v = UnlockStore k" for v k
  proof (cases "v = t")
    case True
    then show ?thesis using that c by simp
  next
    case False
    then have v: "pc s v = UnlockStore k" using that by simp
    then have "mutex_mu (sync_mem s) = 2" using i(4) by blast
    moreover have "\<not> has_mutex (pc s t)" using i(2) st [OF v] False by blast
    ultimately show ?thesis using c by auto
  qed
  moreover have "sync_mem (report t r (goto t p (s\<lparr>sync_mem := m\<rparr>))) = m"
    "pc (report t r (goto t p (s\<lparr>sync_mem := m\<rparr>))) = (pc s)(t := p)" by simp_all
  ultimately show ?thesis unfolding mutex_inv_def using c by (metis (no_types))
qed

lemma mutex_inv_step:
  assumes "sync_step host s s'" "mutex_inv s"
  shows "mutex_inv s'"
  using assms
proof (cases rule: sync_step.cases)
  case (access t m p r)
  then show ?thesis using mutex_inv_access assms(2) by simp
qed (auto elim!: mutex_inv_move dest: has_mutex_unlocked split: if_splits)

lemma mutex_inv_init: "mutex_inv sync_init"
  by (simp add: mutex_inv_def sync_init_def NaClMutexCtor_def NaClCondVarCtor_def)

lemma call_has: "sync_call p q \<Longrightarrow> has_mutex q = has_mutex p \<and> (\<forall>k. q \<noteq> UnlockStore k)"
  by (auto simp: NaClMutexLock_def NaClMutexUnlock_def NaClCondVarWait_def NaClCondVarSignal_def NaClCondVarBroadcast_def
      elim!: sync_call.cases)

lemma mutex_inv_call: "mutex_inv s \<Longrightarrow> sync_call (pc s t) p \<Longrightarrow> mutex_inv (goto t p s)"
  using call_has [of "pc s t" p] by (auto elim!: mutex_inv_move split: if_splits)

lemma mutex_inv_run: "sync_run host s s' \<Longrightarrow> mutex_inv s \<Longrightarrow> mutex_inv s'"
  by (induction rule: sync_run.induct) (auto intro: mutex_inv_step mutex_inv_call)

section \<open>Sleepers\<close>

text \<open>The points from which a thread goes on to wake a sleeper, or to mark the mutex as contended.\<close>

fun on_way :: "sync_pc \<Rightarrow> bool" where
  "on_way (UnlockSpin i k) \<longleftrightarrow> True"
| "on_way (UnlockCas i k) \<longleftrightarrow> True"
| "on_way (UnlockWake k) \<longleftrightarrow> True"
| "on_way LockTake \<longleftrightarrow> True"
| "on_way LockMark \<longleftrightarrow> True"
| "on_way _ \<longleftrightarrow> False"

definition sleepers_inv :: "sync_state \<Rightarrow> bool" where
  "sleepers_inv s \<longleftrightarrow> (\<forall>t. pc s t = LockAsleep \<longrightarrow> mutex_mu (sync_mem s) = 2 \<or> (\<exists>w. on_way (pc s w)))"

lemma access_way:
  assumes "sync_access m p = Some (m', p', r)" "mutex_mu m \<in> {0, 1, 2}" "mutex_mu m = 2 \<or> on_way p"
  shows "mutex_mu m' = 2 \<or> on_way p'"
  using assms by (cases p) (auto simp: access_defs Let_def split: if_splits unlock_for.splits)

lemma access_awake: "sync_access m p = Some (m', p', r) \<Longrightarrow> p \<noteq> LockAsleep \<and> p' \<noteq> LockAsleep"
  by (cases p) (auto simp: access_defs Let_def split: if_splits unlock_for.splits)

lemma unlocked_awake: "unlocked k = (p, r) \<Longrightarrow> p \<noteq> LockAsleep"
  by (auto simp: unlocked_def split: unlock_for.splits)

lemma at_home_awake [simp]: "at_home h \<noteq> LockAsleep"
  by (simp add: at_home_def)

lemma sleepers_inv_keep:
  assumes "sleepers_inv s" "sync_mem s' = sync_mem s" "\<And>t. pc s' t = LockAsleep \<Longrightarrow> pc s t = LockAsleep"
    "\<And>w. on_way (pc s w) \<Longrightarrow> on_way (pc s' w)"
  shows "sleepers_inv s'"
  using assms(1,3,4) unfolding sleepers_inv_def assms(2) by blast

lemma sleepers_inv_step:
  assumes st: "sync_step host s s'" and h: "host \<noteq> Hostile" and inv: "sleepers_inv s" and mi: "mutex_inv s"
  shows "sleepers_inv s'"
  using st
proof (cases rule: sync_step.cases)
  case (access t m p r)
  have mu: "mutex_mu (sync_mem s) \<in> {0, 1, 2}" using mi by (rule mutex_values)
  note a = access_awake [OF access(2)] and w = access_way [OF access(2) mu]
  have "mutex_mu m = 2 \<or> (\<exists>w. on_way (((pc s)(t := p)) w))" if asleep: "pc s v = LockAsleep" for v
  proof (cases "mutex_mu (sync_mem s) = 2 \<or> on_way (pc s t)")
    case True
    then show ?thesis using w by (metis fun_upd_same)
  next
    case False
    then obtain w where "on_way (pc s w)" "w \<noteq> t" using inv asleep unfolding sleepers_inv_def by blast
    then show ?thesis by (intro disjI2 exI [of _ w]) simp
  qed
  moreover have "pc s v = LockAsleep" if "((pc s)(t := p)) v = LockAsleep" for v using that a by (cases "v = t") simp_all
  moreover have "sync_mem s' = m" "pc s' = (pc s)(t := p)" unfolding access(1) by simp_all
  ultimately show ?thesis unfolding sleepers_inv_def by metis
next
  case (lock_no_sleep t)
  then show ?thesis by (auto simp: sleepers_inv_def intro: exI [of _ t])
next
  case (unlock_wakes t k w p r)
  then show ?thesis by (auto simp: sleepers_inv_def intro!: exI [of _ w])
next
  case (signal_wakes t h w)
  then show ?thesis by (auto simp: sleepers_inv_def intro!: exI [of _ w])
next
  case (broadcast_wakes t h w)
  then show ?thesis by (auto simp: sleepers_inv_def intro!: exI [of _ w])
next
  case (wait_no_sleep t)
  then show ?thesis by (auto simp: sleepers_inv_def intro: exI [of _ t])
next
  case (lock_sleeps t)
  then show ?thesis by (simp add: sleepers_inv_def)
next
  case (unlock_wakes_none t k p r)
  then show ?thesis using h by (auto simp: sleepers_inv_def dest: unlocked_awake split: if_splits)
qed (use h inv in \<open>auto elim!: sleepers_inv_keep split: if_splits\<close>)

lemma call_way: "sync_call p q \<Longrightarrow> \<not> on_way p \<and> q \<noteq> LockAsleep \<and> q \<noteq> Outside"
  by (auto simp: NaClMutexLock_def NaClMutexUnlock_def NaClCondVarWait_def NaClCondVarSignal_def NaClCondVarBroadcast_def
      at_home_def elim!: sync_call.cases split: if_splits)

lemma sleepers_inv_run: "sync_run host s s' \<Longrightarrow> host \<noteq> Hostile \<Longrightarrow> mutex_inv s \<and> sleepers_inv s \<Longrightarrow> sleepers_inv s'"
proof (induction rule: sync_run.induct)
  case (run_call s s' t p)
  then show ?case using call_way [of "pc s' t" p] by (auto elim!: sleepers_inv_keep split: if_splits)
next
  case (run_step s s' s'')
  then show ?case using sleepers_inv_step mutex_inv_run by blast
qed simp

section \<open>Progress while the mutex is free\<close>

text \<open>How far a thread is from the end of its call, or from the mutex, while nobody has it.\<close>

fun weight :: "sync_pc \<Rightarrow> nat" where
  "weight LockWait = 2"
| "weight LockTake = 1"
| "weight (UnlockSpin i k) = 20 + 2 * (200 - i)"
| "weight (UnlockCas i k) = 19 + 2 * (200 - i)"
| "weight (UnlockWake k) = 10"
| "weight (WaitSleep q) = 5"
| "weight (SignalAdd h) = 8"
| "weight (SignalWake h) = 7"
| "weight (BroadcastTest h) = 9"
| "weight (BroadcastAdd h) = 8"
| "weight (BroadcastRequeue h) = 7"
| "weight _ = 0"

lemma weight_unlocked: "unlocked k = (p, r) \<Longrightarrow> weight p \<le> 5"
  by (auto simp: unlocked_def split: unlock_for.splits)

lemma weight_home [simp]: "weight (at_home h) = 0"
  by (simp add: at_home_def)

lemma access_weight:
  assumes "sync_access m p = Some (m', p', r)" "mutex_mu m = 0" "mutex_mu m' = 0" "\<not> has_mutex p"
  shows "weight p' < weight p"
  using assms by (cases p) (auto simp: access_defs Let_def MUTEX_SPINLOCK_TIMES_def split: if_splits unlock_for.splits)

lemma access_outside: "sync_access m p = Some (m', p', r) \<Longrightarrow> p \<noteq> Outside"
  by (auto simp: access_defs)

definition total_weight :: "nat set \<Rightarrow> sync_state \<Rightarrow> nat" where
  "total_weight T s = (\<Sum>t\<in>T. weight (pc s t))"

lemma weight_one:
  assumes "finite T" "t \<in> T" "\<And>v. v \<noteq> t \<Longrightarrow> weight (pc s' v) = weight (pc s v)" "weight (pc s' t) < weight (pc s t)"
  shows "total_weight T s' < total_weight T s"
proof -
  have "weight (pc s' v) \<le> weight (pc s v)" for v using assms(3,4) by (cases "v = t") auto
  then show ?thesis unfolding total_weight_def using assms(1,2,4) by (intro sum_strict_mono_ex1) auto
qed

lemma weight_two:
  assumes "finite T" "t \<in> T" "w \<in> T" "t \<noteq> w" "\<And>v. v \<noteq> t \<Longrightarrow> v \<noteq> w \<Longrightarrow> weight (pc s' v) = weight (pc s v)"
    "weight (pc s' t) + weight (pc s' w) < weight (pc s t) + weight (pc s w)"
  shows "total_weight T s' < total_weight T s"
proof -
  have "total_weight T u = weight (pc u t) + (weight (pc u w) + (\<Sum>v\<in>T - {t} - {w}. weight (pc u v)))" for u
    unfolding total_weight_def using assms(1-4) by (simp add: sum.remove [of T t] sum.remove [of "T - {t}" w])
  moreover have "(\<Sum>v\<in>T - {t} - {w}. weight (pc s' v)) = (\<Sum>v\<in>T - {t} - {w}. weight (pc s v))"
    using assms(5) by (intro sum.cong) auto
  ultimately show ?thesis using assms(6) by simp
qed

definition active :: "sync_state \<Rightarrow> nat set" where "active s = {t. pc s t \<noteq> Outside}"

lemma free_step_decreases:
  assumes st: "sync_step host s s'" and h: "host \<noteq> Hostile" and mi: "mutex_inv s" and free: "mutex_mu (sync_mem s) = 0" "mutex_mu (sync_mem s') = 0"
    and T: "finite T" "active s \<subseteq> T"
  shows "total_weight T s' < total_weight T s"
proof -
  have inT: "pc s t \<noteq> Outside \<Longrightarrow> t \<in> T" for t using T(2) by (auto simp: active_def)
  show ?thesis using st
  proof (cases rule: sync_step.cases)
    case (access t m p r)
    have "weight p < weight (pc s t)"
      using access_weight [OF access(2)] free mutex_free [OF mi free(1)] access(1) by simp
    then show ?thesis using access inT [of t] access_outside [OF access(2)] by (intro weight_one [OF T(1), of t]) auto
  next
    case (unlock_wakes t k w p r)
    then show ?thesis using inT [of t] inT [of w] weight_unlocked by (intro weight_two [OF T(1), of t w]) fastforce+
  next
    case (unlock_wakes_none t k p r)
    then show ?thesis using inT [of t] weight_unlocked by (intro weight_one [OF T(1), of t]) fastforce+
  next
    case (signal_wakes t h w)
    then show ?thesis using inT [of t] inT [of w] by (intro weight_two [OF T(1), of t w]) auto
  next
    case (broadcast_wakes t h w)
    then show ?thesis using inT [of t] inT [of w] by (intro weight_two [OF T(1), of t w]) auto
  next
    case (lock_no_sleep t)
    then show ?thesis using inT [of t] by (intro weight_one [OF T(1), of t]) auto
  next
    case (lock_sleeps t)
    then show ?thesis using inT [of t] by (intro weight_one [OF T(1), of t]) auto
  next
    case (wait_no_sleep t)
    then show ?thesis using inT [of t] by (intro weight_one [OF T(1), of t]) auto
  next
    case (wait_sleeps t)
    then show ?thesis using inT [of t] by (intro weight_one [OF T(1), of t]) auto
  next
    case (signal_wakes_none t)
    then show ?thesis using inT [of t] by (intro weight_one [OF T(1), of t]) auto
  next
    case (broadcast_wakes_none t)
    then show ?thesis using inT [of t] by (intro weight_one [OF T(1), of t]) auto
  qed (use h in simp)
qed

lemma step_active: "sync_step host s s' \<Longrightarrow> active s' \<subseteq> active s"
  by (induction rule: sync_step.induct) (auto simp: active_def dest: access_outside split: if_splits)

lemma run_finite: "sync_run host s s' \<Longrightarrow> finite (active s) \<Longrightarrow> finite (active s')"
proof (induction rule: sync_run.induct)
  case (run_call s s' t p)
  have "active (goto t p s') \<subseteq> insert t (active s')" by (auto simp: active_def)
  then show ?case using run_call by (meson finite_insert finite_subset)
qed (auto dest: step_active finite_subset)

lemma free_run_short:
  assumes "\<And>i. i < n \<Longrightarrow> sync_step host (f i) (f (Suc i))" "\<And>i. i \<le> n \<Longrightarrow> mutex_mu (sync_mem (f i)) = 0"
    and "mutex_inv (f 0)" "finite T" "active (f 0) \<subseteq> T" "host \<noteq> Hostile"
  shows "i \<le> n \<Longrightarrow> mutex_inv (f i) \<and> active (f i) \<subseteq> T \<and> total_weight T (f i) + i \<le> total_weight T (f 0)"
proof (induction i)
  case (Suc i)
  then have i: "mutex_inv (f i)" "active (f i) \<subseteq> T" "total_weight T (f i) + i \<le> total_weight T (f 0)" and s: "sync_step host (f i) (f (Suc i))"
    using assms(1) by auto
  have "total_weight T (f (Suc i)) < total_weight T (f i)"
    using Suc.prems by (intro free_step_decreases [OF s assms(6) i(1) _ _ assms(4) i(2)] assms(2)) simp_all
  then show ?case using i mutex_inv_step [OF s] step_active [OF s] by auto
qed (use assms in simp)

text \<open>The points of a thread that is taking the mutex.\<close>

fun wants_mutex :: "sync_pc \<Rightarrow> bool" where
  "wants_mutex (LockSpin i) \<longleftrightarrow> True"
| "wants_mutex LockMark \<longleftrightarrow> True"
| "wants_mutex LockWait \<longleftrightarrow> True"
| "wants_mutex LockAsleep \<longleftrightarrow> True"
| "wants_mutex LockTake \<longleftrightarrow> True"
| "wants_mutex _ \<longleftrightarrow> False"

lemma on_way_moves:
  assumes "on_way (pc s w)" "host \<noteq> Hostile"
  shows "\<exists>s'. sync_step host s s'"
proof (cases "pc s w")
  case (UnlockWake k)
  obtain p r where k: "unlocked k = (p, r)" by fastforce
  show ?thesis using unlock_wakes [OF UnlockWake _ k] unlock_wakes_none [OF UnlockWake _ k] by blast
next
  case (UnlockSpin i k)
  then have "\<exists>m p r. sync_access (sync_mem s) (pc s w) = Some (m, p, r)" by (simp add: access_defs)
  then show ?thesis using sync_step.access by blast
next
  case (UnlockCas i k)
  then have "\<exists>m p r. sync_access (sync_mem s) (pc s w) = Some (m, p, r)"
    by (cases k) (simp_all add: access_defs Let_def)
  then show ?thesis using sync_step.access by blast
next
  case LockTake
  then have "\<exists>m p r. sync_access (sync_mem s) (pc s w) = Some (m, p, r)" by (simp add: access_defs Let_def)
  then show ?thesis using sync_step.access by blast
next
  case LockMark
  then have "\<exists>m p r. sync_access (sync_mem s) (pc s w) = Some (m, p, r)" by (simp add: access_defs Let_def)
  then show ?thesis using sync_step.access by blast
qed (use assms in simp_all)

lemma wanted_moves:
  assumes inv: "mutex_inv s" "sleepers_inv s" and h: "host \<noteq> Hostile" and free: "mutex_mu (sync_mem s) = 0" and w: "wants_mutex (pc s t)"
  shows "\<exists>s'. sync_step host s s'"
proof (cases "pc s t")
  case (LockSpin i)
  then have "\<exists>m p r. sync_access (sync_mem s) (pc s t) = Some (m, p, r)" using free by (simp add: access_defs Let_def)
  then show ?thesis using sync_step.access by blast
next
  case LockWait
  then show ?thesis using lock_no_sleep free by force
next
  case LockAsleep
  then obtain w where "on_way (pc s w)" using inv(2) free by (auto simp: sleepers_inv_def)
  then show ?thesis using h by (rule on_way_moves)
qed (use w h on_way_moves [of s t] in simp_all)

section \<open>Runs with a given schedule\<close>

text \<open>A schedule names the thread that moves, and the call it makes if it makes one.\<close>

fun scheduled :: "(nat \<times> sync_pc option) list \<Rightarrow> sync_state \<Rightarrow> sync_state option" where
  "scheduled [] s = Some s"
| "scheduled ((t, Some p) # xs) s =
     (if pc s t = Outside \<and> p = NaClMutexLock \<or> pc s t = Inside \<and> p = NaClCondVarWait
      then scheduled xs (goto t p s) else None)"
| "scheduled ((t, None) # xs) s = (case sync_access (sync_mem s) (pc s t) of None \<Rightarrow> None
     | Some (m, p, r) \<Rightarrow> scheduled xs (report t r (goto t p (s\<lparr>sync_mem := m\<rparr>))))"

lemma run_trans: "sync_run host s' s'' \<Longrightarrow> sync_run host s s' \<Longrightarrow> sync_run host s s''"
  by (induction rule: sync_run.induct) (auto intro: sync_run.intros)

lemma scheduled_run: "scheduled xs s = Some s' \<Longrightarrow> sync_run host s s'"
proof (induction xs s rule: scheduled.induct)
  case (2 t p xs s)
  then have "sync_run host (goto t p s) s'" "sync_call (pc s t) p" by (auto split: if_splits intro: sync_call.intros)
  then show ?case using run_trans run_call [OF run_refl] by blast
next
  case (3 t xs s)
  then obtain m p r where a: "sync_access (sync_mem s) (pc s t) = Some (m, p, r)"
    and "sync_run host (report t r (goto t p (s\<lparr>sync_mem := m\<rparr>))) s'"
    by (auto split: option.splits)
  then show ?case using run_trans run_step [OF run_refl sync_step.access [OF a]] by blast
qed (auto intro: run_refl)

lemmas schedule_eval = sync_init_def NaClMutexCtor_def NaClCondVarCtor_def NaClMutexLock_def NaClCondVarWait_def
  access_defs goto_def report_def Let_def MUTEX_SPINLOCK_TIMES_def

lemma one_locks: "\<exists>s. scheduled [(3, Some NaClMutexLock), (3, None)] sync_init = Some s \<and> pc s 3 = Inside"
  by (simp add: schedule_eval)

text \<open>C31: The mutex excludes. With any number of threads, in any interleaving of their accesses, and whatever
  the host does with the futex calls, at most one thread has the mutex at a time, from the access of its
  lock that takes it to the access of its unlock that releases it, and the word is 0 exactly while nobody
  has it.\<close>

theorem mutex_excludes:
  assumes "sync_run host sync_init s"
  shows "(\<forall>t t'. has_mutex (pc s t) \<and> has_mutex (pc s t') \<longrightarrow> t = t') \<and>
    (mutex_mu (sync_mem s) = 0 \<longleftrightarrow> (\<forall>t. \<not> has_mutex (pc s t))) \<and> mutex_mu (sync_mem s) \<in> {0, 1, 2}"
  using mutex_inv_run [OF assms mutex_inv_init] unfolding mutex_inv_def by blast

theorem mutex_excludes_witness:
  "\<exists>s. sync_run Hostile sync_init s \<and> pc s 3 = Inside \<and> \<not> has_mutex (pc s 4) \<and> mutex_mu (sync_mem s) \<noteq> 0"
proof -
  obtain s where "scheduled [(3, Some NaClMutexLock), (3, None)] sync_init = Some s" and pc: "pc s 3 = Inside"
    using one_locks by blast
  then have run: "sync_run Hostile sync_init s" by (blast intro: scheduled_run)
  have three: "has_mutex (pc s 3)" using pc by simp
  note ex = mutex_excludes [OF run]
  have "\<not> has_mutex (pc s 4)"
  proof
    assume "has_mutex (pc s 4)"
    with three ex have "(3::nat) = 4" by blast
    then show False by simp
  qed
  moreover have "mutex_mu (sync_mem s) \<noteq> 0" using ex three by blast
  ultimately show ?thesis using run pc by blast
qed

text \<open>C32: A free mutex is taken by those who want it: no wake-up is lost. Whether the futex calls are refused,
  as for a mutex inside the enclave, or served honestly, whenever the mutex is free and a thread is taking it, asleep or not, some thread can go
  on, and the threads cannot go on for ever without taking it: there is a bound on the steps inside calls
  that can be made before the mutex is taken, whichever threads make them.\<close>

theorem free_mutex_is_taken:
  assumes run: "sync_run host sync_init s" and h: "host \<noteq> Hostile" and free: "mutex_mu (sync_mem s) = 0" and wants: "wants_mutex (pc s t)"
  shows "(\<exists>s'. sync_step host s s') \<and>
    (\<exists>n. \<forall>f. f 0 = s \<and> (\<forall>i<n. sync_step host (f i) (f (Suc i))) \<longrightarrow> (\<exists>i\<le>n. mutex_mu (sync_mem (f i)) \<noteq> 0))"
proof
  have mi: "mutex_inv s" by (rule mutex_inv_run [OF run mutex_inv_init])
  have "sleepers_inv sync_init" by (simp add: sleepers_inv_def sync_init_def)
  then have "sleepers_inv s" using sleepers_inv_run [OF run h] mutex_inv_init by blast
  then show "\<exists>s'. sync_step host s s'" by (rule wanted_moves [OF mi _ h free wants])
  let ?n = "Suc (total_weight (active s) s)"
  have fin: "finite (active s)" using run_finite [OF run] by (simp add: active_def sync_init_def)
  have "\<exists>i\<le>?n. mutex_mu (sync_mem (f i)) \<noteq> 0" if f: "f 0 = s" "\<forall>i<?n. sync_step host (f i) (f (Suc i))" for f
  proof (rule ccontr)
    assume "\<not> ?thesis"
    then have "total_weight (active s) (f ?n) + ?n \<le> total_weight (active s) (f 0)"
      using free_run_short [of ?n host f "active s" ?n] f mi fin h by auto
    then show False using f(1) by simp
  qed
  then show "\<exists>n. \<forall>f. f 0 = s \<and> (\<forall>i<n. sync_step host (f i) (f (Suc i))) \<longrightarrow> (\<exists>i\<le>n. mutex_mu (sync_mem (f i)) \<noteq> 0)"
    by blast
qed

theorem free_mutex_is_taken_witness:
  "wants_mutex (pc (goto 3 NaClMutexLock sync_init) 3) \<and> (\<exists>s'. sync_step Refused (goto 3 NaClMutexLock sync_init) s')"
proof -
  have run: "sync_run Refused sync_init (goto 3 NaClMutexLock sync_init)"
    by (rule scheduled_run [of "[(3, Some NaClMutexLock)]"]) (simp add: sync_init_def)
  have free: "mutex_mu (sync_mem (goto 3 NaClMutexLock sync_init)) = 0" and wants: "wants_mutex (pc (goto 3 NaClMutexLock sync_init) 3)"
    by (simp_all add: schedule_eval)
  show ?thesis using free_mutex_is_taken [OF run _ free wants] wants by blast
qed

section \<open>The condition variable\<close>

text \<open>The points of a wait that has stored the value of the mutex.\<close>

fun cv_marked :: "sync_pc \<Rightarrow> bool" where
  "cv_marked (WaitCompare q) \<longleftrightarrow> True"
| "cv_marked (WaitCompared q v) \<longleftrightarrow> True"
| "cv_marked (UnlockTest k) \<longleftrightarrow> k \<noteq> Caller"
| "cv_marked (UnlockStore k) \<longleftrightarrow> k \<noteq> Caller"
| "cv_marked (UnlockXchg k) \<longleftrightarrow> k \<noteq> Caller"
| "cv_marked (UnlockSpin i k) \<longleftrightarrow> k \<noteq> Caller"
| "cv_marked (UnlockCas i k) \<longleftrightarrow> k \<noteq> Caller"
| "cv_marked (UnlockWake k) \<longleftrightarrow> k \<noteq> Caller"
| "cv_marked (WaitSleep q) \<longleftrightarrow> True"
| "cv_marked WaitAsleep \<longleftrightarrow> True"
| "cv_marked WaitRequeued \<longleftrightarrow> True"
| "cv_marked _ \<longleftrightarrow> False"

definition cv_inv :: "sync_state \<Rightarrow> bool" where
  "cv_inv s \<longleftrightarrow> (\<forall>t. cv_marked (pc s t) \<longrightarrow> cv_mu (sync_mem s) \<noteq> 0) \<and> (\<forall>t q v. pc s t = WaitCas q v \<longrightarrow> v \<noteq> 0)"

lemma cv_marked_unlocked: "unlocked k = (p, r) \<Longrightarrow> cv_marked p = (k \<noteq> Caller) \<and> (\<forall>q v. p \<noteq> WaitCas q v)"
  by (auto simp: unlocked_def split: unlock_for.splits)

lemma cv_marked_home [simp]: "\<not> cv_marked (at_home h)" "at_home h \<noteq> WaitCas q v"
  by (simp_all add: at_home_def)

lemma access_cv:
  assumes "sync_access m p = Some (m', p', r)" "cv_marked p \<longrightarrow> cv_mu m \<noteq> 0" "\<forall>q v. p = WaitCas q v \<longrightarrow> v \<noteq> 0"
    "has_mutex p \<longrightarrow> mutex_mu m \<noteq> 0"
  shows "(cv_marked p' \<longrightarrow> cv_mu m' \<noteq> 0) \<and> (\<forall>q v. p' = WaitCas q v \<longrightarrow> v \<noteq> 0) \<and> (cv_mu m \<noteq> 0 \<longrightarrow> cv_mu m' \<noteq> 0)"
  using assms by (cases p) (auto simp: access_defs Let_def split: if_splits unlock_for.splits)

lemma cv_inv_keep:
  assumes "cv_inv s" "sync_mem s' = sync_mem s" "\<And>t. cv_marked (pc s' t) \<Longrightarrow> cv_marked (pc s t)"
    "\<And>t q v. pc s' t = WaitCas q v \<Longrightarrow> pc s t = WaitCas q v"
  shows "cv_inv s' \<and> (cv_mu (sync_mem s) \<noteq> 0 \<longrightarrow> cv_mu (sync_mem s') \<noteq> 0)"
  using assms(1,3,4) unfolding cv_inv_def assms(2) by blast

lemma cv_step:
  assumes st: "sync_step host s s'" and inv: "cv_inv s" and mi: "mutex_inv s"
  shows "cv_inv s' \<and> (cv_mu (sync_mem s) \<noteq> 0 \<longrightarrow> cv_mu (sync_mem s') \<noteq> 0)"
  using st
proof (cases rule: sync_step.cases)
  case (access t m p r)
  have "has_mutex (pc s t) \<longrightarrow> mutex_mu (sync_mem s) \<noteq> 0" using mutex_free [OF mi] by blast
  then have a: "(cv_marked p \<longrightarrow> cv_mu m \<noteq> 0) \<and> (\<forall>q v. p = WaitCas q v \<longrightarrow> v \<noteq> 0) \<and> (cv_mu (sync_mem s) \<noteq> 0 \<longrightarrow> cv_mu m \<noteq> 0)"
    using inv by (intro access_cv [OF access(2)]) (auto simp: cv_inv_def)
  then show ?thesis using inv unfolding access(1) by (auto simp: cv_inv_def)
next
  case (lock_sleeps t)
  show ?thesis by (rule cv_inv_keep [OF inv]) (use lock_sleeps in \<open>auto dest: cv_marked_unlocked split: if_splits\<close>)
next
  case (lock_no_sleep t)
  show ?thesis by (rule cv_inv_keep [OF inv]) (use lock_no_sleep in \<open>auto dest: cv_marked_unlocked split: if_splits\<close>)
next
  case (wait_sleeps t q)
  show ?thesis by (rule cv_inv_keep [OF inv]) (use wait_sleeps in \<open>auto dest: cv_marked_unlocked split: if_splits\<close>)
next
  case (wait_no_sleep t q)
  show ?thesis by (rule cv_inv_keep [OF inv]) (use wait_no_sleep in \<open>auto dest: cv_marked_unlocked split: if_splits\<close>)
next
  case (unlock_wakes t k w p r)
  show ?thesis by (rule cv_inv_keep [OF inv]) (use unlock_wakes in \<open>auto dest: cv_marked_unlocked split: if_splits\<close>)
next
  case (unlock_wakes_none t k p r)
  show ?thesis by (rule cv_inv_keep [OF inv]) (use unlock_wakes_none in \<open>auto dest: cv_marked_unlocked split: if_splits\<close>)
next
  case (signal_wakes t h w)
  show ?thesis by (rule cv_inv_keep [OF inv]) (use signal_wakes in \<open>auto dest: cv_marked_unlocked split: if_splits\<close>)
next
  case (signal_wakes_none t h)
  show ?thesis by (rule cv_inv_keep [OF inv]) (use signal_wakes_none in \<open>auto dest: cv_marked_unlocked split: if_splits\<close>)
next
  case (broadcast_wakes t h w)
  show ?thesis by (rule cv_inv_keep [OF inv]) (use broadcast_wakes in \<open>auto dest: cv_marked_unlocked split: if_splits\<close>)
next
  case (broadcast_wakes_none t h)
  show ?thesis by (rule cv_inv_keep [OF inv]) (use broadcast_wakes_none in \<open>auto dest: cv_marked_unlocked split: if_splits\<close>)
next
  case (wakes_up t)
  show ?thesis by (rule cv_inv_keep [OF inv]) (use wakes_up in \<open>auto dest: cv_marked_unlocked split: if_splits\<close>)
qed

lemma cv_call: "cv_inv s \<Longrightarrow> sync_call (pc s t) p \<Longrightarrow> cv_inv (goto t p s)"
  by (auto simp: cv_inv_def NaClMutexLock_def NaClMutexUnlock_def NaClCondVarWait_def NaClCondVarSignal_def
      NaClCondVarBroadcast_def elim!: sync_call.cases split: if_splits)

lemma cv_run:
  "sync_run host s s' \<Longrightarrow> mutex_inv s \<Longrightarrow> cv_inv s \<Longrightarrow> cv_inv s' \<and> (cv_mu (sync_mem s) \<noteq> 0 \<longrightarrow> cv_mu (sync_mem s') \<noteq> 0)"
proof (induction rule: sync_run.induct)
  case (run_call s s' t p)
  then show ?case using cv_call [of s' t p] by simp
next
  case (run_step s s' s'')
  then show ?case using cv_step [of host s' s''] mutex_inv_run by blast
qed simp

text \<open>C33: A condition variable serves one wait in its life. Once a thread has begun a wait, each later wait, of any
  thread and after any signals, that comes to its test returns \<open>NACL_SYNC_MUTEX_INVALID\<close> with the mutex held, and
  the checked call stops the process.\<close>

theorem condvar_waits_once:
  assumes "sync_run host sync_init s" "cv_marked (pc s t)" "sync_run host s s'" "pc s' t' = WaitTest q"
  shows "sync_access (sync_mem s') (pc s' t') = Some (sync_mem s', Inside, Some NACL_SYNC_MUTEX_INVALID) \<and>
    NaClXCondVarWait_status NACL_SYNC_MUTEX_INVALID = Inl LogFatal"
proof -
  have "cv_inv sync_init" by (simp add: cv_inv_def sync_init_def)
  then have "cv_inv s" and mi: "mutex_inv s"
    using cv_run [OF assms(1) mutex_inv_init] mutex_inv_run [OF assms(1) mutex_inv_init] by auto
  then have "cv_mu (sync_mem s') \<noteq> 0" using cv_run [OF assms(3) mi] assms(2) by (auto simp: cv_inv_def)
  then show ?thesis unfolding assms(4) by (simp add: access_defs NaClXCondVarWait_status_def sync_checked_def)
qed

abbreviation first_wait :: "(nat \<times> sync_pc option) list" where
  "first_wait \<equiv> [(3, Some NaClMutexLock), (3, None), (3, Some NaClCondVarWait), (3, None), (3, None), (3, None), (3, None),
    (3, None), (3, None)]"

abbreviation second_wait :: "(nat \<times> sync_pc option) list" where
  "second_wait \<equiv> [(3, None), (3, None), (4, Some NaClMutexLock), (4, None), (4, Some NaClCondVarWait), (4, None)]"

lemma two_wait:
  "\<exists>s s'. scheduled first_wait sync_init = Some s \<and> pc s 3 = UnlockTest (Waiting 0) \<and>
    scheduled second_wait s = Some s' \<and> pc s' 4 = WaitTest 0"
  by (simp add: schedule_eval)

theorem condvar_waits_once_witness:
  "\<exists>s s'. pc s 3 = UnlockTest (Waiting 0) \<and> sync_run Served s s' \<and>
    sync_access (sync_mem s') (pc s' 4) = Some (sync_mem s', Inside, Some NACL_SYNC_MUTEX_INVALID)"
proof -
  obtain s s' where "scheduled first_wait sync_init = Some s" "scheduled second_wait s = Some s'"
    and pc: "pc s 3 = UnlockTest (Waiting 0)" "pc s' 4 = WaitTest 0"
    using two_wait by blast
  then have run: "sync_run Served sync_init s" "sync_run Served s s'" by (blast intro: scheduled_run)+
  have "cv_marked (pc s 3)" using pc(1) by simp
  from condvar_waits_once [OF run(1) this run(2) pc(2)] show ?thesis using pc run by blast
qed

end
