(* ===== verification/Elf.thy ===== *)
theory Elf
  imports AddrSpace Bytes
begin

text \<open>
  The executable file (\<open>service_runtime/elf_util_usgx.c\<close>, first part): reading the ELF header and the program
  headers, converting the 64-bit form to the 32-bit form, and checking the headers before anything is
  loaded.

  The file is what \<open>PRead\<close> answers, on a state of its own, so it may change between two reads: \<open>None\<close> is a
  negative error number, \<open>Some bs\<close> that the bytes \<open>bs\<close> were read. Memory that is not set holds what the
  caller's stack held; where the code reads it, it is a parameter.
\<close>

section \<open>Headers\<close>

text \<open>One form for both classes: \<open>'w\<close> is the type of addresses and offsets.\<close>

record 'w elf_ehdr =
  e_ident :: "u8 list"
  e_type :: u16
  e_machine :: u16
  e_version :: u32
  e_entry :: 'w
  e_phoff :: 'w
  e_shoff :: 'w
  e_flags :: u32
  e_ehsize :: u16
  e_phentsize :: u16
  e_phnum :: u16
  e_shentsize :: u16
  e_shnum :: u16
  e_shstrndx :: u16

record 'w elf_phdr =
  p_type :: u32
  p_offset :: 'w
  p_vaddr :: 'w
  p_paddr :: 'w
  p_filesz :: 'w
  p_memsz :: 'w
  p_flags :: u32
  p_align :: 'w

type_synonym Elf32_Ehdr = "u32 elf_ehdr"
type_synonym Elf64_Ehdr = "u64 elf_ehdr"
type_synonym Elf32_Phdr = "u32 elf_phdr"
type_synonym Elf64_Phdr = "u64 elf_phdr"

record NaClElfImage =
  ehdr :: Elf32_Ehdr
  phdrs :: "Elf32_Phdr list"
  loadable :: "bool list"

datatype NaClErrorCode =
    LOAD_OK | LOAD_STATUS_UNKNOWN | LOAD_INTERNAL | LOAD_READ_ERROR | LOAD_TOO_MANY_PROG_HDRS
  | LOAD_BAD_PHENTSIZE | LOAD_BAD_ELF_MAGIC | LOAD_NOT_32_BIT | LOAD_NOT_EXEC | LOAD_BAD_MACHINE
  | LOAD_BAD_ELF_VERS | LOAD_NO_MEMORY | LOAD_ADDR_SPACE_TOO_BIG | LOAD_RODATA_OVERLAPS_DATA
  | LOAD_DATA_NOT_LAST_SEGMENT | LOAD_NO_DATA_BUT_RODATA_NOT_LAST_SEGMENT | LOAD_TEXT_OVERLAPS_RODATA
  | LOAD_TEXT_OVERLAPS_DATA | LOAD_BAD_RODATA_ALIGNMENT | LOAD_BAD_ELF_TEXT | LOAD_BAD_ENTRY
  | LOAD_SEGMENT_OUTSIDE_ADDRSPACE | LOAD_DUP_SEGMENT | LOAD_SEGMENT_BAD_LOC | LOAD_BAD_SEGMENT
  | LOAD_REQUIRED_SEG_MISSING | LOAD_SEGMENT_BAD_PARAM | LOAD_BAD_EHSIZE | LOAD_EHDR_OVERFLOW
  | LOAD_PHDR_OVERFLOW | LOAD_CODE_SEGMENT_TOO_LARGE | LOAD_VALIDATION_FAILED

definition NACL_MAX_PROGRAM_HEADERS :: nat where "NACL_MAX_PROGRAM_HEADERS = 128"
definition NACL_TRAMPOLINE_START :: u32 where [simp]: "NACL_TRAMPOLINE_START = 0x10000"
definition NACL_TRAMPOLINE_END :: u32 where [simp]: "NACL_TRAMPOLINE_END = 0x20000"
definition NACL_ELF_E_MACHINE :: u16 where [simp]: "NACL_ELF_E_MACHINE = 62"
definition ELFMAG :: "u8 list" where "ELFMAG = [0x7f, 0x45, 0x4c, 0x46]"
definition EI_CLASS :: nat where [simp]: "EI_CLASS = 4"
definition ELFCLASS32 :: u8 where [simp]: "ELFCLASS32 = 1"
definition ELFCLASS64 :: u8 where [simp]: "ELFCLASS64 = 2"
definition ET_EXEC :: u16 where [simp]: "ET_EXEC = 2"
definition EV_CURRENT :: u32 where [simp]: "EV_CURRENT = 1"
definition PT_NULL :: u32 where [simp]: "PT_NULL = 0"
definition PT_LOAD :: u32 where [simp]: "PT_LOAD = 1"
definition PT_DYNAMIC :: u32 where [simp]: "PT_DYNAMIC = 2"
definition PT_INTERP :: u32 where [simp]: "PT_INTERP = 3"
definition PT_NOTE :: u32 where [simp]: "PT_NOTE = 4"
definition PT_PHDR :: u32 where [simp]: "PT_PHDR = 6"
definition PT_TLS :: u32 where [simp]: "PT_TLS = 7"
definition PT_GNU_EH_FRAME :: u32 where [simp]: "PT_GNU_EH_FRAME = 0x6474e550"
definition PT_GNU_STACK :: u32 where [simp]: "PT_GNU_STACK = 0x6474e551"
definition PT_GNU_RELRO :: u32 where [simp]: "PT_GNU_RELRO = 0x6474e552"
definition PF_X :: u32 where [simp]: "PF_X = 1"
definition PF_W :: u32 where [simp]: "PF_W = 2"
definition PF_R :: u32 where [simp]: "PF_R = 4"

section \<open>Their bytes\<close>

text \<open>The member of a struct that starts at byte \<open>i\<close>.\<close>

definition field :: "nat \<Rightarrow> u8 list \<Rightarrow> 'a::len word" where
  "field i bs = of_bytes (take (LENGTH('a) div 8) (drop i bs))"

definition sizeof_Elf32_Ehdr :: nat where [simp]: "sizeof_Elf32_Ehdr = 52"
definition sizeof_Elf64_Ehdr :: nat where [simp]: "sizeof_Elf64_Ehdr = 64"
definition sizeof_Elf32_Phdr :: nat where [simp]: "sizeof_Elf32_Phdr = 32"
definition sizeof_Elf64_Phdr :: nat where [simp]: "sizeof_Elf64_Phdr = 56"

definition Elf32_Ehdr :: "u8 list \<Rightarrow> Elf32_Ehdr" where
  "Elf32_Ehdr bs = \<lparr>e_ident = take 16 bs, e_type = field 16 bs, e_machine = field 18 bs, e_version = field 20 bs,
     e_entry = field 24 bs, e_phoff = field 28 bs, e_shoff = field 32 bs, e_flags = field 36 bs,
     e_ehsize = field 40 bs, e_phentsize = field 42 bs, e_phnum = field 44 bs, e_shentsize = field 46 bs,
     e_shnum = field 48 bs, e_shstrndx = field 50 bs\<rparr>"

definition Elf64_Ehdr :: "u8 list \<Rightarrow> Elf64_Ehdr" where
  "Elf64_Ehdr bs = \<lparr>e_ident = take 16 bs, e_type = field 16 bs, e_machine = field 18 bs, e_version = field 20 bs,
     e_entry = field 24 bs, e_phoff = field 32 bs, e_shoff = field 40 bs, e_flags = field 48 bs,
     e_ehsize = field 52 bs, e_phentsize = field 54 bs, e_phnum = field 56 bs, e_shentsize = field 58 bs,
     e_shnum = field 60 bs, e_shstrndx = field 62 bs\<rparr>"

definition Elf32_Phdr :: "u8 list \<Rightarrow> Elf32_Phdr" where
  "Elf32_Phdr bs = \<lparr>p_type = field 0 bs, p_offset = field 4 bs, p_vaddr = field 8 bs, p_paddr = field 12 bs,
     p_filesz = field 16 bs, p_memsz = field 20 bs, p_flags = field 24 bs, p_align = field 28 bs\<rparr>"

definition Elf64_Phdr :: "u8 list \<Rightarrow> Elf64_Phdr" where
  "Elf64_Phdr bs = \<lparr>p_type = field 0 bs, p_offset = field 8 bs, p_vaddr = field 16 bs, p_paddr = field 24 bs,
     p_filesz = field 32 bs, p_memsz = field 40 bs, p_flags = field 4 bs, p_align = field 48 bs\<rparr>"

text \<open>An array of \<open>n\<close> structs of \<open>k\<close> bytes each.\<close>

definition array_of :: "(u8 list \<Rightarrow> 'b) \<Rightarrow> nat \<Rightarrow> nat \<Rightarrow> u8 list \<Rightarrow> 'b list" where
  "array_of f k n bs = map (\<lambda>i. f (take k (drop (k * i) bs))) [0..<n]"

section \<open>Reading the image\<close>

definition NaClElfImageValidateElfHeader :: "Elf32_Ehdr \<Rightarrow> NaClErrorCode" where
  "NaClElfImageValidateElfHeader hdr =
     (if take 4 (e_ident hdr) \<noteq> ELFMAG then LOAD_BAD_ELF_MAGIC
      else if ELFCLASS32 \<noteq> e_ident hdr ! EI_CLASS then LOAD_NOT_32_BIT
      else if ET_EXEC \<noteq> e_type hdr then LOAD_NOT_EXEC
      else if NACL_ELF_E_MACHINE \<noteq> e_machine hdr then LOAD_BAD_MACHINE
      else if EV_CURRENT \<noteq> e_version hdr then LOAD_BAD_ELF_VERS
      else LOAD_OK)"

text \<open>The conversions; \<open>narrow_ehdr\<close> keeps the members that both classes have.\<close>

definition narrow_ehdr :: "Elf64_Ehdr \<Rightarrow> Elf32_Ehdr" where
  "narrow_ehdr h = \<lparr>e_ident = (e_ident h)[EI_CLASS := ELFCLASS32], e_type = e_type h, e_machine = e_machine h,
     e_version = e_version h, e_entry = ucast (e_entry h), e_phoff = ucast (e_phoff h), e_shoff = ucast (e_shoff h),
     e_flags = e_flags h, e_ehsize = of_nat sizeof_Elf32_Ehdr, e_phentsize = of_nat sizeof_Elf32_Phdr,
     e_phnum = e_phnum h, e_shentsize = e_shentsize h, e_shnum = e_shnum h, e_shstrndx = e_shstrndx h\<rparr>"

definition narrow_phdr :: "Elf64_Phdr \<Rightarrow> Elf32_Phdr" where
  "narrow_phdr p = \<lparr>p_type = p_type p, p_offset = ucast (p_offset p), p_vaddr = ucast (p_vaddr p),
     p_paddr = ucast (p_paddr p), p_filesz = ucast (p_filesz p), p_memsz = ucast (p_memsz p),
     p_flags = p_flags p, p_align = ucast (p_align p)\<rparr>"

definition phdr_overflows :: "Elf64_Phdr \<Rightarrow> bool" where
  "phdr_overflows p \<longleftrightarrow> p_offset p > 0xffffffff \<or> p_vaddr p > 0xffffffff \<or> p_paddr p > 0xffffffff \<or>
     p_filesz p > 0xffffffff \<or> p_memsz p > 0xffffffff \<or> p_align p > 0xffffffff"

type_synonym 'h pread = "'h \<Rightarrow> u64 \<Rightarrow> u64 \<Rightarrow> u8 list option \<times> 'h"

text \<open>A read that does not return the number of bytes asked for is an error.\<close>

definition read_exactly :: "'h pread \<Rightarrow> 'h \<Rightarrow> nat \<Rightarrow> u64 \<Rightarrow> u8 list option \<times> 'h" where
  "read_exactly pread h n off = (case pread h (of_nat n) off of
     (None, h) \<Rightarrow> (None, h) | (Some bs, h) \<Rightarrow> (if length bs \<noteq> n then None else Some bs, h))"

definition new_image :: "Elf32_Ehdr \<Rightarrow> Elf32_Phdr list \<Rightarrow> NaClElfImage" where
  "new_image h ps = \<lparr>ehdr = h, phdrs = ps, loadable = replicate NACL_MAX_PROGRAM_HEADERS False\<rparr>"

definition NaClElfImageNew :: "'h pread \<Rightarrow> 'h \<Rightarrow> (NaClErrorCode + NaClElfImage) \<times> 'h" where
  "NaClElfImageNew pread h = (case read_exactly pread h sizeof_Elf64_Ehdr 0 of
       (None, h) \<Rightarrow> (Inl LOAD_READ_ERROR, h)
     | (Some bs, h) \<Rightarrow>
         let ehdr64 = Elf64_Ehdr bs; is64 = (e_ident ehdr64 ! EI_CLASS = ELFCLASS64) in
         if is64 \<and> (e_entry ehdr64 > 0xffffffff \<or> e_phoff ehdr64 > 0xffffffff \<or> e_shoff ehdr64 > 0xffffffff)
         then (Inl LOAD_EHDR_OVERFLOW, h)
         else if is64 \<and> e_ehsize ehdr64 \<noteq> of_nat sizeof_Elf64_Ehdr then (Inl LOAD_BAD_EHSIZE, h)
         else
           let hdr = (if is64 then narrow_ehdr ehdr64 else Elf32_Ehdr bs);
               err_code = NaClElfImageValidateElfHeader hdr;
               n = unat (e_phnum hdr)
           in if LOAD_OK \<noteq> err_code then (Inl err_code, h)
              else if n > NACL_MAX_PROGRAM_HEADERS then (Inl LOAD_TOO_MANY_PROG_HDRS, h)
              else if is64 then
                if e_phentsize ehdr64 \<noteq> of_nat sizeof_Elf64_Phdr then (Inl LOAD_BAD_PHENTSIZE, h)
                else (case read_exactly pread h (n * sizeof_Elf64_Phdr) (ucast (e_phoff hdr)) of
                    (None, h) \<Rightarrow> (Inl LOAD_READ_ERROR, h)
                  | (Some ps, h) \<Rightarrow>
                      let phdr64 = array_of Elf64_Phdr sizeof_Elf64_Phdr n ps
                      in if \<exists>p\<in>set phdr64. phdr_overflows p then (Inl LOAD_PHDR_OVERFLOW, h)
                         else (Inr (new_image hdr (map narrow_phdr phdr64)), h))
              else
                if e_phentsize hdr \<noteq> of_nat sizeof_Elf32_Phdr then (Inl LOAD_BAD_PHENTSIZE, h)
                else (case read_exactly pread h (n * sizeof_Elf32_Phdr) (ucast (e_phoff hdr)) of
                    (None, h) \<Rightarrow> (Inl LOAD_READ_ERROR, h)
                  | (Some ps, h) \<Rightarrow> (Inr (new_image hdr (array_of Elf32_Phdr sizeof_Elf32_Phdr n ps)), h)))"

definition NaClElfImageGetEntryPoint :: "NaClElfImage \<Rightarrow> u64" where
  "NaClElfImageGetEntryPoint img = ucast (e_entry (ehdr img))"

text \<open>The image of the runtime itself, which is loaded into the enclave. The header of a 32-bit file is not
  copied: \<open>stack\<close> is what the memory of the image held. Members that do not fit are cut off, and too many
  program headers are not refused but stored past the end of their array.\<close>

definition NaClElfImageServiceRuntimeNew ::
  "'h pread \<Rightarrow> Elf32_Ehdr \<Rightarrow> 'h \<Rightarrow> ((NaClErrorCode + NaClElfImage) \<times> 'h) run" where
  "NaClElfImageServiceRuntimeNew pread stack h = (case read_exactly pread h sizeof_Elf64_Ehdr 0 of
       (None, h) \<Rightarrow> Inr (Inl LOAD_READ_ERROR, h)
     | (Some bs, h) \<Rightarrow>
         let ehdr64 = Elf64_Ehdr bs; is64 = (e_ident ehdr64 ! EI_CLASS = ELFCLASS64) in
         if is64 \<and> e_ehsize ehdr64 \<noteq> of_nat sizeof_Elf64_Ehdr then Inr (Inl LOAD_BAD_EHSIZE, h)
         else
           let hdr = (if is64 then narrow_ehdr ehdr64 else stack); n = unat (e_phnum hdr) in
           if is64 then
             if e_phentsize ehdr64 \<noteq> of_nat sizeof_Elf64_Phdr then Inr (Inl LOAD_BAD_PHENTSIZE, h)
             else guardE OutOfBounds (n \<le> NACL_MAX_PROGRAM_HEADERS)
               (case read_exactly pread h (n * sizeof_Elf64_Phdr) (ucast (e_phoff hdr)) of
                 (None, h) \<Rightarrow> Inr (Inl LOAD_READ_ERROR, h)
               | (Some ps, h) \<Rightarrow>
                   let phdr64 = array_of Elf64_Phdr sizeof_Elf64_Phdr n ps
                   in Inr (Inr \<lparr>ehdr = hdr, phdrs = map narrow_phdr phdr64,
                        loadable = map (\<lambda>p. p_type p = PT_LOAD) phdr64 @
                          replicate (NACL_MAX_PROGRAM_HEADERS - n) False\<rparr>, h))
           else
             if e_phentsize hdr \<noteq> of_nat sizeof_Elf32_Phdr then Inr (Inl LOAD_BAD_PHENTSIZE, h)
             else guardE OutOfBounds (n \<le> NACL_MAX_PROGRAM_HEADERS)
               (case read_exactly pread h (n * sizeof_Elf32_Phdr) (ucast (e_phoff hdr)) of
                 (None, h) \<Rightarrow> Inr (Inl LOAD_READ_ERROR, h)
               | (Some ps, h) \<Rightarrow> Inr (Inr (new_image hdr (array_of Elf32_Phdr sizeof_Elf32_Phdr n ps)), h)))"

section \<open>Checking the program headers\<close>

datatype NaClPhdrCheckAction = PCA_NONE | PCA_TEXT_CHECK | PCA_RODATA | PCA_DATA | PCA_IGNORE

record NaClPhdrChecks =
  c_type :: u32
  c_flags :: u32
  action :: NaClPhdrCheckAction
  required :: bool
  c_vaddr :: u32

definition phdr_check :: "u32 \<Rightarrow> u32 \<Rightarrow> NaClPhdrCheckAction \<Rightarrow> bool \<Rightarrow> u32 \<Rightarrow> NaClPhdrChecks" where [simp]:
  "phdr_check t f a r v = \<lparr>c_type = t, c_flags = f, action = a, required = r, c_vaddr = v\<rparr>"

definition nacl_phdr_check_data :: "NaClPhdrChecks list" where
  "nacl_phdr_check_data = [
     phdr_check PT_PHDR PF_R PCA_IGNORE False 0,
     phdr_check PT_LOAD (PF_R OR PF_X) PCA_TEXT_CHECK True NACL_TRAMPOLINE_END,
     phdr_check PT_LOAD PF_R PCA_RODATA False 0,
     phdr_check PT_LOAD (PF_R OR PF_W) PCA_DATA False 0,
     phdr_check PT_TLS PF_R PCA_IGNORE False 0,
     phdr_check PT_GNU_STACK (PF_R OR PF_W) PCA_NONE False 0,
     phdr_check PT_DYNAMIC (PF_R OR PF_W) PCA_IGNORE False 0,
     phdr_check PT_DYNAMIC PF_R PCA_IGNORE False 0,
     phdr_check PT_INTERP PF_R PCA_IGNORE False 0,
     phdr_check PT_NOTE PF_R PCA_IGNORE False 0,
     phdr_check PT_GNU_EH_FRAME PF_R PCA_IGNORE False 0,
     phdr_check PT_GNU_RELRO PF_R PCA_IGNORE False 0,
     phdr_check PT_NULL PF_R PCA_IGNORE False 0]"

record NaClElfImageInfo =
  i_text_end :: u64
  i_rodata_start :: u64
  i_rodata_end :: u64
  i_data_start :: u64
  i_data_end :: u64
  i_max_vaddr :: u64

record phdr_scan =
  s_image :: NaClElfImage
  s_info :: NaClElfImageInfo
  seen_seg :: "bool list"

text \<open>The first entry of the table that a header matches.\<close>

definition matching_check :: "Elf32_Phdr \<Rightarrow> nat" where
  "matching_check php = length (takeWhile (\<lambda>c. \<not> (p_type php = c_type c \<and> p_flags php = c_flags c)) nacl_phdr_check_data)"

text \<open>The end of a segment, \<open>p_vaddr + p_memsz\<close>, is a 32-bit sum, and so is the end of the text.\<close>

definition record_segment :: "NaClPhdrCheckAction \<Rightarrow> Elf32_Phdr \<Rightarrow> NaClElfImageInfo \<Rightarrow> NaClElfImageInfo" where
  "record_segment a php info =
     (let end = ucast (p_vaddr php + p_memsz php);
          info = (if i_max_vaddr info < end then info\<lparr>i_max_vaddr := end\<rparr> else info)
      in case a of
           PCA_TEXT_CHECK \<Rightarrow> info\<lparr>i_text_end := ucast (NACL_TRAMPOLINE_END + p_filesz php)\<rparr>
         | PCA_RODATA \<Rightarrow> info\<lparr>i_rodata_start := ucast (p_vaddr php), i_rodata_end := end\<rparr>
         | PCA_DATA \<Rightarrow> info\<lparr>i_data_start := ucast (p_vaddr php), i_data_end := end\<rparr>
         | _ \<Rightarrow> info)"

definition check_segment :: "nat \<Rightarrow> nat \<Rightarrow> phdr_scan \<Rightarrow> NaClErrorCode \<times> phdr_scan" where
  "check_segment bits segnum s =
     (let php = phdrs (s_image s) ! segnum; j = matching_check php; c = nacl_phdr_check_data ! j;
          space = push_bit bits (1 :: u64); va = ucast (p_vaddr php) :: u64 in
      if 0 = p_memsz php then (LOAD_OK, s)
      else if j = length nacl_phdr_check_data then (LOAD_BAD_SEGMENT, s)
      else if seen_seg s ! j then (LOAD_DUP_SEGMENT, s)
      else
        let s = s\<lparr>seen_seg := (seen_seg s)[j := True]\<rparr> in
        if PCA_IGNORE = action c then (LOAD_OK, s)
        else if 0 \<noteq> c_vaddr c \<and> c_vaddr c \<noteq> p_vaddr php then (LOAD_SEGMENT_BAD_LOC, s)
        else if p_vaddr php < NACL_TRAMPOLINE_END then (LOAD_SEGMENT_OUTSIDE_ADDRSPACE, s)
        else if va \<ge> space \<or> space - va < ucast (p_memsz php) then (LOAD_SEGMENT_OUTSIDE_ADDRSPACE, s)
        else if p_filesz php > p_memsz php then (LOAD_SEGMENT_BAD_PARAM, s)
        else (LOAD_OK, s\<lparr>s_image := (s_image s)\<lparr>loadable := (loadable (s_image s))[segnum := True]\<rparr>,
               s_info := record_segment (action c) php (s_info s)\<rparr>))"

fun check_segments :: "nat \<Rightarrow> nat list \<Rightarrow> phdr_scan \<Rightarrow> NaClErrorCode \<times> phdr_scan" where
  "check_segments bits [] s = (LOAD_OK, s)"
| "check_segments bits (i # is) s = (case check_segment bits i s of
     (LOAD_OK, s) \<Rightarrow> check_segments bits is s | (e, s) \<Rightarrow> (e, s))"

definition no_info :: NaClElfImageInfo where
  "no_info = \<lparr>i_text_end = 0, i_rodata_start = 0, i_rodata_end = 0, i_data_start = 0, i_data_end = 0,
     i_max_vaddr = ucast NACL_TRAMPOLINE_END\<rparr>"

definition NaClElfImageValidateProgramHeaders ::
  "NaClElfImage \<Rightarrow> nat \<Rightarrow> NaClErrorCode \<times> NaClElfImage \<times> NaClElfImageInfo" where
  "NaClElfImageValidateProgramHeaders img bits =
     (case check_segments bits [0..<unat (e_phnum (ehdr img))]
             \<lparr>s_image = img, s_info = no_info, seen_seg = replicate (length nacl_phdr_check_data) False\<rparr> of
        (e, s) \<Rightarrow>
          (if e \<noteq> LOAD_OK then e
           else if \<exists>j<length nacl_phdr_check_data. required (nacl_phdr_check_data ! j) \<and> \<not> seen_seg s ! j
           then LOAD_REQUIRED_SEG_MISSING else LOAD_OK,
           s_image s, s_info s))"

end
