(* ===== verification/ElfProps.thy ===== *)
theory ElfProps
  imports Elf
begin

text \<open>
  What an accepted executable file looks like: the headers that are used are those of the file, and the
  segments that are marked to be loaded lie within the address space.
\<close>

section \<open>One segment\<close>

lemma length_checks [simp]: "length nacl_phdr_check_data = 13"
  by (simp add: nacl_phdr_check_data_def)

lemma matching_check_le: "matching_check php \<le> 13"
  using length_takeWhile_le [of _ nacl_phdr_check_data] by (simp add: matching_check_def)

lemma matching_check_match:
  assumes "matching_check php < 13"
  shows "p_type php = c_type (nacl_phdr_check_data ! matching_check php) \<and>
    p_flags php = c_flags (nacl_phdr_check_data ! matching_check php)"
  using nth_length_takeWhile [of "\<lambda>c. \<not> (p_type php = c_type c \<and> p_flags php = c_flags c)" nacl_phdr_check_data] assms
  by (simp add: matching_check_def)

text \<open>The entries of segments that are loaded.\<close>

lemma loaded_entries:
  assumes "j < 13" "action (nacl_phdr_check_data ! j) \<noteq> PCA_IGNORE"
  shows "j \<in> {1, 2, 3, 5}"
proof -
  have "\<forall>j<13. action (nacl_phdr_check_data ! j) \<noteq> PCA_IGNORE \<longrightarrow> j \<in> {1, 2, 3, 5}"
    by (simp add: nacl_phdr_check_data_def eval_nat_numeral All_less_Suc)
  then show ?thesis using assms by blast
qed

lemma entry_simps [simp]:
  "action (nacl_phdr_check_data ! 1) = PCA_TEXT_CHECK" "action (nacl_phdr_check_data ! 2) = PCA_RODATA"
  "action (nacl_phdr_check_data ! 3) = PCA_DATA" "action (nacl_phdr_check_data ! 5) = PCA_NONE"
  "action (nacl_phdr_check_data ! Suc 0) = PCA_TEXT_CHECK" "c_vaddr (nacl_phdr_check_data ! Suc 0) = 0x20000"
  "c_vaddr (nacl_phdr_check_data ! 1) = 0x20000"
  by (simp_all add: nacl_phdr_check_data_def)

definition segment_ok :: "nat \<Rightarrow> Elf32_Phdr \<Rightarrow> bool" where
  "segment_ok bits p \<longleftrightarrow> matching_check p \<in> {1, 2, 3, 5} \<and> (matching_check p = 1 \<longrightarrow> p_vaddr p = 0x20000) \<and>
     0x20000 \<le> p_vaddr p \<and> p_memsz p \<noteq> 0 \<and> unat (p_vaddr p) + unat (p_memsz p) \<le> 2 ^ bits \<and> p_filesz p \<le> p_memsz p"

lemma unat_space: "bits \<le> 32 \<Longrightarrow> unat (push_bit bits 1 :: u64) = 2 ^ bits"
proof -
  assume "bits \<le> 32"
  then have "(2 :: nat) ^ bits < 2 ^ 64" by (intro power_strict_increasing) simp_all
  moreover have "push_bit bits 1 = (of_nat (2 ^ bits) :: u64)" by (simp add: push_bit_eq_mult)
  ultimately show ?thesis by (simp only: unat_of_nat) (simp add: take_bit_nat_eq_self)
qed

lemma unat_u32: "unat (ucast x :: u64) = unat x" for x :: u32
  using unsigned_less [of x, where ?'a = nat] by (simp add: unsigned_ucast_eq take_bit_nat_eq_self)

lemma space_test:
  assumes "bits \<le> 32" "\<not> (ucast (va :: u32) \<ge> (push_bit bits 1 :: u64) \<or> push_bit bits 1 - ucast va < (ucast (sz :: u32) :: u64))"
  shows "unat va + unat sz \<le> 2 ^ bits"
proof -
  have lt: "(ucast va :: u64) < push_bit bits 1" and le: "(ucast sz :: u64) \<le> push_bit bits 1 - ucast va"
    using assms(2) by (auto simp: not_le not_less)
  have "unat (push_bit bits 1 - ucast va :: u64) = 2 ^ bits - unat va"
    using unat_sub [OF less_imp_le [OF lt]] unfolding unat_space [OF assms(1)] unat_u32 .
  then have "unat sz \<le> 2 ^ bits - unat va" using le by (simp add: word_le_nat_alt unat_u32)
  moreover have "unat va < 2 ^ bits" using lt unfolding word_less_nat_alt unat_u32 unat_space [OF assms(1)] .
  ultimately show ?thesis by simp
qed

lemma error_chain:
  assumes "(if a then (LOAD_OK, s) else if b then (LOAD_BAD_SEGMENT, s) else if c then (LOAD_DUP_SEGMENT, s)
    else if d then (LOAD_OK, s1) else if e then (LOAD_SEGMENT_BAD_LOC, s1) else if f then (LOAD_SEGMENT_OUTSIDE_ADDRSPACE, s1)
    else if g then (LOAD_SEGMENT_OUTSIDE_ADDRSPACE, s1) else if h then (LOAD_SEGMENT_BAD_PARAM, s1) else (LOAD_OK, s2)) = (LOAD_OK, s')"
  shows "a \<and> s' = s \<or> \<not> a \<and> \<not> b \<and> \<not> c \<and> d \<and> s' = s1 \<or>
    \<not> a \<and> \<not> b \<and> \<not> c \<and> \<not> d \<and> \<not> e \<and> \<not> f \<and> \<not> g \<and> \<not> h \<and> s' = s2"
  using assms by (auto split: if_splits)

text \<open>A header that is passed over, ignored, or marked to be loaded.\<close>

lemma check_segment_cases:
  assumes "check_segment bits k s = (LOAD_OK, s')" "bits \<le> 32"
  obtains (empty) "p_memsz (phdrs (s_image s) ! k) = 0" "s' = s"
  | (ignored) j where "j = matching_check (phdrs (s_image s) ! k)" "p_memsz (phdrs (s_image s) ! k) \<noteq> 0" "j < 13"
      "\<not> seen_seg s ! j" "action (nacl_phdr_check_data ! j) = PCA_IGNORE" "s' = s\<lparr>seen_seg := (seen_seg s)[j := True]\<rparr>"
  | (loaded) j where "j = matching_check (phdrs (s_image s) ! k)" "segment_ok bits (phdrs (s_image s) ! k)"
      "\<not> seen_seg s ! j" "action (nacl_phdr_check_data ! j) \<noteq> PCA_IGNORE"
      "s' = s\<lparr>seen_seg := (seen_seg s)[j := True],
              s_image := (s_image s)\<lparr>loadable := (loadable (s_image s))[k := True]\<rparr>,
              s_info := record_segment (action (nacl_phdr_check_data ! j)) (phdrs (s_image s) ! k) (s_info s)\<rparr>"
proof -
  let ?p = "phdrs (s_image s) ! k"
  let ?j = "matching_check ?p"
  from error_chain [OF assms(1) [unfolded check_segment_def Let_def]]
  show ?thesis
  proof (elim disjE conjE)
    assume "0 = p_memsz ?p" "s' = s"
    then show ?thesis using empty by simp
  next
    assume "\<not> 0 = p_memsz ?p" "?j \<noteq> length nacl_phdr_check_data" "\<not> seen_seg s ! ?j"
      "PCA_IGNORE = action (nacl_phdr_check_data ! ?j)" "s' = s\<lparr>seen_seg := (seen_seg s)[?j := True]\<rparr>"
    then show ?thesis using matching_check_le [of ?p] by (intro ignored [OF refl]) auto
  next
    assume h: "\<not> 0 = p_memsz ?p" "?j \<noteq> length nacl_phdr_check_data" "\<not> seen_seg s ! ?j"
      "PCA_IGNORE \<noteq> action (nacl_phdr_check_data ! ?j)"
      "\<not> (0 \<noteq> c_vaddr (nacl_phdr_check_data ! ?j) \<and> c_vaddr (nacl_phdr_check_data ! ?j) \<noteq> p_vaddr ?p)"
      "\<not> p_vaddr ?p < NACL_TRAMPOLINE_END"
      "\<not> (push_bit bits 1 \<le> (ucast (p_vaddr ?p) :: u64) \<or> push_bit bits 1 - ucast (p_vaddr ?p) < (ucast (p_memsz ?p) :: u64))"
      "\<not> p_memsz ?p < p_filesz ?p"
    assume s': "s' = s\<lparr>seen_seg := (seen_seg s)[?j := True],
      s_image := (s_image (s\<lparr>seen_seg := (seen_seg s)[?j := True]\<rparr>))
        \<lparr>loadable := (loadable (s_image (s\<lparr>seen_seg := (seen_seg s)[?j := True]\<rparr>)))[k := True]\<rparr>,
      s_info := record_segment (action (nacl_phdr_check_data ! ?j)) ?p (s_info (s\<lparr>seen_seg := (seen_seg s)[?j := True]\<rparr>))\<rparr>"
    have "?j < 13" using h(2) matching_check_le [of ?p] by simp
    then have "?j \<in> {1, 2, 3, 5}" using loaded_entries h(4) by metis
    then have "segment_ok bits ?p"
      using h space_test [OF assms(2) h(7)] by (auto simp: segment_ok_def not_less)
    then show ?thesis using h s' by (intro loaded [OF refl]) simp_all
  qed
qed

section \<open>All segments\<close>

text \<open>After the first \<open>k\<close> headers: what has been marked, and what has been seen. \<open>m\<close> is the entry of a header.\<close>

definition scan_inv :: "nat \<Rightarrow> NaClElfImage \<Rightarrow> nat \<Rightarrow> phdr_scan \<Rightarrow> bool" where
  "scan_inv bits img k s \<longleftrightarrow>
     (let m = \<lambda>i. matching_check (phdrs img ! i); used = \<lambda>i. p_memsz (phdrs img ! i) \<noteq> 0 in
      phdrs (s_image s) = phdrs img \<and> ehdr (s_image s) = ehdr img \<and>
      length (loadable (s_image s)) = 128 \<and> length (seen_seg s) = 13 \<and>
      (\<forall>i<128. loadable (s_image s) ! i \<longrightarrow> i < k \<and> segment_ok bits (phdrs img ! i)) \<and>
      (\<forall>i<k. used i \<longrightarrow> m i < 13 \<and> seen_seg s ! m i \<and>
         (action (nacl_phdr_check_data ! m i) \<noteq> PCA_IGNORE \<longrightarrow> loadable (s_image s) ! i)) \<and>
      (\<forall>j<13. seen_seg s ! j \<longrightarrow> (\<exists>i<k. used i \<and> m i = j)) \<and>
      (\<forall>i<k. \<forall>i'<k. used i \<and> used i' \<and> m i = m i' \<longrightarrow> i = i'))"

lemma scan_inv_empty:
  assumes "scan_inv bits img k s" "p_memsz (phdrs img ! k) = 0"
  shows "scan_inv bits img (Suc k) s"
  using assms unfolding scan_inv_def Let_def less_Suc_eq by blast

lemma scan_inv_seen:
  assumes inv: "scan_inv bits img k s" and used: "p_memsz (phdrs img ! k) \<noteq> 0" and j: "matching_check (phdrs img ! k) < 13"
    and new: "\<not> seen_seg s ! matching_check (phdrs img ! k)"
    and s': "seen_seg s' = (seen_seg s)[matching_check (phdrs img ! k) := True]"
      "phdrs (s_image s') = phdrs img" "ehdr (s_image s') = ehdr img" "length (loadable (s_image s')) = 128"
    and ld: "\<forall>i<128. loadable (s_image s') ! i \<longrightarrow> i < Suc k \<and> segment_ok bits (phdrs img ! i)"
      "\<forall>i<k. loadable (s_image s') ! i = loadable (s_image s) ! i"
      "action (nacl_phdr_check_data ! matching_check (phdrs img ! k)) \<noteq> PCA_IGNORE \<longrightarrow> loadable (s_image s') ! k"
  shows "scan_inv bits img (Suc k) s'"
proof -
  let ?m = "\<lambda>i. matching_check (phdrs img ! i)" and ?u = "\<lambda>i. p_memsz (phdrs img ! i) \<noteq> 0"
  have i: "length (seen_seg s) = 13"
    "\<forall>i<k. ?u i \<longrightarrow> ?m i < 13 \<and> seen_seg s ! ?m i \<and> (action (nacl_phdr_check_data ! ?m i) \<noteq> PCA_IGNORE \<longrightarrow> loadable (s_image s) ! i)"
    "\<forall>j<13. seen_seg s ! j \<longrightarrow> (\<exists>i<k. ?u i \<and> ?m i = j)" "\<forall>i<k. \<forall>i'<k. ?u i \<and> ?u i' \<and> ?m i = ?m i' \<longrightarrow> i = i'"
    using inv unfolding scan_inv_def Let_def by blast+
  have seen: "seen_seg s' ! q \<longleftrightarrow> q = ?m k \<or> seen_seg s ! q" if "q < 13" for q
    using that j i(1) s'(1) by (auto simp: nth_list_update)
  have a: "?m i < 13 \<and> seen_seg s' ! ?m i \<and> (action (nacl_phdr_check_data ! ?m i) \<noteq> PCA_IGNORE \<longrightarrow> loadable (s_image s') ! i)"
    if "i < Suc k" "?u i" for i
  proof (cases "i = k")
    case True
    then show ?thesis using j seen ld(3) by blast
  next
    case False
    then show ?thesis using that i(2) seen ld(2) less_SucE by metis
  qed
  have b: "\<exists>i<Suc k. ?u i \<and> ?m i = q" if "q < 13" "seen_seg s' ! q" for q
    using that seen i(3) used less_SucI by (metis lessI)
  have c: "i = i'" if "i < Suc k" "i' < Suc k" "?u i" "?u i'" "?m i = ?m i'" for i i'
    using that new i(2,4) less_SucE by metis
  show ?thesis unfolding scan_inv_def Let_def using a b c s' ld(1) i(1) by auto
qed

lemma check_segment_inv:
  assumes "check_segment bits k s = (LOAD_OK, s')" "bits \<le> 32" "scan_inv bits img k s" "k < 128"
  shows "scan_inv bits img (Suc k) s'"
proof -
  have i: "phdrs (s_image s) = phdrs img" "ehdr (s_image s) = ehdr img" "length (loadable (s_image s)) = 128"
    "\<forall>i<128. loadable (s_image s) ! i \<longrightarrow> i < k \<and> segment_ok bits (phdrs img ! i)"
    using assms(3) unfolding scan_inv_def Let_def by blast+
  from assms(1,2) show ?thesis
  proof (cases rule: check_segment_cases)
    case empty
    then show ?thesis using scan_inv_empty [OF assms(3)] i(1) by simp
  next
    case (ignored j)
    show ?thesis
      by (rule scan_inv_seen [OF assms(3)]) (use ignored i in \<open>auto simp: less_Suc_eq\<close>)
  next
    case (loaded j)
    have j: "j < 13" "p_memsz (phdrs img ! k) \<noteq> 0" using loaded(1,2) i(1) by (auto simp: segment_ok_def)
    have ld: "loadable (s_image s') = (loadable (s_image s))[k := True]" "segment_ok bits (phdrs img ! k)"
      using loaded i(1) by simp_all
    show ?thesis
    proof (rule scan_inv_seen [OF assms(3)])
      show "\<forall>q<128. loadable (s_image s') ! q \<longrightarrow> q < Suc k \<and> segment_ok bits (phdrs img ! q)"
      proof (intro allI impI)
        fix q assume q: "q < 128" "loadable (s_image s') ! q"
        then show "q < Suc k \<and> segment_ok bits (phdrs img ! q)"
          unfolding ld(1) using i(3,4) ld(2) less_SucI by (cases "q = k") auto
      qed
    qed (use loaded j i ld assms(4) in auto)
  qed
qed

lemma check_segments_inv:
  assumes "check_segments bits [k..<n] s = (LOAD_OK, s')" "bits \<le> 32" "scan_inv bits img k s" "k \<le> n" "n \<le> 128"
  shows "scan_inv bits img n s'"
  using assms
proof (induction "n - k" arbitrary: k s)
  case 0
  then show ?case by simp
next
  case (Suc d)
  then have k: "k < n" "[k..<n] = k # [Suc k..<n]" by (simp_all add: upt_conv_Cons)
  obtain e s1 where c: "check_segment bits k s = (e, s1)" by fastforce
  have e: "e = LOAD_OK" and r: "check_segments bits [Suc k..<n] s1 = (LOAD_OK, s')"
    using Suc.prems(1) unfolding k(2) by (auto simp: c split: NaClErrorCode.splits)
  show ?case
    using Suc.hyps(2) k(1) Suc.prems check_segment_inv [OF c [unfolded e] Suc.prems(2,3)]
    by (intro Suc.hyps(1) [OF _ r]) simp_all
qed


section \<open>What is recorded of them\<close>

definition seg_end :: "Elf32_Phdr \<Rightarrow> u64" where
  "seg_end p = ucast (p_vaddr p + p_memsz p)"

text \<open>The numbers recorded are those of the segments \<open>L\<close> that are loaded.\<close>

definition info_ok :: "(nat \<Rightarrow> Elf32_Phdr) \<Rightarrow> nat set \<Rightarrow> NaClElfImageInfo \<Rightarrow> bool" where
  "info_ok ph L I \<longleftrightarrow>
     0x20000 \<le> i_max_vaddr I \<and> (\<forall>i\<in>L. seg_end (ph i) \<le> i_max_vaddr I) \<and>
     (i_max_vaddr I = 0x20000 \<or> (\<exists>i\<in>L. i_max_vaddr I = seg_end (ph i))) \<and>
     (\<forall>i\<in>L. matching_check (ph i) = 1 \<longrightarrow> i_text_end I = ucast (0x20000 + p_filesz (ph i))) \<and>
     ((\<forall>i\<in>L. matching_check (ph i) \<noteq> 1) \<longrightarrow> i_text_end I = 0) \<and>
     (\<forall>i\<in>L. matching_check (ph i) = 2 \<longrightarrow> i_rodata_start I = ucast (p_vaddr (ph i)) \<and> i_rodata_end I = seg_end (ph i)) \<and>
     ((\<forall>i\<in>L. matching_check (ph i) \<noteq> 2) \<longrightarrow> i_rodata_start I = 0 \<and> i_rodata_end I = 0) \<and>
     (\<forall>i\<in>L. matching_check (ph i) = 3 \<longrightarrow> i_data_start I = ucast (p_vaddr (ph i)) \<and> i_data_end I = seg_end (ph i)) \<and>
     ((\<forall>i\<in>L. matching_check (ph i) \<noteq> 3) \<longrightarrow> i_data_start I = 0 \<and> i_data_end I = 0)"

lemma record_segment_simps [simp]:
  "i_max_vaddr (record_segment a p I) = (if i_max_vaddr I < seg_end p then seg_end p else i_max_vaddr I)"
  "i_text_end (record_segment a p I) = (if a = PCA_TEXT_CHECK then ucast (0x20000 + p_filesz p) else i_text_end I)"
  "i_rodata_start (record_segment a p I) = (if a = PCA_RODATA then ucast (p_vaddr p) else i_rodata_start I)"
  "i_rodata_end (record_segment a p I) = (if a = PCA_RODATA then seg_end p else i_rodata_end I)"
  "i_data_start (record_segment a p I) = (if a = PCA_DATA then ucast (p_vaddr p) else i_data_start I)"
  "i_data_end (record_segment a p I) = (if a = PCA_DATA then seg_end p else i_data_end I)"
  by (simp_all add: record_segment_def seg_end_def Let_def split: NaClPhdrCheckAction.split)

lemma info_ok_max:
  fixes k :: nat and L :: "nat set" and I :: u64
  assumes "0x20000 \<le> I" "\<forall>i\<in>L. seg_end (ph i) \<le> I" "I = 0x20000 \<or> (\<exists>i\<in>L. I = seg_end (ph i))"
  defines "I' \<equiv> (if I < seg_end (ph k) then seg_end (ph k) else I)"
  shows "0x20000 \<le> I' \<and> (\<forall>i\<in>insert k L. seg_end (ph i) \<le> I') \<and> (I' = 0x20000 \<or> (\<exists>i\<in>insert k L. I' = seg_end (ph i)))"
  using assms(1-3) unfolding I'_def by (cases "I < seg_end (ph k)") (auto simp: not_less intro: order_trans less_imp_le)

lemma info_ok_insert:
  assumes "info_ok ph L I" "matching_check (ph k) \<in> {1, 2, 3, 5}" "\<forall>i\<in>L. matching_check (ph i) \<noteq> matching_check (ph k)"
  shows "info_ok ph (insert k L) (record_segment (action (nacl_phdr_check_data ! matching_check (ph k))) (ph k) I)"
proof -
  have "0x20000 \<le> i_max_vaddr I" "\<forall>i\<in>L. seg_end (ph i) \<le> i_max_vaddr I"
    "i_max_vaddr I = 0x20000 \<or> (\<exists>i\<in>L. i_max_vaddr I = seg_end (ph i))"
    using assms(1) unfolding info_ok_def by blast+
  note m = info_ok_max [OF this, of k]
  from assms(2) consider "matching_check (ph k) = 1" | "matching_check (ph k) = 2" | "matching_check (ph k) = 3"
    | "matching_check (ph k) = 5" by blast
  then show ?thesis
    using assms(1,3) m by cases (unfold info_ok_def record_segment_simps, simp_all)
qed

definition marked :: "phdr_scan \<Rightarrow> nat set" where
  "marked s = {i. i < 128 \<and> loadable (s_image s) ! i}"

lemma check_segment_info:
  assumes "check_segment bits k s = (LOAD_OK, s')" "bits \<le> 32" "scan_inv bits img k s" "k < 128"
    and "info_ok ((!) (phdrs img)) (marked s) (s_info s)"
  shows "info_ok ((!) (phdrs img)) (marked s') (s_info s')"
  using assms(1,2)
proof (cases rule: check_segment_cases)
  case empty
  then show ?thesis using assms(5) by simp
next
  case (ignored j)
  then show ?thesis using assms(5) by (simp add: marked_def)
next
  case (loaded j)
  have i: "phdrs (s_image s) = phdrs img" "length (loadable (s_image s)) = 128"
    "\<forall>i<128. loadable (s_image s) ! i \<longrightarrow> i < k \<and> segment_ok bits (phdrs img ! i)"
    "\<forall>i<k. p_memsz (phdrs img ! i) \<noteq> 0 \<longrightarrow> seen_seg s ! matching_check (phdrs img ! i)"
    using assms(3) unfolding scan_inv_def Let_def by blast+
  have m: "marked s' = insert k (marked s)"
    using loaded(5) i(2) assms(4) by (auto simp: marked_def nth_list_update)
  have f: "matching_check (phdrs img ! q) \<noteq> matching_check (phdrs img ! k)" if "q \<in> marked s" for q
  proof -
    have "q < k" "p_memsz (phdrs img ! q) \<noteq> 0" using that i(3) by (auto simp: marked_def segment_ok_def)
    then show ?thesis using i(4) loaded(1,3) i(1) by metis
  qed
  have "matching_check (phdrs img ! k) \<in> {1, 2, 3, 5}" using loaded(2) i(1) by (simp add: segment_ok_def)
  from info_ok_insert [OF assms(5) this] f show ?thesis unfolding m using loaded(1,5) i(1) by simp
qed

lemma check_segments_info:
  assumes "check_segments bits [k..<n] s = (LOAD_OK, s')" "bits \<le> 32" "scan_inv bits img k s" "k \<le> n" "n \<le> 128"
    and "info_ok ((!) (phdrs img)) (marked s) (s_info s)"
  shows "info_ok ((!) (phdrs img)) (marked s') (s_info s')"
  using assms
proof (induction "n - k" arbitrary: k s)
  case 0
  then show ?case by simp
next
  case (Suc d)
  then have k: "k < n" "[k..<n] = k # [Suc k..<n]" by (simp_all add: upt_conv_Cons)
  obtain e s1 where c: "check_segment bits k s = (e, s1)" by fastforce
  have e: "e = LOAD_OK" and r: "check_segments bits [Suc k..<n] s1 = (LOAD_OK, s')"
    using Suc.prems(1) unfolding k(2) by (auto simp: c split: NaClErrorCode.splits)
  have "k < 128" using k(1) Suc.prems(5) by simp
  note step = check_segment_inv [OF c [unfolded e] Suc.prems(2,3) this]
    check_segment_info [OF c [unfolded e] Suc.prems(2,3) this Suc.prems(6)]
  show ?case
    using Suc.hyps(2) k(1) Suc.prems step by (intro Suc.hyps(1) [OF _ r]) simp_all
qed

text \<open>The image as it is read: nothing is marked.\<close>

definition fresh_image :: "NaClElfImage \<Rightarrow> bool" where
  "fresh_image img \<longleftrightarrow> loadable img = replicate 128 False \<and> unat (e_phnum (ehdr img)) \<le> 128"

lemma validated_image:
  assumes v: "NaClElfImageValidateProgramHeaders img bits = (LOAD_OK, img', info)" and bits: "bits \<le> 32" and fr: "fresh_image img"
  defines "L \<equiv> {i. i < 128 \<and> loadable img' ! i}"
  shows "phdrs img' = phdrs img \<and> ehdr img' = ehdr img \<and> info_ok ((!) (phdrs img)) L info \<and>
    (\<forall>i\<in>L. i < unat (e_phnum (ehdr img)) \<and> segment_ok bits (phdrs img ! i)) \<and>
    (\<forall>i\<in>L. \<forall>i'\<in>L. matching_check (phdrs img ! i) = matching_check (phdrs img ! i') \<longrightarrow> i = i') \<and>
    (\<exists>i\<in>L. matching_check (phdrs img ! i) = 1)"
proof -
  let ?n = "unat (e_phnum (ehdr img))" and ?s0 = "\<lparr>s_image = img, s_info = no_info, seen_seg = replicate 13 False\<rparr>"
  obtain e s where c: "check_segments bits [0..<?n] ?s0 = (e, s)" by fastforce
  have e: "e = LOAD_OK" and r: "\<forall>j<13. required (nacl_phdr_check_data ! j) \<longrightarrow> seen_seg s ! j"
    and out: "img' = s_image s" "info = s_info s"
    using v c by (auto simp: NaClElfImageValidateProgramHeaders_def split: if_splits)
  have n: "?n \<le> 128" using fr by (simp add: fresh_image_def)
  have inv0: "scan_inv bits img 0 ?s0" using fr by (simp add: scan_inv_def fresh_image_def)
  have "marked ?s0 = {}" using fr by (simp add: marked_def fresh_image_def)
  then have info0: "info_ok ((!) (phdrs img)) (marked ?s0) (s_info ?s0)" by (simp add: info_ok_def no_info_def)
  have info: "info_ok ((!) (phdrs img)) (marked s) (s_info s)"
    by (rule check_segments_info [OF c [unfolded e] bits inv0 _ n info0]) simp
  have "scan_inv bits img ?n s" by (rule check_segments_inv [OF c [unfolded e] bits inv0 _ n]) simp
  then have i: "phdrs (s_image s) = phdrs img" "ehdr (s_image s) = ehdr img"
    "\<forall>i<128. loadable (s_image s) ! i \<longrightarrow> i < ?n \<and> segment_ok bits (phdrs img ! i)"
    "\<forall>i<?n. p_memsz (phdrs img ! i) \<noteq> 0 \<longrightarrow> (action (nacl_phdr_check_data ! matching_check (phdrs img ! i)) \<noteq> PCA_IGNORE \<longrightarrow> loadable (s_image s) ! i)"
    "\<forall>j<13. seen_seg s ! j \<longrightarrow> (\<exists>i<?n. p_memsz (phdrs img ! i) \<noteq> 0 \<and> matching_check (phdrs img ! i) = j)"
    "\<forall>i<?n. \<forall>i'<?n. p_memsz (phdrs img ! i) \<noteq> 0 \<and> p_memsz (phdrs img ! i') \<noteq> 0 \<and>
       matching_check (phdrs img ! i) = matching_check (phdrs img ! i') \<longrightarrow> i = i'"
    unfolding scan_inv_def Let_def by blast+
  have L: "L = marked s" unfolding L_def out(1) marked_def ..
  have "required (nacl_phdr_check_data ! 1)" by (simp add: nacl_phdr_check_data_def)
  moreover have one: "(1 :: nat) < 13" by simp
  ultimately have "seen_seg s ! 1" using r by blast
  with one obtain t where t: "t < ?n" "p_memsz (phdrs img ! t) \<noteq> 0" "matching_check (phdrs img ! t) = 1"
    using i(5) by blast
  then have "t \<in> L" using i(4) n unfolding L marked_def by simp
  moreover have ok: "i < ?n \<and> segment_ok bits (phdrs img ! i)" if "i \<in> L" for i using that i(3) unfolding L marked_def by blast
  moreover have "i = i'" if "i \<in> L" "i' \<in> L" "matching_check (phdrs img ! i) = matching_check (phdrs img ! i')" for i i'
  proof -
    have "p_memsz (phdrs img ! i) \<noteq> 0" "p_memsz (phdrs img ! i') \<noteq> 0" using ok that(1,2) by (simp_all add: segment_ok_def)
    then show ?thesis using i(6) ok that by blast
  qed
  ultimately show ?thesis using i(1,2) t(3) info unfolding out L by blast
qed


section \<open>The segments that are loaded\<close>

lemma matching_check_kind:
  "matching_check p \<in> {1, 2, 3, 5} \<Longrightarrow>
     p_type p = (if matching_check p = 5 then PT_GNU_STACK else PT_LOAD) \<and>
     p_flags p = (if matching_check p = 1 then PF_R OR PF_X else if matching_check p = 2 then PF_R else PF_R OR PF_W)"
  using matching_check_match [of p] by (auto simp: nacl_phdr_check_data_def)

lemma matching_check_cong: "p_type p = p_type q \<Longrightarrow> p_flags p = p_flags q \<Longrightarrow> matching_check p = matching_check q"
  by (simp add: matching_check_def)

text \<open>The kind of a segment that is loaded.\<close>

lemma matching_check_iff:
  assumes "matching_check p \<in> {1, 2, 3, 5}"
  shows "matching_check p = 1 \<longleftrightarrow> p_type p = PT_LOAD \<and> p_flags p = PF_R OR PF_X"
    "matching_check p = 2 \<longleftrightarrow> p_type p = PT_LOAD \<and> p_flags p = PF_R"
    "matching_check p = 3 \<longleftrightarrow> p_type p = PT_LOAD \<and> p_flags p = PF_R OR PF_W"
  using matching_check_kind [OF assms] assms by (auto split: if_splits)

lemma recorded_numbers:
  assumes "info_ok ph L I" "\<forall>i\<in>L. matching_check (ph i) \<in> {1, 2, 3, 5}"
  shows "\<forall>i\<in>L. p_type (ph i) = PT_LOAD \<longrightarrow>
      (p_flags (ph i) = PF_R OR PF_X \<longrightarrow> i_text_end I = ucast (NACL_TRAMPOLINE_END + p_filesz (ph i))) \<and>
      (p_flags (ph i) = PF_R \<longrightarrow> i_rodata_start I = ucast (p_vaddr (ph i)) \<and> i_rodata_end I = seg_end (ph i)) \<and>
      (p_flags (ph i) = PF_R OR PF_W \<longrightarrow> i_data_start I = ucast (p_vaddr (ph i)) \<and> i_data_end I = seg_end (ph i))"
    and "(\<forall>i\<in>L. (p_type (ph i), p_flags (ph i)) \<noteq> (PT_LOAD, PF_R)) \<Longrightarrow> i_rodata_start I = 0 \<and> i_rodata_end I = 0"
    and "(\<forall>i\<in>L. (p_type (ph i), p_flags (ph i)) \<noteq> (PT_LOAD, PF_R OR PF_W)) \<Longrightarrow> i_data_start I = 0 \<and> i_data_end I = 0"
proof -
  have k: "matching_check (ph i) = 1 \<longleftrightarrow> p_type (ph i) = PT_LOAD \<and> p_flags (ph i) = PF_R OR PF_X"
    "matching_check (ph i) = 2 \<longleftrightarrow> p_type (ph i) = PT_LOAD \<and> p_flags (ph i) = PF_R"
    "matching_check (ph i) = 3 \<longleftrightarrow> p_type (ph i) = PT_LOAD \<and> p_flags (ph i) = PF_R OR PF_W" if "i \<in> L" for i
    using matching_check_iff assms(2) that by blast+
  have i: "\<forall>i\<in>L. matching_check (ph i) = 1 \<longrightarrow> i_text_end I = ucast (NACL_TRAMPOLINE_END + p_filesz (ph i))"
    "\<forall>i\<in>L. matching_check (ph i) = 2 \<longrightarrow> i_rodata_start I = ucast (p_vaddr (ph i)) \<and> i_rodata_end I = seg_end (ph i)"
    "\<forall>i\<in>L. matching_check (ph i) = 3 \<longrightarrow> i_data_start I = ucast (p_vaddr (ph i)) \<and> i_data_end I = seg_end (ph i)"
    "(\<forall>i\<in>L. matching_check (ph i) \<noteq> 2) \<longrightarrow> i_rodata_start I = 0 \<and> i_rodata_end I = 0"
    "(\<forall>i\<in>L. matching_check (ph i) \<noteq> 3) \<longrightarrow> i_data_start I = 0 \<and> i_data_end I = 0"
    using assms(1) unfolding info_ok_def NACL_TRAMPOLINE_END_def by blast+
  show "\<forall>i\<in>L. p_type (ph i) = PT_LOAD \<longrightarrow>
      (p_flags (ph i) = PF_R OR PF_X \<longrightarrow> i_text_end I = ucast (NACL_TRAMPOLINE_END + p_filesz (ph i))) \<and>
      (p_flags (ph i) = PF_R \<longrightarrow> i_rodata_start I = ucast (p_vaddr (ph i)) \<and> i_rodata_end I = seg_end (ph i)) \<and>
      (p_flags (ph i) = PF_R OR PF_W \<longrightarrow> i_data_start I = ucast (p_vaddr (ph i)) \<and> i_data_end I = seg_end (ph i))"
    using k i(1-3) by metis
  show "(\<forall>i\<in>L. (p_type (ph i), p_flags (ph i)) \<noteq> (PT_LOAD, PF_R)) \<Longrightarrow> i_rodata_start I = 0 \<and> i_rodata_end I = 0"
    using k(2) i(4) by auto
  show "(\<forall>i\<in>L. (p_type (ph i), p_flags (ph i)) \<noteq> (PT_LOAD, PF_R OR PF_W)) \<Longrightarrow> i_data_start I = 0 \<and> i_data_end I = 0"
    using k(3) i(5) by auto
qed

text \<open>C36: The segments that the check of the program headers marks to be loaded are of the four kinds of the
  table (text, read-only data, data, and the marker of the stack), at most one of each and exactly one text,
  which is at its place; they lie above the trampolines and within the address space, and no file part is
  longer than its memory. The headers themselves are not changed. The numbers that are recorded are those of
  these segments: the end of the text is where its file part ends, the read-only data and the data start
  at the address and end at the end of theirs, or are 0 when there is none, and the highest address is that
  of the segment that ends last, or the end of the trampolines. (An end is a 32-bit sum: that of a segment
  that ends with the address space of 32 bits is 0.)\<close>

theorem validated_segments_confined:
  assumes "NaClElfImageValidateProgramHeaders img bits = (LOAD_OK, img', info)" "bits \<le> 32" "fresh_image img"
  shows "phdrs img' = phdrs img \<and> ehdr img' = ehdr img \<and>
    (\<forall>i<128. loadable img' ! i \<longrightarrow> (let p = phdrs img ! i in
       i < unat (e_phnum (ehdr img)) \<and>
       (p_type p, p_flags p) \<in> {(PT_LOAD, PF_R OR PF_X), (PT_LOAD, PF_R), (PT_LOAD, PF_R OR PF_W), (PT_GNU_STACK, PF_R OR PF_W)} \<and>
       (p_flags p = PF_R OR PF_X \<longrightarrow> p_vaddr p = NACL_TRAMPOLINE_END) \<and>
       unat NACL_TRAMPOLINE_END \<le> unat (p_vaddr p) \<and> unat (p_vaddr p) + unat (p_memsz p) \<le> 2 ^ bits \<and>
       unat (p_filesz p) \<le> unat (p_memsz p))) \<and>
    (\<forall>i<128. \<forall>i'<128. loadable img' ! i \<and> loadable img' ! i' \<and> p_type (phdrs img ! i) = p_type (phdrs img ! i') \<and>
       p_flags (phdrs img ! i) = p_flags (phdrs img ! i') \<longrightarrow> i = i') \<and>
    (\<exists>i<128. loadable img' ! i \<and> p_type (phdrs img ! i) = PT_LOAD \<and> p_flags (phdrs img ! i) = PF_R OR PF_X) \<and>
    (let L = {i. i < 128 \<and> loadable img' ! i}; ph = \<lambda>i. phdrs img ! i; end_of = \<lambda>i. ucast (p_vaddr (ph i) + p_memsz (ph i)) in
       (\<forall>i\<in>L. p_type (ph i) = PT_LOAD \<longrightarrow>
          (p_flags (ph i) = PF_R OR PF_X \<longrightarrow> i_text_end info = ucast (NACL_TRAMPOLINE_END + p_filesz (ph i))) \<and>
          (p_flags (ph i) = PF_R \<longrightarrow> i_rodata_start info = ucast (p_vaddr (ph i)) \<and> i_rodata_end info = end_of i) \<and>
          (p_flags (ph i) = PF_R OR PF_W \<longrightarrow> i_data_start info = ucast (p_vaddr (ph i)) \<and> i_data_end info = end_of i)) \<and>
       ((\<forall>i\<in>L. (p_type (ph i), p_flags (ph i)) \<noteq> (PT_LOAD, PF_R)) \<longrightarrow> i_rodata_start info = 0 \<and> i_rodata_end info = 0) \<and>
       ((\<forall>i\<in>L. (p_type (ph i), p_flags (ph i)) \<noteq> (PT_LOAD, PF_R OR PF_W)) \<longrightarrow> i_data_start info = 0 \<and> i_data_end info = 0) \<and>
       i_max_vaddr info \<in> insert (ucast NACL_TRAMPOLINE_END) (end_of ` L) \<and>
       ucast NACL_TRAMPOLINE_END \<le> i_max_vaddr info \<and> (\<forall>i\<in>L. end_of i \<le> i_max_vaddr info))"
proof -
  note v = validated_image [OF assms]
  have ok: "i < unat (e_phnum (ehdr img)) \<and> segment_ok bits (phdrs img ! i)" if "i < 128" "loadable img' ! i" for i
    using v that by blast
  have "let p = phdrs img ! i in i < unat (e_phnum (ehdr img)) \<and>
       (p_type p, p_flags p) \<in> {(PT_LOAD, PF_R OR PF_X), (PT_LOAD, PF_R), (PT_LOAD, PF_R OR PF_W), (PT_GNU_STACK, PF_R OR PF_W)} \<and>
       (p_flags p = PF_R OR PF_X \<longrightarrow> p_vaddr p = NACL_TRAMPOLINE_END) \<and>
       unat NACL_TRAMPOLINE_END \<le> unat (p_vaddr p) \<and> unat (p_vaddr p) + unat (p_memsz p) \<le> 2 ^ bits \<and>
       unat (p_filesz p) \<le> unat (p_memsz p)" if "i < 128" "loadable img' ! i" for i
    using ok [OF that] matching_check_kind [of "phdrs img ! i"]
    by (auto simp: segment_ok_def Let_def word_le_nat_alt)
  moreover have "i = i'" if "i < 128" "i' < 128" "loadable img' ! i" "loadable img' ! i'"
      "p_type (phdrs img ! i) = p_type (phdrs img ! i')" "p_flags (phdrs img ! i) = p_flags (phdrs img ! i')" for i i'
    using v that matching_check_cong [OF that(5,6)] by blast
  moreover obtain t where "t < 128" "loadable img' ! t" "matching_check (phdrs img ! t) = 1" using v by blast
  moreover from this have "p_type (phdrs img ! t) = PT_LOAD \<and> p_flags (phdrs img ! t) = PF_R OR PF_X"
    using matching_check_kind [of "phdrs img ! t"] by simp
  moreover
  let ?L = "{i. i < 128 \<and> loadable img' ! i}"
  have info: "info_ok ((!) (phdrs img)) ?L info" using v by blast
  have "\<forall>i\<in>?L. matching_check (phdrs img ! i) \<in> {1, 2, 3, 5}" using ok unfolding segment_ok_def by blast
  note recorded_numbers [OF info this, unfolded seg_end_def]
  moreover have "ucast NACL_TRAMPOLINE_END \<le> i_max_vaddr info" "\<forall>i\<in>?L. seg_end (phdrs img ! i) \<le> i_max_vaddr info"
    "i_max_vaddr info \<in> insert (ucast NACL_TRAMPOLINE_END) ((\<lambda>i. seg_end (phdrs img ! i)) ` ?L)"
    using info unfolding info_ok_def by auto
  note this [unfolded seg_end_def]
  ultimately show ?thesis unfolding Let_def using v by (intro conjI) blast+
qed

text \<open>An image with a text, a read-only and a data segment.\<close>

definition sample_phdr :: "u32 \<Rightarrow> u32 \<Rightarrow> u32 \<Rightarrow> u32 \<Rightarrow> u32 \<Rightarrow> Elf32_Phdr" where
  "sample_phdr off va fsz msz fl = \<lparr>p_type = PT_LOAD, p_offset = off, p_vaddr = va, p_paddr = va, p_filesz = fsz,
     p_memsz = msz, p_flags = fl, p_align = 0x10000\<rparr>"

definition sample_ehdr :: "nat \<Rightarrow> Elf32_Ehdr" where
  "sample_ehdr n = \<lparr>e_ident = ELFMAG @ [1, 1, 1] @ replicate 9 0, e_type = 2, e_machine = 62, e_version = 1, e_entry = 0x20000,
     e_phoff = 52, e_shoff = 0, e_flags = 0, e_ehsize = 52, e_phentsize = 32, e_phnum = of_nat n, e_shentsize = 0, e_shnum = 0,
     e_shstrndx = 0\<rparr>"

definition sample_image :: NaClElfImage where
  "sample_image = new_image (sample_ehdr 3)
     [sample_phdr 0x10000 0x20000 0x100 0x100 5, sample_phdr 0x20000 0x40000 0x80 0x80 4, sample_phdr 0x30000 0x60000 0x40 0x90 6]"

lemmas sample_image_defs = sample_image_def sample_phdr_def sample_ehdr_def new_image_def NACL_MAX_PROGRAM_HEADERS_def

lemma sample_image_valid:
  "fst (NaClElfImageValidateProgramHeaders sample_image 32) = LOAD_OK" "fresh_image sample_image"
  by code_simp (simp add: fresh_image_def sample_image_defs)

theorem validated_segments_confined_witness:
  "\<exists>img' info. NaClElfImageValidateProgramHeaders sample_image 32 = (LOAD_OK, img', info) \<and>
    (\<exists>i<128. loadable img' ! i \<and> p_type (phdrs sample_image ! i) = PT_LOAD \<and> p_flags (phdrs sample_image ! i) = PF_R OR PF_X)"
proof -
  obtain img' info where v: "NaClElfImageValidateProgramHeaders sample_image 32 = (LOAD_OK, img', info)"
    using sample_image_valid(1) by (metis prod.collapse)
  have "(32 :: nat) \<le> 32" by simp
  from validated_segments_confined [OF v this sample_image_valid(2)] show ?thesis using v by blast
qed

section \<open>The image is that of the file\<close>

text \<open>The same numbers in both forms.\<close>

definition same_phdr :: "Elf32_Phdr \<Rightarrow> Elf64_Phdr \<Rightarrow> bool" where
  "same_phdr p q \<longleftrightarrow> p_type p = p_type q \<and> p_flags p = p_flags q \<and> unat (p_offset p) = unat (p_offset q) \<and>
     unat (p_vaddr p) = unat (p_vaddr q) \<and> unat (p_paddr p) = unat (p_paddr q) \<and> unat (p_filesz p) = unat (p_filesz q) \<and>
     unat (p_memsz p) = unat (p_memsz q) \<and> unat (p_align p) = unat (p_align q)"

lemma narrow_exact: "\<not> 0xffffffff < x \<Longrightarrow> unat (ucast x :: u32) = unat x" for x :: u64
  by (simp add: not_less word_le_nat_alt unsigned_ucast_eq take_bit_nat_eq_self)

lemma same_narrow_phdr: "\<not> phdr_overflows q \<Longrightarrow> same_phdr (narrow_phdr q) q"
  by (simp add: phdr_overflows_def same_phdr_def narrow_phdr_def narrow_exact)

lemma read_exactly_Some: "read_exactly pread h n off = (Some bs, h') \<longleftrightarrow> pread h (of_nat n) off = (Some bs, h') \<and> length bs = n"
  by (auto simp: read_exactly_def split: prod.splits option.splits if_splits)

text \<open>C35: The image that is checked is that of the file. When reading it succeeds, the headers have been read whole, from
  the place the header names; the header has the magic number and describes an executable for the
  processor, and the sizes it states are those of the structs (a 64-bit header states its own, both state
  that of a program header); there are as many program headers as the file says, at most 128; and every number of a program header is the one in the file, for a 64-bit file, too: numbers
  that do not fit are refused and never cut off.\<close>

theorem image_is_file:
  assumes "NaClElfImageNew pread h = (Inr img, h')"
  shows "\<exists>bs h1 ps. pread h 64 0 = (Some bs, h1) \<and> length bs = 64 \<and> take 4 bs = ELFMAG \<and> fresh_image img \<and>
    e_type (ehdr img) = ET_EXEC \<and> e_machine (ehdr img) = NACL_ELF_E_MACHINE \<and>
    length (phdrs img) = unat (e_phnum (ehdr img)) \<and> length (phdrs img) \<le> NACL_MAX_PROGRAM_HEADERS \<and>
    (if bs ! 4 = ELFCLASS64 then
       pread h1 (of_nat (length (phdrs img) * 56)) (e_phoff (Elf64_Ehdr bs)) = (Some ps, h') \<and>
       e_phnum (ehdr img) = e_phnum (Elf64_Ehdr bs) \<and> e_ehsize (Elf64_Ehdr bs) = 64 \<and> e_phentsize (Elf64_Ehdr bs) = 56 \<and>
       length ps = length (phdrs img) * 56 \<and> unat (NaClElfImageGetEntryPoint img) = unat (e_entry (Elf64_Ehdr bs)) \<and>
       (\<forall>i<length (phdrs img). same_phdr (phdrs img ! i) (Elf64_Phdr (take 56 (drop (56 * i) ps))))
     else
       pread h1 (of_nat (length (phdrs img) * 32)) (ucast (e_phoff (Elf32_Ehdr bs))) = (Some ps, h') \<and>
       ehdr img = Elf32_Ehdr bs \<and> e_phentsize (Elf32_Ehdr bs) = 32 \<and>
       length ps = length (phdrs img) * 32 \<and> NaClElfImageGetEntryPoint img = ucast (e_entry (Elf32_Ehdr bs)) \<and>
       (\<forall>i<length (phdrs img). phdrs img ! i = Elf32_Phdr (take 32 (drop (32 * i) ps))))"
proof -
  obtain bs h1 where r: "read_exactly pread h 64 0 = (Some bs, h1)"
    using assms by (auto simp: NaClElfImageNew_def split: prod.splits option.splits)
  then have bs: "pread h 64 0 = (Some bs, h1)" "length bs = 64" by (simp_all add: read_exactly_Some)
  let ?E = "Elf64_Ehdr bs"
  have id: "e_ident ?E ! 4 = bs ! 4" "take 4 (e_ident ?E) = take 4 bs" "take 4 (e_ident (Elf32_Ehdr bs)) = take 4 bs"
    by (simp_all add: Elf64_Ehdr_def Elf32_Ehdr_def)
  have valid: "take 4 (e_ident x) = ELFMAG \<and> e_type x = ET_EXEC \<and> e_machine x = NACL_ELF_E_MACHINE"
    if "NaClElfImageValidateElfHeader x = LOAD_OK" for x
    using that by (auto simp: NaClElfImageValidateElfHeader_def split: if_splits)
  show ?thesis
  proof (cases "bs ! 4 = ELFCLASS64")
    case True
    let ?h = "narrow_ehdr ?E"
    let ?n = "unat (e_phnum ?h)"
    have e: "\<not> 0xffffffff < e_entry ?E" "\<not> 0xffffffff < e_phoff ?E" "LOAD_OK = NaClElfImageValidateElfHeader ?h" "\<not> 128 < ?n"
      "e_ehsize ?E = 64" "e_phentsize ?E = 56"
      using assms True by (auto simp: NaClElfImageNew_def r Let_def id(1) NACL_MAX_PROGRAM_HEADERS_def split: if_splits)
    obtain ps where ps: "read_exactly pread h1 (?n * 56) (ucast (e_phoff ?h)) = (Some ps, h')"
      and ov: "\<not> (\<exists>p\<in>set (array_of Elf64_Phdr 56 ?n ps). phdr_overflows p)"
      and img: "img = new_image ?h (map narrow_phdr (array_of Elf64_Phdr 56 ?n ps))"
      using assms True
      by (auto simp: NaClElfImageNew_def r Let_def id(1) NACL_MAX_PROGRAM_HEADERS_def split: if_splits prod.splits option.splits)
    have off: "(ucast (e_phoff ?h) :: u64) = e_phoff ?E" and entry: "unat (NaClElfImageGetEntryPoint img) = unat (e_entry ?E)"
      using narrow_exact [OF e(1)] narrow_exact [OF e(2)]
      by (simp_all add: narrow_ehdr_def img new_image_def NaClElfImageGetEntryPoint_def unat_u32 word_unat_eq_iff)
    have len: "length (phdrs img) = ?n" "ehdr img = ?h" by (simp_all add: img new_image_def array_of_def)
    have same: "same_phdr (phdrs img ! i) (Elf64_Phdr (take 56 (drop (56 * i) ps)))" if "i < ?n" for i
      using ov that by (simp add: img new_image_def array_of_def same_narrow_phdr)
    have fresh: "fresh_image img" using e(4) by (simp add: fresh_image_def img new_image_def NACL_MAX_PROGRAM_HEADERS_def)
    have mag: "take 4 (e_ident ?h) = take 4 bs" "e_phnum ?h = e_phnum ?E" by (simp_all add: narrow_ehdr_def id(2))
    have few: "?n \<le> NACL_MAX_PROGRAM_HEADERS" using e(4) by (simp add: NACL_MAX_PROGRAM_HEADERS_def)
    show ?thesis
      by (intro exI [of _ bs] exI [of _ h1] exI [of _ ps])
        (use True bs ps [unfolded off read_exactly_Some] entry same fresh valid [OF e(3) [symmetric]] mag e(5,6) few in \<open>simp add: len\<close>)
  next
    case False
    let ?h = "Elf32_Ehdr bs"
    let ?n = "unat (e_phnum ?h)"
    have e: "LOAD_OK = NaClElfImageValidateElfHeader ?h" "\<not> 128 < ?n" "e_phentsize ?h = 32"
      using assms False by (auto simp: NaClElfImageNew_def r Let_def id(1) NACL_MAX_PROGRAM_HEADERS_def split: if_splits)
    obtain ps where ps: "read_exactly pread h1 (?n * 32) (ucast (e_phoff ?h)) = (Some ps, h')"
      and img: "img = new_image ?h (array_of Elf32_Phdr 32 ?n ps)"
      using assms False
      by (auto simp: NaClElfImageNew_def r Let_def id(1) NACL_MAX_PROGRAM_HEADERS_def split: if_splits prod.splits option.splits)
    have len: "length (phdrs img) = ?n" "ehdr img = ?h" by (simp_all add: img new_image_def array_of_def)
    have same: "phdrs img ! i = Elf32_Phdr (take 32 (drop (32 * i) ps))" if "i < ?n" for i
      using that by (simp add: img new_image_def array_of_def)
    have fresh: "fresh_image img" using e(2) by (simp add: fresh_image_def img new_image_def NACL_MAX_PROGRAM_HEADERS_def)
    have few: "?n \<le> NACL_MAX_PROGRAM_HEADERS" using e(2) by (simp add: NACL_MAX_PROGRAM_HEADERS_def)
    show ?thesis
      using False bs ps [unfolded read_exactly_Some] same fresh valid [OF e(1) [symmetric]] id(3) e(3) few unfolding len
      by (intro exI [of _ bs] exI [of _ h1] exI [of _ ps]) (simp add: NaClElfImageGetEntryPoint_def len)
  qed
qed


text \<open>A 64-bit file with one program header.\<close>

definition file_pread :: "u8 list \<Rightarrow> unit pread" where
  "file_pread f h n off = (Some (take (unat n) (drop (unat off) f)), h)"

definition sample_file :: "u8 list" where
  "sample_file = ELFMAG @ [2, 1, 1] @ replicate 9 0 @ [2, 0, 62, 0, 1, 0, 0, 0] @ bytes_of (0x20000 :: u64) @ bytes_of (64 :: u64) @
     replicate 12 0 @ [64, 0, 56, 0, 1, 0] @ replicate 6 0 @
     [1, 0, 0, 0, 5, 0, 0, 0] @ bytes_of (0x10000 :: u64) @ bytes_of (0x20000 :: u64) @ bytes_of (0x20000 :: u64) @
     bytes_of (0x100 :: u64) @ bytes_of (0x100 :: u64) @ bytes_of (0x10000 :: u64)"

lemma sample_file_reads:
  "(case fst (NaClElfImageNew (file_pread sample_file) ()) of Inl e \<Rightarrow> False | Inr img \<Rightarrow> length (phdrs img) = 1) \<and>
   sample_file ! 4 = ELFCLASS64"
  by code_simp

theorem image_is_file_witness:
  "\<exists>img. NaClElfImageNew (file_pread sample_file) () = (Inr img, ()) \<and> fresh_image img"
proof -
  obtain img where i: "NaClElfImageNew (file_pread sample_file) () = (Inr img, ())"
    using sample_file_reads by (cases "NaClElfImageNew (file_pread sample_file) ()") (auto split: sum.splits)
  from image_is_file [OF this] have "fresh_image img" by blast
  with i show ?thesis by blast
qed

end
