(* ===== verification/SgxDriver.thy ===== *)
theory SgxDriver
  imports NaClConfig
begin

text \<open>
  Building the enclave from outside (\<open>service_runtime/sgx_interface.c\<close>): creating it, adding pages, and
  initialising it, through the \<open>isgx\<close> driver.

  What the operating system and the driver answer is given by \<open>sgx_os\<close>, on a state of its own; what the
  code asks of the driver is recorded in \<open>asked\<close>, latest first. The two loops may run for ever, so they
  are partial functions: \<open>None\<close> is not to return.
\<close>

definition pagesize :: u64 where [simp]: "pagesize = 4096"

definition SGX_SECINFO_FLAGS_R :: u64 where [simp]: "SGX_SECINFO_FLAGS_R = 1"
definition SGX_SECINFO_FLAGS_W :: u64 where [simp]: "SGX_SECINFO_FLAGS_W = 2"
definition SGX_SECINFO_FLAGS_X :: u64 where [simp]: "SGX_SECINFO_FLAGS_X = 4"
definition SGX_SECINFO_FLAGS_TCS :: u64 where [simp]: "SGX_SECINFO_FLAGS_TCS = 0x100"
definition SGX_SECINFO_FLAGS_REG :: u64 where [simp]: "SGX_SECINFO_FLAGS_REG = 0x200"
definition SGX_FLAGS_INITTED :: u64 where [simp]: "SGX_FLAGS_INITTED = 1"

text \<open>Results of the C library are signed; the errors the code returns itself are these.\<close>

definition minus_EPERM :: u32 where [simp]: "minus_EPERM = - 1"
definition minus_ENOMEM :: u32 where [simp]: "minus_ENOMEM = - 12"
definition minus_EINVAL :: u32 where [simp]: "minus_EINVAL = - 22"

definition PROT_READ :: u32 where [simp]: "PROT_READ = 1"
definition PROT_WRITE :: u32 where [simp]: "PROT_WRITE = 2"
definition PROT_EXEC :: u32 where [simp]: "PROT_EXEC = 4"

section \<open>Data\<close>

text \<open>The members the code reads or sets.\<close>

record sgx_arch_secs =
  secs_size :: u64
  baseaddr :: u64
  ssaframesize :: u32
  miscselect :: u32
  secs_flags :: u64
  secs_xfrm :: u64
  mrenclave :: "u8 list"

record sgx_arch_token =
  tok_flags :: u64
  tok_xfrm :: u64
  tok_mrenclave :: "u8 list"
  miscselect_mask :: u32

datatype sgx_page_type = SGX_PAGE_SECS | SGX_PAGE_TCS | SGX_PAGE_REG

text \<open>A page to add: \<open>ap_src\<close> is the memory from the source address on, or \<open>None\<close> for the page of zeros; the
  driver takes its first 4096 bytes. \<open>ap_mrmask\<close> says which parts of the page are measured.\<close>

record sgx_enclave_add_page =
  ap_addr :: u64
  ap_src :: "u8 list option"
  ap_secinfo :: u64
  ap_mrmask :: u16

datatype sgx_request =
    EnclaveCreate sgx_arch_secs
  | EnclaveAddPage sgx_enclave_add_page
  | EnclaveInit u64 "u8 list" sgx_arch_token

text \<open>\<open>open\<close>, \<open>fstat\<close> (its result and the size of the file), \<open>read\<close> (its result and what it stored), the two
  mappings (of the page of zeros, and of the enclave, with their addresses), \<open>cpuid\<close> (the four registers for a
  leaf and a subleaf), \<open>errno\<close>, and the requests to the driver.\<close>

record 'd sgx_os =
  os_open :: "string \<Rightarrow> 'd \<Rightarrow> u32 \<times> 'd"
  os_fstat :: "u32 \<Rightarrow> 'd \<Rightarrow> (u32 \<times> u64) \<times> 'd"
  os_read_token :: "u32 \<Rightarrow> 'd \<Rightarrow> (u32 \<times> sgx_arch_token) \<times> 'd"
  os_read_sigstruct :: "u32 \<Rightarrow> 'd \<Rightarrow> (u32 \<times> u8 list) \<times> 'd"
  os_mmap_zero :: "'d \<Rightarrow> u64 \<times> 'd"
  os_mmap_enclave :: "u64 \<Rightarrow> u64 \<Rightarrow> 'd \<Rightarrow> u64 \<times> 'd"
  os_cpuid :: "u32 \<Rightarrow> u32 \<Rightarrow> u32 \<times> u32 \<times> u32 \<times> u32"
  os_errno :: "'d \<Rightarrow> u32"
  os_ioctl :: "sgx_request \<Rightarrow> 'd \<Rightarrow> u32 \<times> 'd"

record 'd sgx_build =
  os :: 'd
  zero_page :: bool
  asked :: "sgx_request list"

definition on_os :: "('d \<Rightarrow> 'a \<times> 'd) \<Rightarrow> 'd sgx_build \<Rightarrow> 'a \<times> 'd sgx_build" where
  "on_os f b = (case f (os b) of (r, d) \<Rightarrow> (r, b\<lparr>os := d\<rparr>))"

definition ioctl :: "'d sgx_os \<Rightarrow> sgx_request \<Rightarrow> 'd sgx_build \<Rightarrow> u32 \<times> 'd sgx_build" where
  "ioctl E q b = (case os_ioctl E q (os b) of (r, d) \<Rightarrow> (r, b\<lparr>os := d, asked := q # asked b\<rparr>))"

section \<open>Adding pages\<close>

definition secinfo_flags :: "sgx_page_type \<Rightarrow> u32 \<Rightarrow> u64" where
  "secinfo_flags type prot = (case type of
       SGX_PAGE_SECS \<Rightarrow> 0
     | SGX_PAGE_TCS \<Rightarrow> SGX_SECINFO_FLAGS_TCS
     | SGX_PAGE_REG \<Rightarrow> SGX_SECINFO_FLAGS_REG
         OR (if prot AND PROT_READ \<noteq> 0 then SGX_SECINFO_FLAGS_R else 0)
         OR (if prot AND PROT_WRITE \<noteq> 0 then SGX_SECINFO_FLAGS_W else 0)
         OR (if prot AND PROT_EXEC \<noteq> 0 then SGX_SECINFO_FLAGS_X else 0))"

definition next_page :: "sgx_enclave_add_page \<Rightarrow> sgx_enclave_add_page" where
  "next_page p = p\<lparr>ap_addr := ap_addr p + pagesize, ap_src := map_option (drop 4096) (ap_src p)\<rparr>"

partial_function (option) add_pages_loop ::
  "'d sgx_os \<Rightarrow> u64 \<Rightarrow> sgx_enclave_add_page \<Rightarrow> u64 \<Rightarrow> 'd sgx_build \<Rightarrow> (u32 \<times> 'd sgx_build) option" where
  "add_pages_loop E len p added_size b =
     (if added_size < len then
        case ioctl E (EnclaveAddPage p) b of (ret, b) \<Rightarrow>
          if ret <s 0 then Some (ret, b) else add_pages_loop E len (next_page p) (added_size + pagesize) b
      else Some (0, b))"

definition add_pages_to_enclave ::
  "'d sgx_os \<Rightarrow> sgx_arch_secs \<Rightarrow> u64 \<Rightarrow> u8 list option \<Rightarrow> u64 \<Rightarrow> sgx_page_type \<Rightarrow> u32 \<Rightarrow> bool \<Rightarrow>
     'd sgx_build \<Rightarrow> (u32 \<times> 'd sgx_build) option" where
  "add_pages_to_enclave E secs addr user_addr len type prot skip_eextend b =
     (if type = SGX_PAGE_SECS then Some (minus_EPERM, b)
      else add_pages_loop E len \<lparr>ap_addr = baseaddr secs + addr, ap_src = user_addr,
             ap_secinfo = secinfo_flags type prot, ap_mrmask = (if skip_eextend then 0 else - 1)\<rparr> 0 b)"

section \<open>Creating the enclave\<close>

definition SE_LEAF :: u32 where [simp]: "SE_LEAF = 0x12"
definition sizeof_sgx_arch_gpr_t :: u64 where [simp]: "sizeof_sgx_arch_gpr_t = 184"

definition sgx_ALLOC_ALIGNUP :: "u64 \<Rightarrow> u64" where
  "sgx_ALLOC_ALIGNUP addr = (if pagesize \<noteq> 0 then (addr + (pagesize - 1)) AND NOT (pagesize - 1) else addr)"

text \<open>The size of a frame: the largest of the parts the processor saves, or that the token asks for, and the
  registers.\<close>

definition get_ssaframesize :: "'d sgx_os \<Rightarrow> u64 \<Rightarrow> u64" where
  "get_ssaframesize E xfrm =
     (case os_cpuid E SE_LEAF 1 of (_, _, c, d) \<Rightarrow>
        let xfrm_ex = push_bit 32 (ucast d) + ucast c :: u64;
            xsave_size = fold (\<lambda>i xsave_size.
              if bit xfrm i \<or> bit xfrm_ex i then
                case os_cpuid E 0xd (of_nat i) of (a, b, _, _) \<Rightarrow> if a + b > xsave_size then a + b else xsave_size
              else xsave_size) [2..<64] 0
        in sgx_ALLOC_ALIGNUP (ucast xsave_size + sizeof_sgx_arch_gpr_t + 1))"

partial_function (option) secs_size_loop :: "u64 \<Rightarrow> u64 \<Rightarrow> u64 option" where
  "secs_size_loop sz len = (if sz < len then secs_size_loop (push_bit 1 sz) len else Some sz)"

definition create_enclave ::
  "'d sgx_os \<Rightarrow> sgx_arch_secs \<Rightarrow> u64 \<Rightarrow> u64 \<Rightarrow> sgx_arch_token \<Rightarrow> 'd sgx_build \<Rightarrow> (u32 \<times> sgx_arch_secs \<times> 'd sgx_build) option" where
  "create_enclave E secs base len token b =
     (let (ok, b) = (if zero_page b then (True, b)
                     else case on_os (os_mmap_zero E) b of (z, b) \<Rightarrow> (z \<noteq> - 1, b\<lparr>zero_page := True\<rparr>))
      in if \<not> ok then Some (minus_ENOMEM, secs, b)
         else Option.bind (secs_size_loop pagesize len) (\<lambda>sz.
           let secs = \<lparr>secs_size = sz, baseaddr = 0,
                 ssaframesize = ucast (get_ssaframesize E (tok_xfrm token) div pagesize),
                 miscselect = miscselect_mask token, secs_flags = tok_flags token, secs_xfrm = tok_xfrm token,
                 mrenclave = tok_mrenclave token\<rparr>;
               (addr, b) = on_os (os_mmap_enclave E (baseaddr secs) (secs_size secs)) b
           in if addr \<ge> - 4095 then Some (- os_errno E (os b), secs, b)
              else
                let secs = secs\<lparr>baseaddr := addr\<rparr>;
                    (ret, b) = ioctl E (EnclaveCreate secs) b
                in if ret <s 0 then Some (ret, secs, b)
                   else if ret \<noteq> 0 then Some (minus_EPERM, secs, b)
                   else Some (0, secs\<lparr>secs_flags := secs_flags secs OR SGX_FLAGS_INITTED\<rparr>, b)))"

section \<open>The files\<close>

definition sizeof_sigstruct :: u64 where "sizeof_sigstruct = 1808"
definition sizeof_token :: u64 where "sizeof_token = 304"

definition open_sgx :: "'d sgx_os \<Rightarrow> 'd sgx_build \<Rightarrow> u32 \<times> 'd sgx_build" where
  "open_sgx E b = (case on_os (os_open E ''/dev/isgx'') b of (fd, b) \<Rightarrow> (if fd <s 0 then fd else 0, b))"

definition read_enclave_sigstruct :: "'d sgx_os \<Rightarrow> u32 \<Rightarrow> 'd sgx_build \<Rightarrow> (u32 \<times> u8 list) \<times> 'd sgx_build" where
  "read_enclave_sigstruct E sigfile b = (case on_os (os_fstat E sigfile) b of ((ret, sz), b) \<Rightarrow>
     if ret <s 0 then ((ret, []), b)
     else if sz <s sizeof_sigstruct then ((minus_EINVAL, []), b)
     else case on_os (os_read_sigstruct E sigfile) b of ((n, sig), b) \<Rightarrow> ((if n <s 0 then n else 0, sig), b))"

definition read_enclave_token ::
  "'d sgx_os \<Rightarrow> u32 \<Rightarrow> sgx_arch_token \<Rightarrow> 'd sgx_build \<Rightarrow> (u32 \<times> sgx_arch_token) \<times> 'd sgx_build" where
  "read_enclave_token E token_file stack b = (case on_os (os_fstat E token_file) b of ((ret, sz), b) \<Rightarrow>
     if ret <s 0 then ((ret, stack), b)
     else if sz \<noteq> sizeof_token then ((minus_EINVAL, stack), b)
     else case on_os (os_read_token E token_file) b of ((n, tok), b) \<Rightarrow> ((if n <s 0 then n else 0, tok), b))"

record sgx_files =
  sig_file :: string
  token_file :: string
  nacl_file :: string

text \<open>\<open>stack\<close> is what the memory of the token holds before it is read.\<close>

definition load_enclave ::
  "'d sgx_os \<Rightarrow> sgx_files \<Rightarrow> sgx_arch_token \<Rightarrow> sgx_arch_secs \<Rightarrow> 'd sgx_build \<Rightarrow> (u32 \<times> sgx_arch_secs \<times> 'd sgx_build) option" where
  "load_enclave E F stack secs b =
     (let (r, b) = open_sgx E b in if r <s 0 then Some (- 1, secs, b) else
      let (sigfile, b) = on_os (os_open E (sig_file F)) b in if sigfile <s 0 then Some (- 1, secs, b) else
      let (tokenfile, b) = on_os (os_open E (token_file F)) b in if tokenfile <s 0 then Some (- 1, secs, b) else
      let (exec_image, b) = on_os (os_open E (nacl_file F)) b in if exec_image <s 0 then Some (- 1, secs, b) else
      let ((ret, token), b) = read_enclave_token E tokenfile stack b in if ret <s 0 then Some (- 1, secs, b) else
      Option.bind (create_enclave E secs 0 0x1000000000 token b) (\<lambda>(ret, secs, b).
        Some (if ret <s 0 then - 1 else 0, secs, b)))"

definition init_enclave ::
  "'d sgx_os \<Rightarrow> sgx_files \<Rightarrow> sgx_arch_token \<Rightarrow> sgx_arch_secs \<Rightarrow> 'd sgx_build \<Rightarrow> u32 \<times> 'd sgx_build" where
  "init_enclave E F stack secs b =
     (let (r, b) = open_sgx E b in if r <s 0 then (- 1, b) else
      let (sigfile, b) = on_os (os_open E (sig_file F)) b in if sigfile <s 0 then (- 1, b) else
      let (tokenfile, b) = on_os (os_open E (token_file F)) b in if tokenfile <s 0 then (- 1, b) else
      let ((ret, sig), b) = read_enclave_sigstruct E sigfile b in if ret <s 0 then (- 1, b) else
      let ((ret, token), b) = read_enclave_token E tokenfile stack b in if ret <s 0 then (- 1, b) else
      let (ret, b) = ioctl E (EnclaveInit (baseaddr secs + secs_size secs - pagesize) sig token) b
      in if ret <s 0 then (ret, b) else if ret \<noteq> 0 then (minus_EPERM, b) else (0, b))"

section \<open>The loops end\<close>

lemma page_step:
  assumes "added < len" "unat len \<le> 2 ^ 64 - 4096"
  shows "unat (added + 4096 :: u64) = unat added + 4096"
  using assms by (simp add: unat_word_ariths word_less_nat_alt)

text \<open>The requests for the pages of a region, in order.\<close>

definition page_at :: "sgx_enclave_add_page \<Rightarrow> nat \<Rightarrow> sgx_enclave_add_page" where
  "page_at p i = p\<lparr>ap_addr := ap_addr p + 4096 * of_nat i, ap_src := map_option (drop (4096 * i)) (ap_src p)\<rparr>"

lemma page_at_0 [simp]: "page_at p 0 = p"
  by (cases p) (simp add: page_at_def map_option.id [unfolded id_def])

lemma page_at_Suc: "page_at (next_page p) i = page_at p (Suc i)"
  by (cases p) (simp add: page_at_def next_page_def option.map_comp comp_def add.commute algebra_simps)


lemma page_at_next [simp]: "page_at p 1 = next_page p"
  by (simp flip: page_at_Suc)

text \<open>What the loop has asked for after \<open>n\<close> pages.\<close>

definition asked_pages :: "sgx_enclave_add_page \<Rightarrow> nat \<Rightarrow> sgx_request list" where
  "asked_pages p n = rev (map (\<lambda>i. EnclaveAddPage (page_at p i)) [0..<n])"

lemma asked_pages_Suc: "asked_pages p (Suc n) = asked_pages (next_page p) n @ [EnclaveAddPage p]"
  by (simp add: asked_pages_def page_at_Suc map_upt_Suc del: upt_Suc)

lemma pages_Suc: "0 < x \<Longrightarrow> (x + 4095) div 4096 = Suc ((x - 4096 + 4095) div 4096)" for x :: nat
  by (cases "x \<le> 4096") auto

lemma unat_2p: "k < 64 \<Longrightarrow> unat ((2 :: u64) ^ k) = 2 ^ k"
proof -
  assume k: "k < 64"
  have "(2 :: u64) ^ k = of_nat (2 ^ k)" by simp
  moreover have "(2 :: nat) ^ k < 2 ^ 64" using k by (intro power_strict_increasing) simp_all
  ultimately show ?thesis by (simp only: unat_of_nat) (simp add: take_bit_nat_eq_self)
qed

lemma add_pages_loop_returns:
  assumes "unat len \<le> 2 ^ 64 - 4096"
  shows "\<exists>n ret b'. add_pages_loop E len p added b = Some (ret, b') \<and> asked b' = asked_pages p n @ asked b \<and>
    n \<le> (unat len - unat added + 4095) div 4096 \<and> (ret <s 0 \<or> ret = 0 \<and> n = (unat len - unat added + 4095) div 4096)"
  using assms
proof (induction "unat len - unat added" arbitrary: added p b rule: less_induct)
  case less
  show ?case
  proof (cases "added < len")
    case False
    then have "unat len - unat added = 0" by (simp add: word_less_nat_alt)
    then show ?thesis using False by (simp add: add_pages_loop.simps asked_pages_def)
  next
    case True
    obtain ret d where r: "os_ioctl E (EnclaveAddPage p) (os b) = (ret, d)" by fastforce
    let ?b = "b\<lparr>os := d, asked := EnclaveAddPage p # asked b\<rparr>"
    let ?k = "(unat len - unat (added + 4096) + 4095) div 4096"
    have step: "unat (added + 4096) = unat added + 4096" using page_step [OF True less.prems] .
    have lt: "unat added < unat len" using True by (simp add: word_less_nat_alt)
    then have k: "(unat len - unat added + 4095) div 4096 = Suc ?k"
      using pages_Suc [of "unat len - unat added"] unfolding step by (simp add: diff_diff_left)
    show ?thesis
    proof (cases "ret <s 0")
      case True
      have "asked ?b = asked_pages p (Suc 0) @ asked b" by (simp add: asked_pages_def)
      then show ?thesis unfolding k using True \<open>added < len\<close> r
        by (intro exI [of _ "Suc 0"] exI [of _ ret] exI [of _ ?b]) (simp add: add_pages_loop.simps ioctl_def)
    next
      case False
      have "unat len - unat (added + 4096) < unat len - unat added" unfolding step using lt by simp
      from less.hyps [OF this less.prems, of "next_page p" ?b]
      obtain n ret' b' where "add_pages_loop E len (next_page p) (added + 4096) ?b = Some (ret', b')"
        "asked b' = asked_pages (next_page p) n @ asked ?b" "n \<le> ?k" "ret' <s 0 \<or> ret' = 0 \<and> n = ?k" by blast
      then show ?thesis unfolding k using True False r
        by (intro exI [of _ "Suc n"] exI [of _ ret'] exI [of _ b'])
          (auto simp: add_pages_loop.simps [of E len p added] ioctl_def asked_pages_Suc)
    qed
  qed
qed

text \<open>C34: Adding pages returns. For every region of at most \<open>2 ^ 64 - 4096\<close> bytes, whatever the driver answers, the
  loop ends; it has asked for the pages in order, one by one, each at its address, with the bytes of the
  buffer at its place, with the same kind and permissions, and measured exactly if the caller did not ask
  to skip it. It returns 0 only when all have been accepted, and else the error of the last request.\<close>

theorem add_pages_returns:
  assumes "unat len \<le> 2 ^ 64 - 4096" "type \<noteq> SGX_PAGE_SECS"
  shows "\<exists>n ret b'. add_pages_to_enclave E secs addr src len type prot skip b = Some (ret, b') \<and>
    asked b' = asked_pages \<lparr>ap_addr = baseaddr secs + addr, ap_src = src, ap_secinfo = secinfo_flags type prot,
      ap_mrmask = (if skip then 0 else - 1)\<rparr> n @ asked b \<and>
    n \<le> (unat len + 4095) div 4096 \<and> (ret <s 0 \<or> ret = 0 \<and> n = (unat len + 4095) div 4096)"
proof -
  let ?p = "\<lparr>ap_addr = baseaddr secs + addr, ap_src = src, ap_secinfo = secinfo_flags type prot,
    ap_mrmask = (if skip then 0 else - 1)\<rparr>"
  have "add_pages_to_enclave E secs addr src len type prot skip b = add_pages_loop E len ?p 0 b"
    using assms(2) by (simp add: add_pages_to_enclave_def)
  then show ?thesis using add_pages_loop_returns [OF assms(1), of E ?p 0 b] by simp
qed

definition willing_os :: "unit sgx_os" where
  "willing_os = \<lparr>os_open = (\<lambda>_ d. (3, d)), os_fstat = (\<lambda>_ d. ((0, sizeof_token), d)),
     os_read_token = (\<lambda>_ d. ((0, \<lparr>tok_flags = 4, tok_xfrm = 3, tok_mrenclave = replicate 32 0, miscselect_mask = 0\<rparr>), d)),
     os_read_sigstruct = (\<lambda>_ d. ((0, []), d)), os_mmap_zero = (\<lambda>d. (0x1000, d)), os_mmap_enclave = (\<lambda>a _ d. (a, d)),
     os_cpuid = (\<lambda>_ _. (0, 0, 0, 0)), os_errno = (\<lambda>_. 0), os_ioctl = (\<lambda>_ d. (0, d))\<rparr>"

theorem add_pages_returns_witness:
  "\<exists>n ret b'. add_pages_to_enclave willing_os
      \<lparr>secs_size = 0x1000000000, baseaddr = 0, ssaframesize = 1, miscselect = 0, secs_flags = 5, secs_xfrm = 3, mrenclave = []\<rparr>
      0x20000 None 0x2000 SGX_PAGE_REG 5 True \<lparr>os = (), zero_page = True, asked = []\<rparr> = Some (ret, b') \<and>
    n \<le> (2 :: nat) \<and> (ret <s 0 \<or> ret = 0 \<and> n = 2)"
proof -
  have "unat (0x2000 :: u64) \<le> 2 ^ 64 - 4096" "SGX_PAGE_REG \<noteq> SGX_PAGE_SECS" by simp_all
  from add_pages_returns [OF this, where E = willing_os and secs =
      "\<lparr>secs_size = 0x1000000000, baseaddr = 0, ssaframesize = 1, miscselect = 0, secs_flags = 5, secs_xfrm = 3, mrenclave = []\<rparr>"
      and addr = "0x20000" and src = None and prot = 5 and skip = True and b = "\<lparr>os = (), zero_page = True, asked = []\<rparr>"]
  show ?thesis by auto
qed

section \<open>The size of the enclave\<close>

lemma secs_size_loop_returns:
  assumes "len \<le> 2 ^ 63" "sz = 2 ^ k" "k \<le> 63"
  shows "\<exists>j. secs_size_loop sz len = Some (2 ^ j) \<and> k \<le> j \<and> j \<le> 63 \<and> len \<le> 2 ^ j \<and> (j = k \<or> (2 :: u64) ^ (j - 1) < len)"
  using assms(2,3)
proof (induction "63 - k" arbitrary: k sz rule: less_induct)
  case less
  show ?case
  proof (cases "sz < len")
    case False
    then show ?thesis using less.prems by (intro exI [of _ k]) (simp add: secs_size_loop.simps)
  next
    case True
    have "k \<noteq> 63" using True assms(1) less.prems by auto
    then have k: "63 - Suc k < 63 - k" "Suc k \<le> 63" "push_bit 1 sz = 2 ^ Suc k"
      using less.prems by (simp_all add: push_bit_eq_mult)
    from less.hyps [OF k(1,3,2)] obtain j where j: "secs_size_loop (push_bit 1 sz) len = Some (2 ^ j)" "Suc k \<le> j" "j \<le> 63"
      "len \<le> 2 ^ j" "j = Suc k \<or> (2 :: u64) ^ (j - 1) < len" by auto
    then have "(2 :: u64) ^ (j - 1) < len" using True less.prems(1) by auto
    then show ?thesis using j True by (intro exI [of _ j]) (simp add: secs_size_loop.simps [of sz])
  qed
qed

lemma secs_size_loop_result:
  assumes "secs_size_loop sz len = Some r"
  shows "len \<le> r \<and> (\<exists>j. r = push_bit j sz)"
proof (rule secs_size_loop.raw_induct [where P = "\<lambda>sz len r. len \<le> r \<and> (\<exists>j. r = push_bit j sz)", OF _ assms])
  fix f :: "u64 \<Rightarrow> u64 \<Rightarrow> u64 option" and sz len r
  assume IH: "\<And>sz len r. f sz len = Some r \<Longrightarrow> len \<le> r \<and> (\<exists>j. r = push_bit j sz)"
    and eq: "(if sz < len then f (push_bit 1 sz) len else Some sz) = Some r"
  show "len \<le> r \<and> (\<exists>j. r = push_bit j sz)"
  proof (cases "sz < len")
    case True
    then have f: "f (push_bit 1 sz) len = Some r" using eq by simp
    then obtain j where "r = push_bit j (push_bit 1 sz)" using IH by blast
    then have "r = push_bit (j + 1) sz" by simp
    then show ?thesis using IH [OF f] by blast
  next
    case False
    then have "r = sz" "len \<le> sz" using eq by auto
    then show ?thesis by (auto intro: exI [of _ 0])
  qed
qed

text \<open>The size of the enclave is computed exactly for the sizes up to \<open>2 ^ 63\<close>: the loop returns the least power of two
  that is at least a page and at least the size. For larger sizes it shifts the size to 0 and never
  returns.\<close>

theorem secs_size_returns_iff:
  "(secs_size_loop pagesize len \<noteq> None \<longleftrightarrow> len \<le> 2 ^ 63) \<and>
   (\<forall>sz. secs_size_loop pagesize len = Some sz \<longrightarrow>
      (\<exists>j\<ge>12. sz = 2 ^ j \<and> len \<le> sz \<and> (\<forall>i. 12 \<le> i \<and> i < j \<longrightarrow> (2 :: u64) ^ i < len)))"
proof -
  have p: "pagesize = 2 ^ 12" by simp
  have big: "len \<le> 2 ^ 63" if r: "secs_size_loop pagesize len = Some r" for r
  proof -
    from secs_size_loop_result [OF r] obtain j where j: "len \<le> r" "r = push_bit j pagesize" by blast
    have "r \<le> 2 ^ 63"
    proof (cases "j < 52")
      case True
      then have "unat r = 2 ^ (j + 12)" unfolding j(2) p push_bit_eq_mult power_add [symmetric]
        by (simp add: add.commute unat_2p)
      also have "\<dots> \<le> (2 :: nat) ^ 63" using True by (intro power_increasing) simp_all
      finally show ?thesis by (simp add: word_le_nat_alt)
    next
      case False
      then have "r = 0" unfolding j(2) p push_bit_eq_mult power_add [symmetric] by (simp add: add.commute)
      then show ?thesis by simp
    qed
    then show ?thesis using j(1) by simp
  qed
  have small: "\<exists>j\<ge>12. secs_size_loop pagesize len = Some (2 ^ j) \<and> len \<le> 2 ^ j \<and> (\<forall>i. 12 \<le> i \<and> i < j \<longrightarrow> (2 :: u64) ^ i < len)"
    if len: "len \<le> 2 ^ 63"
  proof -
    obtain j where j: "secs_size_loop pagesize len = Some (2 ^ j)" "12 \<le> j" "j \<le> 63" "len \<le> 2 ^ j"
      "j = 12 \<or> (2 :: u64) ^ (j - 1) < len" using secs_size_loop_returns [OF len p] by auto
    have "(2 :: u64) ^ i < len" if i: "12 \<le> i" "i < j" for i
    proof -
      have "unat ((2 :: u64) ^ i) \<le> unat ((2 :: u64) ^ (j - 1))" using i j(3) by (simp add: unat_2p)
      then have "(2 :: u64) ^ i \<le> 2 ^ (j - 1)" by (simp add: word_le_nat_alt)
      moreover have "j \<noteq> 12" using i by simp
      ultimately show ?thesis using j(5) by (meson order_le_less_trans)
    qed
    then show ?thesis using j by blast
  qed
  show ?thesis using big small by (metis not_Some_eq option.inject)
qed

theorem secs_size_returns_iff_witness:
  "\<exists>sz. secs_size_loop pagesize 0x1000000000 = Some sz \<and> (\<exists>j\<ge>12. sz = 2 ^ j \<and> 0x1000000000 \<le> sz)"
  using secs_size_returns_iff [of "0x1000000000"] by (auto simp: word_le_nat_alt)

end
