(* ===== verification/ElfLoad.thy ===== *)
theory ElfLoad
  imports Elf SgxDriver
begin

text \<open>
  Loading the program and the runtime into the enclave (\<open>elf_util_usgx.c\<close>, second part, and
  \<open>sel_ldr_standard_usgx.c\<close>): the layout of the address space, the segments of the program, the runtime, and
  the pages the processor needs.

  The loader runs outside the enclave. \<open>load_env\<close> is what it works with: the operating system and the driver,
  the file of the program (\<open>map_file\<close>, a scratch mapping of a size at an offset: its bytes, or \<open>None\<close> for a
  negative error number) and of the runtime (\<open>runtime_pread\<close>), and the validator. They share one state, so any
  of them may change between two calls. What the validator was shown is recorded. \<open>malloc\<close> is taken to
  succeed. \<open>None\<close> as a result is not to return.
\<close>

record load_app =
  app :: sys_app
  rodata_start :: u64
  data_start :: u64
  stack_size :: u64
  initial_nexe_max_code_bytes :: u32
  initial_entry_pt :: u64
  main_exe_prevalidated :: bool
  text_shm :: bool

record 'd load_env =
  sgx :: "'d sgx_os"
  map_file :: "'d \<Rightarrow> u64 \<Rightarrow> u64 \<Rightarrow> u8 list option \<times> 'd"
  validate :: "'d \<Rightarrow> u64 \<Rightarrow> u8 list \<Rightarrow> bool \<times> 'd"
  runtime_pread :: "'d pread"
  host_io :: bool

record 'd load_state =
  nap :: load_app
  build :: "'d sgx_build"
  validated :: "(u64 \<times> u8 list \<times> bool) list"

definition with_os :: "('d \<Rightarrow> 'a \<times> 'd) \<Rightarrow> 'd load_state \<Rightarrow> 'a \<times> 'd load_state" where
  "with_os f st = (case on_os f (build st) of (r, b) \<Rightarrow> (r, st\<lparr>build := b\<rparr>))"

type_synonym ('d, 'a) loading = "('a \<times> 'd load_state) run option"

section \<open>The layout of the address space\<close>

definition NACL_HALT_SLED_SIZE :: u64 where [simp]: "NACL_HALT_SLED_SIZE = 32"
definition NACL_INSTR_BLOCK_SIZE :: u32 where [simp]: "NACL_INSTR_BLOCK_SIZE = 32"
definition NACL_MAX_ADDR_BITS :: nat where [simp]: "NACL_MAX_ADDR_BITS = 32"

definition NaClCheckAddressSpaceLayoutSanity :: "load_app \<Rightarrow> u64 \<Rightarrow> u64 \<Rightarrow> u64 \<Rightarrow> NaClErrorCode" where
  "NaClCheckAddressSpaceLayoutSanity n rodata_last data_last max_vaddr =
     (if 0 \<noteq> data_start n \<and> data_last \<noteq> max_vaddr then LOAD_DATA_NOT_LAST_SEGMENT
      else if 0 = data_start n \<and> 0 \<noteq> rodata_start n \<and> NaClRoundAllocPage rodata_last \<noteq> max_vaddr
      then LOAD_NO_DATA_BUT_RODATA_NOT_LAST_SEGMENT
      else if 0 \<noteq> rodata_start n \<and> 0 \<noteq> data_start n \<and> rodata_last > NaClTruncAllocPage (data_start n)
      then LOAD_RODATA_OVERLAPS_DATA
      else if 0 \<noteq> rodata_start n \<and> NaClRoundAllocPage (NaClEndOfStaticText (app n)) > rodata_start n
      then LOAD_TEXT_OVERLAPS_RODATA
      else if 0 = rodata_start n \<and> 0 \<noteq> data_start n \<and>
        NaClRoundAllocPage (NaClEndOfStaticText (app n)) > NaClTruncAllocPage (data_start n)
      then LOAD_TEXT_OVERLAPS_DATA
      else if 0 \<noteq> rodata_start n \<and> NaClRoundAllocPage (rodata_start n) \<noteq> rodata_start n then LOAD_BAD_RODATA_ALIGNMENT
      else LOAD_OK)"

definition NaClAddrIsValidEntryPt :: "sys_app \<Rightarrow> u64 \<Rightarrow> bool" where
  "NaClAddrIsValidEntryPt a addr \<longleftrightarrow> 0 = addr AND (ucast (bundle_size a) - 1) \<and> addr < static_text_end a"

definition NaClAddrIsValidIrtEntryPt :: "sys_app \<Rightarrow> u64 \<Rightarrow> bool" where
  "NaClAddrIsValidIrtEntryPt a addr \<longleftrightarrow> 0 = addr AND (ucast (bundle_size a) - 1) \<and> addr < dynamic_text_end a"

text \<open>Where the break is put.\<close>

definition break_start :: "NaClElfImageInfo \<Rightarrow> u64" where
  "break_start info =
     (if 0 = i_data_start info then
        NaClRoundAllocPage
          (if 0 = i_rodata_start info \<and>
              NaClRoundAllocPage (i_max_vaddr info) - i_max_vaddr info < NACL_HALT_SLED_SIZE
           then i_max_vaddr info + NACL_MAP_PAGESIZE else i_max_vaddr info)
      else i_max_vaddr info)"

text \<open>\<open>NaClAppLoadFileAslr\<close> up to the allocation of the address space.\<close>

definition load_layout ::
  "'h pread \<Rightarrow> 'h \<Rightarrow> load_app \<Rightarrow> (NaClErrorCode \<times> NaClElfImage option \<times> load_app) \<times> 'h" where
  "load_layout pread h n =
     (if addr_bits (app n) > NACL_MAX_ADDR_BITS then ((LOAD_ADDR_SPACE_TOO_BIG, None, n), h)
      else
        let n = n\<lparr>stack_size := NaClRoundAllocPage (stack_size n)\<rparr> in
        case NaClElfImageNew pread h of
          (Inl e, h) \<Rightarrow> ((e, None, n), h)
        | (Inr img, h) \<Rightarrow>
            (case NaClElfImageValidateProgramHeaders img (addr_bits (app n)) of (e, img, info) \<Rightarrow>
               if e \<noteq> LOAD_OK then ((e, Some img, n), h)
               else if initial_nexe_max_code_bytes n \<noteq> 0 \<and>
                 i_text_end info - ucast NACL_TRAMPOLINE_END > ucast (initial_nexe_max_code_bytes n)
               then ((LOAD_CODE_SEGMENT_TOO_LARGE, Some img, n), h)
               else
                 let max_vaddr = break_start info;
                     n = n\<lparr>app := (app n)\<lparr>static_text_end := i_text_end info, break_addr := max_vaddr,
                            data_end := max_vaddr, bundle_size := NACL_INSTR_BLOCK_SIZE\<rparr>,
                           rodata_start := i_rodata_start info, data_start := i_data_start info,
                           initial_entry_pt := NaClElfImageGetEntryPoint img\<rparr>
                 in if \<not> NaClAddrIsValidEntryPt (app n) (initial_entry_pt n) then ((LOAD_BAD_ENTRY, Some img, n), h)
                    else ((NaClCheckAddressSpaceLayoutSanity n (i_rodata_end info) (i_data_end info) max_vaddr,
                           Some img, n), h)))"

text \<open>The end of the text is filled with halts, in the memory of the loader.\<close>

definition NaClFillEndOfTextRegion :: "load_app \<Rightarrow> load_app run" where
  "NaClFillEndOfTextRegion n =
     (let e = static_text_end (app n) in
      if 0 \<noteq> data_start n \<and> e + NACL_HALT_SLED_SIZE > NaClTruncAllocPage (data_start n) then Inl LogFatal
      else if 0 \<noteq> rodata_start n \<and> e + NACL_HALT_SLED_SIZE > rodata_start n then Inl LogFatal
      else
        let page_pad = (if \<not> text_shm n then NaClRoundAllocPage (e + NACL_HALT_SLED_SIZE) - e
                        else NaClRoundAllocPage e - e)
        in guardE CheckFailed (text_shm n \<or> page_pad \<ge> NACL_HALT_SLED_SIZE \<and> page_pad < NACL_MAP_PAGESIZE + NACL_HALT_SLED_SIZE)
          (Inr (n\<lparr>app := (app n)\<lparr>static_text_end := e + page_pad,
             memory := store_bytes (mem_start (app n) + e) (replicate (unat page_pad) 0xf4) (memory (app n))\<rparr>\<rparr>)))"

section \<open>The segments of the program\<close>

text \<open>The permissions of a segment; other flags end the process.\<close>

definition segment_prot :: "u32 \<Rightarrow> u32 option" where
  "segment_prot flags = (if flags = PF_R OR PF_X then Some (PROT_READ OR PROT_EXEC)
     else if flags = PF_R OR PF_W then Some (PROT_READ OR PROT_WRITE)
     else if flags = PF_R then Some PROT_READ else None)"

definition rounded_segment :: "u32 \<Rightarrow> u64 \<Rightarrow> u64" where
  "rounded_segment segment_size vaddr =
     (let r = NaClRoundPage (ucast segment_size)
      in if (0xfff AND ucast segment_size) + (0xfff AND vaddr) > 0x1000 then r + 0x1000 else r)"

definition sgx_addr :: "u64 \<Rightarrow> u64" where
  "sgx_addr paddr = (paddr AND 0xffffffff) + 0x100000000"

definition add_segment ::
  "'d load_env \<Rightarrow> sgx_arch_secs \<Rightarrow> u32 \<Rightarrow> u32 \<Rightarrow> u32 \<Rightarrow> u64 \<Rightarrow> u64 \<Rightarrow> 'd load_state \<Rightarrow> ('d, NaClErrorCode) loading" where
  "add_segment E secs prot file_offset segment_size vaddr paddr st =
     (let rounded_filesz = rounded_segment segment_size vaddr in
      if rounded_filesz = 0 then Some (Inr (LOAD_OK, st))
      else case with_os (\<lambda>d. map_file E d rounded_filesz (ucast file_offset)) st of
        (None, st) \<Rightarrow> Some (Inr (LOAD_STATUS_UNKNOWN, st))
      | (Some bs, st) \<Rightarrow>
          Option.bind (add_pages_to_enclave (sgx E) secs (sgx_addr paddr) (Some bs) rounded_filesz SGX_PAGE_REG prot True (build st))
            (\<lambda>(ret, b). Some (if ret <s 0 then Inl LogFatal else Inr (LOAD_OK, st\<lparr>build := b\<rparr>))))"

definition NaClElfFileMapSegment ::
  "'d load_env \<Rightarrow> sgx_arch_secs \<Rightarrow> u32 \<Rightarrow> u32 \<Rightarrow> u32 \<Rightarrow> u64 \<Rightarrow> u64 \<Rightarrow> 'd load_state \<Rightarrow> ('d, NaClErrorCode) loading" where
  "NaClElfFileMapSegment E secs flags file_offset segment_size vaddr paddr st = (case segment_prot flags of
       None \<Rightarrow> Some (Inl LogFatal)
     | Some prot \<Rightarrow>
         if flags \<noteq> PF_R OR PF_X then add_segment E secs prot file_offset segment_size vaddr paddr st
         else if \<not> host_io E then Some (Inr (LOAD_STATUS_UNKNOWN, st))
         else case with_os (\<lambda>d. map_file E d (NaClRoundAllocPage (ucast segment_size)) (ucast file_offset)) st of
           (None, st) \<Rightarrow> Some (Inr (LOAD_STATUS_UNKNOWN, st))
         | (Some bs, st) \<Rightarrow>
             if ucast segment_size \<noteq> static_text_end (app (nap st)) - ucast NACL_TRAMPOLINE_END then Some (Inl CheckFailed)
             else
               let code = take (unat segment_size) bs; va = NaClTruncAllocPage vaddr;
                   (valid, st) = with_os (\<lambda>d. validate E d va code) st;
                   st = st\<lparr>validated := (va, code, valid) # validated st\<rparr>
               in if \<not> valid then Some (Inr (LOAD_STATUS_UNKNOWN, st))
                  else add_segment E secs prot file_offset segment_size vaddr paddr
                    (st\<lparr>nap := (nap st)\<lparr>main_exe_prevalidated := True\<rparr>\<rparr>))"

text \<open>One turn of the loop of \<open>NaClElfImageLoad\<close>: \<open>None\<close> is to go on with the next segment.\<close>

definition load_segment ::
  "'d load_env \<Rightarrow> sgx_arch_secs \<Rightarrow> Elf32_Phdr \<Rightarrow> bool \<Rightarrow> 'd load_state \<Rightarrow> ('d, NaClErrorCode option) loading" where
  "load_segment E secs php ld st =
     (let offset = ucast (NaClTruncAllocPage (ucast (p_offset php))) :: u32;
          filesz = p_offset php + p_filesz php - offset;
          end_vaddr = p_vaddr php + p_filesz php
      in if \<not> ld \<or> 0 = p_filesz php then Some (Inr (None, st))
         else if end_vaddr < p_vaddr php then Some (Inl LogFatal)
         else if ucast end_vaddr \<ge> (push_bit (addr_bits (app (nap st))) 1 :: u64) then Some (Inl LogFatal)
         else
           let paddr = NaClUserToSysAddr (app (nap st)) (NaClTruncAllocPage (ucast (p_vaddr php)))
           in if kNaClBadAddress = paddr then Some (Inl CheckFailed)
              else Option.bind (NaClElfFileMapSegment E secs (p_flags php) offset filesz (ucast (p_vaddr php)) paddr st)
                (\<lambda>r. Some (bindE r (\<lambda>(status, st).
                   Inr (if status = LOAD_OK \<or> status = LOAD_STATUS_UNKNOWN then None else Some status, st)))))"

fun load_segments ::
  "'d load_env \<Rightarrow> sgx_arch_secs \<Rightarrow> (Elf32_Phdr \<times> bool) list \<Rightarrow> 'd load_state \<Rightarrow> ('d, NaClErrorCode) loading" where
  "load_segments E secs [] st = Some (Inr (LOAD_OK, st))"
| "load_segments E secs ((php, ld) # ps) st = Option.bind (load_segment E secs php ld st) (\<lambda>r. case r of
       Inl f \<Rightarrow> Some (Inl f)
     | Inr (Some e, st) \<Rightarrow> Some (Inr (e, st))
     | Inr (None, st) \<Rightarrow> load_segments E secs ps st)"

definition image_segments :: "NaClElfImage \<Rightarrow> (Elf32_Phdr \<times> bool) list" where
  "image_segments img = map (\<lambda>i. (phdrs img ! i, loadable img ! i)) [0..<unat (e_phnum (ehdr img))]"

definition NaClElfImageLoad ::
  "'d load_env \<Rightarrow> sgx_arch_secs \<Rightarrow> NaClElfImage \<Rightarrow> 'd load_state \<Rightarrow> ('d, NaClErrorCode) loading" where
  "NaClElfImageLoad E secs img st = load_segments E secs (image_segments img) st"

section \<open>The runtime\<close>

definition runtime_base :: u64 where [simp]: "runtime_base = 0xc00000000"

definition load_runtime_segment ::
  "'d load_env \<Rightarrow> sgx_arch_secs \<Rightarrow> Elf32_Phdr \<Rightarrow> bool \<Rightarrow> 'd load_state \<Rightarrow> ('d, unit) loading" where
  "load_runtime_segment E secs php ld st =
     (if \<not> ld \<or> 0 = p_filesz php then Some (Inr ((), st))
      else if p_vaddr php + p_filesz php < p_vaddr php then Some (Inl LogFatal)
      else
        let rounded_filesz = NaClRoundPage (ucast (p_memsz php)) in
        case segment_prot (p_flags php) of
          None \<Rightarrow> Some (Inl LogFatal)
        | Some prot \<Rightarrow>
            (case with_os (\<lambda>d. runtime_pread E d (ucast (p_filesz php)) (ucast (p_offset php))) st of
               (None, st) \<Rightarrow> Some (Inl LogFatal)
             | (Some bs, st) \<Rightarrow>
                 if bs = [] then Some (Inl LogFatal)
                 else if length bs > unat rounded_filesz then Some (Inl OutOfBounds)
                 else Option.bind (add_pages_to_enclave (sgx E) secs (ucast (p_vaddr php) + runtime_base)
                     (Some (bs @ replicate (unat rounded_filesz - length bs) 0)) rounded_filesz SGX_PAGE_REG prot True (build st))
                   (\<lambda>(ret, b). Some (Inr ((), st\<lparr>build := b\<rparr>)))))"

fun load_runtime_segments ::
  "'d load_env \<Rightarrow> sgx_arch_secs \<Rightarrow> (Elf32_Phdr \<times> bool) list \<Rightarrow> 'd load_state \<Rightarrow> ('d, NaClErrorCode) loading" where
  "load_runtime_segments E secs [] st = Some (Inr (LOAD_OK, st))"
| "load_runtime_segments E secs ((php, ld) # ps) st = Option.bind (load_runtime_segment E secs php ld st)
     (\<lambda>r. case r of Inl f \<Rightarrow> Some (Inl f) | Inr (u, st) \<Rightarrow> load_runtime_segments E secs ps st)"

definition NaClElfImageLoadServiceRuntime ::
  "'d load_env \<Rightarrow> sgx_arch_secs \<Rightarrow> NaClElfImage \<Rightarrow> 'd load_state \<Rightarrow> ('d, NaClErrorCode) loading" where
  "NaClElfImageLoadServiceRuntime E secs img st = load_runtime_segments E secs (image_segments img) st"

section \<open>The pages of the processor\<close>

definition SSAFRAMENUM :: nat where [simp]: "SSAFRAMENUM = 2"
definition SSAFRAMESIZE :: u64 where [simp]: "SSAFRAMESIZE = 4096"

definition put_field :: "nat \<Rightarrow> 'a::len word \<Rightarrow> u8 list \<Rightarrow> u8 list" where
  "put_field i w bs = take i bs @ bytes_of w @ drop (i + LENGTH('a) div 8) bs"

text \<open>The addresses of the stack of the runtime, of its thread-local storage, its thread control structure and
  its state save area, relative to the enclave.\<close>

definition rt_stack_addr :: u64 where [simp]: "rt_stack_addr = 0xc20000000"
definition rt_tls_addr :: u64 where [simp]: "rt_tls_addr = 0xc30000000"
definition rt_tcs_addr :: u64 where [simp]: "rt_tcs_addr = 0xc30001000"
definition rt_ssa_addr :: u64 where [simp]: "rt_ssa_addr = 0xc30003000"

definition tls_page :: "sgx_arch_secs \<Rightarrow> u8 list" where
  "tls_page secs = (let ssa = rt_ssa_addr + baseaddr secs in
     put_field 88 (1 :: u32) (put_field 40 (ssa + SSAFRAMESIZE - 184) (put_field 32 ssa
       (put_field 16 (rt_stack_addr + 0x100000) (put_field 8 rt_tcs_addr (put_field 0 (secs_size secs)
         (replicate 8192 0)))))))"

definition tcs_page :: "u64 \<Rightarrow> u8 list" where
  "tcs_page entry =
     put_field 68 (0xfff :: u32) (put_field 64 (0xfff :: u32) (put_field 56 rt_tls_addr (put_field 48 rt_tls_addr
       (put_field 32 (0xc00000000 + entry) (put_field 28 (of_nat SSAFRAMENUM :: u32) (put_field 16 rt_ssa_addr
         (replicate 8192 0)))))))"

text \<open>A page to add: its address, contents, size, kind and permissions. Whether they are added is not looked
  at.\<close>

fun add_all :: "'d sgx_os \<Rightarrow> sgx_arch_secs \<Rightarrow> (u64 \<times> u8 list option \<times> u64 \<times> sgx_page_type \<times> u32) list \<Rightarrow>
    'd sgx_build \<Rightarrow> 'd sgx_build option" where
  "add_all E secs [] b = Some b"
| "add_all E secs ((addr, src, len, type, prot) # ps) b =
     Option.bind (add_pages_to_enclave E secs addr src len type prot True b) (\<lambda>(ret, b). add_all E secs ps b)"

text \<open>The pages the processor needs to enter the enclave; whether the enclave was initialised is not looked
  at.\<close>

definition processor_pages :: "sgx_arch_secs \<Rightarrow> u64 \<Rightarrow> (u64 \<times> u8 list option \<times> u64 \<times> sgx_page_type \<times> u32) list" where
  "processor_pages secs entry = (let tcs = tcs_page entry; rw = PROT_READ OR PROT_WRITE in
     [(rt_stack_addr, None, 0x100000, SGX_PAGE_REG, rw),
      (rt_tls_addr, Some (tls_page secs), NACL_PAGESIZE, SGX_PAGE_REG, rw),
      (rt_tcs_addr, Some tcs, NACL_PAGESIZE, SGX_PAGE_TCS, 0),
      (rt_ssa_addr, Some tcs, SSAFRAMESIZE * of_nat SSAFRAMENUM, SGX_PAGE_REG, rw),
      (rt_ssa_addr + SSAFRAMESIZE * of_nat SSAFRAMENUM, None, NACL_PAGESIZE, SGX_PAGE_REG, rw)])"

definition finish_enclave ::
  "'d load_env \<Rightarrow> sgx_files \<Rightarrow> sgx_arch_secs \<Rightarrow> sgx_arch_token \<Rightarrow> u64 \<Rightarrow> 'd load_state \<Rightarrow> ('d, unit) loading" where
  "finish_enclave E F secs stack entry st =
     Option.bind (add_all (sgx E) secs (processor_pages secs entry) (build st))
       (\<lambda>b. Some (Inr ((), st\<lparr>build := snd (init_enclave (sgx E) F stack secs b)\<rparr>)))"

definition load_runtime ::
  "'d load_env \<Rightarrow> sgx_files \<Rightarrow> sgx_arch_secs \<Rightarrow> Elf32_Ehdr \<times> sgx_arch_token \<Rightarrow> 'd load_state \<Rightarrow> ('d, unit) loading" where
  "load_runtime E F secs stack st =
     (case NaClElfImageServiceRuntimeNew (runtime_pread E) (fst stack) (os (build st)) of
        Inl f \<Rightarrow> Some (Inl f)
      | Inr (Inl e, d) \<Rightarrow> Some (Inl LogFatal)
      | Inr (Inr img, d) \<Rightarrow>
          Option.bind (NaClElfImageLoadServiceRuntime E secs img (st\<lparr>build := (build st)\<lparr>os := d\<rparr>\<rparr>)) (\<lambda>r. case r of
            Inl f \<Rightarrow> Some (Inl f)
          | Inr (subret, st) \<Rightarrow>
              if subret \<noteq> LOAD_OK then Some (Inl LogFatal)
              else finish_enclave E F secs (snd stack) (NaClElfImageGetEntryPoint img) st))"

text \<open>\<open>NaClLoadSGXSpecific\<close> up to the call into the enclave; \<open>stack\<close> is uninitialised memory.\<close>

definition NaClLoadSGXSpecific ::
  "'d load_env \<Rightarrow> sgx_files \<Rightarrow> sgx_arch_secs \<Rightarrow> Elf32_Ehdr \<times> sgx_arch_token \<Rightarrow> 'd load_state \<Rightarrow> ('d, unit) loading" where
  "NaClLoadSGXSpecific E F secs stack st =
     (let st = st\<lparr>nap := (nap st)\<lparr>app := (app (nap st))\<lparr>mem_start := 0x100000000\<rparr>\<rparr>\<rparr> in
      Option.bind (add_pages_to_enclave (sgx E) secs (baseaddr secs + 0x100000000 + 0xf0000000) None 0x10000000
          SGX_PAGE_REG (PROT_READ OR PROT_WRITE) True (build st))
        (\<lambda>(ret, b). if ret <s 0 then Some (Inl LogFatal) else load_runtime E F secs stack (st\<lparr>build := b\<rparr>)))"

end
