(* ===== verification/ElfLayout.thy ===== *)
theory ElfLayout
  imports ElfProps ElfLoad
begin

text \<open>
  The layout of the address space that the loader accepts, and the two ways around its checks.
\<close>

section \<open>What has been checked\<close>

lemma image_fresh:
  assumes "NaClElfImageNew pread h = (Inr img, h')"
  shows "fresh_image img"
  using assms
  by (auto simp: NaClElfImageNew_def Let_def fresh_image_def new_image_def NACL_MAX_PROGRAM_HEADERS_def
      split: if_splits prod.splits option.splits)

lemma load_layout_ok:
  assumes "load_layout pread h n = ((LOAD_OK, Some img2, n'), h')"
  obtains img info where "NaClElfImageNew pread h = (Inr img, h')"
    "NaClElfImageValidateProgramHeaders img (addr_bits (app n)) = (LOAD_OK, img2, info)" "addr_bits (app n) \<le> 32"
    "static_text_end (app n') = i_text_end info" "rodata_start n' = i_rodata_start info" "data_start n' = i_data_start info"
    "break_addr (app n') = break_start info" "data_end (app n') = break_start info"
    "bundle_size (app n') = 32" "initial_entry_pt n' = NaClElfImageGetEntryPoint img2" "addr_bits (app n') = addr_bits (app n)"
    "NaClAddrIsValidEntryPt (app n') (initial_entry_pt n')"
    "NaClCheckAddressSpaceLayoutSanity n' (i_rodata_end info) (i_data_end info) (break_start info) = LOAD_OK"
proof -
  obtain r h1 where r: "NaClElfImageNew pread h = (r, h1)" by fastforce
  have bits: "addr_bits (app n) \<le> 32" and inr: "\<exists>img. r = Inr img"
    using assms by (auto simp: load_layout_def r Let_def image_fresh split: if_splits sum.splits)
  then obtain img where i: "r = Inr img" by blast
  obtain e img3 info where v: "NaClElfImageValidateProgramHeaders img (addr_bits (app n)) = (e, img3, info)"
    by (metis prod.collapse)
  have "e = LOAD_OK" "img3 = img2" using assms by (auto simp: load_layout_def r i v Let_def split: if_splits)
  with assms bits show ?thesis
    by (intro that [of img info])
      (auto simp: load_layout_def r i v Let_def split: if_splits)
qed

lemma sanity_ok:
  assumes "NaClCheckAddressSpaceLayoutSanity n rl dl mv = LOAD_OK"
  shows "(data_start n \<noteq> 0 \<longrightarrow> dl = mv) \<and>
    (data_start n \<noteq> 0 \<and> rodata_start n \<noteq> 0 \<longrightarrow> rl \<le> NaClTruncAllocPage (data_start n)) \<and>
    (rodata_start n \<noteq> 0 \<longrightarrow> NaClRoundAllocPage (static_text_end (app n)) \<le> rodata_start n \<and>
       NaClRoundAllocPage (rodata_start n) = rodata_start n) \<and>
    (rodata_start n = 0 \<and> data_start n \<noteq> 0 \<longrightarrow> NaClRoundAllocPage (static_text_end (app n)) \<le> NaClTruncAllocPage (data_start n))"
  using assms by (auto simp: NaClCheckAddressSpaceLayoutSanity_def NaClEndOfStaticText_def not_less split: if_splits)

section \<open>The order of the segments\<close>

text \<open>The bytes of a segment: of the text, those that are in the file.\<close>

definition span :: "Elf32_Phdr \<Rightarrow> nat" where
  "span p = (if p_flags p = PF_R OR PF_X then unat (p_filesz p) else unat (p_memsz p))"

lemma unat_u32_64: "unat (ucast x :: u64) = unat x" for x :: u32
  using unsigned_less [of x, where ?'a = nat] by (simp add: unsigned_ucast_eq take_bit_nat_eq_self)

lemma u32_small: "unat (x :: u32) < 4294967296"
  using unsigned_less [of x, where ?'a = nat] by simp

lemma seg_end_exact:
  "unat (p_vaddr p) + unat (p_memsz p) < 2 ^ 32 \<Longrightarrow> unat (seg_end p) = unat (p_vaddr p) + unat (p_memsz p)"
  by (simp add: seg_end_def unat_u32_64 unat_add_no_wrap)

lemma round_alloc_32: "unat x \<le> 2 ^ 33 \<Longrightarrow> unat (NaClRoundAllocPage x) = round_up (unat x) 65536"
  by (simp add: unat_NaClRoundAllocPage)

text \<open>The numbers of an accepted layout, as the segments give them: \<open>t\<close> is the end of the text, \<open>r\<close> and \<open>r'\<close> start and
  end of the read-only data, \<open>d\<close> the start of the data.\<close>

lemma order_numbers:
  fixes t r r' d :: nat
  assumes "r \<noteq> 0 \<longrightarrow> round_up t 65536 \<le> r \<and> r = r div 65536 * 65536 \<and> r \<le> r'"
    and "r \<noteq> 0 \<and> d \<noteq> 0 \<longrightarrow> r' \<le> d div 65536 * 65536"
    and "r = 0 \<and> d \<noteq> 0 \<longrightarrow> round_up t 65536 \<le> d div 65536 * 65536"
  shows "r \<noteq> 0 \<longrightarrow> t \<le> r div 65536 * 65536" "d \<noteq> 0 \<longrightarrow> t \<le> d div 65536 * 65536" "r \<noteq> 0 \<and> d \<noteq> 0 \<longrightarrow> r \<le> d"
proof -
  have t: "t \<le> round_up t 65536" by (rule round_up_ge) simp
  show "r \<noteq> 0 \<longrightarrow> t \<le> r div 65536 * 65536" using assms(1) t by (metis order_trans)
  have d: "d div 65536 * 65536 \<le> d" by simp
  show "r \<noteq> 0 \<and> d \<noteq> 0 \<longrightarrow> r \<le> d" using assms(1,2) d by (metis order_trans)
  show "d \<noteq> 0 \<longrightarrow> t \<le> d div 65536 * 65536" using assms t by (metis order_trans)
qed

lemma break_above:
  assumes "unat (i_max_vaddr info) < 2 ^ 32"
  shows "unat (i_max_vaddr info) \<le> unat (break_start info) \<and> unat (break_start info) \<le> 2 ^ 32 + 65536"
proof -
  let ?m = "i_max_vaddr info"
  have plus: "unat (?m + NACL_MAP_PAGESIZE) = unat ?m + 65536"
    using assms by (simp add: NACL_MAP_PAGESIZE_def unat_add_no_wrap)
  have r: "unat x \<le> unat (NaClRoundAllocPage x) \<and> unat (NaClRoundAllocPage x) \<le> 2 ^ 32 + 65536"
    if "unat x \<le> 2 ^ 32 + 65536" for x
    using that round_alloc_32 [of x] round_up_ge [of 65536 "unat x"] round_up_least [of 65536 "2 ^ 32 + 65536" "unat x"] by simp
  show ?thesis using assms plus r [of ?m] r [of "?m + NACL_MAP_PAGESIZE"] by (auto simp: break_start_def)
qed


text \<open>All segments are of the kinds that are ordered, and none reaches the end of the 32-bit addresses.\<close>

definition plain_segments :: "NaClElfImage \<Rightarrow> bool" where
  "plain_segments img \<longleftrightarrow> (\<forall>i<128. loadable img ! i \<longrightarrow>
     p_type (phdrs img ! i) = PT_LOAD \<and> unat (p_vaddr (phdrs img ! i)) + unat (p_memsz (phdrs img ! i)) < 2 ^ 32)"

lemma kind_of_flags:
  assumes "matching_check p \<in> {1, 2, 3, 5}" "p_type p = PT_LOAD"
  shows "matching_check p \<in> {1, 2, 3} \<and> (p_flags p = PF_R OR PF_X \<longleftrightarrow> matching_check p = 1)"
  using matching_check_kind [OF assms(1)] assms by auto

text \<open>The facts about an accepted layout, by the kind of segment.\<close>

lemma plain_segment:
  assumes v: "NaClElfImageValidateProgramHeaders img bits = (LOAD_OK, img', info)" "bits \<le> 32" "fresh_image img"
    and pl: "plain_segments img'" and i: "i < 128" "loadable img' ! i"
  defines "p \<equiv> phdrs img' ! i"
  shows "matching_check p \<in> {1, 2, 3} \<and> (p_flags p = PF_R OR PF_X \<longleftrightarrow> matching_check p = 1) \<and>
    0x20000 \<le> unat (p_vaddr p) \<and> unat (p_filesz p) \<le> unat (p_memsz p) \<and> unat (p_vaddr p) + unat (p_memsz p) < 2 ^ 32 \<and>
    unat (p_vaddr p) + unat (p_memsz p) \<le> unat (i_max_vaddr info) \<and>
    (matching_check p = 1 \<longrightarrow> unat (p_vaddr p) = 0x20000 \<and> unat (i_text_end info) = 0x20000 + unat (p_filesz p)) \<and>
    (matching_check p = 2 \<longrightarrow> unat (i_rodata_start info) = unat (p_vaddr p) \<and>
       unat (i_rodata_end info) = unat (p_vaddr p) + unat (p_memsz p)) \<and>
    (matching_check p = 3 \<longrightarrow> unat (i_data_start info) = unat (p_vaddr p))"
proof -
  note w = validated_image [OF v]
  have ph: "phdrs img' = phdrs img" using w by blast
  have ok: "segment_ok bits p" and io: "info_ok ((!) (phdrs img)) {i. i < 128 \<and> loadable img' ! i} info"
    using w i unfolding p_def ph by blast+
  have t: "p_type p = PT_LOAD" and e: "unat (p_vaddr p) + unat (p_memsz p) < 2 ^ 32"
    using pl i unfolding plain_segments_def p_def by blast+
  have m: "matching_check p \<in> {1, 2, 3, 5}" "matching_check p = 1 \<longrightarrow> p_vaddr p = 0x20000" "0x20000 \<le> p_vaddr p" "p_filesz p \<le> p_memsz p"
    using ok unfolding segment_ok_def by blast+
  have u: "0x20000 \<le> unat (p_vaddr p)" "unat (p_filesz p) \<le> unat (p_memsz p)"
    using m(3,4) by (simp_all add: word_le_nat_alt)
  have I: "seg_end p \<le> i_max_vaddr info" "matching_check p = 1 \<longrightarrow> i_text_end info = ucast (0x20000 + p_filesz p)"
    "matching_check p = 2 \<longrightarrow> i_rodata_start info = ucast (p_vaddr p) \<and> i_rodata_end info = seg_end p"
    "matching_check p = 3 \<longrightarrow> i_data_start info = ucast (p_vaddr p)"
    using io i unfolding info_ok_def p_def ph by blast+
  have te: "unat (i_text_end info) = 0x20000 + unat (p_filesz p)" if "matching_check p = 1"
  proof -
    have "unat (p_vaddr p) = 0x20000" using m(2) that by simp
    then have "unat (0x20000 :: u32) + unat (p_filesz p) < 2 ^ 32" using e u(2) by simp
    then have "unat (0x20000 + p_filesz p) = 0x20000 + unat (p_filesz p)" by (subst unat_add_no_wrap) simp_all
    then show ?thesis using I(2) that by (simp add: unat_u32_64)
  qed
  have max: "unat (p_vaddr p) + unat (p_memsz p) \<le> unat (i_max_vaddr info)"
    using I(1) unfolding word_le_nat_alt seg_end_exact [OF e] .
  have "unat (p_vaddr p) = 0x20000" if "matching_check p = 1" using m(2) that by simp
  then show ?thesis using kind_of_flags [OF m(1) t] e u te max I(3,4) by (auto simp: unat_u32_64 seg_end_exact)
qed

text \<open>The numbers of an accepted layout are in order.\<close>

lemma layout_numbers:
  assumes v: "NaClElfImageValidateProgramHeaders img bits = (LOAD_OK, img', info)" "bits \<le> 32" "fresh_image img"
    and pl: "plain_segments img'"
    and sane: "NaClCheckAddressSpaceLayoutSanity n (i_rodata_end info) (i_data_end info) (break_start info) = LOAD_OK"
    and n: "static_text_end (app n) = i_text_end info" "rodata_start n = i_rodata_start info" "data_start n = i_data_start info"
  defines "T \<equiv> unat (i_text_end info)" and "R \<equiv> unat (i_rodata_start info)" and "D \<equiv> unat (i_data_start info)"
    and "R' \<equiv> unat (i_rodata_end info)"
  shows "R \<noteq> 0 \<longrightarrow> round_up T 65536 \<le> R \<and> R = R div 65536 * 65536 \<and> R \<le> R'"
    "R \<noteq> 0 \<and> D \<noteq> 0 \<longrightarrow> R' \<le> D div 65536 * 65536"
    "R = 0 \<and> D \<noteq> 0 \<longrightarrow> round_up T 65536 \<le> D div 65536 * 65536"
    "unat (i_max_vaddr info) < 2 ^ 32"
proof -
  note w = validated_image [OF v] and s = sanity_ok [OF sane] and ps = plain_segment [OF v pl]
  have ph: "phdrs img' = phdrs img" using w by blast
  have io: "info_ok ((!) (phdrs img)) {i. i < 128 \<and> loadable img' ! i} info" using w by blast
  obtain t where t: "t < 128" "loadable img' ! t" "matching_check (phdrs img' ! t) = 1" using w unfolding ph by blast
  have T: "T < 2 ^ 32" using ps [OF t(1,2)] t(3) unfolding T_def by linarith
  have ro: "R < 2 ^ 32 \<and> R \<le> R'" if R0: "R \<noteq> 0"
  proof -
    have "i_rodata_start info \<noteq> 0" using R0 unfolding R_def by auto
    then obtain q where "q < 128" "loadable img' ! q" "matching_check (phdrs img' ! q) = 2"
      using io unfolding info_ok_def ph by blast
    then show ?thesis using ps [of q] unfolding R_def R'_def by linarith
  qed
  have ra: "unat (NaClRoundAllocPage (i_text_end info)) = round_up T 65536" using T unfolding T_def by (simp add: round_alloc_32)
  show "R \<noteq> 0 \<longrightarrow> round_up T 65536 \<le> R \<and> R = R div 65536 * 65536 \<and> R \<le> R'"
  proof
    assume R0: "R \<noteq> 0"
    then have "i_rodata_start info \<noteq> 0" unfolding R_def by auto
    then have a: "NaClRoundAllocPage (i_text_end info) \<le> i_rodata_start info" "NaClRoundAllocPage (i_rodata_start info) = i_rodata_start info"
      using s unfolding n by blast+
    have "round_up R 65536 = R" using a(2) ro [OF R0] round_alloc_32 [of "i_rodata_start info"] unfolding R_def by simp
    then have "65536 dvd R" using round_up_dvd [of 65536 R] by simp
    then show "round_up T 65536 \<le> R \<and> R = R div 65536 * 65536 \<and> R \<le> R'"
      using a(1) ro [OF R0] unfolding word_le_nat_alt ra R_def by simp
  qed
  show "R \<noteq> 0 \<and> D \<noteq> 0 \<longrightarrow> R' \<le> D div 65536 * 65536"
    using s unfolding n R_def D_def R'_def by (auto simp: word_le_nat_alt unat_NaClTruncAllocPage)
  show "R = 0 \<and> D \<noteq> 0 \<longrightarrow> round_up T 65536 \<le> D div 65536 * 65536"
    using s unfolding n R_def D_def ra [symmetric] by (auto simp: word_le_nat_alt unat_NaClTruncAllocPage)
  have "i_max_vaddr info = 0x20000 \<or> (\<exists>i. i < 128 \<and> loadable img' ! i \<and> i_max_vaddr info = seg_end (phdrs img' ! i))"
    using io unfolding info_ok_def ph by blast
  then show "unat (i_max_vaddr info) < 2 ^ 32" using ps by (auto simp: seg_end_exact)
qed

text \<open>C37: A layout the loader accepts is in order, as far as the loader compares. When every segment that is
  loaded is text, read-only data or data (no marker of the stack) and none reaches the end of the 32-bit
  addresses, then of any two the lower one ends below the first allocation page of the higher one, all lie
  above the trampolines and below the break, the text ends where the loader takes it to end, and the program
  is entered at the start of a bundle below that end. (Without the two conditions accepted segments can
  overlap, as \<open>layout_holes\<close> shows; and the entry is compared with the end of the text alone, so it can lie
  below the text, among the trampolines.)\<close>

theorem layout_ordered:
  assumes l: "load_layout pread h n = ((LOAD_OK, Some img, n'), h')" and pl: "plain_segments img"
  shows "32 dvd unat (initial_entry_pt n') \<and> initial_entry_pt n' < static_text_end (app n') \<and>
    (\<forall>i<128. loadable img ! i \<longrightarrow> (let p = phdrs img ! i in
       0x20000 \<le> unat (p_vaddr p) \<and> unat (p_vaddr p) + span p \<le> unat (break_addr (app n')) \<and>
       (p_flags p = PF_R OR PF_X \<longrightarrow> unat (static_text_end (app n')) = unat (p_vaddr p) + span p))) \<and>
    unat (break_addr (app n')) \<le> 2 ^ 32 + 65536 \<and>
    (\<forall>i<128. \<forall>i'<128. loadable img ! i \<and> loadable img ! i' \<and>
       p_vaddr (phdrs img ! i) < p_vaddr (phdrs img ! i') \<longrightarrow>
       unat (p_vaddr (phdrs img ! i)) + span (phdrs img ! i) \<le> unat (p_vaddr (phdrs img ! i')) div 65536 * 65536)"
proof -
  from l obtain img0 info where r: "NaClElfImageNew pread h = (Inr img0, h')"
    and v: "NaClElfImageValidateProgramHeaders img0 (addr_bits (app n)) = (LOAD_OK, img, info)" "addr_bits (app n) \<le> 32"
    and n: "static_text_end (app n') = i_text_end info" "rodata_start n' = i_rodata_start info" "data_start n' = i_data_start info"
    and br: "break_addr (app n') = break_start info" and bs: "bundle_size (app n') = 32"
    and entry: "NaClAddrIsValidEntryPt (app n') (initial_entry_pt n')"
    and sane: "NaClCheckAddressSpaceLayoutSanity n' (i_rodata_end info) (i_data_end info) (break_start info) = LOAD_OK"
    by (rule load_layout_ok)
  note fr = image_fresh [OF r]
  note num = layout_numbers [OF v fr pl sane n] and seg = plain_segment [OF v fr pl]
  note ord = order_numbers [OF num(1,2,3)]
  have "unat (initial_entry_pt n' AND mask 5) = unat (initial_entry_pt n') mod 2 ^ 5"
    by (metis take_bit_eq_mask take_bit_eq_mod unsigned_take_bit_eq)
  moreover have "initial_entry_pt n' AND mask 5 = 0" and lt: "initial_entry_pt n' < static_text_end (app n')"
    using entry unfolding NaClAddrIsValidEntryPt_def bs by (simp_all add: mask_eq_exp_minus_1)
  ultimately have "unat (initial_entry_pt n') mod 2 ^ 5 = 0" by simp
  then have e: "32 dvd unat (initial_entry_pt n')" by (simp add: dvd_eq_mod_eq_0)
  have one: "0x20000 \<le> unat (p_vaddr p) \<and> unat (p_vaddr p) + span p \<le> unat (break_addr (app n')) \<and>
       (p_flags p = PF_R OR PF_X \<longrightarrow> unat (static_text_end (app n')) = unat (p_vaddr p) + span p)"
    if "i < 128" "loadable img ! i" "p = phdrs img ! i" for i p
    using seg [OF that(1,2)] break_above [OF num(4)] unfolding br n that(3) span_def by auto
  have two: "unat (p_vaddr p) + span p \<le> unat (p_vaddr q) div 65536 * 65536"
    if i: "i < 128" "loadable img ! i" "p = phdrs img ! i" and i': "i' < 128" "loadable img ! i'" "q = phdrs img ! i'"
      and lt: "p_vaddr p < p_vaddr q" for i i' p q
  proof -
    note sp = seg [OF i(1,2), folded i(3)] and sq = seg [OF i'(1,2), folded i'(3)]
    have ltn: "unat (p_vaddr p) < unat (p_vaddr q)" using lt by (simp add: word_less_nat_alt)
    have "matching_check p \<in> {1, 2, 3}" "matching_check q \<in> {1, 2, 3}" using sp sq by blast+
    moreover have "matching_check p \<noteq> matching_check q" using sp sq ltn \<open>matching_check q \<in> _\<close> by auto
    moreover have "matching_check q \<noteq> 1" using sp sq ltn by linarith
    moreover have "\<not> (matching_check p = 3 \<and> matching_check q = 2)" using sp sq ltn ord(3) by linarith
    ultimately consider "matching_check p = 1" "matching_check q = 2" | "matching_check p = 1" "matching_check q = 3"
      | "matching_check p = 2" "matching_check q = 3" by auto
    then show ?thesis
    proof cases
      case 1
      then show ?thesis using sp sq ord(1) by (simp add: span_def)
    next
      case 2
      then show ?thesis using sp sq ord(2) by (simp add: span_def)
    next
      case 3
      then show ?thesis using sp sq num(2) by (simp add: span_def)
    qed
  qed
  have "unat (break_addr (app n')) \<le> 2 ^ 32 + 65536" using break_above [OF num(4)] unfolding br by simp
  then show ?thesis using e lt one two by (simp add: Let_def)
qed


section \<open>Sample files\<close>

text \<open>A 32-bit executable that consists of its headers.\<close>

definition phdr_bytes :: "Elf32_Phdr \<Rightarrow> u8 list" where
  "phdr_bytes p = bytes_of (p_type p) @ bytes_of (p_offset p) @ bytes_of (p_vaddr p) @ bytes_of (p_paddr p) @
     bytes_of (p_filesz p) @ bytes_of (p_memsz p) @ bytes_of (p_flags p) @ bytes_of (p_align p)"

definition sample_exe :: "Elf32_Phdr list \<Rightarrow> u8 list" where
  "sample_exe ps = ELFMAG @ [1, 1, 1] @ replicate 9 0 @ [2, 0, 62, 0, 1, 0, 0, 0] @ bytes_of (0x20000 :: u32) @
     bytes_of (52 :: u32) @ replicate 8 0 @ [52, 0, 32, 0] @ bytes_of (of_nat (length ps) :: u16) @ replicate 6 0 @
     concat (map phdr_bytes ps)"

definition sample_load_app :: load_app where
  "sample_load_app = \<lparr>app = sample_app, rodata_start = 0, data_start = 0, stack_size = 0x1000000, initial_nexe_max_code_bytes = 0,
     initial_entry_pt = 0, main_exe_prevalidated = False, text_shm = False\<rparr>"

definition accepted :: "Elf32_Phdr list \<Rightarrow> (NaClElfImage \<Rightarrow> bool) \<Rightarrow> bool" where
  "accepted ps P = (case load_layout (file_pread (sample_exe ps)) () sample_load_app of
     ((e, img, n), h) \<Rightarrow> e = LOAD_OK \<and> (case img of None \<Rightarrow> False | Some img \<Rightarrow> P img))"

lemma accepted_layout:
  assumes "accepted ps P"
  obtains img n' where "load_layout (file_pread (sample_exe ps)) () sample_load_app = ((LOAD_OK, Some img, n'), ())" "P img"
  using assms by (auto simp: accepted_def split: prod.splits option.splits)

definition plain_list :: "NaClElfImage \<Rightarrow> bool" where
  "plain_list img = list_all (\<lambda>i. loadable img ! i \<longrightarrow> i < length (phdrs img) \<and> p_type (phdrs img ! i) = 1 \<and>
     uint (p_vaddr (phdrs img ! i)) + uint (p_memsz (phdrs img ! i)) < 2 ^ 32) [0..<128]"

abbreviation plain_exe :: "Elf32_Phdr list" where
  "plain_exe \<equiv> [sample_phdr 0x10000 0x20000 0x100 0x100 5, sample_phdr 0x20000 0x40000 0x80 0x80 4,
     sample_phdr 0x30000 0x60000 0x40 0x90 6]"

lemma plain_exe_accepted: "accepted plain_exe plain_list"
  by code_simp

lemma uint_sum: "uint (a :: u32) + uint b < 2 ^ 32 \<Longrightarrow> unat a + unat b < 2 ^ 32" for b :: u32
  unfolding uint_nat by (metis of_nat_add of_nat_less_iff of_nat_numeral of_nat_power)

lemma plain_list_segments: "plain_list img \<Longrightarrow> plain_segments img"
  unfolding plain_list_def plain_segments_def list_all_iff PT_LOAD_def using uint_sum by simp

theorem layout_ordered_witness:
  "\<exists>img n'. load_layout (file_pread (sample_exe plain_exe)) () sample_load_app = ((LOAD_OK, Some img, n'), ()) \<and>
    plain_segments img \<and> initial_entry_pt n' < static_text_end (app n')"
proof -
  from plain_exe_accepted obtain img n'
    where l: "load_layout (file_pread (sample_exe plain_exe)) () sample_load_app = ((LOAD_OK, Some img, n'), ())" "plain_list img"
    by (rule accepted_layout)
  have "plain_segments img" using l(2) by (rule plain_list_segments)
  from layout_ordered [OF l(1) this] show ?thesis using l(1) \<open>plain_segments img\<close> by blast
qed

definition segments_overlap :: "nat \<Rightarrow> nat \<Rightarrow> NaClElfImage \<Rightarrow> bool" where
  "segments_overlap i j img \<longleftrightarrow> loadable img ! i \<and> loadable img ! j \<and>
     (let p = phdrs img ! i; q = phdrs img ! j in
       uint (p_vaddr p) < uint (p_vaddr q) + uint (p_filesz q) \<and> uint (p_vaddr q) < uint (p_vaddr p) + uint (p_memsz p))"

text \<open>Two layouts that are out of order are accepted. Read-only data that ends exactly at 4 GiB has the recorded end 0,
  which is below any data: data within it is accepted. And the marker of the stack is marked to be loaded as
  any segment, and compared with no other: its bytes can be placed over the text.\<close>

theorem layout_holes:
  "(\<exists>img n'. load_layout (file_pread (sample_exe
      [sample_phdr 0x10000 0x20000 0x100 0x100 5, sample_phdr 0x20000 0x10000000 0x80 0xf0000000 4,
       sample_phdr 0x30000 0x40000000 0x40 0x90 6])) () sample_load_app = ((LOAD_OK, Some img, n'), ()) \<and>
     segments_overlap 1 2 img) \<and>
   (\<exists>img n'. load_layout (file_pread (sample_exe
      [sample_phdr 0x10000 0x20000 0x100 0x100 5, (sample_phdr 0x20000 0x20000 0x100 0x100 6)\<lparr>p_type := PT_GNU_STACK\<rparr>,
       sample_phdr 0x30000 0x60000 0x40 0x90 6])) () sample_load_app = ((LOAD_OK, Some img, n'), ()) \<and>
     segments_overlap 0 1 img)"
proof
  have "accepted [sample_phdr 0x10000 0x20000 0x100 0x100 5, sample_phdr 0x20000 0x10000000 0x80 0xf0000000 4,
       sample_phdr 0x30000 0x40000000 0x40 0x90 6] (segments_overlap 1 2)" (is "accepted ?ps _") by code_simp
  then show "\<exists>img n'. load_layout (file_pread (sample_exe ?ps)) () sample_load_app = ((LOAD_OK, Some img, n'), ()) \<and>
     segments_overlap 1 2 img" by (rule accepted_layout) blast
  have "accepted [sample_phdr 0x10000 0x20000 0x100 0x100 5, (sample_phdr 0x20000 0x20000 0x100 0x100 6)\<lparr>p_type := PT_GNU_STACK\<rparr>,
       sample_phdr 0x30000 0x60000 0x40 0x90 6] (segments_overlap 0 1)" (is "accepted ?qs _") by code_simp
  then show "\<exists>img n'. load_layout (file_pread (sample_exe ?qs)) () sample_load_app = ((LOAD_OK, Some img, n'), ()) \<and>
     segments_overlap 0 1 img" by (rule accepted_layout) blast
qed

end
