(* ===== verification/ElfLoadProps.thy ===== *)
theory ElfLoadProps
  imports ElfLayout
begin

text \<open>
  What the loader puts into the enclave: nothing of it is measured, the program's pages stay away from the
  runtime, and more of the text is executable than the validator has seen.
\<close>

section \<open>Requests for pages\<close>

definition page_measured :: "sgx_request \<Rightarrow> bool" where
  "page_measured q = (case q of EnclaveAddPage p \<Rightarrow> ap_mrmask p \<noteq> 0 | _ \<Rightarrow> False)"

definition measured_pages :: "'d sgx_build \<Rightarrow> sgx_request list" where
  "measured_pages b = filter page_measured (asked b)"

lemma add_pages_loop_mrmask:
  assumes "add_pages_loop E len p added b = Some r"
  shows "ap_mrmask p = 0 \<longrightarrow> measured_pages (snd r) = measured_pages b"
proof (rule add_pages_loop.raw_induct
    [where P = "\<lambda>E len p added b r. ap_mrmask p = 0 \<longrightarrow> measured_pages (snd r) = measured_pages b", OF _ assms])
  fix f E len p added and b :: "'a sgx_build" and r
  assume IH: "\<And>E len p added b r. f E len p added b = Some r \<Longrightarrow> ap_mrmask p = 0 \<longrightarrow> measured_pages (snd r) = measured_pages b"
    and eq: "(if added < len then case ioctl E (EnclaveAddPage p) b of (ret, b) \<Rightarrow>
          if ret <s 0 then Some (ret, b) else f E len (next_page p) (added + pagesize) b else Some (0, b)) = Some r"
  obtain ret b1 where q: "ioctl E (EnclaveAddPage p) b = (ret, b1)" by fastforce
  have b1: "ap_mrmask p = 0 \<longrightarrow> measured_pages b1 = measured_pages b"
    using q by (auto simp: ioctl_def measured_pages_def page_measured_def split: prod.splits)
  show "ap_mrmask p = 0 \<longrightarrow> measured_pages (snd r) = measured_pages b"
  proof (cases "added < len \<and> \<not> ret <s 0")
    case True
    then have "f E len (next_page p) (added + pagesize) b1 = Some r" using eq q by simp
    moreover have "ap_mrmask (next_page p) = ap_mrmask p" by (simp add: next_page_def)
    ultimately show ?thesis using IH b1 by fastforce
  next
    case False
    then show ?thesis using eq b1 unfolding q by (auto split: if_splits)
  qed
qed

lemma add_pages_unmeasured:
  "add_pages_to_enclave E secs addr src len type prot True b = Some (ret, b') \<Longrightarrow> measured_pages b' = measured_pages b"
  using add_pages_loop_mrmask by (force simp: add_pages_to_enclave_def split: if_splits)

lemma on_os_measured: "on_os f b = (r, b') \<Longrightarrow> measured_pages b' = measured_pages b"
  by (auto simp: on_os_def measured_pages_def split: prod.splits)

lemma with_os_measured: "with_os f st = (r, st') \<Longrightarrow> measured_pages (build st') = measured_pages (build st)"
  by (auto simp: with_os_def on_os_def measured_pages_def split: prod.splits)

section \<open>Nothing is measured\<close>

lemma add_segment_measured:
  "add_segment E secs prot off sz va pa st = Some (Inr (e, st')) \<Longrightarrow> measured_pages (build st') = measured_pages (build st)"
  using with_os_measured add_pages_unmeasured
  by (fastforce simp: add_segment_def Let_def bind_eq_Some_conv split: if_splits prod.splits option.splits)

lemma map_segment_measured:
  assumes "NaClElfFileMapSegment E secs flags off sz va pa st = Some (Inr (e, st'))"
  shows "measured_pages (build st') = measured_pages (build st)"
proof -
  obtain prot where prot: "segment_prot flags = Some prot" using assms by (auto simp: NaClElfFileMapSegment_def split: option.splits)
  obtain r st1 where m: "with_os (\<lambda>d. map_file E d (NaClRoundAllocPage (ucast sz)) (ucast off)) st = (r, st1)" by fastforce
  show ?thesis
  proof (cases "flags = PF_R OR PF_X \<and> host_io E")
    case False
    then show ?thesis using assms prot add_segment_measured
      by (auto simp: NaClElfFileMapSegment_def split: if_splits)
  next
    case True
    show ?thesis
    proof (cases r)
      case None
      then show ?thesis using assms prot True m with_os_measured [OF m] by (auto simp: NaClElfFileMapSegment_def)
    next
      case (Some bs)
      obtain valid st2 where v: "with_os (\<lambda>d. validate E d (NaClTruncAllocPage va) (take (unat sz) bs)) st1 = (valid, st2)" by fastforce
      have "measured_pages (build st2) = measured_pages (build st)" using with_os_measured [OF m] with_os_measured [OF v] by simp
      then show ?thesis using assms prot True m Some v add_segment_measured
        by (fastforce simp: NaClElfFileMapSegment_def Let_def split: if_splits)
    qed
  qed
qed

lemma load_segment_measured:
  assumes "load_segment E secs php ld st = Some (Inr (e, st'))"
  shows "measured_pages (build st') = measured_pages (build st)"
  using assms map_segment_measured
  by (fastforce simp: load_segment_def Let_def bind_eq_Some_conv bindE_eq_Inr split: if_splits)

lemma load_segments_measured:
  "load_segments E secs ps st = Some (Inr (e, st')) \<Longrightarrow> measured_pages (build st') = measured_pages (build st)"
proof (induction ps arbitrary: st)
  case (Cons p ps)
  obtain php ld where p: "p = (php, ld)" by fastforce
  obtain r where r: "load_segment E secs php ld st = Some r" and rest: "(case r of Inl f \<Rightarrow> Some (Inl f)
     | Inr (Some e, st) \<Rightarrow> Some (Inr (e, st)) | Inr (None, st) \<Rightarrow> load_segments E secs ps st) = Some (Inr (e, st'))"
    using Cons.prems unfolding p by (auto simp: bind_eq_Some_conv)
  obtain e1 st1 where i: "r = Inr (e1, st1)" using rest by (cases r) auto
  show ?case using rest Cons.IH load_segment_measured [OF r [unfolded i]] unfolding i by (cases e1) auto
qed simp

lemma load_runtime_segment_measured:
  assumes "load_runtime_segment E secs php ld st = Some (Inr (u, st'))"
  shows "measured_pages (build st') = measured_pages (build st)"
  using assms with_os_measured add_pages_unmeasured
  by (fastforce simp: load_runtime_segment_def Let_def bind_eq_Some_conv split: if_splits prod.splits option.splits)

lemma load_runtime_segments_measured:
  "load_runtime_segments E secs ps st = Some (Inr (e, st')) \<Longrightarrow> measured_pages (build st') = measured_pages (build st)"
proof (induction ps arbitrary: st)
  case (Cons p ps)
  obtain php ld where p: "p = (php, ld)" by fastforce
  obtain r where r: "load_runtime_segment E secs php ld st = Some r" and rest: "(case r of Inl f \<Rightarrow> Some (Inl f)
     | Inr (u, st) \<Rightarrow> load_runtime_segments E secs ps st) = Some (Inr (e, st'))"
    using Cons.prems unfolding p by (auto simp: bind_eq_Some_conv)
  obtain u st1 where i: "r = Inr (u, st1)" using rest by (cases r) auto
  show ?case using rest Cons.IH load_runtime_segment_measured [OF r [unfolded i]] unfolding i by auto
qed simp

lemma add_all_measured: "add_all E secs ps b = Some b' \<Longrightarrow> measured_pages b' = measured_pages b"
proof (induction E secs ps b rule: add_all.induct)
  case (2 E secs addr src len type prot ps b)
  then obtain ret b1 where "add_pages_to_enclave E secs addr src len type prot True b = Some (ret, b1)" "add_all E secs ps b1 = Some b'"
    by (auto simp: bind_eq_Some_conv)
  then show ?case using 2 add_pages_unmeasured by fastforce
qed simp

lemma os_measured [simp]:
  "measured_pages (snd (on_os f b)) = measured_pages b"
  "measured_pages (snd (open_sgx E b)) = measured_pages b"
  "measured_pages (snd (ioctl E (EnclaveInit a s t) b)) = measured_pages b"
  by (simp_all add: on_os_def open_sgx_def ioctl_def measured_pages_def page_measured_def split_beta)

lemma read_measured [simp]:
  "measured_pages (snd (read_enclave_sigstruct E fd b)) = measured_pages b"
  "measured_pages (snd (read_enclave_token E fd tok b)) = measured_pages b"
  by (simp_all add: read_enclave_sigstruct_def read_enclave_token_def split_beta split: prod.split)

lemma init_enclave_measured: "measured_pages (snd (init_enclave E F stack secs b)) = measured_pages b"
  by (simp add: init_enclave_def Let_def split_beta)


lemma finish_measured:
  "finish_enclave E F secs stack entry st = Some (Inr (u, st')) \<Longrightarrow> measured_pages (build st') = measured_pages (build st)"
  using add_all_measured by (fastforce simp: finish_enclave_def bind_eq_Some_conv init_enclave_measured)

lemma load_runtime_measured:
  assumes "load_runtime E F secs stack st = Some (Inr (u, st'))"
  shows "measured_pages (build st') = measured_pages (build st)"
proof -
  obtain img d where n: "NaClElfImageServiceRuntimeNew (runtime_pread E) (fst stack) (os (build st)) = Inr (Inr img, d)"
    using assms by (auto simp: load_runtime_def split: sum.splits)
  obtain y where y: "NaClElfImageLoadServiceRuntime E secs img (st\<lparr>build := (build st)\<lparr>os := d\<rparr>\<rparr>) = Some y"
    and rest: "(case y of Inl f \<Rightarrow> Some (Inl f) | Inr (subret, st) \<Rightarrow> if subret \<noteq> LOAD_OK then Some (Inl LogFatal)
      else finish_enclave E F secs (snd stack) (NaClElfImageGetEntryPoint img) st) = Some (Inr (u, st'))"
    using assms by (auto simp: load_runtime_def n bind_eq_Some_conv)
  obtain e st2 where i: "y = Inr (e, st2)" using rest by (cases y) auto
  have f: "finish_enclave E F secs (snd stack) (NaClElfImageGetEntryPoint img) st2 = Some (Inr (u, st'))"
    using rest by (simp add: i split: if_splits)
  note l = y [unfolded i]
  have "measured_pages ((build st)\<lparr>os := d\<rparr>) = measured_pages (build st)" by (simp add: measured_pages_def)
  then show ?thesis
    using load_runtime_segments_measured [OF l [unfolded NaClElfImageLoadServiceRuntime_def]] finish_measured [OF f] by simp
qed

lemma sgx_specific_measured:
  assumes "NaClLoadSGXSpecific E F secs stack st = Some (Inr (u, st'))"
  shows "measured_pages (build st') = measured_pages (build st)"
proof -
  let ?st = "st\<lparr>nap := (nap st)\<lparr>app := (app (nap st))\<lparr>mem_start := 0x100000000\<rparr>\<rparr>\<rparr>"
  obtain rb where add: "add_pages_to_enclave (sgx E) secs (baseaddr secs + 0x100000000 + 0xf0000000) None 0x10000000
      SGX_PAGE_REG (PROT_READ OR PROT_WRITE) True (build ?st) = Some rb"
    and rest: "(case rb of (ret, b) \<Rightarrow> if ret <s 0 then Some (Inl LogFatal)
      else load_runtime E F secs stack (?st\<lparr>build := b\<rparr>)) = Some (Inr (u, st'))"
    using assms [unfolded NaClLoadSGXSpecific_def Let_def bind_eq_Some_conv] by blast
  obtain ret b where rb: "rb = (ret, b)" by fastforce
  have "load_runtime E F secs stack (?st\<lparr>build := b\<rparr>) = Some (Inr (u, st'))"
    using rest unfolding rb by (simp split: if_splits)
  from load_runtime_measured [OF this] add_pages_unmeasured [OF add [unfolded rb]] show ?thesis by simp
qed

text \<open>C38: The measurement of the enclave says nothing about what is in it. Whatever is loaded, of the program and of the
  runtime, and however the files and the driver behave, no page is added with a part to be measured: the
  requests that are measured after loading are those from before, and so attestation cannot tell one program or
  one runtime from another.\<close>

theorem contents_never_measured:
  "(\<forall>e st'. NaClElfImageLoad E secs img st = Some (Inr (e, st')) \<longrightarrow> measured_pages (build st') = measured_pages (build st)) \<and>
   (\<forall>u st'. NaClLoadSGXSpecific E F secs stack st = Some (Inr (u, st')) \<longrightarrow> measured_pages (build st') = measured_pages (build st))"
  using load_segments_measured [of E secs "image_segments img" st] sgx_specific_measured [of E F secs stack st]
  unfolding NaClElfImageLoad_def by blast

section \<open>Where the program's pages are\<close>

lemma rounded_segment_le: "unat (rounded_segment sz va) \<le> 2 ^ 32 + 8192"
proof -
  have sz: "unat (ucast sz :: u64) < 2 ^ 32" using u32_small [of sz] by (simp add: unat_u32_64)
  then have r: "unat (NaClRoundPage (ucast sz)) = round_up (unat sz) 4096" by (simp add: unat_NaClRoundPage unat_u32_64)
  have "round_up (unat sz) 4096 < unat sz + 4096" by (rule round_up_less) simp
  then have "unat (NaClRoundPage (ucast sz)) < 2 ^ 32 + 4096" using sz unfolding r unat_u32_64 by simp
  then show ?thesis by (auto simp: rounded_segment_def Let_def unat_add_no_wrap)
qed

text \<open>The pages asked for, latest first, from \<open>b\<close> to \<open>b'\<close>, satisfy \<open>P\<close>.\<close>

definition new_pages :: "(sgx_enclave_add_page \<Rightarrow> bool) \<Rightarrow> 'd sgx_build \<Rightarrow> 'd sgx_build \<Rightarrow> bool" where
  "new_pages P b b' \<longleftrightarrow> (\<exists>ps. asked b' = map EnclaveAddPage ps @ asked b \<and> (\<forall>p\<in>set ps. P p))"

lemma new_pages_refl: "asked b' = asked b \<Longrightarrow> new_pages P b b'"
  by (auto simp: new_pages_def)

lemma new_pages_trans: "new_pages P b b1 \<Longrightarrow> new_pages P b1 b' \<Longrightarrow> new_pages P b b'"
  unfolding new_pages_def by (metis append_assoc map_append UnE set_append)

lemma with_os_pages: "with_os f st = (r, st') \<Longrightarrow> new_pages P (build st) (build st')"
  by (auto simp: with_os_def on_os_def intro!: new_pages_refl split: prod.splits)

text \<open>The program's part of the enclave.\<close>

definition program_page :: "sgx_arch_secs \<Rightarrow> sgx_enclave_add_page \<Rightarrow> bool" where
  "program_page secs p \<longleftrightarrow> unat (baseaddr secs) + 2 ^ 32 \<le> unat (ap_addr p) \<and>
     unat (ap_addr p) < unat (baseaddr secs) + 3 * 2 ^ 32 + 8192"

lemma sgx_addr_range: "2 ^ 32 \<le> unat (sgx_addr x) \<and> unat (sgx_addr x) < 2 * 2 ^ 32"
proof -
  have "unat (x AND 0xffffffff) < 2 ^ 32"
    using and_mask_less' [of 32 x] by (simp add: mask_eq_exp_minus_1 word_less_nat_alt)
  then show ?thesis by (simp add: sgx_addr_def unat_add_no_wrap)
qed


lemma page_at_addr:
  assumes base: "unat (baseaddr secs) + 2 ^ 36 \<le> 2 ^ 64" and p: "ap_addr p = baseaddr secs + sgx_addr pa"
    and i: "4096 * i < 2 ^ 32 + 8192"
  shows "program_page secs (page_at p i)"
proof -
  note r = sgx_addr_range [of pa]
  have a: "unat (baseaddr secs + sgx_addr pa) = unat (baseaddr secs) + unat (sgx_addr pa)"
    using base r by (intro unat_add_no_wrap) simp
  have m: "unat (4096 * of_nat i :: u64) = 4096 * i"
  proof -
    have "(4096 * of_nat i :: u64) = of_nat (4096 * i)" by simp
    then show ?thesis using i by (simp only: unat_of_nat) (simp add: take_bit_nat_eq_self)
  qed
  have "unat (baseaddr secs + sgx_addr pa + 4096 * of_nat i) = unat (baseaddr secs) + unat (sgx_addr pa) + 4096 * i"
    using base r i a m by (subst unat_add_no_wrap) simp_all
  then show ?thesis using r i p by (simp add: program_page_def page_at_def)
qed

lemma add_pages_program:
  assumes base: "unat (baseaddr secs) + 2 ^ 36 \<le> 2 ^ 64"
    and add: "add_pages_to_enclave E secs (sgx_addr pa) src (rounded_segment sz va) SGX_PAGE_REG prot True b = Some (ret, b')"
  shows "new_pages (program_page secs) b b'"
proof -
  let ?len = "rounded_segment sz va"
  let ?p = "\<lparr>ap_addr = baseaddr secs + sgx_addr pa, ap_src = src, ap_secinfo = secinfo_flags SGX_PAGE_REG prot, ap_mrmask = 0\<rparr>"
  have len: "unat ?len \<le> 2 ^ 32 + 8192" by (rule rounded_segment_le)
  then have "unat ?len \<le> 2 ^ 64 - 4096" by simp
  from add_pages_loop_returns [OF this, of E ?p 0 b] obtain n where n: "asked b' = asked_pages ?p n @ asked b" "n \<le> (unat ?len + 4095) div 4096"
    using add by (auto simp: add_pages_to_enclave_def)
  have "program_page secs (page_at ?p i)" if "i < n" for i
  proof (rule page_at_addr [OF base])
    have "Suc i \<le> (unat ?len + 4095) div 4096" using that n(2) by simp
    then have "4096 * Suc i \<le> unat ?len + 4095" using less_eq_div_iff_mult_less_eq [of 4096 "Suc i"] by (simp add: mult.commute)
    then show "4096 * i < 2 ^ 32 + 8192" using len by simp
  qed simp
  then show ?thesis unfolding new_pages_def
    by (intro exI [of _ "rev (map (page_at ?p) [0..<n])"]) (auto simp: n(1) asked_pages_def rev_map)
qed

lemma add_segment_pages:
  assumes base: "unat (baseaddr secs) + 2 ^ 36 \<le> 2 ^ 64"
    and a: "add_segment E secs prot off sz va pa st = Some (Inr (e, st'))"
  shows "new_pages (program_page secs) (build st) (build st')"
proof (cases "rounded_segment sz va = 0")
  case True
  then show ?thesis using a by (auto simp: add_segment_def intro: new_pages_refl)
next
  case False
  obtain r st1 where m: "with_os (\<lambda>d. map_file E d (rounded_segment sz va) (ucast off)) st = (r, st1)" by fastforce
  show ?thesis
  proof (cases r)
    case None
    then show ?thesis using a False m with_os_pages [OF m] by (auto simp: add_segment_def)
  next
    case (Some bs)
    obtain ret b where "add_pages_to_enclave (sgx E) secs (sgx_addr pa) (Some bs) (rounded_segment sz va) SGX_PAGE_REG prot True (build st1) = Some (ret, b)"
      and "st' = st1\<lparr>build := b\<rparr>"
      using a False m Some by (auto simp: add_segment_def bind_eq_Some_conv split: if_splits)
    then show ?thesis using new_pages_trans [OF with_os_pages [OF m] add_pages_program [OF base]] by simp
  qed
qed

lemma map_segment_pages:
  assumes base: "unat (baseaddr secs) + 2 ^ 36 \<le> 2 ^ 64"
    and a: "NaClElfFileMapSegment E secs flags off sz va pa st = Some (Inr (e, st'))"
  shows "new_pages (program_page secs) (build st) (build st')"
proof -
  obtain prot where prot: "segment_prot flags = Some prot" using a by (auto simp: NaClElfFileMapSegment_def split: option.splits)
  obtain r st1 where m: "with_os (\<lambda>d. map_file E d (NaClRoundAllocPage (ucast sz)) (ucast off)) st = (r, st1)" by fastforce
  show ?thesis
  proof (cases "flags = PF_R OR PF_X \<and> host_io E")
    case False
    then show ?thesis using a prot add_segment_pages [OF base]
      by (auto simp: NaClElfFileMapSegment_def intro: new_pages_refl split: if_splits)
  next
    case True
    show ?thesis
    proof (cases r)
      case None
      then show ?thesis using a prot True m with_os_pages [OF m] by (auto simp: NaClElfFileMapSegment_def)
    next
      case (Some bs)
      obtain valid st2 where v: "with_os (\<lambda>d. validate E d (NaClTruncAllocPage va) (take (unat sz) bs)) st1 = (valid, st2)" by fastforce
      have p: "new_pages (program_page secs) (build st) (build st2)"
        using new_pages_trans [OF with_os_pages [OF m] with_os_pages [OF v]] .
      show ?thesis
      proof (cases valid)
        case True
        then show ?thesis using a prot m Some v \<open>flags = _ \<and> _\<close> p add_segment_pages [OF base, where st' = st']
          by (fastforce simp: NaClElfFileMapSegment_def Let_def intro: new_pages_trans split: if_splits)
      next
        case False
        then show ?thesis using a prot m Some v \<open>flags = _ \<and> _\<close> p
          by (auto simp: NaClElfFileMapSegment_def Let_def split: if_splits)
      qed
    qed
  qed
qed

lemma load_segment_pages:
  assumes "unat (baseaddr secs) + 2 ^ 36 \<le> 2 ^ 64" "load_segment E secs php ld st = Some (Inr (e, st'))"
  shows "new_pages (program_page secs) (build st) (build st')"
  using assms(2) map_segment_pages [OF assms(1)] new_pages_refl
  by (fastforce simp: load_segment_def Let_def bind_eq_Some_conv bindE_eq_Inr split: if_splits)

text \<open>C39: The pages of the program lie between 4 and 12 GiB and two pages of the enclave, whatever its headers say, and so
  never where the runtime is put, which starts at 48 GiB.\<close>

theorem program_pages_stay:
  assumes base: "unat (baseaddr secs) + 2 ^ 36 \<le> 2 ^ 64" and load: "NaClElfImageLoad E secs img st = Some (Inr (e, st'))"
  shows "\<exists>ps. asked (build st') = map EnclaveAddPage ps @ asked (build st) \<and>
    (\<forall>p\<in>set ps. unat (baseaddr secs) + 2 ^ 32 \<le> unat (ap_addr p) \<and>
       unat (ap_addr p) + 4096 \<le> unat (baseaddr secs) + unat runtime_base)"
proof -
  have "load_segments E secs ps st = Some (Inr (e, st')) \<Longrightarrow> new_pages (program_page secs) (build st) (build st')" for ps
  proof (induction ps arbitrary: st)
    case Nil
    then show ?case by (simp add: new_pages_refl)
  next
    case (Cons p ps)
    obtain php ld where p: "p = (php, ld)" by fastforce
    obtain r where r: "load_segment E secs php ld st = Some r" and rest: "(case r of Inl f \<Rightarrow> Some (Inl f)
       | Inr (Some e, st) \<Rightarrow> Some (Inr (e, st)) | Inr (None, st) \<Rightarrow> load_segments E secs ps st) = Some (Inr (e, st'))"
      using Cons.prems unfolding p by (auto simp: bind_eq_Some_conv)
    obtain e1 st1 where i: "r = Inr (e1, st1)" using rest by (cases r) auto
    note s = load_segment_pages [OF base r [unfolded i]]
    show ?case using rest Cons.IH [of st1] s new_pages_trans [OF s] unfolding i by (cases e1) auto
  qed
  from this [OF load [unfolded NaClElfImageLoad_def]] show ?thesis
    unfolding new_pages_def program_page_def by force
qed


section \<open>Code that is not validated\<close>

lemma one_page:
  assumes "0 < unat sz" "unat sz \<le> 4096"
  shows "rounded_segment sz 0x20000 = 0x1000"
proof -
  have "round_up (unat sz) 4096 = 4096"
    using assms round_up_least [of 4096 4096 "unat sz"] round_up_dvd [of 4096 "unat sz"] round_up_ge [of 4096 "unat sz"]
    by (auto dest!: dvd_imp_le)
  then have "unat (NaClRoundPage (ucast sz)) = 4096"
    using assms by (simp add: unat_NaClRoundPage unat_u32_64)
  then have r: "NaClRoundPage (ucast sz) = 0x1000" by (simp add: word_unat_eq_iff)
  have "(0xfff AND ucast sz :: u64) \<le> 0xfff" by (rule word_and_le2)
  then have "(0xfff AND ucast sz :: u64) \<le> 0x1000" by (simp add: word_le_nat_alt)
  then show ?thesis by (simp add: rounded_segment_def r not_less)
qed

lemma add_one_page:
  assumes "\<forall>q d. os_ioctl E q d = (0, d)"
  shows "add_pages_loop E 0x1000 p 0 b = Some (0, b\<lparr>asked := EnclaveAddPage p # asked b\<rparr>)"
  using assms by (simp add: add_pages_loop.simps [of E "0x1000" p 0 b] add_pages_loop.simps [of E "0x1000" "next_page p" "0x1000"] ioctl_def)

lemma add_text_page:
  assumes bytes: "\<forall>d n. map_file E d n (ucast off) = (Some (take (unat n) (code @ tail)), d)"
    and env: "host_io E" "\<forall>d va. validate E d va code = (True, d)" "\<forall>q d. os_ioctl (sgx E) q d = (0, d)"
    and len: "length code = unat sz" "length (code @ tail) = 4096" "code \<noteq> []"
    and tend: "static_text_end (app (nap st)) = 0x20000 + ucast sz"
  shows "\<exists>st'. NaClElfFileMapSegment E secs (PF_R OR PF_X) off sz 0x20000 pa st = Some (Inr (LOAD_OK, st')) \<and>
    validated st' = (0x20000, code, True) # validated st \<and>
    asked (build st') = EnclaveAddPage \<lparr>ap_addr = baseaddr secs + sgx_addr pa, ap_src = Some (code @ tail),
      ap_secinfo = SGX_SECINFO_FLAGS_REG OR SGX_SECINFO_FLAGS_R OR SGX_SECINFO_FLAGS_X, ap_mrmask = 0\<rparr> # asked (build st)"
proof -
  have "0 < length code" "length code \<le> 4096" using len(2,3) by simp_all
  then have sz: "0 < unat sz" "unat sz \<le> 4096" unfolding len(1) by simp_all
  note r = one_page [OF sz]
  have big: "4096 \<le> unat (NaClRoundAllocPage (ucast sz))"
  proof -
    have "65536 \<le> round_up (unat sz) 65536"
      using sz round_up_dvd [of 65536 "unat sz"] round_up_ge [of 65536 "unat sz"] by (auto dest!: dvd_imp_le)
    then show ?thesis using sz by (simp add: unat_NaClRoundAllocPage unat_u32_64)
  qed
  have code: "take (unat sz) (take (unat (NaClRoundAllocPage (ucast sz))) (code @ tail)) = code"
    using len(1) big sz by simp
  have page: "take 4096 (code @ tail) = code @ tail" using len(2) by simp
  have trunc: "NaClTruncAllocPage 0x20000 = 0x20000" by (simp add: NaClTruncAllocPage_def NACL_MAP_PAGESIZE_def)
  have prot: "segment_prot 5 = Some (PROT_READ OR PROT_EXEC)" by (simp add: segment_prot_def)
  show ?thesis
    using bytes env tend
    by (simp add: NaClElfFileMapSegment_def prot with_os_def on_os_def Let_def code trunc add_segment_def r page
        add_pages_to_enclave_def add_one_page secinfo_flags_def
        del: take_append take_take)
qed

text \<open>C40: Code that was never validated becomes executable. The segment of a text of at most a page is added as the whole
  page of the file: for every code the validator accepts and every bytes that follow it in the page, the
  loader succeeds, the validator has seen the code alone, and the page that is added is executable and holds
  the bytes that follow, too. They are not filled with halts: only the loader's own memory is.\<close>

theorem unvalidated_code_added:
  assumes bytes: "\<forall>d n. map_file E d n (ucast off) = (Some (take (unat n) (code @ tail)), d)"
    and env: "host_io E" "\<forall>d va. validate E d va code = (True, d)" "\<forall>q d. os_ioctl (sgx E) q d = (0, d)"
    and len: "length code = unat sz" "length (code @ tail) = 4096" "code \<noteq> []"
    and tend: "static_text_end (app (nap st)) = 0x20000 + ucast sz"
  shows "\<exists>st'. NaClElfFileMapSegment E secs (PF_R OR PF_X) off sz 0x20000 pa st = Some (Inr (LOAD_OK, st')) \<and>
    validated st' = (0x20000, code, True) # validated st \<and>
    asked (build st') = EnclaveAddPage \<lparr>ap_addr = baseaddr secs + sgx_addr pa, ap_src = Some (code @ tail),
      ap_secinfo = SGX_SECINFO_FLAGS_REG OR SGX_SECINFO_FLAGS_R OR SGX_SECINFO_FLAGS_X, ap_mrmask = 0\<rparr> # asked (build st)"
  using assms by (rule add_text_page)


section \<open>A sample run\<close>

text \<open>A file whose text is 32 bytes of halts, followed by other bytes; the runtime has no segments.\<close>

definition sample_runtime :: "u8 list" where
  "sample_runtime = ELFMAG @ [2, 1, 1] @ replicate 9 0 @ [2, 0, 62, 0, 1, 0, 0, 0] @ bytes_of (0x1000 :: u64) @
     bytes_of (64 :: u64) @ replicate 12 0 @ [64, 0, 56, 0] @ replicate 8 0"

definition sample_env :: "unit load_env" where
  "sample_env = \<lparr>sgx = willing_os, map_file = (\<lambda>d n off. (Some (take (unat n) (replicate 32 0xf4 @ replicate 4064 0xc3)), d)),
     validate = (\<lambda>d va code. (\<forall>b\<in>set code. b = 0xf4, d)), runtime_pread = file_pread sample_runtime, host_io = True\<rparr>"

definition sample_secs :: sgx_arch_secs where
  "sample_secs = \<lparr>secs_size = 0x1000000000, baseaddr = 0x1000000000, ssaframesize = 1, miscselect = 0, secs_flags = 5,
     secs_xfrm = 3, mrenclave = []\<rparr>"

definition sample_state :: "unit load_state" where
  "sample_state = \<lparr>nap = sample_load_app\<lparr>app := sample_app\<lparr>static_text_end := 0x20020\<rparr>\<rparr>,
     build = \<lparr>os = (), zero_page = True, asked = []\<rparr>, validated = []\<rparr>"

definition text_image :: NaClElfImage where
  "text_image = (new_image (sample_ehdr 1) [sample_phdr 0x10000 0x20000 32 32 5])\<lparr>loadable := True # replicate 127 False\<rparr>"

definition sample_files :: sgx_files where
  "sample_files = \<lparr>sig_file = ''sig'', token_file = ''token'', nacl_file = ''nacl''\<rparr>"

definition sample_token :: sgx_arch_token where
  "sample_token = \<lparr>tok_flags = 4, tok_xfrm = 3, tok_mrenclave = [], miscselect_mask = 0\<rparr>"

lemma sample_page_added:
  "\<exists>st'. NaClElfFileMapSegment sample_env sample_secs (PF_R OR PF_X) 0x10000 32 0x20000 pa sample_state = Some (Inr (LOAD_OK, st')) \<and>
    validated st' = (0x20000, replicate 32 0xf4, True) # validated sample_state \<and>
    asked (build st') = EnclaveAddPage \<lparr>ap_addr = baseaddr sample_secs + sgx_addr pa,
      ap_src = Some (replicate 32 0xf4 @ replicate 4064 0xc3),
      ap_secinfo = SGX_SECINFO_FLAGS_REG OR SGX_SECINFO_FLAGS_R OR SGX_SECINFO_FLAGS_X, ap_mrmask = 0\<rparr> # asked (build sample_state)"
  by (rule add_text_page) (simp_all add: sample_env_def sample_state_def willing_os_def)

lemma sample_image_loaded:
  "\<exists>st'. NaClElfImageLoad sample_env sample_secs text_image sample_state = Some (Inr (LOAD_OK, st')) \<and> length (asked (build st')) = 1"
proof -
  have ps: "image_segments text_image = [(sample_phdr 0x10000 0x20000 32 32 5, True)]"
    by (simp add: image_segments_def text_image_def new_image_def sample_ehdr_def)
  have off: "NaClTruncAllocPage 0x10000 = 0x10000" "NaClTruncAllocPage 0x20000 = 0x20000"
    by (simp_all add: NaClTruncAllocPage_def NACL_MAP_PAGESIZE_def)
  have pa: "NaClUserToSysAddr (app (nap sample_state)) 0x20000 = 0x7f0000020000" "addr_bits (app (nap sample_state)) = 32"
    by (simp_all add: NaClUserToSysAddr_def sample_state_def sample_load_app_def sample_app_def)
  obtain st' where st': "NaClElfFileMapSegment sample_env sample_secs 5 0x10000 32 0x20000 0x7f0000020000 sample_state = Some (Inr (LOAD_OK, st'))"
    "length (asked (build st')) = 1"
    using sample_page_added [of "0x7f0000020000"] by (auto simp: sample_state_def)
  then have "load_segment sample_env sample_secs (sample_phdr 0x10000 0x20000 32 32 5) True sample_state = Some (Inr (None, st'))"
    by (simp add: load_segment_def sample_phdr_def off pa kNaClBadAddress_def)
  then show ?thesis using st' by (simp add: NaClElfImageLoad_def ps)
qed

lemma add_all_returns:
  "(\<forall>(addr, src, len, ty, prot)\<in>set ps. unat len \<le> 2 ^ 64 - 4096 \<and> ty \<noteq> SGX_PAGE_SECS) \<Longrightarrow> \<exists>b'. add_all E secs ps b = Some b'"
proof (induction ps arbitrary: b)
  case (Cons p ps)
  obtain addr src len ty prot where p: "p = (addr, src, len, ty, prot)" by (cases p) auto
  have "unat len \<le> 2 ^ 64 - 4096" "ty \<noteq> SGX_PAGE_SECS" using Cons.prems unfolding p by simp_all
  then obtain n ret b' where "add_pages_to_enclave E secs addr src len ty prot True b = Some (ret, b')"
    using add_pages_loop_returns by (fastforce simp: add_pages_to_enclave_def)
  then show ?case using Cons unfolding p by simp
qed simp

lemma add_pages_loop_accepted:
  assumes "add_pages_loop E len p added b = Some r"
  shows "(\<forall>q d. fst (os_ioctl E q d) = 0) \<longrightarrow> fst r = 0"
proof (rule add_pages_loop.raw_induct [where P = "\<lambda>E len p added b r. (\<forall>q d. fst (os_ioctl E q d) = 0) \<longrightarrow> fst r = 0", OF _ assms])
  fix f E len p added and b :: "'a sgx_build" and r
  assume IH: "\<And>E len p added b r. f E len p added b = Some r \<Longrightarrow> (\<forall>q d. fst (os_ioctl E q d) = 0) \<longrightarrow> fst r = 0"
    and eq: "(if added < len then case ioctl E (EnclaveAddPage p) b of (ret, b) \<Rightarrow>
          if ret <s 0 then Some (ret, b) else f E len (next_page p) (added + pagesize) b else Some (0, b)) = Some r"
  obtain ret b1 where q: "ioctl E (EnclaveAddPage p) b = (ret, b1)" by fastforce
  then have "(\<forall>q d. fst (os_ioctl E q d) = 0) \<longrightarrow> ret = 0"
    by (metis (no_types, lifting) ioctl_def case_prod_unfold fst_conv)
  then show "(\<forall>q d. fst (os_ioctl E q d) = 0) \<longrightarrow> fst r = 0"
    using eq IH unfolding q by (auto split: if_splits)
qed

lemma willing_adds:
  assumes "unat len \<le> 2 ^ 64 - 4096" "ty \<noteq> SGX_PAGE_SECS"
  shows "\<exists>b'. add_pages_to_enclave willing_os secs addr src len ty prot True b = Some (0, b')"
proof -
  let ?p = "\<lparr>ap_addr = baseaddr secs + addr, ap_src = src, ap_secinfo = secinfo_flags ty prot, ap_mrmask = 0\<rparr>"
  obtain r where "add_pages_loop willing_os len ?p 0 b = Some r"
    using add_pages_loop_returns [OF assms(1), of willing_os ?p 0 b] by blast
  moreover have "fst r = 0" using add_pages_loop_accepted [OF calculation] by (simp add: willing_os_def)
  ultimately show ?thesis using assms(2) by (cases r) (simp add: add_pages_to_enclave_def)
qed

lemma sample_runtime_read:
  "\<exists>img. NaClElfImageServiceRuntimeNew (file_pread sample_runtime) (sample_ehdr 0) () = Inr (Inr img, ()) \<and> image_segments img = []"
proof -
  have "(case NaClElfImageServiceRuntimeNew (file_pread sample_runtime) (sample_ehdr 0) () of
     Inr (Inr img, h) \<Rightarrow> image_segments img = [] | _ \<Rightarrow> False)" by code_simp
  then show ?thesis by (auto split: sum.splits prod.splits)
qed

lemma sample_runtime_loaded:
  "\<exists>st'. NaClLoadSGXSpecific sample_env F sample_secs (sample_ehdr 0, token) sample_state = Some (Inr ((), st'))"
proof -
  have E: "sgx sample_env = willing_os" "runtime_pread sample_env = file_pread sample_runtime" by (simp_all add: sample_env_def)
  let ?st = "sample_state\<lparr>nap := (nap sample_state)\<lparr>app := (app (nap sample_state))\<lparr>mem_start := 0x100000000\<rparr>\<rparr>\<rparr>"
  obtain b where b: "add_pages_to_enclave willing_os sample_secs (baseaddr sample_secs + 0x100000000 + 0xf0000000) None 0x10000000
      SGX_PAGE_REG (PROT_READ OR PROT_WRITE) True (build ?st) = Some (0, b)"
    using willing_adds [of "0x10000000" SGX_PAGE_REG] by fastforce
  obtain img where img: "NaClElfImageServiceRuntimeNew (file_pread sample_runtime) (sample_ehdr 0) () = Inr (Inr img, ())"
    "image_segments img = []" using sample_runtime_read by blast
  have "\<forall>(addr, src, len, ty, prot)\<in>set (processor_pages sample_secs (NaClElfImageGetEntryPoint img)).
      unat len \<le> 2 ^ 64 - 4096 \<and> ty \<noteq> SGX_PAGE_SECS"
    by (simp add: processor_pages_def Let_def NACL_PAGESIZE_def)
  from add_all_returns [OF this] obtain b' where b': "add_all willing_os sample_secs
      (processor_pages sample_secs (NaClElfImageGetEntryPoint img)) (b\<lparr>os := ()\<rparr>) = Some b'" by blast
  show ?thesis using b b' img
    by (simp add: NaClLoadSGXSpecific_def E Let_def load_runtime_def NaClElfImageLoadServiceRuntime_def finish_enclave_def)
qed

theorem contents_never_measured_witness:
  "(\<exists>st'. NaClElfImageLoad sample_env sample_secs text_image sample_state = Some (Inr (LOAD_OK, st')) \<and>
      length (asked (build st')) = 1 \<and> measured_pages (build st') = []) \<and>
   (\<exists>st'. NaClLoadSGXSpecific sample_env sample_files sample_secs (sample_ehdr 0, sample_token) sample_state = Some (Inr ((), st')) \<and>
      measured_pages (build st') = [])"
proof -
  have m: "measured_pages (build sample_state) = []" by (simp add: measured_pages_def sample_state_def)
  obtain st1 where l: "NaClElfImageLoad sample_env sample_secs text_image sample_state = Some (Inr (LOAD_OK, st1))" "length (asked (build st1)) = 1"
    using sample_image_loaded by blast
  obtain st2 where s: "NaClLoadSGXSpecific sample_env sample_files sample_secs (sample_ehdr 0, sample_token) sample_state = Some (Inr ((), st2))"
    using sample_runtime_loaded by blast
  from contents_never_measured [of sample_env sample_secs text_image sample_state sample_files "(sample_ehdr 0, sample_token)"]
  have "measured_pages (build st1) = [] \<and> measured_pages (build st2) = []" using l(1) s m by simp
  then show ?thesis using l s by blast
qed

theorem program_pages_stay_witness:
  "\<exists>st' p. NaClElfImageLoad sample_env sample_secs text_image sample_state = Some (Inr (LOAD_OK, st')) \<and>
     asked (build st') = [EnclaveAddPage p] \<and> unat (baseaddr sample_secs) + 2 ^ 32 \<le> unat (ap_addr p)"
proof -
  obtain st' where l: "NaClElfImageLoad sample_env sample_secs text_image sample_state = Some (Inr (LOAD_OK, st'))" "length (asked (build st')) = 1"
    using sample_image_loaded by blast
  have "unat (baseaddr sample_secs) + 2 ^ 36 \<le> 2 ^ 64" by (simp add: sample_secs_def)
  from program_pages_stay [OF this l(1)] obtain ps where "asked (build st') = map EnclaveAddPage ps"
    "\<forall>p\<in>set ps. unat (baseaddr sample_secs) + 2 ^ 32 \<le> unat (ap_addr p)" by (auto simp: sample_state_def)
  then show ?thesis using l by (cases ps) auto
qed

theorem unvalidated_code_added_witness:
  "\<exists>st'. NaClElfFileMapSegment sample_env sample_secs (PF_R OR PF_X) 0x10000 32 0x20000 0x100020000 sample_state = Some (Inr (LOAD_OK, st')) \<and>
    validated st' = [(0x20000, replicate 32 0xf4, True)] \<and>
    asked (build st') = [EnclaveAddPage \<lparr>ap_addr = 0x1100020000, ap_src = Some (replicate 32 0xf4 @ replicate 4064 0xc3),
      ap_secinfo = 0x205, ap_mrmask = 0\<rparr>]"
proof -
  have e: "\<forall>d n. map_file sample_env d n (ucast (0x10000 :: u32)) = (Some (take (unat n) (replicate 32 0xf4 @ replicate 4064 0xc3)), d)"
    "host_io sample_env" "\<forall>d va. validate sample_env d va (replicate 32 0xf4) = (True, d)"
    "\<forall>q d. os_ioctl (sgx sample_env) q d = (0, d)" by (simp_all add: sample_env_def willing_os_def)
  have st: "static_text_end (app (nap sample_state)) = 0x20000 + ucast (32 :: u32)" by (simp add: sample_state_def)
  from unvalidated_code_added [OF e _ _ _ st, of sample_secs "0x100020000"] show ?thesis
    by (simp add: sample_state_def sample_secs_def sgx_addr_def)
qed

end
