(* ===== verification/EnclaveProofs.thy ===== *)
theory EnclaveProofs
  imports Enclave
begin

text \<open>
  Two contracts of code at the boundary, each with a rule per operation of the framework, collected in
  \<open>conf_intros\<close> and \<open>leak_intros\<close>, so that a wrapper is proved by applying them.

  \<^item> \<open>confined b t S m\<close>: whatever the host does, \<open>m\<close> changes no byte of the enclave
    \<open>[b, t)\<close> outside \<open>S\<close>.
  \<^item> \<open>leaks S m\<close>: what the host sees and what \<open>m\<close> returns depend on no byte of the
    enclave outside \<open>S\<close>.
\<close>

named_theorems conf_intros \<open>rules for confined\<close>
named_theorems leak_intros \<open>rules for leaks\<close>

lemmas act_defs = retX_def failX_def bindX_def thenX_def

section \<open>Confinement\<close>

definition confined :: "u64 \<Rightarrow> u64 \<Rightarrow> u64 set \<Rightarrow> ('h, 'a) act \<Rightarrow> bool" where
  "confined b t S m \<longleftrightarrow> (\<forall>st x st'. enclave_base st = b \<longrightarrow> enclave_top st = t \<longrightarrow> m st = Inr (x, st') \<longrightarrow>
     enclave_base st' = b \<and> enclave_top st' = t \<and> (\<forall>a. in_enclave st a \<longrightarrow> a \<notin> S \<longrightarrow> mem st' a = mem st a))"

text \<open>A block on the untrusted stack: none, or outside the enclave.\<close>

definition ublock :: "u64 \<Rightarrow> u64 \<Rightarrow> u64 \<Rightarrow> u64 \<Rightarrow> bool" where
  "ublock b t a n \<longleftrightarrow> a = 0 \<or> (unat a + unat n < 2 ^ 64 \<and> (unat a + unat n \<le> unat b \<or> unat t \<le> unat a))"

lemma in_enclave_cong:
  "enclave_base st = enclave_base st' \<Longrightarrow> enclave_top st = enclave_top st' \<Longrightarrow> in_enclave st = in_enclave st'"
  by (simp add: in_enclave_def fun_eq_iff)

lemma confinedI:
  assumes "\<And>st x st'. enclave_base st = b \<Longrightarrow> enclave_top st = t \<Longrightarrow> m st = Inr (x, st') \<Longrightarrow>
    enclave_base st' = b \<and> enclave_top st' = t \<and> (\<forall>a. in_enclave st a \<longrightarrow> a \<notin> S \<longrightarrow> mem st' a = mem st a)"
  shows "confined b t S m"
  using assms unfolding confined_def by blast

lemma confinedD:
  assumes "confined b t S m" "enclave_base st = b" "enclave_top st = t" "m st = Inr (x, st')"
  shows "enclave_base st' = b" "enclave_top st' = t" "\<And>a. in_enclave st a \<Longrightarrow> a \<notin> S \<Longrightarrow> mem st' a = mem st a"
  using assms unfolding confined_def by blast+

lemma confined_mono: "confined b t S m \<Longrightarrow> S \<subseteq> S' \<Longrightarrow> confined b t S' m"
proof (rule confinedI)
  fix st x st'
  assume m: "confined b t S m" "S \<subseteq> S'" and *: "enclave_base st = b" "enclave_top st = t" "m st = Inr (x, st')"
  from confinedD [OF m(1) *] m(2)
  show "enclave_base st' = b \<and> enclave_top st' = t \<and> (\<forall>a. in_enclave st a \<longrightarrow> a \<notin> S' \<longrightarrow> mem st' a = mem st a)"
    by blast
qed

lemma bindX_retX [simp]: "bindX m retX = m"
  by (auto simp: bindX_def retX_def fun_eq_iff split: sum.split)

lemma confined_ret [conf_intros]: "confined b t S (retX x)"
  by (auto simp: confined_def retX_def)

lemma confined_fail [conf_intros]: "confined b t S (failX e)"
  by (auto simp: confined_def failX_def)

lemma confined_bind [conf_intros]:
  assumes "confined b t S m" "\<And>x. confined b t S (f x)"
  shows "confined b t S (bindX m f)"
  unfolding confined_def
proof (intro allI impI)
  fix st x st''
  assume st: "enclave_base st = b" "enclave_top st = t" and run: "bindX m f st = Inr (x, st'')"
  obtain y st' where m: "m st = Inr (y, st')" using run by (cases "m st") (auto simp: bindX_def)
  have f: "f y st' = Inr (x, st'')" using run m by (simp add: bindX_def)
  from assms(1) st m have 1: "enclave_base st' = b" "enclave_top st' = t"
    "\<And>a. in_enclave st a \<Longrightarrow> a \<notin> S \<Longrightarrow> mem st' a = mem st a" unfolding confined_def by blast+
  from assms(2) [of y] 1 f have 2: "enclave_base st'' = b" "enclave_top st'' = t"
    "\<And>a. in_enclave st' a \<Longrightarrow> a \<notin> S \<Longrightarrow> mem st'' a = mem st' a" unfolding confined_def by blast+
  have "in_enclave st' = in_enclave st" by (rule in_enclave_cong) (use 1 st in simp_all)
  then show "enclave_base st'' = b \<and> enclave_top st'' = t \<and> (\<forall>a. in_enclave st a \<longrightarrow> a \<notin> S \<longrightarrow> mem st'' a = mem st a)"
    using 1 2 by auto
qed

lemma confined_then [conf_intros]: "confined b t S m \<Longrightarrow> confined b t S k \<Longrightarrow> confined b t S (thenX m k)"
  unfolding thenX_def by (intro confined_bind)

lemma confined_seq [conf_intros]:
  "(\<And>m. m \<in> set ms \<Longrightarrow> confined b t S m) \<Longrightarrow> confined b t S k \<Longrightarrow> confined b t S (seqX ms k)"
  unfolding seqX_def by (induction ms) (auto intro: confined_then)

lemma confined_if [conf_intros]:
  "(c \<Longrightarrow> confined b t S m) \<Longrightarrow> (\<not> c \<Longrightarrow> confined b t S k) \<Longrightarrow> confined b t S (if c then m else k)"
  by simp

lemma confined_case_prod [conf_intros]:
  "(\<And>x y. confined b t S (f x y)) \<Longrightarrow> confined b t S (case p of (x, y) \<Rightarrow> f x y)"
  by (cases p) simp

text \<open>A choice that looks at the state.\<close>

lemma confined_state_if:
  assumes "confined b t S m" "confined b t S k"
  shows "confined b t S (\<lambda>st. if c st then m st else k st)"
proof (rule confinedI)
  fix st x st'
  assume *: "enclave_base st = b" "enclave_top st = t" "(if c st then m st else k st) = Inr (x, st')"
  show "enclave_base st' = b \<and> enclave_top st' = t \<and> (\<forall>a. in_enclave st a \<longrightarrow> a \<notin> S \<longrightarrow> mem st' a = mem st a)"
  proof (cases "c st")
    case True
    then have "m st = Inr (x, st')" using *(3) by simp
    from confinedD [OF assms(1) *(1,2) this] show ?thesis by blast
  next
    case False
    then have "k st = Inr (x, st')" using *(3) by simp
    from confinedD [OF assms(2) *(1,2) this] show ?thesis by blast
  qed
qed

lemma confined_inr [conf_intros]: "confined b t S (\<lambda>st. Inr (x, st))"
  by (auto simp: confined_def)

lemma confined_prepare [conf_intros]: "confined b t S sgx_prepare_ustack"
  by (auto simp: confined_def sgx_prepare_ustack_def Let_def)

lemma confined_reset [conf_intros]: "confined b t S (sgx_reset_ustack old)"
  by (auto simp: confined_def sgx_reset_ustack_def)

lemma confined_framed [conf_intros]: "confined b t S m \<Longrightarrow> confined b t S (framed m)"
  unfolding framed_def by (intro conf_intros)

lemma confined_merge: "enclave_base (merge st r) = enclave_base st" "enclave_top (merge st r) = enclave_top st"
  "in_enclave st a \<Longrightarrow> mem (merge st r) a = mem st a"
  by (simp_all add: merge_def)

lemma confined_tamper [conf_intros]: "confined b t S (tamper H)"
  by (auto simp: confined_def tamper_def confined_merge)

lemma confined_ocall [conf_intros]: "confined b t S (sgx_ocall H code ms)"
  by (auto simp: confined_def sgx_ocall_def Let_def confined_merge)

lemma confined_fetch [conf_intros]: "confined b t S (fetch H ms off)"
proof -
  have "confined b t S (\<lambda>st. Inr (g st, st))" for g :: "'a enclave \<Rightarrow> 'c" by (auto simp: confined_def)
  then show ?thesis unfolding fetch_def by (intro conf_intros)
qed

lemma confined_path_len [conf_intros]: "confined b t S (path_len p)"
  unfolding confined_def
proof (intro allI impI)
  fix st x st'
  assume *: "enclave_base st = b" "enclave_top st = t" "path_len p st = Inr (x, st')"
  from *(3) have "st' = st"
    by (cases "strlen_from (mem st) p (2 ^ 31 - 1)") (auto simp: path_len_def split: if_splits)
  with * show "enclave_base st' = b \<and> enclave_top st' = t \<and> (\<forall>a. in_enclave st a \<longrightarrow> a \<notin> S \<longrightarrow> mem st' a = mem st a)" by simp
qed

text \<open>Allocation on the untrusted stack.\<close>

lemma confined_alloc:
  assumes "\<And>ms. ublock b t ms n \<Longrightarrow> confined b t S (f ms)"
  shows "confined b t S (bindX (sgx_alloc_on_ustack_aligned n al) f)"
  unfolding confined_def
proof (intro allI impI)
  fix st x st''
  assume st: "enclave_base st = b" "enclave_top st = t"
    and run: "bindX (sgx_alloc_on_ustack_aligned n al) f st = Inr (x, st'')"
  obtain ms u where a: "sgx_alloc_on_ustack_aligned n al st = Inr (ms, st\<lparr>tls_ustack := u\<rparr>)" "ublock b t ms n"
  proof (cases "sgx_is_completely_outside_enclave st (ALIGN_DOWN_POW2 (tls_ustack st - n) al) n")
    case True
    then have "ublock b t (ALIGN_DOWN_POW2 (tls_ustack st - n) al) n" using st by (simp add: outside_iff ublock_def)
    then show ?thesis using True that by (simp add: sgx_alloc_on_ustack_aligned_def Let_def)
  next
    case False
    then show ?thesis using that [of 0 "tls_ustack st"] by (simp add: sgx_alloc_on_ustack_aligned_def Let_def ublock_def)
  qed
  then have f: "f ms (st\<lparr>tls_ustack := u\<rparr>) = Inr (x, st'')" using run by (simp add: bindX_def)
  have "in_enclave (st\<lparr>tls_ustack := u\<rparr>) = in_enclave st" by (rule in_enclave_cong) simp_all
  then show "enclave_base st'' = b \<and> enclave_top st'' = t \<and> (\<forall>a. in_enclave st a \<longrightarrow> a \<notin> S \<longrightarrow> mem st'' a = mem st a)"
    using confinedD [OF assms [OF a(2)], of "st\<lparr>tls_ustack := u\<rparr>", OF _ _ f] st by auto
qed

lemma confined_alloc_plain [conf_intros]: "confined b t S (sgx_alloc_on_ustack_aligned n al)"
  using confined_alloc [of b t n S retX al] by (simp add: confined_ret)

lemma ublock_not_in:
  assumes "ublock b t a n" "a \<noteq> 0" "unat off + k \<le> unat n" "enclave_base st = b" "enclave_top st = t"
    and "unat (x - (a + off)) < k"
  shows "\<not> in_enclave st x"
proof -
  let ?i = "unat (x - (a + off))"
  have lt: "unat off + ?i < unat n" "unat a + unat n < 2 ^ 64" using assms(1,2,3,6) by (auto simp: ublock_def)
  have "x = (a + off) + (x - (a + off))" by simp
  also have "unat \<dots> = unat (a + off) + ?i" using lt by (intro unat_plus_no_wrap) (simp add: unat_plus_no_wrap)
  also have "unat (a + off) = unat a + unat off" using lt by (intro unat_plus_no_wrap) simp
  finally have "unat x = unat a + unat off + ?i" by simp
  then show ?thesis using assms(1,2,4,5) lt by (auto simp: ublock_def in_enclave_def word_le_nat_alt word_less_nat_alt)
qed

lemma confined_put:
  fixes w :: "'a::len word"
  assumes "ublock b t ms n" "unat off + LENGTH('a) div 8 \<le> unat n"
  shows "confined b t S (put ms off w)"
  unfolding confined_def
proof (intro allI impI)
  fix st x st'
  assume st: "enclave_base st = b" "enclave_top st = t" and run: "put ms off w st = Inr (x, st')"
  then have ms: "ms \<noteq> 0" "st' = st\<lparr>mem := store_bytes (ms + off) (bytes_of w) (mem st)\<rparr>"
    by (auto simp: put_def split: if_splits)
  have "mem st' a = mem st a" if "in_enclave st a" for a
    using ublock_not_in [OF assms(1) ms(1) assms(2) st, of a] that by (auto simp: ms(2) store_bytes_def)
  then show "enclave_base st' = b \<and> enclave_top st' = t \<and> (\<forall>a. in_enclave st a \<longrightarrow> a \<notin> S \<longrightarrow> mem st' a = mem st a)"
    using st ms by simp
qed

text \<open>Copies: into untrusted memory, and into the enclave.\<close>

lemma confined_update:
  assumes "\<And>st a. enclave_base st = b \<Longrightarrow> enclave_top st = t \<Longrightarrow> in_enclave st a \<Longrightarrow> a \<notin> S \<Longrightarrow> f st a = mem st a"
  shows "confined b t S (\<lambda>st. Inr ((), st\<lparr>mem := f st\<rparr>))"
  by (rule confinedI) (use assms in auto)

lemma confined_memcpy_in:
  "range_of dst n \<subseteq> S \<Longrightarrow> confined b t S (memcpyX H dst src n)"
  unfolding memcpyX_def
  by (intro confined_then confined_tamper confined_update) (auto simp: copy_bytes_def range_of_def)

lemma confined_memcpy_out:
  assumes "ublock b t dst n" "dst \<noteq> 0"
  shows "confined b t S (memcpyX H dst src n)"
  unfolding memcpyX_def
proof (intro confined_then confined_tamper confined_update)
  fix st :: "'a enclave" and x
  assume st: "enclave_base st = b" "enclave_top st = t" and x: "in_enclave st x"
  then show "copy_bytes dst src n (mem st) x = mem st x"
    using ublock_not_in [OF assms, of 0 "unat n" st x] by (auto simp: copy_bytes_def word_less_nat_alt)
qed

lemma confined_copy_to_ustack [conf_intros]: "confined b t S (sgx_copy_to_ustack H ptr n)"
proof -
  have "confined b t S (bindX (sgx_alloc_on_ustack n) (\<lambda>uptr.
      if uptr \<noteq> 0 then thenX (memcpyX H uptr ptr n) (retX uptr) else retX uptr))"
    unfolding sgx_alloc_on_ustack_def
    by (intro confined_alloc confined_if confined_then confined_memcpy_out confined_ret)
  then show ?thesis unfolding sgx_copy_to_ustack_def [abs_def] by (intro confined_state_if confined_inr)
qed

lemma confined_copy_to_enclave [conf_intros]:
  assumes "range_of ptr maxsize \<subseteq> S"
  shows "confined b t S (sgx_copy_to_enclave H ptr maxsize uptr usize)"
proof -
  show ?thesis
  proof (cases "usize > maxsize")
    case True
    then show ?thesis unfolding sgx_copy_to_enclave_def [abs_def] by (simp add: confined_inr)
  next
    case False
    then have "range_of ptr usize \<subseteq> range_of ptr maxsize" by (auto simp: range_of_def)
    with assms have "range_of ptr usize \<subseteq> S" by blast
    then show ?thesis unfolding sgx_copy_to_enclave_def [abs_def]
      by (intro confined_state_if confined_inr confined_then confined_ret confined_memcpy_in)
  qed
qed

section \<open>Noninterference\<close>

text \<open>Two states that differ in enclave bytes outside \<open>S\<close> only.\<close>

definition low_eq :: "u64 set \<Rightarrow> 'h enclave \<Rightarrow> 'h enclave \<Rightarrow> bool" where
  "low_eq S s1 s2 \<longleftrightarrow> enclave_base s2 = enclave_base s1 \<and> enclave_top s2 = enclave_top s1 \<and>
     tls_ustack s2 = tls_ustack s1 \<and> tls_ustack_top s2 = tls_ustack_top s1 \<and>
     tls_exit_target s2 = tls_exit_target s1 \<and> host_state s2 = host_state s1 \<and>
     (\<forall>a. \<not> in_enclave s1 a \<or> a \<in> S \<longrightarrow> mem s2 a = mem s1 a)"

definition leaks :: "u64 \<Rightarrow> u64 \<Rightarrow> u64 set \<Rightarrow> ('h, 'a) act \<Rightarrow> bool" where
  "leaks b t S m \<longleftrightarrow> (\<forall>s1 s2. enclave_base s1 = b \<longrightarrow> enclave_top s1 = t \<longrightarrow> low_eq S s1 s2 \<longrightarrow>
     rel_sum (=) (rel_prod (=) (\<lambda>r1 r2. low_eq S r1 r2 \<and> enclave_base r1 = b \<and> enclave_top r1 = t)) (m s1) (m s2))"

lemma leaksI:
  assumes "\<And>s1 s2. enclave_base s1 = b \<Longrightarrow> enclave_top s1 = t \<Longrightarrow> low_eq S s1 s2 \<Longrightarrow>
    rel_sum (=) (rel_prod (=) (\<lambda>r1 r2. low_eq S r1 r2 \<and> enclave_base r1 = b \<and> enclave_top r1 = t)) (m s1) (m s2)"
  shows "leaks b t S m"
  using assms unfolding leaks_def by blast

lemma leaksD:
  assumes "leaks b t S m" "enclave_base s1 = b" "enclave_top s1 = t" "low_eq S s1 s2"
  obtains e where "m s1 = Inl e" "m s2 = Inl e"
  | x r1 r2 where "m s1 = Inr (x, r1)" "m s2 = Inr (x, r2)" "low_eq S r1 r2" "enclave_base r1 = b" "enclave_top r1 = t"
proof -
  from assms have "rel_sum (=) (rel_prod (=) (\<lambda>r1 r2. low_eq S r1 r2 \<and> enclave_base r1 = b \<and> enclave_top r1 = t)) (m s1) (m s2)"
    unfolding leaks_def by blast
  then show ?thesis
  proof cases
    case (1 x y)
    then show ?thesis using that(1) by blast
  next
    case (2 x y)
    then show ?thesis using that(2) [of "fst x" "snd x" "snd y"] by (cases x; cases y) simp
  qed
qed

lemma leaks_inr: "(\<And>s1 s2. enclave_base s1 = b \<Longrightarrow> enclave_top s1 = t \<Longrightarrow> low_eq S s1 s2 \<Longrightarrow>
    f s1 = f s2 \<and> low_eq S (g s1) (g s2) \<and> enclave_base (g s1) = b \<and> enclave_top (g s1) = t) \<Longrightarrow>
  leaks b t S (\<lambda>st. Inr (f st, g st))"
  by (rule leaksI) simp

lemma leaks_ret [leak_intros]: "leaks b t S (retX x)"
  unfolding retX_def [abs_def] by (rule leaks_inr) simp

lemma leaks_const [leak_intros]: "leaks b t S (\<lambda>st. Inr (x, st))"
  by (rule leaks_inr) simp

lemma leaks_fail [leak_intros]: "leaks b t S (failX e)"
  by (rule leaksI) (simp add: failX_def)

lemma leaks_bind [leak_intros]:
  fixes m :: "('h, 'a) act"
  assumes "leaks b t S m" "\<And>x. leaks b t S (f x)"
  shows "leaks b t S (bindX m f)"
proof (rule leaksI)
  fix s1 s2 :: "'h enclave"
  assume *: "enclave_base s1 = b" "enclave_top s1 = t" "low_eq S s1 s2"
  from assms(1) * show "rel_sum (=) (rel_prod (=) (\<lambda>r1 r2. low_eq S r1 r2 \<and> enclave_base r1 = b \<and> enclave_top r1 = t))
    (bindX m f s1) (bindX m f s2)"
  proof (cases rule: leaksD)
    case (1 e)
    then show ?thesis by (simp add: bindX_def)
  next
    case (2 x r1 r2)
    then show ?thesis using assms(2) [of x] by (simp add: bindX_def leaks_def)
  qed
qed

lemma leaks_then [leak_intros]: "leaks b t S m \<Longrightarrow> leaks b t S k \<Longrightarrow> leaks b t S (thenX m k)"
  unfolding thenX_def by (intro leaks_bind)

lemma leaks_seq [leak_intros]:
  "(\<And>m. m \<in> set ms \<Longrightarrow> leaks b t S m) \<Longrightarrow> leaks b t S k \<Longrightarrow> leaks b t S (seqX ms k)"
  unfolding seqX_def by (induction ms) (auto intro: leaks_then)

lemma leaks_if [leak_intros]:
  "(c \<Longrightarrow> leaks b t S m) \<Longrightarrow> (\<not> c \<Longrightarrow> leaks b t S k) \<Longrightarrow> leaks b t S (if c then m else k)"
  by simp

lemma leaks_case_prod [leak_intros]:
  "(\<And>x y. leaks b t S (f x y)) \<Longrightarrow> leaks b t S (case p of (x, y) \<Rightarrow> f x y)"
  by (cases p) simp

lemma low_eq_simps:
  assumes "low_eq S s1 s2"
  shows "tls_ustack s2 = tls_ustack s1" "tls_ustack_top s2 = tls_ustack_top s1" "host_state s2 = host_state s1"
    "enclave_base s2 = enclave_base s1" "enclave_top s2 = enclave_top s1" "in_enclave s2 = in_enclave s1"
    "untrusted s2 = untrusted s1"
    "sgx_is_completely_within_enclave s2 = sgx_is_completely_within_enclave s1"
    "sgx_is_completely_outside_enclave s2 = sgx_is_completely_outside_enclave s1"
    "\<not> in_enclave s1 a \<Longrightarrow> mem s2 a = mem s1 a" "a \<in> S \<Longrightarrow> mem s2 a = mem s1 a"
  using assms
  by (auto simp: low_eq_def in_enclave_def fun_eq_iff untrusted_def sgx_is_completely_within_enclave_def
      sgx_is_completely_outside_enclave_def)

lemma leaks_state_if:
  fixes m :: "('h, 'a) act"
  assumes "leaks b t S m" "leaks b t S k" "\<And>s1 s2. low_eq S s1 s2 \<Longrightarrow> c s1 = c s2"
  shows "leaks b t S (\<lambda>st. if c st then m st else k st)"
proof (rule leaksI)
  fix s1 s2 :: "'h enclave"
  assume *: "enclave_base s1 = b" "enclave_top s1 = t" "low_eq S s1 s2"
  have "c s2 = c s1" using assms(3) [OF *(3)] by simp
  then show "rel_sum (=) (rel_prod (=) (\<lambda>r1 r2. low_eq S r1 r2 \<and> enclave_base r1 = b \<and> enclave_top r1 = t))
    (if c s1 then m s1 else k s1) (if c s2 then m s2 else k s2)"
    using assms(1,2) * by (simp add: leaks_def)
qed

lemma low_eq_update:
  assumes "low_eq S s1 s2" "\<And>a. \<not> in_enclave s1 a \<or> a \<in> S \<Longrightarrow> m1 a = m2 a"
  shows "low_eq S (s1\<lparr>mem := m1\<rparr>) (s2\<lparr>mem := m2\<rparr>)"
  using assms by (auto simp: low_eq_def in_enclave_def)

lemma low_eq_ustack: "low_eq S s1 s2 \<Longrightarrow> low_eq S (s1\<lparr>tls_ustack := u\<rparr>) (s2\<lparr>tls_ustack := u\<rparr>)"
  by (auto simp: low_eq_def in_enclave_def)

lemma leaks_prepare [leak_intros]: "leaks b t S sgx_prepare_ustack"
  unfolding sgx_prepare_ustack_def [abs_def] Let_def
  by (rule leaks_inr) (auto simp: low_eq_simps low_eq_ustack)

lemma leaks_reset [leak_intros]: "leaks b t S (sgx_reset_ustack old)"
  unfolding sgx_reset_ustack_def [abs_def] by (rule leaks_inr) (auto simp: low_eq_ustack)

lemma leaks_framed [leak_intros]: "leaks b t S m \<Longrightarrow> leaks b t S (framed m)"
  unfolding framed_def by (intro leak_intros)

lemma low_eq_merge:
  assumes "low_eq S s1 s2"
  shows "low_eq S (merge s1 r) (merge s2 r)"
  using assms by (auto simp: low_eq_def merge_def in_enclave_def not_le not_less)

lemma leaks_tamper [leak_intros]: "leaks b t S (tamper H)"
  unfolding tamper_def [abs_def] by (rule leaks_inr) (simp add: low_eq_simps low_eq_merge confined_merge)

lemma leaks_ocall [leak_intros]: "leaks b t S (sgx_ocall H code ms)"
  unfolding sgx_ocall_def [abs_def] Let_def by (rule leaks_inr) (simp add: low_eq_simps low_eq_merge confined_merge)

lemma leaks_put [leak_intros]: "leaks b t S (put ms off w)"
proof -
  have "leaks b t S (\<lambda>st. Inr ((), st\<lparr>mem := store_bytes (ms + off) (bytes_of w) (mem st)\<rparr>))"
    by (rule leaks_inr) (auto simp: store_bytes_def low_eq_simps intro!: low_eq_update)
  then show ?thesis unfolding put_def [abs_def] by (auto simp: leaks_def)
qed

lemma ublock_nth_not_in:
  assumes "ublock b t a n" "a \<noteq> 0" "unat off + k \<le> unat n" "enclave_base st = b" "enclave_top st = t" "i < k"
  shows "\<not> in_enclave st (a + off + of_nat i)"
proof -
  have "unat n < 2 ^ 64" using unsigned_less [of n] by simp
  then have "i < 2 ^ 64" using assms(3,6) by linarith
  then have "unat (of_nat i :: u64) = i" by (simp add: unat_of_nat)
  then show ?thesis using ublock_not_in [OF assms(1-5), of "a + off + of_nat i"] assms(6) by simp
qed

lemma leaks_fetch:
  assumes "ublock b t ms n" "unat off + LENGTH('a::len) div 8 \<le> unat n"
  shows "leaks b t S (fetch H ms off :: ('h, 'a word) act)"
proof (cases "ms = 0")
  case False
  have "leaks b t S (\<lambda>st :: 'h enclave. Inr (of_bytes (load_bytes (ms + off) (LENGTH('a) div 8) (mem st)) :: 'a word, st))"
  proof (rule leaks_inr)
    fix s1 s2 :: "'h enclave"
    assume *: "enclave_base s1 = b" "enclave_top s1 = t" "low_eq S s1 s2"
    have "load_bytes (ms + off) (LENGTH('a) div 8) (mem s1) = load_bytes (ms + off) (LENGTH('a) div 8) (mem s2)"
      using ublock_nth_not_in [OF assms(1) False assms(2) *(1,2)] low_eq_simps(10) [OF *(3)]
      by (auto simp: load_bytes_def)
    then show "of_bytes (load_bytes (ms + off) (LENGTH('a) div 8) (mem s1)) =
        (of_bytes (load_bytes (ms + off) (LENGTH('a) div 8) (mem s2)) :: 'a word) \<and> low_eq S s1 s2 \<and>
        enclave_base s1 = b \<and> enclave_top s1 = t" using * by simp
  qed
  then show ?thesis using False unfolding fetch_def by (simp add: leaks_then leaks_tamper)
qed (simp add: fetch_def leaks_fail)

lemma leaks_alloc:
  fixes f :: "u64 \<Rightarrow> ('h, 'a) act"
  assumes "\<And>ms. ublock b t ms n \<Longrightarrow> leaks b t S (f ms)"
  shows "leaks b t S (bindX (sgx_alloc_on_ustack_aligned n al) f)"
proof (rule leaksI)
  fix s1 s2 :: "'h enclave"
  assume *: "enclave_base s1 = b" "enclave_top s1 = t" "low_eq S s1 s2"
  let ?u = "ALIGN_DOWN_POW2 (tls_ustack s1 - n) al"
  show "rel_sum (=) (rel_prod (=) (\<lambda>r1 r2. low_eq S r1 r2 \<and> enclave_base r1 = b \<and> enclave_top r1 = t))
    (bindX (sgx_alloc_on_ustack_aligned n al) f s1) (bindX (sgx_alloc_on_ustack_aligned n al) f s2)"
  proof (cases "sgx_is_completely_outside_enclave s1 ?u n")
    case True
    then have "ublock b t ?u n" using * by (simp add: outside_iff ublock_def)
    from assms [OF this] show ?thesis using True *
      by (simp add: bindX_def sgx_alloc_on_ustack_aligned_def Let_def low_eq_simps leaks_def low_eq_ustack)
  next
    case False
    have "ublock b t 0 n" by (simp add: ublock_def)
    from assms [OF this] show ?thesis using False *
      by (simp add: bindX_def sgx_alloc_on_ustack_aligned_def Let_def low_eq_simps leaks_def)
  qed
qed

lemma leaks_memcpy:
  fixes H :: "'h host_behaviour"
  assumes "range_of src n \<subseteq> S \<or> (\<forall>st :: 'h enclave. enclave_base st = b \<longrightarrow> enclave_top st = t \<longrightarrow> (\<forall>x\<in>range_of src n. \<not> in_enclave st x))"
  shows "leaks b t S (memcpyX H dst src n)"
  unfolding memcpyX_def
proof (intro leaks_then leaks_tamper leaks_inr)
  fix s1 s2 :: "'h enclave"
  assume *: "enclave_base s1 = b" "enclave_top s1 = t" "low_eq S s1 s2"
  have "copy_bytes dst src n (mem s1) a = copy_bytes dst src n (mem s2) a" if "\<not> in_enclave s1 a \<or> a \<in> S" for a
  proof (cases "a - dst < n")
    case True
    then have "src + (a - dst) \<in> range_of src n" by (simp add: range_of_def)
    then have "mem s2 (src + (a - dst)) = mem s1 (src + (a - dst))"
      using assms * low_eq_simps(10,11) [OF *(3)] by blast
    then show ?thesis using True by (simp add: copy_bytes_def)
  next
    case False
    then show ?thesis using that low_eq_simps(10,11) [OF *(3)] by (auto simp: copy_bytes_def)
  qed
  then show "() = () \<and> low_eq S (s1\<lparr>mem := copy_bytes dst src n (mem s1)\<rparr>) (s2\<lparr>mem := copy_bytes dst src n (mem s2)\<rparr>) \<and>
      enclave_base (s1\<lparr>mem := copy_bytes dst src n (mem s1)\<rparr>) = b \<and> enclave_top (s1\<lparr>mem := copy_bytes dst src n (mem s1)\<rparr>) = t"
    using low_eq_update [OF *(3)] * by simp
qed

lemma leaks_copy_to_ustack:
  assumes "range_of ptr n \<subseteq> S"
  shows "leaks b t S (sgx_copy_to_ustack H ptr n)"
  unfolding sgx_copy_to_ustack_def [abs_def] sgx_alloc_on_ustack_def
  by (intro leaks_state_if leaks_const leaks_alloc leaks_if leaks_then leaks_ret leaks_memcpy disjI1 assms)
    (simp add: low_eq_simps)

lemma leaks_copy_to_enclave [leak_intros]: "leaks b t S (sgx_copy_to_enclave H ptr maxsize uptr usize)"
proof (rule leaksI)
  fix s1 s2 :: "'a enclave"
  assume *: "enclave_base s1 = b" "enclave_top s1 = t" "low_eq S s1 s2"
  let ?R = "rel_sum (=) (rel_prod (=) (\<lambda>r1 r2. low_eq S r1 r2 \<and> enclave_base r1 = b \<and> enclave_top r1 = t))"
  show "?R (sgx_copy_to_enclave H ptr maxsize uptr usize s1) (sgx_copy_to_enclave H ptr maxsize uptr usize s2)"
  proof (cases "sgx_is_completely_outside_enclave s1 uptr usize")
    case True
    have "\<not> in_enclave st x" if "enclave_base st = b" "enclave_top st = t" "x \<in> range_of uptr usize" for st :: "'a enclave" and x
    proof -
      have "sgx_is_completely_outside_enclave st uptr usize" using True * that by (simp add: outside_iff)
      then show ?thesis using that(3) by (rule range_of_outside)
    qed
    then have "leaks b t S (thenX (memcpyX H ptr uptr usize) (retX True))"
      by (intro leaks_then leaks_ret leaks_memcpy) blast
    then show ?thesis using * True by (simp add: sgx_copy_to_enclave_def low_eq_simps leaks_def)
  next
    case False
    then show ?thesis using * by (simp add: sgx_copy_to_enclave_def low_eq_simps)
  qed
qed

end
