(* ===== verification/OcallFileProofs.thy ===== *)
theory OcallFileProofs
  imports OcallFile EnclaveProofs
begin

text \<open>
  The wrappers of \<open>OcallFile\<close> keep the contracts of \<open>EnclaveProofs\<close>, or break them: the
  ones that check what comes back from the host, and the ones that do not.
\<close>

section \<open>Confinement of the wrappers\<close>

lemma confined_put_copy: "ublock b t ms n \<Longrightarrow> unat off + 8 \<le> unat n \<Longrightarrow> confined b t S (put_copy H ms off ptr len)"
  unfolding put_copy_def by (intro conf_intros confined_put) simp_all

lemma confined_put_alloc: "ublock b t ms n \<Longrightarrow> unat off + 8 \<le> unat n \<Longrightarrow> confined b t S (put_alloc ms off k al)"
  unfolding put_alloc_def by (intro confined_alloc confined_put) simp_all

lemma confined_seq_list: "list_all (confined b t S) ms \<Longrightarrow> confined b t S k \<Longrightarrow> confined b t S (seqX ms k)"
  by (rule confined_seq) (auto simp: list_all_iff)

lemmas conf_puts = confined_put confined_put_copy confined_put_alloc

lemma confined_simple_ocall:
  "(\<And>ms. ublock b t ms n \<Longrightarrow> list_all (confined b t S) (fill ms)) \<Longrightarrow> confined b t S (simple_ocall H code n al fill)"
  unfolding simple_ocall_def by (intro confined_framed confined_alloc confined_seq_list confined_ocall)

lemma confined_alloc_untrusted [conf_intros]: "confined b t S (ocall_alloc_untrusted H sz pmem)"
  unfolding ocall_alloc_untrusted_def
  by (intro conf_intros confined_alloc confined_state_if) (simp add: conf_puts)

lemma confined_mmap_untrusted [conf_intros]: "confined b t S (ocall_mmap_untrusted H fd offset sz prot pmem)"
  unfolding ocall_mmap_untrusted_def
  by (intro conf_intros confined_alloc confined_state_if) (auto simp: conf_puts)

lemma confined_unmap_untrusted [conf_intros]: "confined b t S (ocall_unmap_untrusted H m sz)"
  unfolding ocall_unmap_untrusted_def
  by (intro conf_intros confined_alloc confined_state_if) (auto simp: conf_puts)

lemma confined_mprotect [conf_intros]: "confined b t S (ocall_mprotect H addr len prot)"
  unfolding ocall_mprotect_def
  by (intro conf_intros confined_alloc confined_state_if) (auto simp: conf_puts)

lemmas simple_file_defs = ocall_close_def ocall_fsetnonblock_def ocall_fchmod_def ocall_fchdir_def ocall_fsync_def
  ocall_fdatasync_def ocall_ftruncate_def ocall_lseek64_def ocall_dup_def

lemma confined_simple_files [conf_intros]:
  "confined b t S (ocall_close H fd)" "confined b t S (ocall_fsetnonblock H fd nonblocking)"
  "confined b t S (ocall_fchmod H fd mode)" "confined b t S (ocall_fchdir H fd)" "confined b t S (ocall_fsync H fd)"
  "confined b t S (ocall_fdatasync H fd)" "confined b t S (ocall_ftruncate H fd len)"
  "confined b t S (ocall_lseek64 H fd offset whence)" "confined b t S (ocall_dup H fd)"
  unfolding simple_file_defs by (intro confined_simple_ocall; simp add: conf_puts)+

lemma confined_open [conf_intros]: "confined b t S (ocall_open H pathname flags mode)"
  unfolding ocall_open_def by (intro conf_intros confined_simple_ocall) (simp add: conf_puts)

text \<open>With space for an untrusted buffer that \<open>obuf\<close> names, the structure's fields are put.\<close>

lemma confined_read:
  assumes "range_of buf (ucast cnt) \<subseteq> S"
  shows "confined b t S (ocall_read H fd buf cnt)"
  unfolding ocall_read_def Let_def
  by (intro conf_intros confined_alloc assms) (auto intro!: conf_puts)

lemma confined_read_back: "range_of buf n \<subseteq> S \<Longrightarrow> confined b t S (read_back H ms off buf n retval)"
  unfolding read_back_def by (intro conf_intros confined_memcpy_in)

lemmas stat_defs = ocall_stat_def ocall_lstat_def ocall_fstat_def ocall_stat64_def ocall_lstat64_def ocall_fstat64_def
  sizeof_stat_def sizeof_stat64_def

lemma confined_stats:
  assumes "range_of buf 144 \<subseteq> S"
  shows "confined b t S (ocall_stat H path buf)" "confined b t S (ocall_lstat H path buf)"
    "confined b t S (ocall_fstat H fd buf)" "confined b t S (ocall_stat64 H path buf)"
    "confined b t S (ocall_lstat64 H path buf)" "confined b t S (ocall_fstat64 H fd buf)"
  unfolding stat_defs
  by (intro conf_intros confined_alloc confined_read_back assms; auto simp: conf_puts)+

text \<open>A write of a buffer that fits on the untrusted stack.\<close>

lemma bindX_ret_left [simp]: "bindX (retX x) f = f x"
  by (simp add: bindX_def retX_def fun_eq_iff)

lemma thenX_ret_left [simp]: "thenX (retX x) k = k"
  by (simp add: thenX_def)

text \<open>For a buffer that fits on the untrusted stack there is no untrusted allocation.\<close>

lemma ocall_write_small:
  assumes "\<not> ucast cnt > MAX_UNTRUSTED_STACK_BUF"
  shows "ocall_write H fd buf cnt = framed (bindX (sgx_alloc_on_ustack_aligned 24 8) (\<lambda>ms.
    seqX [put ms 0 fd, put_copy H ms 8 buf (ucast cnt), put ms 16 cnt]
      (bindX (sgx_ocall H OCALL_WRITE ms) (\<lambda>retval. retX (if 0 <s retval \<and> retval > cnt then - 1 else retval)))))"
  unfolding ocall_write_def if_not_P [OF assms] framed_def
  by (auto simp: Let_def bindX_def thenX_def retX_def seqX_def fun_eq_iff split: sum.split)

lemma confined_write_small:
  assumes "\<not> ucast cnt > MAX_UNTRUSTED_STACK_BUF"
  shows "confined b t S (ocall_write H fd buf cnt)"
  unfolding ocall_write_small [OF assms]
  by (intro confined_framed confined_alloc confined_seq_list confined_bind confined_ocall confined_ret)
    (simp add: conf_puts)

lemma pwrite64_small:
  assumes "\<not> cnt > 4096"
  shows "ocall_pwrite64 H fd buf cnt offset = simple_ocall H OCALL_PWRITE64 24 8 (\<lambda>ms.
    [put ms 0 fd, put_copy H ms 8 buf cnt, put ms 16 (ucast cnt :: u32), put ms 20 (ucast offset :: u32)])"
  unfolding ocall_pwrite64_def if_not_P [OF assms] framed_def simple_ocall_def
  by (auto simp: Let_def bindX_def thenX_def retX_def seqX_def fun_eq_iff split: sum.split)

lemma confined_pwrite64_small:
  assumes "\<not> cnt > 4096"
  shows "confined b t S (ocall_pwrite64 H fd buf cnt offset)"
  unfolding pwrite64_small [OF assms] by (intro confined_simple_ocall) (simp add: conf_puts)

section \<open>Noninterference of the wrappers\<close>

lemma leaks_put_copy: "range_of ptr len \<subseteq> S \<Longrightarrow> leaks b t S (put_copy H ms off ptr len)"
  unfolding put_copy_def by (intro leaks_bind leaks_copy_to_ustack leaks_put)

lemma leaks_put_alloc: "leaks b t S (put_alloc ms off k al)"
  unfolding put_alloc_def by (intro leaks_alloc leaks_put)

lemma leaks_seq_list: "list_all (leaks b t S) ms \<Longrightarrow> leaks b t S k \<Longrightarrow> leaks b t S (seqX ms k)"
  by (rule leaks_seq) (auto simp: list_all_iff)

lemmas leak_puts = leaks_put leaks_put_copy leaks_put_alloc

lemma leaks_simple_ocall:
  "(\<And>ms. list_all (leaks b t S) (fill ms)) \<Longrightarrow> leaks b t S (simple_ocall H code n al fill)"
  unfolding simple_ocall_def by (intro leaks_framed leaks_alloc leaks_seq_list leaks_ocall)

lemma leaks_write_small:
  assumes "\<not> ucast cnt > MAX_UNTRUSTED_STACK_BUF" "range_of buf (ucast cnt) \<subseteq> S"
  shows "leaks b t S (ocall_write H fd buf cnt)"
  unfolding ocall_write_small [OF assms(1)]
  by (intro leaks_framed leaks_alloc leaks_seq_list leaks_bind leaks_ocall leaks_ret) (simp add: leak_puts assms)

lemma leaks_alloc_untrusted [leak_intros]: "leaks b t S (ocall_alloc_untrusted H sz pmem)"
  unfolding ocall_alloc_untrusted_def
  by (intro leaks_framed leaks_alloc leaks_then leaks_bind leaks_put leaks_ocall leaks_if leaks_ret leaks_fetch
      leaks_state_if leaks_const) (assumption | simp add: low_eq_simps)+

lemma leaks_unmap_untrusted [leak_intros]: "leaks b t S (ocall_unmap_untrusted H m sz)"
  unfolding ocall_unmap_untrusted_def
  by (intro leaks_framed leaks_state_if leaks_const leaks_alloc leaks_seq_list leaks_ocall) (simp_all add: leak_puts low_eq_simps)

lemma leaks_simple_files [leak_intros]:
  "leaks b t S (ocall_close H fd)" "leaks b t S (ocall_fsetnonblock H fd nonblocking)"
  "leaks b t S (ocall_fchmod H fd mode)" "leaks b t S (ocall_fchdir H fd)" "leaks b t S (ocall_fsync H fd)"
  "leaks b t S (ocall_fdatasync H fd)" "leaks b t S (ocall_ftruncate H fd len)"
  "leaks b t S (ocall_lseek64 H fd offset whence)" "leaks b t S (ocall_dup H fd)"
  unfolding simple_file_defs by (intro leaks_simple_ocall; simp add: leak_puts)+

lemma leaks_read: "leaks b t S (ocall_read H fd buf cnt)"
  unfolding ocall_read_def Let_def
  by (intro leak_intros leaks_alloc leaks_fetch) (assumption | auto intro!: leak_puts)+

end
