(* ===== verification/OcallProps.thy ===== *)
theory OcallProps
  imports OcallFileProofs
begin

text \<open>What the calls out of the enclave promise, and where they do not keep it.\<close>

section \<open>Hostile hosts\<close>

text \<open>A host that answers every call with \<open>r\<close> and fills the untrusted memory with \<open>v\<close>.\<close>

definition filling_host :: "u32 \<Rightarrow> u8 \<Rightarrow> unit host_behaviour" where
  "filling_host r v = \<lparr>h_ocall = (\<lambda>code ms h u. (r, h, \<lambda>_. v)), h_tamper = (\<lambda>h u. (h, u))\<rparr>"

definition filled :: "u8 \<Rightarrow> 'h enclave \<Rightarrow> 'h enclave" where
  "filled v st = st\<lparr>mem := (\<lambda>a. if in_enclave st a then mem st a else v)\<rparr>"

lemma filled_simps [simp]:
  "enclave_base (filled v st) = enclave_base st" "enclave_top (filled v st) = enclave_top st"
  "tls_ustack (filled v st) = tls_ustack st" "tls_ustack_top (filled v st) = tls_ustack_top st"
  "mem (filled v st) a = (if in_enclave st a then mem st a else v)"
  by (simp_all add: filled_def)

lemma in_enclave_upd [simp]:
  "in_enclave (st\<lparr>tls_ustack := u\<rparr>) = in_enclave st" "in_enclave (st\<lparr>mem := m\<rparr>) = in_enclave st"
  "in_enclave (filled v st) = in_enclave st"
  by (simp_all add: in_enclave_def fun_eq_iff)

lemma ocall_filling: "sgx_ocall (filling_host r v) code ms st = Inr (r, filled v st)"
  by (cases st) (simp add: sgx_ocall_def filling_host_def merge_def filled_def in_enclave_def cong: if_cong)

lemma tamper_filling: "tamper (filling_host r v) st = Inr ((), st)"
  by (simp add: tamper_def filling_host_def merge_def untrusted_def if_distrib cong: if_cong)

lemma fetch_filling:
  assumes "ms \<noteq> 0" "list_all (\<lambda>i. \<not> in_enclave st (ms + off + of_nat i)) [0..<LENGTH('a) div 8]"
  shows "fetch (filling_host r v) ms off (filled v st) =
    Inr (of_bytes (replicate (LENGTH('a) div 8) v) :: 'a::len word, filled v st)"
proof -
  have "load_bytes (ms + off) (LENGTH('a) div 8) (mem (filled v st)) = replicate (LENGTH('a) div 8) v"
    using assms(2) by (auto simp: load_bytes_def list_all_iff intro!: nth_equalityI)
  then show ?thesis using assms(1) by (simp add: fetch_def thenX_def bindX_def tamper_filling)
qed

lemma memcpy_filling: "memcpyX (filling_host r v) dst src n st = Inr ((), st\<lparr>mem := copy_bytes dst src n (mem st)\<rparr>)"
  by (simp add: memcpyX_def thenX_def bindX_def tamper_filling)

lemmas run_defs = seqX_def act_defs sgx_prepare_ustack_def sgx_reset_ustack_def Let_def
  sgx_alloc_on_ustack_aligned_def sgx_is_completely_outside_enclave_def UINTPTR_MAX_def ALIGN_DOWN_POW2_def put_def
  ocall_filling memcpy_filling

definition small_enclave :: "unit enclave" where
  "small_enclave = \<lparr>enclave_base = 0x1000, enclave_top = 0x2000, tls_ustack = 0x10000, tls_ustack_top = 0x10000,
     tls_exit_target = 0, mem = (\<lambda>_. 0), host_state = ()\<rparr>"

lemma seven_words: "(of_bytes (replicate 8 7) :: u64) = 0x0707070707070707"
proof -
  have "replicate 8 (7 :: u8) = [7, 7, 7, 7, 7, 7, 7, 7]" by (simp add: numeral_eq_Suc)
  then show ?thesis by (simp add: of_bytes_def)
qed

lemmas run_simps' = run_defs small_enclave_def fetch_filling in_enclave_def upt_rec word_sless_alt copy_bytes_def seven_words

section \<open>What the wrappers return, and the stack they leave\<close>

definition yields :: "('a \<Rightarrow> bool) \<Rightarrow> ('h, 'a) act \<Rightarrow> bool" where
  "yields P m \<longleftrightarrow> (\<forall>st x st'. m st = Inr (x, st') \<longrightarrow> P x)"

lemma yields_bind: "(\<And>x. yields P (f x)) \<Longrightarrow> yields P (bindX m f)"
  by (auto simp: yields_def bindX_def split: sum.splits)

lemma yields_then: "yields P k \<Longrightarrow> yields P (thenX m k)"
  unfolding thenX_def by (rule yields_bind)

lemma yields_seq: "yields P k \<Longrightarrow> yields P (seqX ms k)"
  unfolding seqX_def by (induction ms) (auto intro: yields_then)

lemma yields_ret: "P x \<Longrightarrow> yields P (retX x)"
  by (simp add: yields_def retX_def)

lemma yields_if: "(c \<Longrightarrow> yields P m) \<Longrightarrow> (\<not> c \<Longrightarrow> yields P k) \<Longrightarrow> yields P (if c then m else k)"
  by simp

lemma yields_case_prod: "(\<And>x y. yields P (f x y)) \<Longrightarrow> yields P (case p of (x, y) \<Rightarrow> f x y)"
  by (cases p) simp

lemmas yields_intros = yields_bind yields_then yields_seq yields_ret yields_if yields_case_prod

lemma sint_small: "\<not> 0 <s w \<Longrightarrow> sint w \<le> uint (c :: u32)" for w :: u32
  by (smt (verit) sint_0 uint_ge_0 word_sless_alt)

lemma sint_le_uint_of: "w \<le> c \<Longrightarrow> sint w \<le> uint c" for w c :: u32
proof -
  assume "w \<le> c"
  then have "uint w \<le> uint c" by (simp add: word_le_def)
  moreover have "sint w \<le> uint w"
  proof -
    have "sint w = take_bit 32 (uint w) - 2 ^ 32 * of_bool (bit (uint w) 31)"
      by (simp add: sint_uint signed_take_bit_eq_take_bit_minus)
    also have "\<dots> \<le> take_bit 32 (uint w)" by simp
    also have "\<dots> \<le> uint w" by (simp add: take_bit_int_less_eq_self_iff)
    finally show ?thesis .
  qed
  ultimately show ?thesis by simp
qed

lemma minus_one_le: "- 1 \<le> uint w" "sint (- 1 :: u32) \<le> uint w"
  by (rule order_trans [of _ 0]; simp)+

lemma read_result: "yields (\<lambda>r. sint r \<le> uint cnt) (ocall_read H fd buf cnt)"
  unfolding ocall_read_def Let_def
  by (intro yields_intros) (simp_all add: sint_small sint_le_uint_of minus_one_le)

lemma write_result: "yields (\<lambda>r. sint r \<le> uint cnt) (ocall_write H fd buf cnt)"
  unfolding ocall_write_def Let_def
  by (intro yields_intros) (auto simp: sint_small sint_le_uint_of minus_one_le)

lemma small_write_on_stack: "cnt \<le> 0x80000 \<Longrightarrow> \<not> ucast cnt > MAX_UNTRUSTED_STACK_BUF" for cnt :: u32
proof -
  assume "cnt \<le> 0x80000"
  then have "uint cnt \<le> 0x80000" by (simp add: word_le_def)
  moreover have "take_bit 64 (uint cnt) \<le> uint cnt" by (simp add: take_bit_int_less_eq_self_iff)
  ultimately have "\<not> 0x80000 < take_bit 64 (uint cnt)" by linarith
  then show ?thesis
    by (simp add: MAX_UNTRUSTED_STACK_BUF_def PRESET_PAGESIZE_def word_less_def unsigned_ucast_eq)
qed

section \<open>The properties\<close>

text \<open>C9: Reading a file into the enclave is safe against every host: whatever the host answers and
  however it rewrites untrusted memory meanwhile, \<open>ocall_read\<close> changes no enclave byte outside
  the caller's buffer and never reports more bytes than were asked for.\<close>

theorem ocall_read_stays_in_buffer:
  assumes "ocall_read H fd buf cnt st = Inr (ret, st')"
  shows "sint ret \<le> uint cnt \<and> (\<forall>a. in_enclave st a \<and> mem st' a \<noteq> mem st a \<longrightarrow> a - buf < ucast cnt)"
proof -
  have c: "confined (enclave_base st) (enclave_top st) (range_of buf (ucast cnt)) (ocall_read H fd buf cnt)"
    by (rule confined_read) simp
  from confinedD(3) [OF c refl refl assms] read_result [of cnt H fd buf] assms
  show ?thesis by (auto simp: yields_def range_of_def)
qed

theorem ocall_read_stays_in_buffer_witness:
  "\<exists>ret st'. ocall_read (filling_host 1 7) 3 0x1800 1 small_enclave = Inr (ret, st') \<and> mem st' 0x1800 = 7 \<and>
     sint ret \<le> uint (1 :: u32) \<and> (\<forall>a. in_enclave small_enclave a \<and> mem st' a \<noteq> mem small_enclave a \<longrightarrow> a - 0x1800 < ucast (1 :: u32))"
proof -
  have "\<exists>ret st'. ocall_read (filling_host 1 7) 3 0x1800 1 small_enclave = Inr (ret, st') \<and> mem st' 0x1800 = 7"
    by (simp add: ocall_read_def put_alloc_def MAX_UNTRUSTED_STACK_BUF_def PRESET_PAGESIZE_def run_simps'
        sgx_copy_to_enclave_def sgx_is_completely_within_enclave_def)
  then show ?thesis using ocall_read_stays_in_buffer by blast
qed

text \<open>C10: Writing a file of at most 512 KiB shows the host nothing but the buffer: two enclaves that
  differ in other bytes give the same answer, the same untrusted memory and the same state of the
  host, and no enclave byte changes.\<close>

theorem ocall_write_shows_only_buffer:
  assumes "cnt \<le> 0x80000" "low_eq (range_of buf (ucast cnt)) s1 s2"
  shows "map_sum id (\<lambda>(r, t). (r, untrusted t, host_state t)) (ocall_write H fd buf cnt s1) =
      map_sum id (\<lambda>(r, t). (r, untrusted t, host_state t)) (ocall_write H fd buf cnt s2) \<and>
    pred_sum (\<lambda>_. True) (\<lambda>(r, t). \<forall>a. in_enclave s1 a \<longrightarrow> mem t a = mem s1 a) (ocall_write H fd buf cnt s1)"
proof -
  note small = small_write_on_stack [OF assms(1)]
  have l: "leaks (enclave_base s1) (enclave_top s1) (range_of buf (ucast cnt)) (ocall_write H fd buf cnt)"
    by (rule leaks_write_small [OF small]) simp
  have c: "confined (enclave_base s1) (enclave_top s1) {} (ocall_write H fd buf cnt)"
    by (rule confined_write_small [OF small])
  show ?thesis
  proof (rule conjI)
    from l show "map_sum id (\<lambda>(r, t). (r, untrusted t, host_state t)) (ocall_write H fd buf cnt s1) =
        map_sum id (\<lambda>(r, t). (r, untrusted t, host_state t)) (ocall_write H fd buf cnt s2)"
      using refl refl assms(2) by (cases rule: leaksD) (simp_all add: low_eq_simps)
    show "pred_sum (\<lambda>_. True) (\<lambda>(r, t). \<forall>a. in_enclave s1 a \<longrightarrow> mem t a = mem s1 a) (ocall_write H fd buf cnt s1)"
      using confinedD(3) [OF c refl refl] by (cases "ocall_write H fd buf cnt s1") auto
  qed
qed

theorem ocall_write_shows_only_buffer_witness:
  "map_sum id (\<lambda>(r, t). (r, untrusted t, host_state t)) (ocall_write (filling_host 2 7) 3 0x1800 2 small_enclave) =
   map_sum id (\<lambda>(r, t). (r, untrusted t, host_state t))
     (ocall_write (filling_host 2 7) 3 0x1800 2 (small_enclave\<lparr>mem := (\<lambda>_. 0)(0x1900 := 42)\<rparr>))"
proof -
  have "low_eq (range_of 0x1800 (ucast (2 :: u32))) small_enclave (small_enclave\<lparr>mem := (\<lambda>_. 0)(0x1900 := 42)\<rparr>)"
    by (simp add: low_eq_def small_enclave_def in_enclave_def range_of_def)
  from ocall_write_shows_only_buffer [OF _ this] show ?thesis by simp
qed

text \<open>C11: Of the 24 calls for memory and files (\<open>ocall_mem_t.c\<close>, \<open>ocall_file_t.c\<close>), all but
  \<open>ocall_pread64\<close> and writes too large for the untrusted stack are safe against every host: they
  change no enclave byte outside the structure the caller passed for the result, and none at all if
  there is no such structure. The exceptions are \<open>pread64_overflows_buffer\<close> and
  \<open>large_write_corrupts_enclave\<close>.\<close>

theorem file_calls_confined:
  assumes "wcnt \<le> 0x80000" "pcnt \<le> 4096"
  shows "list_all (confined b t {}) [ocall_open H path flags mode, ocall_close H fd, ocall_unmap_untrusted H p sz,
     ocall_mprotect H p sz prot, ocall_fsetnonblock H fd nonblocking, ocall_fchmod H fd mode, ocall_fchdir H fd,
     ocall_fsync H fd, ocall_fdatasync H fd, ocall_ftruncate H fd sz, ocall_lseek64 H fd offset whence, ocall_dup H fd,
     ocall_write H fd wbuf wcnt, ocall_pwrite64 H fd wbuf pcnt offset] \<and>
   list_all (confined b t {}) [ocall_alloc_untrusted H sz p, ocall_mmap_untrusted H fd offset sz mode p] \<and>
   list_all (confined b t (range_of buf 144)) [ocall_stat H path buf, ocall_lstat H path buf, ocall_fstat H fd buf,
     ocall_stat64 H path buf, ocall_lstat64 H path buf, ocall_fstat64 H fd buf] \<and>
   confined b t (range_of rbuf (ucast rcnt)) (ocall_read H fd rbuf rcnt)"
  using assms
  by (simp add: confined_write_small small_write_on_stack confined_pwrite64_small confined_open confined_simple_files confined_unmap_untrusted confined_mprotect confined_alloc_untrusted
      confined_mmap_untrusted confined_stats confined_read not_less)

text \<open>A write by a host that answers 1 and overwrites all memory it can reach.\<close>

theorem file_calls_confined_witness:
  "\<exists>st'. ocall_pwrite64 (filling_host 1 7) 3 0x1800 16 0 small_enclave = Inr (1, st') \<and>
     mem st' 0x3000 = 7 \<and> (\<forall>a. in_enclave small_enclave a \<longrightarrow> mem st' a = mem small_enclave a)"
proof -
  obtain st' where "ocall_pwrite64 (filling_host 1 7) 3 0x1800 16 0 small_enclave = Inr (1, st')" "mem st' 0x3000 = 7"
    by (simp add: ocall_pwrite64_def put_copy_def sgx_copy_to_ustack_def sgx_alloc_on_ustack_def
        sgx_is_completely_within_enclave_def run_simps')
  moreover have "confined 0x1000 0x2000 {} (ocall_pwrite64 (filling_host 1 7) 3 0x1800 16 0)"
    using file_calls_confined [where b = "0x1000" and t = "0x2000" and H = "filling_host 1 7" and fd = 3 and
      wbuf = "0x1800" and wcnt = 0 and pcnt = 16 and offset = 0] by simp
  moreover have "enclave_base small_enclave = 0x1000" "enclave_top small_enclave = 0x2000"
    by (simp_all add: small_enclave_def)
  ultimately show ?thesis using confinedD(3) by (metis empty_iff)
qed

text \<open>A host that answers \<open>n\<close>, stores \<open>p\<close> as the address of the data in the structure of the
  call (at offset 8) and the bytes \<open>f 0, f 1, ...\<close> from \<open>p\<close> on.\<close>

definition pointer_host :: "u32 \<Rightarrow> u64 \<Rightarrow> (nat \<Rightarrow> u8) \<Rightarrow> 'h host_behaviour" where
  "pointer_host n p f = \<lparr>h_ocall = (\<lambda>code ms h u. (n, h, store_bytes (ms + 8) (bytes_of p) (\<lambda>a. f (unat (a - p))))),
     h_tamper = (\<lambda>h u. (h, u))\<rparr>"

lemma unat_lt64: "unat a < 2 ^ 64" for a :: u64
  using unsigned_less [of a, where ?'a = nat] by simp

lemma unat_u32_lt64: "unat a < 2 ^ 64" for a :: u32
  using unsigned_less [of a, where ?'a = nat] by simp

lemma align_down_8: "unat (ALIGN_DOWN_POW2 v 8) \<le> unat v \<and> unat v \<le> unat (ALIGN_DOWN_POW2 v 8) + 7"
proof -
  have le: "v AND 7 \<le> v" "v AND 7 \<le> 7" by (rule word_and_le2, rule word_and_le1)
  then have "unat (ALIGN_DOWN_POW2 v 8) = unat v - unat (v AND 7)" by (simp add: ALIGN_DOWN_POW2_def unat_sub)
  moreover have "unat (v AND 7) \<le> 7" using le(2) by (simp add: word_le_nat_alt)
  ultimately show ?thesis by linarith
qed

text \<open>The structure of the call lies just below the stack pointer.\<close>

definition ustack_room :: "'h enclave \<Rightarrow> bool" where
  "ustack_room st \<longleftrightarrow> 0x100 \<le> unat (tls_ustack st) \<and>
     (unat (tls_ustack st) \<le> unat (enclave_base st) \<or> unat (enclave_top st) + 0x100 \<le> unat (tls_ustack st))"

lemma alloc_frame:
  assumes "ustack_room st"
  obtains old st1 ms st2 where "sgx_prepare_ustack st = Inr (old, st1)"
    "sgx_alloc_on_ustack_aligned 32 8 st1 = Inr (ms, st2)" "32 \<le> unat ms" "unat ms + 32 \<le> unat (tls_ustack st)"
    "unat ms + 32 \<le> unat (enclave_base st) \<or> unat (enclave_top st) \<le> unat ms"
    "enclave_base st2 = enclave_base st" "enclave_top st2 = enclave_top st"
proof -
  define u where "u = (if tls_ustack st \<noteq> tls_ustack_top st then tls_ustack st - RED_ZONE_SIZE else tls_ustack st)"
  have u: "unat u \<le> unat (tls_ustack st)" "unat (tls_ustack st) \<le> unat u + 128"
    using assms by (auto simp: u_def ustack_room_def RED_ZONE_SIZE_def unat_sub word_le_nat_alt)
  have "unat (u - 32) = unat u - 32"
    using u assms by (subst unat_sub) (auto simp: word_le_nat_alt ustack_room_def)
  with align_down_8 [of "u - 32"] u assms
  have ms: "32 \<le> unat (ALIGN_DOWN_POW2 (u - 32) 8)" "unat (ALIGN_DOWN_POW2 (u - 32) 8) + 32 \<le> unat (tls_ustack st)"
    "unat (ALIGN_DOWN_POW2 (u - 32) 8) + 32 \<le> unat (enclave_base st) \<or>
     unat (enclave_top st) \<le> unat (ALIGN_DOWN_POW2 (u - 32) 8)"
    by (auto simp: ustack_room_def)
  have "sgx_is_completely_outside_enclave (st\<lparr>tls_ustack := u\<rparr>) (ALIGN_DOWN_POW2 (u - 32) 8) 32"
    using ms unat_lt64 [of "tls_ustack st"] by (auto simp: outside_iff)
  then show ?thesis
    using ms by (intro that [of "tls_ustack st" "st\<lparr>tls_ustack := u\<rparr>" "ALIGN_DOWN_POW2 (u - 32) 8"
        "st\<lparr>tls_ustack := ALIGN_DOWN_POW2 (u - 32) 8\<rparr>"])
      (auto simp: sgx_prepare_ustack_def u_def Let_def sgx_alloc_on_ustack_aligned_def)
qed

lemma put_ok: "ms \<noteq> 0 \<Longrightarrow> \<exists>st'. put ms off w st = Inr ((), st') \<and> enclave_base st' = enclave_base st \<and>
    enclave_top st' = enclave_top st"
  by (simp add: put_def)

lemma put_alloc_ok: "ms \<noteq> 0 \<Longrightarrow> \<exists>st'. put_alloc ms off n al st = Inr ((), st') \<and>
    enclave_base st' = enclave_base st \<and> enclave_top st' = enclave_top st"
  by (auto simp: put_alloc_def bindX_def put_def sgx_alloc_on_ustack_aligned_def Let_def)

text \<open>C12: \<open>ocall_pread64\<close> trusts the number the host returns, unlike \<open>ocall_read\<close>: for every state
  whose untrusted stack has room, every request of at most a page and every positive number \<open>n\<close>,
  there is a host whose answer makes it return \<open>n\<close> and write \<open>n\<close> bytes of the host's choice from
  the caller's buffer on, however few bytes \<open>cnt\<close> were asked for. The host keeps the bytes above
  the untrusted stack, outside the enclave.\<close>

theorem pread64_overflows_buffer:
  fixes st :: "'h enclave" and p :: u64
  assumes "cnt \<le> 4096" "0 <s n" "ustack_room st"
    and "unat (tls_ustack st) \<le> unat p" "unat p + unat n < 2 ^ 64"
    and "unat p + unat n \<le> unat (enclave_base st) \<or> unat (enclave_top st) \<le> unat p"
  shows "\<exists>H st'. ocall_pread64 H fd buf cnt pos st = Inr (n, st') \<and> (\<forall>i<unat n. mem st' (buf + of_nat i) = f i)"
proof -
  obtain old st1 ms st2 where f: "sgx_prepare_ustack st = Inr (old, st1)"
    "sgx_alloc_on_ustack_aligned 32 8 st1 = Inr (ms, st2)" "32 \<le> unat ms" "unat ms + 32 \<le> unat (tls_ustack st)"
    "unat ms + 32 \<le> unat (enclave_base st) \<or> unat (enclave_top st) \<le> unat ms"
    "enclave_base st2 = enclave_base st" "enclave_top st2 = enclave_top st"
    using alloc_frame [OF assms(3)] .
  have ms: "ms \<noteq> 0" using f(3) by auto
  obtain s1 where s1: "put ms 0 fd st2 = Inr ((), s1)" "enclave_base s1 = enclave_base st" "enclave_top s1 = enclave_top st"
    using put_ok [OF ms] f by metis
  obtain s2 where s2: "put_alloc ms 8 cnt 1 s1 = Inr ((), s2)" "enclave_base s2 = enclave_base st" "enclave_top s2 = enclave_top st"
    using put_alloc_ok [OF ms] s1 by metis
  obtain s3 where s3: "put ms 16 (ucast cnt :: u32) s2 = Inr ((), s3)" "enclave_base s3 = enclave_base st" "enclave_top s3 = enclave_top st"
    using put_ok [OF ms] s2 by metis
  obtain s4 where s4: "put ms 24 pos s3 = Inr ((), s4)" "enclave_base s4 = enclave_base st" "enclave_top s4 = enclave_top st"
    using put_ok [OF ms] s3 by metis
  let ?H = "pointer_host n p f :: 'h host_behaviour"
  let ?u = "store_bytes (ms + 8) (bytes_of p) (\<lambda>a. f (unat (a - p)))"
  define s5 where "s5 = merge s4 (host_state s4, ?u)"
  have oc: "sgx_ocall ?H OCALL_PREAD64 ms s4 = Inr (n, s5)"
    by (simp add: sgx_ocall_def pointer_host_def s5_def)
  have tam: "tamper ?H s = Inr ((), s)" for s
    by (simp add: tamper_def pointer_host_def merge_def untrusted_def if_distrib cong: if_cong)
  have in5: "in_enclave s5 a \<longleftrightarrow> in_enclave st a" for a
    using s4 by (simp add: in_enclave_def s5_def merge_def)
  have m5: "mem s5 a = ?u a" if "\<not> in_enclave st a" for a
    using that s4 unfolding in_enclave_def by (simp add: s5_def merge_def in_enclave_def) auto
  have out: "\<not> in_enclave st (ms + 8 + of_nat i)" if "i < 8" for i
  proof -
    have "unat (ms + (8 + of_nat i)) = unat ms + unat (8 + of_nat i :: u64)" "unat (8 + of_nat i :: u64) = 8 + i"
      using that f(4) unat_lt64 [of "tls_ustack st"]
      by (auto simp: unat_word_ariths unat_of_nat)
    then show ?thesis using f(5) that by (auto simp: in_enclave_def word_le_nat_alt word_less_nat_alt add.assoc)
  qed
  have fe: "fetch ?H ms 8 s5 = Inr (p, s5)"
  proof -
    have "load_bytes (ms + 8) 8 (mem s5) = load_bytes (ms + 8) 8 ?u"
      by (rule load_bytes_cong) (simp add: out m5)
    then have "load_bytes (ms + 8) 8 (mem s5) = bytes_of p" by (simp add: load_store)
    then show ?thesis using ms by (simp add: fetch_def thenX_def bindX_def tam)
  qed
  let ?s6 = "s5\<lparr>mem := copy_bytes buf p (ucast n) (mem s5)\<rparr>"
  have cp: "memcpyX ?H buf p (ucast n) s5 = Inr ((), ?s6)" by (simp add: memcpyX_def thenX_def bindX_def tam)
  have run: "ocall_pread64 ?H fd buf cnt pos st = Inr (n, ?s6\<lparr>tls_ustack := old\<rparr>)"
    using leD [OF assms(1)] assms(2) f(1,2) s1(1) s2(1) s3(1) s4(1) oc fe cp
    by (simp add: ocall_pread64_def bindX_def thenX_def seqX_def retX_def sgx_reset_ustack_def)
  have "mem ?s6 (buf + of_nat i) = f i" if i: "i < unat n" for i
  proof -
    have n: "unat (ucast n :: u64) = unat n" using take_bit_nat_eq_self [OF unat_u32_lt64] by (simp add: unsigned_ucast_eq)
    have si: "unat (of_nat i :: u64) = i" using i assms(5) by (simp add: unat_of_nat)
    have pi: "unat (p + of_nat i) = unat p + i" using i assms(5) si by (simp add: unat_plus_no_wrap)
    have "ms + 8 \<le> p + of_nat i" "unat (ms + 8) = unat ms + 8"
      using f(4) assms(4) pi unat_lt64 [of "tls_ustack st"]
      by (auto simp: word_le_nat_alt unat_word_ariths)
    then have far: "\<not> unat (p + of_nat i - (ms + 8)) < 8" using f(4) assms(4) pi by (simp add: unat_sub)
    have "\<not> in_enclave st (p + of_nat i)"
      using assms(6) pi i by (auto simp: in_enclave_def word_le_nat_alt word_less_nat_alt)
    then have "mem s5 (p + of_nat i) = f i" using far si by (simp add: m5 store_bytes_def)
    moreover have "(of_nat i :: u64) < ucast n" using i n si by (simp add: word_less_nat_alt)
    ultimately show ?thesis by (simp add: copy_bytes_def)
  qed
  with run show ?thesis by (intro exI [of _ ?H] exI) auto
qed

theorem pread64_overflows_buffer_witness:
  "\<exists>H st'. ocall_pread64 H 3 0x1800 1 0 small_enclave = Inr (16, st') \<and> mem small_enclave 0x180f = 0 \<and> mem st' 0x180f = 9"
proof -
  have "\<exists>H st'. ocall_pread64 H 3 0x1800 1 0 small_enclave = Inr (16, st') \<and>
      (\<forall>i<unat (16 :: u32). mem st' (0x1800 + of_nat i) = 9)"
    by (rule pread64_overflows_buffer [of 1 16 small_enclave "0x20000" 3 "0x1800" 0 "\<lambda>_. 9"])
      (simp_all add: small_enclave_def ustack_room_def word_sless_alt)
  then obtain H st' where "ocall_pread64 H 3 0x1800 1 0 small_enclave = Inr (16, st')"
      "\<forall>i<16. mem st' (0x1800 + of_nat i) = 9" by auto
  then have "ocall_pread64 H 3 0x1800 1 0 small_enclave = Inr (16, st')" "mem st' (0x1800 + of_nat 15) = 9"
    by (blast, simp del: of_nat_numeral)
  then show ?thesis by (auto simp: small_enclave_def)
qed

definition big_enclave :: "unit enclave" where
  "big_enclave = \<lparr>enclave_base = 0x0707070707070708, enclave_top = 0x0707070707270708, tls_ustack = 0x10000,
     tls_ustack_top = 0x10000, tls_exit_target = 0, mem = (\<lambda>_. 0)(0x0707070707071709 := 9), host_state = ()\<rparr>"

text \<open>A write of more than 512 KiB goes through a block the host allocates, and the block is
  refused only when it lies completely within the enclave: a host that names one that begins just
  below the enclave makes \<open>ocall_write\<close> copy its data over the enclave's own first bytes.\<close>

theorem large_write_corrupts_enclave:
  "\<exists>st'. ocall_write (filling_host 0 7) 1 0x0707070707071708 0x80001 big_enclave = Inr (0, st') \<and>
     in_enclave big_enclave 0x0707070707070708 \<and> mem big_enclave 0x0707070707070708 = 0 \<and>
     mem st' 0x0707070707070708 = 9"
  by (simp add: ocall_write_def ocall_alloc_untrusted_def ocall_unmap_untrusted_def framed_def put_copy_def
      MAX_UNTRUSTED_STACK_BUF_def PRESET_PAGESIZE_def ALLOC_ALIGNUP_def big_enclave_def sgx_is_completely_within_enclave_def run_simps' store_bytes_def)

end
