(* ===== verification/OcallMiscProps.thy ===== *)
theory OcallMiscProps
  imports OcallMisc OcallProps
begin

text \<open>The contracts of the wrappers of \<open>OcallMisc\<close>, and the ones that break theirs.\<close>

section \<open>Confinement\<close>

lemma confined_path_ocall:
  "8 \<le> unat n \<Longrightarrow> (\<And>ms. ublock b t ms n \<Longrightarrow> list_all (confined b t S) (rest ms)) \<Longrightarrow> confined b t S (path_ocall H code n path rest)"
  unfolding path_ocall_def
  by (intro confined_bind confined_path_len confined_simple_ocall) (auto simp: list_all_iff intro: confined_put_copy)

lemma confined_two_paths: "confined b t S (two_paths H code p q)"
  unfolding two_paths_def by (intro confined_bind confined_path_len confined_simple_ocall) (simp add: conf_puts)

lemmas path_defs = ocall_mkdir_def ocall_rmdir_def ocall_chdir_def ocall_unlink_def ocall_truncate_def ocall_chmod_def
  ocall_access_def ocall_link_def ocall_rename_def ocall_fcntl_def

lemma confined_paths:
  "confined b t S (ocall_mkdir H path mode)" "confined b t S (ocall_rmdir H path)" "confined b t S (ocall_chdir H path)"
  "confined b t S (ocall_unlink H path)" "confined b t S (ocall_truncate H path sz)" "confined b t S (ocall_chmod H path w)"
  "confined b t S (ocall_access H path mode)" "confined b t S (ocall_link H path path')" "confined b t S (ocall_rename H path path')"
  "confined b t S (ocall_fcntl H fd cmd args)"
  unfolding path_defs
  by (intro confined_two_paths confined_path_ocall confined_simple_ocall; simp add: conf_puts)+

lemma confined_getcwd: "range_of path sz \<subseteq> S \<Longrightarrow> confined b t S (ocall_getcwd H path sz)"
  unfolding ocall_getcwd_def by (intro conf_intros confined_alloc) (auto simp: conf_puts)

lemma confined_getdents: "range_of dirp (ucast sz) \<subseteq> S \<Longrightarrow> confined b t S (ocall_getdents H fd dirp sz)"
  unfolding ocall_getdents_def by (intro conf_intros confined_alloc) (auto simp: conf_puts)

lemma confined_fetch_pair [conf_intros]: "confined b t S (fetch_pair H ms o1 o2)"
  unfolding fetch_pair_def by (intro conf_intros)

lemmas time_defs = ocall_gettimeofday_def ocall_clock_getres_def ocall_clock_gettime_def ocall_sleep_def ocall_nsleep_def

lemma confined_times:
  "confined b t S (ocall_gettimeofday H)" "confined b t S (ocall_clock_getres H clk)" "confined b t S (ocall_clock_gettime H clk)"
  "confined b t S (ocall_sleep H us)" "confined b t S (ocall_nsleep H rq)"
  unfolding time_defs by (intro conf_intros confined_alloc; auto simp: conf_puts)+

lemma confined_futex: "confined b t S (ocall_futex H futex op val timeout uaddr2 val3)"
  unfolding ocall_futex_def
  by (intro confined_framed confined_alloc confined_state_if confined_inr confined_seq_list confined_ocall) (simp add: conf_puts)

lemma confined_misc:
  "confined b t S (ocall_cpuid H leaf subleaf)" "confined b t S (ocall_getpid H)" "confined b t S (ocall_fionread H fd)"
  "confined b t S (ocall_print_string H str len)" "confined b t S (ocall_debugp H val)"
  unfolding ocall_cpuid_def ocall_getpid_def ocall_fionread_def ocall_print_string_def ocall_debugp_def
  by (intro conf_intros confined_alloc confined_simple_ocall; auto simp: conf_puts)+

lemma confined_bad_block [conf_intros]: "confined b t S (bad_block H ms aoff loff sz n)"
  unfolding bad_block_def by (intro conf_intros confined_state_if)

lemma confined_copy_back: "range_of addr (ucast n) \<subseteq> S \<Longrightarrow> confined b t S (copy_back H ms aoff loff addr n)"
  unfolding copy_back_def by (intro conf_intros)

definition len_of :: "u32 option \<Rightarrow> u64" where "len_of l = (case l of None \<Rightarrow> 0 | Some n \<Rightarrow> ucast n)"

lemma confined_case_option [conf_intros]:
  "(l = None \<Longrightarrow> confined b t S m) \<Longrightarrow> (\<And>n. l = Some n \<Longrightarrow> confined b t S (f n)) \<Longrightarrow>
   confined b t S (case l of None \<Rightarrow> m | Some n \<Rightarrow> f n)"
  by (cases l) auto

lemma confined_socks:
  "range_of addr (len_of alen) \<subseteq> S \<Longrightarrow> confined b t S (ocall_sock_listen H domain type protocol addr alen)"
  "range_of addr (len_of alen) \<subseteq> S \<Longrightarrow> confined b t S (ocall_sock_accept H sockfd addr alen)"
  "range_of addr (len_of alen) \<subseteq> S \<Longrightarrow> confined b t S (ocall_sock_connect H domain type protocol saddr slen addr alen)"
  "range_of addr (len_of alen) \<union> range_of buf (ucast cnt) \<subseteq> S \<Longrightarrow> confined b t S (ocall_sock_recv H sockfd buf cnt addr alen)"
  "range_of buf (ucast cnt) \<union> range_of fds (ucast nfds) \<subseteq> S \<Longrightarrow> confined b t S (ocall_sock_recv_fd H sockfd buf cnt fds nfds)"
  unfolding ocall_sock_listen_def ocall_sock_accept_def ocall_sock_connect_def ocall_sock_recv_def ocall_sock_recv_fd_def Let_def
  by (intro conf_intros confined_alloc confined_copy_back; auto simp: conf_puts len_of_def)+

lemma confined_sends:
  "confined b t S (ocall_socketpair H domain type protocol)" "confined b t S (ocall_sock_send H sockfd buf cnt addr alen)"
  "confined b t S (ocall_sock_send_fd H sockfd buf cnt fds nfds)" "confined b t S (ocall_sock_setopt H sockfd level optname optval optlen)"
  "confined b t S (ocall_sock_shutdown H sockfd how)"
  unfolding ocall_socketpair_def ocall_sock_send_def ocall_sock_send_fd_def ocall_sock_setopt_def ocall_sock_shutdown_def
  by (intro conf_intros confined_alloc confined_simple_ocall; auto simp: conf_puts)+

lemma confined_init_quote: "range_of ti 512 \<subseteq> S \<Longrightarrow> confined b t S (ocall_sgx_init_quote H ti)"
  unfolding ocall_sgx_init_quote_def
  by (intro conf_intros confined_alloc; auto simp: conf_puts conf_intros sizeof_sgx_target_info_t_def)

lemma ublock_part:
  assumes "ublock b t ms n" "ms \<noteq> 0" "unat off + unat k \<le> unat n"
  shows "ublock b t (ms + off) k"
proof -
  have u: "unat ms + unat n < 2 ^ 64" "unat ms + unat n \<le> unat b \<or> unat t \<le> unat ms"
    using assms(1,2) by (auto simp: ublock_def)
  moreover have "unat (ms + off) = unat ms + unat off" using u(1) assms(3) by (simp add: unat_plus_no_wrap)
  ultimately show ?thesis using assms(3) by (auto simp: ublock_def)
qed

lemma part_not_null: "ublock b t ms n \<Longrightarrow> ms \<noteq> 0 \<Longrightarrow> unat off \<le> unat n \<Longrightarrow> ms + off \<noteq> 0"
  using unat_plus_no_wrap [of ms off] by (auto simp: ublock_def unat_eq_zero)

text \<open>The size of the quote is the host's: any 32-bit number of bytes from the quote on.\<close>

lemma confined_remote_attestation: "range_of quote (2 ^ 32) \<subseteq> S \<Longrightarrow> confined b t S (ocall_remote_attestation H quote report opts)"
proof -
  assume S: "range_of quote (2 ^ 32) \<subseteq> S"
  have q: "range_of quote (ucast n) \<subseteq> S" for n :: u32
  proof -
    have "unat (ucast n :: u64) < 2 ^ 32"
      using unsigned_less [of n, where ?'a = nat] by (simp add: unsigned_ucast_eq take_bit_nat_eq_self)
    then have "(ucast n :: u64) \<le> 2 ^ 32" by (simp add: word_le_nat_alt)
    then have "range_of quote (ucast n) \<subseteq> range_of quote (2 ^ 32)" by (auto simp: range_of_def)
    with S show ?thesis by blast
  qed
  have c: "confined b t S (memcpyX H ms opts 16)" "confined b t S (memcpyX H (ms + 16) (opts + 16) 4)"
    if "ublock b t ms 56" "ms \<noteq> 0" for ms
    using that ublock_part [OF that, of 0 16] ublock_part [OF that, of 16 4] part_not_null [OF that, of 16]
    by (simp_all add: confined_memcpy_out)
  show ?thesis
    unfolding ocall_remote_attestation_def
    by (intro conf_intros confined_alloc) (auto simp: conf_puts c q)
qed

section \<open>The properties\<close>



definition wide_enclave :: "unit enclave" where
  "wide_enclave = \<lparr>enclave_base = 0x10000000, enclave_top = 0x20000000, tls_ustack = 0x10000,
     tls_ustack_top = 0x10000, tls_exit_target = 0, mem = (\<lambda>_. 0), host_state = ()\<rparr>"

lemma one_words:
  "(of_bytes (replicate 8 1) :: u64) = 0x0101010101010101" "(of_bytes (replicate 4 1) :: u32) = 0x01010101"
proof -
  have "replicate 8 (1 :: u8) = [1, 1, 1, 1, 1, 1, 1, 1]" "replicate 4 (1 :: u8) = [1, 1, 1, 1]"
    by (simp_all add: numeral_eq_Suc)
  then show "(of_bytes (replicate 8 1) :: u64) = 0x0101010101010101" "(of_bytes (replicate 4 1) :: u32) = 0x01010101"
    by (simp_all add: of_bytes_def)
qed

text \<open>The attestation call lets the host choose how much it copies over the quote: the size it
  checks against is the size the host returned. A host that answers \<open>0x01010101\<close> overwrites
  sixteen megabytes of the enclave from the quote on.\<close>

theorem attestation_overflows_quote:
  "\<exists>st'. ocall_remote_attestation (filling_host 0 1) 0x10001000 0x10000800 0x10000400 wide_enclave = Inr ((0, 0x01010101), st') \<and>
     in_enclave wide_enclave 0x11011000 \<and> mem wide_enclave 0x11011000 = 0 \<and> mem st' 0x11011000 = 1"
  by (simp add: ocall_remote_attestation_def framed_def put_copy_def sgx_copy_to_ustack_def sgx_copy_to_enclave_def
      sgx_alloc_on_ustack_def wide_enclave_def sizeof_sgx_report_t_def sgx_is_completely_within_enclave_def
      run_simps' one_words)

text \<open>\<open>ocall_sock_recv\<close> returns the host's count unchecked: a host that answers 100 to a
  receive of one byte has nothing copied and 100 reported.\<close>

lemma sock_recv_count_unchecked:
  "\<exists>st'. ocall_sock_recv (filling_host 100 7) fd 0x1800 1 0 None small_enclave = Inr ((100, None), st') \<and> mem st' 0x1800 = 0"
  by (simp add: ocall_sock_recv_def framed_def put_alloc_def sgx_copy_to_enclave_def word_sle_eq run_simps' store_bytes_def)

text \<open>The offset of a positioned write goes into a 32-bit member of the argument structure: a write
  at an offset of 4 GiB and more is carried out 4 GiB lower, for every file, buffer and host.\<close>

theorem pwrite64_offset_wraps:
  "ocall_pwrite64 H fd buf cnt (offset + 2 ^ 32) = ocall_pwrite64 H fd buf cnt offset"
proof -
  have "(ucast (offset + 2 ^ 32) :: u32) = ucast offset"
    by (simp add: word_unat_eq_iff unsigned_ucast_eq unat_word_ariths take_bit_eq_mod mod_mod_cancel)
  then show ?thesis unfolding ocall_pwrite64_def by presburger
qed

text \<open>Leaving the enclave for good does not return, whatever the host answers.\<close>

lemma exit_never_returns: "ocall_exit H code st = None"
proof -
  have "ocall_exit H code st \<noteq> Some y" for y
    using ocall_exit.raw_induct [of "\<lambda>_ _ _ _. False" H code st y] by (auto simp: sgx_ocall_def Let_def)
  then show ?thesis by (cases "ocall_exit H code st") auto
qed

end
