(* ===== verification/Ecall.thy ===== *)
theory Ecall
  imports EnclaveProofs
begin

text \<open>
  The call into the enclave that starts it: the sender on the host
  (\<open>xcall/ecall_enclave_start_u.c\<close>) copies the members of its \<open>struct NaClApp\<close> one after the
  other into a buffer, the receiver in the enclave (\<open>xcall/handle_ecall.c\<close>) checks where the host
  wants to be called back and copies them into its own \<open>struct NaClApp\<close>.

  The layout of the structure, which the compiler chooses, is a parameter, one for each side; the
  modules the receiver calls between the copies are the parameters of \<open>ecall_services\<close>.
\<close>

section \<open>The members of the record\<close>

text \<open>The members of \<open>struct NaClApp\<close> (\<open>service_runtime/sel_ldr.h\<close>) that are numbers, in the order of the
  calls that copy them, and then those that no call copies. Of the pointers only
  \<open>dynamic_page_bitmap\<close> is here: the others and the members that are structures are not copied either.\<close>

datatype nap_field =
    addr_bits | stack_size | initial_nexe_max_code_bytes | mem_start | nacl_syscall_addr
  | get_tls_fast_path1_addr | get_tls_fast_path2_addr | static_text_end | rodata_start | data_start
  | data_end | initial_entry_pt | user_entry_pt | bundle_size | main_exe_prevalidated
  | enable_dyncode_syscalls | use_shm_for_dynamic_text | dynamic_page_bitmap | running | exit_status
  | ignore_validator_result | skip_validator | validator_stub_out_mode | break_addr
  | exception_handler | enable_exception_handling | enable_faulted_thread_queue
  | faulted_thread_count | faulted_thread_fd_read | faulted_thread_fd_write | sc_nprocessors_onln
  | dynamic_text_start | dynamic_text_end | module_initialization_state | module_load_status
  | num_dynamic_regions | dynamic_regions_allocated | dynamic_mapcache_offset | dynamic_mapcache_size
  | dynamic_mapcache_ret | dynamic_delete_generation | enable_list_mappings | pnacl_mode | num_threads

text \<open>The size of a member by its type: \<open>uint8_t\<close>; \<open>uintptr_t\<close> and the pointer; \<open>int\<close>, \<open>uint32_t\<close>, the
  enumerations and \<open>Atomic32\<close>.\<close>

definition member_size :: "nap_field \<Rightarrow> nat" where
  "member_size f =
     (if f = addr_bits then 1
      else if f \<in> {stack_size, mem_start, nacl_syscall_addr, get_tls_fast_path1_addr, get_tls_fast_path2_addr,
                   static_text_end, dynamic_text_start, dynamic_text_end, rodata_start, data_start, data_end,
                   initial_entry_pt, user_entry_pt, dynamic_page_bitmap, dynamic_mapcache_ret, break_addr} then 8
      else 4)"

definition not_sent :: "nap_field list" where
  "not_sent = [dynamic_text_start, dynamic_text_end, module_initialization_state, module_load_status,
     num_dynamic_regions, dynamic_regions_allocated, dynamic_mapcache_offset, dynamic_mapcache_size,
     dynamic_mapcache_ret, dynamic_delete_generation, enable_list_mappings, pnacl_mode, num_threads]"

text \<open>What each \<open>memcpy\<close> of the sender copies, in its order.\<close>

definition send_plan :: "(nap_field \<times> nat) list" where
  "send_plan =
    [(addr_bits, 1), (stack_size, 8), (initial_nexe_max_code_bytes, 4), (mem_start, 8),
     (nacl_syscall_addr, 8), (get_tls_fast_path1_addr, 8), (get_tls_fast_path2_addr, 8),
     (static_text_end, 8), (rodata_start, 8), (data_start, 8), (data_end, 8), (initial_entry_pt, 8),
     (user_entry_pt, 8), (bundle_size, 4), (main_exe_prevalidated, 4), (enable_dyncode_syscalls, 4),
     (use_shm_for_dynamic_text, 4), (dynamic_page_bitmap, 1), (running, 4), (exit_status, 4),
     (ignore_validator_result, 4), (skip_validator, 4), (validator_stub_out_mode, 4), (break_addr, 8),
     (exception_handler, 4), (enable_exception_handling, 4), (enable_faulted_thread_queue, 4),
     (faulted_thread_count, 4), (faulted_thread_fd_read, 4), (faulted_thread_fd_write, 4),
     (sc_nprocessors_onln, 4)]"

text \<open>What each \<open>sgx_copy_to_enclave\<close> of the receiver copies, in its order.\<close>

definition receive_plan :: "(nap_field \<times> nat) list" where
  "receive_plan =
    [(addr_bits, 1), (stack_size, 8), (initial_nexe_max_code_bytes, 4), (mem_start, 8),
     (nacl_syscall_addr, 8), (get_tls_fast_path1_addr, 8), (get_tls_fast_path2_addr, 8),
     (static_text_end, 8), (rodata_start, 8), (data_start, 8), (data_end, 8), (initial_entry_pt, 8),
     (user_entry_pt, 8), (bundle_size, 4), (main_exe_prevalidated, 4), (enable_dyncode_syscalls, 4),
     (use_shm_for_dynamic_text, 4), (dynamic_page_bitmap, 1), (running, 4), (exit_status, 4),
     (ignore_validator_result, 4), (skip_validator, 4), (validator_stub_out_mode, 4), (break_addr, 8),
     (exception_handler, 4), (enable_exception_handling, 4), (enable_faulted_thread_queue, 4),
     (faulted_thread_count, 4), (faulted_thread_fd_read, 4), (faulted_thread_fd_write, 4),
     (sc_nprocessors_onln, 4)]"

section \<open>The sender\<close>

text \<open>The copies into the buffer, whose position advances by each length. The bitmap is a pointer:
  the sender copies the byte it points to.\<close>

fun send_fields :: "(nap_field \<Rightarrow> u64) \<Rightarrow> (nap_field \<times> nat) list \<Rightarrow> u64 \<Rightarrow> (u64 \<Rightarrow> u8) \<Rightarrow> u64 \<Rightarrow> u8" where
  "send_fields addr [] p m = m"
| "send_fields addr ((f, n) # plan) p m =
     (let src = (if f = dynamic_page_bitmap then of_bytes (load_bytes (addr f) 8 m) else addr f)
      in send_fields addr plan (p + of_nat n) (copy_bytes p src (of_nat n) m))"

text \<open>The member \<open>ms.nap\<close> of the argument structure at \<open>ms\<close> is the buffer; \<open>buf\<close> is what
  \<open>malloc(1024)\<close> returned. The result is the memory when \<open>sgx_ecall\<close> is made.\<close>

definition ecall_enclave_start :: "(nap_field \<Rightarrow> u64) \<Rightarrow> u64 \<Rightarrow> u64 \<Rightarrow> (u64 \<Rightarrow> u8) \<Rightarrow> (u64 \<Rightarrow> u8) run" where
  "ecall_enclave_start addr buf ms m =
     (if buf = 0 then Inl NullDeref
      else Inr (store_bytes ms (bytes_of buf) (send_fields addr send_plan buf m)))"

section \<open>The receiver\<close>

definition ECALL_ENCLAVE_START :: u64 where "ECALL_ENCLAVE_START = 0"
definition ECALL_NR :: u64 where "ECALL_NR = 1"

record 'h ecall_services =
  enclave_size :: u64
  init_modules :: "('h, unit) act"                      \<comment> \<open>\<open>init_slab_mgr\<close>, \<open>NaClAllModulesInit\<close>\<close>
  NaClAppCreate :: "('h, u64) act"
  NaClAppPrepareModuleInSGX :: "u64 \<Rightarrow> ('h, unit) act"

text \<open>The results of the copies are not looked at, and the position advances when one was refused.\<close>

fun receive_fields :: "'h host_behaviour \<Rightarrow> (nap_field \<Rightarrow> u64) \<Rightarrow> (nap_field \<times> nat) list \<Rightarrow> u64 \<Rightarrow> ('h, unit) act" where
  "receive_fields H addr [] p = retX ()"
| "receive_fields H addr ((f, n) # plan) p =
     bindX (sgx_copy_to_enclave H (addr f) (of_nat n) p (of_nat n)) (\<lambda>_. receive_fields H addr plan (p + of_nat n))"

definition start_enclave ::
    "'h host_behaviour \<Rightarrow> 'h ecall_services \<Rightarrow> (nap_field \<Rightarrow> u64) \<Rightarrow> u64 \<Rightarrow> ('h, u32) act" where
  "start_enclave H E off ecall_args =
     (if ecall_args = 0 then retX (- 1)
      else thenX (init_modules E) (bindX (NaClAppCreate E) (\<lambda>nap.
             bindX (fetch H ecall_args 0) (\<lambda>nap_p.
             thenX (receive_fields H (\<lambda>f. nap + off f) receive_plan nap_p)
               (thenX (NaClAppPrepareModuleInSGX E nap) (retX 0))))))"

definition handle_ecall :: "'h host_behaviour \<Rightarrow> 'h ecall_services \<Rightarrow> (nap_field \<Rightarrow> u64) \<Rightarrow>
    u64 \<Rightarrow> u64 \<Rightarrow> u64 \<Rightarrow> u64 \<Rightarrow> u64 \<Rightarrow> ('h, u32) act" where
  "handle_ecall H E off ecall_index ecall_args exit_target untrusted_stack enclave_base_addr st0 =
     (if ecall_index \<ge> ECALL_NR then Inr (- 1, st0)
      else
        let st = (if enclave_base st0 = 0
                  then st0\<lparr>enclave_base := enclave_base_addr, enclave_top := enclave_base_addr + enclave_size E\<rparr>
                  else st0)
        in if sgx_is_completely_within_enclave st exit_target 0 then Inr (- 1, st)
        else if sgx_is_completely_within_enclave st untrusted_stack 0 then Inr (- 1, st)
        else
          let st = st\<lparr>tls_exit_target := exit_target, tls_ustack_top := untrusted_stack, tls_ustack := untrusted_stack\<rparr>
          in if ecall_index = ECALL_ENCLAVE_START then start_enclave H E off ecall_args st else Inr (0, st))"

end
