(* ===== verification/EcallProps.thy ===== *)
theory EcallProps
  imports Ecall
begin

text \<open>
  What the call into the enclave promises: the host reaches no enclave byte but the members of the
  application's record, and with a host that keeps to the protocol the enclave's record is the host's.
\<close>

section \<open>Ranges of a copy\<close>

lemma in_range_of_nat: "n < 2 ^ 64 \<Longrightarrow> x \<in> range_of p (of_nat n) \<longleftrightarrow> unat (x - p) < n"
  by (simp add: range_of_def word_less_nat_alt unat_of_nat take_bit_nat_eq_self)

lemma range_of_add: "i < n \<Longrightarrow> n < 2 ^ 64 \<Longrightarrow> p + of_nat i \<in> range_of p (of_nat n)"
  by (simp add: in_range_of_nat unat_of_nat take_bit_nat_eq_self)

lemma range_of_split:
  assumes "n + k < 2 ^ 64"
  shows "x \<in> range_of p (of_nat (n + k)) \<longleftrightarrow> x \<in> range_of p (of_nat n) \<or> x \<in> range_of (p + of_nat n) (of_nat k)"
proof -
  have e: "x - (p + of_nat n) = (x - p) - of_nat n" by simp
  have lt: "unat (x - p) < 2 ^ 64" using unsigned_less [of "x - p"] by simp
  have "unat ((x - p) - of_nat n) = (if n \<le> unat (x - p) then unat (x - p) - n else unat (x - p) + 2 ^ 64 - n)"
    using assms lt by (simp add: unat_sub_if' unat_of_nat take_bit_nat_eq_self)
  then show ?thesis unfolding in_range_of_nat [OF assms] e using assms lt
    by (subst (1 2) in_range_of_nat; auto simp: e)
qed

lemma copy_bytes_in: "i < n \<Longrightarrow> n < 2 ^ 64 \<Longrightarrow> copy_bytes d s (of_nat n) m (d + of_nat i) = m (s + of_nat i)"
  using range_of_add [of i n d] by (simp add: copy_bytes_def range_of_def)

lemma copy_bytes_notin: "x \<notin> range_of d n \<Longrightarrow> copy_bytes d s n m x = m x"
  by (simp add: copy_bytes_def range_of_def)

definition total :: "(nap_field \<times> nat) list \<Rightarrow> nat" where "total plan = sum_list (map snd plan)"

lemma total_simps [simp]: "total [] = 0" "total ((f, n) # plan) = n + total plan" "total (p @ q) = total p + total q"
  by (simp_all add: total_def)

section \<open>The sender\<close>

definition field_source :: "(nap_field \<Rightarrow> u64) \<Rightarrow> (u64 \<Rightarrow> u8) \<Rightarrow> nap_field \<Rightarrow> u64" where
  "field_source addr m f = (if f = dynamic_page_bitmap then of_bytes (load_bytes (addr f) 8 m) else addr f)"

lemma send_fields_outside:
  "total plan < 2 ^ 64 \<Longrightarrow> x \<notin> range_of p (of_nat (total plan)) \<Longrightarrow> send_fields addr plan p m x = m x"
proof (induction addr plan p m rule: send_fields.induct)
  case (2 addr f n plan p m)
  from "2.prems" have "x \<notin> range_of p (of_nat n)" "x \<notin> range_of (p + of_nat n) (of_nat (total plan))"
    using range_of_split [of n "total plan" x p] by auto
  with "2.IH" [OF refl] "2.prems"(1) show ?case by (simp add: Let_def copy_bytes_notin)
qed simp

text \<open>Sources that the buffer does not touch.\<close>

definition clear_of :: "u64 set \<Rightarrow> (nap_field \<Rightarrow> u64) \<Rightarrow> (u64 \<Rightarrow> u8) \<Rightarrow> (nap_field \<times> nat) list \<Rightarrow> bool" where
  "clear_of B addr m plan \<longleftrightarrow> range_of (addr dynamic_page_bitmap) 8 \<inter> B = {} \<and>
     (\<forall>(f, n) \<in> set plan. range_of (field_source addr m f) (of_nat n) \<inter> B = {})"

lemma field_source_cong:
  assumes "\<And>x. x \<in> range_of (addr dynamic_page_bitmap) 8 \<Longrightarrow> m' x = m x"
  shows "field_source addr m' f = field_source addr m f"
proof -
  have "load_bytes (addr dynamic_page_bitmap) 8 m' = load_bytes (addr dynamic_page_bitmap) 8 m"
    by (rule load_bytes_cong) (use assms range_of_add [of _ 8 "addr dynamic_page_bitmap"] in simp)
  then show ?thesis by (simp add: field_source_def)
qed

lemma send_fields_at:
  assumes "i < n" "total (pre @ (f, n) # post) < 2 ^ 64"
    and "range_of p (of_nat (total (pre @ (f, n) # post))) \<subseteq> B" "clear_of B addr m (pre @ (f, n) # post)"
  shows "send_fields addr (pre @ (f, n) # post) p m (p + of_nat (total pre) + of_nat i) =
    m (field_source addr m f + of_nat i)"
  using assms
proof (induction pre arbitrary: p m)
  case Nil
  have "p + of_nat i \<notin> range_of (p + of_nat n) (of_nat (total post))"
  proof
    assume "p + of_nat i \<in> range_of (p + of_nat n) (of_nat (total post))"
    then have "unat (of_nat i - of_nat n :: u64) < total post" using Nil.prems(2) by (simp add: in_range_of_nat)
    then show False using Nil.prems(1,2)
      by (simp add: unat_sub_if' unat_of_nat take_bit_nat_eq_self)
  qed
  then show ?case using Nil.prems
    by (simp add: send_fields_outside copy_bytes_in Let_def flip: field_source_def)
next
  case (Cons a pre)
  obtain g k where a: "a = (g, k)" by (cases a)
  let ?m = "copy_bytes p (field_source addr m g) (of_nat k) m"
  have B: "range_of p (of_nat k) \<subseteq> B" "range_of (p + of_nat k) (of_nat (total (pre @ (f, n) # post))) \<subseteq> B"
    using Cons.prems(2,3) range_of_split [of k "total (pre @ (f, n) # post)" _ p] by (auto simp: a)
  have same: "?m x = m x" if "x \<notin> B" for x using that B(1) by (intro copy_bytes_notin) blast
  have src: "field_source addr ?m h = field_source addr m h" for h
    by (rule field_source_cong, rule same) (use Cons.prems(4) in \<open>auto simp: clear_of_def\<close>)
  have "send_fields addr (pre @ (f, n) # post) (p + of_nat k) ?m (p + of_nat k + of_nat (total pre) + of_nat i) =
    ?m (field_source addr ?m f + of_nat i)"
    by (rule Cons.IH) (use Cons.prems B in \<open>auto simp: a clear_of_def src\<close>)
  also have "\<dots> = m (field_source addr m f + of_nat i)"
    unfolding src
    by (rule same) (use Cons.prems range_of_add [of i n "field_source addr m f"] in \<open>auto simp: clear_of_def\<close>)
  finally show ?case by (simp add: a Let_def field_source_def add.assoc)
qed

section \<open>The receiver\<close>

text \<open>What the copies do when none is refused.\<close>

fun place :: "(nap_field \<Rightarrow> u64) \<Rightarrow> (nap_field \<times> nat) list \<Rightarrow> u64 \<Rightarrow> (u64 \<Rightarrow> u8) \<Rightarrow> u64 \<Rightarrow> u8" where
  "place addr [] p m = m"
| "place addr ((f, n) # plan) p m = place addr plan (p + of_nat n) (copy_bytes (addr f) p (of_nat n) m)"

lemma tamper_honest: "h_tamper H = Pair \<Longrightarrow> tamper H st = Inr ((), st)"
  by (simp add: tamper_def merge_def untrusted_def if_distrib cong: if_cong)

lemma receive_fields_place:
  assumes "h_tamper H = Pair" "\<forall>(f, n) \<in> set plan. sgx_is_completely_within_enclave st (addr f) (of_nat n)"
    and "unat p + total plan < 2 ^ 64"
    and "unat p + total plan \<le> unat (enclave_base st) \<or> unat (enclave_top st) \<le> unat p"
  shows "receive_fields H addr plan p st = Inr ((), st\<lparr>mem := place addr plan p (mem st)\<rparr>)"
  using assms
proof (induction plan arbitrary: p st)
  case Nil
  then show ?case by (simp add: retX_def)
next
  case (Cons a plan)
  obtain f n where a: "a = (f, n)" by (cases a)
  have n: "unat (of_nat n :: u64) = n" using Cons.prems(3) by (simp add: a unat_of_nat take_bit_nat_eq_self)
  have pn: "unat (p + of_nat n) = unat p + n" using Cons.prems(3) n by (simp add: a unat_plus_no_wrap)
  let ?st = "st\<lparr>mem := copy_bytes (addr f) p (of_nat n) (mem st)\<rparr>"
  have "sgx_copy_to_enclave H (addr f) (of_nat n) p (of_nat n) st = Inr (True, ?st)"
    using Cons.prems n by (auto simp: a sgx_copy_to_enclave_def outside_iff memcpyX_def act_defs tamper_honest)
  moreover have "receive_fields H addr plan (p + of_nat n) ?st =
      Inr ((), ?st\<lparr>mem := place addr plan (p + of_nat n) (mem ?st)\<rparr>)"
    using Cons.prems pn by (intro Cons.IH) (auto simp: a within_iff)
  ultimately show ?case by (simp add: a bindX_def)
qed

definition disjoint_fields :: "(nap_field \<Rightarrow> u64) \<Rightarrow> (nap_field \<times> nat) list \<Rightarrow> bool" where
  "disjoint_fields addr plan \<longleftrightarrow> (\<forall>f n g k. (f, n) \<in> set plan \<longrightarrow> (g, k) \<in> set plan \<longrightarrow> f \<noteq> g \<longrightarrow>
     range_of (addr f) (of_nat n) \<inter> range_of (addr g) (of_nat k) = {})"

lemma place_outside:
  "(\<And>f n. (f, n) \<in> set plan \<Longrightarrow> x \<notin> range_of (addr f) (of_nat n)) \<Longrightarrow> place addr plan p m x = m x"
  by (induction addr plan p m rule: place.induct) (auto simp: copy_bytes_notin)

lemma place_at:
  assumes "i < n" "distinct (map fst (pre @ (f, n) # post))" "total (pre @ (f, n) # post) < 2 ^ 64"
    and "disjoint_fields addr (pre @ (f, n) # post)"
    and "\<And>g k. (g, k) \<in> set (pre @ (f, n) # post) \<Longrightarrow> range_of (addr g) (of_nat k) \<inter> B = {}"
    and "range_of p (of_nat (total (pre @ (f, n) # post))) \<subseteq> B"
  shows "place addr (pre @ (f, n) # post) p m (addr f + of_nat i) = m (p + of_nat (total pre) + of_nat i)"
  using assms
proof (induction pre arbitrary: p m)
  case Nil
  have "addr f + of_nat i \<notin> range_of (addr g) (of_nat k)" if "(g, k) \<in> set post" for g k
  proof -
    have "f \<noteq> g" using Nil.prems(2) that by force
    then show ?thesis using Nil.prems(1,3,4) that range_of_add [of i n "addr f"] by (fastforce simp: disjoint_fields_def)
  qed
  then show ?case using Nil.prems(1,3) by (simp add: place_outside copy_bytes_in)
next
  case (Cons a pre)
  obtain g k where a: "a = (g, k)" by (cases a)
  let ?m = "copy_bytes (addr g) p (of_nat k) m"
  have B: "range_of (p + of_nat k) (of_nat (total (pre @ (f, n) # post))) \<subseteq> B"
    using Cons.prems(3,6) range_of_split [of k "total (pre @ (f, n) # post)" _ p] by (auto simp: a)
  have "place addr (pre @ (f, n) # post) (p + of_nat k) ?m (addr f + of_nat i) =
    ?m (p + of_nat k + of_nat (total pre) + of_nat i)"
  proof (rule Cons.IH)
    show "disjoint_fields addr (pre @ (f, n) # post)" using Cons.prems(4) unfolding disjoint_fields_def by simp
    show "range_of (addr g) (of_nat k) \<inter> B = {}" if "(g, k) \<in> set (pre @ (f, n) # post)" for g k
      by (rule Cons.prems(5)) (use that in auto)
  qed (use Cons.prems(1-3) B in \<open>auto simp: a\<close>)
  also have "p + of_nat k + of_nat (total pre) + of_nat i \<in> range_of (p + of_nat k) (of_nat (total (pre @ (f, n) # post)))"
  proof -
    have "p + of_nat k + of_nat (total pre + i) \<in> range_of (p + of_nat k) (of_nat (total (pre @ (f, n) # post)))"
      by (rule range_of_add) (use Cons.prems(1,3) in \<open>auto simp: a\<close>)
    then show ?thesis by (simp add: add.assoc)
  qed
  with B Cons.prems(5) [of g k] have "?m (p + of_nat k + of_nat (total pre) + of_nat i) = m (p + of_nat k + of_nat (total pre) + of_nat i)"
    by (intro copy_bytes_notin) (auto simp: a)
  finally show ?case by (simp add: a add.assoc)
qed

section \<open>Sender and receiver together\<close>

lemma plans_agree: "receive_plan = send_plan"
  by (simp add: receive_plan_def send_plan_def)

lemma distinct_plan: "distinct (map fst send_plan)" and total_plan: "total send_plan = 166"
  by (simp_all add: send_plan_def)

text \<open>The buffer and the argument structure lie apart from each other, from the host's record and
  from the enclave.\<close>

definition well_placed :: "(nap_field \<Rightarrow> u64) \<Rightarrow> u64 \<Rightarrow> u64 \<Rightarrow> (u64 \<Rightarrow> u8) \<Rightarrow> bool" where
  "well_placed src buf ms m \<longleftrightarrow> buf \<noteq> 0 \<and> ms \<noteq> 0 \<and> range_of ms 8 \<inter> range_of buf 166 = {} \<and>
     clear_of (range_of buf 166) src m send_plan"

text \<open>The enclave's record: its members lie apart from each other and in the enclave.\<close>

definition member_range :: "(nap_field \<Rightarrow> u64) \<Rightarrow> nap_field \<Rightarrow> u64 set" where
  "member_range dst f = range_of (dst f) (of_nat (member_size f))"

definition enclave_record :: "'h enclave \<Rightarrow> (nap_field \<Rightarrow> u64) \<Rightarrow> u64 \<Rightarrow> bool" where
  "enclave_record st dst buf \<longleftrightarrow> sgx_is_completely_outside_enclave st buf 166 \<and>
     (\<forall>f g. f \<noteq> g \<longrightarrow> member_range dst f \<inter> member_range dst g = {}) \<and>
     (\<forall>f. sgx_is_completely_within_enclave st (dst f) (of_nat (member_size f)))"

lemma plan_sizes: "(f, n) \<in> set send_plan \<Longrightarrow> n \<le> member_size f \<and> f \<notin> set not_sent \<and> (f = dynamic_page_bitmap \<longrightarrow> n = 1)"
  by (auto simp: send_plan_def member_size_def not_sent_def)

lemma sent_members: "f \<notin> set not_sent \<Longrightarrow> f \<noteq> dynamic_page_bitmap \<Longrightarrow> (f, member_size f) \<in> set send_plan"
  by (cases f) (simp_all add: send_plan_def member_size_def not_sent_def)

lemma member_size_le: "member_size f \<le> 8" "0 < member_size f"
  by (simp_all add: member_size_def)

lemma unat_member_size [simp]: "unat (of_nat (member_size f) :: u64) = member_size f"
  using member_size_le [of f] by (simp add: unat_of_nat take_bit_nat_eq_self)

lemma plan_range:
  assumes "(f, n) \<in> set send_plan"
  shows "range_of (dst f) (of_nat n) \<subseteq> member_range dst f"
proof
  fix x assume x: "x \<in> range_of (dst f) (of_nat n)"
  have le: "n \<le> member_size f" "member_size f < 2 ^ 64" using plan_sizes [OF assms] member_size_le [of f] by auto
  with x have "unat (x - dst f) < n" by (subst (asm) in_range_of_nat) auto
  with le show "x \<in> member_range dst f" unfolding member_range_def by (subst in_range_of_nat) auto
qed

lemma enclave_record_plan:
  assumes "enclave_record st dst buf"
  shows "disjoint_fields dst send_plan"
    "(f, n) \<in> set send_plan \<Longrightarrow> sgx_is_completely_within_enclave st (dst f) (of_nat n)"
proof -
  show "disjoint_fields dst send_plan"
    using assms plan_range [of _ _ dst] unfolding disjoint_fields_def enclave_record_def by blast
  assume "(f, n) \<in> set send_plan"
  then have n: "n \<le> member_size f" "n \<le> 8" using plan_sizes [of f n] member_size_le [of f] by auto
  then have "unat (of_nat n :: u64) = n" by (simp add: unat_of_nat take_bit_nat_eq_self)
  moreover have "sgx_is_completely_within_enclave st (dst f) (of_nat (member_size f))"
    using assms by (simp add: enclave_record_def)
  ultimately show "sgx_is_completely_within_enclave st (dst f) (of_nat n)" using n by (auto simp: within_iff)
qed

lemma transfer_byte:
  assumes w: "well_placed src buf ms m" and r: "enclave_record st dst buf"
    and s: "ecall_enclave_start src buf ms m = Inr (mem st)" and f: "(f, n) \<in> set send_plan" "i < n"
  shows "place dst send_plan buf (mem st) (dst f + of_nat i) = m (field_source src m f + of_nat i)"
proof -
  obtain pre post where p: "send_plan = pre @ (f, n) # post" using f(1) by (meson split_list)
  have st: "mem st = store_bytes ms (bytes_of buf) (send_fields src send_plan buf m)"
    using s w by (simp add: ecall_enclave_start_def well_placed_def)
  have tot: "total (pre @ (f, n) # post) = 166" using total_plan p by simp
  have out: "sgx_is_completely_outside_enclave st buf 166" using r by (simp add: enclave_record_def)
  have sep: "range_of (dst g) (of_nat k) \<inter> range_of buf 166 = {}" if "(g, k) \<in> set send_plan" for g k
    using range_of_within [OF enclave_record_plan(2) [OF r that]] range_of_outside [OF out] by fast
  have "place dst send_plan buf (mem st) (dst f + of_nat i) = mem st (buf + of_nat (total pre) + of_nat i)"
    unfolding p
    by (rule place_at [where B = "range_of buf 166"])
      (use f(2) tot distinct_plan enclave_record_plan(1) [OF r] sep in \<open>auto simp: p\<close>)
  also have "\<dots> = send_fields src send_plan buf m (buf + of_nat (total pre) + of_nat i)"
  proof -
    have "buf + of_nat (total pre + i) \<in> range_of buf (of_nat 166)"
      by (rule range_of_add) (use f(2) tot in auto)
    then have "buf + of_nat (total pre) + of_nat i \<notin> range_of ms (of_nat 8)"
      using w by (auto simp: well_placed_def add.assoc)
    then show ?thesis unfolding st store_bytes_def by (subst (asm) in_range_of_nat) (simp_all add: bytes_of_def)
  qed
  also have "\<dots> = m (field_source src m f + of_nat i)"
    unfolding p by (rule send_fields_at [where B = "range_of buf 166"])
      (use f(2) tot w in \<open>auto simp: p well_placed_def\<close>)
  finally show ?thesis .
qed

section \<open>A concrete transfer\<close>

definition all_fields :: "nap_field list" where "all_fields = map fst send_plan @ not_sent"

definition field_index :: "nap_field \<Rightarrow> nat" where
  "field_index f = length (takeWhile (\<lambda>g. g \<noteq> f) all_fields)"

lemma takeWhile_index: "f \<in> set fs \<Longrightarrow> length (takeWhile (\<lambda>g. g \<noteq> f) fs) < length fs \<and> fs ! length (takeWhile (\<lambda>g. g \<noteq> f) fs) = f"
  by (induction fs) auto

lemma field_index: "field_index f < 44 \<and> all_fields ! field_index f = f"
proof -
  have "f \<in> set all_fields" by (cases f) (simp_all add: all_fields_def send_plan_def not_sent_def)
  moreover have "length all_fields = 44" by (simp add: all_fields_def send_plan_def not_sent_def)
  ultimately show ?thesis using takeWhile_index [of f all_fields] by (simp add: field_index_def)
qed

lemma plan_lengths: "(f, n) \<in> set send_plan \<Longrightarrow> n \<le> 8"
  by (auto simp: send_plan_def)

definition spaced :: "nat \<Rightarrow> nap_field \<Rightarrow> u64" where "spaced a f = of_nat (a + 16 * field_index f)"

lemma unat_spaced: "a < 2 ^ 32 \<Longrightarrow> unat (spaced a f) = a + 16 * field_index f"
proof -
  assume "a < 2 ^ 32"
  then have "a + 16 * field_index f < 2 ^ LENGTH(64)" using field_index [of f] by simp
  then show ?thesis by (simp only: spaced_def unat_of_nat mod_less)
qed

lemma ranges_apart:
  assumes "unat a + unat n < 2 ^ 64" "unat b + unat k < 2 ^ 64" "unat a + unat n \<le> unat b \<or> unat b + unat k \<le> unat a"
  shows "range_of a n \<inter> range_of b k = {}"
  using assms unat_diff_lt [of _ a n] unat_diff_lt [of _ b k] unfolding range_of_def by fastforce

lemma unat_length: "(f, n) \<in> set send_plan \<Longrightarrow> unat (of_nat n :: u64) = n"
  using plan_lengths [of f n] by (simp add: unat_of_nat take_bit_nat_eq_self)

lemma disjoint_spaced: "a < 2 ^ 32 \<Longrightarrow> f \<noteq> g \<Longrightarrow> member_range (spaced a) f \<inter> member_range (spaced a) g = {}"
  unfolding member_range_def
proof (intro ranges_apart)
  assume *: "a < 2 ^ 32" "f \<noteq> g"
  note facts = field_index [of f] field_index [of g] unat_spaced [OF *(1)] member_size_le [of f] member_size_le [of g]
  show "unat (spaced a f) + unat (of_nat (member_size f) :: u64) < 2 ^ 64"
    "unat (spaced a g) + unat (of_nat (member_size g) :: u64) < 2 ^ 64"
    using facts *(1) by auto
  have "field_index f \<noteq> field_index g" using facts *(2) by metis
  then show "unat (spaced a f) + unat (of_nat (member_size f) :: u64) \<le> unat (spaced a g) \<or>
      unat (spaced a g) + unat (of_nat (member_size g) :: u64) \<le> unat (spaced a f)"
    using facts by simp linarith
qed

definition host_memory :: "u64 \<Rightarrow> u8" where
  "host_memory = (\<lambda>_. 0)(spaced 0x10000 stack_size := 5, 0 := 9)"

definition loaded_memory :: "u64 \<Rightarrow> u8" where
  "loaded_memory = store_bytes 0x30000 (bytes_of (0x20000 :: u64)) (send_fields (spaced 0x10000) send_plan 0x20000 host_memory)"

definition starting_enclave :: "unit enclave" where
  "starting_enclave = \<lparr>enclave_base = 0x1000, enclave_top = 0x2000, tls_ustack = 0x40000, tls_ustack_top = 0x40000,
     tls_exit_target = 0x50000, mem = loaded_memory, host_state = ()\<rparr>"

definition honest_host :: "unit host_behaviour" where
  "honest_host = \<lparr>h_ocall = (\<lambda>code ms h u. (0, h, u)), h_tamper = Pair\<rparr>"

lemma bitmap_member: "(dynamic_page_bitmap, 1) \<in> set send_plan" and stack_member: "(stack_size, 8) \<in> set send_plan"
  by (simp_all add: send_plan_def)

lemma bitmap_pointer: "of_bytes (load_bytes (spaced 0x10000 dynamic_page_bitmap) 8 host_memory) = (0 :: u64)"
proof -
  have "spaced 0x10000 dynamic_page_bitmap + of_nat i \<noteq> spaced 0x10000 stack_size"
    "spaced 0x10000 dynamic_page_bitmap + of_nat i \<noteq> 0" if "i < 8" for i
    using that unfolding spaced_def field_index_def all_fields_def send_plan_def
    by (auto simp: word_unat_eq_iff unat_word_ariths unat_of_nat take_bit_nat_eq_self)
  then have "load_bytes (spaced 0x10000 dynamic_page_bitmap) 8 host_memory = replicate 8 0"
    by (intro nth_equalityI) (simp_all add: load_bytes_def host_memory_def)
  also have "replicate 8 (0 :: u8) = [0, 0, 0, 0, 0, 0, 0, 0]" by (simp add: numeral_eq_Suc)
  finally show ?thesis by (simp add: of_bytes_def)
qed

lemma well_placed_example: "well_placed (spaced 0x10000) 0x20000 0x30000 host_memory"
proof -
  have "range_of (field_source (spaced 0x10000) host_memory f) (of_nat n) \<inter> range_of 0x20000 166 = {}"
    if "(f, n) \<in> set send_plan" for f n
    using field_index [of f] unat_spaced [of "0x10000" f] unat_length [OF that] plan_lengths [OF that]
    by (intro ranges_apart) (auto simp: field_source_def bitmap_pointer)
  moreover have "range_of (spaced 0x10000 dynamic_page_bitmap) 8 \<inter> range_of 0x20000 166 = {}"
    using field_index [of dynamic_page_bitmap] unat_spaced [of "0x10000" dynamic_page_bitmap]
    by (intro ranges_apart) simp_all
  moreover have "range_of 0x30000 8 \<inter> range_of 0x20000 166 = {}" by (intro ranges_apart) simp_all
  ultimately show ?thesis by (auto simp: well_placed_def clear_of_def)
qed

lemma enclave_record_example: "enclave_record starting_enclave (spaced 0x1000) 0x20000"
  unfolding enclave_record_def
proof (intro conjI allI impI)
  show "sgx_is_completely_outside_enclave starting_enclave 0x20000 166" by (simp add: outside_iff starting_enclave_def)
  show "member_range (spaced 0x1000) f \<inter> member_range (spaced 0x1000) g = {}" if "f \<noteq> g" for f g
    by (rule disjoint_spaced) (use that in simp_all)
  show "sgx_is_completely_within_enclave starting_enclave (spaced 0x1000 f) (of_nat (member_size f))" for f
    using field_index [of f] unat_spaced [of "0x1000" f] member_size_le [of f]
    by (simp add: within_iff starting_enclave_def)
qed

lemma transfer_runs:
  assumes "well_placed src buf ms m" "ecall_enclave_start src buf ms m = Inr (mem st)"
    and "enclave_record st dst buf" "h_tamper H = Pair"
  shows "bindX (fetch H ms 0) (receive_fields H dst receive_plan) st =
    Inr ((), st\<lparr>mem := place dst send_plan buf (mem st)\<rparr>)"
proof -
  have ms: "ms \<noteq> 0" and st: "mem st = store_bytes ms (bytes_of buf) (send_fields src send_plan buf m)"
    using assms(1,2) by (simp_all add: ecall_enclave_start_def well_placed_def)
  have "load_bytes ms 8 (mem st) = bytes_of buf" unfolding st by (rule load_store) (simp_all add: bytes_of_def)
  then have "fetch H ms 0 st = Inr (buf, st)"
    by (simp add: fetch_def ms act_defs tamper_honest [OF assms(4)] of_bytes_bytes_of)
  moreover have "receive_fields H dst send_plan buf st = Inr ((), st\<lparr>mem := place dst send_plan buf (mem st)\<rparr>)"
    using assms(3,4) enclave_record_plan(2) [OF assms(3)]
    by (intro receive_fields_place) (auto simp: enclave_record_def outside_iff total_plan)
  ultimately show ?thesis by (simp add: plans_agree bindX_def)
qed

lemma place_keeps:
  assumes "enclave_record st dst buf" "i < member_size f"
    and "\<And>n. (f, n) \<in> set send_plan \<Longrightarrow> n \<le> i"
  shows "place dst send_plan buf m (dst f + of_nat i) = m (dst f + of_nat i)"
proof (rule place_outside)
  fix g n assume g: "(g, n) \<in> set send_plan"
  have "dst f + of_nat i \<in> member_range dst f"
    unfolding member_range_def by (rule range_of_add) (use assms(2) member_size_le [of f] in auto)
  then have other: "dst f + of_nat i \<notin> range_of (dst g) (of_nat n)" if "f \<noteq> g"
    using that plan_range [OF g, of dst] assms(1) unfolding enclave_record_def by blast
  have same: "dst f + of_nat i \<notin> range_of (dst f) (of_nat n)" if "g = f"
  proof -
    have "n \<le> i" "i < 8" using assms(2,3) g that member_size_le [of f] by auto
    then show ?thesis
      by (subst in_range_of_nat) (simp_all add: unat_of_nat take_bit_nat_eq_self)
  qed
  show "dst f + of_nat i \<notin> range_of (dst g) (of_nat n)" using other same by (cases "f = g") auto
qed



section \<open>Any host\<close>

lemma confined_bind_result:
  assumes "confined b t S m" "\<And>x st st'. m st = Inr (x, st') \<Longrightarrow> confined b t S (f x)"
  shows "confined b t S (bindX m f)"
proof (rule confinedI)
  fix st x st''
  assume st: "enclave_base st = b" "enclave_top st = t" and run: "bindX m f st = Inr (x, st'')"
  obtain y st' where m: "m st = Inr (y, st')" using run by (cases "m st") (auto simp: bindX_def)
  have f: "f y st' = Inr (x, st'')" using run m by (simp add: bindX_def)
  note 1 = confinedD [OF assms(1) st m]
  note 2 = confinedD [OF assms(2) [OF m] 1(1,2) f]
  have "in_enclave st' = in_enclave st" by (rule in_enclave_cong) (use 1 st in simp_all)
  then show "enclave_base st'' = b \<and> enclave_top st'' = t \<and> (\<forall>a. in_enclave st a \<longrightarrow> a \<notin> S \<longrightarrow> mem st'' a = mem st a)"
    using 1 2 by auto
qed

lemma confined_receive_fields:
  "(\<And>f n. (f, n) \<in> set plan \<Longrightarrow> range_of (addr f) (of_nat n) \<subseteq> S) \<Longrightarrow> confined b t S (receive_fields H addr plan p)"
  by (induction H addr plan p rule: receive_fields.induct) (auto intro!: conf_intros)

definition services_confined :: "'h ecall_services \<Rightarrow> (nap_field \<Rightarrow> u64) \<Rightarrow> u64 \<Rightarrow> u64 \<Rightarrow> u64 set \<Rightarrow> bool" where
  "services_confined E off b t S \<longleftrightarrow> confined b t S (init_modules E) \<and> confined b t S (NaClAppCreate E) \<and>
     (\<forall>nap. confined b t S (NaClAppPrepareModuleInSGX E nap)) \<and>
     (\<forall>st nap st'. NaClAppCreate E st = Inr (nap, st') \<longrightarrow>
        (\<forall>f n. (f, n) \<in> set receive_plan \<longrightarrow> range_of (nap + off f) (of_nat n) \<subseteq> S))"

lemma confined_start_enclave: "services_confined E off b t S \<Longrightarrow> confined b t S (start_enclave H E off args)"
  unfolding start_enclave_def services_confined_def
  by (intro confined_if confined_ret confined_then confined_bind_result confined_fetch confined_receive_fields) blast+

text \<open>C15: Whatever arguments the host passes, however it rewrites untrusted memory meanwhile: a call
  into the enclave changes no enclave byte outside the members of the new application record and what
  the modules it starts change themselves, and it returns 0 only when the addresses at which the host
  is called back, code and stack, lie outside the enclave. This includes the first call, which is the
  one that sets the bounds of the enclave: \<open>[b, t)\<close> is the enclave the call leaves, from the base
  address it was given and the size in the thread's data when no base was known.\<close>

theorem ecall_confined:
  assumes "b = (if enclave_base st = 0 then enclave_base_addr else enclave_base st)"
    and "t = (if enclave_base st = 0 then enclave_base_addr + enclave_size E else enclave_top st)"
    and "services_confined E off b t S"
    and "handle_ecall H E off ecall_index ecall_args exit_target untrusted_stack enclave_base_addr st = Inr (ret, st')"
  shows "(\<forall>a. b \<le> a \<and> a < t \<and> a \<notin> S \<longrightarrow> mem st' a = mem st a) \<and>
    (ret = 0 \<longrightarrow> \<not> (b \<le> exit_target \<and> exit_target < t) \<and> \<not> (b \<le> untrusted_stack \<and> untrusted_stack < t)) \<and>
    (ecall_index < ECALL_NR \<longrightarrow> enclave_base st' = b \<and> enclave_top st' = t)"
proof -
  define s0 where "s0 = st\<lparr>enclave_base := b, enclave_top := t\<rparr>"
  let ?st = "s0\<lparr>tls_exit_target := exit_target, tls_ustack_top := untrusted_stack, tls_ustack := untrusted_stack\<rparr>"
  have s0: "(if enclave_base st = 0
      then st\<lparr>enclave_base := enclave_base_addr, enclave_top := enclave_base_addr + enclave_size E\<rparr> else st) = s0"
    by (simp add: s0_def assms(1,2))
  have st: "enclave_base ?st = b" "enclave_top ?st = t" "mem ?st = mem st" by (simp_all add: s0_def)
  have within: "sgx_is_completely_within_enclave s0 x 0" if "b \<le> x" "x < t" for x
    using that unsigned_less [of x] by (auto simp: s0_def within_iff word_le_nat_alt word_less_nat_alt)
  consider (nr) "st' = st" "ret = - 1" "\<not> ecall_index < ECALL_NR" | (kept) "st' = s0" "ret = - 1"
    | (ok) "\<not> sgx_is_completely_within_enclave s0 exit_target 0" "\<not> sgx_is_completely_within_enclave s0 untrusted_stack 0"
        "st' = ?st \<or> start_enclave H E off ecall_args ?st = Inr (ret, st')"
    using assms(4) by (auto simp: handle_ecall_def s0 Let_def split: if_splits)
  then show ?thesis
  proof cases
    case ok
    have "mem st' a = mem st a" if "b \<le> a" "a < t" "a \<notin> S" for a
      using ok(3) confinedD(3) [OF confined_start_enclave [OF assms(3)] st(1,2), of H ecall_args ret st' a] that st
      by (auto simp: in_enclave_def)
    moreover have "enclave_base st' = b" "enclave_top st' = t"
      using ok(3) confinedD(1,2) [OF confined_start_enclave [OF assms(3)] st(1,2), of H ecall_args ret st'] st by auto
    ultimately show ?thesis using ok(1,2) within by blast
  qed (simp_all add: s0_def)
qed

definition idle_services :: "unit ecall_services" where
  "idle_services = \<lparr>enclave_size = 0x1000, init_modules = retX (), NaClAppCreate = retX 0x1000,
     NaClAppPrepareModuleInSGX = (\<lambda>_. retX ())\<rparr>"

definition new_enclave :: "unit enclave" where
  "new_enclave = starting_enclave\<lparr>enclave_base := 0, enclave_top := 0\<rparr>"

theorem ecall_confined_witness:
  "\<exists>st'. handle_ecall honest_host idle_services (spaced 0) 0 0x30000 0x50000 0x40000 0x1000 new_enclave = Inr (0, st') \<and>
    mem st' 0x1fff = mem new_enclave 0x1fff \<and> enclave_top st' = 0x2000"
proof -
  have dst: "(\<lambda>f. 0x1000 + spaced 0 f) = spaced 0x1000" by (simp add: spaced_def fun_eq_iff)
  have st: "new_enclave\<lparr>enclave_base := 0x1000, enclave_top := 0x2000\<rparr> = starting_enclave"
    "starting_enclave\<lparr>tls_exit_target := 0x50000, tls_ustack_top := 0x40000, tls_ustack := 0x40000\<rparr> = starting_enclave"
    by (simp_all add: starting_enclave_def new_enclave_def)
  have "ecall_enclave_start (spaced 0x10000) 0x20000 0x30000 host_memory = Inr (mem starting_enclave)"
    by (simp add: ecall_enclave_start_def starting_enclave_def loaded_memory_def)
  moreover have "h_tamper honest_host = Pair" by (simp add: honest_host_def)
  ultimately obtain st' where
    "bindX (fetch honest_host 0x30000 0) (receive_fields honest_host (spaced 0x1000) receive_plan) starting_enclave = Inr ((), st')"
    using transfer_runs [OF well_placed_example _ enclave_record_example] by blast
  then have "start_enclave honest_host idle_services (spaced 0) 0x30000 starting_enclave = Inr (0, st')"
    by (auto simp: start_enclave_def idle_services_def act_defs dst split: sum.splits)
  moreover have "\<not> sgx_is_completely_within_enclave starting_enclave 0x50000 0"
    "\<not> sgx_is_completely_within_enclave starting_enclave 0x40000 0" "enclave_base new_enclave = 0"
    and size: "enclave_size idle_services = 0x1000"
    by (simp_all add: within_iff starting_enclave_def new_enclave_def idle_services_def)
  ultimately have run: "handle_ecall honest_host idle_services (spaced 0) 0 0x30000 0x50000 0x40000 0x1000 new_enclave = Inr (0, st')"
    by (simp add: handle_ecall_def ECALL_NR_def ECALL_ENCLAVE_START_def st)
  have "services_confined idle_services (spaced 0) 0x1000 0x2000 (- {0x1fff})"
  proof -
    have "0x1fff \<notin> range_of (0x1000 + spaced 0 f) (of_nat n)" if "(f, n) \<in> set send_plan" for f n
      using field_index [of f] unat_spaced [of 0 f] unat_length [OF that] plan_lengths [OF that]
        unat_diff_lt [of "0x1fff" "0x1000 + spaced 0 f" "of_nat n"]
      by (auto simp: range_of_def unat_plus_no_wrap)
    then show ?thesis
      by (auto simp: services_confined_def idle_services_def plans_agree intro!: conf_intros) (auto simp: retX_def)
  qed
  from ecall_confined [OF _ _ this run]
  have "mem st' 0x1fff = mem new_enclave 0x1fff \<and> enclave_top st' = 0x2000"
    by (simp add: size new_enclave_def ECALL_NR_def)
  with run show ?thesis by blast
qed

end
