(* ===== verification/SgxThread.thy ===== *)
theory SgxThread
  imports Prelude
begin

text \<open>
  The thread control structures of the enclave (\<open>xcall/sgx_thread.c\<close>): a host thread enters the
  enclave through one of them, so no two may hold the same. \<open>map_tcs\<close> gives the calling thread
  the one of the first slot without a thread, \<open>unmap_tcs\<close> takes it back.

  \<open>current_tcs\<close> is a thread-local variable, a function of the thread here. Addresses are words,
  0 is the null pointer.
\<close>

section \<open>The mapper\<close>

record thread_map =
  tid :: u32
  tcs :: u64

record tcs_mapper =
  enclave_tcs :: u64
  enclave_thread_map :: "thread_map list"
  current_tcs :: "u32 \<Rightarrow> u64"

definition sizeof_tcs :: nat where "sizeof_tcs = 4096"

text \<open>\<open>allocated\<close> is the success of \<open>malloc\<close>, which is not checked.\<close>

definition create_tcs_mapper :: "bool \<Rightarrow> u64 \<Rightarrow> nat \<Rightarrow> (u32 \<Rightarrow> u64) \<Rightarrow> tcs_mapper run" where
  "create_tcs_mapper allocated tcs_base thread_num cur =
     (if \<not> allocated \<and> thread_num > 0 then Inl NullDeref
      else Inr \<lparr>enclave_tcs = tcs_base,
             enclave_thread_map = map (\<lambda>i. \<lparr>tid = 0, tcs = tcs_base + of_nat (sizeof_tcs * i)\<rparr>) [0..<thread_num],
             current_tcs = cur\<rparr>)"

fun map_tcs_loop :: "u32 \<Rightarrow> thread_map list \<Rightarrow> thread_map list \<times> u64 option" where
  "map_tcs_loop t [] = ([], None)"
| "map_tcs_loop t (e # es) =
     (if tid e = 0 then (e\<lparr>tid := t\<rparr> # es, Some (tcs e))
      else map_prod ((#) e) id (map_tcs_loop t es))"

definition map_tcs :: "u32 \<Rightarrow> tcs_mapper \<Rightarrow> tcs_mapper" where
  "map_tcs t s = (case map_tcs_loop t (enclave_thread_map s) of
       (es, None) \<Rightarrow> s
     | (es, Some p) \<Rightarrow> s\<lparr>enclave_thread_map := es, current_tcs := (current_tcs s)(t := p)\<rparr>)"

text \<open>The difference of the pointers, in structures, cut to an \<open>int\<close>. Only an index that is too
  large is refused.\<close>

definition tcs_index :: "tcs_mapper \<Rightarrow> u32 \<Rightarrow> int" where
  "tcs_index s t = sint (word_of_int (sint (current_tcs s t - enclave_tcs s) div int sizeof_tcs) :: u32)"

definition unmap_tcs :: "u32 \<Rightarrow> tcs_mapper \<Rightarrow> tcs_mapper run" where
  "unmap_tcs t s =
     (let index = tcs_index s t in
      if index \<ge> int (length (enclave_thread_map s)) then Inr s
      else if index < 0 then Inl OutOfBounds
      else Inr (s\<lparr>current_tcs := (current_tcs s)(t := 0),
                 enclave_thread_map := (enclave_thread_map s)[nat index := \<lparr>tid = 0, tcs = 0\<rparr>]\<rparr>))"

section \<open>The accesses of one call\<close>

text \<open>The file takes no lock, so calls of several threads interleave. The accesses of \<open>map_tcs\<close> to the shared
  array are separate steps: the test of a slot, the store of the thread's number, the load of the
  structure's address. \<open>map_calls\<close> runs the calls of several threads, each at its place, in the order
  of the schedule.\<close>

datatype map_pc = MapTest nat | MapMark nat | MapLoad nat | MapDone

fun map_tcs_step :: "u32 \<Rightarrow> map_pc \<times> tcs_mapper \<Rightarrow> map_pc \<times> tcs_mapper" where
  "map_tcs_step t (MapTest i, s) =
     (if i < length (enclave_thread_map s)
      then (if tid (enclave_thread_map s ! i) = 0 then MapMark i else MapTest (Suc i), s)
      else (MapDone, s))"
| "map_tcs_step t (MapMark i, s) =
     (MapLoad i, s\<lparr>enclave_thread_map := (enclave_thread_map s)[i := (enclave_thread_map s ! i)\<lparr>tid := t\<rparr>]\<rparr>)"
| "map_tcs_step t (MapLoad i, s) =
     (MapDone, s\<lparr>current_tcs := (current_tcs s)(t := tcs (enclave_thread_map s ! i))\<rparr>)"
| "map_tcs_step t (MapDone, s) = (MapDone, s)"

fun map_calls :: "u32 list \<Rightarrow> (u32 \<Rightarrow> map_pc) \<times> tcs_mapper \<Rightarrow> (u32 \<Rightarrow> map_pc) \<times> tcs_mapper" where
  "map_calls [] c = c"
| "map_calls (t # ts) (pc, s) = (let (p, s') = map_tcs_step t (pc t, s) in map_calls ts (pc(t := p), s'))"

section \<open>Threads that come and go\<close>

text \<open>Calls that do not overlap: each step is a whole call (\<open>map_tcs_alone\<close> shows that \<open>map_tcs\<close> is what its
  accesses do when no other call comes between them). A thread asks for a structure while it has none, and gives back the one it has. The number
  counts how often one was given back.\<close>

inductive tcs_run :: "tcs_mapper \<Rightarrow> nat \<Rightarrow> tcs_mapper \<Rightarrow> bool" for s0 :: tcs_mapper where
  tcs_start: "tcs_run s0 0 s0"
| tcs_attach: "tcs_run s0 n s \<Longrightarrow> t \<noteq> 0 \<Longrightarrow> current_tcs s t = 0 \<Longrightarrow> tcs_run s0 n (map_tcs t s)"
| tcs_detach: "tcs_run s0 n s \<Longrightarrow> current_tcs s t \<noteq> 0 \<Longrightarrow> unmap_tcs t s = Inr s' \<Longrightarrow> tcs_run s0 (Suc n) s'"

text \<open>A range of structures that does not wrap around, none at address 0 and few enough for an
  \<open>int\<close>.\<close>

definition tcs_range :: "u64 \<Rightarrow> nat \<Rightarrow> bool" where
  "tcs_range b k \<longleftrightarrow> b \<noteq> 0 \<and> k < 2 ^ 31 \<and> unat b + sizeof_tcs * k < 2 ^ 64"

definition nth_tcs :: "u64 \<Rightarrow> nat \<Rightarrow> u64" where "nth_tcs b i = b + of_nat (sizeof_tcs * i)"

text \<open>A thread that has a structure has the one of a slot that bears its number; slots without a
  structure have been used before.\<close>

definition tcs_wf :: "u64 \<Rightarrow> nat \<Rightarrow> nat \<Rightarrow> tcs_mapper \<Rightarrow> bool" where
  "tcs_wf b k n s \<longleftrightarrow> enclave_tcs s = b \<and> length (enclave_thread_map s) = k \<and>
     (\<forall>i<k. tcs (enclave_thread_map s ! i) \<in> {0, nth_tcs b i}) \<and>
     (\<forall>t. current_tcs s t \<noteq> 0 \<longrightarrow> (\<exists>i<k. current_tcs s t = nth_tcs b i \<and>
        enclave_thread_map s ! i = \<lparr>tid = t, tcs = nth_tcs b i\<rparr> \<and> t \<noteq> 0)) \<and>
     n = card {i. i < k \<and> tcs (enclave_thread_map s ! i) = 0}"

lemma unat_plus_simple_no_wrap: "unat a + unat n < 2 ^ 64 \<Longrightarrow> unat (a + n) = unat a + unat n" for a n :: u64
  by (simp add: unat_word_ariths)

lemma unat_nth_tcs:
  assumes "tcs_range b k" "i < k"
  shows "unat (nth_tcs b i) = unat b + sizeof_tcs * i" "nth_tcs b i \<noteq> 0"
proof -
  have "sizeof_tcs * i \<le> sizeof_tcs * k" using assms(2) by simp
  then have lt: "unat b + sizeof_tcs * i < 2 ^ 64" using assms(1) unfolding tcs_range_def by linarith
  then have "sizeof_tcs * i < 2 ^ LENGTH(64)" by simp
  then have "unat (of_nat (sizeof_tcs * i) :: u64) = sizeof_tcs * i" by (simp only: unat_of_nat mod_less)
  then show 1: "unat (nth_tcs b i) = unat b + sizeof_tcs * i"
    unfolding nth_tcs_def using lt by (simp only: unat_plus_simple_no_wrap)
  have "unat b \<noteq> 0" using assms(1) by (simp add: tcs_range_def unat_eq_0)
  with 1 show "nth_tcs b i \<noteq> 0" by (metis add_is_0 unat_0)
qed

lemma nth_tcs_inj:
  assumes "tcs_range b k" "i < k" "j < k" "nth_tcs b i = nth_tcs b j"
  shows "i = j"
proof -
  have "unat b + sizeof_tcs * i = unat b + sizeof_tcs * j"
    using unat_nth_tcs(1) [OF assms(1,2)] unat_nth_tcs(1) [OF assms(1,3)] assms(4) by argo
  then show ?thesis by (simp add: sizeof_tcs_def)
qed

lemma tcs_index_nth:
  assumes "tcs_range b k" "i < k" "enclave_tcs s = b" "current_tcs s t = nth_tcs b i"
  shows "tcs_index s t = int i"
proof -
  have i: "i < 2 ^ 31" using assms(1,2) by (simp add: tcs_range_def)
  then have "sint (of_nat (sizeof_tcs * i) :: u64) = int (sizeof_tcs * i)"
    by (subst signed_of_nat) (simp add: sizeof_tcs_def signed_take_bit_int_eq_self)
  moreover have "sint (word_of_int (int i) :: u32) = int i" using i
    by (subst signed_of_int) (simp add: signed_take_bit_int_eq_self)
  ultimately show ?thesis using assms(3,4) by (simp add: tcs_index_def nth_tcs_def sizeof_tcs_def)
qed

lemma map_tcs_loop_spec:
  "map_tcs_loop t es = (case find (\<lambda>i. tid (es ! i) = 0) [0..<length es] of
       None \<Rightarrow> (es, None) | Some i \<Rightarrow> (es[i := (es ! i)\<lparr>tid := t\<rparr>], Some (tcs (es ! i))))"
proof (induction es)
  case (Cons e es)
  have "find (\<lambda>i. tid ((e # es) ! i) = 0) [0..<length (e # es)] =
    (if tid e = 0 then Some 0 else map_option Suc (find (\<lambda>i. tid (es ! i) = 0) [0..<length es]))"
  proof -
    have "find P (map f xs) = map_option f (find (P \<circ> f) xs)" for P and f :: "nat \<Rightarrow> nat" and xs
      by (induction xs) auto
    from this [of "\<lambda>i. tid ((e # es) ! i) = 0" Suc "[0..<length es]"] show ?thesis
      by (simp add: upt_conv_Cons map_Suc_upt comp_def del: upt_Suc)
  qed
  then show ?case using Cons.IH by (auto split: option.splits)
qed simp

text \<open>A call that runs alone.\<close>

lemma map_done_stays: "(map_tcs_step t ^^ m) (MapDone, s) = (MapDone, s)"
  by (induction m) auto

lemma map_tcs_skips:
  "(\<And>i. i < j \<Longrightarrow> tid (enclave_thread_map s ! i) \<noteq> 0) \<Longrightarrow> j \<le> length (enclave_thread_map s) \<Longrightarrow>
     (map_tcs_step t ^^ j) (MapTest 0, s) = (MapTest j, s)"
  by (induction j) auto

lemma map_tcs_alone: "\<exists>m. (map_tcs_step t ^^ m) (MapTest 0, s) = (MapDone, map_tcs t s)"
proof (cases "find (\<lambda>i. tid (enclave_thread_map s ! i) = 0) [0..<length (enclave_thread_map s)]")
  case None
  have "(map_tcs_step t ^^ length (enclave_thread_map s)) (MapTest 0, s) = (MapTest (length (enclave_thread_map s)), s)"
    by (rule map_tcs_skips) (use None in \<open>auto simp: find_None_iff\<close>)
  then have "(map_tcs_step t ^^ Suc (length (enclave_thread_map s))) (MapTest 0, s) = (MapDone, s)" by simp
  moreover have "map_tcs t s = s" using None by (simp add: map_tcs_def map_tcs_loop_spec)
  ultimately show ?thesis by metis
next
  case (Some i)
  then have i: "i < length (enclave_thread_map s)" "tid (enclave_thread_map s ! i) = 0"
    "\<And>j. j < i \<Longrightarrow> tid (enclave_thread_map s ! j) \<noteq> 0"
    by (auto simp: find_Some_iff)
  have "(map_tcs_step t ^^ i) (MapTest 0, s) = (MapTest i, s)" by (rule map_tcs_skips) (use i in auto)
  then have "(map_tcs_step t ^^ Suc (Suc (Suc i))) (MapTest 0, s) = (MapDone, map_tcs t s)"
    using i Some by (simp add: map_tcs_def map_tcs_loop_spec)
  then show ?thesis by blast
qed

text \<open>Two calls that overlap: both test the first slot before either marks it.\<close>

lemma map_tcs_race:
  assumes "t \<noteq> u" "enclave_thread_map s \<noteq> []" "tid (enclave_thread_map s ! 0) = 0"
  shows "current_tcs (snd (map_calls [t, u, t, u, t, u] (\<lambda>_. MapTest 0, s))) t = tcs (enclave_thread_map s ! 0) \<and>
    current_tcs (snd (map_calls [t, u, t, u, t, u] (\<lambda>_. MapTest 0, s))) u = tcs (enclave_thread_map s ! 0)"
  using assms by (simp add: Let_def)

lemma tcs_wf_attach:
  assumes "tcs_wf b k n s" "t \<noteq> 0" "current_tcs s t = 0"
  shows "tcs_wf b k n (map_tcs t s)"
proof (cases "find (\<lambda>i. tid (enclave_thread_map s ! i) = 0) [0..<length (enclave_thread_map s)]")
  case None
  then show ?thesis using assms(1) by (simp add: map_tcs_def map_tcs_loop_spec)
next
  case (Some i)
  let ?es = "enclave_thread_map s"
  have len: "length ?es = k" using assms(1) by (simp add: tcs_wf_def)
  have i: "i < k" "tid (?es ! i) = 0" using Some len by (auto simp: find_Some_iff)
  have s': "map_tcs t s = s\<lparr>enclave_thread_map := ?es[i := (?es ! i)\<lparr>tid := t\<rparr>], current_tcs := (current_tcs s)(t := tcs (?es ! i))\<rparr>"
    using Some by (simp add: map_tcs_def map_tcs_loop_spec)
  have same: "tcs (?es[i := (?es ! i)\<lparr>tid := t\<rparr>] ! j) = tcs (?es ! j)" for j
    using i len by (cases "j = i") simp_all
  have "\<exists>j<k. current_tcs (map_tcs t s) u = nth_tcs b j \<and>
      enclave_thread_map (map_tcs t s) ! j = \<lparr>tid = u, tcs = nth_tcs b j\<rparr> \<and> u \<noteq> 0" if "current_tcs (map_tcs t s) u \<noteq> 0" for u
  proof (cases "u = t")
    case True
    then show ?thesis using that i len assms(1,2) by (intro exI [of _ i]) (auto simp: s' tcs_wf_def)
  next
    case False
    then have "current_tcs s u \<noteq> 0" using that by (simp add: s')
    then obtain j where "j < k" "current_tcs s u = nth_tcs b j" "?es ! j = \<lparr>tid = u, tcs = nth_tcs b j\<rparr>" "u \<noteq> 0"
      using assms(1) unfolding tcs_wf_def by blast
    moreover have "j \<noteq> i" using calculation i(2) by auto
    ultimately show ?thesis using False by (intro exI [of _ j]) (simp add: s')
  qed
  then show ?thesis using assms(1) len same unfolding tcs_wf_def by (auto simp: s')
qed

lemma tcs_wf_detach:
  assumes "tcs_range b k" "tcs_wf b k n s" "current_tcs s t \<noteq> 0" "unmap_tcs t s = Inr s'"
  shows "tcs_wf b k (Suc n) s'"
proof -
  let ?es = "enclave_thread_map s"
  have len: "length ?es = k" and b: "enclave_tcs s = b" using assms(2) by (simp_all add: tcs_wf_def)
  obtain i where i: "i < k" "current_tcs s t = nth_tcs b i" "?es ! i = \<lparr>tid = t, tcs = nth_tcs b i\<rparr>"
    using assms(2,3) unfolding tcs_wf_def by blast
  have s': "s' = s\<lparr>current_tcs := (current_tcs s)(t := 0), enclave_thread_map := ?es[i := \<lparr>tid = 0, tcs = 0\<rparr>]\<rparr>"
    using assms(4) tcs_index_nth [OF assms(1) i(1) b i(2)] i(1) len by (simp add: unmap_tcs_def)
  have "\<exists>j<k. current_tcs s' u = nth_tcs b j \<and> enclave_thread_map s' ! j = \<lparr>tid = u, tcs = nth_tcs b j\<rparr> \<and> u \<noteq> 0"
    if "current_tcs s' u \<noteq> 0" for u
  proof -
    have u: "u \<noteq> t" "current_tcs s u \<noteq> 0" using that by (auto simp: s' split: if_splits)
    then obtain j where "j < k" "current_tcs s u = nth_tcs b j" "?es ! j = \<lparr>tid = u, tcs = nth_tcs b j\<rparr>" "u \<noteq> 0"
      using assms(2) unfolding tcs_wf_def by blast
    moreover have "j \<noteq> i" using calculation i(3) u(1) by auto
    ultimately show ?thesis using u by (intro exI [of _ j]) (simp add: s')
  qed
  moreover have "{j. j < k \<and> tcs (enclave_thread_map s' ! j) = 0} = insert i {j. j < k \<and> tcs (?es ! j) = 0}"
    using i(1) len by (auto simp: s' nth_list_update)
  moreover have "i \<notin> {j. j < k \<and> tcs (?es ! j) = 0}" using i unat_nth_tcs(2) [OF assms(1) i(1)] by simp
  moreover have "tcs (enclave_thread_map s' ! j) \<in> {0, nth_tcs b j}" if "j < k" for j
    using that assms(2) i len by (auto simp: s' nth_list_update tcs_wf_def)
  ultimately show ?thesis using assms(2) unfolding tcs_wf_def by (simp add: s')
qed

lemma tcs_wf_create:
  assumes "tcs_range b k" "create_tcs_mapper allocated b k (\<lambda>_. 0) = Inr s"
  shows "tcs_wf b k 0 s"
proof -
  have s: "s = \<lparr>enclave_tcs = b, enclave_thread_map = map (\<lambda>i. \<lparr>tid = 0, tcs = nth_tcs b i\<rparr>) [0..<k], current_tcs = (\<lambda>_. 0)\<rparr>"
    using assms(2) by (auto simp: create_tcs_mapper_def nth_tcs_def split: if_splits)
  show ?thesis using unat_nth_tcs(2) [OF assms(1)] by (auto simp: tcs_wf_def s)
qed

lemma tcs_run_wf:
  assumes "tcs_run s0 n s" "tcs_range b k" "tcs_wf b k 0 s0"
  shows "tcs_wf b k n s"
  using assms by (induction rule: tcs_run.induct) (auto intro: tcs_wf_attach tcs_wf_detach)

text \<open>C16: However threads come and go by calls that do not overlap, no two hold the same control
  structure. But a structure is given back to a slot without an address: each return makes one
  unusable for good, so that the threads that hold one and the returns so far are together never more
  than the structures the enclave has. And nothing keeps the calls from overlapping: two threads that
  both test the first slot before either stores its number there get the same structure.\<close>

theorem tcs_exclusive_and_leaked:
  assumes "tcs_range b k" "create_tcs_mapper True b k (\<lambda>_. 0) = Inr s0" "tcs_run s0 n s"
  shows "inj_on (current_tcs s) {t. current_tcs s t \<noteq> 0} \<and> card {t. current_tcs s t \<noteq> 0} + n \<le> k \<and>
    (\<forall>t u. t \<noteq> u \<and> 0 < k \<longrightarrow> (\<exists>pc s'. map_calls [t, u, t, u, t, u] (\<lambda>_. MapTest 0, s0) = (pc, s') \<and>
       current_tcs s' t = b \<and> current_tcs s' u = b \<and> b \<noteq> 0))"
proof -
  let ?es = "enclave_thread_map s" and ?T = "{t. current_tcs s t \<noteq> 0}"
  let ?leaked = "{i. i < k \<and> tcs (?es ! i) = 0}"
  have wf: "tcs_wf b k n s" by (rule tcs_run_wf [OF assms(3,1) tcs_wf_create [OF assms(1,2)]])
  define slot where "slot = (\<lambda>t. SOME i. i < k \<and> current_tcs s t = nth_tcs b i \<and> ?es ! i = \<lparr>tid = t, tcs = nth_tcs b i\<rparr>)"
  have slot: "slot t < k \<and> current_tcs s t = nth_tcs b (slot t) \<and> ?es ! slot t = \<lparr>tid = t, tcs = nth_tcs b (slot t)\<rparr>"
    if "t \<in> ?T" for t
    unfolding slot_def by (rule someI_ex) (use wf that in \<open>auto simp: tcs_wf_def\<close>)
  have inj: "inj_on slot ?T"
  proof (rule inj_onI)
    fix t u assume *: "t \<in> ?T" "u \<in> ?T" "slot t = slot u"
    have "?es ! slot t = \<lparr>tid = t, tcs = nth_tcs b (slot t)\<rparr>" "?es ! slot u = \<lparr>tid = u, tcs = nth_tcs b (slot u)\<rparr>"
      using slot [OF *(1)] slot [OF *(2)] by blast+
    then show "t = u" using *(3) by (metis thread_map.select_convs(1))
  qed
  have "inj_on (current_tcs s) ?T"
  proof (rule inj_onI)
    fix t u assume *: "t \<in> ?T" "u \<in> ?T" "current_tcs s t = current_tcs s u"
    have "slot t = slot u" using slot [OF *(1)] slot [OF *(2)] *(3) nth_tcs_inj [OF assms(1)] by metis
    then show "t = u" using inj *(1,2) by (auto dest: inj_onD)
  qed
  moreover have "card ?T = card (slot ` ?T)" using inj by (simp add: card_image)
  moreover have "card (slot ` ?T) + card ?leaked = card (slot ` ?T \<union> ?leaked)"
  proof (rule card_Un_disjoint [symmetric])
    show "finite (slot ` ?T)" by (rule finite_subset [of _ "{..<k}"]) (use slot in auto)
    have "tcs (?es ! slot t) \<noteq> 0" if "t \<in> ?T" for t
      using slot [OF that] unat_nth_tcs(2) [OF assms(1)] by simp
    then show "slot ` ?T \<inter> ?leaked = {}" by blast
  qed simp
  moreover have "card (slot ` ?T \<union> ?leaked) \<le> card {..<k}" by (rule card_mono) (use slot in auto)
  ultimately have own: "inj_on (current_tcs s) ?T \<and> card ?T + n \<le> k" using wf by (simp add: tcs_wf_def)
  have race: "\<exists>pc s'. map_calls [t, u, t, u, t, u] (\<lambda>_. MapTest 0, s0) = (pc, s') \<and>
      current_tcs s' t = b \<and> current_tcs s' u = b \<and> b \<noteq> 0" if "t \<noteq> u" "0 < k" for t u
  proof -
    have "enclave_thread_map s0 \<noteq> []" "enclave_thread_map s0 ! 0 = \<lparr>tid = 0, tcs = b\<rparr>" "b \<noteq> 0"
      using assms(1,2) that(2) by (auto simp: create_tcs_mapper_def tcs_range_def)
    with map_tcs_race [OF that(1), of s0] show ?thesis
      by (cases "map_calls [t, u, t, u, t, u] (\<lambda>_. MapTest 0, s0)") simp
  qed
  show ?thesis by (intro conjI allI impI) (use own race in blast)+
qed

text \<open>One structure, one thread that attaches and detaches, and a second that then gets nothing.\<close>

theorem tcs_exclusive_and_leaked_witness:
  "\<exists>s0 s. create_tcs_mapper True 0x1000 1 (\<lambda>_. 0) = Inr s0 \<and> tcs_run s0 1 s \<and> current_tcs (map_tcs 8 s) 8 = 0 \<and>
    card {t. current_tcs s t \<noteq> 0} + 1 \<le> 1"
proof -
  have r: "tcs_range 0x1000 1" by (simp add: tcs_range_def sizeof_tcs_def)
  define s0 where "s0 = \<lparr>enclave_tcs = 0x1000, enclave_thread_map = [\<lparr>tid = 0, tcs = 0x1000\<rparr>], current_tcs = (\<lambda>_. 0)\<rparr>"
  define s where "s = \<lparr>enclave_tcs = 0x1000, enclave_thread_map = [\<lparr>tid = 0, tcs = 0\<rparr>], current_tcs = (\<lambda>_. 0)\<rparr>"
  have c: "create_tcs_mapper True 0x1000 1 (\<lambda>_. 0) = Inr s0" by (simp add: create_tcs_mapper_def s0_def)
  have a: "tcs_run s0 0 (map_tcs 7 s0)" by (rule tcs_attach [OF tcs_start]) (simp_all add: s0_def)
  have u: "unmap_tcs 7 (map_tcs 7 s0) = Inr s" "current_tcs (map_tcs 7 s0) 7 \<noteq> 0"
    by (simp_all add: map_tcs_def unmap_tcs_def tcs_index_def s0_def s_def sizeof_tcs_def fun_eq_iff)
  from tcs_detach [OF a u(2,1)] have "tcs_run s0 1 s" by simp
  moreover have "current_tcs (map_tcs 8 s) 8 = 0" by (simp add: map_tcs_def s_def)
  ultimately show ?thesis using tcs_exclusive_and_leaked [OF r c] c by blast
qed

end
