(* ===== verification/HostDescProps.thy ===== *)
theory HostDescProps
  imports HostDescMisc OcallProps
begin

text \<open>What the descriptors promise: the translation of flags, and what their encryption is worth.\<close>

section \<open>Flags\<close>

lemma and_power: "a AND push_bit n 1 = (if bit a n then push_bit n 1 else 0)" for a :: "'a::len word"
  by (rule bit_word_eqI) (auto simp: bit_simps)

lemma map_bit_push: "map_bit a (push_bit n 1) (push_bit n 1) acc = acc OR (a AND push_bit n 1)"
  using bit_imp_le_length [of a n]
  by (cases "bit a n") (simp_all only: map_bit_def and_power if_True if_False, simp_all)

lemma map_bit_eq:
  "map_bit a 1 1 acc = acc OR (a AND 1)" "map_bit a 2 2 acc = acc OR (a AND 2)" "map_bit a 4 4 acc = acc OR (a AND 4)"
  "map_bit a 16 16 acc = acc OR (a AND 16)" "map_bit a 32 32 acc = acc OR (a AND 32)"
  "map_bit a 64 64 acc = acc OR (a AND 64)" "map_bit a 128 128 acc = acc OR (a AND 128)"
  "map_bit a 256 256 acc = acc OR (a AND 256)" "map_bit a 512 512 acc = acc OR (a AND 512)"
  "map_bit a 1024 1024 acc = acc OR (a AND 1024)"
  using map_bit_push [of a 0] map_bit_push [of a 1] map_bit_push [of a 2] map_bit_push [of a 4] map_bit_push [of a 5]
    map_bit_push [of a 6] map_bit_push [of a 7] map_bit_push [of a 8] map_bit_push [of a 9] map_bit_push [of a 10]
  by simp_all

lemma accmode_cases: "x AND 3 \<in> {0, 1, 2, 3}" for x :: u32
proof -
  have "x AND 3 = take_bit 2 x" by (simp add: take_bit_eq_mask mask_eq_exp_minus_1)
  then have "unat (x AND 3) < 4" using take_bit_nat_less_exp [of 2 "unat x"] by (simp add: unsigned_take_bit_eq)
  then have "unat (x AND 3) \<in> {0, 1, 2, 3}" by auto
  then show ?thesis by (auto simp: word_unat_eq_iff)
qed

text \<open>The translations of modes, permissions, protections and flags between the interface and the
  host are the identity on the bits they know and drop every other; of the open flags also an access
  mode that is none of the three.\<close>

theorem host_maps_are_masks:
  "NaClMapMode x = x AND 0x1c0 \<and> NaClMapAccessMode x = x AND 7 \<and> NaClMapOpenPerm x = x AND 0x180 \<and>
   NaClMapFlagMap x = x AND 0x33 \<and> NaClProtMap x = x AND 7 \<and>
   NaClMapOpenFlags x = x AND (if x AND 3 = 3 then 0x6c0 else 0x6c3)"
proof (intro conjI)
  note d = bit.conj_disj_distrib [symmetric]
  show "NaClMapMode x = x AND 0x1c0" "NaClMapOpenPerm x = x AND 0x180" "NaClMapFlagMap x = x AND 0x33" "NaClProtMap x = x AND 7"
    by (simp_all add: NaClMapMode_def NaClMapOpenPerm_def NaClMapFlagMap_def NaClProtMap_def host_consts prot_consts
        map_consts map_bit_eq d)
  show "NaClMapAccessMode x = x AND 7" by (simp add: NaClMapAccessMode_def host_consts map_bit_eq d)
  define h where "h a = (if a = 3 then 0 else a)" for a :: u32
  have "(if a = 0 then 0 else if a = 1 then 1 else if a = 2 then 2 else 0) = h a" if "a \<in> {0, 1, 2, 3}" for a
    using that by (auto simp: h_def)
  from this [OF accmode_cases [of x]] have "NaClMapOpenFlags x = h (x AND 3) OR (x AND 0x6c0)"
    by (simp add: NaClMapOpenFlags_def Let_def host_consts open_consts map_bit_eq and.assoc d or.assoc)
      (use accmode_cases [of x] in \<open>auto simp: h_def\<close>)
  also have "\<dots> = x AND (if x AND 3 = 3 then 0x6c0 else 0x6c3)" by (simp add: h_def d)
  finally show "NaClMapOpenFlags x = x AND (if x AND 3 = 3 then 0x6c0 else 0x6c3)" .
qed

section \<open>Encryption\<close>

text \<open>What a write hands to the host for the data in the buffer.\<close>

definition file_aes :: "desc_env \<Rightarrow> desc_ctx \<Rightarrow> u8 list \<Rightarrow> aes" where
  "file_aes V c k = fst (wc_AesSetKey (stack_aes V) k AES_BLOCK_SIZE (iv c))"

definition written :: "desc_env \<Rightarrow> desc_ctx \<Rightarrow> u8 list \<Rightarrow> u8 list \<Rightarrow> u8 list" where
  "written V c k plain = snd (wc_AesCtrEncrypt (block_cipher V) (file_aes V c k) plain)"

definition crypt_ready :: "desc_env \<Rightarrow> desc_ctx \<Rightarrow> bool" where
  "crypt_ready V c \<longleftrightarrow> gives_blocks (block_cipher V) \<and> length (iv c) = 16 \<and> rng_init V = 0 \<and>
     malloc_input V \<noteq> 0 \<and> malloc_output V \<noteq> 0"

lemma set_key: "wc_AesSetKey (stack_aes V) k AES_BLOCK_SIZE (iv c) = (file_aes V c k, 0)"
  by (simp add: file_aes_def wc_AesSetKey_def AES_BLOCK_SIZE_def)

lemma file_aes_wf: "crypt_ready V c \<Longrightarrow> aes_wf (file_aes V c k)"
  by (simp add: crypt_ready_def file_aes_def wc_AesSetKey_def AES_BLOCK_SIZE_def aes_wf_def)

lemma length_written: "crypt_ready V c \<Longrightarrow> length (written V c k plain) = length plain"
  using encrypt_stream(3) [OF _ file_aes_wf] by (simp add: written_def crypt_ready_def)

lemma written_twice: "crypt_ready V c \<Longrightarrow> written V c k (written V c k plain) = plain"
  using encrypt_twice [OF _ file_aes_wf] by (simp add: written_def crypt_ready_def)

text \<open>A buffer of \<open>n\<close> bytes in the enclave.\<close>

definition buffer_in :: "'h enclave \<Rightarrow> u64 \<Rightarrow> nat \<Rightarrow> bool" where
  "buffer_in st a n \<longleftrightarrow> (\<forall>i<n. in_enclave st (a + of_nat i))"

lemma load_copy:
  assumes "n < 2 ^ 64" "buffer_in st src n"
  shows "load_bytes dst n (copy_bytes dst src (of_nat n) (mem (merge st r))) = load_bytes src n (mem st)"
proof (rule nth_equalityI)
  fix i assume "i < length (load_bytes dst n (copy_bytes dst src (of_nat n) (mem (merge st r))))"
  then have i: "i < n" by (simp add: load_bytes_def)
  moreover have "unat (of_nat i :: u64) = i" "unat (of_nat n :: u64) = n" using i assms(1)
    by (simp_all add: unat_of_nat take_bit_nat_eq_self)
  ultimately show "load_bytes dst n (copy_bytes dst src (of_nat n) (mem (merge st r))) ! i = load_bytes src n (mem st) ! i"
    using assms(2) by (simp add: load_bytes_def copy_bytes_def word_less_nat_alt buffer_in_def merge_def)
qed (simp add: load_bytes_def)

lemma load_store_list: "length bs < 2 ^ 64 \<Longrightarrow> load_bytes a (length bs) (store_bytes a bs m) = bs"
  by (rule nth_equalityI) (simp_all add: load_bytes_def store_bytes_def unat_of_nat take_bit_nat_eq_self)

lemma length_load_bytes [simp]: "length (load_bytes a n m) = n"
  by (simp add: load_bytes_def)

lemma unat_len32: "len < 2 ^ 32 \<Longrightarrow> unat (ucast len :: u32) = unat len" for len :: u64
  by (simp add: unsigned_ucast_eq take_bit_nat_eq_self word_less_nat_alt)

lemma aes_memory_run:
  assumes "crypt_ready V c" "load_bytes input (unat n) (mem st) = plain" "output \<noteq> 0" "input \<noteq> 0"
  shows "aes_ctr_memory (block_cipher V) (file_aes V c k) output input n st =
    Inr (0, st\<lparr>mem := store_bytes output (written V c k plain) (mem st)\<rparr>)"
  using assms by (simp add: aes_ctr_memory_def set_mem_def act_defs written_def)

lemma WriteFile_run:
  assumes "crypt_ready V c" "len < 2 ^ 32" "buffer_in st buf (unat len)"
  shows "\<exists>w. WriteFile H V h c k buf len st =
      bindX (ocall_write H (hd_d h) (malloc_output V) (ucast len)) (\<lambda>r. retX (if r = - 1 then fail_errno V else scast r)) w \<and>
    load_bytes (malloc_output V) (unat len) (mem w) = written V c k (load_bytes buf (unat len) (mem st))"
proof -
  let ?plain = "load_bytes buf (unat len) (mem st)"
  obtain r where "tamper H st = Inr ((), merge st r)" by (simp add: tamper_def)
  then have copy: "memcpyX H (malloc_input V) buf len st =
      Inr ((), merge st r\<lparr>mem := copy_bytes (malloc_input V) buf len (mem (merge st r))\<rparr>)"
    by (simp add: memcpyX_def act_defs)
  have lt: "unat len < 2 ^ 64" using unsigned_less [of len] by simp
  let ?s = "merge st r\<lparr>mem := copy_bytes (malloc_input V) buf len (mem (merge st r))\<rparr>"
  have in_bytes: "load_bytes (malloc_input V) (unat len) (mem ?s) = ?plain"
    using load_copy [OF lt assms(3), of "malloc_input V" r] by simp
  let ?w = "?s\<lparr>mem := store_bytes (malloc_output V) (written V c k ?plain) (mem ?s)\<rparr>"
  have aes: "aes_ctr_memory (block_cipher V) (file_aes V c k) (malloc_output V) (malloc_input V) (ucast len) ?s = Inr (0, ?w)"
    by (rule aes_memory_run [OF assms(1)])
      (use assms(1) in_bytes in \<open>simp_all add: crypt_ready_def unat_len32 [OF assms(2)]\<close>)
  have "WriteFile H V h c k buf len st =
      bindX (ocall_write H (hd_d h) (malloc_output V) (ucast len)) (\<lambda>r. retX (if r = - 1 then fail_errno V else scast r)) ?w"
    using assms(1) unfolding WriteFile_def set_key by (simp add: crypt_ready_def thenX_def bindX_def copy aes)
  moreover have "load_bytes (malloc_output V) (unat len) (mem ?w) = written V c k ?plain"
    using load_store_list [of "written V c k ?plain" "malloc_output V" "mem ?s"] lt by (simp add: length_written [OF assms(1)])
  ultimately show ?thesis by blast
qed

lemma ReadFile_run:
  assumes "crypt_ready V c" "len < 2 ^ 32" "ocall_read H (hd_d h) (malloc_input V) (ucast len) st = Inr (r, s1)" "r \<noteq> - 1"
    and "load_bytes (malloc_input V) (unat len) (mem s1) = written V c k plain" "buffer_in s1 (malloc_output V) (unat len)"
  shows "\<exists>s2. ReadFile H V h c k buf len st = Inr (scast r, s2) \<and> load_bytes buf (unat len) (mem s2) = plain"
proof -
  let ?s = "s1\<lparr>mem := store_bytes (malloc_output V) plain (mem s1)\<rparr>"
  have len: "length plain = unat len" using arg_cong [OF assms(5), of length] by (simp add: length_written [OF assms(1)])
  have lt: "unat len < 2 ^ 64" using unsigned_less [of len] by simp
  have aes: "aes_ctr_memory (block_cipher V) (file_aes V c k) (malloc_output V) (malloc_input V) (ucast len) s1 = Inr (0, ?s)"
    using aes_memory_run [OF assms(1), of "malloc_input V" "ucast len" s1 "written V c k plain" "malloc_output V" k] assms(1,5)
    by (simp add: crypt_ready_def unat_len32 [OF assms(2)] written_twice)
  obtain t where "tamper H ?s = Inr ((), merge ?s t)" by (simp add: tamper_def)
  then have copy: "memcpyX H buf (malloc_output V) len ?s =
      Inr ((), merge ?s t\<lparr>mem := copy_bytes buf (malloc_output V) len (mem (merge ?s t))\<rparr>)"
    by (simp add: memcpyX_def act_defs)
  have "buffer_in ?s (malloc_output V) (unat len)" using assms(6) by (simp add: buffer_in_def)
  from load_copy [OF lt this, of buf t]
  have "load_bytes buf (unat len) (copy_bytes buf (malloc_output V) len (mem (merge ?s t))) =
      load_bytes (malloc_output V) (unat len) (mem ?s)" by simp
  also have "\<dots> = plain" using load_store_list [of plain "malloc_output V" "mem s1"] lt len by simp
  finally show ?thesis using assms(3,4) unfolding ReadFile_def set_key
    by (auto simp: bindX_def thenX_def retX_def aes copy)
qed

definition plain_env :: desc_env where
  "plain_env = \<lparr>errno_now = 0, block_cipher = (\<lambda>k b. b), malloc_input = 0x1800, malloc_output = 0x1900,
     stack_aes = \<lparr>aes_key = [], aes_reg = [], aes_tmp = [], aes_left = 0\<rparr>, rng_init = 0\<rparr>"

definition plain_ctx :: desc_ctx where
  "plain_ctx = \<lparr>sks_key = Some (replicate 64 1), sks_key_len = 64, iv = replicate 16 0\<rparr>"

lemma plain_ready: "crypt_ready plain_env plain_ctx"
  by (simp add: crypt_ready_def plain_env_def plain_ctx_def gives_blocks_def)

lemma plain_written: "written plain_env plain_ctx k [x] = [x]"
proof (rule nth_equalityI)
  fix i assume "i < length (written plain_env plain_ctx k [x])"
  then have i: "i = 0" by (simp add: length_written [OF plain_ready])
  have "ctr_stream (block_cipher plain_env) (file_aes plain_env plain_ctx k) 0 = 0"
    by (simp add: ctr_stream_def file_aes_def wc_AesSetKey_def AES_BLOCK_SIZE_def plain_env_def plain_ctx_def)
  then show "written plain_env plain_ctx k [x] ! i = [x] ! i"
    using encrypt_nth [of "block_cipher plain_env" "file_aes plain_env plain_ctx k" 0 "[x]"] plain_ready
      file_aes_wf [OF plain_ready]
    by (simp add: i written_def crypt_ready_def)
qed (simp add: length_written [OF plain_ready])

lemma filling_read:
  "\<exists>s1. ocall_read (filling_host 1 7) 3 0x1800 1 small_enclave = Inr (1, s1) \<and> mem s1 0x1800 = 7"
  by (simp add: ocall_read_def put_alloc_def MAX_UNTRUSTED_STACK_BUF_def PRESET_PAGESIZE_def run_simps'
      sgx_copy_to_enclave_def sgx_is_completely_within_enclave_def)

lemma written_nth:
  "crypt_ready V c \<Longrightarrow> i < length p \<Longrightarrow> written V c k p ! i = p ! i XOR ctr_stream (block_cipher V) (file_aes V c k) i"
  using encrypt_nth [OF _ file_aes_wf] by (simp add: written_def crypt_ready_def)

text \<open>The stream depends on the cipher, the initialisation vector and the first 16 bytes of the key, not on
  what the stack held.\<close>

lemma file_stream:
  "block_cipher V' = block_cipher V \<Longrightarrow> iv c' = iv c \<Longrightarrow> take 16 k' = take 16 k \<Longrightarrow>
     ctr_stream (block_cipher V') (file_aes V' c' k') i = ctr_stream (block_cipher V) (file_aes V c k) i"
  by (simp add: ctr_stream_def file_aes_def wc_AesSetKey_def AES_BLOCK_SIZE_def)

lemma written_cong:
  assumes "crypt_ready V c" "crypt_ready V' c'" "block_cipher V' = block_cipher V" "iv c' = iv c" "take 16 k' = take 16 k"
  shows "written V' c' k' p = written V c k p"
  by (rule nth_equalityI)
    (simp_all add: length_written [OF assms(1)] length_written [OF assms(2)] written_nth [OF assms(1)]
      written_nth [OF assms(2)] file_stream [OF assms(3-5)])

text \<open>A descriptor that is open for reading and writing, with a key.\<close>

definition keyed :: "host_desc \<Rightarrow> desc_ctx \<Rightarrow> u8 list \<Rightarrow> bool" where
  "keyed h c k \<longleftrightarrow> usable_key h = Some (c, k) \<and> hd_d h \<noteq> - 1 \<and> hd_flags h AND NACL_ABI_O_ACCMODE = NACL_ABI_O_RDWR"

lemma keyed_io:
  assumes "keyed h c k"
  shows "NaClHostDescWrite H V (Some h) buf len = WriteFile H V h c k buf len"
    "NaClHostDescRead H V (Some h) buf len = ReadFile H V h c k buf len"
  using assms by (simp_all add: keyed_def NaClHostDescWrite_def NaClHostDescRead_def with_valid_def
      NaClHostDescCheckValidity_def open_consts)

text \<open>C18: What is written to an encrypted file in one piece is read back through the same open
  descriptor by a read of the same length: the write ends in a call that hands the host the data encrypted
  under the descriptor's key and vector, and a read that gets these bytes from whatever host leaves the original data in its buffer, wherever \<open>malloc\<close>
  puts the buffers then and whatever the stack holds. The key and the initialisation vector are those
  of the descriptor: every \<open>open\<close> allocates a new context and leaves its vector uninitialised, so that a
  file that was closed and opened again is not covered (and does not read back unless the two vectors
  agree by accident).\<close>

theorem encrypted_file_roundtrip:
  assumes "crypt_ready V c" "keyed h c k" "len < 2 ^ 32" "buffer_in st buf (unat len)"
  shows "\<exists>w. NaClHostDescWrite H V (Some h) buf len st =
      bindX (ocall_write H (hd_d h) (malloc_output V) (ucast len)) (\<lambda>r. retX (if r = - 1 then fail_errno V else scast r)) w \<and>
    load_bytes (malloc_output V) (unat len) (mem w) =
      snd (wc_AesCtrEncrypt (block_cipher V) (fst (wc_AesSetKey (stack_aes V) k AES_BLOCK_SIZE (iv c)))
        (load_bytes buf (unat len) (mem st))) \<and>
    (\<forall>V' H' s0 r s1 buf'.
       crypt_ready V' c \<and> block_cipher V' = block_cipher V \<and>
       ocall_read H' (hd_d h) (malloc_input V') (ucast len) s0 = Inr (r, s1) \<and> r \<noteq> - 1 \<and>
       load_bytes (malloc_input V') (unat len) (mem s1) = load_bytes (malloc_output V) (unat len) (mem w) \<and>
       buffer_in s1 (malloc_output V') (unat len) \<longrightarrow>
       (\<exists>s2. NaClHostDescRead H' V' (Some h) buf' len s0 = Inr (scast r, s2) \<and>
          load_bytes buf' (unat len) (mem s2) = load_bytes buf (unat len) (mem st)))"
proof -
  obtain w where w: "WriteFile H V h c k buf len st =
      bindX (ocall_write H (hd_d h) (malloc_output V) (ucast len)) (\<lambda>r. retX (if r = - 1 then fail_errno V else scast r)) w"
    "load_bytes (malloc_output V) (unat len) (mem w) = written V c k (load_bytes buf (unat len) (mem st))"
    using WriteFile_run [OF assms(1,3,4)] by blast
  have "\<exists>s2. NaClHostDescRead H' V' (Some h) buf' len s0 = Inr (scast r, s2) \<and>
      load_bytes buf' (unat len) (mem s2) = load_bytes buf (unat len) (mem st)"
    if "crypt_ready V' c" "block_cipher V' = block_cipher V"
      and rd: "ocall_read H' (hd_d h) (malloc_input V') (ucast len) s0 = Inr (r, s1)" "r \<noteq> - 1"
      and got: "load_bytes (malloc_input V') (unat len) (mem s1) = load_bytes (malloc_output V) (unat len) (mem w)"
      and out: "buffer_in s1 (malloc_output V') (unat len)" for V' H' s0 r s1 buf'
  proof -
    have "load_bytes (malloc_input V') (unat len) (mem s1) = written V' c k (load_bytes buf (unat len) (mem st))"
      using got w(2) written_cong [OF assms(1) that(1,2) refl refl] by simp
    from ReadFile_run [OF that(1) assms(3) rd this out] show ?thesis by (simp add: keyed_io [OF assms(2)])
  qed
  with w show ?thesis unfolding keyed_io [OF assms(2)] written_def file_aes_def by blast
qed

definition keyed_desc :: host_desc where
  "keyed_desc = \<lparr>hd_d = 3, hd_flags = 2, hd_ctx = Some plain_ctx\<rparr>"

lemma keyed_desc: "keyed keyed_desc plain_ctx (replicate 64 1)"
  by (simp add: keyed_def keyed_desc_def usable_key_def plain_ctx_def open_consts)

text \<open>The byte 7 is written, and read from a host that fills the buffer with 7: with this cipher the stream
  is 0.\<close>

theorem encrypted_file_roundtrip_witness:
  "\<exists>s2. NaClHostDescRead (filling_host 1 7) plain_env (Some keyed_desc) 0x1b00 1 small_enclave = Inr (1, s2) \<and> mem s2 0x1b00 = 7"
proof -
  let ?st = "small_enclave\<lparr>mem := (\<lambda>_. 0)(0x1a00 := 7)\<rparr>"
  obtain s1 where r: "ocall_read (filling_host 1 7) 3 0x1800 1 small_enclave = Inr (1, s1)" "mem s1 0x1800 = 7"
    using filling_read by blast
  have c: "confined 0x1000 0x2000 UNIV (ocall_read (filling_host 1 7) 3 0x1800 1)" by (rule confined_read) simp
  have b: "enclave_base s1 = 0x1000" "enclave_top s1 = 0x2000"
    using confinedD(1,2) [OF c _ _ r(1)] by (simp_all add: small_enclave_def)
  have in_st: "buffer_in ?st 0x1a00 (unat (1 :: u64))" by (simp add: buffer_in_def small_enclave_def in_enclave_def)
  have bytes: "load_bytes 0x1a00 (unat (1 :: u64)) (mem ?st) = [7]" by (simp add: load_bytes_def)
  have enc: "snd (wc_AesCtrEncrypt (block_cipher plain_env)
      (fst (wc_AesSetKey (stack_aes plain_env) (replicate 64 1) AES_BLOCK_SIZE (iv plain_ctx))) [7]) = [7]"
    using plain_written [of "replicate 64 1" 7] by (simp add: written_def file_aes_def)
  have "(1 :: u64) < 2 ^ 32" by simp
  from encrypted_file_roundtrip [OF plain_ready keyed_desc this in_st, of "filling_host 1 7", unfolded bytes enc]
  have "\<exists>s2. NaClHostDescRead (filling_host 1 7) plain_env (Some keyed_desc) 0x1b00 1 small_enclave = Inr (scast (1 :: u32), s2) \<and>
      load_bytes 0x1b00 (unat (1 :: u64)) (mem s2) = [7]"
  proof (elim exE conjE)
    fix w
    assume w: "load_bytes (malloc_output plain_env) (unat (1 :: u64)) (mem w) = [7]"
      and rd: "\<forall>V' (H' :: unit host_behaviour) s0 r s1 buf'.
        crypt_ready V' plain_ctx \<and> block_cipher V' = block_cipher plain_env \<and>
        ocall_read H' (hd_d keyed_desc) (malloc_input V') (ucast (1 :: u64)) s0 = Inr (r, s1) \<and> r \<noteq> - 1 \<and>
        load_bytes (malloc_input V') (unat (1 :: u64)) (mem s1) = load_bytes (malloc_output plain_env) (unat (1 :: u64)) (mem w) \<and>
        buffer_in s1 (malloc_output V') (unat (1 :: u64)) \<longrightarrow>
        (\<exists>s2. NaClHostDescRead H' V' (Some keyed_desc) buf' 1 s0 = Inr (scast r, s2) \<and>
          load_bytes buf' (unat (1 :: u64)) (mem s2) = [7])"
    show ?thesis
      by (rule rd [rule_format, of plain_env "filling_host 1 7" small_enclave 1 s1 "0x1b00"])
        (use plain_ready r b w in \<open>simp add: keyed_desc_def plain_env_def load_bytes_def buffer_in_def in_enclave_def\<close>)
  qed
  then show ?thesis by (simp add: load_bytes_def)
qed

text \<open>C19: Every write starts the key stream anew. Take two writes, through the same descriptor or through
  two whose contexts have the same vector and keys with the same first 16 characters (of the 64): the
  bytes that the first hands to the host, exclusive-or those that the second does, are the
  exclusive-or of their data, position by position, whatever the key and the cipher. Two writes of the
  same data hand the host the same bytes.\<close>

theorem keystream_reused:
  assumes "crypt_ready V c" "keyed h c k" "len < 2 ^ 32" "buffer_in st buf (unat len)"
    and "crypt_ready V' c'" "keyed h' c' k'" "len' < 2 ^ 32" "buffer_in st' buf' (unat len')"
    and "block_cipher V' = block_cipher V" "iv c' = iv c" "take 16 k' = take 16 k"
  shows "\<exists>w w'. NaClHostDescWrite H V (Some h) buf len st =
      bindX (ocall_write H (hd_d h) (malloc_output V) (ucast len)) (\<lambda>r. retX (if r = - 1 then fail_errno V else scast r)) w \<and>
    NaClHostDescWrite H' V' (Some h') buf' len' st' =
      bindX (ocall_write H' (hd_d h') (malloc_output V') (ucast len')) (\<lambda>r. retX (if r = - 1 then fail_errno V' else scast r)) w' \<and>
    map2 (XOR) (load_bytes (malloc_output V) (unat len) (mem w)) (load_bytes (malloc_output V') (unat len') (mem w')) =
      map2 (XOR) (load_bytes buf (unat len) (mem st)) (load_bytes buf' (unat len') (mem st')) \<and>
    (load_bytes buf' (unat len') (mem st') = load_bytes buf (unat len) (mem st) \<longrightarrow>
      load_bytes (malloc_output V') (unat len') (mem w') = load_bytes (malloc_output V) (unat len) (mem w))"
proof -
  let ?p = "load_bytes buf (unat len) (mem st)" and ?q = "load_bytes buf' (unat len') (mem st')"
  obtain w where w: "WriteFile H V h c k buf len st =
      bindX (ocall_write H (hd_d h) (malloc_output V) (ucast len)) (\<lambda>r. retX (if r = - 1 then fail_errno V else scast r)) w"
    "load_bytes (malloc_output V) (unat len) (mem w) = written V c k ?p"
    using WriteFile_run [OF assms(1,3,4)] by blast
  obtain w' where w': "WriteFile H' V' h' c' k' buf' len' st' =
      bindX (ocall_write H' (hd_d h') (malloc_output V') (ucast len')) (\<lambda>r. retX (if r = - 1 then fail_errno V' else scast r)) w'"
    "load_bytes (malloc_output V') (unat len') (mem w') = written V' c' k' ?q"
    using WriteFile_run [OF assms(5,7,8)] by blast
  have "map2 (XOR) (written V c k ?p) (written V' c' k' ?q) = map2 (XOR) ?p ?q"
    by (rule nth_equalityI)
      (simp_all add: length_written [OF assms(1)] length_written [OF assms(5)] written_nth [OF assms(1)]
        written_nth [OF assms(5)] file_stream [OF assms(9-11)] xor.assoc xor.left_commute xor.commute)
  moreover have "written V' c' k' ?q = written V c k ?p" if "?q = ?p"
    using that written_cong [OF assms(1,5,9-11), of ?p] by simp
  ultimately have "map2 (XOR) (load_bytes (malloc_output V) (unat len) (mem w)) (load_bytes (malloc_output V') (unat len') (mem w')) =
      map2 (XOR) ?p ?q \<and>
    (?q = ?p \<longrightarrow> load_bytes (malloc_output V') (unat len') (mem w') = load_bytes (malloc_output V) (unat len) (mem w))"
    unfolding w(2) w'(2) by blast
  then show ?thesis
    unfolding keyed_io [OF assms(2)] keyed_io [OF assms(6)] w(1) w'(1)
    by (intro exI [of _ w] exI [of _ w']) blast
qed

theorem keystream_reused_witness:
  "\<exists>w w'. NaClHostDescWrite (filling_host 1 7) plain_env (Some keyed_desc) 0x1a00 1 (small_enclave\<lparr>mem := (\<lambda>_. 0)(0x1a00 := 5)\<rparr>) =
      bindX (ocall_write (filling_host 1 7) 3 0x1900 1) (\<lambda>r. retX (if r = - 1 then fail_errno plain_env else scast r)) w \<and>
    NaClHostDescWrite (filling_host 1 7) plain_env (Some keyed_desc) 0x1a00 1 (small_enclave\<lparr>mem := (\<lambda>_. 0)(0x1a00 := 3)\<rparr>) =
      bindX (ocall_write (filling_host 1 7) 3 0x1900 1) (\<lambda>r. retX (if r = - 1 then fail_errno plain_env else scast r)) w' \<and>
    mem w 0x1900 XOR mem w' 0x1900 = 6"
proof -
  let ?s = "\<lambda>x :: u8. small_enclave\<lparr>mem := (\<lambda>_. 0)(0x1a00 := x)\<rparr>"
  have b: "buffer_in (?s x) 0x1a00 (unat (1 :: u64))" for x
    by (simp add: buffer_in_def small_enclave_def in_enclave_def)
  have o: "hd_d keyed_desc = 3" "malloc_output plain_env = 0x1900" by (simp_all add: keyed_desc_def plain_env_def)
  show ?thesis
    using keystream_reused [OF plain_ready keyed_desc _ b [of 5] plain_ready keyed_desc _ b [of 3] refl refl refl,
        of "filling_host 1 7" "filling_host 1 7"]
    by (simp add: load_bytes_def o)
qed

text \<open>Positioned reads and writes go past the encryption: whatever key a descriptor has, or none,
  they do the same, and hand the host the data as it is.\<close>

theorem positioned_io_ignores_key:
  "NaClHostDescPRead H V (Some (h\<lparr>hd_ctx := c\<rparr>)) buf len offset = NaClHostDescPRead H V (Some (h\<lparr>hd_ctx := c'\<rparr>)) buf len offset \<and>
   NaClHostDescPWrite H V (Some (h\<lparr>hd_ctx := c\<rparr>)) buf len offset = NaClHostDescPWrite H V (Some (h\<lparr>hd_ctx := c'\<rparr>)) buf len offset"
  by (simp add: NaClHostDescPRead_def NaClHostDescPWrite_def with_valid_def NaClHostDescCheckValidity_def Let_def
      cong: if_cong)

end
