(* ===== verification/Spec2Isabelle.thy ===== *)
theory Spec2Isabelle
  imports CSort VmmapProps RangeTreeRefine VmIo ModuleState SysMmapProps XferProps LockProps ElfLoadProps OcallMiscProps EcallProps SgxThread
    HostDescProps
begin

text \<open>
  A verification library for SandboxTEE: the Native Client service runtime, changed to run inside an
  SGX enclave, with the calls between the enclave and the host that it needs. Paths are under
  \<open>src/native_client/src/\<close>.

  \<^bold>\<open>The program.\<close> The host starts the enclave with one call
  (\<open>trusted/xcall/handle_ecall.c\<close>), which copies the record of the application into it. The
  enclave prepares the module that the host loaded and runs it. What the module asks of an
  operating system, the runtime does inside (memory, descriptors, threads) or asks the host for
  through calls out of the enclave (\<open>trusted/xcall/ocall_*_t.c\<close>), none of whose answers it can
  trust. Files may be encrypted on the way out.

  \<^bold>\<open>The theories and what they model.\<close>

  \<^item> \<open>Prelude\<close>: faults and fallible results, machine words, arrays. \<open>Bytes\<close>: numbers as bytes.
    \<open>NaClConfig\<close>: page sizes, constants of the system interface, the rounding functions of
    \<open>sel_util-inl.h\<close>. \<open>CSort\<close>: \<open>qsort\<close> and \<open>bsearch\<close> of \<open>trusted/stdlib\<close>, in two layers: the sort and the search
    on elements, which the memory map uses, and the functions as they are written, with the sizes and the \<open>int\<close>
    variables of the code, equal to them as long as no size leaves the range of an \<open>int\<close>.
  \<^item> \<open>Vmmap\<close>: the memory map of the sandbox, \<open>sel_mem.c\<close>, operation by operation. \<open>VmmapProofs\<close>,
    \<open>VmmapSearch\<close>, \<open>VmmapProt\<close>: its abstraction to a function from pages to attributes and what each
    operation does to it. \<open>VmmapProps\<close>: the properties, and the maps the operations can build.
  \<^item> \<open>IntervalMultiset\<close>: the interface of the sets of intervals as a locale, and the linked list.
    \<open>RangeTree\<close>, \<open>RangeTreeProofs\<close>, \<open>RangeTreeRefine\<close>: the AVL tree of
    \<open>nacl_interval_range_tree.c\<close> and its refinement of the interface. \<open>VmIo\<close>: its client,
    which guards memory against operations in flight (\<open>sel_ldr_sgx.c\<close>).
  \<^item> \<open>SlotTable\<close>: the interface of a table of slots as a locale. \<open>DynArray\<close>: \<open>dyn_array.c\<close>, which
    provides it. \<open>DescTable\<close>: reference counts and the tables of descriptors and threads, which use
    it. \<open>Locks\<close>, \<open>LockProps\<close>: mutexes and condition variables on words of memory
    (\<open>shared/platform/sgx/lock.c\<close>, \<open>condition_variable.c\<close>), access by access. \<open>SyncChecked\<close>: the wrappers
    that stop the process when one fails. \<open>ModuleState\<close>: loading and starting the module, with any number of threads.
  \<^item> \<open>AddrSpace\<close>: translation of addresses, \<open>sel_ldr-inl.h\<close>. \<open>UserCopy\<close>: copies between the program and
    the runtime, \<open>nacl_copy.c\<close>. \<open>SysMemory\<close>, \<open>SysBrk\<close>, \<open>SysMmap\<close>, \<open>SysMmapProps\<close>: the memory system
    calls of \<open>sys_memory.c\<close>, over the translation, the map and the register of operations.
  \<^item> \<open>Xfer\<close>, \<open>XferProps\<close>: descriptors in messages, \<open>desc/nrd_xfer.c\<close> and the kinds of descriptors: writing
    them, building them from what arrives, and the handles that travel with them.
  \<^item> \<open>Elf\<close>, \<open>ElfProps\<close>: reading and checking the headers of an executable, \<open>elf_util_usgx.c\<close>.
    \<open>ElfLayout\<close>: the addresses the loader takes from them and the checks of the layout. \<open>ElfLoad\<close>,
    \<open>ElfLoadProps\<close>: the pages it adds to the enclave. \<open>SgxDriver\<close>: adding a page through the driver.
  \<^item> \<open>Enclave\<close>, \<open>EnclaveProofs\<close>: memory of enclave and host, the calls out and the copies between
    them (\<open>enclave_framework.c\<close>), with an arbitrary host. \<open>OcallFile\<close>, \<open>OcallMisc\<close>: every wrapper of a
    call out; \<open>OcallFileProofs\<close>, \<open>OcallProps\<close>, \<open>OcallMiscProps\<close>: what a host can reach through them.
    \<open>Ecall\<close>, \<open>EcallProps\<close>: the call in, both sides. \<open>SgxThread\<close>: the thread control structures.
  \<^item> \<open>Errno\<close>: the error numbers of both sides and their translation. \<open>AesCtr\<close>: counter mode of
    \<open>wolfssl/aes.c\<close>, for any block cipher. \<open>HostDesc\<close>, \<open>HostDescMisc\<close>, \<open>HostDescProps\<close>: host
    descriptors, \<open>shared/platform/sgx/nacl_host_desc.c\<close>, and the encryption of files.

  \<^bold>\<open>State.\<close> A structure of the code is a record, a pointer that may be null an option, memory a
  function from addresses to bytes, an object with a reference count its name in a map of counts.
  \<open>'a run\<close> is the result of code that may stop the process; a system call that fails returns its
  error number. Loops are recursive functions with a measure. Where the code can loop for ever
  (growing a destroyed dynamic array) the model is a partial function, and the theorems show that
  it returns on every well-formed state.

  \<^bold>\<open>Parameters.\<close> Whether an allocation succeeds, what the host answers and when it changes its memory,
  what newly allocated memory holds, the block cipher, the channel of messages, the file of the program, and
  reading and preparing the module (in \<open>ModuleState\<close>) are arguments.

  \<^bold>\<open>Bounds.\<close> Regions of the memory map end below page \<open>2 ^ 31\<close> (the comparison of entries is
  cut to an \<open>int\<close>; a sandbox of 32 address bits has \<open>2 ^ 20\<close> pages). Intervals: fewer than \<open>2 ^ 31\<close>
  at a time. Tables: indices below \<open>2 ^ 59\<close>; an \<open>int\<close> gives smaller ones. Sorting: an array whose size in bytes is
  below \<open>2 ^ 31\<close>. Messages: those the interface accepts.

  \<^bold>\<open>What the lemmas show.\<close> Each component has an invariant that its operations keep, and what each operation
  returns on every branch. The properties are numbered; those on calls out of the enclave hold for any host, those
  on locks and loading for any interleaving of the accesses or steps they name. Where the code fails its purpose
  the property says exactly how: a read that trusts the host's length (C12), a key stream used again (C19),
  thread structures lost on return or given out twice (C16), a second wait on a condition (C33), and the
  findings of the manifest.

  \<^bold>\<open>Not modelled.\<close> The manifest lists the parts with the reasons; in short: third-party libraries
  (wolfSSL but for counter mode, wolfMQTT, the allocator), the validators and the generated decoders,
  assembly, the build for other systems, debugging, tests and the libraries of untrusted programs.
  Of the runtime itself the other system calls (threads, clocks, sockets, signals, directories), code that is
  added while the program runs, which depends throughout on the validator, and the start-up of the loader are
  left out.
\<close>

end
